(* ===== verification/Prelude.thy ===== *)
theory Prelude
  imports Main "HOL-Library.Word"
begin

text \<open>
  The vocabulary the component theories share: the machine integer types of the C and C++
  sources, byte strings, the little and big endian readings of a byte string as a word and
  the writing of a word as bytes, and the collections of rewrite rules the components fill:
  \<^item> \<open>reader_simps\<close>: what a read of the Kaitai stream returns;
  \<^item> \<open>flow_simps\<close>: the fields of a connection state after an operation.
\<close>

unbundle bit_operations_syntax

type_synonym u8 = "8 word"
type_synonym u16 = "16 word"
type_synonym u32 = "32 word"
type_synonym u64 = "64 word"
type_synonym i32 = "32 word"
type_synonym i64 = "64 word"
type_synonym bytes = "u8 list"

named_theorems reader_simps
named_theorems flow_simps

section \<open>Bytes and words\<close>

text \<open>
  \<open>le_word bs\<close> is the word whose least significant byte is the first one of \<open>bs\<close>: what a
  little endian machine holds in an integer after copying \<open>bs\<close> over it.
  \<open>le_bytes n w\<close> is the converse: the \<open>n\<close> low bytes of \<open>w\<close>, least significant first.
\<close>

fun le_word :: "bytes \<Rightarrow> 'a::len word" where
  "le_word [] = 0"
| "le_word (b # bs) = ucast b OR push_bit 8 (le_word bs)"

fun le_bytes :: "nat \<Rightarrow> 'a::len word \<Rightarrow> bytes" where
  "le_bytes 0 w = []"
| "le_bytes (Suc n) w = ucast w # le_bytes n (drop_bit 8 w)"

definition be_word :: "bytes \<Rightarrow> 'a::len word" where
  "be_word bs = le_word (rev bs)"

definition be_bytes :: "nat \<Rightarrow> 'a::len word \<Rightarrow> bytes" where
  "be_bytes n w = rev (le_bytes n w)"

text \<open>Reversing the \<open>n\<close> bytes of a word: \<open>bswap_16\<close>, \<open>bswap_32\<close> and \<open>bswap_64\<close>.\<close>

definition byte_swap :: "nat \<Rightarrow> 'a::len word \<Rightarrow> 'a word" where
  "byte_swap n w = le_word (rev (le_bytes n w))"

lemma length_le_bytes [simp]: "length (le_bytes n w) = n"
  by (induction n arbitrary: w) auto

lemma length_be_bytes [simp]: "length (be_bytes n w) = n"
  by (simp add: be_bytes_def)

lemma bit_le_word:
  "bit (le_word bs :: 'a::len word) i \<longleftrightarrow>
     i < LENGTH('a) \<and> i div 8 < length bs \<and> bit (bs ! (i div 8)) (i mod 8)"
proof (induction bs arbitrary: i)
  case Nil
  then show ?case by simp
next
  case (Cons b bs)
  show ?case
  proof (cases "i < 8")
    case True
    then show ?thesis
      by (auto simp: bit_or_iff bit_ucast_iff bit_push_bit_iff possible_bit_def)
  next
    case False
    then have "i div 8 = Suc ((i - 8) div 8)" "i mod 8 = (i - 8) mod 8"
      by (simp_all add: le_div_geq le_mod_geq)
    with False show ?thesis
      by (auto simp: bit_or_iff bit_ucast_iff bit_push_bit_iff possible_bit_def Cons.IH
          dest: bit_imp_le_length)
  qed
qed

lemma nth_le_bytes: "i < n \<Longrightarrow> le_bytes n w ! i = ucast (drop_bit (8 * i) w)"
  by (induction n arbitrary: w i) (auto simp: less_Suc_eq_0_disj add.commute)

lemma le_bytes_le_word:
  assumes "8 * length bs \<le> LENGTH('a::len)"
  shows "le_bytes (length bs) (le_word bs :: 'a word) = bs"
proof (rule nth_equalityI)
  fix i assume "i < length (le_bytes (length bs) (le_word bs :: 'a word))"
  then have i: "i < length bs" by simp
  show "le_bytes (length bs) (le_word bs :: 'a word) ! i = bs ! i"
  proof (rule bit_word_eqI)
    fix k assume "k < LENGTH(8)"
    then have k: "k < 8" by simp
    have "(8 * i + k) div 8 = i" "(8 * i + k) mod 8 = k"
      using k by simp_all
    moreover have "8 * i + k < LENGTH('a)"
      using i k assms by linarith
    ultimately show "bit (le_bytes (length bs) (le_word bs :: 'a word) ! i) k = bit (bs ! i) k"
      using i k by (simp add: nth_le_bytes bit_ucast_iff bit_drop_bit_eq bit_le_word)
  qed
qed simp

lemma le_word_le_bytes:
  assumes "LENGTH('a::len) \<le> 8 * n"
  shows "le_word (le_bytes n (w :: 'a word)) = w"
proof (rule bit_word_eqI)
  fix i assume "i < LENGTH('a)"
  then have "i div 8 < n" using assms by linarith
  moreover have "8 * (i div 8) + i mod 8 = i" by simp
  ultimately show "bit (le_word (le_bytes n w) :: 'a word) i = bit w i"
    using \<open>i < LENGTH('a)\<close>
    by (simp add: bit_le_word nth_le_bytes bit_ucast_iff bit_drop_bit_eq)
qed

lemma be_word_be_bytes:
  "LENGTH('a::len) \<le> 8 * n \<Longrightarrow> be_word (be_bytes n (w :: 'a word)) = w"
  by (simp add: be_word_def be_bytes_def le_word_le_bytes)

lemma be_bytes_be_word:
  assumes "8 * length bs \<le> LENGTH('a::len)"
  shows "be_bytes (length bs) (be_word bs :: 'a word) = bs"
  using le_bytes_le_word [of "rev bs", where 'a = 'a] assms
  by (simp add: be_word_def be_bytes_def)

lemma byte_swap_le_word:
  assumes "8 * length bs \<le> LENGTH('a::len)" and "length bs = n"
  shows "byte_swap n (le_word bs :: 'a word) = be_word bs"
  using assms by (auto simp: byte_swap_def be_word_def le_bytes_le_word)

lemma le_bytes_inject:
  "LENGTH('a::len) \<le> 8 * n \<Longrightarrow> le_bytes n (v :: 'a word) = le_bytes n w \<longleftrightarrow> v = w"
  by (metis le_word_le_bytes)

lemma be_bytes_inject:
  "LENGTH('a::len) \<le> 8 * n \<Longrightarrow> be_bytes n (v :: 'a word) = be_bytes n w \<longleftrightarrow> v = w"
  by (metis be_word_be_bytes)

lemma le_bytes_le_word_take:
  "n \<le> length bs \<Longrightarrow> 8 * n \<le> LENGTH('a::len) \<Longrightarrow>
     le_bytes n (le_word (take n bs) :: 'a word) = take n bs"
  using le_bytes_le_word [of "take n bs", where 'a = 'a] by (simp add: min_absorb2)

lemma be_bytes_be_word_take:
  "n \<le> length bs \<Longrightarrow> 8 * n \<le> LENGTH('a::len) \<Longrightarrow>
     be_bytes n (be_word (take n bs) :: 'a word) = take n bs"
  using be_bytes_be_word [of "take n bs", where 'a = 'a] by (simp add: min_absorb2)

section \<open>Lists\<close>

text \<open>Adjacent slices of a byte string joined: the shape a record's fields have after reading.\<close>

lemma take_append_slice: "p = m \<Longrightarrow> take m xs @ take k (drop p xs) = take (m + k) xs"
  by (simp add: take_add)

lemma slice_append_slice:
  "p = n + m \<Longrightarrow> take m (drop n xs) @ take k (drop p xs) = take (m + k) (drop n xs)"
  by (simp add: take_add [of m k] add.commute [of n m])

lemma hd_slice: "1 \<le> length xs \<Longrightarrow> [hd xs] = take 1 xs"
  by (cases xs) simp_all

lemma hd_cons_slice:
  "n < length xs \<Longrightarrow> p = n + 1 \<Longrightarrow> hd (drop n xs) # take k (drop p xs) = take (k + 1) (drop n xs)"
  by (simp add: take_Suc drop_Suc drop_eq_Nil flip: tl_drop)

lemma hd_cons_slice_0:
  "1 \<le> length xs \<Longrightarrow> hd xs # take k (drop 1 xs) = take (k + 1) xs"
  by (cases xs) simp_all

lemmas slice_simps = take_append_slice slice_append_slice hd_cons_slice hd_cons_slice_0

lemma take_drop_split: "n \<le> length xs \<Longrightarrow> \<exists>ys. xs = take n xs @ ys \<and> length (take n xs) = n"
  by (metis append_take_drop_id length_take min.absorb2)

lemma length_concat_uniform:
  "(\<And>x. x \<in> set xs \<Longrightarrow> length x = n) \<Longrightarrow> length (concat xs) = n * length xs"
  by (induction xs) auto

end
