(* ===== verification/KStream.thy ===== *)
theory KStream
  imports Prelude
begin

text \<open>
  The Kaitai run time stream (\<open>kaitai/kaitaistream.cpp\<close>). A \<open>kstream\<close> is the byte content
  behind \<open>m_io\<close>, the get position and the two fields of the unaligned bit reader. An operation
  returns the value and the new stream, or the exception it throws; \<open>init\<close> switches the
  stream's own exceptions on for \<open>eofbit\<close>, \<open>failbit\<close> and \<open>badbit\<close>, so a read past the end
  throws \<open>std::ios_base::failure\<close>, here \<open>IosFailure\<close>. The rest of the stream after a throw
  is never looked at by the callers, so an error carries no stream.

  The theory ends with the interface its clients rely on: a wire format is a reader together
  with an encoding, and reading what was encoded gives it back.
\<close>

section \<open>State and exceptions\<close>

datatype ks_exception =
    IosFailure
  | RuntimeError string
  | LengthError
  | OutOfRange
  | InvalidArgument

text \<open>
  The classes a handler \<open>catch (std::runtime_error \<dots>)\<close> takes: \<open>std::runtime_error\<close> itself and
  \<open>std::ios_base::failure\<close>, which C++11 derives from \<open>std::system_error\<close>. The others
  derive from \<open>std::logic_error\<close>.
\<close>

fun is_runtime_error :: "ks_exception \<Rightarrow> bool" where
  "is_runtime_error IosFailure = True"
| "is_runtime_error (RuntimeError _) = True"
| "is_runtime_error _ = False"

record kstream =
  ks_data :: bytes
  ks_pos :: nat
  ks_bits :: u64
  ks_bits_left :: int

type_synonym 'a reader = "kstream \<Rightarrow> ks_exception + ('a \<times> kstream)"

definition kstream_of :: "bytes \<Rightarrow> kstream" where
  "kstream_of data = \<lparr>ks_data = data, ks_pos = 0, ks_bits = 0, ks_bits_left = 0\<rparr>"

definition ks_rest :: "kstream \<Rightarrow> bytes" where
  "ks_rest ks = drop (ks_pos ks) (ks_data ks)"

definition ks_left :: "kstream \<Rightarrow> nat" where
  "ks_left ks = length (ks_data ks) - ks_pos ks"

definition ks_skip :: "nat \<Rightarrow> kstream \<Rightarrow> kstream" where
  "ks_skip n ks = ks\<lparr>ks_pos := ks_pos ks + n\<rparr>"

definition ks_return :: "'a \<Rightarrow> 'a reader" where
  "ks_return x ks = Inr (x, ks)"

definition ks_throw :: "ks_exception \<Rightarrow> 'a reader" where
  "ks_throw e ks = Inl e"

definition ks_bind :: "'a reader \<Rightarrow> ('a \<Rightarrow> 'b reader) \<Rightarrow> 'b reader" where
  "ks_bind r f ks = (case r ks of Inl e \<Rightarrow> Inl e | Inr (x, ks') \<Rightarrow> f x ks')"

section \<open>Stream positioning\<close>

definition is_eof :: "kstream \<Rightarrow> bool" where
  "is_eof ks \<longleftrightarrow> length (ks_data ks) \<le> ks_pos ks"

definition seek :: "nat \<Rightarrow> unit reader" where
  "seek p ks = (if p \<le> length (ks_data ks) then Inr ((), ks\<lparr>ks_pos := p\<rparr>) else Inl IosFailure)"

definition pos :: "kstream \<Rightarrow> nat" where
  "pos ks = ks_pos ks"

definition ks_size :: "kstream \<Rightarrow> nat" where
  "ks_size ks = length (ks_data ks)"

section \<open>Integers\<close>

text \<open>\<open>m_io->read (buf, n)\<close>: all \<open>n\<close> bytes, or the end of the stream throws.\<close>

definition m_io_read :: "nat \<Rightarrow> bytes reader" where
  "m_io_read n ks =
     (if n \<le> ks_left ks then Inr (take n (ks_rest ks), ks_skip n ks) else Inl IosFailure)"

definition read_s1 :: "u8 reader" where
  "read_s1 = ks_bind (m_io_read 1) (\<lambda>t. ks_return (le_word t))"

definition read_s2be :: "u16 reader" where
  "read_s2be = ks_bind (m_io_read 2) (\<lambda>t. ks_return (byte_swap 2 (le_word t)))"

definition read_s4be :: "u32 reader" where
  "read_s4be = ks_bind (m_io_read 4) (\<lambda>t. ks_return (byte_swap 4 (le_word t)))"

definition read_s8be :: "u64 reader" where
  "read_s8be = ks_bind (m_io_read 8) (\<lambda>t. ks_return (byte_swap 8 (le_word t)))"

definition read_s2le :: "u16 reader" where
  "read_s2le = ks_bind (m_io_read 2) (\<lambda>t. ks_return (le_word t))"

definition read_s4le :: "u32 reader" where
  "read_s4le = ks_bind (m_io_read 4) (\<lambda>t. ks_return (le_word t))"

definition read_s8le :: "u64 reader" where
  "read_s8le = ks_bind (m_io_read 8) (\<lambda>t. ks_return (le_word t))"

definition read_u1 :: "u8 reader" where
  "read_u1 = ks_bind (m_io_read 1) (\<lambda>t. ks_return (le_word t))"

definition read_u2be :: "u16 reader" where
  "read_u2be = ks_bind (m_io_read 2) (\<lambda>t. ks_return (byte_swap 2 (le_word t)))"

definition read_u4be :: "u32 reader" where
  "read_u4be = ks_bind (m_io_read 4) (\<lambda>t. ks_return (byte_swap 4 (le_word t)))"

definition read_u8be :: "u64 reader" where
  "read_u8be = ks_bind (m_io_read 8) (\<lambda>t. ks_return (byte_swap 8 (le_word t)))"

definition read_u2le :: "u16 reader" where
  "read_u2le = ks_bind (m_io_read 2) (\<lambda>t. ks_return (le_word t))"

definition read_u4le :: "u32 reader" where
  "read_u4le = ks_bind (m_io_read 4) (\<lambda>t. ks_return (le_word t))"

definition read_u8le :: "u64 reader" where
  "read_u8le = ks_bind (m_io_read 8) (\<lambda>t. ks_return (le_word t))"

section \<open>Unaligned bit values\<close>

definition align_to_byte :: "kstream \<Rightarrow> kstream" where
  "align_to_byte ks = ks\<lparr>ks_bits_left := 0, ks_bits := 0\<rparr>"

text \<open>A shift by a negative amount or by 64 and more is undefined in C++: no value is claimed.\<close>

definition get_mask_ones :: "int \<Rightarrow> u64" where
  "get_mask_ones n = (if n = 64 then 0xFFFFFFFFFFFFFFFF else push_bit (nat n) 1 - 1)"

fun push_bytes :: "bytes \<Rightarrow> u64 \<times> int \<Rightarrow> u64 \<times> int" where
  "push_bytes [] s = s"
| "push_bytes (b # bs) (bits, left) = push_bytes bs (push_bit 8 bits OR ucast b, left + 8)"

definition read_bits_take :: "int \<Rightarrow> u64 reader" where
  "read_bits_take n ks =
     (let shift_bits = ks_bits_left ks - n;
          mask = push_bit (nat shift_bits) (get_mask_ones n);
          res = drop_bit (nat shift_bits) (ks_bits ks AND mask);
          left = ks_bits_left ks - n
      in Inr (res, ks\<lparr>ks_bits_left := left, ks_bits := ks_bits ks AND get_mask_ones left\<rparr>))"

definition read_bits_int :: "int \<Rightarrow> u64 reader" where
  "read_bits_int n ks =
     (let bits_needed = n - ks_bits_left ks in
      if 0 < bits_needed then
        (let bytes_needed = (bits_needed - 1) div 8 + 1 in
         if 8 < bytes_needed then Inl (RuntimeError ''read_bits_int: more than 8 bytes requested'')
         else case m_io_read (nat bytes_needed) ks of
                Inl e \<Rightarrow> Inl e
              | Inr (buf, ks') \<Rightarrow>
                  (case push_bytes buf (ks_bits ks', ks_bits_left ks') of
                     (bits, left) \<Rightarrow>
                       read_bits_take n (ks'\<lparr>ks_bits := bits, ks_bits_left := left\<rparr>)))
      else read_bits_take n ks)"

section \<open>Byte arrays\<close>

text \<open>
  \<open>std::vector<char> result(len)\<close> stands before the test of the sign, and a vector of a
  negative (so huge) size throws \<open>std::length_error\<close>: the code's own message is never seen.
\<close>

definition read_bytes :: "int \<Rightarrow> bytes reader" where
  "read_bytes len ks =
     (if len < 0 then Inl LengthError
      else if len < 0 then Inl (RuntimeError ''read_bytes: requested a negative amount'')
      else if 0 < len then m_io_read (nat len) ks
      else Inr ([], ks))"

definition read_bytes_full :: "bytes reader" where
  "read_bytes_full ks = m_io_read (ks_size ks - pos ks) ks"

definition ensure_fixed_contents :: "bytes \<Rightarrow> bytes reader" where
  "ensure_fixed_contents expected = ks_bind (read_bytes (int (length expected))) (\<lambda>actual.
     if actual \<noteq> expected
     then ks_throw (RuntimeError ''ensure_fixed_contents: actual data does not match expected data'')
     else ks_return actual)"

function strip_len :: "bytes \<Rightarrow> u8 \<Rightarrow> nat \<Rightarrow> nat" where
  "strip_len src pad_byte new_len =
     (if 0 < new_len \<and> src ! (new_len - 1) = pad_byte
      then strip_len src pad_byte (new_len - 1) else new_len)"
  by pat_completeness auto
termination
  by (relation "measure (\<lambda>(src, p, n). n)") auto

definition bytes_strip_right :: "bytes \<Rightarrow> u8 \<Rightarrow> bytes" where
  "bytes_strip_right src pad_byte = take (strip_len src pad_byte (length src)) src"

function term_len :: "bytes \<Rightarrow> u8 \<Rightarrow> nat \<Rightarrow> nat" where
  "term_len src t new_len =
     (if new_len < length src \<and> src ! new_len \<noteq> t
      then term_len src t (new_len + 1) else new_len)"
  by pat_completeness auto
termination
  by (relation "measure (\<lambda>(src, t, n). length src - n)") auto

definition bytes_terminate :: "bytes \<Rightarrow> u8 \<Rightarrow> bool \<Rightarrow> bytes" where
  "bytes_terminate src t incl =
     (let n = term_len src t 0
      in take (if incl \<and> n < length src then n + 1 else n) src)"

text \<open>
  \<open>std::getline\<close> sets \<open>eofbit\<close> when the content ends before the terminator, and the enabled
  exceptions turn that into a throw before the code's own \<open>m_io->eof ()\<close> test: with or without
  \<open>eos_error\<close> a missing terminator throws.
\<close>

definition read_bytes_term :: "u8 \<Rightarrow> bool \<Rightarrow> bool \<Rightarrow> bool \<Rightarrow> bytes reader" where
  "read_bytes_term t incl consume eos_error ks =
     (let n = term_len (ks_rest ks) t 0
      in if n = length (ks_rest ks) then Inl IosFailure
         else Inr (take n (ks_rest ks) @ (if incl then [t] else []),
                   ks_skip (if consume then n + 1 else n) ks))"

declare strip_len.simps [simp del] term_len.simps [simp del]

section \<open>Byte array processing and utilities\<close>

definition process_xor_one :: "bytes \<Rightarrow> u8 \<Rightarrow> bytes" where
  "process_xor_one data key = map (\<lambda>b. b XOR key) data"

text \<open>
  The loop indexes \<open>key[ki]\<close> before it wraps \<open>ki\<close>, so an empty key is read out of bounds as
  soon as there is data: no result is claimed for it.
\<close>

fun xor_many_from :: "bytes \<Rightarrow> bytes \<Rightarrow> nat \<Rightarrow> bytes" where
  "xor_many_from [] key ki = []"
| "xor_many_from (b # bs) key ki =
     (b XOR key ! ki) # xor_many_from bs key (if length key \<le> ki + 1 then 0 else ki + 1)"

definition process_xor_many :: "bytes \<Rightarrow> bytes \<Rightarrow> bytes option" where
  "process_xor_many data key =
     (if key = [] \<and> data \<noteq> [] then None else Some (xor_many_from data key 0))"

text \<open>
  \<open>bits\<close> is promoted to \<open>int\<close>, shifted and narrowed to a byte again. An amount above 8 makes
  the right shift negative, which is undefined.
\<close>

definition process_rotate_left :: "bytes \<Rightarrow> nat \<Rightarrow> bytes option" where
  "process_rotate_left data amount =
     (if 8 < amount then None
      else Some (map (\<lambda>b. ucast (push_bit amount (ucast b :: i32) OR
                                drop_bit (8 - amount) (ucast b :: i32))) data))"

text \<open>C++ \<open>%\<close> truncates towards zero.\<close>

definition ks_mod :: "int \<Rightarrow> int \<Rightarrow> ks_exception + int" where
  "ks_mod a b =
     (if b \<le> 0 then Inl InvalidArgument
      else let r = sgn a * (\<bar>a\<bar> mod b) in Inr (if r < 0 then r + b else r))"

definition ks_reverse :: "bytes \<Rightarrow> bytes" where
  "ks_reverse val = rev val"

definition bytes_to_str :: "bytes \<Rightarrow> string \<Rightarrow> bytes" where
  "bytes_to_str src src_enc = src"

section \<open>What the reads return\<close>

lemma ks_left_eq: "ks_left ks = length (ks_rest ks)"
  by (simp add: ks_left_def ks_rest_def)

lemma ks_rest_kstream_of [simp]: "ks_rest (kstream_of bs) = bs"
  by (simp add: ks_rest_def kstream_of_def)

lemma ks_left_kstream_of [simp]: "ks_left (kstream_of bs) = length bs"
  by (simp add: ks_left_eq)

lemma ks_rest_skip [simp]: "ks_rest (ks_skip n ks) = drop n (ks_rest ks)"
  by (simp add: ks_rest_def ks_skip_def add.commute)

lemma ks_left_skip: "ks_left (ks_skip n ks) = ks_left ks - n"
  by (simp add: ks_left_eq)

lemma le_ks_left_skip [simp]: "0 < n \<Longrightarrow> n \<le> ks_left (ks_skip m ks) \<longleftrightarrow> m + n \<le> ks_left ks"
  by (auto simp: ks_left_skip)

lemma ks_skip_skip [simp]: "ks_skip m (ks_skip n ks) = ks_skip (n + m) ks"
  by (simp add: ks_skip_def)

lemma ks_skip_0 [simp]: "ks_skip 0 ks = ks"
  by (simp add: ks_skip_def)

lemma is_eof_iff: "is_eof ks \<longleftrightarrow> ks_left ks = 0"
  by (auto simp: is_eof_def ks_left_def)

lemma is_eof_rest: "is_eof ks \<longleftrightarrow> ks_rest ks = []"
  by (simp add: is_eof_iff ks_left_eq)

lemma ks_bind_return [reader_simps]: "ks_bind r (\<lambda>x. ks_return (f x)) ks =
   (case r ks of Inl e \<Rightarrow> Inl e | Inr (x, ks') \<Rightarrow> Inr (f x, ks'))"
  by (simp add: ks_bind_def ks_return_def split: sum.splits)

lemma read_bytes_nat [reader_simps]: "read_bytes (int n) ks =
   (if n \<le> ks_left ks then Inr (take n (ks_rest ks), ks_skip n ks) else Inl IosFailure)"
  by (simp add: read_bytes_def m_io_read_def)

lemma read_bytes_numeral [reader_simps]: "read_bytes (numeral n) ks =
   (if numeral n \<le> ks_left ks
    then Inr (take (numeral n) (ks_rest ks), ks_skip (numeral n) ks) else Inl IosFailure)"
  using read_bytes_nat [of "numeral n"] by simp

lemma read_u1_eq [reader_simps]: "read_u1 ks =
   (if 1 \<le> ks_left ks then Inr (hd (ks_rest ks), ks_skip 1 ks) else Inl IosFailure)"
proof (cases "ks_rest ks")
  case Nil
  then show ?thesis
    by (simp add: read_u1_def ks_bind_def m_io_read_def ks_left_eq)
next
  case (Cons b bs)
  then show ?thesis
    by (simp add: read_u1_def ks_bind_return m_io_read_def ks_left_eq)
qed

lemma read_u2le_eq [reader_simps]: "read_u2le ks =
   (if 2 \<le> ks_left ks then Inr (le_word (take 2 (ks_rest ks)), ks_skip 2 ks) else Inl IosFailure)"
  by (simp add: read_u2le_def ks_bind_return m_io_read_def)

lemma read_u4le_eq [reader_simps]: "read_u4le ks =
   (if 4 \<le> ks_left ks then Inr (le_word (take 4 (ks_rest ks)), ks_skip 4 ks) else Inl IosFailure)"
  by (simp add: read_u4le_def ks_bind_return m_io_read_def)

lemma read_u8le_eq [reader_simps]: "read_u8le ks =
   (if 8 \<le> ks_left ks then Inr (le_word (take 8 (ks_rest ks)), ks_skip 8 ks) else Inl IosFailure)"
  by (simp add: read_u8le_def ks_bind_return m_io_read_def)

lemma read_u2be_eq [reader_simps]: "read_u2be ks =
   (if 2 \<le> ks_left ks then Inr (be_word (take 2 (ks_rest ks)), ks_skip 2 ks) else Inl IosFailure)"
  by (simp add: read_u2be_def ks_bind_return m_io_read_def byte_swap_le_word ks_left_eq)

lemma read_u4be_eq [reader_simps]: "read_u4be ks =
   (if 4 \<le> ks_left ks then Inr (be_word (take 4 (ks_rest ks)), ks_skip 4 ks) else Inl IosFailure)"
  by (simp add: read_u4be_def ks_bind_return m_io_read_def byte_swap_le_word ks_left_eq)

lemma read_u8be_eq [reader_simps]: "read_u8be ks =
   (if 8 \<le> ks_left ks then Inr (be_word (take 8 (ks_rest ks)), ks_skip 8 ks) else Inl IosFailure)"
  by (simp add: read_u8be_def ks_bind_return m_io_read_def byte_swap_le_word ks_left_eq)

lemma ensure_fixed_contents_eq [reader_simps]: "ensure_fixed_contents expected ks =
   (if length expected \<le> ks_left ks then
      (if take (length expected) (ks_rest ks) = expected
       then Inr (expected, ks_skip (length expected) ks)
       else Inl (RuntimeError ''ensure_fixed_contents: actual data does not match expected data''))
    else Inl IosFailure)"
  by (simp add: ensure_fixed_contents_def ks_bind_def read_bytes_nat ks_throw_def ks_return_def)

section \<open>The interface of a wire format\<close>

text \<open>What a reader took from the stream.\<close>

definition consumed :: "bytes \<Rightarrow> kstream \<Rightarrow> kstream \<Rightarrow> bool" where
  "consumed bs ks ks' \<longleftrightarrow> ks_rest ks = bs @ ks_rest ks' \<and> ks' = ks_skip (length bs) ks"

lemma consumed_nil [simp]: "consumed [] ks ks"
  by (simp add: consumed_def)

lemma consumed_append:
  assumes "consumed a ks k1" and "consumed b k1 k2"
  shows "consumed (a @ b) ks k2"
proof -
  from assms have "ks_rest ks = a @ b @ ks_rest k2" "k2 = ks_skip (length b) (ks_skip (length a) ks)"
    unfolding consumed_def by metis+
  then show ?thesis unfolding consumed_def by simp
qed

lemma ks_bind_Inr:
  "ks_bind r f ks = Inr (x, ks') \<longleftrightarrow> (\<exists>y k1. r ks = Inr (y, k1) \<and> f y k1 = Inr (x, ks'))"
  by (auto simp: ks_bind_def split: sum.splits)

lemma ks_return_Inr: "ks_return y ks = Inr (x, ks') \<longleftrightarrow> x = y \<and> ks' = ks"
  by (auto simp: ks_return_def)

text \<open>
  A wire format: reading the encoding of a well formed value gives the value and leaves the
  stream right behind it; and whatever is read successfully was the encoding of the value that
  came out. It follows that no encoding is a proper prefix of another.
\<close>

locale wire_codec =
  fixes reads :: "'a reader"
    and enc :: "'a \<Rightarrow> bytes"
    and wf :: "'a \<Rightarrow> bool"
  assumes read_enc:
      "wf x \<Longrightarrow> ks_rest ks = enc x @ rest \<Longrightarrow> reads ks = Inr (x, ks_skip (length (enc x)) ks)"
    and read_inv:
      "reads ks = Inr (x, ks') \<Longrightarrow>
         wf x \<and> ks_rest ks = enc x @ ks_rest ks' \<and> ks' = ks_skip (length (enc x)) ks"
begin

lemma read_enc_exact: "wf x \<Longrightarrow> \<exists>ks'. reads (kstream_of (enc x)) = Inr (x, ks') \<and> is_eof ks'"
  using read_enc [of x "kstream_of (enc x)" "[]"] by (simp add: is_eof_rest)

lemma read_consumed: "reads ks = Inr (x, ks') \<Longrightarrow> wf x \<and> consumed (enc x) ks ks'"
  unfolding consumed_def by (rule read_inv)

lemma read_all: "wf x \<Longrightarrow> ks_rest ks = enc x \<Longrightarrow> reads ks = Inr (x, ks_skip (length (enc x)) ks)"
  using read_enc [of x ks "[]"] by simp

lemma enc_prefix_free:
  assumes "wf x" and "wf y" and "enc x @ r = enc y @ s"
  shows "x = y \<and> r = s"
proof -
  have "reads (kstream_of (enc x @ r)) = Inr (x, ks_skip (length (enc x)) (kstream_of (enc x @ r)))"
    using read_enc [OF assms(1)] by simp
  moreover have "reads (kstream_of (enc x @ r)) =
      Inr (y, ks_skip (length (enc y)) (kstream_of (enc x @ r)))"
    using read_enc [OF assms(2)] assms(3) by simp
  ultimately have "x = y" by simp
  with assms(3) show ?thesis by simp
qed

end

text \<open>
  A format of fixed width: with too few bytes the read throws the stream's failure, with enough
  it succeeds.
\<close>

locale fixed_codec =
  fixes reads :: "'a reader"
    and enc :: "'a \<Rightarrow> bytes"
    and wf :: "'a \<Rightarrow> bool"
    and width :: nat
  assumes read_short: "ks_left ks < width \<Longrightarrow> reads ks = Inl IosFailure"
    and read_ok: "width \<le> ks_left ks \<Longrightarrow>
      \<exists>x. reads ks = Inr (x, ks_skip width ks) \<and> wf x \<and> enc x = take width (ks_rest ks)"
    and enc_width: "wf x \<Longrightarrow> length (enc x) = width"
    and enc_inj: "wf x \<Longrightarrow> wf y \<Longrightarrow> enc x = enc y \<Longrightarrow> x = y"
    and width_pos: "0 < width"

sublocale fixed_codec \<subseteq> wire_codec reads enc wf
proof unfold_locales
  fix x :: 'a and ks rest
  assume wf: "wf x" and rest: "ks_rest ks = enc x @ rest"
  then have "width \<le> ks_left ks" by (simp add: ks_left_eq enc_width)
  then obtain y where y: "reads ks = Inr (y, ks_skip width ks)" "wf y"
      and "enc y = take width (ks_rest ks)"
    using read_ok by blast
  then have "enc y = enc x" using rest wf by (simp add: enc_width)
  then have "y = x" using enc_inj wf y(2) by blast
  then show "reads ks = Inr (x, ks_skip (length (enc x)) ks)"
    using y wf by (simp add: enc_width)
next
  fix x :: 'a and ks ks'
  assume r: "reads ks = Inr (x, ks')"
  then have "width \<le> ks_left ks" using read_short [of ks] by (cases "width \<le> ks_left ks") auto
  then have "wf x" "enc x = take width (ks_rest ks)" "ks' = ks_skip width ks"
    using read_ok r by fastforce+
  moreover from \<open>wf x\<close> have "length (enc x) = width" by (rule enc_width)
  ultimately show "wf x \<and> ks_rest ks = enc x @ ks_rest ks' \<and> ks' = ks_skip (length (enc x)) ks"
    by simp
qed

context fixed_codec begin

lemma read_progress: "reads ks = Inr (x, ks') \<Longrightarrow> ks' = ks_skip width ks \<and> width \<le> ks_left ks"
  using read_ok [of ks] read_short [of ks] by (cases "width \<le> ks_left ks") auto

lemma concat_width: "list_all wf ys \<Longrightarrow> length (concat (map enc ys)) = width * length ys"
  by (induction ys) (simp_all add: enc_width)

lemma read_succeeds_iff: "(\<exists>r. reads ks = Inr r) \<longleftrightarrow> width \<le> ks_left ks"
  using read_ok [of ks] read_short [of ks] by (cases "width \<le> ks_left ks") fastforce+

end

text \<open>
  The generated \<open>do { \<dots>; i++; } while (!(i == n || _io()->is_eof()))\<close> over a format of fixed
  width: \<open>loop i acc\<close> is the loop with \<open>i\<close> records already in the vector \<open>acc\<close>.
\<close>

locale counted_records = fixed_codec reads enc wf width
  for reads :: "'a reader" and enc :: "'a \<Rightarrow> bytes" and wf :: "'a \<Rightarrow> bool" and width :: nat +
  fixes count :: nat
    and loop :: "nat \<Rightarrow> 'a list \<Rightarrow> 'a list reader"
  assumes loop_eq: "loop i acc ks =
    (case reads ks of
       Inl e \<Rightarrow> Inl e
     | Inr (x, ks') \<Rightarrow>
         if i + 1 = count \<or> is_eof ks' then Inr (acc @ [x], ks')
         else loop (i + 1) (acc @ [x]) ks')"
begin

text \<open>Whatever the loop returns, the records in it are exactly the bytes it consumed.\<close>

lemma loop_inv:
  "loop i acc ks = Inr (xs, ks') \<Longrightarrow>
     \<exists>ys. xs = acc @ ys \<and> ys \<noteq> [] \<and> list_all wf ys \<and>
          ks_rest ks = concat (map enc ys) @ ks_rest ks' \<and> ks' = ks_skip (width * length ys) ks \<and>
          (i + length ys = count \<or> is_eof ks') \<and> (i < count \<longrightarrow> i + length ys \<le> count)"
proof (induction "ks_left ks" arbitrary: i acc ks rule: less_induct)
  case less
  from less.prems obtain x ks1 where r: "reads ks = Inr (x, ks1)"
    by (subst (asm) loop_eq) (auto split: sum.splits)
  from read_inv [OF r] have "wf x" and split: "ks_rest ks = enc x @ ks_rest ks1" by blast+
  note inv = this enc_width [OF \<open>wf x\<close>] and prog = read_progress [OF r]
  show ?case
  proof (cases "i + 1 = count \<or> is_eof ks1")
    case True
    with r have "loop i acc ks = Inr (acc @ [x], ks1)" by (subst loop_eq) simp
    with less.prems have "xs = acc @ [x]" "ks' = ks1" by simp_all
    with inv(1) split prog True show ?thesis
      by (intro exI [of _ "[x]"] conjI) (simp_all del: ks_rest_skip)
  next
    case False
    with r have "loop i acc ks = loop (i + 1) (acc @ [x]) ks1" by (subst loop_eq) simp
    with less.prems have "loop (i + 1) (acc @ [x]) ks1 = Inr (xs, ks')" by simp
    moreover have "ks_left ks1 < ks_left ks" using prog width_pos by (simp add: ks_left_skip)
    ultimately obtain ys where "xs = (acc @ [x]) @ ys" "list_all wf ys"
        "ks_rest ks1 = concat (map enc ys) @ ks_rest ks'" "ks' = ks_skip (width * length ys) ks1"
        "i + 1 + length ys = count \<or> is_eof ks'" "i + 1 < count \<longrightarrow> i + 1 + length ys \<le> count"
      using less.hyps by blast
    with inv(1) split prog False show ?thesis
      by (intro exI [of _ "x # ys"] conjI) (simp_all del: ks_rest_skip)
  qed
qed

lemma loop_enc:
  assumes "list_all wf ys" and "ys \<noteq> []" and "ks_rest ks = concat (map enc ys) @ rest"
    and "i + length ys = count \<or> rest = [] \<and> (i < count \<longrightarrow> i + length ys \<le> count)"
  shows "loop i acc ks = Inr (acc @ ys, ks_skip (width * length ys) ks)"
  using assms
proof (induction ys arbitrary: i acc ks)
  case Nil
  then show ?case by simp
next
  case (Cons y ys)
  then have r: "reads ks = Inr (y, ks_skip width ks)"
    using read_enc [of y ks "concat (map enc ys) @ rest"] by (simp add: enc_width)
  have rest1: "ks_rest (ks_skip width ks) = concat (map enc ys) @ rest"
    using Cons.prems by (simp add: enc_width)
  show ?case
  proof (cases "ys = []")
    case True
    with Cons.prems r rest1 show ?thesis
      by (subst loop_eq) (auto simp: is_eof_rest)
  next
    case False
    then obtain z zs where ys: "ys = z # zs" by (cases ys) auto
    have "wf z" using Cons.prems ys by simp
    then have "enc z \<noteq> []" using enc_width [of z] width_pos by auto
    then have "\<not> is_eof (ks_skip width ks)"
      using rest1 ys by (simp add: is_eof_rest)
    moreover have "i + 1 \<noteq> count" using Cons.prems(4) ys by auto
    ultimately have "loop i acc ks = loop (i + 1) (acc @ [y]) (ks_skip width ks)"
      using r by (subst loop_eq) simp
    also have "\<dots> = Inr ((acc @ [y]) @ ys, ks_skip (width * length ys) (ks_skip width ks))"
      using Cons.prems False rest1 by (intro Cons.IH) auto
    finally show ?thesis by simp
  qed
qed

text \<open>The two laws for a loop that starts with an empty vector.\<close>

lemma loop_consumed:
  assumes "loop 0 [] ks = Inr (xs, ks')"
  shows "xs \<noteq> [] \<and> list_all wf xs \<and> (count \<noteq> 0 \<longrightarrow> length xs \<le> count) \<and>
    consumed (concat (map enc xs)) ks ks'"
  using loop_inv [OF assms] by (auto simp only: consumed_def concat_width append_Nil add_0 neq0_conv)

lemma loop_enc_all:
  assumes "list_all wf xs" and "xs \<noteq> []" and "count \<noteq> 0 \<longrightarrow> length xs \<le> count"
    and "ks_rest ks = concat (map enc xs)"
  shows "loop 0 [] ks = Inr (xs, ks_skip (length (concat (map enc xs))) ks)"
  using loop_enc [of xs ks "[]" 0 "[]"] assms by (simp add: concat_width)

text \<open>A last record that is cut short makes the whole loop throw.\<close>

lemma loop_partial:
  assumes "list_all wf ys" and "ks_rest ks = concat (map enc ys) @ rest"
    and "rest \<noteq> [] \<or> ys = []" and "length rest < width" and "i + length ys < count \<or> count \<le> i"
  shows "loop i acc ks = Inl IosFailure"
  using assms
proof (induction ys arbitrary: i acc ks)
  case Nil
  then have "reads ks = Inl IosFailure" by (intro read_short) (simp add: ks_left_eq)
  then show ?case by (subst loop_eq) simp
next
  case (Cons y ys)
  then have r: "reads ks = Inr (y, ks_skip width ks)"
    using read_enc [of y ks "concat (map enc ys) @ rest"] by (simp add: enc_width)
  have rest1: "ks_rest (ks_skip width ks) = concat (map enc ys) @ rest"
    using Cons.prems by (simp add: enc_width)
  then have "\<not> is_eof (ks_skip width ks)"
    using Cons.prems(3) by (simp add: is_eof_rest)
  moreover have "i + 1 \<noteq> count" using Cons.prems(5) by auto
  ultimately have "loop i acc ks = loop (i + 1) (acc @ [y]) (ks_skip width ks)"
    using r by (subst loop_eq) simp
  also have "\<dots> = Inl IosFailure"
    using Cons.prems rest1 by (intro Cons.IH) auto
  finally show ?case .
qed

end

end
