(* ===== verification/NanoHeader.thy ===== *)
theory NanoHeader
  imports KStream
begin

text \<open>
  The enumerations of the protocol and the message header (\<open>nano.h\<close> and \<open>nano.cpp\<close>,
  generated from the protocol definition). A C++ \<open>static_cast\<close> to an enumeration keeps a value
  that no enumerator names: each enumeration has a constructor for those, holding the value.
  The header's derived fields (\<open>block_type\<close> and the others) are cached behind \<open>f_\<dots>\<close> flags in
  the code; they depend on \<open>m_extensions\<close> alone, which nothing changes after the read, so here
  they are functions of the header.
\<close>

section \<open>Enumerations\<close>

datatype enum_blocktype_t =
    ENUM_BLOCKTYPE_INVALID
  | ENUM_BLOCKTYPE_NOT_A_BLOCK
  | ENUM_BLOCKTYPE_SEND
  | ENUM_BLOCKTYPE_RECEIVE
  | ENUM_BLOCKTYPE_OPEN
  | ENUM_BLOCKTYPE_CHANGE
  | ENUM_BLOCKTYPE_STATE
  | ENUM_BLOCKTYPE_UNLISTED i32

definition enum_blocktype_of :: "i32 \<Rightarrow> enum_blocktype_t" where
  "enum_blocktype_of v =
     (if v = 0 then ENUM_BLOCKTYPE_INVALID
      else if v = 1 then ENUM_BLOCKTYPE_NOT_A_BLOCK
      else if v = 2 then ENUM_BLOCKTYPE_SEND
      else if v = 3 then ENUM_BLOCKTYPE_RECEIVE
      else if v = 4 then ENUM_BLOCKTYPE_OPEN
      else if v = 5 then ENUM_BLOCKTYPE_CHANGE
      else if v = 6 then ENUM_BLOCKTYPE_STATE
      else ENUM_BLOCKTYPE_UNLISTED v)"

fun enum_blocktype_val :: "enum_blocktype_t \<Rightarrow> i32" where
  "enum_blocktype_val ENUM_BLOCKTYPE_INVALID = 0"
| "enum_blocktype_val ENUM_BLOCKTYPE_NOT_A_BLOCK = 1"
| "enum_blocktype_val ENUM_BLOCKTYPE_SEND = 2"
| "enum_blocktype_val ENUM_BLOCKTYPE_RECEIVE = 3"
| "enum_blocktype_val ENUM_BLOCKTYPE_OPEN = 4"
| "enum_blocktype_val ENUM_BLOCKTYPE_CHANGE = 5"
| "enum_blocktype_val ENUM_BLOCKTYPE_STATE = 6"
| "enum_blocktype_val (ENUM_BLOCKTYPE_UNLISTED v) = v"

datatype enum_msgtype_t =
    ENUM_MSGTYPE_INVALID
  | ENUM_MSGTYPE_NOT_A_TYPE
  | ENUM_MSGTYPE_KEEPALIVE
  | ENUM_MSGTYPE_PUBLISH
  | ENUM_MSGTYPE_CONFIRM_REQ
  | ENUM_MSGTYPE_CONFIRM_ACK
  | ENUM_MSGTYPE_BULK_PULL
  | ENUM_MSGTYPE_BULK_PUSH
  | ENUM_MSGTYPE_FRONTIER_REQ
  | ENUM_MSGTYPE_BULK_PULL_BLOCKS
  | ENUM_MSGTYPE_NODE_ID_HANDSHAKE
  | ENUM_MSGTYPE_BULK_PULL_ACCOUNT
  | ENUM_MSGTYPE_TELEMETRY_REQ
  | ENUM_MSGTYPE_TELEMETRY_ACK
  | ENUM_MSGTYPE_UNLISTED u8

definition enum_msgtype_of :: "u8 \<Rightarrow> enum_msgtype_t" where
  "enum_msgtype_of v =
     (if v = 0 then ENUM_MSGTYPE_INVALID
      else if v = 1 then ENUM_MSGTYPE_NOT_A_TYPE
      else if v = 2 then ENUM_MSGTYPE_KEEPALIVE
      else if v = 3 then ENUM_MSGTYPE_PUBLISH
      else if v = 4 then ENUM_MSGTYPE_CONFIRM_REQ
      else if v = 5 then ENUM_MSGTYPE_CONFIRM_ACK
      else if v = 6 then ENUM_MSGTYPE_BULK_PULL
      else if v = 7 then ENUM_MSGTYPE_BULK_PUSH
      else if v = 8 then ENUM_MSGTYPE_FRONTIER_REQ
      else if v = 9 then ENUM_MSGTYPE_BULK_PULL_BLOCKS
      else if v = 10 then ENUM_MSGTYPE_NODE_ID_HANDSHAKE
      else if v = 11 then ENUM_MSGTYPE_BULK_PULL_ACCOUNT
      else if v = 12 then ENUM_MSGTYPE_TELEMETRY_REQ
      else if v = 13 then ENUM_MSGTYPE_TELEMETRY_ACK
      else ENUM_MSGTYPE_UNLISTED v)"

fun enum_msgtype_val :: "enum_msgtype_t \<Rightarrow> u8" where
  "enum_msgtype_val ENUM_MSGTYPE_INVALID = 0"
| "enum_msgtype_val ENUM_MSGTYPE_NOT_A_TYPE = 1"
| "enum_msgtype_val ENUM_MSGTYPE_KEEPALIVE = 2"
| "enum_msgtype_val ENUM_MSGTYPE_PUBLISH = 3"
| "enum_msgtype_val ENUM_MSGTYPE_CONFIRM_REQ = 4"
| "enum_msgtype_val ENUM_MSGTYPE_CONFIRM_ACK = 5"
| "enum_msgtype_val ENUM_MSGTYPE_BULK_PULL = 6"
| "enum_msgtype_val ENUM_MSGTYPE_BULK_PUSH = 7"
| "enum_msgtype_val ENUM_MSGTYPE_FRONTIER_REQ = 8"
| "enum_msgtype_val ENUM_MSGTYPE_BULK_PULL_BLOCKS = 9"
| "enum_msgtype_val ENUM_MSGTYPE_NODE_ID_HANDSHAKE = 10"
| "enum_msgtype_val ENUM_MSGTYPE_BULK_PULL_ACCOUNT = 11"
| "enum_msgtype_val ENUM_MSGTYPE_TELEMETRY_REQ = 12"
| "enum_msgtype_val ENUM_MSGTYPE_TELEMETRY_ACK = 13"
| "enum_msgtype_val (ENUM_MSGTYPE_UNLISTED v) = v"

datatype enum_network_t =
    ENUM_NETWORK_NETWORK_TEST
  | ENUM_NETWORK_NETWORK_BETA
  | ENUM_NETWORK_NETWORK_LIVE
  | ENUM_NETWORK_UNLISTED u8

definition enum_network_of :: "u8 \<Rightarrow> enum_network_t" where
  "enum_network_of v =
     (if v = 65 then ENUM_NETWORK_NETWORK_TEST
      else if v = 66 then ENUM_NETWORK_NETWORK_BETA
      else if v = 67 then ENUM_NETWORK_NETWORK_LIVE
      else ENUM_NETWORK_UNLISTED v)"

fun enum_network_val :: "enum_network_t \<Rightarrow> u8" where
  "enum_network_val ENUM_NETWORK_NETWORK_TEST = 65"
| "enum_network_val ENUM_NETWORK_NETWORK_BETA = 66"
| "enum_network_val ENUM_NETWORK_NETWORK_LIVE = 67"
| "enum_network_val (ENUM_NETWORK_UNLISTED v) = v"

datatype enum_bulk_pull_account_t =
    ENUM_BULK_PULL_ACCOUNT_PENDING_HASH_AND_AMOUNT
  | ENUM_BULK_PULL_ACCOUNT_PENDING_ADDRESS_ONLY
  | ENUM_BULK_PULL_ACCOUNT_PENDING_HASH_AMOUNT_AND_ADDRESS
  | ENUM_BULK_PULL_ACCOUNT_UNLISTED u8

definition enum_bulk_pull_account_of :: "u8 \<Rightarrow> enum_bulk_pull_account_t" where
  "enum_bulk_pull_account_of v =
     (if v = 0 then ENUM_BULK_PULL_ACCOUNT_PENDING_HASH_AND_AMOUNT
      else if v = 1 then ENUM_BULK_PULL_ACCOUNT_PENDING_ADDRESS_ONLY
      else if v = 2 then ENUM_BULK_PULL_ACCOUNT_PENDING_HASH_AMOUNT_AND_ADDRESS
      else ENUM_BULK_PULL_ACCOUNT_UNLISTED v)"

fun enum_bulk_pull_account_val :: "enum_bulk_pull_account_t \<Rightarrow> u8" where
  "enum_bulk_pull_account_val ENUM_BULK_PULL_ACCOUNT_PENDING_HASH_AND_AMOUNT = 0"
| "enum_bulk_pull_account_val ENUM_BULK_PULL_ACCOUNT_PENDING_ADDRESS_ONLY = 1"
| "enum_bulk_pull_account_val ENUM_BULK_PULL_ACCOUNT_PENDING_HASH_AMOUNT_AND_ADDRESS = 2"
| "enum_bulk_pull_account_val (ENUM_BULK_PULL_ACCOUNT_UNLISTED v) = v"

definition PROTOCOL_VERSION_VALUE :: nat where
  "PROTOCOL_VERSION_VALUE = 18"

lemma enum_blocktype_val_of [simp]: "enum_blocktype_val (enum_blocktype_of v) = v"
  by (simp add: enum_blocktype_of_def)

lemma enum_msgtype_val_of [simp]: "enum_msgtype_val (enum_msgtype_of v) = v"
  by (simp add: enum_msgtype_of_def)

lemma enum_network_val_of [simp]: "enum_network_val (enum_network_of v) = v"
  by (simp add: enum_network_of_def)

lemma enum_bulk_pull_account_val_of [simp]:
  "enum_bulk_pull_account_val (enum_bulk_pull_account_of v) = v"
  by (simp add: enum_bulk_pull_account_of_def)

lemmas enum_of_defs =
  enum_blocktype_of_def enum_msgtype_of_def enum_network_of_def enum_bulk_pull_account_of_def

section \<open>The header\<close>

record message_header_t =
  hdr_magic :: bytes
  hdr_network_id :: enum_network_t
  hdr_version_max :: u8
  hdr_version_using :: u8
  hdr_version_min :: u8
  hdr_message_type :: enum_msgtype_t
  hdr_extensions :: u16

definition message_header_read :: "message_header_t reader" where
  "message_header_read =
     ks_bind (ensure_fixed_contents [0x52]) (\<lambda>magic.
     ks_bind read_u1 (\<lambda>network_id.
     ks_bind read_u1 (\<lambda>version_max.
     ks_bind read_u1 (\<lambda>version_using.
     ks_bind read_u1 (\<lambda>version_min.
     ks_bind read_u1 (\<lambda>message_type.
     ks_bind read_u2le (\<lambda>extensions.
     ks_return \<lparr>hdr_magic = magic, hdr_network_id = enum_network_of network_id,
       hdr_version_max = version_max, hdr_version_using = version_using,
       hdr_version_min = version_min, hdr_message_type = enum_msgtype_of message_type,
       hdr_extensions = extensions\<rparr>)))))))"

text \<open>\<open>extensions ()\<close> is promoted to \<open>int\<close> before the mask and the shift.\<close>

definition response_flag :: "message_header_t \<Rightarrow> i32" where
  "response_flag h = ucast (hdr_extensions h) AND 2"

definition block_type_int :: "message_header_t \<Rightarrow> i32" where
  "block_type_int h = drop_bit 8 (ucast (hdr_extensions h) AND 3840)"

definition telemetry_size :: "message_header_t \<Rightarrow> i32" where
  "telemetry_size h = ucast (hdr_extensions h) AND 2047"

definition extended_params_present :: "message_header_t \<Rightarrow> i32" where
  "extended_params_present h = ucast (hdr_extensions h) AND 1"

definition hdr_block_type :: "message_header_t \<Rightarrow> enum_blocktype_t" where
  "hdr_block_type h = enum_blocktype_of (drop_bit 8 (ucast (hdr_extensions h) AND 3840))"

definition item_count_int :: "message_header_t \<Rightarrow> i32" where
  "item_count_int h = drop_bit 12 (ucast (hdr_extensions h) AND 61440)"

definition query_flag :: "message_header_t \<Rightarrow> i32" where
  "query_flag h = ucast (hdr_extensions h) AND 1"

section \<open>The wire format of the header\<close>

definition header_wire :: "message_header_t \<Rightarrow> bytes" where
  "header_wire h = hdr_magic h @ [enum_network_val (hdr_network_id h), hdr_version_max h,
     hdr_version_using h, hdr_version_min h, enum_msgtype_val (hdr_message_type h)] @
     le_bytes 2 (hdr_extensions h)"

definition header_wf :: "message_header_t \<Rightarrow> bool" where
  "header_wf h \<longleftrightarrow> hdr_magic h = [0x52] \<and>
     hdr_network_id h = enum_network_of (enum_network_val (hdr_network_id h)) \<and>
     hdr_message_type h = enum_msgtype_of (enum_msgtype_val (hdr_message_type h))"

lemma hd_nth: "n < length bs \<Longrightarrow> hd (drop n bs) = bs ! n"
  by (simp add: hd_drop_conv_nth)

lemma ensure_one_byte: "ensure_fixed_contents [b] ks =
  (if 1 \<le> ks_left ks then
     (if hd (ks_rest ks) = b then Inr ([b], ks_skip 1 ks)
      else Inl (RuntimeError ''ensure_fixed_contents: actual data does not match expected data''))
   else Inl IosFailure)"
  by (cases "ks_rest ks") (auto simp: ensure_fixed_contents_eq ks_left_eq)

lemma message_header_read_eq [reader_simps]: "message_header_read ks =
  (let bs = ks_rest ks in
   if 1 \<le> ks_left ks \<and> hd bs \<noteq> 0x52
   then Inl (RuntimeError ''ensure_fixed_contents: actual data does not match expected data'')
   else if 8 \<le> ks_left ks then
     Inr (\<lparr>hdr_magic = [0x52], hdr_network_id = enum_network_of (bs ! 1), hdr_version_max = bs ! 2,
       hdr_version_using = bs ! 3, hdr_version_min = bs ! 4,
       hdr_message_type = enum_msgtype_of (bs ! 5), hdr_extensions = le_word (take 2 (drop 6 bs))\<rparr>,
       ks_skip 8 ks)
   else Inl IosFailure)"
  by (auto simp: message_header_read_def ks_bind_def ks_return_def ensure_one_byte read_u1_eq
      read_u2le_eq Let_def hd_nth ks_left_eq [symmetric] simp del: One_nat_def)

lemma eight_byte_split:
  "8 \<le> length bs \<Longrightarrow>
     bs = [hd bs, bs ! 1, bs ! 2, bs ! 3, bs ! 4, bs ! 5] @ take 2 (drop 6 bs) @ drop 8 bs"
  by (auto simp: numeral_eq_Suc Suc_le_length_iff)

interpretation header: wire_codec message_header_read header_wire header_wf
proof unfold_locales
  fix h ks rest
  assume wf: "header_wf h" and rest: "ks_rest ks = header_wire h @ rest"
  have "le_word (le_bytes 2 (hdr_extensions h)) = hdr_extensions h"
    by (simp add: le_word_le_bytes)
  with wf rest show "message_header_read ks = Inr (h, ks_skip (length (header_wire h)) ks)"
    by (cases h) (auto simp: message_header_read_eq header_wire_def header_wf_def ks_left_eq)
next
  fix h ks ks'
  assume r: "message_header_read ks = Inr (h, ks')"
  then have len: "8 \<le> length (ks_rest ks)" and magic: "hd (ks_rest ks) = 0x52"
    and ks': "ks' = ks_skip 8 ks"
    by (auto simp: message_header_read_eq Let_def ks_left_eq split: if_splits)
  have wire: "header_wire h =
      [0x52, ks_rest ks ! 1, ks_rest ks ! 2, ks_rest ks ! 3, ks_rest ks ! 4, ks_rest ks ! 5] @
      take 2 (drop 6 (ks_rest ks))"
    using r len by (auto simp: message_header_read_eq Let_def ks_left_eq header_wire_def
        le_bytes_le_word_take split: if_splits)
  have "header_wf h"
    using r by (auto simp: message_header_read_eq Let_def header_wf_def split: if_splits)
  moreover have "ks_rest ks = header_wire h @ ks_rest ks'"
    using eight_byte_split [OF len] wire magic ks' by simp
  moreover have "length (header_wire h) = 8"
    using wire len by simp
  ultimately show "header_wf h \<and> ks_rest ks = header_wire h @ ks_rest ks' \<and>
      ks' = ks_skip (length (header_wire h)) ks"
    using ks' by simp
qed

section \<open>The extension bits\<close>

lemma bit_numeral_masks:
  "bit (2 :: i32) i \<longleftrightarrow> i = 1"
  "bit (1 :: i32) i \<longleftrightarrow> i = 0"
  "bit (3840 :: i32) i \<longleftrightarrow> 8 \<le> i \<and> i < 12"
  "bit (61440 :: i32) i \<longleftrightarrow> 12 \<le> i \<and> i < 16"
  "bit (255 :: i32) i \<longleftrightarrow> i < 8"
proof -
  have "(2 :: i32) = push_bit 1 (mask 1)" "(1 :: i32) = mask 1"
    "(3840 :: i32) = push_bit 8 (mask 4)" "(61440 :: i32) = push_bit 12 (mask 4)"
    "(255 :: i32) = mask 8"
    by (simp_all add: mask_eq_exp_minus_1)
  then show "bit (2 :: i32) i \<longleftrightarrow> i = 1" "bit (1 :: i32) i \<longleftrightarrow> i = 0"
    "bit (3840 :: i32) i \<longleftrightarrow> 8 \<le> i \<and> i < 12" "bit (61440 :: i32) i \<longleftrightarrow> 12 \<le> i \<and> i < 16"
    "bit (255 :: i32) i \<longleftrightarrow> i < 8"
    by (simp_all only: bit_push_bit_iff bit_mask_iff) (auto simp: possible_bit_def bit_1_iff)
qed

lemma bit_block_type_int:
  "bit (block_type_int h) i \<longleftrightarrow> i < 4 \<and> bit (hdr_extensions h) (i + 8)"
  by (simp only: block_type_int_def bit_drop_bit_eq o_def bit_and_iff bit_ucast_iff bit_numeral_masks)
    (auto simp: add.commute dest: bit_imp_le_length)

lemma bit_item_count_int:
  "bit (item_count_int h) i \<longleftrightarrow> i < 4 \<and> bit (hdr_extensions h) (i + 12)"
  by (simp only: item_count_int_def bit_drop_bit_eq o_def bit_and_iff bit_ucast_iff bit_numeral_masks)
    (auto simp: add.commute dest: bit_imp_le_length)

lemma word_lt_16_if_bits:
  assumes "\<And>i. bit (w :: i32) i \<Longrightarrow> i < 4"
  shows "unat w < 16"
proof -
  have "take_bit 4 w = w"
    by (rule bit_word_eqI) (use assms in \<open>auto simp: bit_take_bit_iff\<close>)
  then have "unat w = take_bit 4 (unat w)" by (metis unsigned_take_bit_eq)
  also have "\<dots> < 2 ^ 4" by (rule take_bit_nat_less_exp)
  finally show ?thesis by simp
qed

end
