(* ===== verification/NanoBlocks.thy ===== *)
theory NanoBlocks
  imports NanoHeader
begin

text \<open>
  The five block formats and the block selector (\<open>nano.h\<close>, \<open>nano.cpp\<close>): for each generated
  class its members as a record, its \<open>_read ()\<close> as a reader, and the wire format it implements
  with the proof that the reader is a fixed width codec for it. The constructors set the parent
  and root pointers and call \<open>_read ()\<close>; the destructors free what the object owns. Neither is
  visible in the value.
\<close>

lemma slice_le_bytes:
  "n \<le> length bs \<Longrightarrow> 8 * n \<le> LENGTH('a::len) \<Longrightarrow>
     le_bytes n (le_word (take n bs) :: 'a word) = take n bs"
  by (rule le_bytes_le_word_take)

lemma singleton_hd_slice: "n < length bs \<Longrightarrow> [hd (drop n bs)] = take 1 (drop n bs)"
  by (rule hd_slice) simp

lemmas wire_slices = slice_le_bytes be_bytes_be_word_take singleton_hd_slice hd_slice

section \<open>Blocks\<close>

record block_send_t =
  block_send_previous :: bytes
  block_send_destination :: bytes
  block_send_balance :: bytes
  block_send_signature :: bytes
  block_send_work :: u64

definition block_send_read :: "block_send_t reader" where
  "block_send_read =
     ks_bind (read_bytes 32) (\<lambda>previous.
     ks_bind (read_bytes 32) (\<lambda>destination.
     ks_bind (read_bytes 16) (\<lambda>balance.
     ks_bind (read_bytes 64) (\<lambda>signature.
     ks_bind read_u8le (\<lambda>work.
     ks_return \<lparr>block_send_previous = previous, block_send_destination = destination,
       block_send_balance = balance, block_send_signature = signature, block_send_work = work\<rparr>)))))"

definition block_send_wire :: "block_send_t \<Rightarrow> bytes" where
  "block_send_wire b = block_send_previous b @ block_send_destination b @
     block_send_balance b @ block_send_signature b @ le_bytes 8 (block_send_work b)"

definition block_send_wf :: "block_send_t \<Rightarrow> bool" where
  "block_send_wf b \<longleftrightarrow> length (block_send_previous b) = 32 \<and>
     length (block_send_destination b) = 32 \<and> length (block_send_balance b) = 16 \<and>
     length (block_send_signature b) = 64"

lemma block_send_read_eq [reader_simps]: "block_send_read ks =
  (if 152 \<le> ks_left ks then
     Inr (\<lparr>block_send_previous = take 32 (ks_rest ks),
       block_send_destination = take 32 (drop 32 (ks_rest ks)),
       block_send_balance = take 16 (drop 64 (ks_rest ks)),
       block_send_signature = take 64 (drop 80 (ks_rest ks)),
       block_send_work = le_word (take 8 (drop 144 (ks_rest ks)))\<rparr>, ks_skip 152 ks)
   else Inl IosFailure)"
  by (auto simp: block_send_read_def ks_bind_def ks_return_def reader_simps simp del: One_nat_def)

lemma block_send_wire_inject: "block_send_wf a \<Longrightarrow> block_send_wf b \<Longrightarrow> block_send_wire a = block_send_wire b \<Longrightarrow> a = b"
  by (cases a; cases b) (auto simp: block_send_wf_def block_send_wire_def le_bytes_inject be_bytes_inject)

interpretation block_send: fixed_codec block_send_read block_send_wire block_send_wf 152
  by unfold_locales
    (auto simp: block_send_read_eq block_send_wf_def block_send_wire_def ks_left_eq slice_simps wire_slices
      simp del: One_nat_def intro: block_send_wire_inject)

record block_receive_t =
  block_receive_previous :: bytes
  block_receive_source :: bytes
  block_receive_signature :: bytes
  block_receive_work :: u64

definition block_receive_read :: "block_receive_t reader" where
  "block_receive_read =
     ks_bind (read_bytes 32) (\<lambda>previous.
     ks_bind (read_bytes 32) (\<lambda>source.
     ks_bind (read_bytes 64) (\<lambda>signature.
     ks_bind read_u8le (\<lambda>work.
     ks_return \<lparr>block_receive_previous = previous, block_receive_source = source,
       block_receive_signature = signature, block_receive_work = work\<rparr>))))"

definition block_receive_wire :: "block_receive_t \<Rightarrow> bytes" where
  "block_receive_wire b = block_receive_previous b @ block_receive_source b @
     block_receive_signature b @ le_bytes 8 (block_receive_work b)"

definition block_receive_wf :: "block_receive_t \<Rightarrow> bool" where
  "block_receive_wf b \<longleftrightarrow> length (block_receive_previous b) = 32 \<and>
     length (block_receive_source b) = 32 \<and> length (block_receive_signature b) = 64"

lemma block_receive_read_eq [reader_simps]: "block_receive_read ks =
  (if 136 \<le> ks_left ks then
     Inr (\<lparr>block_receive_previous = take 32 (ks_rest ks),
       block_receive_source = take 32 (drop 32 (ks_rest ks)),
       block_receive_signature = take 64 (drop 64 (ks_rest ks)),
       block_receive_work = le_word (take 8 (drop 128 (ks_rest ks)))\<rparr>, ks_skip 136 ks)
   else Inl IosFailure)"
  by (auto simp: block_receive_read_def ks_bind_def ks_return_def reader_simps simp del: One_nat_def)

lemma block_receive_wire_inject: "block_receive_wf a \<Longrightarrow> block_receive_wf b \<Longrightarrow> block_receive_wire a = block_receive_wire b \<Longrightarrow> a = b"
  by (cases a; cases b) (auto simp: block_receive_wf_def block_receive_wire_def le_bytes_inject be_bytes_inject)

interpretation block_receive: fixed_codec block_receive_read block_receive_wire block_receive_wf 136
  by unfold_locales
    (auto simp: block_receive_read_eq block_receive_wf_def block_receive_wire_def ks_left_eq slice_simps wire_slices
      simp del: One_nat_def intro: block_receive_wire_inject)

record block_open_t =
  block_open_source :: bytes
  block_open_representative :: bytes
  block_open_account :: bytes
  block_open_signature :: bytes
  block_open_work :: u64

definition block_open_read :: "block_open_t reader" where
  "block_open_read =
     ks_bind (read_bytes 32) (\<lambda>source.
     ks_bind (read_bytes 32) (\<lambda>representative.
     ks_bind (read_bytes 32) (\<lambda>account.
     ks_bind (read_bytes 64) (\<lambda>signature.
     ks_bind read_u8le (\<lambda>work.
     ks_return \<lparr>block_open_source = source, block_open_representative = representative,
       block_open_account = account, block_open_signature = signature, block_open_work = work\<rparr>)))))"

definition block_open_wire :: "block_open_t \<Rightarrow> bytes" where
  "block_open_wire b = block_open_source b @ block_open_representative b @
     block_open_account b @ block_open_signature b @ le_bytes 8 (block_open_work b)"

definition block_open_wf :: "block_open_t \<Rightarrow> bool" where
  "block_open_wf b \<longleftrightarrow> length (block_open_source b) = 32 \<and>
     length (block_open_representative b) = 32 \<and> length (block_open_account b) = 32 \<and>
     length (block_open_signature b) = 64"

lemma block_open_read_eq [reader_simps]: "block_open_read ks =
  (if 168 \<le> ks_left ks then
     Inr (\<lparr>block_open_source = take 32 (ks_rest ks),
       block_open_representative = take 32 (drop 32 (ks_rest ks)),
       block_open_account = take 32 (drop 64 (ks_rest ks)),
       block_open_signature = take 64 (drop 96 (ks_rest ks)),
       block_open_work = le_word (take 8 (drop 160 (ks_rest ks)))\<rparr>, ks_skip 168 ks)
   else Inl IosFailure)"
  by (auto simp: block_open_read_def ks_bind_def ks_return_def reader_simps simp del: One_nat_def)

lemma block_open_wire_inject: "block_open_wf a \<Longrightarrow> block_open_wf b \<Longrightarrow> block_open_wire a = block_open_wire b \<Longrightarrow> a = b"
  by (cases a; cases b) (auto simp: block_open_wf_def block_open_wire_def le_bytes_inject be_bytes_inject)

interpretation block_open: fixed_codec block_open_read block_open_wire block_open_wf 168
  by unfold_locales
    (auto simp: block_open_read_eq block_open_wf_def block_open_wire_def ks_left_eq slice_simps wire_slices
      simp del: One_nat_def intro: block_open_wire_inject)

record block_change_t =
  block_change_previous :: bytes
  block_change_representative :: bytes
  block_change_signature :: bytes
  block_change_work :: u64

definition block_change_read :: "block_change_t reader" where
  "block_change_read =
     ks_bind (read_bytes 32) (\<lambda>previous.
     ks_bind (read_bytes 32) (\<lambda>representative.
     ks_bind (read_bytes 64) (\<lambda>signature.
     ks_bind read_u8le (\<lambda>work.
     ks_return \<lparr>block_change_previous = previous,
       block_change_representative = representative, block_change_signature = signature,
       block_change_work = work\<rparr>))))"

definition block_change_wire :: "block_change_t \<Rightarrow> bytes" where
  "block_change_wire b = block_change_previous b @ block_change_representative b @
     block_change_signature b @ le_bytes 8 (block_change_work b)"

definition block_change_wf :: "block_change_t \<Rightarrow> bool" where
  "block_change_wf b \<longleftrightarrow> length (block_change_previous b) = 32 \<and>
     length (block_change_representative b) = 32 \<and> length (block_change_signature b) = 64"

lemma block_change_read_eq [reader_simps]: "block_change_read ks =
  (if 136 \<le> ks_left ks then
     Inr (\<lparr>block_change_previous = take 32 (ks_rest ks),
       block_change_representative = take 32 (drop 32 (ks_rest ks)),
       block_change_signature = take 64 (drop 64 (ks_rest ks)),
       block_change_work = le_word (take 8 (drop 128 (ks_rest ks)))\<rparr>, ks_skip 136 ks)
   else Inl IosFailure)"
  by (auto simp: block_change_read_def ks_bind_def ks_return_def reader_simps simp del: One_nat_def)

lemma block_change_wire_inject: "block_change_wf a \<Longrightarrow> block_change_wf b \<Longrightarrow> block_change_wire a = block_change_wire b \<Longrightarrow> a = b"
  by (cases a; cases b) (auto simp: block_change_wf_def block_change_wire_def le_bytes_inject be_bytes_inject)

interpretation block_change: fixed_codec block_change_read block_change_wire block_change_wf 136
  by unfold_locales
    (auto simp: block_change_read_eq block_change_wf_def block_change_wire_def ks_left_eq slice_simps wire_slices
      simp del: One_nat_def intro: block_change_wire_inject)

record block_state_t =
  block_state_account :: bytes
  block_state_previous :: bytes
  block_state_representative :: bytes
  block_state_balance :: bytes
  block_state_link :: bytes
  block_state_signature :: bytes
  block_state_work :: u64

definition block_state_read :: "block_state_t reader" where
  "block_state_read =
     ks_bind (read_bytes 32) (\<lambda>account.
     ks_bind (read_bytes 32) (\<lambda>previous.
     ks_bind (read_bytes 32) (\<lambda>representative.
     ks_bind (read_bytes 16) (\<lambda>balance.
     ks_bind (read_bytes 32) (\<lambda>link.
     ks_bind (read_bytes 64) (\<lambda>signature.
     ks_bind read_u8be (\<lambda>work.
     ks_return \<lparr>block_state_account = account, block_state_previous = previous,
       block_state_representative = representative, block_state_balance = balance,
       block_state_link = link, block_state_signature = signature, block_state_work = work\<rparr>)))))))"

definition block_state_wire :: "block_state_t \<Rightarrow> bytes" where
  "block_state_wire b = block_state_account b @ block_state_previous b @
     block_state_representative b @ block_state_balance b @ block_state_link b @
     block_state_signature b @ be_bytes 8 (block_state_work b)"

definition block_state_wf :: "block_state_t \<Rightarrow> bool" where
  "block_state_wf b \<longleftrightarrow> length (block_state_account b) = 32 \<and>
     length (block_state_previous b) = 32 \<and> length (block_state_representative b) = 32 \<and>
     length (block_state_balance b) = 16 \<and> length (block_state_link b) = 32 \<and>
     length (block_state_signature b) = 64"

lemma block_state_read_eq [reader_simps]: "block_state_read ks =
  (if 216 \<le> ks_left ks then
     Inr (\<lparr>block_state_account = take 32 (ks_rest ks),
       block_state_previous = take 32 (drop 32 (ks_rest ks)),
       block_state_representative = take 32 (drop 64 (ks_rest ks)),
       block_state_balance = take 16 (drop 96 (ks_rest ks)),
       block_state_link = take 32 (drop 112 (ks_rest ks)),
       block_state_signature = take 64 (drop 144 (ks_rest ks)),
       block_state_work = be_word (take 8 (drop 208 (ks_rest ks)))\<rparr>, ks_skip 216 ks)
   else Inl IosFailure)"
  by (auto simp: block_state_read_def ks_bind_def ks_return_def reader_simps simp del: One_nat_def)

lemma block_state_wire_inject: "block_state_wf a \<Longrightarrow> block_state_wf b \<Longrightarrow> block_state_wire a = block_state_wire b \<Longrightarrow> a = b"
  by (cases a; cases b) (auto simp: block_state_wf_def block_state_wire_def le_bytes_inject be_bytes_inject)

interpretation block_state: fixed_codec block_state_read block_state_wire block_state_wf 216
  by unfold_locales
    (auto simp: block_state_read_eq block_state_wf_def block_state_wire_def ks_left_eq slice_simps wire_slices
      simp del: One_nat_def intro: block_state_wire_inject)

section \<open>Unknown content\<close>

interpretation u1: fixed_codec read_u1 "\<lambda>b. [b]" "\<lambda>_. True" 1
  by unfold_locales (auto simp: read_u1_eq ks_left_eq Suc_le_length_iff)

text \<open>\<open>ignore_until_eof_t\<close>: \<open>None\<close> is the null vector of \<open>n_empty = true\<close>.\<close>

function ignore_loop :: "bytes \<Rightarrow> bytes reader" where
  "ignore_loop acc ks =
     (case read_u1 ks of
        Inl e \<Rightarrow> Inl e
      | Inr (b, ks') \<Rightarrow> if is_eof ks' then Inr (acc @ [b], ks') else ignore_loop (acc @ [b]) ks')"
  by pat_completeness auto
termination
  by (relation "measure (\<lambda>(acc, ks). ks_left ks)") (auto dest!: u1.read_progress simp: ks_left_skip)

declare ignore_loop.simps [simp del]

record ignore_until_eof_t =
  ign_empty :: "bytes option"

definition ignore_until_eof_read :: "ignore_until_eof_t reader" where
  "ignore_until_eof_read ks =
     (if \<not> is_eof ks then
        (case ignore_loop [] ks of
           Inl e \<Rightarrow> Inl e
         | Inr (bs, ks') \<Rightarrow> Inr (\<lparr>ign_empty = Some bs\<rparr>, ks'))
      else Inr (\<lparr>ign_empty = None\<rparr>, ks))"

interpretation ignored: counted_records read_u1 "\<lambda>b. [b]" "\<lambda>_. True" 1 0 "\<lambda>i. ignore_loop"
proof unfold_locales
  fix i :: nat and acc ks
  show "ignore_loop acc ks =
    (case read_u1 ks of
       Inl e \<Rightarrow> Inl e
     | Inr (x, ks') \<Rightarrow>
         if i + 1 = 0 \<or> is_eof ks' then Inr (acc @ [x], ks') else ignore_loop (acc @ [x]) ks')"
    by (subst ignore_loop.simps) (simp split: sum.split)
qed

lemma concat_singletons: "concat (map (\<lambda>b. [b]) bs) = bs"
  by (induction bs) auto

lemma ignore_until_eof_read_eq [reader_simps]: "ignore_until_eof_read ks =
   Inr (\<lparr>ign_empty = (if ks_rest ks = [] then None else Some (ks_rest ks))\<rparr>, ks_skip (ks_left ks) ks)"
proof (cases "ks_rest ks = []")
  case True
  then show ?thesis by (simp add: ignore_until_eof_read_def is_eof_rest ks_left_eq)
next
  case False
  then have "ignore_loop [] ks = Inr ([] @ ks_rest ks, ks_skip (1 * length (ks_rest ks)) ks)"
    by (intro ignored.loop_enc [where rest = "[]"]) (auto simp: concat_singletons list_all_iff)
  with False show ?thesis by (simp add: ignore_until_eof_read_def is_eof_rest ks_left_eq)
qed

section \<open>The block selector\<close>

datatype nano_block =
    BlockReceive block_receive_t
  | BlockChange block_change_t
  | BlockState block_state_t
  | BlockOpen block_open_t
  | BlockSend block_send_t
  | BlockIgnored ignore_until_eof_t

record block_selector_t =
  sel_arg_block_type :: u8
  sel_block :: nano_block

definition block_selector_read :: "u8 \<Rightarrow> block_selector_t reader" where
  "block_selector_read arg_block_type =
     ks_bind
       (case enum_blocktype_of (ucast arg_block_type) of
          ENUM_BLOCKTYPE_RECEIVE \<Rightarrow> ks_bind block_receive_read (\<lambda>b. ks_return (BlockReceive b))
        | ENUM_BLOCKTYPE_CHANGE \<Rightarrow> ks_bind block_change_read (\<lambda>b. ks_return (BlockChange b))
        | ENUM_BLOCKTYPE_STATE \<Rightarrow> ks_bind block_state_read (\<lambda>b. ks_return (BlockState b))
        | ENUM_BLOCKTYPE_OPEN \<Rightarrow> ks_bind block_open_read (\<lambda>b. ks_return (BlockOpen b))
        | ENUM_BLOCKTYPE_SEND \<Rightarrow> ks_bind block_send_read (\<lambda>b. ks_return (BlockSend b))
        | _ \<Rightarrow> ks_bind ignore_until_eof_read (\<lambda>b. ks_return (BlockIgnored b)))
       (\<lambda>block. ks_return \<lparr>sel_arg_block_type = arg_block_type, sel_block = block\<rparr>)"

text \<open>The number of bytes of each block format; none for a type the selector does not know.\<close>

fun block_size :: "enum_blocktype_t \<Rightarrow> nat option" where
  "block_size ENUM_BLOCKTYPE_SEND = Some 152"
| "block_size ENUM_BLOCKTYPE_RECEIVE = Some 136"
| "block_size ENUM_BLOCKTYPE_OPEN = Some 168"
| "block_size ENUM_BLOCKTYPE_CHANGE = Some 136"
| "block_size ENUM_BLOCKTYPE_STATE = Some 216"
| "block_size _ = None"

fun nano_block_wire :: "nano_block \<Rightarrow> bytes" where
  "nano_block_wire (BlockReceive b) = block_receive_wire b"
| "nano_block_wire (BlockChange b) = block_change_wire b"
| "nano_block_wire (BlockState b) = block_state_wire b"
| "nano_block_wire (BlockOpen b) = block_open_wire b"
| "nano_block_wire (BlockSend b) = block_send_wire b"
| "nano_block_wire (BlockIgnored b) = (case ign_empty b of None \<Rightarrow> [] | Some bs \<Rightarrow> bs)"

text \<open>A block of the kind that a type tag announces, with fields of the right length.\<close>

fun nano_block_wf :: "enum_blocktype_t \<Rightarrow> nano_block \<Rightarrow> bool" where
  "nano_block_wf t (BlockReceive b) \<longleftrightarrow> t = ENUM_BLOCKTYPE_RECEIVE \<and> block_receive_wf b"
| "nano_block_wf t (BlockChange b) \<longleftrightarrow> t = ENUM_BLOCKTYPE_CHANGE \<and> block_change_wf b"
| "nano_block_wf t (BlockState b) \<longleftrightarrow> t = ENUM_BLOCKTYPE_STATE \<and> block_state_wf b"
| "nano_block_wf t (BlockOpen b) \<longleftrightarrow> t = ENUM_BLOCKTYPE_OPEN \<and> block_open_wf b"
| "nano_block_wf t (BlockSend b) \<longleftrightarrow> t = ENUM_BLOCKTYPE_SEND \<and> block_send_wf b"
| "nano_block_wf t (BlockIgnored b) \<longleftrightarrow> block_size t = None \<and> ign_empty b \<noteq> Some []"

text \<open>
  What the selector reads on every branch: the failure of the stream when the announced block
  does not fit, the block otherwise, and for an unknown tag the whole rest of the stream.
\<close>

lemma block_selector_read_cases:
  "block_selector_read t ks =
    (case block_size (enum_blocktype_of (ucast t)) of
       None \<Rightarrow> Inr (\<lparr>sel_arg_block_type = t, sel_block =
                  BlockIgnored \<lparr>ign_empty = (if ks_rest ks = [] then None else Some (ks_rest ks))\<rparr>\<rparr>,
                 ks_skip (ks_left ks) ks)
     | Some n \<Rightarrow> if n \<le> ks_left ks then block_selector_read t ks else Inl IosFailure)"
  by (cases "enum_blocktype_of (ucast t)")
    (simp_all add: block_selector_read_def ks_bind_def ks_return_def ignore_until_eof_read_eq
      block_send.read_short block_receive.read_short block_open.read_short
      block_change.read_short block_state.read_short)

lemma block_selector_known:
  assumes "block_size (enum_blocktype_of (ucast t)) = Some n" and "n \<le> ks_left ks"
  shows "\<exists>b. block_selector_read t ks =
           Inr (\<lparr>sel_arg_block_type = t, sel_block = b\<rparr>, ks_skip n ks) \<and>
         nano_block_wf (enum_blocktype_of (ucast t)) b \<and> nano_block_wire b = take n (ks_rest ks)"
proof -
  note reads = block_send.read_ok [of ks] block_receive.read_ok [of ks] block_open.read_ok [of ks]
    block_change.read_ok [of ks] block_state.read_ok [of ks]
  show ?thesis
    using assms reads
    by (cases "enum_blocktype_of (ucast t)")
      (auto simp: block_selector_read_def ks_bind_def ks_return_def)
qed

lemma nano_block_wire_length:
  "nano_block_wf t b \<Longrightarrow> block_size t = Some n \<Longrightarrow> length (nano_block_wire b) = n"
  by (cases b) (auto simp: block_send.enc_width block_receive.enc_width block_open.enc_width
      block_change.enc_width block_state.enc_width)

lemma nano_block_wire_inject:
  "nano_block_wf t a \<Longrightarrow> nano_block_wf t b \<Longrightarrow> nano_block_wire a = nano_block_wire b \<Longrightarrow> a = b"
  by (cases a; cases b)
    (auto simp: block_send_wire_inject block_receive_wire_inject block_open_wire_inject
      block_change_wire_inject block_state_wire_inject split: option.splits)

text \<open>The selector leaves the right constructor behind the pointer it is cast to.\<close>

lemma block_selector_read_inv:
  assumes "block_selector_read t ks = Inr (s, ks')"
  shows "sel_arg_block_type s = t \<and> nano_block_wf (enum_blocktype_of (ucast t)) (sel_block s) \<and>
    ks_rest ks = nano_block_wire (sel_block s) @ ks_rest ks' \<and>
    ks' = ks_skip (length (nano_block_wire (sel_block s))) ks"
proof (cases "block_size (enum_blocktype_of (ucast t))")
  case None
  with assms have "s = \<lparr>sel_arg_block_type = t, sel_block =
      BlockIgnored \<lparr>ign_empty = (if ks_rest ks = [] then None else Some (ks_rest ks))\<rparr>\<rparr>"
      "ks' = ks_skip (ks_left ks) ks"
    by (subst (asm) block_selector_read_cases; simp)+
  with None show ?thesis by (auto simp: ks_left_eq)
next
  case (Some n)
  then have n: "n \<le> ks_left ks"
    using assms by (subst (asm) block_selector_read_cases) (auto split: if_splits)
  with block_selector_known [OF Some] assms
  have "nano_block_wf (enum_blocktype_of (ucast t)) (sel_block s)" "sel_arg_block_type s = t"
    and wire: "nano_block_wire (sel_block s) = take n (ks_rest ks)" and "ks' = ks_skip n ks"
    by fastforce+
  moreover have "length (nano_block_wire (sel_block s)) = n"
    using wire n by (simp add: ks_left_eq)
  ultimately show ?thesis by simp
qed

end
