(* ===== verification/NanoRecords.thy ===== *)
theory NanoRecords
  imports NanoBlocks
begin

text \<open>
  The message parts of fixed width (\<open>nano.h\<close>, \<open>nano.cpp\<close>), each with its reader, its wire format
  and the proof that the reader is a fixed width codec; and the three generated loops that fill
  a vector with such parts, as instances of the counted loop interface.
\<close>

section \<open>Parts and messages of fixed width\<close>

record node_id_query_t =
  node_id_query_cookie :: bytes

definition node_id_query_read :: "node_id_query_t reader" where
  "node_id_query_read =
     ks_bind (read_bytes 32) (\<lambda>cookie.
     ks_return \<lparr>node_id_query_cookie = cookie\<rparr>)"

definition node_id_query_wire :: "node_id_query_t \<Rightarrow> bytes" where
  "node_id_query_wire b = node_id_query_cookie b"

definition node_id_query_wf :: "node_id_query_t \<Rightarrow> bool" where
  "node_id_query_wf b \<longleftrightarrow> length (node_id_query_cookie b) = 32"

lemma node_id_query_read_eq [reader_simps]: "node_id_query_read ks =
  (if 32 \<le> ks_left ks then
     Inr (\<lparr>node_id_query_cookie = take 32 (ks_rest ks)\<rparr>, ks_skip 32 ks)
   else Inl IosFailure)"
  by (auto simp: node_id_query_read_def ks_bind_def ks_return_def reader_simps simp del: One_nat_def)

lemma node_id_query_wire_inject: "node_id_query_wf a \<Longrightarrow> node_id_query_wf b \<Longrightarrow> node_id_query_wire a = node_id_query_wire b \<Longrightarrow> a = b"
  by (cases a; cases b) (auto simp: node_id_query_wf_def node_id_query_wire_def le_bytes_inject be_bytes_inject)

interpretation node_id_query: fixed_codec node_id_query_read node_id_query_wire node_id_query_wf 32
  by unfold_locales
    (auto simp: node_id_query_read_eq node_id_query_wf_def node_id_query_wire_def ks_left_eq slice_simps wire_slices
      simp del: One_nat_def intro: node_id_query_wire_inject)

record node_id_response_t =
  node_id_response_account :: bytes
  node_id_response_signature :: bytes

definition node_id_response_read :: "node_id_response_t reader" where
  "node_id_response_read =
     ks_bind (read_bytes 32) (\<lambda>account.
     ks_bind (read_bytes 64) (\<lambda>signature.
     ks_return \<lparr>node_id_response_account = account,
       node_id_response_signature = signature\<rparr>))"

definition node_id_response_wire :: "node_id_response_t \<Rightarrow> bytes" where
  "node_id_response_wire b = node_id_response_account b @ node_id_response_signature b"

definition node_id_response_wf :: "node_id_response_t \<Rightarrow> bool" where
  "node_id_response_wf b \<longleftrightarrow> length (node_id_response_account b) = 32 \<and>
     length (node_id_response_signature b) = 64"

lemma node_id_response_read_eq [reader_simps]: "node_id_response_read ks =
  (if 96 \<le> ks_left ks then
     Inr (\<lparr>node_id_response_account = take 32 (ks_rest ks),
       node_id_response_signature = take 64 (drop 32 (ks_rest ks))\<rparr>, ks_skip 96 ks)
   else Inl IosFailure)"
  by (auto simp: node_id_response_read_def ks_bind_def ks_return_def reader_simps simp del: One_nat_def)

lemma node_id_response_wire_inject: "node_id_response_wf a \<Longrightarrow> node_id_response_wf b \<Longrightarrow> node_id_response_wire a = node_id_response_wire b \<Longrightarrow> a = b"
  by (cases a; cases b) (auto simp: node_id_response_wf_def node_id_response_wire_def le_bytes_inject be_bytes_inject)

interpretation node_id_response: fixed_codec node_id_response_read node_id_response_wire node_id_response_wf 96
  by unfold_locales
    (auto simp: node_id_response_read_eq node_id_response_wf_def node_id_response_wire_def ks_left_eq slice_simps wire_slices
      simp del: One_nat_def intro: node_id_response_wire_inject)

record extended_parameters_t =
  extended_zero :: u8
  extended_count :: u32
  extended_reserved :: bytes

definition extended_read :: "extended_parameters_t reader" where
  "extended_read =
     ks_bind read_u1 (\<lambda>zero.
     ks_bind read_u4le (\<lambda>count.
     ks_bind (read_bytes 3) (\<lambda>reserved.
     ks_return \<lparr>extended_zero = zero, extended_count = count,
       extended_reserved = reserved\<rparr>)))"

definition extended_wire :: "extended_parameters_t \<Rightarrow> bytes" where
  "extended_wire b = [extended_zero b] @ le_bytes 4 (extended_count b) @ extended_reserved b"

definition extended_wf :: "extended_parameters_t \<Rightarrow> bool" where
  "extended_wf b \<longleftrightarrow> length (extended_reserved b) = 3"

lemma extended_read_eq [reader_simps]: "extended_read ks =
  (if 8 \<le> ks_left ks then
     Inr (\<lparr>extended_zero = hd (ks_rest ks),
       extended_count = le_word (take 4 (drop 1 (ks_rest ks))),
       extended_reserved = take 3 (drop 5 (ks_rest ks))\<rparr>, ks_skip 8 ks)
   else Inl IosFailure)"
  by (auto simp: extended_read_def ks_bind_def ks_return_def reader_simps simp del: One_nat_def)

lemma extended_wire_inject: "extended_wf a \<Longrightarrow> extended_wf b \<Longrightarrow> extended_wire a = extended_wire b \<Longrightarrow> a = b"
  by (cases a; cases b) (auto simp: extended_wf_def extended_wire_def le_bytes_inject be_bytes_inject)

interpretation extended: fixed_codec extended_read extended_wire extended_wf 8
  by unfold_locales
    (auto simp: extended_read_eq extended_wf_def extended_wire_def ks_left_eq slice_simps wire_slices
      simp del: One_nat_def intro: extended_wire_inject)

record peer_t =
  peer_address :: bytes
  peer_port :: u16

definition peer_read :: "peer_t reader" where
  "peer_read =
     ks_bind (read_bytes 16) (\<lambda>address.
     ks_bind read_u2le (\<lambda>port.
     ks_return \<lparr>peer_address = address, peer_port = port\<rparr>))"

definition peer_wire :: "peer_t \<Rightarrow> bytes" where
  "peer_wire b = peer_address b @ le_bytes 2 (peer_port b)"

definition peer_wf :: "peer_t \<Rightarrow> bool" where
  "peer_wf b \<longleftrightarrow> length (peer_address b) = 16"

lemma peer_read_eq [reader_simps]: "peer_read ks =
  (if 18 \<le> ks_left ks then
     Inr (\<lparr>peer_address = take 16 (ks_rest ks),
       peer_port = le_word (take 2 (drop 16 (ks_rest ks)))\<rparr>, ks_skip 18 ks)
   else Inl IosFailure)"
  by (auto simp: peer_read_def ks_bind_def ks_return_def reader_simps simp del: One_nat_def)

lemma peer_wire_inject: "peer_wf a \<Longrightarrow> peer_wf b \<Longrightarrow> peer_wire a = peer_wire b \<Longrightarrow> a = b"
  by (cases a; cases b) (auto simp: peer_wf_def peer_wire_def le_bytes_inject be_bytes_inject)

interpretation peer: fixed_codec peer_read peer_wire peer_wf 18
  by unfold_locales
    (auto simp: peer_read_eq peer_wf_def peer_wire_def ks_left_eq slice_simps wire_slices
      simp del: One_nat_def intro: peer_wire_inject)

record hash_pair_t =
  hash_pair_first :: bytes
  hash_pair_second :: bytes

definition hash_pair_read :: "hash_pair_t reader" where
  "hash_pair_read =
     ks_bind (read_bytes 32) (\<lambda>first.
     ks_bind (read_bytes 32) (\<lambda>second.
     ks_return \<lparr>hash_pair_first = first, hash_pair_second = second\<rparr>))"

definition hash_pair_wire :: "hash_pair_t \<Rightarrow> bytes" where
  "hash_pair_wire b = hash_pair_first b @ hash_pair_second b"

definition hash_pair_wf :: "hash_pair_t \<Rightarrow> bool" where
  "hash_pair_wf b \<longleftrightarrow> length (hash_pair_first b) = 32 \<and>
     length (hash_pair_second b) = 32"

lemma hash_pair_read_eq [reader_simps]: "hash_pair_read ks =
  (if 64 \<le> ks_left ks then
     Inr (\<lparr>hash_pair_first = take 32 (ks_rest ks),
       hash_pair_second = take 32 (drop 32 (ks_rest ks))\<rparr>, ks_skip 64 ks)
   else Inl IosFailure)"
  by (auto simp: hash_pair_read_def ks_bind_def ks_return_def reader_simps simp del: One_nat_def)

lemma hash_pair_wire_inject: "hash_pair_wf a \<Longrightarrow> hash_pair_wf b \<Longrightarrow> hash_pair_wire a = hash_pair_wire b \<Longrightarrow> a = b"
  by (cases a; cases b) (auto simp: hash_pair_wf_def hash_pair_wire_def le_bytes_inject be_bytes_inject)

interpretation hash_pair: fixed_codec hash_pair_read hash_pair_wire hash_pair_wf 64
  by unfold_locales
    (auto simp: hash_pair_read_eq hash_pair_wf_def hash_pair_wire_def ks_left_eq slice_simps wire_slices
      simp del: One_nat_def intro: hash_pair_wire_inject)

record vote_common_t =
  vote_common_account :: bytes
  vote_common_signature :: bytes
  vote_common_sequence :: u64

definition vote_common_read :: "vote_common_t reader" where
  "vote_common_read =
     ks_bind (read_bytes 32) (\<lambda>account.
     ks_bind (read_bytes 64) (\<lambda>signature.
     ks_bind read_u8le (\<lambda>sequence.
     ks_return \<lparr>vote_common_account = account, vote_common_signature = signature,
       vote_common_sequence = sequence\<rparr>)))"

definition vote_common_wire :: "vote_common_t \<Rightarrow> bytes" where
  "vote_common_wire b = vote_common_account b @ vote_common_signature b @
     le_bytes 8 (vote_common_sequence b)"

definition vote_common_wf :: "vote_common_t \<Rightarrow> bool" where
  "vote_common_wf b \<longleftrightarrow> length (vote_common_account b) = 32 \<and>
     length (vote_common_signature b) = 64"

lemma vote_common_read_eq [reader_simps]: "vote_common_read ks =
  (if 104 \<le> ks_left ks then
     Inr (\<lparr>vote_common_account = take 32 (ks_rest ks),
       vote_common_signature = take 64 (drop 32 (ks_rest ks)),
       vote_common_sequence = le_word (take 8 (drop 96 (ks_rest ks)))\<rparr>, ks_skip 104 ks)
   else Inl IosFailure)"
  by (auto simp: vote_common_read_def ks_bind_def ks_return_def reader_simps simp del: One_nat_def)

lemma vote_common_wire_inject: "vote_common_wf a \<Longrightarrow> vote_common_wf b \<Longrightarrow> vote_common_wire a = vote_common_wire b \<Longrightarrow> a = b"
  by (cases a; cases b) (auto simp: vote_common_wf_def vote_common_wire_def le_bytes_inject be_bytes_inject)

interpretation vote_common: fixed_codec vote_common_read vote_common_wire vote_common_wf 104
  by unfold_locales
    (auto simp: vote_common_read_eq vote_common_wf_def vote_common_wire_def ks_left_eq slice_simps wire_slices
      simp del: One_nat_def intro: vote_common_wire_inject)

record frontier_entry_t =
  frontier_entry_account :: bytes
  frontier_entry_frontier_hash :: bytes

definition frontier_entry_read :: "frontier_entry_t reader" where
  "frontier_entry_read =
     ks_bind (read_bytes 32) (\<lambda>account.
     ks_bind (read_bytes 32) (\<lambda>frontier_hash.
     ks_return \<lparr>frontier_entry_account = account,
       frontier_entry_frontier_hash = frontier_hash\<rparr>))"

definition frontier_entry_wire :: "frontier_entry_t \<Rightarrow> bytes" where
  "frontier_entry_wire b = frontier_entry_account b @ frontier_entry_frontier_hash b"

definition frontier_entry_wf :: "frontier_entry_t \<Rightarrow> bool" where
  "frontier_entry_wf b \<longleftrightarrow> length (frontier_entry_account b) = 32 \<and>
     length (frontier_entry_frontier_hash b) = 32"

lemma frontier_entry_read_eq [reader_simps]: "frontier_entry_read ks =
  (if 64 \<le> ks_left ks then
     Inr (\<lparr>frontier_entry_account = take 32 (ks_rest ks),
       frontier_entry_frontier_hash = take 32 (drop 32 (ks_rest ks))\<rparr>, ks_skip 64 ks)
   else Inl IosFailure)"
  by (auto simp: frontier_entry_read_def ks_bind_def ks_return_def reader_simps simp del: One_nat_def)

lemma frontier_entry_wire_inject: "frontier_entry_wf a \<Longrightarrow> frontier_entry_wf b \<Longrightarrow> frontier_entry_wire a = frontier_entry_wire b \<Longrightarrow> a = b"
  by (cases a; cases b) (auto simp: frontier_entry_wf_def frontier_entry_wire_def le_bytes_inject be_bytes_inject)

interpretation frontier_entry: fixed_codec frontier_entry_read frontier_entry_wire frontier_entry_wf 64
  by unfold_locales
    (auto simp: frontier_entry_read_eq frontier_entry_wf_def frontier_entry_wire_def ks_left_eq slice_simps wire_slices
      simp del: One_nat_def intro: frontier_entry_wire_inject)

record frontier_balance_entry_t =
  frontier_balance_frontier_hash :: bytes
  frontier_balance_balance :: bytes

definition frontier_balance_read :: "frontier_balance_entry_t reader" where
  "frontier_balance_read =
     ks_bind (read_bytes 32) (\<lambda>frontier_hash.
     ks_bind (read_bytes 16) (\<lambda>balance.
     ks_return \<lparr>frontier_balance_frontier_hash = frontier_hash,
       frontier_balance_balance = balance\<rparr>))"

definition frontier_balance_wire :: "frontier_balance_entry_t \<Rightarrow> bytes" where
  "frontier_balance_wire b = frontier_balance_frontier_hash b @ frontier_balance_balance b"

definition frontier_balance_wf :: "frontier_balance_entry_t \<Rightarrow> bool" where
  "frontier_balance_wf b \<longleftrightarrow> length (frontier_balance_frontier_hash b) = 32 \<and>
     length (frontier_balance_balance b) = 16"

lemma frontier_balance_read_eq [reader_simps]: "frontier_balance_read ks =
  (if 48 \<le> ks_left ks then
     Inr (\<lparr>frontier_balance_frontier_hash = take 32 (ks_rest ks),
       frontier_balance_balance = take 16 (drop 32 (ks_rest ks))\<rparr>, ks_skip 48 ks)
   else Inl IosFailure)"
  by (auto simp: frontier_balance_read_def ks_bind_def ks_return_def reader_simps simp del: One_nat_def)

lemma frontier_balance_wire_inject: "frontier_balance_wf a \<Longrightarrow> frontier_balance_wf b \<Longrightarrow> frontier_balance_wire a = frontier_balance_wire b \<Longrightarrow> a = b"
  by (cases a; cases b) (auto simp: frontier_balance_wf_def frontier_balance_wire_def le_bytes_inject be_bytes_inject)

interpretation frontier_balance: fixed_codec frontier_balance_read frontier_balance_wire frontier_balance_wf 48
  by unfold_locales
    (auto simp: frontier_balance_read_eq frontier_balance_wf_def frontier_balance_wire_def ks_left_eq slice_simps wire_slices
      simp del: One_nat_def intro: frontier_balance_wire_inject)

record msg_frontier_req_t =
  frontier_req_start :: bytes
  frontier_req_age :: u32
  frontier_req_count :: u32

definition frontier_req_read :: "msg_frontier_req_t reader" where
  "frontier_req_read =
     ks_bind (read_bytes 32) (\<lambda>start.
     ks_bind read_u4le (\<lambda>age.
     ks_bind read_u4le (\<lambda>count.
     ks_return \<lparr>frontier_req_start = start, frontier_req_age = age,
       frontier_req_count = count\<rparr>)))"

definition frontier_req_wire :: "msg_frontier_req_t \<Rightarrow> bytes" where
  "frontier_req_wire b = frontier_req_start b @ le_bytes 4 (frontier_req_age b) @
     le_bytes 4 (frontier_req_count b)"

definition frontier_req_wf :: "msg_frontier_req_t \<Rightarrow> bool" where
  "frontier_req_wf b \<longleftrightarrow> length (frontier_req_start b) = 32"

lemma frontier_req_read_eq [reader_simps]: "frontier_req_read ks =
  (if 40 \<le> ks_left ks then
     Inr (\<lparr>frontier_req_start = take 32 (ks_rest ks),
       frontier_req_age = le_word (take 4 (drop 32 (ks_rest ks))),
       frontier_req_count = le_word (take 4 (drop 36 (ks_rest ks)))\<rparr>, ks_skip 40 ks)
   else Inl IosFailure)"
  by (auto simp: frontier_req_read_def ks_bind_def ks_return_def reader_simps simp del: One_nat_def)

lemma frontier_req_wire_inject: "frontier_req_wf a \<Longrightarrow> frontier_req_wf b \<Longrightarrow> frontier_req_wire a = frontier_req_wire b \<Longrightarrow> a = b"
  by (cases a; cases b) (auto simp: frontier_req_wf_def frontier_req_wire_def le_bytes_inject be_bytes_inject)

interpretation frontier_req: fixed_codec frontier_req_read frontier_req_wire frontier_req_wf 40
  by unfold_locales
    (auto simp: frontier_req_read_eq frontier_req_wf_def frontier_req_wire_def ks_left_eq slice_simps wire_slices
      simp del: One_nat_def intro: frontier_req_wire_inject)

record msg_bulk_pull_blocks_t =
  bulk_pull_blocks_block_type :: u8

definition bulk_pull_blocks_read :: "msg_bulk_pull_blocks_t reader" where
  "bulk_pull_blocks_read =
     ks_bind read_u1 (\<lambda>block_type.
     ks_return \<lparr>bulk_pull_blocks_block_type = block_type\<rparr>)"

definition bulk_pull_blocks_wire :: "msg_bulk_pull_blocks_t \<Rightarrow> bytes" where
  "bulk_pull_blocks_wire b = [bulk_pull_blocks_block_type b]"

definition bulk_pull_blocks_wf :: "msg_bulk_pull_blocks_t \<Rightarrow> bool" where
  "bulk_pull_blocks_wf b \<longleftrightarrow> True"

lemma bulk_pull_blocks_read_eq [reader_simps]: "bulk_pull_blocks_read ks =
  (if 1 \<le> ks_left ks then
     Inr (\<lparr>bulk_pull_blocks_block_type = hd (ks_rest ks)\<rparr>, ks_skip 1 ks)
   else Inl IosFailure)"
  by (auto simp: bulk_pull_blocks_read_def ks_bind_def ks_return_def reader_simps simp del: One_nat_def)

lemma bulk_pull_blocks_wire_inject: "bulk_pull_blocks_wf a \<Longrightarrow> bulk_pull_blocks_wf b \<Longrightarrow> bulk_pull_blocks_wire a = bulk_pull_blocks_wire b \<Longrightarrow> a = b"
  by (cases a; cases b) (auto simp: bulk_pull_blocks_wf_def bulk_pull_blocks_wire_def le_bytes_inject be_bytes_inject)

interpretation bulk_pull_blocks: fixed_codec bulk_pull_blocks_read bulk_pull_blocks_wire bulk_pull_blocks_wf 1
  by unfold_locales
    (auto simp: bulk_pull_blocks_read_eq bulk_pull_blocks_wf_def bulk_pull_blocks_wire_def ks_left_eq slice_simps wire_slices
      simp del: One_nat_def intro: bulk_pull_blocks_wire_inject)

record msg_telemetry_ack_t =
  telemetry_ack_signature :: bytes
  telemetry_ack_nodeid :: bytes
  telemetry_ack_blockcount :: u64
  telemetry_ack_cementedcount :: u64
  telemetry_ack_uncheckedcount :: u64
  telemetry_ack_accountcount :: u64
  telemetry_ack_bandwidthcap :: u64
  telemetry_ack_uptime :: u64
  telemetry_ack_peercount :: u32
  telemetry_ack_protocolversion :: u8
  telemetry_ack_genesisblock :: bytes
  telemetry_ack_majorversion :: u8
  telemetry_ack_minorversion :: u8
  telemetry_ack_patchversion :: u8
  telemetry_ack_prereleaseversion :: u8
  telemetry_ack_maker :: u8
  telemetry_ack_timestamp :: u64
  telemetry_ack_activedifficulty :: u64

definition telemetry_ack_read :: "msg_telemetry_ack_t reader" where
  "telemetry_ack_read =
     ks_bind (read_bytes 64) (\<lambda>signature.
     ks_bind (read_bytes 32) (\<lambda>nodeid.
     ks_bind read_u8be (\<lambda>blockcount.
     ks_bind read_u8be (\<lambda>cementedcount.
     ks_bind read_u8be (\<lambda>uncheckedcount.
     ks_bind read_u8be (\<lambda>accountcount.
     ks_bind read_u8be (\<lambda>bandwidthcap.
     ks_bind read_u8be (\<lambda>uptime.
     ks_bind read_u4be (\<lambda>peercount.
     ks_bind read_u1 (\<lambda>protocolversion.
     ks_bind (read_bytes 32) (\<lambda>genesisblock.
     ks_bind read_u1 (\<lambda>majorversion.
     ks_bind read_u1 (\<lambda>minorversion.
     ks_bind read_u1 (\<lambda>patchversion.
     ks_bind read_u1 (\<lambda>prereleaseversion.
     ks_bind read_u1 (\<lambda>maker.
     ks_bind read_u8be (\<lambda>timestamp.
     ks_bind read_u8be (\<lambda>activedifficulty.
     ks_return \<lparr>telemetry_ack_signature = signature, telemetry_ack_nodeid = nodeid,
       telemetry_ack_blockcount = blockcount, telemetry_ack_cementedcount = cementedcount,
       telemetry_ack_uncheckedcount = uncheckedcount,
       telemetry_ack_accountcount = accountcount, telemetry_ack_bandwidthcap = bandwidthcap,
       telemetry_ack_uptime = uptime, telemetry_ack_peercount = peercount,
       telemetry_ack_protocolversion = protocolversion,
       telemetry_ack_genesisblock = genesisblock, telemetry_ack_majorversion = majorversion,
       telemetry_ack_minorversion = minorversion, telemetry_ack_patchversion = patchversion,
       telemetry_ack_prereleaseversion = prereleaseversion, telemetry_ack_maker = maker,
       telemetry_ack_timestamp = timestamp, telemetry_ack_activedifficulty = activedifficulty\<rparr>))))))))))))))))))"

definition telemetry_ack_wire :: "msg_telemetry_ack_t \<Rightarrow> bytes" where
  "telemetry_ack_wire b = telemetry_ack_signature b @ telemetry_ack_nodeid b @
     be_bytes 8 (telemetry_ack_blockcount b) @ be_bytes 8 (telemetry_ack_cementedcount b) @
     be_bytes 8 (telemetry_ack_uncheckedcount b) @ be_bytes 8 (telemetry_ack_accountcount b) @
     be_bytes 8 (telemetry_ack_bandwidthcap b) @ be_bytes 8 (telemetry_ack_uptime b) @
     be_bytes 4 (telemetry_ack_peercount b) @ [telemetry_ack_protocolversion b] @
     telemetry_ack_genesisblock b @ [telemetry_ack_majorversion b] @
     [telemetry_ack_minorversion b] @ [telemetry_ack_patchversion b] @
     [telemetry_ack_prereleaseversion b] @ [telemetry_ack_maker b] @
     be_bytes 8 (telemetry_ack_timestamp b) @ be_bytes 8 (telemetry_ack_activedifficulty b)"

definition telemetry_ack_wf :: "msg_telemetry_ack_t \<Rightarrow> bool" where
  "telemetry_ack_wf b \<longleftrightarrow> length (telemetry_ack_signature b) = 64 \<and>
     length (telemetry_ack_nodeid b) = 32 \<and> length (telemetry_ack_genesisblock b) = 32"

lemma telemetry_ack_read_eq [reader_simps]: "telemetry_ack_read ks =
  (if 202 \<le> ks_left ks then
     Inr (\<lparr>telemetry_ack_signature = take 64 (ks_rest ks),
       telemetry_ack_nodeid = take 32 (drop 64 (ks_rest ks)),
       telemetry_ack_blockcount = be_word (take 8 (drop 96 (ks_rest ks))),
       telemetry_ack_cementedcount = be_word (take 8 (drop 104 (ks_rest ks))),
       telemetry_ack_uncheckedcount = be_word (take 8 (drop 112 (ks_rest ks))),
       telemetry_ack_accountcount = be_word (take 8 (drop 120 (ks_rest ks))),
       telemetry_ack_bandwidthcap = be_word (take 8 (drop 128 (ks_rest ks))),
       telemetry_ack_uptime = be_word (take 8 (drop 136 (ks_rest ks))),
       telemetry_ack_peercount = be_word (take 4 (drop 144 (ks_rest ks))),
       telemetry_ack_protocolversion = hd (drop 148 (ks_rest ks)),
       telemetry_ack_genesisblock = take 32 (drop 149 (ks_rest ks)),
       telemetry_ack_majorversion = hd (drop 181 (ks_rest ks)),
       telemetry_ack_minorversion = hd (drop 182 (ks_rest ks)),
       telemetry_ack_patchversion = hd (drop 183 (ks_rest ks)),
       telemetry_ack_prereleaseversion = hd (drop 184 (ks_rest ks)),
       telemetry_ack_maker = hd (drop 185 (ks_rest ks)),
       telemetry_ack_timestamp = be_word (take 8 (drop 186 (ks_rest ks))),
       telemetry_ack_activedifficulty = be_word (take 8 (drop 194 (ks_rest ks)))\<rparr>, ks_skip 202 ks)
   else Inl IosFailure)"
  by (auto simp: telemetry_ack_read_def ks_bind_def ks_return_def reader_simps simp del: One_nat_def)

lemma telemetry_ack_wire_inject: "telemetry_ack_wf a \<Longrightarrow> telemetry_ack_wf b \<Longrightarrow> telemetry_ack_wire a = telemetry_ack_wire b \<Longrightarrow> a = b"
  by (cases a; cases b) (auto simp: telemetry_ack_wf_def telemetry_ack_wire_def le_bytes_inject be_bytes_inject)

interpretation telemetry_ack: fixed_codec telemetry_ack_read telemetry_ack_wire telemetry_ack_wf 202
  by unfold_locales
    (auto simp: telemetry_ack_read_eq telemetry_ack_wf_def telemetry_ack_wire_def ks_left_eq slice_simps wire_slices
      simp del: One_nat_def intro: telemetry_ack_wire_inject)

text \<open>\<open>msg_bulk_pull_account_t\<close>: the last byte is cast to the enumeration of the flags.\<close>

record msg_bulk_pull_account_t =
  bulk_pull_account_account :: bytes
  bulk_pull_account_minimum_amount :: bytes
  bulk_pull_account_flags :: enum_bulk_pull_account_t

definition bulk_pull_account_read :: "msg_bulk_pull_account_t reader" where
  "bulk_pull_account_read =
     ks_bind (read_bytes 32) (\<lambda>account.
     ks_bind (read_bytes 16) (\<lambda>minimum_amount.
     ks_bind read_u1 (\<lambda>flags.
     ks_return \<lparr>bulk_pull_account_account = account,
       bulk_pull_account_minimum_amount = minimum_amount,
       bulk_pull_account_flags = enum_bulk_pull_account_of flags\<rparr>)))"

definition bulk_pull_account_wire :: "msg_bulk_pull_account_t \<Rightarrow> bytes" where
  "bulk_pull_account_wire b = bulk_pull_account_account b @ bulk_pull_account_minimum_amount b @
     [enum_bulk_pull_account_val (bulk_pull_account_flags b)]"

definition bulk_pull_account_wf :: "msg_bulk_pull_account_t \<Rightarrow> bool" where
  "bulk_pull_account_wf b \<longleftrightarrow>
     length (bulk_pull_account_account b) = 32 \<and> length (bulk_pull_account_minimum_amount b) = 16 \<and>
     bulk_pull_account_flags b =
       enum_bulk_pull_account_of (enum_bulk_pull_account_val (bulk_pull_account_flags b))"

lemma bulk_pull_account_read_eq [reader_simps]: "bulk_pull_account_read ks =
  (if 49 \<le> ks_left ks then
     Inr (\<lparr>bulk_pull_account_account = take 32 (ks_rest ks),
       bulk_pull_account_minimum_amount = take 16 (drop 32 (ks_rest ks)),
       bulk_pull_account_flags = enum_bulk_pull_account_of (hd (drop 48 (ks_rest ks)))\<rparr>, ks_skip 49 ks)
   else Inl IosFailure)"
  by (auto simp: bulk_pull_account_read_def ks_bind_def ks_return_def reader_simps
      simp del: One_nat_def)

lemma bulk_pull_account_wire_inject:
  assumes "bulk_pull_account_wf a" and "bulk_pull_account_wf b"
    and "bulk_pull_account_wire a = bulk_pull_account_wire b"
  shows "a = b"
proof (cases a; cases b)
  fix aa am af ba bm bf
  assume "a = \<lparr>bulk_pull_account_account = aa, bulk_pull_account_minimum_amount = am,
      bulk_pull_account_flags = af\<rparr>"
    and "b = \<lparr>bulk_pull_account_account = ba, bulk_pull_account_minimum_amount = bm,
      bulk_pull_account_flags = bf\<rparr>"
  with assms have "aa = ba" "am = bm" "enum_bulk_pull_account_val af = enum_bulk_pull_account_val bf"
    "af = enum_bulk_pull_account_of (enum_bulk_pull_account_val af)"
    "bf = enum_bulk_pull_account_of (enum_bulk_pull_account_val bf)"
    by (simp_all add: bulk_pull_account_wf_def bulk_pull_account_wire_def)
  with \<open>a = _\<close> \<open>b = _\<close> show ?thesis by metis
qed

interpretation bulk_pull_account:
  fixed_codec bulk_pull_account_read bulk_pull_account_wire bulk_pull_account_wf 49
  by unfold_locales
    (auto simp: bulk_pull_account_read_eq bulk_pull_account_wf_def bulk_pull_account_wire_def
      ks_left_eq slice_simps wire_slices simp del: One_nat_def
      intro: bulk_pull_account_wire_inject)

text \<open>A 32 byte hash, as \<open>vote_by_hash_t\<close> reads it.\<close>

interpretation hash: fixed_codec "read_bytes 32" "\<lambda>h. h" "\<lambda>h. length h = 32" 32
  by unfold_locales (auto simp: reader_simps ks_left_eq)

section \<open>The vectors\<close>

text \<open>The loop of \<open>confirm_request_by_hash_t::_read\<close>, with \<open>i\<close> parts read into \<open>acc\<close>.\<close>

function hash_pairs_loop :: "nat \<Rightarrow> nat \<Rightarrow> hash_pair_t list \<Rightarrow> hash_pair_t list reader" where
  "hash_pairs_loop n i acc ks =
     (case hash_pair_read ks of
        Inl e \<Rightarrow> Inl e
      | Inr (x, ks') \<Rightarrow>
          if i + 1 = n \<or> is_eof ks' then Inr (acc @ [x], ks')
          else hash_pairs_loop n (i + 1) (acc @ [x]) ks')"
  by pat_completeness auto
termination
  by (relation "measure (\<lambda>(n, i, acc, ks). ks_left ks)") (auto dest!: hash_pair.read_progress simp: ks_left_skip)

declare hash_pairs_loop.simps [simp del]

interpretation hash_pairs: counted_records hash_pair_read hash_pair_wire hash_pair_wf 64 n "hash_pairs_loop n" for n
  by unfold_locales (rule hash_pairs_loop.simps)

text \<open>The loop of \<open>vote_by_hash_t::_read\<close>, with \<open>i\<close> parts read into \<open>acc\<close>.\<close>

function hashes_loop :: "nat \<Rightarrow> nat \<Rightarrow> bytes list \<Rightarrow> bytes list reader" where
  "hashes_loop n i acc ks =
     (case read_bytes 32 ks of
        Inl e \<Rightarrow> Inl e
      | Inr (x, ks') \<Rightarrow>
          if i + 1 = n \<or> is_eof ks' then Inr (acc @ [x], ks')
          else hashes_loop n (i + 1) (acc @ [x]) ks')"
  by pat_completeness auto
termination
  by (relation "measure (\<lambda>(n, i, acc, ks). ks_left ks)") (auto dest!: hash.read_progress simp: ks_left_skip)

declare hashes_loop.simps [simp del]

interpretation hashes: counted_records "read_bytes 32" "\<lambda>h. h" "\<lambda>h. length h = 32" 32 n "hashes_loop n" for n
  by unfold_locales (rule hashes_loop.simps)

text \<open>The loop of \<open>msg_keepalive_t::_read\<close>, with \<open>i\<close> parts read into \<open>acc\<close>.\<close>

function peers_loop :: "nat \<Rightarrow> nat \<Rightarrow> peer_t list \<Rightarrow> peer_t list reader" where
  "peers_loop n i acc ks =
     (case peer_read ks of
        Inl e \<Rightarrow> Inl e
      | Inr (x, ks') \<Rightarrow>
          if i + 1 = n \<or> is_eof ks' then Inr (acc @ [x], ks')
          else peers_loop n (i + 1) (acc @ [x]) ks')"
  by pat_completeness auto
termination
  by (relation "measure (\<lambda>(n, i, acc, ks). ks_left ks)") (auto dest!: peer.read_progress simp: ks_left_skip)

declare peers_loop.simps [simp del]

interpretation peers: counted_records peer_read peer_wire peer_wf 18 n "peers_loop n" for n
  by unfold_locales (rule peers_loop.simps)

end
