(* ===== verification/NanoMessages.thy ===== *)
theory NanoMessages
  imports NanoRecords
begin

text \<open>
  The messages and the top level \<open>nano_t\<close> (\<open>nano.h\<close>, \<open>nano.cpp\<close>). A reader that the code gives
  access to the header through \<open>_root ()->header ()\<close> takes the header as an argument. An
  optional member is \<open>None\<close> where its \<open>n_\<dots>\<close> flag is true and its pointer null.
  The bodies the header can announce are the constructors of \<open>nano_body\<close>.
\<close>

section \<open>Vectors of hashes, hash pairs and peers\<close>

record confirm_request_by_hash_t =
  by_hash_pairs :: "hash_pair_t list option"

definition confirm_request_by_hash_read :: "message_header_t \<Rightarrow> confirm_request_by_hash_t reader" where
  "confirm_request_by_hash_read h ks =
     (if \<not> is_eof ks then
        (case hash_pairs_loop (unat (item_count_int h)) 0 [] ks of
           Inl e \<Rightarrow> Inl e
         | Inr (ps, ks') \<Rightarrow> Inr (\<lparr>by_hash_pairs = Some ps\<rparr>, ks'))
      else Inr (\<lparr>by_hash_pairs = None\<rparr>, ks))"

record vote_by_hash_t =
  vote_hashes :: "bytes list option"

definition vote_by_hash_read :: "message_header_t \<Rightarrow> vote_by_hash_t reader" where
  "vote_by_hash_read h ks =
     (if \<not> is_eof ks then
        (case hashes_loop (unat (item_count_int h)) 0 [] ks of
           Inl e \<Rightarrow> Inl e
         | Inr (hs, ks') \<Rightarrow> Inr (\<lparr>vote_hashes = Some hs\<rparr>, ks'))
      else Inr (\<lparr>vote_hashes = None\<rparr>, ks))"

record msg_keepalive_t =
  keepalive_peers :: "peer_t list option"

definition keepalive_read :: "msg_keepalive_t reader" where
  "keepalive_read ks =
     (if \<not> is_eof ks then
        (case peers_loop 8 0 [] ks of
           Inl e \<Rightarrow> Inl e
         | Inr (ps, ks') \<Rightarrow> Inr (\<lparr>keepalive_peers = Some ps\<rparr>, ks'))
      else Inr (\<lparr>keepalive_peers = None\<rparr>, ks))"

section \<open>Messages with optional parts\<close>

record msg_confirm_req_t =
  confirm_req_reqbyhash :: "confirm_request_by_hash_t option"
  confirm_req_block :: "block_selector_t option"

text \<open>An optional member: read when its condition holds, null otherwise.\<close>

definition read_if :: "bool \<Rightarrow> 'a reader \<Rightarrow> 'a option reader" where
  "read_if c r = (if c then ks_bind r (\<lambda>x. ks_return (Some x)) else ks_return None)"

definition confirm_req_read :: "message_header_t \<Rightarrow> msg_confirm_req_t reader" where
  "confirm_req_read h =
     ks_bind (read_if (hdr_block_type h = ENUM_BLOCKTYPE_NOT_A_BLOCK)
                (confirm_request_by_hash_read h)) (\<lambda>reqbyhash.
     ks_bind (read_if (hdr_block_type h \<noteq> ENUM_BLOCKTYPE_NOT_A_BLOCK)
                (block_selector_read (ucast (block_type_int h)))) (\<lambda>block.
     ks_return \<lparr>confirm_req_reqbyhash = reqbyhash, confirm_req_block = block\<rparr>))"

record msg_confirm_ack_t =
  confirm_ack_common :: vote_common_t
  confirm_ack_votebyhash :: "vote_by_hash_t option"
  confirm_ack_block :: "block_selector_t option"

definition confirm_ack_read :: "message_header_t \<Rightarrow> msg_confirm_ack_t reader" where
  "confirm_ack_read h =
     ks_bind vote_common_read (\<lambda>common.
     ks_bind (read_if (hdr_block_type h = ENUM_BLOCKTYPE_NOT_A_BLOCK)
                (vote_by_hash_read h)) (\<lambda>votebyhash.
     ks_bind (read_if (hdr_block_type h \<noteq> ENUM_BLOCKTYPE_NOT_A_BLOCK)
                (block_selector_read (ucast (block_type_int h)))) (\<lambda>block.
     ks_return \<lparr>confirm_ack_common = common, confirm_ack_votebyhash = votebyhash,
       confirm_ack_block = block\<rparr>)))"

record msg_publish_t =
  publish_body :: block_selector_t

definition publish_read :: "message_header_t \<Rightarrow> msg_publish_t reader" where
  "publish_read h =
     ks_bind (block_selector_read (ucast (block_type_int h))) (\<lambda>body.
     ks_return \<lparr>publish_body = body\<rparr>)"

record msg_node_id_handshake_t =
  handshake_query :: "node_id_query_t option"
  handshake_response :: "node_id_response_t option"

definition node_id_handshake_read :: "message_header_t \<Rightarrow> msg_node_id_handshake_t reader" where
  "node_id_handshake_read h =
     ks_bind (read_if (query_flag h \<noteq> 0) node_id_query_read) (\<lambda>query.
     ks_bind (read_if (response_flag h \<noteq> 0) node_id_response_read) (\<lambda>response.
     ks_return \<lparr>handshake_query = query, handshake_response = response\<rparr>))"

record msg_bulk_pull_t =
  bulk_pull_start :: bytes
  bulk_pull_end :: bytes
  bulk_pull_extended :: "extended_parameters_t option"

definition bulk_pull_read :: "message_header_t \<Rightarrow> msg_bulk_pull_t reader" where
  "bulk_pull_read h =
     ks_bind (read_bytes 32) (\<lambda>start.
     ks_bind (read_bytes 32) (\<lambda>end_hash.
     ks_bind (read_if (extended_params_present h \<noteq> 0) extended_read) (\<lambda>extended.
     ks_return \<lparr>bulk_pull_start = start, bulk_pull_end = end_hash,
       bulk_pull_extended = extended\<rparr>)))"

text \<open>\<open>msg_telemetry_req_t\<close> and \<open>bulk_push_response_t\<close> have no content.\<close>

definition telemetry_req_read :: "unit reader" where
  "telemetry_req_read = ks_return ()"

definition bulk_push_response_read :: "unit reader" where
  "bulk_push_response_read = ks_return ()"

section \<open>Streams of blocks\<close>

record bulk_entry_t =
  entry_block_type :: u8
  entry_block :: block_selector_t

text \<open>\<open>msg_bulk_push_t::bulk_push_entry_t\<close> and \<open>bulk_pull_response_t::bulk_pull_entry_t\<close>.\<close>

definition bulk_push_entry_read :: "bulk_entry_t reader" where
  "bulk_push_entry_read =
     ks_bind read_u1 (\<lambda>block_type.
     ks_bind (block_selector_read block_type) (\<lambda>block.
     ks_return \<lparr>entry_block_type = block_type, entry_block = block\<rparr>))"

definition bulk_pull_entry_read :: "bulk_entry_t reader" where
  "bulk_pull_entry_read =
     ks_bind read_u1 (\<lambda>block_type.
     ks_bind (block_selector_read block_type) (\<lambda>block.
     ks_return \<lparr>entry_block_type = block_type, entry_block = block\<rparr>))"

text \<open>\<open>std::vector::at\<close>.\<close>

definition vector_at :: "'a list \<Rightarrow> nat \<Rightarrow> ks_exception + 'a" where
  "vector_at xs i = (if i < length xs then Inr (xs ! i) else Inl OutOfRange)"

lemma bulk_push_entry_progress:
  "bulk_push_entry_read ks = Inr (x, ks') \<Longrightarrow> ks_left ks' < ks_left ks"
  by (auto simp: bulk_push_entry_read_def ks_bind_def ks_return_def read_u1_eq ks_left_skip
      split: sum.splits if_splits dest!: block_selector_read_inv)

lemma bulk_pull_entry_progress:
  "bulk_pull_entry_read ks = Inr (x, ks') \<Longrightarrow> ks_left ks' < ks_left ks"
  by (auto simp: bulk_pull_entry_read_def ks_bind_def ks_return_def read_u1_eq ks_left_skip
      split: sum.splits if_splits dest!: block_selector_read_inv)

text \<open>
  The loops of \<open>msg_bulk_push_t::_read\<close> and \<open>bulk_pull_response_t::_read\<close>: the index is
  advanced before the condition looks at \<open>entry ()->at (i)\<close>.
\<close>

function bulk_push_loop :: "nat \<Rightarrow> bulk_entry_t list \<Rightarrow> bulk_entry_t list reader" where
  "bulk_push_loop i acc ks =
     (case bulk_push_entry_read ks of
        Inl e \<Rightarrow> Inl e
      | Inr (x, ks') \<Rightarrow>
          if is_eof ks' then Inr (acc @ [x], ks')
          else (case vector_at (acc @ [x]) (i + 1) of
                  Inl e \<Rightarrow> Inl e
                | Inr y \<Rightarrow>
                    if entry_block_type y = 1 then Inr (acc @ [x], ks')
                    else bulk_push_loop (i + 1) (acc @ [x]) ks'))"
  by pat_completeness auto
termination
  by (relation "measure (\<lambda>(i, acc, ks). ks_left ks)") (auto dest!: bulk_push_entry_progress)

function bulk_pull_loop :: "nat \<Rightarrow> bulk_entry_t list \<Rightarrow> bulk_entry_t list reader" where
  "bulk_pull_loop i acc ks =
     (case bulk_pull_entry_read ks of
        Inl e \<Rightarrow> Inl e
      | Inr (x, ks') \<Rightarrow>
          if is_eof ks' then Inr (acc @ [x], ks')
          else (case vector_at (acc @ [x]) (i + 1) of
                  Inl e \<Rightarrow> Inl e
                | Inr y \<Rightarrow>
                    if entry_block_type y = 1 then Inr (acc @ [x], ks')
                    else bulk_pull_loop (i + 1) (acc @ [x]) ks'))"
  by pat_completeness auto
termination
  by (relation "measure (\<lambda>(i, acc, ks). ks_left ks)") (auto dest!: bulk_pull_entry_progress)

declare bulk_push_loop.simps [simp del] bulk_pull_loop.simps [simp del]

definition bulk_push_read :: "bulk_entry_t list reader" where
  "bulk_push_read = bulk_push_loop 0 []"

definition bulk_pull_response_read :: "bulk_entry_t list reader" where
  "bulk_pull_response_read = bulk_pull_loop 0 []"

text \<open>
  \<open>bulk_pull_account_entry_t\<close>: a member that is not read stays the empty string its
  constructor made, and its \<open>n_\<dots>\<close> flag stays true.
\<close>

record bulk_pull_account_entry_t =
  account_entry_flags :: u8
  account_entry_hash :: bytes
  account_entry_n_hash :: bool
  account_entry_amount :: bytes
  account_entry_n_amount :: bool
  account_entry_source :: bytes
  account_entry_n_source :: bool

definition pending_address_only :: "u8 \<Rightarrow> bool" where
  "pending_address_only flags \<longleftrightarrow> flags = 1"

definition pending_include_address :: "u8 \<Rightarrow> bool" where
  "pending_include_address flags \<longleftrightarrow> flags = 2"

definition bulk_pull_account_entry_read :: "u8 \<Rightarrow> bulk_pull_account_entry_t reader" where
  "bulk_pull_account_entry_read flags =
     ks_bind (read_if (\<not> pending_address_only flags) (read_bytes 32)) (\<lambda>hash.
     ks_bind (read_if (\<not> pending_address_only flags) (read_bytes 16)) (\<lambda>amount.
     ks_bind (read_if (pending_address_only flags \<or> pending_include_address flags)
                (read_bytes 32)) (\<lambda>source.
     ks_return \<lparr>account_entry_flags = flags,
       account_entry_hash = (case hash of None \<Rightarrow> [] | Some b \<Rightarrow> b),
       account_entry_n_hash = (hash = None),
       account_entry_amount = (case amount of None \<Rightarrow> [] | Some b \<Rightarrow> b),
       account_entry_n_amount = (amount = None),
       account_entry_source = (case source of None \<Rightarrow> [] | Some b \<Rightarrow> b),
       account_entry_n_source = (source = None)\<rparr>)))"

section \<open>The top level\<close>

datatype nano_body =
    BodyConfirmReq msg_confirm_req_t
  | BodyConfirmAck msg_confirm_ack_t
  | BodyBulkPull msg_bulk_pull_t
  | BodyBulkPullAccount msg_bulk_pull_account_t
  | BodyKeepalive msg_keepalive_t
  | BodyBulkPush "bulk_entry_t list"
  | BodyTelemetryAck msg_telemetry_ack_t
  | BodyNodeIdHandshake msg_node_id_handshake_t
  | BodyFrontierReq msg_frontier_req_t
  | BodyBulkPullBlocks msg_bulk_pull_blocks_t
  | BodyPublish msg_publish_t
  | BodyTelemetryReq
  | BodyIgnored ignore_until_eof_t

record nano_t =
  nano_header :: message_header_t
  nano_body :: nano_body

definition nano_body_read :: "message_header_t \<Rightarrow> nano_body reader" where
  "nano_body_read h =
     (case hdr_message_type h of
        ENUM_MSGTYPE_CONFIRM_REQ \<Rightarrow> ks_bind (confirm_req_read h) (\<lambda>m. ks_return (BodyConfirmReq m))
      | ENUM_MSGTYPE_CONFIRM_ACK \<Rightarrow> ks_bind (confirm_ack_read h) (\<lambda>m. ks_return (BodyConfirmAck m))
      | ENUM_MSGTYPE_BULK_PULL \<Rightarrow> ks_bind (bulk_pull_read h) (\<lambda>m. ks_return (BodyBulkPull m))
      | ENUM_MSGTYPE_BULK_PULL_ACCOUNT \<Rightarrow>
          ks_bind bulk_pull_account_read (\<lambda>m. ks_return (BodyBulkPullAccount m))
      | ENUM_MSGTYPE_KEEPALIVE \<Rightarrow> ks_bind keepalive_read (\<lambda>m. ks_return (BodyKeepalive m))
      | ENUM_MSGTYPE_BULK_PUSH \<Rightarrow> ks_bind bulk_push_read (\<lambda>m. ks_return (BodyBulkPush m))
      | ENUM_MSGTYPE_TELEMETRY_ACK \<Rightarrow> ks_bind telemetry_ack_read (\<lambda>m. ks_return (BodyTelemetryAck m))
      | ENUM_MSGTYPE_NODE_ID_HANDSHAKE \<Rightarrow>
          ks_bind (node_id_handshake_read h) (\<lambda>m. ks_return (BodyNodeIdHandshake m))
      | ENUM_MSGTYPE_FRONTIER_REQ \<Rightarrow> ks_bind frontier_req_read (\<lambda>m. ks_return (BodyFrontierReq m))
      | ENUM_MSGTYPE_BULK_PULL_BLOCKS \<Rightarrow>
          ks_bind bulk_pull_blocks_read (\<lambda>m. ks_return (BodyBulkPullBlocks m))
      | ENUM_MSGTYPE_PUBLISH \<Rightarrow> ks_bind (publish_read h) (\<lambda>m. ks_return (BodyPublish m))
      | ENUM_MSGTYPE_TELEMETRY_REQ \<Rightarrow> ks_bind telemetry_req_read (\<lambda>m. ks_return BodyTelemetryReq)
      | _ \<Rightarrow> ks_bind ignore_until_eof_read (\<lambda>m. ks_return (BodyIgnored m)))"

definition nano_read :: "nano_t reader" where
  "nano_read =
     ks_bind message_header_read (\<lambda>h.
     ks_bind (nano_body_read h) (\<lambda>b.
     ks_return \<lparr>nano_header = h, nano_body = b\<rparr>))"

end
