(* ===== verification/NanoWire.thy ===== *)
theory NanoWire
  imports NanoMessages
begin

text \<open>
  The wire format of whole messages and the proof that \<open>nano_t\<close> reads it: an encoding of
  every well formed message, the reader's answer on it, and the converse, that whatever the reader
  accepts was the encoding of its result. The loops over streams of blocks are characterised
  separately, because of what their condition does.
\<close>

section \<open>Header dependent facts\<close>

lemma block_type_int_less: "unat (block_type_int h) < 16"
  by (rule word_lt_16_if_bits) (simp add: bit_block_type_int)

lemma item_count_int_less: "unat (item_count_int h) < 16"
  by (rule word_lt_16_if_bits) (simp add: bit_item_count_int)

lemma ucast_block_type_int: "ucast (ucast (block_type_int h) :: u8) = block_type_int h"
  by (rule bit_word_eqI) (auto simp: bit_ucast_iff bit_block_type_int)

lemma block_selector_type [simp]:
  "enum_blocktype_of (ucast (ucast (block_type_int h) :: u8)) = hdr_block_type h"
  by (simp add: ucast_block_type_int) (simp add: block_type_int_def hdr_block_type_def)

lemma block_selector_enc:
  assumes "nano_block_wf (enum_blocktype_of (ucast t)) b" and "ks_rest ks = nano_block_wire b @ rest"
    and "block_size (enum_blocktype_of (ucast t)) = None \<Longrightarrow> rest = []"
  shows "block_selector_read t ks =
    Inr (\<lparr>sel_arg_block_type = t, sel_block = b\<rparr>, ks_skip (length (nano_block_wire b)) ks)"
proof (cases "block_size (enum_blocktype_of (ucast t))")
  case None
  with assms have "rest = []" by simp
  from None assms(1) obtain i where b: "b = BlockIgnored i" and "ign_empty i \<noteq> Some []"
    by (cases b) auto
  then have "i = \<lparr>ign_empty = (if ks_rest ks = [] then None else Some (ks_rest ks))\<rparr>"
    using assms(2) \<open>rest = []\<close> by (cases i) (auto split: option.splits)
  with None b assms(2) \<open>rest = []\<close> show ?thesis
    by (subst block_selector_read_cases) (auto simp: ks_left_eq)
next
  case (Some n)
  then have n: "length (nano_block_wire b) = n"
    using assms(1) nano_block_wire_length by blast
  then have "n \<le> ks_left ks" using assms(2) by (simp add: ks_left_eq)
  with block_selector_known [OF Some] obtain c where
      c: "block_selector_read t ks = Inr (\<lparr>sel_arg_block_type = t, sel_block = c\<rparr>, ks_skip n ks)"
      and "nano_block_wf (enum_blocktype_of (ucast t)) c" "nano_block_wire c = take n (ks_rest ks)"
    by blast
  then have "c = b"
    using assms(1,2) n nano_block_wire_inject by simp
  with c n show ?thesis by simp
qed

section \<open>Encodings\<close>

definition option_wire :: "('a \<Rightarrow> bytes) \<Rightarrow> 'a option \<Rightarrow> bytes" where
  "option_wire f x = (case x of None \<Rightarrow> [] | Some y \<Rightarrow> f y)"

definition option_wf :: "bool \<Rightarrow> ('a \<Rightarrow> bool) \<Rightarrow> 'a option \<Rightarrow> bool" where
  "option_wf c f x \<longleftrightarrow> (case x of None \<Rightarrow> \<not> c | Some y \<Rightarrow> c \<and> f y)"

definition vector_wire :: "('a \<Rightarrow> bytes) \<Rightarrow> 'a list option \<Rightarrow> bytes" where
  "vector_wire f x = (case x of None \<Rightarrow> [] | Some ys \<Rightarrow> concat (map f ys))"

text \<open>
  A vector member: null, or at least one part, and no more than the header's count where that
  count is not zero.
\<close>

definition vector_wf :: "nat \<Rightarrow> ('a \<Rightarrow> bool) \<Rightarrow> 'a list option \<Rightarrow> bool" where
  "vector_wf n f x \<longleftrightarrow>
     (case x of None \<Rightarrow> True
      | Some ys \<Rightarrow> ys \<noteq> [] \<and> list_all f ys \<and> (n \<noteq> 0 \<longrightarrow> length ys \<le> n))"

definition selector_wire :: "block_selector_t \<Rightarrow> bytes" where
  "selector_wire s = nano_block_wire (sel_block s)"

definition selector_wf :: "message_header_t \<Rightarrow> block_selector_t \<Rightarrow> bool" where
  "selector_wf h s \<longleftrightarrow> sel_arg_block_type s = ucast (block_type_int h) \<and>
     nano_block_wf (hdr_block_type h) (sel_block s)"

definition bulk_entry_wire :: "bulk_entry_t \<Rightarrow> bytes" where
  "bulk_entry_wire e = entry_block_type e # selector_wire (entry_block e)"

definition bulk_entry_wf :: "bulk_entry_t \<Rightarrow> bool" where
  "bulk_entry_wf e \<longleftrightarrow> sel_arg_block_type (entry_block e) = entry_block_type e \<and>
     nano_block_wf (enum_blocktype_of (ucast (entry_block_type e))) (sel_block (entry_block e))"

fun nano_body_wire :: "nano_body \<Rightarrow> bytes" where
  "nano_body_wire (BodyConfirmReq m) =
     option_wire (vector_wire hash_pair_wire \<circ> by_hash_pairs) (confirm_req_reqbyhash m) @
     option_wire selector_wire (confirm_req_block m)"
| "nano_body_wire (BodyConfirmAck m) =
     vote_common_wire (confirm_ack_common m) @
     option_wire (vector_wire (\<lambda>h. h) \<circ> vote_hashes) (confirm_ack_votebyhash m) @
     option_wire selector_wire (confirm_ack_block m)"
| "nano_body_wire (BodyBulkPull m) =
     bulk_pull_start m @ bulk_pull_end m @ option_wire extended_wire (bulk_pull_extended m)"
| "nano_body_wire (BodyBulkPullAccount m) = bulk_pull_account_wire m"
| "nano_body_wire (BodyKeepalive m) = vector_wire peer_wire (keepalive_peers m)"
| "nano_body_wire (BodyBulkPush es) = concat (map bulk_entry_wire es)"
| "nano_body_wire (BodyTelemetryAck m) = telemetry_ack_wire m"
| "nano_body_wire (BodyNodeIdHandshake m) =
     option_wire node_id_query_wire (handshake_query m) @
     option_wire node_id_response_wire (handshake_response m)"
| "nano_body_wire (BodyFrontierReq m) = frontier_req_wire m"
| "nano_body_wire (BodyBulkPullBlocks m) = bulk_pull_blocks_wire m"
| "nano_body_wire (BodyPublish m) = selector_wire (publish_body m)"
| "nano_body_wire BodyTelemetryReq = []"
| "nano_body_wire (BodyIgnored m) = (case ign_empty m of None \<Rightarrow> [] | Some bs \<Rightarrow> bs)"

text \<open>The bodies a header announces; the type of the body is the one its message type names.\<close>

fun nano_body_wf :: "message_header_t \<Rightarrow> nano_body \<Rightarrow> bool" where
  "nano_body_wf h (BodyConfirmReq m) \<longleftrightarrow> hdr_message_type h = ENUM_MSGTYPE_CONFIRM_REQ \<and>
     option_wf (hdr_block_type h = ENUM_BLOCKTYPE_NOT_A_BLOCK)
       (vector_wf (unat (item_count_int h)) hash_pair_wf \<circ> by_hash_pairs) (confirm_req_reqbyhash m) \<and>
     option_wf (hdr_block_type h \<noteq> ENUM_BLOCKTYPE_NOT_A_BLOCK) (selector_wf h) (confirm_req_block m)"
| "nano_body_wf h (BodyConfirmAck m) \<longleftrightarrow> hdr_message_type h = ENUM_MSGTYPE_CONFIRM_ACK \<and>
     vote_common_wf (confirm_ack_common m) \<and>
     option_wf (hdr_block_type h = ENUM_BLOCKTYPE_NOT_A_BLOCK)
       (vector_wf (unat (item_count_int h)) (\<lambda>x. length x = 32) \<circ> vote_hashes)
       (confirm_ack_votebyhash m) \<and>
     option_wf (hdr_block_type h \<noteq> ENUM_BLOCKTYPE_NOT_A_BLOCK) (selector_wf h) (confirm_ack_block m)"
| "nano_body_wf h (BodyBulkPull m) \<longleftrightarrow> hdr_message_type h = ENUM_MSGTYPE_BULK_PULL \<and>
     length (bulk_pull_start m) = 32 \<and> length (bulk_pull_end m) = 32 \<and>
     option_wf (extended_params_present h \<noteq> 0) extended_wf (bulk_pull_extended m)"
| "nano_body_wf h (BodyBulkPullAccount m) \<longleftrightarrow>
     hdr_message_type h = ENUM_MSGTYPE_BULK_PULL_ACCOUNT \<and> bulk_pull_account_wf m"
| "nano_body_wf h (BodyKeepalive m) \<longleftrightarrow> hdr_message_type h = ENUM_MSGTYPE_KEEPALIVE \<and>
     vector_wf 8 peer_wf (keepalive_peers m)"
| "nano_body_wf h (BodyBulkPush es) \<longleftrightarrow> hdr_message_type h = ENUM_MSGTYPE_BULK_PUSH \<and>
     (\<exists>e. es = [e] \<and> bulk_entry_wf e)"
| "nano_body_wf h (BodyTelemetryAck m) \<longleftrightarrow>
     hdr_message_type h = ENUM_MSGTYPE_TELEMETRY_ACK \<and> telemetry_ack_wf m"
| "nano_body_wf h (BodyNodeIdHandshake m) \<longleftrightarrow>
     hdr_message_type h = ENUM_MSGTYPE_NODE_ID_HANDSHAKE \<and>
     option_wf (query_flag h \<noteq> 0) node_id_query_wf (handshake_query m) \<and>
     option_wf (response_flag h \<noteq> 0) node_id_response_wf (handshake_response m)"
| "nano_body_wf h (BodyFrontierReq m) \<longleftrightarrow>
     hdr_message_type h = ENUM_MSGTYPE_FRONTIER_REQ \<and> frontier_req_wf m"
| "nano_body_wf h (BodyBulkPullBlocks m) \<longleftrightarrow>
     hdr_message_type h = ENUM_MSGTYPE_BULK_PULL_BLOCKS \<and> bulk_pull_blocks_wf m"
| "nano_body_wf h (BodyPublish m) \<longleftrightarrow> hdr_message_type h = ENUM_MSGTYPE_PUBLISH \<and>
     selector_wf h (publish_body m)"
| "nano_body_wf h BodyTelemetryReq \<longleftrightarrow> hdr_message_type h = ENUM_MSGTYPE_TELEMETRY_REQ"
| "nano_body_wf h (BodyIgnored m) \<longleftrightarrow>
     (hdr_message_type h \<in> {ENUM_MSGTYPE_INVALID, ENUM_MSGTYPE_NOT_A_TYPE} \<or>
      (\<exists>v. hdr_message_type h = ENUM_MSGTYPE_UNLISTED v)) \<and> ign_empty m \<noteq> Some []"

definition nano_wire :: "nano_t \<Rightarrow> bytes" where
  "nano_wire m = header_wire (nano_header m) @ nano_body_wire (nano_body m)"

definition nano_wf :: "nano_t \<Rightarrow> bool" where
  "nano_wf m \<longleftrightarrow> header_wf (nano_header m) \<and> nano_body_wf (nano_header m) (nano_body m)"

section \<open>Readers against encodings\<close>

lemma read_if_inv:
  assumes "read_if c r ks = Inr (x, ks')"
    and "\<And>y. r ks = Inr (y, ks') \<Longrightarrow> f y \<and> consumed (w y) ks ks'"
  shows "option_wf c f x \<and> consumed (option_wire w x) ks ks'"
  using assms
  by (auto simp: read_if_def ks_bind_Inr ks_return_Inr option_wf_def option_wire_def split: if_splits)

lemma read_if_enc:
  assumes "option_wf c f x"
    and "\<And>y. x = Some y \<Longrightarrow> f y \<Longrightarrow> r ks = Inr (y, ks_skip (length (w y)) ks)"
  shows "read_if c r ks = Inr (x, ks_skip (length (option_wire w x)) ks)"
  using assms
  by (cases x) (auto simp: read_if_def ks_bind_def ks_return_def option_wf_def option_wire_def)

lemma bulk_push_loop_eq: "bulk_push_read ks =
  (case bulk_push_entry_read ks of
     Inl e \<Rightarrow> Inl e
   | Inr (x, ks') \<Rightarrow> if is_eof ks' then Inr ([x], ks') else Inl OutOfRange)"
  unfolding bulk_push_read_def
  by (subst bulk_push_loop.simps) (auto simp: vector_at_def split: sum.split)

lemma bulk_pull_loop_eq: "bulk_pull_response_read ks =
  (case bulk_pull_entry_read ks of
     Inl e \<Rightarrow> Inl e
   | Inr (x, ks') \<Rightarrow> if is_eof ks' then Inr ([x], ks') else Inl OutOfRange)"
  unfolding bulk_pull_response_read_def
  by (subst bulk_pull_loop.simps) (auto simp: vector_at_def split: sum.split)

subsection \<open>Whatever is read was the encoding of the result\<close>

lemma consumed_selector:
  "block_selector_read t ks = Inr (s, ks') \<Longrightarrow>
     sel_arg_block_type s = t \<and> nano_block_wf (enum_blocktype_of (ucast t)) (sel_block s) \<and>
     consumed (selector_wire s) ks ks'"
  unfolding consumed_def selector_wire_def by (rule block_selector_read_inv)

lemma consumed_bulk_entry:
  assumes "bulk_push_entry_read ks = Inr (e, ks')"
  shows "bulk_entry_wf e \<and> consumed (bulk_entry_wire e) ks ks'"
proof -
  from assms obtain t k1 s where t: "read_u1 ks = Inr (t, k1)"
    and s: "block_selector_read t k1 = Inr (s, ks')"
    and e: "e = \<lparr>entry_block_type = t, entry_block = s\<rparr>"
    by (auto simp: bulk_push_entry_read_def ks_bind_Inr ks_return_Inr)
  have "consumed [t] ks k1"
    using u1.read_consumed [OF t] by simp
  with consumed_selector [OF s] e show ?thesis
    by (auto simp: bulk_entry_wf_def bulk_entry_wire_def dest: consumed_append)
qed

lemma bulk_pull_entry_read_same: "bulk_pull_entry_read = bulk_push_entry_read"
  by (simp add: bulk_pull_entry_read_def bulk_push_entry_read_def)

lemma consumed_pairs:
  assumes "confirm_request_by_hash_read h ks = Inr (x, ks')"
  shows "vector_wf (unat (item_count_int h)) hash_pair_wf (by_hash_pairs x) \<and>
    consumed (vector_wire hash_pair_wire (by_hash_pairs x)) ks ks'"
proof (cases "is_eof ks")
  case True
  with assms show ?thesis
    by (auto simp: confirm_request_by_hash_read_def vector_wf_def vector_wire_def)
next
  case False
  with assms obtain ps where l: "hash_pairs_loop (unat (item_count_int h)) 0 [] ks = Inr (ps, ks')"
      and x: "x = \<lparr>by_hash_pairs = Some ps\<rparr>"
    by (auto simp: confirm_request_by_hash_read_def split: sum.splits)
  from hash_pairs.loop_consumed [OF l] x show ?thesis
    by (simp add: vector_wf_def vector_wire_def)
qed

lemma consumed_hashes:
  assumes "vote_by_hash_read h ks = Inr (x, ks')"
  shows "vector_wf (unat (item_count_int h)) (\<lambda>x. length x = 32) (vote_hashes x) \<and>
    consumed (vector_wire (\<lambda>h. h) (vote_hashes x)) ks ks'"
proof (cases "is_eof ks")
  case True
  with assms show ?thesis
    by (auto simp: vote_by_hash_read_def vector_wf_def vector_wire_def)
next
  case False
  with assms obtain ps where l: "hashes_loop (unat (item_count_int h)) 0 [] ks = Inr (ps, ks')"
      and x: "x = \<lparr>vote_hashes = Some ps\<rparr>"
    by (auto simp: vote_by_hash_read_def split: sum.splits)
  from hashes.loop_consumed [OF l] x show ?thesis
    by (simp add: vector_wf_def vector_wire_def)
qed

lemma consumed_keepalive:
  assumes "keepalive_read ks = Inr (x, ks')"
  shows "vector_wf 8 peer_wf (keepalive_peers x) \<and>
    consumed (vector_wire peer_wire (keepalive_peers x)) ks ks'"
proof (cases "is_eof ks")
  case True
  with assms show ?thesis
    by (auto simp: keepalive_read_def vector_wf_def vector_wire_def)
next
  case False
  with assms obtain ps where l: "peers_loop 8 0 [] ks = Inr (ps, ks')"
      and x: "x = \<lparr>keepalive_peers = Some ps\<rparr>"
    by (auto simp: keepalive_read_def split: sum.splits)
  from peers.loop_consumed [OF l] x show ?thesis
    by (simp add: vector_wf_def vector_wire_def)
qed

lemma consumed_if:
  assumes "read_if c r ks = Inr (x, ks')"
    and "\<And>y. r ks = Inr (y, ks') \<Longrightarrow> f y \<and> consumed (w y) ks ks'"
  shows "option_wf c f x \<and> consumed (option_wire w x) ks ks'"
  using read_if_inv [OF assms(1), of f w] assms(2) by blast

lemma consumed_block_if:
  assumes "read_if c (block_selector_read (ucast (block_type_int h))) ks = Inr (x, ks')"
  shows "option_wf c (selector_wf h) x \<and> consumed (option_wire selector_wire x) ks ks'"
  by (rule read_if_inv [OF assms]) (use consumed_selector in \<open>fastforce simp: selector_wf_def\<close>)

lemma consumed_confirm_req:
  assumes "confirm_req_read h ks = Inr (m, ks')" and "hdr_message_type h = ENUM_MSGTYPE_CONFIRM_REQ"
  shows "nano_body_wf h (BodyConfirmReq m) \<and> consumed (nano_body_wire (BodyConfirmReq m)) ks ks'"
proof -
  let ?nb = "hdr_block_type h = ENUM_BLOCKTYPE_NOT_A_BLOCK"
  from assms obtain q b k1 where q: "read_if ?nb (confirm_request_by_hash_read h) ks = Inr (q, k1)"
    and b: "read_if (\<not> ?nb) (block_selector_read (ucast (block_type_int h))) k1 = Inr (b, ks')"
    and m: "m = \<lparr>confirm_req_reqbyhash = q, confirm_req_block = b\<rparr>"
    by (auto simp: confirm_req_read_def ks_bind_Inr ks_return_Inr)
  have "option_wf ?nb (vector_wf (unat (item_count_int h)) hash_pair_wf \<circ> by_hash_pairs) q \<and>
      consumed (option_wire (vector_wire hash_pair_wire \<circ> by_hash_pairs) q) ks k1"
    by (rule read_if_inv [OF q]) (use consumed_pairs in \<open>fastforce\<close>)
  with consumed_block_if [OF b] m assms(2) show ?thesis
    by (auto intro: consumed_append)
qed

lemma consumed_confirm_ack:
  assumes "confirm_ack_read h ks = Inr (m, ks')" and "hdr_message_type h = ENUM_MSGTYPE_CONFIRM_ACK"
  shows "nano_body_wf h (BodyConfirmAck m) \<and> consumed (nano_body_wire (BodyConfirmAck m)) ks ks'"
proof -
  let ?nb = "hdr_block_type h = ENUM_BLOCKTYPE_NOT_A_BLOCK"
  from assms obtain c k0 q b k1 where c: "vote_common_read ks = Inr (c, k0)"
    and q: "read_if ?nb (vote_by_hash_read h) k0 = Inr (q, k1)"
    and b: "read_if (\<not> ?nb) (block_selector_read (ucast (block_type_int h))) k1 = Inr (b, ks')"
    and m: "m = \<lparr>confirm_ack_common = c, confirm_ack_votebyhash = q, confirm_ack_block = b\<rparr>"
    by (auto simp: confirm_ack_read_def ks_bind_Inr ks_return_Inr)
  have "option_wf ?nb (vector_wf (unat (item_count_int h)) (\<lambda>x. length x = 32) \<circ> vote_hashes) q \<and>
      consumed (option_wire (vector_wire (\<lambda>h. h) \<circ> vote_hashes) q) k0 k1"
    by (rule read_if_inv [OF q]) (use consumed_hashes in \<open>fastforce\<close>)
  with vote_common.read_consumed [OF c] consumed_block_if [OF b] m assms(2) show ?thesis
    by (auto intro: consumed_append)
qed

lemma consumed_bulk_pull:
  assumes "bulk_pull_read h ks = Inr (m, ks')" and "hdr_message_type h = ENUM_MSGTYPE_BULK_PULL"
  shows "nano_body_wf h (BodyBulkPull m) \<and> consumed (nano_body_wire (BodyBulkPull m)) ks ks'"
proof -
  from assms obtain s k0 e k1 x where s: "read_bytes 32 ks = Inr (s, k0)"
    and e: "read_bytes 32 k0 = Inr (e, k1)"
    and x: "read_if (extended_params_present h \<noteq> 0) extended_read k1 = Inr (x, ks')"
    and m: "m = \<lparr>bulk_pull_start = s, bulk_pull_end = e, bulk_pull_extended = x\<rparr>"
    by (auto simp: bulk_pull_read_def ks_bind_Inr ks_return_Inr)
  have "option_wf (extended_params_present h \<noteq> 0) extended_wf x \<and>
      consumed (option_wire extended_wire x) k1 ks'"
    by (rule read_if_inv [OF x]) (rule extended.read_consumed)
  with hash.read_consumed [OF s] hash.read_consumed [OF e] m assms(2) show ?thesis
    by (auto intro: consumed_append)
qed

lemma consumed_handshake:
  assumes "node_id_handshake_read h ks = Inr (m, ks')"
    and "hdr_message_type h = ENUM_MSGTYPE_NODE_ID_HANDSHAKE"
  shows "nano_body_wf h (BodyNodeIdHandshake m) \<and>
    consumed (nano_body_wire (BodyNodeIdHandshake m)) ks ks'"
proof -
  from assms obtain q k1 r where q: "read_if (query_flag h \<noteq> 0) node_id_query_read ks = Inr (q, k1)"
    and r: "read_if (response_flag h \<noteq> 0) node_id_response_read k1 = Inr (r, ks')"
    and m: "m = \<lparr>handshake_query = q, handshake_response = r\<rparr>"
    by (auto simp: node_id_handshake_read_def ks_bind_Inr ks_return_Inr)
  have "option_wf (query_flag h \<noteq> 0) node_id_query_wf q \<and>
      consumed (option_wire node_id_query_wire q) ks k1"
    by (rule read_if_inv [OF q]) (rule node_id_query.read_consumed)
  moreover have "option_wf (response_flag h \<noteq> 0) node_id_response_wf r \<and>
      consumed (option_wire node_id_response_wire r) k1 ks'"
    by (rule read_if_inv [OF r]) (rule node_id_response.read_consumed)
  ultimately show ?thesis using m assms(2) by (auto intro: consumed_append)
qed

lemma consumed_publish:
  assumes "publish_read h ks = Inr (m, ks')" and "hdr_message_type h = ENUM_MSGTYPE_PUBLISH"
  shows "nano_body_wf h (BodyPublish m) \<and> consumed (nano_body_wire (BodyPublish m)) ks ks'"
  using assms consumed_selector [of "ucast (block_type_int h)" ks "publish_body m" ks']
  by (auto simp: publish_read_def ks_bind_Inr ks_return_Inr selector_wf_def)

lemma consumed_bulk_push:
  assumes "bulk_push_read ks = Inr (es, ks')" and "hdr_message_type h = ENUM_MSGTYPE_BULK_PUSH"
  shows "nano_body_wf h (BodyBulkPush es) \<and> consumed (nano_body_wire (BodyBulkPush es)) ks ks'"
proof -
  from assms(1) obtain e where "bulk_push_entry_read ks = Inr (e, ks')" "es = [e]"
    by (auto simp: bulk_push_loop_eq split: sum.splits if_splits)
  with consumed_bulk_entry assms(2) show ?thesis by auto
qed

lemma consumed_ignored:
  assumes "ignore_until_eof_read ks = Inr (m, ks')"
    and "hdr_message_type h \<in> {ENUM_MSGTYPE_INVALID, ENUM_MSGTYPE_NOT_A_TYPE} \<or>
      (\<exists>v. hdr_message_type h = ENUM_MSGTYPE_UNLISTED v)"
  shows "nano_body_wf h (BodyIgnored m) \<and> consumed (nano_body_wire (BodyIgnored m)) ks ks'"
  using assms
  by (auto simp: ignore_until_eof_read_eq consumed_def is_eof_rest ks_left_eq split: if_splits)

lemma consumed_plain:
  "keepalive_read ks = Inr (m1, ks') \<Longrightarrow> hdr_message_type h = ENUM_MSGTYPE_KEEPALIVE \<Longrightarrow>
     nano_body_wf h (BodyKeepalive m1) \<and> consumed (nano_body_wire (BodyKeepalive m1)) ks ks'"
  "frontier_req_read ks = Inr (m2, ks') \<Longrightarrow> hdr_message_type h = ENUM_MSGTYPE_FRONTIER_REQ \<Longrightarrow>
     nano_body_wf h (BodyFrontierReq m2) \<and> consumed (nano_body_wire (BodyFrontierReq m2)) ks ks'"
  "bulk_pull_blocks_read ks = Inr (m3, ks') \<Longrightarrow>
     hdr_message_type h = ENUM_MSGTYPE_BULK_PULL_BLOCKS \<Longrightarrow>
     nano_body_wf h (BodyBulkPullBlocks m3) \<and>
     consumed (nano_body_wire (BodyBulkPullBlocks m3)) ks ks'"
  "bulk_pull_account_read ks = Inr (m4, ks') \<Longrightarrow>
     hdr_message_type h = ENUM_MSGTYPE_BULK_PULL_ACCOUNT \<Longrightarrow>
     nano_body_wf h (BodyBulkPullAccount m4) \<and>
     consumed (nano_body_wire (BodyBulkPullAccount m4)) ks ks'"
  "telemetry_ack_read ks = Inr (m5, ks') \<Longrightarrow> hdr_message_type h = ENUM_MSGTYPE_TELEMETRY_ACK \<Longrightarrow>
     nano_body_wf h (BodyTelemetryAck m5) \<and>
     consumed (nano_body_wire (BodyTelemetryAck m5)) ks ks'"
  "telemetry_req_read ks = Inr (u, ks') \<Longrightarrow> hdr_message_type h = ENUM_MSGTYPE_TELEMETRY_REQ \<Longrightarrow>
     nano_body_wf h BodyTelemetryReq \<and> consumed (nano_body_wire BodyTelemetryReq) ks ks'"
  by (auto simp: telemetry_req_read_def ks_return_Inr
      dest: consumed_keepalive frontier_req.read_consumed bulk_pull_blocks.read_consumed
      bulk_pull_account.read_consumed telemetry_ack.read_consumed)

lemma consumed_body:
  assumes "nano_body_read h ks = Inr (b, ks')"
  shows "nano_body_wf h b \<and> consumed (nano_body_wire b) ks ks'"
proof -
  note body_laws = consumed_confirm_req consumed_confirm_ack consumed_bulk_pull consumed_handshake
    consumed_publish consumed_bulk_push consumed_ignored consumed_plain
  from assms show ?thesis
    by (cases "hdr_message_type h")
      (simp_all only: nano_body_read_def enum_msgtype_t.case ks_bind_Inr ks_return_Inr,
       (elim exE conjE, hypsubst, rule body_laws, assumption, simp)+)
qed

subsection \<open>Every well formed message is read back from its encoding\<close>

lemma enc_pairs:
  assumes "vector_wf (unat (item_count_int h)) hash_pair_wf (by_hash_pairs x)"
    and "ks_rest ks = vector_wire hash_pair_wire (by_hash_pairs x)"
  shows "confirm_request_by_hash_read h ks =
    Inr (x, ks_skip (length (vector_wire hash_pair_wire (by_hash_pairs x))) ks)"
proof (cases "by_hash_pairs x")
  case None
  with assms(2) show ?thesis
    by (simp add: confirm_request_by_hash_read_def vector_wire_def is_eof_rest)
next
  case (Some ps)
  with assms have wf: "ps \<noteq> []" "list_all hash_pair_wf ps"
      "unat (item_count_int h) \<noteq> 0 \<longrightarrow> length ps \<le> unat (item_count_int h)"
    and rest: "ks_rest ks = concat (map hash_pair_wire ps)"
    by (simp_all add: vector_wf_def vector_wire_def)
  then have "ks_rest ks \<noteq> []"
    by (cases ps) (auto dest: hash_pair.enc_width)
  with hash_pairs.loop_enc_all [OF wf(2,1,3) rest] Some show ?thesis
    by (simp add: confirm_request_by_hash_read_def vector_wire_def is_eof_rest)
qed

lemma enc_hashes:
  assumes "vector_wf (unat (item_count_int h)) (\<lambda>x. length x = 32) (vote_hashes x)"
    and "ks_rest ks = vector_wire (\<lambda>h. h) (vote_hashes x)"
  shows "vote_by_hash_read h ks =
    Inr (x, ks_skip (length (vector_wire (\<lambda>h. h) (vote_hashes x))) ks)"
proof (cases "vote_hashes x")
  case None
  with assms(2) show ?thesis
    by (simp add: vote_by_hash_read_def vector_wire_def is_eof_rest)
next
  case (Some ps)
  with assms have wf: "ps \<noteq> []" "list_all (\<lambda>x. length x = 32) ps"
      "unat (item_count_int h) \<noteq> 0 \<longrightarrow> length ps \<le> unat (item_count_int h)"
    and rest: "ks_rest ks = concat (map (\<lambda>h. h) ps)"
    by (simp_all add: vector_wf_def vector_wire_def)
  then have "ks_rest ks \<noteq> []"
    by (cases ps) auto
  with hashes.loop_enc_all [OF wf(2,1,3) rest] Some show ?thesis
    by (simp add: vote_by_hash_read_def vector_wire_def is_eof_rest)
qed

lemma enc_keepalive:
  assumes "vector_wf 8 peer_wf (keepalive_peers x)"
    and "ks_rest ks = vector_wire peer_wire (keepalive_peers x)"
  shows "keepalive_read ks = Inr (x, ks_skip (length (vector_wire peer_wire (keepalive_peers x))) ks)"
proof (cases "keepalive_peers x")
  case None
  with assms(2) show ?thesis
    by (simp add: keepalive_read_def vector_wire_def is_eof_rest)
next
  case (Some ps)
  with assms have wf: "ps \<noteq> []" "list_all peer_wf ps" "(8::nat) \<noteq> 0 \<longrightarrow> length ps \<le> 8"
    and rest: "ks_rest ks = concat (map peer_wire ps)"
    by (simp_all add: vector_wf_def vector_wire_def)
  then have "ks_rest ks \<noteq> []"
    by (cases ps) (auto dest: peer.enc_width)
  with peers.loop_enc_all [OF wf(2,1,3) rest] Some show ?thesis
    by (simp add: keepalive_read_def vector_wire_def is_eof_rest)
qed

lemma enc_selector:
  assumes "selector_wf h s" and "ks_rest ks = selector_wire s"
  shows "block_selector_read (ucast (block_type_int h)) ks =
    Inr (s, ks_skip (length (selector_wire s)) ks)"
  using block_selector_enc [of "ucast (block_type_int h)" "sel_block s" ks "[]"] assms
  by (cases s) (simp add: selector_wf_def selector_wire_def)

lemma enc_bulk_entry:
  assumes "bulk_entry_wf e" and "ks_rest ks = bulk_entry_wire e"
  shows "bulk_push_entry_read ks = Inr (e, ks_skip (length (bulk_entry_wire e)) ks)"
proof -
  from assms(2) have rest: "ks_rest ks = [entry_block_type e] @ selector_wire (entry_block e)"
    by (simp add: bulk_entry_wire_def)
  from u1.read_enc [OF TrueI rest]
  have t: "read_u1 ks = Inr (entry_block_type e, ks_skip 1 ks)" by simp
  have "ks_rest (ks_skip 1 ks) = selector_wire (entry_block e)" using rest by simp
  then have "block_selector_read (entry_block_type e) (ks_skip 1 ks) =
      Inr (entry_block e, ks_skip (length (selector_wire (entry_block e))) (ks_skip 1 ks))"
    using block_selector_enc [of "entry_block_type e" "sel_block (entry_block e)" "ks_skip 1 ks" "[]"]
      assms(1) by (cases "entry_block e") (simp add: bulk_entry_wf_def selector_wire_def)
  with t show ?thesis
    by (simp add: bulk_push_entry_read_def ks_bind_def ks_return_def bulk_entry_wire_def)
qed

lemma enc_confirm_req:
  assumes "nano_body_wf h (BodyConfirmReq m)" and rest: "ks_rest ks = nano_body_wire (BodyConfirmReq m)"
  shows "confirm_req_read h ks = Inr (m, ks_skip (length (nano_body_wire (BodyConfirmReq m))) ks)"
proof (cases "hdr_block_type h = ENUM_BLOCKTYPE_NOT_A_BLOCK")
  case True
  with assms obtain q where q: "m = \<lparr>confirm_req_reqbyhash = Some q, confirm_req_block = None\<rparr>"
      and wf: "vector_wf (unat (item_count_int h)) hash_pair_wf (by_hash_pairs q)"
    by (cases m) (auto simp: option_wf_def split: option.splits)
  with enc_pairs [OF wf, of ks] rest True show ?thesis
    by (simp add: confirm_req_read_def read_if_def ks_bind_def ks_return_def option_wire_def)
next
  case False
  with assms obtain s where s: "m = \<lparr>confirm_req_reqbyhash = None, confirm_req_block = Some s\<rparr>"
      and wf: "selector_wf h s"
    by (cases m) (auto simp: option_wf_def split: option.splits)
  with enc_selector [OF wf, of ks] rest False show ?thesis
    by (simp add: confirm_req_read_def read_if_def ks_bind_def ks_return_def option_wire_def)
qed

lemma enc_confirm_ack:
  assumes "nano_body_wf h (BodyConfirmAck m)" and rest: "ks_rest ks = nano_body_wire (BodyConfirmAck m)"
  shows "confirm_ack_read h ks = Inr (m, ks_skip (length (nano_body_wire (BodyConfirmAck m))) ks)"
proof -
  obtain c q b where m: "m = \<lparr>confirm_ack_common = c, confirm_ack_votebyhash = q, confirm_ack_block = b\<rparr>"
    by (cases m)
  let ?ks = "ks_skip (length (vote_common_wire c)) ks"
  have c: "vote_common_read ks = Inr (c, ?ks)"
    by (rule vote_common.read_enc [OF _ rest [unfolded m nano_body_wire.simps, simplified]])
      (use assms m in simp)
  show ?thesis
  proof (cases "hdr_block_type h = ENUM_BLOCKTYPE_NOT_A_BLOCK")
    case True
    with assms m obtain v where v: "q = Some v" "b = None"
        and wf: "vector_wf (unat (item_count_int h)) (\<lambda>x. length x = 32) (vote_hashes v)"
      by (auto simp: option_wf_def split: option.splits)
    with enc_hashes [OF wf, of ?ks] rest True c m show ?thesis
      by (simp add: confirm_ack_read_def read_if_def ks_bind_def ks_return_def option_wire_def)
  next
    case False
    with assms m obtain s where s: "q = None" "b = Some s" and wf: "selector_wf h s"
      by (auto simp: option_wf_def split: option.splits)
    with enc_selector [OF wf, of ?ks] rest False c m show ?thesis
      by (simp add: confirm_ack_read_def read_if_def ks_bind_def ks_return_def option_wire_def)
  qed
qed

lemma enc_bulk_pull:
  assumes "nano_body_wf h (BodyBulkPull m)" and rest: "ks_rest ks = nano_body_wire (BodyBulkPull m)"
  shows "bulk_pull_read h ks = Inr (m, ks_skip (length (nano_body_wire (BodyBulkPull m))) ks)"
proof -
  obtain s e x where m: "m = \<lparr>bulk_pull_start = s, bulk_pull_end = e, bulk_pull_extended = x\<rparr>"
    by (cases m)
  with assms have wf: "length s = 32" "length e = 32"
      "option_wf (extended_params_present h \<noteq> 0) extended_wf x"
    and rest: "ks_rest ks = s @ e @ option_wire extended_wire x" by simp_all
  let ?ks = "ks_skip 64 ks"
  have "read_bytes 32 ks = Inr (s, ks_skip 32 ks)" "read_bytes 32 (ks_skip 32 ks) = Inr (e, ?ks)"
    using hash.read_enc [OF wf(1) rest]
      hash.read_enc [OF wf(2), of "ks_skip 32 ks" "option_wire extended_wire x"] rest wf by simp_all
  moreover have "ks_rest ?ks = option_wire extended_wire x" using rest wf by simp
  then have "read_if (extended_params_present h \<noteq> 0) extended_read ?ks =
      Inr (x, ks_skip (length (option_wire extended_wire x)) ?ks)"
    by (intro read_if_enc [OF wf(3)] extended.read_all) (simp_all add: option_wire_def)
  ultimately show ?thesis
    using m wf by (simp add: bulk_pull_read_def ks_bind_def ks_return_def)
qed

lemma enc_handshake:
  assumes "nano_body_wf h (BodyNodeIdHandshake m)"
    and rest: "ks_rest ks = nano_body_wire (BodyNodeIdHandshake m)"
  shows "node_id_handshake_read h ks =
    Inr (m, ks_skip (length (nano_body_wire (BodyNodeIdHandshake m))) ks)"
proof -
  obtain q r where m: "m = \<lparr>handshake_query = q, handshake_response = r\<rparr>"
    by (cases m)
  let ?ks = "ks_skip (length (option_wire node_id_query_wire q)) ks"
  from assms m have wf: "option_wf (query_flag h \<noteq> 0) node_id_query_wf q"
      "option_wf (response_flag h \<noteq> 0) node_id_response_wf r"
    and rest: "ks_rest ks = option_wire node_id_query_wire q @ option_wire node_id_response_wire r"
    by simp_all
  have "read_if (query_flag h \<noteq> 0) node_id_query_read ks = Inr (q, ?ks)"
    by (rule read_if_enc [OF wf(1)], rule node_id_query.read_enc)
      (use rest in \<open>auto simp: option_wire_def\<close>)
  moreover have "ks_rest ?ks = option_wire node_id_response_wire r" using rest by simp
  then have "read_if (response_flag h \<noteq> 0) node_id_response_read ?ks =
      Inr (r, ks_skip (length (option_wire node_id_response_wire r)) ?ks)"
    by (intro read_if_enc [OF wf(2)] node_id_response.read_all) (simp_all add: option_wire_def)
  ultimately show ?thesis
    using m by (simp add: node_id_handshake_read_def ks_bind_def ks_return_def)
qed

lemma enc_publish:
  assumes "nano_body_wf h (BodyPublish m)" and "ks_rest ks = nano_body_wire (BodyPublish m)"
  shows "publish_read h ks = Inr (m, ks_skip (length (nano_body_wire (BodyPublish m))) ks)"
  using assms enc_selector [of h "publish_body m" ks]
  by (cases m) (simp add: publish_read_def ks_bind_def ks_return_def)

lemma enc_bulk_push:
  assumes "nano_body_wf h (BodyBulkPush es)" and "ks_rest ks = nano_body_wire (BodyBulkPush es)"
  shows "bulk_push_read ks = Inr (es, ks_skip (length (nano_body_wire (BodyBulkPush es))) ks)"
proof -
  from assms obtain e where e: "es = [e]" "bulk_entry_wf e" by auto
  with enc_bulk_entry [of e ks] assms(2) show ?thesis
    by (simp add: bulk_push_loop_eq is_eof_rest)
qed

lemma enc_ignored:
  assumes "nano_body_wf h (BodyIgnored m)" and "ks_rest ks = nano_body_wire (BodyIgnored m)"
  shows "ignore_until_eof_read ks = Inr (m, ks_skip (length (nano_body_wire (BodyIgnored m))) ks)"
  using assms
  by (cases m) (auto simp: ignore_until_eof_read_eq is_eof_rest ks_left_eq split: option.splits)

lemmas body_read = nano_body_read_def ks_bind_def ks_return_def

lemma enc_body:
  assumes "nano_body_wf h b" and "ks_rest ks = nano_body_wire b"
  shows "nano_body_read h ks = Inr (b, ks_skip (length (nano_body_wire b)) ks)"
proof (cases b)
  case (BodyIgnored m)
  with enc_ignored [of h m ks] assms
  have i: "ignore_until_eof_read ks = Inr (m, ks_skip (length (nano_body_wire b)) ks)" by simp
  from assms(1) BodyIgnored
  have "hdr_message_type h = ENUM_MSGTYPE_INVALID \<or> hdr_message_type h = ENUM_MSGTYPE_NOT_A_TYPE \<or>
      (\<exists>v. hdr_message_type h = ENUM_MSGTYPE_UNLISTED v)" by auto
  with i BodyIgnored show ?thesis
    by (auto simp: nano_body_read_def ks_bind_def ks_return_def)
next
  case BodyTelemetryReq
  with assms show ?thesis
    by (simp add: nano_body_read_def telemetry_req_read_def ks_bind_def ks_return_def)
next
  case (BodyConfirmReq m)
  with assms enc_confirm_req [of h m ks] show ?thesis by (simp add: body_read)
next
  case (BodyConfirmAck m)
  with assms enc_confirm_ack [of h m ks] show ?thesis by (simp add: body_read)
next
  case (BodyBulkPull m)
  with assms enc_bulk_pull [of h m ks] show ?thesis by (simp add: body_read)
next
  case (BodyBulkPullAccount m)
  with assms bulk_pull_account.read_all [of m ks] show ?thesis by (simp add: body_read)
next
  case (BodyKeepalive m)
  with assms enc_keepalive [of m ks] show ?thesis by (simp add: body_read)
next
  case (BodyBulkPush m)
  with assms enc_bulk_push [of h m ks] show ?thesis by (simp add: body_read)
next
  case (BodyTelemetryAck m)
  with assms telemetry_ack.read_all [of m ks] show ?thesis by (simp add: body_read)
next
  case (BodyNodeIdHandshake m)
  with assms enc_handshake [of h m ks] show ?thesis by (simp add: body_read)
next
  case (BodyFrontierReq m)
  with assms frontier_req.read_all [of m ks] show ?thesis by (simp add: body_read)
next
  case (BodyBulkPullBlocks m)
  with assms bulk_pull_blocks.read_all [of m ks] show ?thesis by (simp add: body_read)
next
  case (BodyPublish m)
  with assms enc_publish [of h m ks] show ?thesis by (simp add: body_read)
qed

text \<open>The body a header announces is one of its message type (the code casts the body to it).\<close>

fun body_msgtype :: "nano_body \<Rightarrow> enum_msgtype_t option" where
  "body_msgtype (BodyConfirmReq m) = Some ENUM_MSGTYPE_CONFIRM_REQ"
| "body_msgtype (BodyConfirmAck m) = Some ENUM_MSGTYPE_CONFIRM_ACK"
| "body_msgtype (BodyBulkPull m) = Some ENUM_MSGTYPE_BULK_PULL"
| "body_msgtype (BodyBulkPullAccount m) = Some ENUM_MSGTYPE_BULK_PULL_ACCOUNT"
| "body_msgtype (BodyKeepalive m) = Some ENUM_MSGTYPE_KEEPALIVE"
| "body_msgtype (BodyBulkPush m) = Some ENUM_MSGTYPE_BULK_PUSH"
| "body_msgtype (BodyTelemetryAck m) = Some ENUM_MSGTYPE_TELEMETRY_ACK"
| "body_msgtype (BodyNodeIdHandshake m) = Some ENUM_MSGTYPE_NODE_ID_HANDSHAKE"
| "body_msgtype (BodyFrontierReq m) = Some ENUM_MSGTYPE_FRONTIER_REQ"
| "body_msgtype (BodyBulkPullBlocks m) = Some ENUM_MSGTYPE_BULK_PULL_BLOCKS"
| "body_msgtype (BodyPublish m) = Some ENUM_MSGTYPE_PUBLISH"
| "body_msgtype BodyTelemetryReq = Some ENUM_MSGTYPE_TELEMETRY_REQ"
| "body_msgtype (BodyIgnored m) = None"

lemma body_msgtype_wf:
  "nano_body_wf h b \<Longrightarrow> body_msgtype b = Some t \<Longrightarrow> hdr_message_type h = t"
  by (cases b) auto

section \<open>Whole messages\<close>

lemma nano_read_inv:
  assumes "nano_read ks = Inr (m, ks')"
  shows "nano_wf m \<and> consumed (nano_wire m) ks ks'"
proof -
  from assms obtain h k1 b where h: "message_header_read ks = Inr (h, k1)"
    and b: "nano_body_read h k1 = Inr (b, ks')" and m: "m = \<lparr>nano_header = h, nano_body = b\<rparr>"
    by (auto simp: nano_read_def ks_bind_Inr ks_return_Inr)
  from header.read_consumed [OF h] consumed_body [OF b] m show ?thesis
    by (auto simp: nano_wf_def nano_wire_def intro: consumed_append)
qed

lemma nano_read_enc:
  assumes "nano_wf m" and "ks_rest ks = nano_wire m"
  shows "nano_read ks = Inr (m, ks_skip (length (nano_wire m)) ks)"
proof -
  obtain h b where m: "m = \<lparr>nano_header = h, nano_body = b\<rparr>" by (cases m)
  with assms have wf: "header_wf h" "nano_body_wf h b"
    and rest: "ks_rest ks = header_wire h @ nano_body_wire b"
    by (simp_all add: nano_wf_def nano_wire_def)
  have "message_header_read ks = Inr (h, ks_skip (length (header_wire h)) ks)"
    by (rule header.read_enc [OF wf(1) rest])
  moreover have "nano_body_read h (ks_skip (length (header_wire h)) ks) =
      Inr (b, ks_skip (length (nano_body_wire b)) (ks_skip (length (header_wire h)) ks))"
    by (rule enc_body [OF wf(2)]) (simp add: rest)
  ultimately show ?thesis
    using m by (simp add: nano_read_def ks_bind_def ks_return_def nano_wire_def)
qed

lemma unat_ucast_16_32: "unat (ucast (w :: u16) :: i32) = unat w"
  using unsigned_less [of w, where 'a = nat] by (simp add: unsigned_ucast_eq take_bit_nat_eq_self_iff)

lemma item_count_mod: "unat (item_count_int h) = unat (hdr_extensions h) div 4096"
proof -
  have "item_count_int h = ucast (drop_bit 12 (hdr_extensions h))"
    by (rule bit_word_eqI) (auto simp: bit_item_count_int bit_ucast_iff bit_drop_bit_eq add.commute
        dest: bit_imp_le_length)
  then have "unat (item_count_int h) = unat (drop_bit 12 (hdr_extensions h))"
    by (simp add: unat_ucast_16_32)
  then show ?thesis by (simp only: unat_drop_bit_eq) (simp add: drop_bit_eq_div)
qed

lemma block_type_mod: "unat (block_type_int h) = unat (hdr_extensions h) div 256 mod 16"
proof -
  have "block_type_int h = ucast (take_bit 4 (drop_bit 8 (hdr_extensions h)))"
    by (rule bit_word_eqI) (auto simp: bit_block_type_int bit_ucast_iff bit_drop_bit_eq bit_take_bit_iff
        add.commute dest: bit_imp_le_length)
  then have "unat (block_type_int h) = unat (take_bit 4 (drop_bit 8 (hdr_extensions h)))"
    by (simp add: unat_ucast_16_32)
  then show ?thesis
    by (simp only: unsigned_take_bit_eq unat_drop_bit_eq) (simp add: drop_bit_eq_div take_bit_eq_mod)
qed

end
