(* ===== verification/NanoProtocol.thy ===== *)
theory NanoProtocol
  imports NanoWire
begin

text \<open>
  What the protocol parser promises: whole messages, blocks, vectors of parts, the header's
  extension bits and the behaviour of the two loops over streams of blocks.
\<close>

section \<open>Whole messages\<close>

text \<open>C1: whatever \<open>nano_t\<close> accepts is a well formed message, and the bytes it took from the
  stream are exactly the encoding of the message it returned.\<close>

theorem nano_read_accepts_only_encodings:
  assumes "nano_read ks = Inr (m, ks')"
  shows "nano_wf m \<and> ks_rest ks = nano_wire m @ ks_rest ks' \<and>
    ks_pos ks' = ks_pos ks + length (nano_wire m)"
  using nano_read_inv [OF assms] by (simp only: consumed_def) (simp add: ks_skip_def)

definition telemetry_req_bytes :: bytes where
  "telemetry_req_bytes = [0x52, 0x43, 18, 18, 16, 12, 0, 0]"

theorem nano_read_accepts_only_encodings_witness:
  "\<exists>m ks'. nano_read (kstream_of telemetry_req_bytes) = Inr (m, ks') \<and>
     ks_rest (kstream_of telemetry_req_bytes) = nano_wire m @ ks_rest ks' \<and> nano_wf m"
proof -
  obtain m ks' where r: "nano_read (kstream_of telemetry_req_bytes) = Inr (m, ks')"
    by (simp add: nano_read_def nano_body_read_def telemetry_req_bytes_def ks_bind_def ks_return_def
        message_header_read_eq telemetry_req_read_def enum_msgtype_of_def)
  from nano_read_accepts_only_encodings [OF r] r show ?thesis by blast
qed

text \<open>C2: every well formed message is read back from its encoding, to the last byte.\<close>

theorem nano_read_reads_encoding:
  assumes "nano_wf m"
  shows "\<exists>ks'. nano_read (kstream_of (nano_wire m)) = Inr (m, ks') \<and> is_eof ks'"
  using nano_read_enc [OF assms, of "kstream_of (nano_wire m)"] by (simp add: is_eof_rest)

definition example_keepalive :: nano_t where
  "example_keepalive = \<lparr>nano_header = \<lparr>hdr_magic = [0x52],
     hdr_network_id = ENUM_NETWORK_NETWORK_LIVE, hdr_version_max = 18, hdr_version_using = 18,
     hdr_version_min = 16, hdr_message_type = ENUM_MSGTYPE_KEEPALIVE, hdr_extensions = 0\<rparr>,
     nano_body = BodyKeepalive \<lparr>keepalive_peers =
       Some [\<lparr>peer_address = replicate 16 1, peer_port = 7075\<rparr>,
             \<lparr>peer_address = replicate 16 2, peer_port = 54000\<rparr>]\<rparr>\<rparr>"

theorem nano_read_reads_encoding_witness:
  "\<exists>ks'. nano_read (kstream_of (nano_wire example_keepalive)) = Inr (example_keepalive, ks') \<and>
     is_eof ks'"
  by (rule nano_read_reads_encoding)
    (simp add: example_keepalive_def nano_wf_def header_wf_def enum_network_of_def
      enum_msgtype_of_def vector_wf_def peer_wf_def)

text \<open>C23: the constructor of the body is the one the message type of the header names, so that the
  cast of \<open>body ()\<close> by message type in \<open>handle_message\<close> is to the class that was built.\<close>

theorem nano_read_body_type:
  assumes "nano_read ks = Inr (m, ks')"
  shows "body_msgtype (nano_body m) =
    (case hdr_message_type (nano_header m) of
       ENUM_MSGTYPE_INVALID \<Rightarrow> None
     | ENUM_MSGTYPE_NOT_A_TYPE \<Rightarrow> None
     | ENUM_MSGTYPE_UNLISTED v \<Rightarrow> None
     | t \<Rightarrow> Some t)"
proof -
  from nano_read_inv [OF assms] have "nano_body_wf (nano_header m) (nano_body m)"
    by (simp add: nano_wf_def)
  then show ?thesis by (cases "nano_body m") auto
qed

theorem nano_read_body_type_witness:
  "\<exists>m ks'. nano_read (kstream_of telemetry_req_bytes) = Inr (m, ks') \<and>
     hdr_message_type (nano_header m) = ENUM_MSGTYPE_TELEMETRY_REQ \<and>
     body_msgtype (nano_body m) = Some ENUM_MSGTYPE_TELEMETRY_REQ"
proof -
  obtain m ks' where r: "nano_read (kstream_of telemetry_req_bytes) = Inr (m, ks')"
      and t: "hdr_message_type (nano_header m) = ENUM_MSGTYPE_TELEMETRY_REQ"
    by (simp add: nano_read_def nano_body_read_def telemetry_req_bytes_def ks_bind_def ks_return_def
        message_header_read_eq telemetry_req_read_def enum_msgtype_of_def)
  from nano_read_body_type [OF r] r t show ?thesis by auto
qed

section \<open>Streams of blocks\<close>

text \<open>the loops of \<open>msg_bulk_push_t\<close> and \<open>bulk_pull_response_t\<close> advance their index before
  they look at \<open>entry ()->at (i)\<close>: a stream that goes on after its first entry is an exception, a
  stream of one entry is read.\<close>

theorem bulk_loops_one_entry:
  assumes "bulk_push_entry_read ks = Inr (e, ks')"
  shows "bulk_push_read ks = (if is_eof ks' then Inr ([e], ks') else Inl OutOfRange) \<and>
    bulk_pull_response_read ks = (if is_eof ks' then Inr ([e], ks') else Inl OutOfRange)"
  using assms by (simp add: bulk_push_loop_eq bulk_pull_loop_eq bulk_pull_entry_read_same)

theorem bulk_loops_one_entry_witness:
  "bulk_push_read (kstream_of (2 # replicate 152 7 @ [1])) = Inl OutOfRange \<and>
   bulk_pull_response_read (kstream_of (2 # replicate 152 7 @ [1])) = Inl OutOfRange"
proof -
  let ?ks = "kstream_of (2 # replicate 152 7 @ [1])"
  obtain e where e: "bulk_push_entry_read ?ks = Inr (e, ks_skip 153 ?ks)"
    by (simp add: bulk_push_entry_read_def block_selector_read_def enum_blocktype_of_def ks_bind_def
        ks_return_def read_u1_eq block_send_read_eq)
  then show ?thesis
    using bulk_loops_one_entry [OF e] by (simp add: is_eof_rest)
qed

text \<open>a \<open>bulk_push\<close> message that is its header alone (the entries come as a stream of their
  own) never parses: \<open>nano_t\<close> throws the stream's failure.\<close>

theorem bulk_push_header_alone_throws:
  assumes "message_header_read ks = Inr (h, ks')" and "hdr_message_type h = ENUM_MSGTYPE_BULK_PUSH"
    and "is_eof ks'"
  shows "nano_read ks = Inl IosFailure"
  using assms
  by (simp add: nano_read_def nano_body_read_def ks_bind_def bulk_push_loop_eq
      bulk_push_entry_read_def read_u1_eq is_eof_iff)

theorem bulk_push_header_alone_throws_witness:
  "nano_read (kstream_of [0x52, 0x43, 18, 18, 16, 7, 0, 0]) = Inl IosFailure"
proof -
  obtain h ks' where "message_header_read (kstream_of [0x52, 0x43, 18, 18, 16, 7, 0, 0]) = Inr (h, ks')"
      "hdr_message_type h = ENUM_MSGTYPE_BULK_PUSH" "is_eof ks'"
    by (simp add: message_header_read_eq enum_msgtype_of_def is_eof_rest)
  then show ?thesis by (rule bulk_push_header_alone_throws)
qed

section \<open>Vectors of parts\<close>

text \<open>a keepalive is read as its first eight peers; with fewer than eight the peers must end
  where the data ends, and a peer that is cut short throws.\<close>

theorem keepalive_reads_peers:
  assumes "list_all peer_wf ps" and "ps \<noteq> [] \<or> rest \<noteq> []"
    and "length rest < 18 \<or> length ps = 8" and "length ps \<le> 8"
  shows "keepalive_read (kstream_of (concat (map peer_wire ps) @ rest)) =
    (if length ps = 8 \<or> rest = []
     then Inr (\<lparr>keepalive_peers = Some ps\<rparr>,
               ks_skip (18 * length ps) (kstream_of (concat (map peer_wire ps) @ rest)))
     else Inl IosFailure)"
proof -
  let ?ks = "kstream_of (concat (map peer_wire ps) @ rest)"
  have "\<not> is_eof ?ks"
    using assms(1,2) peer.concat_width [OF assms(1)] by (auto simp: is_eof_rest simp del: concat_eq_Nil_conv)
  moreover have "peers_loop 8 0 [] ?ks =
      (if length ps = 8 \<or> rest = [] then Inr ([] @ ps, ks_skip (18 * length ps) ?ks)
       else Inl IosFailure)"
  proof (cases "length ps = 8 \<or> rest = []")
    case True
    then have "ps \<noteq> []" using assms(2) by auto
    with True assms show ?thesis
      by (subst peers.loop_enc [where ys = ps and rest = rest and n = 8]) auto
  next
    case False
    with assms show ?thesis
      by (subst peers.loop_partial [where ys = ps and rest = rest and n = 8]) auto
  qed
  ultimately show ?thesis by (simp add: keepalive_read_def)
qed

theorem keepalive_reads_peers_witness:
  "keepalive_read (kstream_of (concat (map peer_wire
     [\<lparr>peer_address = replicate 16 1, peer_port = 7075\<rparr>]) @ [9, 9])) = Inl IosFailure"
  by (subst keepalive_reads_peers) (simp_all add: peer_wf_def)

text \<open>the hashes of a \<open>confirm_ack\<close> vote. With a count \<open>n\<close> in the header that is not zero the
  reader takes at most \<open>n\<close> hashes and leaves the rest; with a count of zero it takes all there
  are. A hash that is cut short throws.\<close>

theorem vote_by_hash_reads_count:
  assumes "list_all (\<lambda>x. length x = 32) hs" and "hs \<noteq> [] \<or> rest \<noteq> []"
    and "n = unat (item_count_int h)" and "length rest < 32 \<or> n \<noteq> 0 \<and> length hs = n"
    and "n = 0 \<or> length hs \<le> n"
  shows "vote_by_hash_read h (kstream_of (concat hs @ rest)) =
    (if n \<noteq> 0 \<and> length hs = n \<or> rest = []
     then Inr (\<lparr>vote_hashes = Some hs\<rparr>, ks_skip (32 * length hs) (kstream_of (concat hs @ rest)))
     else Inl IosFailure)"
proof -
  let ?ks = "kstream_of (concat hs @ rest)"
  have rest: "ks_rest ?ks = concat (map (\<lambda>h. h) hs) @ rest" by simp
  have "\<not> is_eof ?ks"
    using assms(1,2) hash.concat_width [OF assms(1)] by (auto simp: is_eof_rest simp del: concat_eq_Nil_conv)
  moreover have "hashes_loop n 0 [] ?ks =
      (if n \<noteq> 0 \<and> length hs = n \<or> rest = [] then Inr ([] @ hs, ks_skip (32 * length hs) ?ks)
       else Inl IosFailure)"
  proof (cases "n \<noteq> 0 \<and> length hs = n \<or> rest = []")
    case True
    then have "hs \<noteq> []" using assms(2) by auto
    with True assms show ?thesis
      by (subst hashes.loop_enc [OF assms(1) _ rest]) auto
  next
    case False
    with assms show ?thesis
      by (subst hashes.loop_partial [OF assms(1) rest]) auto
  qed
  ultimately show ?thesis using assms(3) by (simp add: vote_by_hash_read_def)
qed

definition vote_header :: "u16 \<Rightarrow> message_header_t" where
  "vote_header ext = \<lparr>hdr_magic = [0x52], hdr_network_id = ENUM_NETWORK_NETWORK_LIVE,
     hdr_version_max = 18, hdr_version_using = 18, hdr_version_min = 16,
     hdr_message_type = ENUM_MSGTYPE_CONFIRM_ACK, hdr_extensions = ext\<rparr>"

theorem vote_by_hash_reads_count_witness:
  "vote_by_hash_read (vote_header 0x2100) (kstream_of (concat [replicate 32 1, replicate 32 2] @ [7])) =
     Inr (\<lparr>vote_hashes = Some [replicate 32 1, replicate 32 2]\<rparr>,
          ks_skip 64 (kstream_of (concat [replicate 32 1, replicate 32 2] @ [7])))"
proof -
  have "2 = unat (item_count_int (vote_header 0x2100))"
    by (simp add: item_count_mod vote_header_def)
  from vote_by_hash_reads_count [of "[replicate 32 1, replicate 32 2]" "[7]" 2, OF _ _ this]
  show ?thesis by simp
qed

section \<open>Blocks\<close>

text \<open>the block selector on every branch. A known type reads exactly the bytes of its block
  and throws when they are not there; any other type takes all that is left.\<close>

theorem block_selector_every_branch:
  "case block_size (enum_blocktype_of (ucast t)) of
     None \<Rightarrow> block_selector_read t ks =
       Inr (\<lparr>sel_arg_block_type = t, sel_block =
              BlockIgnored \<lparr>ign_empty = (if ks_rest ks = [] then None else Some (ks_rest ks))\<rparr>\<rparr>,
            ks_skip (ks_left ks) ks)
   | Some n \<Rightarrow>
       if ks_left ks < n then block_selector_read t ks = Inl IosFailure
       else \<exists>b. block_selector_read t ks =
                 Inr (\<lparr>sel_arg_block_type = t, sel_block = b\<rparr>, ks_skip n ks) \<and>
               nano_block_wf (enum_blocktype_of (ucast t)) b \<and>
               nano_block_wire b = take n (ks_rest ks)"
proof (cases "block_size (enum_blocktype_of (ucast t))")
  case None
  then show ?thesis by (subst block_selector_read_cases) simp
next
  case (Some n)
  show ?thesis
  proof (cases "n \<le> ks_left ks")
    case True
    with block_selector_known [OF Some True] Some show ?thesis by simp
  next
    case False
    with Some show ?thesis by (subst block_selector_read_cases) simp
  qed
qed

section \<open>The header\<close>

text \<open>the fields of the extension word: each is the bits of its mask and no others, and the
  block type and the item count are below 16.\<close>

theorem header_extension_fields:
  "unat (block_type_int h) = unat (hdr_extensions h) div 256 mod 16 \<and>
   unat (item_count_int h) = unat (hdr_extensions h) div 4096 \<and>
   hdr_block_type h = enum_blocktype_of (block_type_int h) \<and>
   unat (telemetry_size h) = unat (hdr_extensions h) mod 2048 \<and>
   (query_flag h \<noteq> 0 \<longleftrightarrow> odd (unat (hdr_extensions h))) \<and>
   (extended_params_present h \<noteq> 0 \<longleftrightarrow> odd (unat (hdr_extensions h))) \<and>
   (response_flag h \<noteq> 0 \<longleftrightarrow> odd (unat (hdr_extensions h) div 2))"
proof -
  let ?e = "hdr_extensions h"
  have "(2047 :: i32) = mask 11" by (simp add: mask_eq_exp_minus_1)
  then have "unat (telemetry_size h) = take_bit 11 (unat ?e)"
    by (simp only: telemetry_size_def take_bit_eq_mask [symmetric] unsigned_take_bit_eq unat_ucast_16_32)
  moreover have one: "(ucast ?e AND (1 :: i32)) \<noteq> 0 \<longleftrightarrow> bit ?e 0" and
    two: "(ucast ?e AND (2 :: i32)) \<noteq> 0 \<longleftrightarrow> bit ?e 1"
    using and_exp_eq_0_iff_not_bit [of "ucast ?e :: i32" 0] and_exp_eq_0_iff_not_bit [of "ucast ?e :: i32" 1]
    by (simp_all add: bit_ucast_iff)
  moreover have "bit ?e n \<longleftrightarrow> odd (unat ?e div 2 ^ n)" if "n < 16" for n
    using that bit_unsigned_iff [of ?e n, where 'a = nat] by (simp only: bit_iff_odd [of "unat ?e"]) simp
  then have "bit ?e 0 \<longleftrightarrow> odd (unat ?e)" "bit ?e 1 \<longleftrightarrow> odd (unat ?e div 2)"
    by (metis One_nat_def div_by_1 power_0 power_one_right one_less_numeral_iff semiring_norm(76)
        zero_less_numeral)+
  moreover have "hdr_block_type h = enum_blocktype_of (block_type_int h)"
    by (simp only: hdr_block_type_def block_type_int_def)
  ultimately show ?thesis
    by (simp add: block_type_mod item_count_mod take_bit_eq_mod query_flag_def
        extended_params_present_def response_flag_def)
qed

text \<open>reading the header fails in two ways only: a first byte other than the magic number
  throws the run time error, fewer than eight bytes throw the stream's failure.\<close>

theorem message_header_read_fails:
  "(\<forall>e. message_header_read (kstream_of bs) = Inl e \<longrightarrow>
      (if bs \<noteq> [] \<and> hd bs \<noteq> 0x52
       then e = RuntimeError ''ensure_fixed_contents: actual data does not match expected data''
       else e = IosFailure)) \<and>
   ((\<exists>r. message_header_read (kstream_of bs) = Inr r) \<longleftrightarrow> 8 \<le> length bs \<and> hd bs = 0x52)"
  by (cases bs) (auto simp: message_header_read_eq Let_def)

theorem message_header_read_fails_witness:
  "message_header_read (kstream_of [0x52, 0x43, 18]) = Inl IosFailure"
proof -
  obtain e where e: "message_header_read (kstream_of [0x52, 0x43, 18]) = Inl e"
    by (simp add: message_header_read_eq)
  with message_header_read_fails [of "[0x52, 0x43, 18]"] show ?thesis by simp
qed

end
