(* ===== verification/KStreamLaws.thy ===== *)
theory KStreamLaws
  imports KStream
begin

text \<open>
  The laws of the run time stream: the integer readers against the byte encodings, the bit reader
  against a sequence of bits, the byte array routines against what they are named for.
\<close>

section \<open>Integers\<close>

text \<open>each multi byte reader returns the integer whose little or big endian encoding stands
  at the get position, and moves behind it.\<close>

theorem integer_readers_decode:
  "(ks_rest ks = le_bytes 2 (a :: u16) @ r \<longrightarrow> read_u2le ks = Inr (a, ks_skip 2 ks)) \<and>
   (ks_rest ks = le_bytes 4 (b :: u32) @ r \<longrightarrow> read_u4le ks = Inr (b, ks_skip 4 ks)) \<and>
   (ks_rest ks = le_bytes 8 (c :: u64) @ r \<longrightarrow> read_u8le ks = Inr (c, ks_skip 8 ks)) \<and>
   (ks_rest ks = be_bytes 2 a @ r \<longrightarrow> read_u2be ks = Inr (a, ks_skip 2 ks)) \<and>
   (ks_rest ks = be_bytes 4 b @ r \<longrightarrow> read_u4be ks = Inr (b, ks_skip 4 ks)) \<and>
   (ks_rest ks = be_bytes 8 c @ r \<longrightarrow> read_u8be ks = Inr (c, ks_skip 8 ks))"
  by (auto simp: read_u2le_eq read_u4le_eq read_u8le_eq read_u2be_eq read_u4be_eq read_u8be_eq
      ks_left_eq le_word_le_bytes be_word_be_bytes)

theorem integer_readers_decode_witness:
  "read_u4be (kstream_of [1, 2, 3, 4]) = Inr (0x01020304, ks_skip 4 (kstream_of [1, 2, 3, 4]))"
proof -
  have "ks_rest (kstream_of [1, 2, 3, 4]) = be_bytes 4 (0x01020304 :: u32) @ []"
    by code_simp
  then show ?thesis using integer_readers_decode by blast
qed

section \<open>Byte array routines\<close>

lemma strip_len_le: "strip_len src p n \<le> n"
  by (induction src p n rule: strip_len.induct) (subst strip_len.simps, auto intro: le_trans)

lemma strip_len_pad: "strip_len src p n \<le> i \<Longrightarrow> i < n \<Longrightarrow> src ! i = p"
proof (induction src p n rule: strip_len.induct)
  case (1 src p n)
  show ?case
  proof (cases "0 < n \<and> src ! (n - 1) = p")
    case True
    with "1.prems" have le: "strip_len src p (n - 1) \<le> i" by (subst (asm) strip_len.simps) simp
    show ?thesis
    proof (cases "i = n - 1")
      case False
      with "1.prems" have "i < n - 1" by simp
      then show ?thesis using "1.IH" True le by blast
    qed (use True in simp)
  next
    case False
    with "1.prems" show ?thesis by (subst (asm) strip_len.simps) auto
  qed
qed

lemma strip_len_stop: "0 < strip_len src p n \<Longrightarrow> src ! (strip_len src p n - 1) \<noteq> p"
  by (induction src p n rule: strip_len.induct) (subst strip_len.simps, subst (asm) strip_len.simps, auto)

lemma term_len_bounds: "n \<le> length src \<Longrightarrow> n \<le> term_len src t n \<and> term_len src t n \<le> length src"
  by (induction src t n rule: term_len.induct) (subst term_len.simps, subst term_len.simps, auto)

lemma term_len_skips: "n \<le> i \<Longrightarrow> i < term_len src t n \<Longrightarrow> src ! i \<noteq> t"
proof (induction src t n rule: term_len.induct)
  case (1 src t n)
  show ?case
  proof (cases "n < length src \<and> src ! n \<noteq> t")
    case True
    with "1.prems" have lt: "i < term_len src t (n + 1)"
      using term_len.simps [of src t n] by simp
    show ?thesis
    proof (cases "i = n")
      case False
      with "1.prems" have "n + 1 \<le> i" by simp
      then show ?thesis using "1.IH" True lt by blast
    qed (use True in simp)
  next
    case False
    then have "term_len src t n = n" by (subst term_len.simps) auto
    with "1.prems" show ?thesis by simp
  qed
qed

lemma term_len_stop: "term_len src t n < length src \<Longrightarrow> src ! term_len src t n = t"
  by (induction src t n rule: term_len.induct) (subst term_len.simps, subst (asm) term_len.simps, auto split: if_splits)

text \<open>\<open>bytes_strip_right\<close> cuts a run of the pad byte off the end, and the longest such run.\<close>

theorem bytes_strip_right_strips:
  "\<exists>k. src = bytes_strip_right src p @ replicate k p \<and>
       (bytes_strip_right src p = [] \<or> last (bytes_strip_right src p) \<noteq> p)"
proof -
  let ?n = "strip_len src p (length src)"
  have le: "?n \<le> length src" by (rule strip_len_le)
  have "drop ?n src = replicate (length src - ?n) p"
    using le strip_len_pad [of src p "length src"] by (intro nth_equalityI) simp_all
  then have "src = bytes_strip_right src p @ replicate (length src - ?n) p"
    by (metis append_take_drop_id bytes_strip_right_def)
  moreover have "bytes_strip_right src p = [] \<or> last (bytes_strip_right src p) \<noteq> p"
    using strip_len_stop [of src p "length src"] le
    by (auto simp: bytes_strip_right_def last_conv_nth min_absorb2)
  ultimately show ?thesis by blast
qed

theorem bytes_strip_right_strips_witness:
  "\<exists>k. [7, 0, 9, 0, 0] = bytes_strip_right [7, 0, 9, 0, 0] 0 @ replicate k 0"
  using bytes_strip_right_strips [of "[7, 0, 9, 0, 0]" 0] by blast

lemma term_len_takeWhile: "term_len src t 0 = length (takeWhile (\<lambda>b. b \<noteq> t) src)"
proof -
  let ?n = "term_len src t 0"
  have "?n \<le> length src" using term_len_bounds by blast
  then have "takeWhile (\<lambda>b. b \<noteq> t) src = take ?n src"
    using term_len_skips [of 0 _ src t] term_len_stop [of src t 0]
    by (intro takeWhile_eq_take_P_nth) auto
  with \<open>?n \<le> length src\<close> show ?thesis by simp
qed

text \<open>\<open>bytes_terminate\<close> and \<open>read_bytes_term\<close> cut at the first terminator. Without one the
  first returns its argument; the second throws, whatever \<open>eos_error\<close> says.\<close>

theorem terminators_cut_at_first:
  "(t \<notin> set a \<longrightarrow> bytes_terminate (a @ t # b) t incl = a @ (if incl then [t] else []) \<and>
      (ks_rest ks = a @ t # b \<longrightarrow> read_bytes_term t incl consume eos_error ks =
         Inr (a @ (if incl then [t] else []),
              ks_skip (if consume then length a + 1 else length a) ks))) \<and>
   (t \<notin> set a \<longrightarrow> bytes_terminate a t incl = a \<and>
      (ks_rest ks = a \<longrightarrow> read_bytes_term t incl consume eos_error ks = Inl IosFailure))"
proof -
  have split: "takeWhile (\<lambda>b. b \<noteq> t) (a @ t # b) = a" "takeWhile (\<lambda>b. b \<noteq> t) a = a"
    if "t \<notin> set a" for a b using that by (auto simp: takeWhile_append)
  show ?thesis
    by (auto simp: bytes_terminate_def read_bytes_term_def term_len_takeWhile split)
qed

theorem terminators_cut_at_first_witness:
  "read_bytes_term 0 False True True (kstream_of [5, 6, 0, 7]) =
     Inr ([5, 6], ks_skip 3 (kstream_of [5, 6, 0, 7]))"
proof -
  have "(0 :: u8) \<notin> set [5, 6]" "ks_rest (kstream_of [5, 6, 0, 7]) = [5, 6] @ 0 # [7]" by simp_all
  then have "read_bytes_term 0 False True True (kstream_of [5, 6, 0, 7]) =
      Inr ([5, 6] @ (if False then [0] else []),
        ks_skip (if True then length [5 :: u8, 6] + 1 else length [5 :: u8, 6]) (kstream_of [5, 6, 0, 7]))"
    using terminators_cut_at_first by blast
  then show ?thesis by (simp add: numeral_3_eq_3)
qed

lemma xor_many_from_length [simp]: "length (xor_many_from bs key ki) = length bs"
  by (induction bs key ki rule: xor_many_from.induct) auto

lemma xor_many_from_twice: "xor_many_from (xor_many_from bs key ki) key ki = bs"
  by (induction bs key ki rule: xor_many_from.induct) (auto simp: xor.assoc)

lemma xor_many_from_nth:
  "key \<noteq> [] \<Longrightarrow> ki < length key \<Longrightarrow> i < length bs \<Longrightarrow>
     xor_many_from bs key ki ! i = bs ! i XOR key ! ((ki + i) mod length key)"
proof (induction bs key ki arbitrary: i rule: xor_many_from.induct)
  case (2 b bs key ki)
  show ?case
  proof (cases i)
    case (Suc j)
    let ?k = "if length key \<le> ki + 1 then 0 else ki + 1"
    have "(?k + j) mod length key = (ki + i) mod length key"
    proof (cases "length key \<le> ki + 1")
      case True
      with "2.prems" have "ki + 1 = length key" by simp
      with Suc have "ki + i = length key + j" by simp
      with True show ?thesis by simp
    qed (simp add: Suc)
    with Suc "2.IH" [of j] "2.prems" show ?thesis by (auto simp: nth_Cons')
  qed (use "2.prems" in simp)
qed simp

text \<open>\<open>process_xor_many\<close> combines byte \<open>i\<close> with key byte \<open>i mod |key|\<close>; applied twice it is
  the identity, and with a key of one byte it is \<open>process_xor_one\<close>.\<close>

theorem process_xor_many_spec:
  assumes "key \<noteq> []"
  shows "process_xor_many data key =
      Some (map (\<lambda>i. data ! i XOR key ! (i mod length key)) [0..<length data]) \<and>
    Option.bind (process_xor_many data key) (\<lambda>d. process_xor_many d key) = Some data \<and>
    process_xor_many data [k] = Some (process_xor_one data k)"
proof -
  have nth: "xor_many_from data key' 0 = map (\<lambda>i. data ! i XOR key' ! (i mod length key')) [0..<length data]"
    if "key' \<noteq> []" for key'
    by (rule nth_equalityI) (use that in \<open>auto simp: xor_many_from_nth\<close>)
  have "process_xor_one data k = map (\<lambda>i. data ! i XOR k) [0..<length data]"
    unfolding process_xor_one_def by (rule nth_equalityI) auto
  then show ?thesis
    using nth [OF assms] nth [of "[k]"] assms xor_many_from_twice [of data key 0]
    by (simp add: process_xor_many_def)
qed

theorem process_xor_many_spec_witness:
  "process_xor_many [0, 0, 0] [1, 2] = Some [1, 2, (1 :: u8)]"
  using process_xor_many_spec [of "[1, 2]" "[0, 0, 0]" 0] by (simp add: upt_rec)

section \<open>The bit reader\<close>

text \<open>The low \<open>n\<close> bits of a word and the bits of a byte, most significant first.\<close>

definition word_bits :: "nat \<Rightarrow> 'a::len word \<Rightarrow> bool list" where
  "word_bits n w = map (bit w) (rev [0..<n])"

definition bytes_bits :: "bytes \<Rightarrow> bool list" where
  "bytes_bits bs = concat (map (word_bits 8) bs)"

text \<open>What is still to be read: the bits kept in \<open>m_bits\<close>, then the bytes of the stream.\<close>

definition ks_bit_rest :: "kstream \<Rightarrow> bool list" where
  "ks_bit_rest ks = word_bits (nat (ks_bits_left ks)) (ks_bits ks) @ bytes_bits (ks_rest ks)"

definition bits_wf :: "kstream \<Rightarrow> bool" where
  "bits_wf ks \<longleftrightarrow> 0 \<le> ks_bits_left ks \<and> ks_bits_left ks < 8 \<and>
     take_bit (nat (ks_bits_left ks)) (ks_bits ks) = ks_bits ks"

lemma word_bits_length [simp]: "length (word_bits n w) = n"
  by (simp add: word_bits_def)

lemma word_bits_nth: "i < n \<Longrightarrow> word_bits n w ! i = bit w (n - 1 - i)"
  by (simp add: word_bits_def rev_nth)

lemma bytes_bits_length [simp]: "length (bytes_bits bs) = 8 * length bs"
  by (induction bs) (simp_all add: bytes_bits_def)

lemma word_bits_push:
  assumes "m + k \<le> 64" and "take_bit k b = b"
  shows "word_bits (m + k) (push_bit k a OR b :: u64) = word_bits m a @ word_bits k b"
proof (rule nth_equalityI)
  fix i assume "i < length (word_bits (m + k) (push_bit k a OR b))"
  then have i: "i < m + k" by simp
  have b: "\<not> bit b j" if "k \<le> j" for j
    using assms(2) that by (metis bit_take_bit_iff leD)
  show "word_bits (m + k) (push_bit k a OR b) ! i = (word_bits m a @ word_bits k b) ! i"
  proof (cases "i < m")
    case True
    moreover have "m + k - 1 - i - k = m - 1 - i" by simp
    ultimately show ?thesis
      using i assms(1) b [of "m + k - 1 - i"]
      by (auto simp: word_bits_nth nth_append bit_or_iff bit_push_bit_iff)
  next
    case False
    with i show ?thesis
      by (auto simp: word_bits_nth nth_append bit_or_iff bit_push_bit_iff add.commute)
  qed
qed simp

lemma push_bytes_bits:
  assumes "left + 8 * length bs \<le> 64" and "take_bit left w = w"
  shows "\<exists>w'. push_bytes bs (w, int left) = (w', int (left + 8 * length bs)) \<and>
    word_bits (left + 8 * length bs) w' = word_bits left w @ bytes_bits bs \<and>
    take_bit (left + 8 * length bs) w' = w'"
  using assms
proof (induction bs arbitrary: left w)
  case Nil
  then show ?case by (simp add: bytes_bits_def)
next
  case (Cons b bs)
  let ?w = "push_bit 8 w OR (ucast b :: u64)"
  have small: "take_bit 8 (ucast b :: u64) = ucast b"
    by (rule bit_word_eqI) (auto simp: bit_take_bit_iff bit_ucast_iff dest: bit_imp_le_length)
  have w8: "word_bits 8 (ucast b :: u64) = word_bits 8 b"
    by (simp add: word_bits_def bit_ucast_iff)
  have "take_bit (left + 8) ?w = ?w"
  proof (rule bit_word_eqI)
    fix n assume "n < LENGTH(64)"
    have "\<not> bit w j" if "left \<le> j" for j
      using Cons.prems(2) that by (metis bit_take_bit_iff leD)
    then show "bit (take_bit (left + 8) ?w) n = bit ?w n"
      by (auto simp: bit_take_bit_iff bit_or_iff bit_push_bit_iff bit_ucast_iff dest: bit_imp_le_length)
  qed
  then obtain w' where "push_bytes bs (?w, int (left + 8)) = (w', int (left + 8 + 8 * length bs))"
      "word_bits (left + 8 + 8 * length bs) w' = word_bits (left + 8) ?w @ bytes_bits bs"
      "take_bit (left + 8 + 8 * length bs) w' = w'"
    using Cons.IH [of "left + 8" ?w] Cons.prems(1) by auto
  moreover have "word_bits (left + 8) ?w = word_bits left w @ word_bits 8 b"
    using Cons.prems(1) by (simp add: word_bits_push small w8)
  ultimately show ?case
    by (intro exI [of _ w']) (simp add: bytes_bits_def algebra_simps)
qed

lemma get_mask_ones_mask: "0 \<le> n \<Longrightarrow> n \<le> 64 \<Longrightarrow> get_mask_ones n = mask (nat n)"
  by (auto simp: get_mask_ones_def mask_eq_exp_minus_1 push_bit_eq_mult)

lemma word_bits_take: "n \<le> l \<Longrightarrow> word_bits n (drop_bit (l - n) w) = take n (word_bits l w)"
  by (rule nth_equalityI)
    (auto simp: word_bits_nth bit_drop_bit_eq intro!: arg_cong [of _ _ "bit w"])

lemma word_bits_drop: "n \<le> l \<Longrightarrow> word_bits (l - n) w = drop n (word_bits l w)"
  by (rule nth_equalityI) (auto simp: word_bits_nth intro!: arg_cong [of _ _ "bit w"])

lemma word_bits_cong: "(\<And>i. i < n \<Longrightarrow> bit v i = bit w i) \<Longrightarrow> word_bits n v = word_bits n w"
  by (simp add: word_bits_def)

lemma read_bits_take_bits:
  assumes "n \<le> l" and "l \<le> 64" and "ks_bits_left ks = int l" and "l - n < 8"
  shows "\<exists>v ks'. read_bits_take (int n) ks = Inr (v, ks') \<and> bits_wf ks' \<and>
    word_bits n v = take n (word_bits l (ks_bits ks)) \<and> take_bit n v = v \<and>
    ks_bit_rest ks' = drop n (word_bits l (ks_bits ks)) @ bytes_bits (ks_rest ks)"
proof -
  let ?w = "ks_bits ks"
  let ?v = "drop_bit (l - n) (?w AND push_bit (l - n) (mask n))"
  let ?ks = "ks\<lparr>ks_bits_left := int (l - n), ks_bits := ?w AND mask (l - n)\<rparr>"
  have "get_mask_ones (int n) = mask n" "get_mask_ones (int (l - n)) = mask (l - n)"
    using assms get_mask_ones_mask [of "int n"] get_mask_ones_mask [of "int (l - n)"]
    by (simp_all only: nat_int)
  moreover have "int l - int n = int (l - n)" using assms(1) by simp
  ultimately have "read_bits_take (int n) ks = Inr (?v, ?ks)"
    using assms(3) by (simp only: read_bits_take_def Let_def nat_int)
  moreover have v: "?v = take_bit n (drop_bit (l - n) ?w)"
  proof (rule bit_word_eqI)
    fix i
    have "bit ?w (l - n + i) \<Longrightarrow> l - n + i < 64"
      using bit_imp_le_length [of ?w "l - n + i"] by simp
    then show "bit ?v i = bit (take_bit n (drop_bit (l - n) ?w)) i"
      by (simp only: bit_drop_bit_eq o_def bit_and_iff bit_push_bit_iff bit_mask_iff bit_take_bit_iff)
        (auto simp: possible_bit_def)
  qed
  have "word_bits n ?v = word_bits n (drop_bit (l - n) ?w)"
    unfolding v by (rule word_bits_cong) (simp add: bit_take_bit_iff)
  then have "word_bits n ?v = take n (word_bits l ?w)"
    using word_bits_take [OF assms(1), of ?w] by simp
  moreover have "take_bit n ?v = ?v" unfolding v by simp
  moreover have "word_bits (l - n) (?w AND mask (l - n)) = word_bits (l - n) ?w"
    by (rule word_bits_cong) (use assms in \<open>auto simp: bit_and_iff bit_mask_iff dest: bit_imp_le_length\<close>)
  then have "ks_bit_rest ?ks = drop n (word_bits l ?w) @ bytes_bits (ks_rest ks)"
    using word_bits_drop [OF assms(1), of ?w] by (simp add: ks_bit_rest_def ks_rest_def)
  moreover have "bits_wf ?ks"
    using assms(4) by (simp add: bits_wf_def flip: take_bit_eq_mask)
  ultimately show ?thesis by blast
qed

text \<open>for at most 57 bits, \<open>read_bits_int\<close> takes the next bits of the stream, most
  significant first, across byte boundaries and across calls; it throws when they are not there.\<close>

theorem read_bits_int_reads_bits:
  assumes "bits_wf ks" and "n \<le> 57"
  shows "if n \<le> length (ks_bit_rest ks)
    then \<exists>v ks'. read_bits_int (int n) ks = Inr (v, ks') \<and> bits_wf ks' \<and> take_bit n v = v \<and>
           word_bits n v = take n (ks_bit_rest ks) \<and> ks_bit_rest ks' = drop n (ks_bit_rest ks)
    else read_bits_int (int n) ks = Inl IosFailure"
proof -
  define l where "l = nat (ks_bits_left ks)"
  have l: "ks_bits_left ks = int l" "l < 8" and low: "take_bit l (ks_bits ks) = ks_bits ks"
    using assms(1) by (auto simp: bits_wf_def l_def)
  show ?thesis
  proof (cases "n \<le> l")
    case True
    with l have "read_bits_int (int n) ks = read_bits_take (int n) ks"
      by (simp add: read_bits_int_def)
    moreover have "l \<le> 64" "l - n < 8" using l(2) by simp_all
    ultimately show ?thesis
      using read_bits_take_bits [OF True _ l(1)] True l(1) unfolding ks_bit_rest_def by fastforce
  next
    case False
    define k where "k = (n - l - 1) div 8 + 1"
    have bytes: "(int n - int l - 1) div 8 + 1 = int k"
      using False by (simp add: k_def zdiv_int of_nat_diff)
    have k: "n \<le> l + 8 * k" "l + 8 * k < n + 8"
      using False by (auto simp: k_def)
    with assms(2) l have "k \<le> 8" "l + 8 * k \<le> 64" by auto
    show ?thesis
    proof (cases "k \<le> ks_left ks")
      case True
      let ?ks = "ks_skip k ks" and ?bs = "take k (ks_rest ks)"
      have len: "length ?bs = k" using True by (simp add: ks_left_eq)
      with push_bytes_bits [of l ?bs "ks_bits ks"] \<open>l + 8 * k \<le> 64\<close> low obtain w' where
        w': "push_bytes ?bs (ks_bits ks, int l) = (w', int (l + 8 * k))"
          "word_bits (l + 8 * k) w' = word_bits l (ks_bits ks) @ bytes_bits ?bs" by auto
      define k2 where "k2 = ?ks\<lparr>ks_bits := w', ks_bits_left := int (l + 8 * k)\<rparr>"
      have "read_bits_int (int n) ks = read_bits_take (int n) k2"
        using False l bytes \<open>k \<le> 8\<close> True w'(1)
        by (simp add: read_bits_int_def Let_def m_io_read_def k2_def ks_skip_def)
      moreover have bytes: "bytes_bits (ks_rest ks) = bytes_bits ?bs @ bytes_bits (ks_rest k2)"
        by (simp add: k2_def ks_rest_def ks_skip_def bytes_bits_def add.commute
            flip: concat_append map_append drop_drop)
      moreover have "n \<le> length (ks_bit_rest ks)"
        using k(1) True l(1) by (simp add: ks_bit_rest_def ks_left_eq)
      moreover have "ks_bits_left k2 = int (l + 8 * k)" "ks_bits k2 = w'" by (simp_all add: k2_def)
      moreover have "ks_bit_rest ks = word_bits (l + 8 * k) w' @ bytes_bits (ks_rest k2)"
        using w'(2) l(1) bytes by (simp add: ks_bit_rest_def)
      moreover have "l + 8 * k - n < 8" using k by simp
      ultimately show ?thesis
        using read_bits_take_bits [OF k(1) \<open>l + 8 * k \<le> 64\<close>, of k2] k(1) by fastforce
    next
      case short: False
      then have "\<not> n \<le> length (ks_bit_rest ks)"
        using False l(1) by (auto simp: ks_bit_rest_def ks_left_eq k_def)
      moreover have "read_bits_int (int n) ks = Inl IosFailure"
        using False l bytes \<open>k \<le> 8\<close> short by (simp add: read_bits_int_def Let_def m_io_read_def)
      ultimately show ?thesis by simp
    qed
  qed
qed

theorem read_bits_int_reads_bits_witness:
  "\<exists>v ks'. read_bits_int 12 (kstream_of [0xAB, 0xCD]) = Inr (v, ks') \<and>
     word_bits 12 v = take 12 (ks_bit_rest (kstream_of [0xAB, 0xCD]))"
  using read_bits_int_reads_bits [of "kstream_of [0xAB, 0xCD]" 12]
  by (auto simp: bits_wf_def kstream_of_def ks_bit_rest_def ks_rest_def)

end
