(* ===== verification/Blake2Impl.thy ===== *)
theory Blake2Impl
  imports Prelude
begin

text \<open>
  The helpers of the BLAKE2 sources (\<open>blake2-impl.h\<close>): loads, stores and rotations. A pointer
  into an array is the list of the bytes from there on, so that \<open>src + n\<close> is \<open>drop n\<close>; a store
  is the list of bytes it writes. The theory also holds the interface of a buffered block hash.
\<close>

section \<open>Loads and stores\<close>

text \<open>The portable branches; \<open>NATIVE_LITTLE_ENDIAN\<close> is not defined by the build.\<close>

definition load16 :: "bytes \<Rightarrow> u16" where
  "load16 p = ucast (push_bit 0 (ucast (p ! 0)) OR push_bit 8 (ucast (p ! 1)) :: u32)"

definition load32 :: "bytes \<Rightarrow> u32" where
  "load32 p = push_bit 0 (ucast (p ! 0)) OR push_bit 8 (ucast (p ! 1)) OR
     push_bit 16 (ucast (p ! 2)) OR push_bit 24 (ucast (p ! 3))"

definition load48 :: "bytes \<Rightarrow> u64" where
  "load48 p = push_bit 0 (ucast (p ! 0)) OR push_bit 8 (ucast (p ! 1)) OR
     push_bit 16 (ucast (p ! 2)) OR push_bit 24 (ucast (p ! 3)) OR
     push_bit 32 (ucast (p ! 4)) OR push_bit 40 (ucast (p ! 5))"

definition load64 :: "bytes \<Rightarrow> u64" where
  "load64 p = push_bit 0 (ucast (p ! 0)) OR push_bit 8 (ucast (p ! 1)) OR
     push_bit 16 (ucast (p ! 2)) OR push_bit 24 (ucast (p ! 3)) OR
     push_bit 32 (ucast (p ! 4)) OR push_bit 40 (ucast (p ! 5)) OR
     push_bit 48 (ucast (p ! 6)) OR push_bit 56 (ucast (p ! 7))"

definition store16 :: "u16 \<Rightarrow> bytes" where
  "store16 w = [ucast w, ucast (drop_bit 8 w)]"

definition store32 :: "u32 \<Rightarrow> bytes" where
  "store32 w = [ucast (drop_bit 0 w), ucast (drop_bit 8 w), ucast (drop_bit 16 w),
     ucast (drop_bit 24 w)]"

definition store48 :: "u64 \<Rightarrow> bytes" where
  "store48 w = [ucast (drop_bit 0 w), ucast (drop_bit 8 w), ucast (drop_bit 16 w),
     ucast (drop_bit 24 w), ucast (drop_bit 32 w), ucast (drop_bit 40 w)]"

definition store64 :: "u64 \<Rightarrow> bytes" where
  "store64 w = [ucast (drop_bit 0 w), ucast (drop_bit 8 w), ucast (drop_bit 16 w),
     ucast (drop_bit 24 w), ucast (drop_bit 32 w), ucast (drop_bit 40 w),
     ucast (drop_bit 48 w), ucast (drop_bit 56 w)]"

definition rotr32 :: "u32 \<Rightarrow> nat \<Rightarrow> u32" where
  "rotr32 w c = drop_bit c w OR push_bit (32 - c) w"

definition rotr64 :: "u64 \<Rightarrow> nat \<Rightarrow> u64" where
  "rotr64 w c = drop_bit c w OR push_bit (64 - c) w"

text \<open>\<open>memcpy (dst + off, src, n)\<close> with \<open>n\<close> the length of \<open>src\<close>.\<close>

definition memcpy :: "bytes \<Rightarrow> nat \<Rightarrow> bytes \<Rightarrow> bytes" where
  "memcpy dst off src = take off dst @ src @ drop (off + length src) dst"

lemma length_memcpy [simp]: "off + length src \<le> length dst \<Longrightarrow> length (memcpy dst off src) = length dst"
  by (simp add: memcpy_def)

lemma take_memcpy: "off \<le> length dst \<Longrightarrow> take (off + length src) (memcpy dst off src) = take off dst @ src"
  by (simp add: memcpy_def)

lemma memcpy_full: "off \<le> length dst \<Longrightarrow> off + length src = length dst \<Longrightarrow> memcpy dst off src = take off dst @ src"
  by (simp add: memcpy_def)

lemma map_nth_8: "length xs = 8 \<Longrightarrow> map (\<lambda>i. f (xs ! i)) [0..<8] = map f xs"
  by (rule nth_equalityI) auto

lemma list_update_numeral [simp]: "(x # xs)[numeral k := y] = x # xs[pred_numeral k := y]"
  by (simp add: numeral_eq_Suc)

lemma list_of_8: "length xs = 8 \<Longrightarrow> xs = [xs ! 0, xs ! 1, xs ! 2, xs ! 3, xs ! 4, xs ! 5, xs ! 6, xs ! 7]"
  by (rule nth_equalityI) (auto simp: less_Suc_eq numeral_eq_Suc)

lemma store16_le: "store16 w = le_bytes 2 w"
  by (simp add: store16_def numeral_eq_Suc)

lemma store32_le: "store32 w = le_bytes 4 w"
  by (simp add: store32_def numeral_eq_Suc)

lemma store48_le: "store48 w = le_bytes 6 w"
  by (simp add: store48_def numeral_eq_Suc)

lemma store64_le: "store64 w = le_bytes 8 w"
  by (simp add: store64_def numeral_eq_Suc)

lemma load32_le: "4 \<le> length p \<Longrightarrow> load32 p = le_word (take 4 p)"
  by (auto simp: load32_def numeral_eq_Suc Suc_le_length_iff push_bit_or or.assoc)

lemma load48_le: "6 \<le> length p \<Longrightarrow> load48 p = le_word (take 6 p)"
  by (auto simp: load48_def numeral_eq_Suc Suc_le_length_iff push_bit_or or.assoc)

lemma load64_le: "8 \<le> length p \<Longrightarrow> load64 p = le_word (take 8 p)"
  by (auto simp: load64_def numeral_eq_Suc Suc_le_length_iff push_bit_or or.assoc)

lemma load16_le: "2 \<le> length p \<Longrightarrow> load16 p = le_word (take 2 p)"
proof -
  assume "2 \<le> length p"
  then obtain a b r where p: "p = a # b # r" by (auto simp: numeral_eq_Suc Suc_le_length_iff)
  have "(ucast (ucast a OR push_bit 8 (ucast b) :: u32) :: u16) = ucast a OR push_bit 8 (ucast b)"
    by (rule bit_word_eqI)
      (auto simp: bit_or_iff bit_ucast_iff bit_push_bit_iff possible_bit_def dest: bit_imp_le_length)
  with p show ?thesis by (simp add: load16_def numeral_eq_Suc)
qed

text \<open>what a store wrote a load reads back, and storing what was loaded restores the bytes.\<close>

theorem load_store_inverse:
  "load16 (store16 a @ r) = a \<and> load32 (store32 b @ r) = b \<and> load64 (store64 c @ r) = c \<and>
   load48 (store48 c @ r) = take_bit 48 c \<and>
   (2 \<le> length p \<longrightarrow> store16 (load16 p) = take 2 p) \<and>
   (4 \<le> length p \<longrightarrow> store32 (load32 p) = take 4 p) \<and>
   (6 \<le> length p \<longrightarrow> store48 (load48 p) = take 6 p) \<and>
   (8 \<le> length p \<longrightarrow> store64 (load64 p) = take 8 p)"
proof -
  have "le_word (le_bytes 6 c) = take_bit 48 c"
  proof (rule bit_word_eqI)
    fix i assume "i < LENGTH(64)"
    moreover have "8 * (i div 8) + i mod 8 = i" by simp
    moreover have "i div 8 < 6 \<longleftrightarrow> i < 48" by auto
    ultimately show "bit (le_word (le_bytes 6 c) :: u64) i = bit (take_bit 48 c) i"
      by (auto simp: bit_le_word nth_le_bytes bit_ucast_iff bit_drop_bit_eq bit_take_bit_iff)
  qed
  then show ?thesis
    by (simp add: load16_le load32_le load48_le load64_le store16_le store32_le store48_le store64_le
        le_word_le_bytes le_bytes_le_word_take)
qed

theorem load_store_inverse_witness:
  "load32 (store32 0xDEADBEEF @ [1, 2]) = 0xDEADBEEF \<and> store64 (load64 [1, 2, 3, 4, 5, 6, 7, 8, 9]) =
     [1, 2, 3, 4, 5, 6, 7, 8]"
proof -
  have "8 \<le> length [1 :: u8, 2, 3, 4, 5, 6, 7, 8, 9]" by simp
  then have "store64 (load64 [1, 2, 3, 4, 5, 6, 7, 8, 9]) = take 8 [1, 2, 3, 4, 5, 6, 7, 8, 9]"
    using load_store_inverse by blast
  moreover have "load32 (store32 0xDEADBEEF @ [1, 2]) = 0xDEADBEEF" using load_store_inverse by blast
  ultimately show ?thesis by simp
qed

lemma replicate_numeral_list: "replicate (numeral k) x = x # replicate (pred_numeral k) x"
  by (simp add: numeral_eq_Suc)

text \<open>A counter split over two words: the carry of the low word.\<close>

lemma counter_carry:
  assumes "n < 2 ^ LENGTH('a::len)"
  shows "(of_nat ((t + n) div 2 ^ LENGTH('a)) :: 'a word) =
    of_nat (t div 2 ^ LENGTH('a)) + (if of_nat t + of_nat n < (of_nat n :: 'a word) then 1 else 0)"
proof -
  let ?M = "2 ^ LENGTH('a) :: nat"
  define a q where "a = t mod ?M" and "q = t div ?M"
  have "t = q * ?M + a" unfolding a_def q_def by (rule div_mult_mod_eq [symmetric])
  then have t: "t + n = a + n + q * ?M" by simp
  have a: "a < ?M" by (simp add: a_def)
  have "unat (of_nat t + of_nat n :: 'a word) = (t + n) mod ?M"
    by (metis of_nat_add unat_of_nat)
  also have "\<dots> = (a + n) mod ?M" by (simp add: t)
  moreover have "unat (of_nat n :: 'a word) = n" using assms by (simp add: unat_of_nat)
  ultimately have less: "of_nat t + of_nat n < (of_nat n :: 'a word) \<longleftrightarrow> (a + n) mod ?M < n"
    by (simp add: word_less_nat_alt)
  have div: "(t + n) div ?M = q + (a + n) div ?M" by (simp add: t)
  show ?thesis
  proof (cases "a + n < ?M")
    case True
    then have "(a + n) mod ?M = a + n" "(a + n) div ?M = 0" by simp_all
    with less div show ?thesis by (simp add: q_def)
  next
    case False
    with a assms have "(a + n) div ?M = 1" "(a + n) mod ?M = a + n - ?M"
      by (simp_all add: div_if mod_if)
    with less div a False assms show ?thesis by (simp add: q_def)
  qed
qed

lemma counter_words:
  "unat (of_nat n :: 'a::len word) + 2 ^ LENGTH('a) * unat (of_nat (n div 2 ^ LENGTH('a)) :: 'a word) =
     n mod 2 ^ (2 * LENGTH('a))"
  by (simp add: unat_of_nat mult_2 power_add mod_mult2_eq)

lemma of_nat_words:
  fixes lo hi :: "'a::len word"
  defines "n \<equiv> unat lo + 2 ^ LENGTH('a) * unat hi"
  shows "lo = of_nat n" "hi = of_nat (n div 2 ^ LENGTH('a))"
proof -
  have lo: "unat lo < 2 ^ LENGTH('a)" by (rule unsigned_less)
  have "of_nat n = (of_nat (n mod 2 ^ LENGTH('a)) :: 'a word)"
    by (rule word_unat_eq_iff [THEN iffD2]) (simp add: unat_of_nat)
  also have "n mod 2 ^ LENGTH('a) = unat lo" using lo by (simp add: n_def)
  finally show "lo = of_nat n" by simp
  have "n div 2 ^ LENGTH('a) = unat hi" using lo by (simp add: n_def)
  then show "hi = of_nat (n div 2 ^ LENGTH('a))" by simp
qed

text \<open>The first word of a sequential parameter block.\<close>

lemma param_byte: "n < 256 \<Longrightarrow> (ucast (of_nat n :: u8) :: 'a::len word) = of_nat n"
  by (rule word_unat_eq_iff [THEN iffD2])
    (simp add: unsigned_ucast_eq unat_of_nat take_bit_eq_mod flip: take_bit_eq_mod)

lemma bit_le_64:
  assumes "(n :: nat) \<le> 64" and "bit n i"
  shows "i < 7"
proof (rule ccontr)
  assume "\<not> i < 7"
  then have "(2::nat) ^ 7 \<le> 2 ^ i" by (intro power_increasing) auto
  with assms(1) have "n < 2 ^ i" by simp
  with assms(2) show False by (simp add: bit_iff_odd)
qed

lemma load32_param:
  assumes "nn \<le> 64" and "kk \<le> 64"
  shows "load32 ([of_nat nn, of_nat kk, 1, 1] @ r) = 0x01010000 XOR push_bit 8 (of_nat kk) XOR of_nat nn"
proof (rule bit_word_eqI)
  fix i assume "i < LENGTH(32)"
  have "(0x01010000 :: u32) = push_bit 16 1 OR push_bit 24 1" by simp
  then have "bit (0x01010000 :: u32) i \<longleftrightarrow> i = 16 \<or> i = 24"
    by (simp only: bit_or_iff bit_push_bit_iff bit_1_iff) (auto simp: possible_bit_def)
  then show "bit (load32 ([of_nat nn, of_nat kk, 1, 1] @ r)) i =
      bit (0x01010000 XOR push_bit 8 (of_nat kk) XOR of_nat nn :: u32) i"
    using bit_le_64 [OF assms(1), of i] bit_le_64 [OF assms(2), of "i - 8"] \<open>i < LENGTH(32)\<close>
    by (auto simp: load32_def bit_or_iff bit_xor_iff bit_push_bit_iff bit_ucast_iff bit_of_nat_iff bit_1_iff
        possible_bit_def)
qed

lemma load64_param:
  assumes "nn \<le> 64" and "kk \<le> 64" and "4 \<le> n"
  shows "load64 ([of_nat nn, of_nat kk, 1, 1] @ replicate n 0) =
    0x01010000 XOR push_bit 8 (of_nat kk) XOR of_nat nn"
proof (rule bit_word_eqI)
  fix i assume "i < LENGTH(64)"
  have n: "replicate n (0 :: u8) = 0 # 0 # 0 # 0 # replicate (n - 4) 0"
    using assms(3) by (auto simp: numeral_eq_Suc Suc_le_eq dest!: less_imp_Suc_add)
  have "(0x01010000 :: u64) = push_bit 16 1 OR push_bit 24 1" by simp
  then have "bit (0x01010000 :: u64) i \<longleftrightarrow> i = 16 \<or> i = 24"
    by (simp only: bit_or_iff bit_push_bit_iff bit_1_iff) (auto simp: possible_bit_def)
  then show "bit (load64 ([of_nat nn, of_nat kk, 1, 1] @ replicate n 0)) i =
      bit (0x01010000 XOR push_bit 8 (of_nat kk) XOR of_nat nn :: u64) i"
    using bit_le_64 [OF assms(1), of i] bit_le_64 [OF assms(2), of "i - 8"] \<open>i < LENGTH(64)\<close>
    by (auto simp: n load64_def bit_or_iff bit_xor_iff bit_push_bit_iff bit_ucast_iff bit_of_nat_iff bit_1_iff
        possible_bit_def)
qed

lemma load32_zero: "4 \<le> n \<Longrightarrow> load32 (replicate n 0) = 0"
  by (simp add: load32_def)

lemma load64_zero: "8 \<le> n \<Longrightarrow> load64 (replicate n 0) = 0"
  by (simp add: load64_def)

section \<open>Rotations\<close>

lemma rotr32_word_rotr:
  assumes "0 < c" and "c < 32"
  shows "rotr32 w c = word_rotr c w"
proof (rule bit_word_eqI)
  fix i assume "i < LENGTH(32)"
  then have i: "i < 32" by simp
  show "bit (rotr32 w c) i = bit (word_rotr c w) i"
  proof (cases "c + i < 32")
    case True
    with i assms show ?thesis
      by (auto simp: rotr32_def bit_or_iff bit_drop_bit_eq bit_push_bit_iff bit_word_rotr_iff add.commute
          dest: bit_imp_le_length)
  next
    case False
    then have "(i + c) mod 32 = i - (32 - c)" using i assms by (simp add: mod_if)
    with False i assms show ?thesis
      by (auto simp: rotr32_def bit_or_iff bit_drop_bit_eq bit_push_bit_iff bit_word_rotr_iff
          dest: bit_imp_le_length)
  qed
qed

lemma rotr64_word_rotr:
  assumes "0 < c" and "c < 64"
  shows "rotr64 w c = word_rotr c w"
proof (rule bit_word_eqI)
  fix i assume "i < LENGTH(64)"
  then have i: "i < 64" by simp
  show "bit (rotr64 w c) i = bit (word_rotr c w) i"
  proof (cases "c + i < 64")
    case True
    with i assms show ?thesis
      by (auto simp: rotr64_def bit_or_iff bit_drop_bit_eq bit_push_bit_iff bit_word_rotr_iff add.commute
          dest: bit_imp_le_length)
  next
    case False
    then have "(i + c) mod 64 = i - (64 - c)" using i assms by (simp add: mod_if)
    with False i assms show ?thesis
      by (auto simp: rotr64_def bit_or_iff bit_drop_bit_eq bit_push_bit_iff bit_word_rotr_iff
          dest: bit_imp_le_length)
  qed
qed

section \<open>The interface of a buffered block hash\<close>

text \<open>
  \<open>absorb_all B f c p\<close> absorbs the pending bytes \<open>p\<close> block by block while more than a block is
  pending: the chaining value and the bytes that stay pending. A block hash keeps its last
  block, full or not, because finishing treats it specially.
\<close>

function absorb_all :: "nat \<Rightarrow> (bytes \<Rightarrow> 'c \<Rightarrow> 'c) \<Rightarrow> 'c \<Rightarrow> bytes \<Rightarrow> 'c \<times> bytes" where
  "absorb_all B f c p =
     (if 0 < B \<and> B < length p then absorb_all B f (f (take B p) c) (drop B p) else (c, p))"
  by pat_completeness auto
termination
  by (relation "measure (\<lambda>(B, f, c, p). length p)") auto

declare absorb_all.simps [simp del]

lemma absorb_all_short: "length p \<le> B \<Longrightarrow> absorb_all B f c p = (c, p)"
  by (subst absorb_all.simps) simp

lemma absorb_all_block:
  "0 < B \<Longrightarrow> length b = B \<Longrightarrow> x \<noteq> [] \<Longrightarrow> absorb_all B f c (b @ x) = absorb_all B f (f b c) x"
  by (subst absorb_all.simps) simp

lemma absorb_all_le: "0 < B \<Longrightarrow> length (snd (absorb_all B f c p)) \<le> B"
  by (induction B f c p rule: absorb_all.induct) (subst absorb_all.simps, auto)

lemma absorb_all_nonempty: "p \<noteq> [] \<Longrightarrow> snd (absorb_all B f c p) \<noteq> []"
  by (induction B f c p rule: absorb_all.induct) (subst absorb_all.simps, auto)

lemma absorb_all_append:
  "absorb_all B f c (p @ x) = (case absorb_all B f c p of (c', p') \<Rightarrow> absorb_all B f c' (p' @ x))"
proof (induction B f c p rule: absorb_all.induct)
  case (1 B f c p)
  show ?case
  proof (cases "0 < B \<and> B < length p")
    case True
    then have "absorb_all B f c (p @ x) = absorb_all B f (f (take B p) c) (drop B p @ x)"
      by (subst absorb_all.simps) simp
    also have "\<dots> = (case absorb_all B f (f (take B p) c) (drop B p) of
        (c', p') \<Rightarrow> absorb_all B f c' (p' @ x))"
      using "1.IH" True by blast
    also have "absorb_all B f (f (take B p) c) (drop B p) = absorb_all B f c p"
      using True by (subst (2) absorb_all.simps) simp
    finally show ?thesis .
  next
    case False
    then have "absorb_all B f c p = (c, p)" using absorb_all.simps [of B f c p] by (simp only: if_False)
    then show ?thesis by simp
  qed
qed

text \<open>
  The contract of the update and final functions: \<open>abs\<close> is the chaining part of a state with
  the bytes that are pending, \<open>absorb\<close> the compression of one block, \<open>fin\<close> what finishing makes
  of them. From it, hashing in pieces is hashing the concatenation.
\<close>

locale block_hash =
  fixes B :: nat
    and update :: "'s \<Rightarrow> bytes \<Rightarrow> 's"
    and finish :: "'s \<Rightarrow> 'r"
    and ok :: "'s \<Rightarrow> bool"
    and abs :: "'s \<Rightarrow> 'c \<times> bytes"
    and absorb :: "bytes \<Rightarrow> 'c \<Rightarrow> 'c"
    and fin :: "'c \<times> bytes \<Rightarrow> 'r"
  assumes update_ok: "ok s \<Longrightarrow> ok (update s x)"
    and update_abs: "ok s \<Longrightarrow> abs (update s x) = absorb_all B absorb (fst (abs s)) (snd (abs s) @ x)"
    and pending_le: "ok s \<Longrightarrow> length (snd (abs s)) \<le> B"
    and finish_abs: "ok s \<Longrightarrow> finish s = fin (abs s)"
begin

lemma update_nil: "ok s \<Longrightarrow> abs (update s []) = abs s"
  using pending_le [of s] by (simp add: update_abs absorb_all_short)

lemma update_update: "ok s \<Longrightarrow> abs (update (update s x) y) = abs (update s (x @ y))"
  by (simp add: update_abs update_ok absorb_all_append [of _ _ _ "snd (abs s) @ x" y, simplified]
      split: prod.split)

lemma foldl_update_ok: "ok s \<Longrightarrow> ok (foldl update s xs)"
  by (induction xs arbitrary: s) (simp_all add: update_ok)

lemma update_cong: "ok s \<Longrightarrow> ok t \<Longrightarrow> abs s = abs t \<Longrightarrow> abs (update s x) = abs (update t x)"
  by (simp add: update_abs)

lemma foldl_update: "ok s \<Longrightarrow> abs (foldl update s xs) = abs (update s (concat xs))"
proof (induction xs rule: rev_induct)
  case Nil
  then show ?case by (simp add: update_nil)
next
  case (snoc x xs)
  then have "abs (foldl update s (xs @ [x])) = abs (update (update s (concat xs)) x)"
    using update_cong [OF foldl_update_ok update_ok] by simp
  with update_update [OF snoc.prems, of "concat xs" x] show ?case by simp
qed

lemma finish_foldl: "ok s \<Longrightarrow> finish (foldl update s xs) = finish (update s (concat xs))"
  by (simp add: finish_abs foldl_update_ok update_ok foldl_update)

lemma finish_chunks:
  "ok s \<Longrightarrow> concat xs = concat ys \<Longrightarrow> finish (foldl update s xs) = finish (foldl update s ys)"
  by (simp add: finish_foldl)

end

end
