(* ===== verification/Blake2s.thy ===== *)
theory Blake2s
  imports Blake2Impl
begin

text \<open>
  Sequential BLAKE2s, reference implementation (\<open>blake2/ref/blake2s-ref.c\<close>, \<open>blake2.h\<close>):
  the state and parameter block, initialisation, compression, the buffered update and the final
  step. A function that returns \<open>-1\<close> is \<open>None\<close>; it has not touched its state then. A pointer
  that may be \<open>NULL\<close> is an option, an output pointer the flag \<open>out_null\<close>. The \<open>size_t\<close> lengths
  are natural numbers; the buffer invariant keeps the differences the code takes positive.
\<close>

section \<open>Constants and data\<close>

definition BLAKE2S_BLOCKBYTES :: nat where "BLAKE2S_BLOCKBYTES = 64"
definition BLAKE2S_OUTBYTES :: nat where "BLAKE2S_OUTBYTES = 32"
definition BLAKE2S_KEYBYTES :: nat where "BLAKE2S_KEYBYTES = 32"
definition BLAKE2S_SALTBYTES :: nat where "BLAKE2S_SALTBYTES = 8"
definition BLAKE2S_PERSONALBYTES :: nat where "BLAKE2S_PERSONALBYTES = 8"

lemmas blake2s_constants [simp] = BLAKE2S_BLOCKBYTES_def BLAKE2S_OUTBYTES_def
  BLAKE2S_KEYBYTES_def BLAKE2S_SALTBYTES_def BLAKE2S_PERSONALBYTES_def

record blake2s_state =
  b2s_h :: "u32 list"
  b2s_t :: "u32 list"
  b2s_f :: "u32 list"
  b2s_buf :: bytes
  b2s_buflen :: nat
  b2s_outlen :: nat
  b2s_last_node :: u8

record blake2s_param =
  p2s_digest_length :: u8
  p2s_key_length :: u8
  p2s_fanout :: u8
  p2s_depth :: u8
  p2s_leaf_length :: u32
  p2s_node_offset :: u32
  p2s_xof_length :: u16
  p2s_node_depth :: u8
  p2s_inner_length :: u8
  p2s_salt :: bytes
  p2s_personal :: bytes

text \<open>The packed bytes of the parameter block, on the little endian machine \<open>store32\<close> writes for.\<close>

definition blake2s_param_bytes :: "blake2s_param \<Rightarrow> bytes" where
  "blake2s_param_bytes P =
     [p2s_digest_length P, p2s_key_length P, p2s_fanout P, p2s_depth P] @
     store32 (p2s_leaf_length P) @ store32 (p2s_node_offset P) @ store16 (p2s_xof_length P) @
     [p2s_node_depth P, p2s_inner_length P] @ p2s_salt P @ p2s_personal P"

definition blake2s_IV :: "u32 list" where
  "blake2s_IV =
    [0x6a09e667, 0xbb67ae85,
     0x3c6ef372, 0xa54ff53a,
     0x510e527f, 0x9b05688c,
     0x1f83d9ab, 0x5be0cd19]"

definition blake2s_sigma :: "nat list list" where
  "blake2s_sigma =
    [[0, 1, 2, 3, 4, 5, 6, 7, 8, 9, 10, 11, 12, 13, 14, 15],
     [14, 10, 4, 8, 9, 15, 13, 6, 1, 12, 0, 2, 11, 7, 5, 3],
     [11, 8, 12, 0, 5, 2, 15, 13, 10, 14, 3, 6, 7, 1, 9, 4],
     [7, 9, 3, 1, 13, 12, 11, 14, 2, 6, 5, 10, 4, 0, 15, 8],
     [9, 0, 5, 7, 2, 4, 10, 15, 14, 1, 11, 12, 6, 8, 3, 13],
     [2, 12, 6, 10, 0, 11, 8, 3, 4, 13, 7, 5, 15, 14, 1, 9],
     [12, 5, 1, 15, 14, 13, 4, 10, 0, 7, 6, 3, 9, 2, 8, 11],
     [13, 11, 7, 14, 12, 1, 3, 9, 5, 0, 15, 4, 8, 6, 2, 10],
     [6, 15, 14, 9, 11, 3, 0, 8, 12, 2, 13, 7, 1, 4, 10, 5],
     [10, 2, 8, 4, 7, 6, 1, 5, 15, 11, 9, 14, 3, 12, 13, 0]]"

section \<open>State helpers\<close>

definition blake2s_set_lastnode :: "blake2s_state \<Rightarrow> blake2s_state" where
  "blake2s_set_lastnode S = S\<lparr>b2s_f := (b2s_f S)[1 := -1]\<rparr>"

definition blake2s_is_lastblock :: "blake2s_state \<Rightarrow> bool" where
  "blake2s_is_lastblock S \<longleftrightarrow> b2s_f S ! 0 \<noteq> 0"

definition blake2s_set_lastblock :: "blake2s_state \<Rightarrow> blake2s_state" where
  "blake2s_set_lastblock S =
     (let S = (if b2s_last_node S \<noteq> 0 then blake2s_set_lastnode S else S)
      in S\<lparr>b2s_f := (b2s_f S)[0 := -1]\<rparr>)"

definition blake2s_increment_counter :: "blake2s_state \<Rightarrow> u32 \<Rightarrow> blake2s_state" where
  "blake2s_increment_counter S inc =
     (let t0 = b2s_t S ! 0 + inc
      in S\<lparr>b2s_t := (b2s_t S)[0 := t0, 1 := b2s_t S ! 1 + (if t0 < inc then 1 else 0)]\<rparr>)"

definition blake2s_init0 :: blake2s_state where
  "blake2s_init0 = \<lparr>b2s_h = map (\<lambda>i. blake2s_IV ! i) [0..<8], b2s_t = [0, 0], b2s_f = [0, 0],
     b2s_buf = replicate BLAKE2S_BLOCKBYTES 0, b2s_buflen = 0, b2s_outlen = 0,
     b2s_last_node = 0\<rparr>"

definition blake2s_init_param :: "blake2s_param \<Rightarrow> blake2s_state option" where
  "blake2s_init_param P =
     (let p = blake2s_param_bytes P; S = blake2s_init0
      in Some (S\<lparr>b2s_h := map (\<lambda>i. b2s_h S ! i XOR load32 (drop (4 * i) p)) [0..<8],
                 b2s_outlen := unat (p2s_digest_length P)\<rparr>))"

section \<open>Compression\<close>

definition blake2s_G :: "u32 list \<Rightarrow> nat \<Rightarrow> nat \<Rightarrow> nat \<Rightarrow> nat \<Rightarrow> nat \<Rightarrow> nat \<Rightarrow> u32 list \<Rightarrow> u32 list" where
  "blake2s_G m r i a b c d v =
     (let v = v[a := v ! a + v ! b + m ! (blake2s_sigma ! r ! (2 * i + 0))];
          v = v[d := rotr32 (v ! d XOR v ! a) 16];
          v = v[c := v ! c + v ! d];
          v = v[b := rotr32 (v ! b XOR v ! c) 12];
          v = v[a := v ! a + v ! b + m ! (blake2s_sigma ! r ! (2 * i + 1))];
          v = v[d := rotr32 (v ! d XOR v ! a) 8];
          v = v[c := v ! c + v ! d]
      in v[b := rotr32 (v ! b XOR v ! c) 7])"

definition blake2s_ROUND :: "u32 list \<Rightarrow> nat \<Rightarrow> u32 list \<Rightarrow> u32 list" where
  "blake2s_ROUND m r v =
     (let v = blake2s_G m r 0 0 4 8 12 v;
          v = blake2s_G m r 1 1 5 9 13 v;
          v = blake2s_G m r 2 2 6 10 14 v;
          v = blake2s_G m r 3 3 7 11 15 v;
          v = blake2s_G m r 4 0 5 10 15 v;
          v = blake2s_G m r 5 1 6 11 12 v;
          v = blake2s_G m r 6 2 7 8 13 v
      in blake2s_G m r 7 3 4 9 14 v)"

definition blake2s_compress :: "blake2s_state \<Rightarrow> bytes \<Rightarrow> blake2s_state" where
  "blake2s_compress S block =
     (let m = map (\<lambda>i. load32 (drop (i * 4) block)) [0..<16];
          v = map (\<lambda>i. b2s_h S ! i) [0..<8] @
              [blake2s_IV ! 0, blake2s_IV ! 1, blake2s_IV ! 2, blake2s_IV ! 3,
               b2s_t S ! 0 XOR blake2s_IV ! 4, b2s_t S ! 1 XOR blake2s_IV ! 5,
               b2s_f S ! 0 XOR blake2s_IV ! 6, b2s_f S ! 1 XOR blake2s_IV ! 7];
          v = fold (blake2s_ROUND m) [0..<10] v
      in S\<lparr>b2s_h := map (\<lambda>i. b2s_h S ! i XOR v ! i XOR v ! (i + 8)) [0..<8]\<rparr>)"

section \<open>Update and final\<close>

text \<open>The loop over whole blocks of the input: the state and what is left of the input.\<close>

function blake2s_blocks :: "blake2s_state \<Rightarrow> bytes \<Rightarrow> blake2s_state \<times> bytes" where
  "blake2s_blocks S inp =
     (if BLAKE2S_BLOCKBYTES < length inp
      then blake2s_blocks
             (blake2s_compress (blake2s_increment_counter S (of_nat BLAKE2S_BLOCKBYTES))
               (take BLAKE2S_BLOCKBYTES inp))
             (drop BLAKE2S_BLOCKBYTES inp)
      else (S, inp))"
  by pat_completeness auto
termination
  by (relation "measure (\<lambda>(S, inp). length inp)") auto

declare blake2s_blocks.simps [simp del]

definition blake2s_update :: "blake2s_state \<Rightarrow> bytes \<Rightarrow> blake2s_state" where
  "blake2s_update S inp =
     (if 0 < length inp then
        (let left = b2s_buflen S;
             fill = BLAKE2S_BLOCKBYTES - left;
             (S, inp) =
               (if fill < length inp then
                  (let S = S\<lparr>b2s_buflen := 0, b2s_buf := memcpy (b2s_buf S) left (take fill inp)\<rparr>;
                       S = blake2s_increment_counter S (of_nat BLAKE2S_BLOCKBYTES);
                       S = blake2s_compress S (b2s_buf S)
                   in blake2s_blocks S (drop fill inp))
                else (S, inp))
         in S\<lparr>b2s_buf := memcpy (b2s_buf S) (b2s_buflen S) inp,
              b2s_buflen := b2s_buflen S + length inp\<rparr>)
      else S)"

text \<open>
  The copy to \<open>out\<close> takes the caller's \<open>outlen\<close>, not the one of the state. Beyond the 32 bytes
  of \<open>buffer\<close> the code reads past the array; no byte is claimed there.
\<close>

definition blake2s_final :: "blake2s_state \<Rightarrow> bool \<Rightarrow> nat \<Rightarrow> (blake2s_state \<times> bytes) option" where
  "blake2s_final S out_null outlen =
     (if out_null \<or> outlen < b2s_outlen S then None
      else if blake2s_is_lastblock S then None
      else
        (let S = blake2s_increment_counter S (of_nat (b2s_buflen S));
             S = blake2s_set_lastblock S;
             S = S\<lparr>b2s_buf := memcpy (b2s_buf S) (b2s_buflen S)
                    (replicate (BLAKE2S_BLOCKBYTES - b2s_buflen S) 0)\<rparr>;
             S = blake2s_compress S (b2s_buf S);
             buffer = concat (map (\<lambda>i. store32 (b2s_h S ! i)) [0..<8])
         in Some (S, take outlen buffer)))"

section \<open>Initialisation and the simple interface\<close>

definition blake2s_seq_param :: "nat \<Rightarrow> nat \<Rightarrow> blake2s_param" where
  "blake2s_seq_param outlen keylen = \<lparr>p2s_digest_length = of_nat outlen,
     p2s_key_length = of_nat keylen, p2s_fanout = 1, p2s_depth = 1, p2s_leaf_length = 0,
     p2s_node_offset = 0, p2s_xof_length = 0, p2s_node_depth = 0, p2s_inner_length = 0,
     p2s_salt = replicate BLAKE2S_SALTBYTES 0,
     p2s_personal = replicate BLAKE2S_PERSONALBYTES 0\<rparr>"

definition blake2s_init :: "nat \<Rightarrow> blake2s_state option" where
  "blake2s_init outlen =
     (if outlen = 0 \<or> BLAKE2S_OUTBYTES < outlen then None
      else blake2s_init_param (blake2s_seq_param outlen 0))"

definition blake2s_init_key :: "nat \<Rightarrow> bytes option \<Rightarrow> nat \<Rightarrow> blake2s_state option" where
  "blake2s_init_key outlen key keylen =
     (if outlen = 0 \<or> BLAKE2S_OUTBYTES < outlen then None
      else case key of
        None \<Rightarrow> None
      | Some k \<Rightarrow>
          if keylen = 0 \<or> BLAKE2S_KEYBYTES < keylen then None
          else (case blake2s_init_param (blake2s_seq_param outlen keylen) of
                  None \<Rightarrow> None
                | Some S \<Rightarrow>
                    let block = memcpy (replicate BLAKE2S_BLOCKBYTES 0) 0 (take keylen k)
                    in Some (blake2s_update S block)))"

text \<open>The bytes written to \<open>out\<close>; the code ignores the result of its call of the final function.\<close>

definition blake2s :: "bool \<Rightarrow> nat \<Rightarrow> bytes option \<Rightarrow> nat \<Rightarrow> bytes option \<Rightarrow> nat \<Rightarrow> bytes option" where
  "blake2s out_null outlen inp inlen key keylen =
     (if inp = None \<and> 0 < inlen then None
      else if out_null then None
      else if key = None \<and> 0 < keylen then None
      else if outlen = 0 \<or> BLAKE2S_OUTBYTES < outlen then None
      else if BLAKE2S_KEYBYTES < keylen then None
      else case (if 0 < keylen then blake2s_init_key outlen key keylen else blake2s_init outlen) of
             None \<Rightarrow> None
           | Some S \<Rightarrow>
               let S = blake2s_update S (case inp of None \<Rightarrow> [] | Some i \<Rightarrow> take inlen i)
               in (case blake2s_final S out_null outlen of
                     None \<Rightarrow> Some []
                   | Some (S', digest) \<Rightarrow> Some digest))"


section \<open>The state invariant\<close>

definition blake2s_ok :: "blake2s_state \<Rightarrow> bool" where
  "blake2s_ok S \<longleftrightarrow> length (b2s_h S) = 8 \<and> length (b2s_t S) = 2 \<and> length (b2s_f S) = 2 \<and>
     length (b2s_buf S) = BLAKE2S_BLOCKBYTES \<and> b2s_buflen S \<le> BLAKE2S_BLOCKBYTES"

text \<open>The chaining part of a state and its pending bytes.\<close>

definition blake2s_abs :: "blake2s_state \<Rightarrow> blake2s_state \<times> bytes" where
  "blake2s_abs S = (S\<lparr>b2s_buf := [], b2s_buflen := 0\<rparr>, take (b2s_buflen S) (b2s_buf S))"

definition blake2s_absorb :: "bytes \<Rightarrow> blake2s_state \<Rightarrow> blake2s_state" where
  "blake2s_absorb b c =
     blake2s_compress (blake2s_increment_counter c (of_nat BLAKE2S_BLOCKBYTES)) b"

lemma blake2s_compress_fields [simp]:
  "b2s_t (blake2s_compress S b) = b2s_t S" "b2s_f (blake2s_compress S b) = b2s_f S"
  "b2s_buf (blake2s_compress S b) = b2s_buf S" "b2s_buflen (blake2s_compress S b) = b2s_buflen S"
  "b2s_outlen (blake2s_compress S b) = b2s_outlen S"
  "b2s_last_node (blake2s_compress S b) = b2s_last_node S"
  "length (b2s_h (blake2s_compress S b)) = 8"
  by (simp_all add: blake2s_compress_def Let_def)

lemma blake2s_increment_fields [simp]:
  "b2s_h (blake2s_increment_counter S n) = b2s_h S"
  "b2s_f (blake2s_increment_counter S n) = b2s_f S"
  "b2s_buf (blake2s_increment_counter S n) = b2s_buf S"
  "b2s_buflen (blake2s_increment_counter S n) = b2s_buflen S"
  "b2s_outlen (blake2s_increment_counter S n) = b2s_outlen S"
  "b2s_last_node (blake2s_increment_counter S n) = b2s_last_node S"
  "length (b2s_t (blake2s_increment_counter S n)) = length (b2s_t S)"
  by (simp_all add: blake2s_increment_counter_def Let_def)

text \<open>Compression and counter do not look at the buffer.\<close>

lemma blake2s_compress_buf:
  "blake2s_compress (S\<lparr>b2s_buf := x\<rparr>) b = (blake2s_compress S b)\<lparr>b2s_buf := x\<rparr>"
  "blake2s_compress (S\<lparr>b2s_buflen := n\<rparr>) b = (blake2s_compress S b)\<lparr>b2s_buflen := n\<rparr>"
  by (simp_all add: blake2s_compress_def Let_def)

lemma blake2s_increment_buf:
  "blake2s_increment_counter (S\<lparr>b2s_buf := x\<rparr>) k = (blake2s_increment_counter S k)\<lparr>b2s_buf := x\<rparr>"
  "blake2s_increment_counter (S\<lparr>b2s_buflen := n\<rparr>) k = (blake2s_increment_counter S k)\<lparr>b2s_buflen := n\<rparr>"
  by (simp_all add: blake2s_increment_counter_def Let_def)

lemmas blake2s_buf_simps = blake2s_compress_buf blake2s_increment_buf

lemma blake2s_absorb_ok [simp]:
  "blake2s_ok S \<Longrightarrow> blake2s_ok (blake2s_absorb b S)"
  by (simp add: blake2s_ok_def blake2s_absorb_def)

lemma blake2s_blocks_absorb:
  assumes "blake2s_ok S"
  shows "\<exists>S' r. blake2s_blocks S inp = (S', r) \<and> blake2s_ok S' \<and> b2s_buf S' = b2s_buf S \<and>
     b2s_buflen S' = b2s_buflen S \<and> (inp \<noteq> [] \<longrightarrow> r \<noteq> []) \<and> length r \<le> BLAKE2S_BLOCKBYTES \<and>
     absorb_all BLAKE2S_BLOCKBYTES blake2s_absorb (S\<lparr>b2s_buf := [], b2s_buflen := 0\<rparr>) inp =
       (S'\<lparr>b2s_buf := [], b2s_buflen := 0\<rparr>, r)"
  using assms
proof (induction S inp rule: blake2s_blocks.induct)
  case (1 S inp)
  show ?case
  proof (cases "BLAKE2S_BLOCKBYTES < length inp")
    case True
    let ?S = "blake2s_absorb (take BLAKE2S_BLOCKBYTES inp) S"
    have "blake2s_absorb b (S\<lparr>b2s_buf := [], b2s_buflen := 0\<rparr>) =
        (blake2s_absorb b S)\<lparr>b2s_buf := [], b2s_buflen := 0\<rparr>" for b
      by (simp add: blake2s_absorb_def blake2s_buf_simps)
    then have "absorb_all BLAKE2S_BLOCKBYTES blake2s_absorb (S\<lparr>b2s_buf := [], b2s_buflen := 0\<rparr>) inp =
        absorb_all BLAKE2S_BLOCKBYTES blake2s_absorb (?S\<lparr>b2s_buf := [], b2s_buflen := 0\<rparr>)
          (drop BLAKE2S_BLOCKBYTES inp)"
      using True by (subst absorb_all.simps) simp
    moreover have "blake2s_blocks S inp = blake2s_blocks ?S (drop BLAKE2S_BLOCKBYTES inp)"
      using True by (subst blake2s_blocks.simps) (simp add: blake2s_absorb_def)
    moreover have "blake2s_ok ?S" "b2s_buf ?S = b2s_buf S" "b2s_buflen ?S = b2s_buflen S"
      using "1.prems" by (simp, simp_all add: blake2s_absorb_def)
    moreover have "drop BLAKE2S_BLOCKBYTES inp \<noteq> []" using True by simp
    ultimately show ?thesis
      using "1.IH" [OF True, folded blake2s_absorb_def] True by auto
  next
    case False
    then show ?thesis
      using "1.prems" by (subst blake2s_blocks.simps) (simp add: absorb_all_short)
  qed
qed

lemma blake2s_update_absorb:
  assumes "blake2s_ok S"
  shows "blake2s_ok (blake2s_update S x) \<and>
    blake2s_abs (blake2s_update S x) =
      absorb_all BLAKE2S_BLOCKBYTES blake2s_absorb (fst (blake2s_abs S)) (snd (blake2s_abs S) @ x)"
proof -
  let ?left = "b2s_buflen S" and ?fill = "BLAKE2S_BLOCKBYTES - b2s_buflen S"
  have left: "?left \<le> BLAKE2S_BLOCKBYTES" and buf: "length (b2s_buf S) = BLAKE2S_BLOCKBYTES"
    using assms by (simp_all add: blake2s_ok_def)
  consider "x = []" | "x \<noteq> []" "length x \<le> ?fill" | "?fill < length x" by fastforce
  then show ?thesis
  proof cases
    case 1
    with assms left show ?thesis
      by (simp add: blake2s_update_def blake2s_abs_def absorb_all_short)
  next
    case 2
    with left have len: "?left + length x \<le> BLAKE2S_BLOCKBYTES" by simp
    have "blake2s_update S x =
        S\<lparr>b2s_buf := memcpy (b2s_buf S) ?left x, b2s_buflen := ?left + length x\<rparr>"
      using 2 by (simp add: blake2s_update_def Let_def)
    moreover have "length (take ?left (b2s_buf S) @ x) \<le> BLAKE2S_BLOCKBYTES" using len by simp
    ultimately show ?thesis
      using assms len left buf
      by (simp add: blake2s_abs_def blake2s_ok_def absorb_all_short take_memcpy del: append_take_drop_id)
  next
    case 3
    define b where "b = take ?left (b2s_buf S) @ take ?fill x"
    have b: "length b = BLAKE2S_BLOCKBYTES" and mem: "memcpy (b2s_buf S) ?left (take ?fill x) = b"
      using left buf 3 by (simp_all add: b_def memcpy_def)
    define S1 where "S1 = blake2s_absorb b (S\<lparr>b2s_buflen := 0, b2s_buf := b\<rparr>)"
    have S1: "blake2s_ok S1" "b2s_buflen S1 = 0" "b2s_buf S1 = b"
      using assms b by (simp_all add: S1_def blake2s_ok_def blake2s_absorb_def)
    obtain S2 r where blocks: "blake2s_blocks S1 (drop ?fill x) = (S2, r)" "blake2s_ok S2"
        "b2s_buf S2 = b" "b2s_buflen S2 = 0" "length r \<le> BLAKE2S_BLOCKBYTES"
        "absorb_all BLAKE2S_BLOCKBYTES blake2s_absorb (S1\<lparr>b2s_buf := [], b2s_buflen := 0\<rparr>) (drop ?fill x) =
           (S2\<lparr>b2s_buf := [], b2s_buflen := 0\<rparr>, r)"
      using blake2s_blocks_absorb [OF S1(1), of "drop ?fill x"] S1 by auto
    have update: "blake2s_update S x = S2\<lparr>b2s_buf := memcpy b 0 r, b2s_buflen := length r\<rparr>"
      using 3 blocks(1-4) mem by (cases "x = []") (simp_all add: blake2s_update_def Let_def S1_def blake2s_absorb_def)
    have "absorb_all BLAKE2S_BLOCKBYTES blake2s_absorb (fst (blake2s_abs S)) (b @ drop ?fill x) =
        absorb_all BLAKE2S_BLOCKBYTES blake2s_absorb (blake2s_absorb b (fst (blake2s_abs S))) (drop ?fill x)"
      by (rule absorb_all_block) (use b 3 in auto)
    moreover have "blake2s_absorb b (fst (blake2s_abs S)) = S1\<lparr>b2s_buf := [], b2s_buflen := 0\<rparr>"
      by (simp add: blake2s_abs_def S1_def blake2s_absorb_def blake2s_buf_simps)
    moreover have "snd (blake2s_abs S) @ x = b @ drop ?fill x"
      by (simp add: blake2s_abs_def b_def)
    moreover have "take (length r) (memcpy b 0 r) = r" by (simp add: memcpy_def)
    ultimately show ?thesis
      using blocks update b by (simp add: blake2s_abs_def blake2s_ok_def)
  qed
qed

section \<open>Finishing\<close>

text \<open>What finishing makes of a chaining part and its pending bytes.\<close>

definition blake2s_fin :: "nat \<Rightarrow> blake2s_state \<times> bytes \<Rightarrow> bytes option" where
  "blake2s_fin n = (\<lambda>(c, p).
     if n < b2s_outlen c \<or> blake2s_is_lastblock c then None
     else Some (take n (concat (map store32
       (b2s_h (blake2s_compress
          (blake2s_set_lastblock (blake2s_increment_counter c (of_nat (length p))))
          (p @ replicate (BLAKE2S_BLOCKBYTES - length p) 0)))))))"

lemma blake2s_lastblock_fields [simp]:
  "b2s_h (blake2s_set_lastblock S) = b2s_h S" "b2s_t (blake2s_set_lastblock S) = b2s_t S"
  "b2s_buf (blake2s_set_lastblock S) = b2s_buf S"
  "b2s_buflen (blake2s_set_lastblock S) = b2s_buflen S"
  "b2s_outlen (blake2s_set_lastblock S) = b2s_outlen S"
  "b2s_last_node (blake2s_set_lastblock S) = b2s_last_node S"
  "length (b2s_f (blake2s_set_lastblock S)) = length (b2s_f S)"
  by (simp_all add: blake2s_set_lastblock_def blake2s_set_lastnode_def Let_def)

lemma blake2s_lastblock_buf:
  "blake2s_set_lastblock (S\<lparr>b2s_buf := x\<rparr>) = (blake2s_set_lastblock S)\<lparr>b2s_buf := x\<rparr>"
  "blake2s_set_lastblock (S\<lparr>b2s_buflen := n\<rparr>) = (blake2s_set_lastblock S)\<lparr>b2s_buflen := n\<rparr>"
  by (simp_all add: blake2s_set_lastblock_def blake2s_set_lastnode_def Let_def)

lemma blake2s_final_fin:
  assumes "blake2s_ok S"
  shows "map_option snd (blake2s_final S False n) = blake2s_fin n (blake2s_abs S)"
proof -
  have len: "b2s_buflen S \<le> BLAKE2S_BLOCKBYTES" "length (b2s_buf S) = BLAKE2S_BLOCKBYTES"
    using assms by (simp_all add: blake2s_ok_def)
  then have "memcpy (b2s_buf S) (b2s_buflen S) (replicate (BLAKE2S_BLOCKBYTES - b2s_buflen S) 0) =
      take (b2s_buflen S) (b2s_buf S) @ replicate (BLAKE2S_BLOCKBYTES - b2s_buflen S) 0"
    by (simp add: memcpy_def)
  with len show ?thesis
    by (simp add: blake2s_final_def blake2s_fin_def blake2s_abs_def blake2s_is_lastblock_def Let_def
        blake2s_buf_simps blake2s_lastblock_buf map_nth_8 min_absorb2)
qed

interpretation b2s: block_hash BLAKE2S_BLOCKBYTES blake2s_update
  "\<lambda>S. map_option snd (blake2s_final S False n)" blake2s_ok blake2s_abs blake2s_absorb
  "blake2s_fin n" for n
proof unfold_locales
  fix S :: blake2s_state
  assume ok: "blake2s_ok S"
  then show "length (snd (blake2s_abs S)) \<le> BLAKE2S_BLOCKBYTES"
    by (simp add: blake2s_abs_def blake2s_ok_def)
  show "map_option snd (blake2s_final S False n) = blake2s_fin n (blake2s_abs S)"
    by (rule blake2s_final_fin [OF ok])
  fix x
  show "blake2s_ok (blake2s_update S x)"
    "blake2s_abs (blake2s_update S x) =
      absorb_all BLAKE2S_BLOCKBYTES blake2s_absorb (fst (blake2s_abs S)) (snd (blake2s_abs S) @ x)"
    using blake2s_update_absorb [OF ok] by simp_all
qed

lemma blake2s_init_param_ok: "blake2s_init_param P = Some S \<Longrightarrow> blake2s_ok S"
  by (auto simp: blake2s_init_param_def blake2s_init0_def blake2s_ok_def Let_def)

lemma blake2s_init_ok: "blake2s_init n = Some S \<Longrightarrow> blake2s_ok S"
  by (auto simp: blake2s_init_def blake2s_init_param_ok split: if_splits)

lemma blake2s_init_key_ok: "blake2s_init_key n k l = Some S \<Longrightarrow> blake2s_ok S"
  by (auto simp: blake2s_init_key_def Let_def intro: b2s.update_ok dest: blake2s_init_param_ok
      split: if_splits option.splits)

lemma blake2s_blocks_fields:
  "b2s_f (fst (blake2s_blocks S inp)) = b2s_f S \<and>
   b2s_outlen (fst (blake2s_blocks S inp)) = b2s_outlen S \<and>
   b2s_last_node (fst (blake2s_blocks S inp)) = b2s_last_node S"
  by (induction S inp rule: blake2s_blocks.induct) (subst (1 2 3) blake2s_blocks.simps, simp)

lemma blake2s_update_fields [simp]:
  "b2s_f (blake2s_update S x) = b2s_f S" "b2s_outlen (blake2s_update S x) = b2s_outlen S"
  "b2s_last_node (blake2s_update S x) = b2s_last_node S"
  by (simp_all add: blake2s_update_def Let_def split_beta blake2s_blocks_fields)

text \<open>A state that was not finished finishes, with as many bytes as its digest has.\<close>

lemma blake2s_buffer_length: "length (concat (map (\<lambda>i. store32 (h ! i)) [0..<8])) = 32"
  by (simp add: store32_def length_concat o_def sum_list_triv)

lemma blake2s_final_length:
  assumes "\<not> blake2s_is_lastblock S" and "b2s_outlen S = n" and "n \<le> 32"
  shows "\<exists>S' d. blake2s_final S False n = Some (S', d) \<and> length d = n"
  using assms by (simp add: blake2s_final_def Let_def blake2s_buffer_length del: length_concat)

text \<open>Finishing depends on the abstraction of a state alone.\<close>

lemma blake2s_final_cong:
  assumes "blake2s_ok S" and "blake2s_ok T" and "blake2s_abs S = blake2s_abs T"
  shows "map_option snd (blake2s_final S False n) = map_option snd (blake2s_final T False n)"
  by (simp add: blake2s_final_fin assms)

section \<open>The specification (RFC 7693)\<close>

text \<open>
  The mixing function on four words, the round, the compression function \<open>F\<close> and the hash of a
  message, as the RFC defines them: \<open>h\<close> the chaining words, \<open>t\<close> the number of bytes absorbed.
\<close>

definition mixs :: "u32 \<Rightarrow> u32 \<Rightarrow> u32 \<times> u32 \<times> u32 \<times> u32 \<Rightarrow> u32 \<times> u32 \<times> u32 \<times> u32" where
  "mixs x y = (\<lambda>(a, b, c, d).
     let a = a + b + x; d = word_rotr 16 (d XOR a);
         c = c + d; b = word_rotr 12 (b XOR c);
         a = a + b + y; d = word_rotr 8 (d XOR a);
         c = c + d; b = word_rotr 7 (b XOR c)
     in (a, b, c, d))"

definition mixs_at :: "u32 \<Rightarrow> u32 \<Rightarrow> nat \<times> nat \<times> nat \<times> nat \<Rightarrow> u32 list \<Rightarrow> u32 list" where
  "mixs_at x y = (\<lambda>(a, b, c, d) v.
     case mixs x y (v ! a, v ! b, v ! c, v ! d) of
       (a', b', c', d') \<Rightarrow> v[a := a', b := b', c := c', d := d'])"

definition rfcs_round :: "u32 list \<Rightarrow> nat list \<Rightarrow> u32 list \<Rightarrow> u32 list" where
  "rfcs_round m s v =
     fold (\<lambda>(i, p). mixs_at (m ! (s ! (2 * i))) (m ! (s ! (2 * i + 1))) p)
       (enumerate 0 [(0, 4, 8, 12), (1, 5, 9, 13), (2, 6, 10, 14), (3, 7, 11, 15),
                     (0, 5, 10, 15), (1, 6, 11, 12), (2, 7, 8, 13), (3, 4, 9, 14)]) v"

definition rfcs_F :: "u32 list \<Rightarrow> bytes \<Rightarrow> nat \<Rightarrow> bool \<Rightarrow> u32 list" where
  "rfcs_F h block t lb =
     (let m = map (\<lambda>i. le_word (take 4 (drop (4 * i) block))) [0..<16];
          v = h @ blake2s_IV;
          v = v[12 := v ! 12 XOR of_nat t, 13 := v ! 13 XOR of_nat (t div 2 ^ 32),
                14 := (if lb then NOT (v ! 14) else v ! 14)];
          v = fold (\<lambda>r. rfcs_round m (blake2s_sigma ! (r mod 10))) [0..<10] v
      in map (\<lambda>i. h ! i XOR v ! i XOR v ! (i + 8)) [0..<8])"

function rfcs_chain :: "u32 list \<Rightarrow> nat \<Rightarrow> bytes \<Rightarrow> u32 list" where
  "rfcs_chain h t d =
     (if 64 < length d then rfcs_chain (rfcs_F h (take 64 d) (t + 64) False) (t + 64) (drop 64 d)
      else rfcs_F h (d @ replicate (64 - length d) 0) (t + length d) True)"
  by pat_completeness auto
termination
  by (relation "measure (\<lambda>(h, t, d). length d)") auto

declare rfcs_chain.simps [simp del]

definition rfcs_start :: "nat \<Rightarrow> nat \<Rightarrow> u32 list" where
  "rfcs_start nn kk =
     blake2s_IV[0 := blake2s_IV ! 0 XOR 0x01010000 XOR push_bit 8 (of_nat kk) XOR of_nat nn]"

definition rfcs_hash :: "nat \<Rightarrow> bytes \<Rightarrow> bytes \<Rightarrow> bytes" where
  "rfcs_hash nn key msg =
     take nn (concat (map (le_bytes 4)
       (rfcs_chain (rfcs_start nn (length key)) 0
         ((if key = [] then [] else key @ replicate (64 - length key) 0) @ msg))))"

section \<open>The compression function against the specification\<close>

lemma rot_mixs:
  "rotr32 w 16 = word_rotr 16 w" "rotr32 w 12 = word_rotr 12 w"
  "rotr32 w 8 = word_rotr 8 w" "rotr32 w 7 = word_rotr 7 w"
  by (simp_all add: rotr32_word_rotr)

lemma blake2s_G_mix:
  assumes "distinct [a, b, c, d]" and "a < length v" "b < length v" "c < length v" "d < length v"
  shows "blake2s_G m r i a b c d v =
    mixs_at (m ! (blake2s_sigma ! r ! (2 * i))) (m ! (blake2s_sigma ! r ! (2 * i + 1))) (a, b, c, d) v"
  using assms
  by (simp add: blake2s_G_def mixs_at_def mixs_def Let_def rot_mixs nth_list_update
      list_update_swap [of b a] list_update_swap [of c a] list_update_swap [of c b]
      list_update_swap [of d a] list_update_swap [of d b] list_update_swap [of d c])

lemma length_mixs_at [simp]: "length (mixs_at x y p v) = length v"
  by (auto simp: mixs_at_def split: prod.split)

lemma blake2s_ROUND_rfc:
  "length v = 16 \<Longrightarrow> blake2s_ROUND m r v = rfcs_round m (blake2s_sigma ! r) v"
  by (simp add: blake2s_ROUND_def rfcs_round_def blake2s_G_mix Let_def)

lemma length_rfcs_round [simp]: "length (rfcs_round m s v) = length v"
  by (simp add: rfcs_round_def)

lemma blake2s_rounds:
  "length v = 16 \<Longrightarrow> set rs \<subseteq> {..<10} \<Longrightarrow>
     fold (blake2s_ROUND m) rs v = fold (\<lambda>r. rfcs_round m (blake2s_sigma ! (r mod 10))) rs v"
proof (induction rs arbitrary: v)
  case (Cons r rs)
  have "blake2s_sigma ! r = blake2s_sigma ! (r mod 10)" if "r < 10"
  proof (cases "r < 10")
    case False
    with that have "r = 10 \<or> r = 11" by auto
    with that show ?thesis by (auto simp: blake2s_sigma_def)
  qed simp
  moreover have "r < 10" "set rs \<subseteq> {..<10}" using Cons.prems(2) by auto
  ultimately show ?case using Cons.IH [of "rfcs_round m (blake2s_sigma ! r) v"] Cons.prems(1)
    by (simp add: blake2s_ROUND_rfc)
qed simp

lemma blake2s_compress_rfc:
  assumes "length (b2s_h S) = 8" and "length b = 64"
    and "b2s_t S = [of_nat t, of_nat (t div 2 ^ 32)]" and "b2s_f S = [if lb then -1 else 0, 0]"
  shows "b2s_h (blake2s_compress S b) = rfcs_F (b2s_h S) b t lb"
proof -
  let ?m = "map (\<lambda>i. load32 (drop (i * 4) b)) [0..<16]"
  have m: "?m = map (\<lambda>i. le_word (take 4 (drop (4 * i) b))) [0..<16]"
    using assms(2) by (simp add: load32_le mult.commute)
  have h: "map (\<lambda>i. b2s_h S ! i) [0..<8] = b2s_h S"
    using map_nth [of "b2s_h S"] assms(1) by simp
  let ?v = "b2s_h S @ blake2s_IV"
  have tail: "b2s_h S @
      [blake2s_IV ! 0, blake2s_IV ! 1, blake2s_IV ! 2, blake2s_IV ! 3,
       b2s_t S ! 0 XOR blake2s_IV ! 4, b2s_t S ! 1 XOR blake2s_IV ! 5, b2s_f S ! 0 XOR blake2s_IV ! 6, b2s_f S ! 1 XOR blake2s_IV ! 7] =
    ?v[12 := ?v ! 12 XOR of_nat t, 13 := ?v ! 13 XOR of_nat (t div 2 ^ 32),
       14 := (if lb then NOT (?v ! 14) else ?v ! 14)]" (is "?l = ?r")
  proof -
    obtain h0 h1 h2 h3 h4 h5 h6 h7 where "b2s_h S = [h0, h1, h2, h3, h4, h5, h6, h7]"
      using list_of_8 [OF assms(1)] by blast
    with assms(3,4) show ?thesis
      by (simp add: blake2s_IV_def xor.commute bit.xor_one_right bit.xor_one_left)
  qed
  have "length ?r = 16" using assms(1) by (simp add: blake2s_IV_def)
  then have rounds: "fold (blake2s_ROUND m) [0..<10] ?r =
      fold (\<lambda>r. rfcs_round m (blake2s_sigma ! (r mod 10))) [0..<10] ?r" for m
    by (rule blake2s_rounds) auto
  have proj: "b2s_h (S\<lparr>b2s_h := x\<rparr>) = x" for x by simp
  show ?thesis
    unfolding blake2s_compress_def rfcs_F_def Let_def m h tail rounds proj by (rule refl)
qed

section \<open>The hash against the specification\<close>

lemma blake2s_increment_split:
  assumes "b2s_t S = [of_nat t, of_nat (t div 2 ^ 32)]" and "n < 2 ^ 32"
  shows "b2s_t (blake2s_increment_counter S (of_nat n)) = [of_nat (t + n), of_nat ((t + n) div 2 ^ 32)]"
  using assms counter_carry [where 'a = 32, of n t]
  by (simp add: blake2s_increment_counter_def Let_def)

lemma blake2s_fin_chain:
  assumes "absorb_all BLAKE2S_BLOCKBYTES blake2s_absorb c p = (c', p')"
    and "length (b2s_h c) = 8" and "b2s_t c = [of_nat t, of_nat (t div 2 ^ 32)]" and "b2s_f c = [0, 0]"
    and "b2s_last_node c = 0" and "b2s_outlen c \<le> n"
  shows "blake2s_fin n (c', p') =
    Some (take n (concat (map (le_bytes 4) (rfcs_chain (b2s_h c) t p))))"
  using assms
proof (induction "length p" arbitrary: c p t rule: less_induct)
  case less
  show ?case
  proof (cases "64 < length p")
    case True
    let ?c = "blake2s_absorb (take 64 p) c"
    have t: "b2s_t ?c = [of_nat (t + 64), of_nat ((t + 64) div 2 ^ 32)]"
      using blake2s_increment_split [OF less.prems(3), of 64] by (simp add: blake2s_absorb_def)
    have h: "b2s_h ?c = rfcs_F (b2s_h c) (take 64 p) (t + 64) False"
      using blake2s_increment_split [OF less.prems(3), of 64] less.prems True
        blake2s_compress_rfc [of "blake2s_increment_counter c 64" "take 64 p" "t + 64" False]
      by (simp add: blake2s_absorb_def)
    have "absorb_all BLAKE2S_BLOCKBYTES blake2s_absorb ?c (drop 64 p) = (c', p')"
      using less.prems(1) True by (subst (asm) absorb_all.simps) simp
    then have "blake2s_fin n (c', p') =
        Some (take n (concat (map (le_bytes 4) (rfcs_chain (b2s_h ?c) (t + 64) (drop 64 p)))))"
      by (rule less.hyps [rotated]) (use True t less.prems in \<open>simp_all add: blake2s_absorb_def\<close>)
    also have "rfcs_chain (b2s_h ?c) (t + 64) (drop 64 p) = rfcs_chain (b2s_h c) t p"
      using True h by (subst (2) rfcs_chain.simps) simp
    finally show ?thesis by (simp add: blake2s_absorb_def)
  next
    case False
    then have cp: "c' = c" "p' = p"
      using less.prems(1) by (simp_all add: absorb_all_short)
    let ?c = "blake2s_set_lastblock (blake2s_increment_counter c (of_nat (length p)))"
    have "length p < 2 ^ 32" using False by simp
    from blake2s_increment_split [OF less.prems(3) this]
    have "b2s_t ?c = [of_nat (t + length p), of_nat ((t + length p) div 2 ^ 32)]" by simp
    moreover have "b2s_f ?c = [if True then -1 else 0, 0]"
      using less.prems(4,5) by (simp add: blake2s_set_lastblock_def Let_def)
    moreover have "length (p @ replicate (64 - length p) 0) = 64" using False by simp
    ultimately have "b2s_h (blake2s_compress ?c (p @ replicate (64 - length p) 0)) =
        rfcs_F (b2s_h c) (p @ replicate (64 - length p) 0) (t + length p) True"
      using blake2s_compress_rfc [of ?c "p @ replicate (64 - length p) 0" "t + length p" True]
        less.prems(2) by simp
    with cp less.prems False show ?thesis
      by (subst rfcs_chain.simps)
        (simp add: blake2s_fin_def blake2s_is_lastblock_def store32_le [abs_def])
  qed
qed

lemma blake2s_start:
  assumes "nn \<le> 32" and "kk \<le> 32" and "blake2s_init_param (blake2s_seq_param nn kk) = Some S"
  shows "blake2s_abs S = (S\<lparr>b2s_buf := [], b2s_buflen := 0\<rparr>, [])" "b2s_h S = rfcs_start nn kk"
    "b2s_t S = [0, 0]" "b2s_f S = [0, 0]" "b2s_last_node S = 0" "b2s_outlen S = nn"
proof -
  show "blake2s_abs S = (S\<lparr>b2s_buf := [], b2s_buflen := 0\<rparr>, [])" "b2s_t S = [0, 0]" "b2s_f S = [0, 0]"
    "b2s_last_node S = 0" "b2s_outlen S = nn"
    using assms by (auto simp: blake2s_init_param_def blake2s_init0_def blake2s_abs_def Let_def
        blake2s_seq_param_def unat_of_nat)
  let ?p = "[of_nat nn, of_nat kk, 1, 1] @ replicate 28 (0 :: u8)"
  have p: "blake2s_param_bytes (blake2s_seq_param nn kk) = ?p"
    by (simp add: blake2s_param_bytes_def blake2s_seq_param_def store32_def store16_def
        replicate_numeral_list)
  have zero: "load32 (drop (4 * i) ?p) = 0" if "0 < i" "i < 8" for i
  proof -
    have "drop (4 * i) [of_nat nn, of_nat kk, 1, 1 :: u8] = []"
      using that by (intro drop_all) simp
    then have "drop (4 * i) ?p = replicate (32 - 4 * i) 0"
      using that by (simp only: drop_append append_Nil drop_replicate) simp
    with that show ?thesis by (simp add: load32_zero)
  qed
  have first: "load32 (drop (4 * 0) ?p) = 0x01010000 XOR push_bit 8 (of_nat kk) XOR of_nat nn"
    unfolding mult_0_right drop_0 using assms(1,2) by (intro load32_param) simp_all
  have "b2s_h S = map (\<lambda>i. blake2s_IV ! i XOR load32 (drop (4 * i) ?p)) [0..<8]"
    using assms(3) by (auto simp: blake2s_init_param_def p blake2s_init0_def Let_def simp del: drop_append)
  also have "\<dots> = rfcs_start nn kk"
  proof (rule nth_equalityI)
    fix i assume "i < length (map (\<lambda>i. blake2s_IV ! i XOR load32 (drop (4 * i) ?p)) [0..<8])"
    then have i: "i < 8" by simp
    have IV: "length blake2s_IV = 8" by (simp add: blake2s_IV_def)
    show "map (\<lambda>i. blake2s_IV ! i XOR load32 (drop (4 * i) ?p)) [0..<8] ! i = rfcs_start nn kk ! i"
    proof (cases "i = 0")
      case True
      then show ?thesis using first IV by (simp add: rfcs_start_def xor.assoc del: drop_append)
    next
      case False
      then show ?thesis using zero [of i] i IV by (simp add: rfcs_start_def del: drop_append)
    qed
  qed (simp add: rfcs_start_def blake2s_IV_def)
  finally show "b2s_h S = rfcs_start nn kk" .
qed

text \<open>Absorbing a message into a fresh state and finishing is the specification's chain.\<close>

lemma blake2s_fresh_hash:
  assumes "nn \<le> 32" and "kk \<le> 32" and "blake2s_init_param (blake2s_seq_param nn kk) = Some S"
    and "blake2s_ok T" and "blake2s_abs T = blake2s_abs (blake2s_update S d)"
  shows "map_option snd (blake2s_final T False nn) =
    Some (take nn (concat (map (le_bytes 4) (rfcs_chain (rfcs_start nn kk) 0 d))))"
proof -
  note start = blake2s_start [OF assms(1-3)]
  have S: "blake2s_ok S" by (rule blake2s_init_param_ok [OF assms(3)])
  then have len: "length (b2s_h S) = 8" by (simp add: blake2s_ok_def)
  obtain c' p' where cp: "blake2s_abs T = (c', p')" by (cases "blake2s_abs T")
  with assms(5) b2s.update_abs [OF S, of d] start(1)
  have "absorb_all BLAKE2S_BLOCKBYTES blake2s_absorb (S\<lparr>b2s_buf := [], b2s_buflen := 0\<rparr>) d = (c', p')"
    by simp
  then have "blake2s_fin nn (c', p') =
      Some (take nn (concat (map (le_bytes 4) (rfcs_chain (b2s_h S) 0 d))))"
    using blake2s_fin_chain [of "S\<lparr>b2s_buf := [], b2s_buflen := 0\<rparr>" d c' p' 0 nn] start len by simp
  with cp start blake2s_final_fin [OF assms(4), of nn] show ?thesis by simp
qed

section \<open>Properties\<close>

text \<open>C37: for every valid call \<open>blake2s\<close> returns the RFC 7693 hash of the message under the key;
  a null message or key pointer of length zero stands for the empty string.\<close>

theorem blake2s_is_rfc7693:
  assumes "0 < outlen" and "outlen \<le> 32" and "length k \<le> 32"
    and "key = Some k \<or> key = None \<and> k = []" and "inp = Some i \<or> inp = None \<and> i = []"
  shows "blake2s False outlen inp (length i) key (length k) = Some (rfcs_hash outlen k i)"
proof -
  have i: "(case inp of None \<Rightarrow> [] | Some x \<Rightarrow> take (length i) x) = i" using assms(5) by auto
  obtain S where S: "blake2s_init_param (blake2s_seq_param outlen (length k)) = Some S"
    by (simp add: blake2s_init_param_def Let_def)
  then have ok: "blake2s_ok S" by (rule blake2s_init_param_ok)
  define d where "d = (if k = [] then [] else k @ replicate (64 - length k) 0)"
  define T where "T = (if k = [] then S else blake2s_update S d)"
  have T: "(if 0 < length k then blake2s_init_key outlen key (length k) else blake2s_init outlen) = Some T"
    using assms S by (auto simp: blake2s_init_key_def blake2s_init_def T_def d_def memcpy_def)
  have "blake2s_abs (blake2s_update T i) = blake2s_abs (blake2s_update S (d @ i))"
    using b2s.update_update [OF ok, of d i] by (cases "k = []") (simp_all add: T_def d_def)
  moreover have "blake2s_ok (blake2s_update T i)"
    using ok by (simp add: T_def b2s.update_ok)
  ultimately have "map_option snd (blake2s_final (blake2s_update T i) False outlen) =
      Some (rfcs_hash outlen k i)"
    using blake2s_fresh_hash [OF assms(2,3) S] by (simp add: rfcs_hash_def d_def)
  then obtain S' where "blake2s_final (blake2s_update T i) False outlen = Some (S', rfcs_hash outlen k i)"
    by auto
  with T i assms show ?thesis
    by (auto simp: blake2s_def Let_def simp del: blake2s_constants)
      (auto simp: blake2s_constants)
qed

theorem blake2s_is_rfc7693_witness:
  "blake2s False 32 (Some [97, 98, 99]) (length [97, 98, 99 :: u8]) None (length ([] :: bytes)) =
     Some (rfcs_hash 32 [] [97, 98, 99])"
  by (rule blake2s_is_rfc7693) simp_all

text \<open>\<open>blake2s\<close> fails on exactly the calls its checks name, and writes nothing then.\<close>

theorem blake2s_fails_iff:
  "blake2s out_null outlen inp inlen key keylen = None \<longleftrightarrow>
     out_null \<or> inp = None \<and> 0 < inlen \<or> key = None \<and> 0 < keylen \<or>
     outlen = 0 \<or> 32 < outlen \<or> 32 < keylen"
  by (auto simp: blake2s_def Let_def blake2s_init_key_def blake2s_init_def blake2s_init_param_def
      split: option.splits)

text \<open>hashing a message in any pieces gives what hashing it at once gives.\<close>

theorem blake2s_pieces:
  assumes "blake2s_init_key outlen (Some k) (length k) = Some S \<or> blake2s_init outlen = Some S"
    and "concat xs = concat ys"
  shows "map_option snd (blake2s_final (foldl blake2s_update S xs) False n) =
    map_option snd (blake2s_final (foldl blake2s_update S ys) False n)"
proof -
  have "blake2s_ok S" using assms(1) blake2s_init_ok blake2s_init_key_ok by blast
  then show ?thesis using assms(2) by (rule b2s.finish_chunks)
qed

theorem blake2s_pieces_witness:
  "\<exists>S. blake2s_init 20 = Some S \<and>
     map_option snd (blake2s_final (foldl blake2s_update S [[1, 2], [], [3]]) False 20) =
     map_option snd (blake2s_final (foldl blake2s_update S [[1], [2, 3]]) False 20)"
proof -
  obtain S where "blake2s_init 20 = Some S"
    by (simp add: blake2s_init_def blake2s_init_param_def Let_def)
  with blake2s_pieces [of 20 _ S "[[1, 2], [], [3]]" "[[1], [2, 3]]" 20] show ?thesis by simp
qed

text \<open>a finished state cannot be finished again; the buffer never holds more than a block, and
  an update neither grows it nor leaves it empty when it was given bytes.\<close>

theorem blake2s_buffer_invariant:
  assumes "blake2s_ok S"
  shows "blake2s_ok (blake2s_update S x) \<and>
    (if x = [] then blake2s_update S x = S else 0 < b2s_buflen (blake2s_update S x)) \<and>
    (case blake2s_final S out_null n of
       None \<Rightarrow> True | Some (S', d) \<Rightarrow> blake2s_ok S' \<and> blake2s_final S' out_null n = None)"
proof (intro conjI)
  show "blake2s_ok (blake2s_update S x)" by (rule b2s.update_ok [OF assms])
  show "if x = [] then blake2s_update S x = S else 0 < b2s_buflen (blake2s_update S x)"
  proof (cases "x = []")
    case False
    then have "snd (blake2s_abs (blake2s_update S x)) \<noteq> []"
      using b2s.update_abs [OF assms, of x] by (simp add: absorb_all_nonempty)
    with False show ?thesis by (auto simp: blake2s_abs_def)
  qed (simp add: blake2s_update_def)
  have last: "blake2s_is_lastblock (blake2s_set_lastblock T)" if "length (b2s_f T) = 2" for T
    using that by (cases "b2s_f T")
      (auto simp: blake2s_is_lastblock_def blake2s_set_lastblock_def blake2s_set_lastnode_def Let_def)
  have f: "blake2s_is_lastblock (blake2s_compress T b) = blake2s_is_lastblock T"
    "blake2s_is_lastblock (T\<lparr>b2s_buf := m\<rparr>) = blake2s_is_lastblock T" for T b m
    by (simp_all add: blake2s_is_lastblock_def)
  show "case blake2s_final S out_null n of
      None \<Rightarrow> True | Some (S', d) \<Rightarrow> blake2s_ok S' \<and> blake2s_final S' out_null n = None"
  proof (cases "blake2s_final S out_null n")
    case (Some r)
    then obtain S' d where r: "r = (S', d)" and "blake2s_is_lastblock S'" and "blake2s_ok S'"
      using assms last [of "blake2s_increment_counter S (of_nat (b2s_buflen S))"]
      by (cases r) (auto simp: blake2s_final_def Let_def f blake2s_ok_def split: if_splits)
    with Some show ?thesis by (simp add: blake2s_final_def)
  qed simp
qed

theorem blake2s_buffer_invariant_witness:
  "\<exists>S. blake2s_init 20 = Some S \<and> blake2s_ok (blake2s_update S (replicate 200 7))"
proof -
  obtain S where S: "blake2s_init 20 = Some S"
    by (simp add: blake2s_init_def blake2s_init_param_def Let_def)
  from blake2s_buffer_invariant [OF blake2s_init_ok [OF S]] S show ?thesis by blast
qed

text \<open>the two counter words are one counter of 64 bits: adding a length adds it modulo
  \<open>2 ^ 64\<close>, with the carry into the high word.\<close>

theorem blake2s_counter_adds:
  assumes "b2s_t S = [lo, hi]"
  shows "\<exists>lo' hi'. b2s_t (blake2s_increment_counter S inc) = [lo', hi'] \<and>
    unat lo' + 2 ^ 32 * unat hi' = (unat lo + 2 ^ 32 * unat hi + unat inc) mod 2 ^ 64"
proof -
  define t where "t = unat lo + 2 ^ LENGTH(32) * unat hi"
  have lo: "lo = of_nat t" unfolding t_def by (rule of_nat_words(1))
  have hi: "hi = of_nat (t div 2 ^ LENGTH(32))" unfolding t_def by (rule of_nat_words(2))
  have inc: "unat inc < 2 ^ 32" using unsigned_less [of inc, where 'a = nat] by simp
  have "b2s_t S = [of_nat t, of_nat (t div 2 ^ 32)]"
    unfolding assms by (subst lo, subst hi) simp
  from blake2s_increment_split [OF this inc]
  have "b2s_t (blake2s_increment_counter S inc) =
      [of_nat (t + unat inc), of_nat ((t + unat inc) div 2 ^ 32)]" by simp
  with counter_words [of "t + unat inc", where 'a = 32] show ?thesis by (simp add: t_def)
qed

theorem blake2s_counter_adds_witness:
  "\<exists>lo' hi'. b2s_t (blake2s_increment_counter (blake2s_init0\<lparr>b2s_t := [-1, 5]\<rparr>) 2) = [lo', hi'] \<and>
     unat lo' + 2 ^ 32 * unat hi' = (unat (-1 :: u32) + 2 ^ 32 * unat (5 :: u32) + unat (2 :: u32)) mod 2 ^ 64"
  by (rule blake2s_counter_adds) simp

end
