(* ===== verification/Lanes.thy ===== *)
theory Lanes
  imports Prelude
begin

text \<open>
  Dealing the blocks of a byte string to lanes in turn, and the split of a byte string into whole
  rounds of blocks and a rest: what the parallel hash modes do with their input.
\<close>

section \<open>Whole rounds and the rest\<close>

definition full :: "nat \<Rightarrow> bytes \<Rightarrow> bytes" where
  "full n d = take (length d - length d mod n) d"

definition rest :: "nat \<Rightarrow> bytes \<Rightarrow> bytes" where
  "rest n d = drop (length d - length d mod n) d"

lemma full_rest: "full n d @ rest n d = d"
  by (simp add: full_def rest_def)

lemma length_rest [simp]: "length (rest n d) = length d mod n"
  by (simp add: rest_def)

lemma length_full: "length (full n d) = length d - length d mod n"
  by (simp add: full_def)

lemma full_dvd: "n dvd length (full n d)"
  by (simp add: length_full dvd_minus_mod)

lemma full_append: "n dvd length a \<Longrightarrow> full n (a @ b) = a @ full n b"
proof -
  assume "n dvd length a"
  then have "length (a @ b) mod n = length b mod n" by auto
  then show ?thesis
    using mod_less_eq_dividend [of "length b" n] by (simp add: full_def, linarith)
qed

lemma rest_append: "n dvd length a \<Longrightarrow> rest n (a @ b) = rest n b"
proof -
  assume "n dvd length a"
  then have "length (a @ b) mod n = length b mod n" by auto
  then show ?thesis
    using mod_less_eq_dividend [of "length b" n] by (simp add: rest_def, linarith)
qed

lemma full_short: "length d < n \<Longrightarrow> full n d = []"
  by (simp add: full_def)

lemma rest_short: "length d < n \<Longrightarrow> rest n d = d"
  by (simp add: rest_def)

lemma full_step: "n \<le> length d \<Longrightarrow> full n d = take n d @ full n (drop n d)"
  using full_append [of n "take n d" "drop n d"] by simp

lemma rest_step: "n \<le> length d \<Longrightarrow> rest n d = rest n (drop n d)"
  using rest_append [of n "take n d" "drop n d"] by simp

section \<open>Lanes\<close>

text \<open>The bytes of lane \<open>i\<close> of \<open>n\<close> lanes of blocks of \<open>B\<close> bytes.\<close>

function lane :: "nat \<Rightarrow> nat \<Rightarrow> nat \<Rightarrow> bytes \<Rightarrow> bytes" where
  "lane B n i d =
     (if 0 < n * B \<and> d \<noteq> [] then take B (drop (i * B) d) @ lane B n i (drop (n * B) d) else [])"
  by pat_completeness auto
termination
  by (relation "measure (\<lambda>(B, n, i, d). length d)") (auto simp: length_greater_0_conv [symmetric] simp del: length_greater_0_conv)

declare lane.simps [simp del]

lemma lane_nil [simp]: "lane B n i [] = []"
  by (subst lane.simps) simp

lemma lane_short: "length d \<le> n * B \<Longrightarrow> lane B n i d = take B (drop (i * B) d)"
  by (subst lane.simps) auto

lemma lane_round:
  assumes "0 < B" and "i < n" and "length a = n * B"
  shows "lane B n i (a @ d) = take B (drop (i * B) a) @ lane B n i d"
proof -
  have "i * B + B \<le> n * B" using assms(2) by (metis Suc_leI add.commute mult_Suc mult_le_mono1)
  then have "take B (drop (i * B) (a @ d)) = take B (drop (i * B) a)" using assms(3) by simp
  moreover have "0 < n * B" using assms by simp
  moreover have "a @ d \<noteq> []" using assms \<open>0 < n * B\<close> by auto
  ultimately show ?thesis using assms(3) by (subst lane.simps) simp
qed

lemma lane_append:
  assumes "0 < B" and "i < n" and "n * B dvd length a"
  shows "lane B n i (a @ d) = lane B n i a @ lane B n i d"
proof -
  obtain k where "length a = n * B * k" using assms(3) by (auto simp: dvd_def)
  then show ?thesis
  proof (induction k arbitrary: a)
    case (Suc k)
    define b c where "b = take (n * B) a" and "c = drop (n * B) a"
    then have a: "a = b @ c" and "length b = n * B" "length c = n * B * k" using Suc.prems by simp_all
    then show ?case
      using lane_round [OF assms(1,2), of b] Suc.IH [of c] by simp
  qed simp
qed

lemma those_map_Some: "(\<And>x. x \<in> set xs \<Longrightarrow> f x = Some (g x)) \<Longrightarrow> those (map f xs) = Some (map g xs)"
  by (induction xs) auto

end
