(* ===== verification/Blake2sp.thy ===== *)
theory Blake2sp
  imports Blake2s Lanes
begin

text \<open>
  Parallel BLAKE2sp, reference implementation (\<open>blake2/ref/blake2sp-ref.c\<close>): 8 leaves that
  take the blocks of the message in turn, and a root over their digests. The branch without
  OpenMP. The local array \<open>hash\<close> is not initialised: \<open>hash0\<close> stands for what it holds.
\<close>

section \<open>State and initialisation\<close>

definition BLAKE2SP_DEGREE :: nat where "BLAKE2SP_DEGREE = 8"

lemmas blake2sp_constants [simp] = BLAKE2SP_DEGREE_def

record blake2sp_state =
  sp_S :: "blake2s_state list"
  sp_R :: blake2s_state
  sp_buf :: bytes
  sp_buflen :: nat
  sp_outlen :: nat

definition blake2sp_init_leaf_param :: "blake2s_param \<Rightarrow> blake2s_state option" where
  "blake2sp_init_leaf_param P =
     map_option (\<lambda>S. S\<lparr>b2s_outlen := unat (p2s_inner_length P)\<rparr>) (blake2s_init_param P)"

definition blake2sp_init_leaf :: "nat \<Rightarrow> nat \<Rightarrow> nat \<Rightarrow> blake2s_state option" where
  "blake2sp_init_leaf outlen keylen offset =
     blake2sp_init_leaf_param \<lparr>p2s_digest_length = of_nat outlen, p2s_key_length = of_nat keylen,
       p2s_fanout = of_nat BLAKE2SP_DEGREE, p2s_depth = 2, p2s_leaf_length = 0,
       p2s_node_offset = of_nat offset, p2s_xof_length = 0, p2s_node_depth = 0,
       p2s_inner_length = of_nat BLAKE2S_OUTBYTES, p2s_salt = replicate BLAKE2S_SALTBYTES 0,
       p2s_personal = replicate BLAKE2S_PERSONALBYTES 0\<rparr>"

definition blake2sp_init_root :: "nat \<Rightarrow> nat \<Rightarrow> blake2s_state option" where
  "blake2sp_init_root outlen keylen =
     blake2s_init_param \<lparr>p2s_digest_length = of_nat outlen, p2s_key_length = of_nat keylen,
       p2s_fanout = of_nat BLAKE2SP_DEGREE, p2s_depth = 2, p2s_leaf_length = 0,
       p2s_node_offset = 0, p2s_xof_length = 0, p2s_node_depth = 1,
       p2s_inner_length = of_nat BLAKE2S_OUTBYTES, p2s_salt = replicate BLAKE2S_SALTBYTES 0,
       p2s_personal = replicate BLAKE2S_PERSONALBYTES 0\<rparr>"

definition blake2sp_leaves :: "nat \<Rightarrow> nat \<Rightarrow> blake2s_state list option" where
  "blake2sp_leaves outlen keylen =
     map_option (\<lambda>Ss. Ss[BLAKE2SP_DEGREE - 1 := (Ss ! (BLAKE2SP_DEGREE - 1))\<lparr>b2s_last_node := 1\<rparr>])
       (those (map (blake2sp_init_leaf outlen keylen) [0..<BLAKE2SP_DEGREE]))"

definition blake2sp_init :: "nat \<Rightarrow> blake2sp_state option" where
  "blake2sp_init outlen =
     (if outlen = 0 \<or> BLAKE2S_OUTBYTES < outlen then None
      else case blake2sp_init_root outlen 0 of
        None \<Rightarrow> None
      | Some R \<Rightarrow>
          (case blake2sp_leaves outlen 0 of
             None \<Rightarrow> None
           | Some Ss \<Rightarrow> Some \<lparr>sp_S = Ss, sp_R = R\<lparr>b2s_last_node := 1\<rparr>,
               sp_buf = replicate (BLAKE2SP_DEGREE * BLAKE2S_BLOCKBYTES) 0, sp_buflen = 0,
               sp_outlen = outlen\<rparr>))"

definition blake2sp_init_key :: "nat \<Rightarrow> bytes option \<Rightarrow> nat \<Rightarrow> blake2sp_state option" where
  "blake2sp_init_key outlen key keylen =
     (if outlen = 0 \<or> BLAKE2S_OUTBYTES < outlen then None
      else case key of
        None \<Rightarrow> None
      | Some k \<Rightarrow>
          if keylen = 0 \<or> BLAKE2S_KEYBYTES < keylen then None
          else (case blake2sp_init_root outlen keylen of
            None \<Rightarrow> None
          | Some R \<Rightarrow>
              (case blake2sp_leaves outlen keylen of
                 None \<Rightarrow> None
               | Some Ss \<Rightarrow>
                   let block = memcpy (replicate BLAKE2S_BLOCKBYTES 0) 0 (take keylen k)
                   in Some \<lparr>sp_S = map (\<lambda>S. blake2s_update S block) Ss,
                     sp_R = R\<lparr>b2s_last_node := 1\<rparr>,
                     sp_buf = replicate (BLAKE2SP_DEGREE * BLAKE2S_BLOCKBYTES) 0, sp_buflen = 0,
                     sp_outlen = outlen\<rparr>)))"

section \<open>Update and final\<close>

text \<open>The loop of one leaf over the input: its state, its pointer and the length that is left.\<close>

function blake2sp_lane :: "blake2s_state \<Rightarrow> bytes \<Rightarrow> nat \<Rightarrow> blake2s_state \<times> bytes \<times> nat" where
  "blake2sp_lane S inp inlen =
     (if BLAKE2SP_DEGREE * BLAKE2S_BLOCKBYTES \<le> inlen
      then blake2sp_lane (blake2s_update S (take BLAKE2S_BLOCKBYTES inp))
             (drop (BLAKE2SP_DEGREE * BLAKE2S_BLOCKBYTES) inp) (inlen - BLAKE2SP_DEGREE * BLAKE2S_BLOCKBYTES)
      else (S, inp, inlen))"
  by pat_completeness auto
termination
  by (relation "measure (\<lambda>(S, inp, inlen). inlen)") auto

declare blake2sp_lane.simps [simp del]

definition blake2sp_update :: "blake2sp_state \<Rightarrow> bytes \<Rightarrow> blake2sp_state" where
  "blake2sp_update S inp =
     (let left = sp_buflen S;
          fill = length (sp_buf S) - left;
          (S, inp, left) =
            (if left \<noteq> 0 \<and> fill \<le> length inp then
               (let buf = memcpy (sp_buf S) left (take fill inp)
                in (S\<lparr>sp_buf := buf,
                      sp_S := map (\<lambda>i. blake2s_update (sp_S S ! i)
                        (take BLAKE2S_BLOCKBYTES (drop (i * BLAKE2S_BLOCKBYTES) buf))) [0..<BLAKE2SP_DEGREE]\<rparr>,
                    drop fill inp, 0))
             else (S, inp, left));
          Ss = map (\<lambda>i. fst (blake2sp_lane (sp_S S ! i) (drop (i * BLAKE2S_BLOCKBYTES) inp) (length inp)))
                 [0..<BLAKE2SP_DEGREE];
          rest = drop (length inp - length inp mod (BLAKE2SP_DEGREE * BLAKE2S_BLOCKBYTES)) inp
      in S\<lparr>sp_S := Ss,
           sp_buf := (if 0 < length rest then memcpy (sp_buf S) left rest else sp_buf S),
           sp_buflen := left + length rest\<rparr>)"

text \<open>What a leaf that is finished writes into its row of \<open>hash\<close>; a failed call leaves the row.\<close>

definition blake2sp_leaf_final :: "bytes \<Rightarrow> blake2s_state \<Rightarrow> blake2s_state \<times> bytes" where
  "blake2sp_leaf_final row S =
     (case blake2s_final S False BLAKE2S_OUTBYTES of
        None \<Rightarrow> (S, row) | Some (S', d) \<Rightarrow> (S', memcpy row 0 d))"

text \<open>The state after the call and the bytes written to \<open>out\<close>, none for \<open>-1\<close>.\<close>

definition blake2sp_final :: "bytes list \<Rightarrow> blake2sp_state \<Rightarrow> bool \<Rightarrow> nat \<Rightarrow> blake2sp_state \<times> bytes option" where
  "blake2sp_final hash0 S out_null outlen =
     (if out_null \<or> outlen < sp_outlen S then (S, None)
      else
        (let leaf = (\<lambda>i.
               let B = BLAKE2S_BLOCKBYTES;
                   T = sp_S S ! i;
                   T = (if i * B < sp_buflen S
                        then (let left = sp_buflen S - i * B; left = (if B < left then B else left)
                              in blake2s_update T (take left (drop (i * B) (sp_buf S))))
                        else T)
               in blake2sp_leaf_final (hash0 ! i) T);
             R = fold (\<lambda>i R. blake2s_update R (snd (leaf i))) [0..<BLAKE2SP_DEGREE] (sp_R S);
             S = S\<lparr>sp_S := map (\<lambda>i. fst (leaf i)) [0..<BLAKE2SP_DEGREE], sp_R := R\<rparr>
         in case blake2s_final R out_null (sp_outlen S) of
              None \<Rightarrow> (S, None)
            | Some (R', d) \<Rightarrow> (S\<lparr>sp_R := R'\<rparr>, Some d)))"

definition blake2sp :: "bytes list \<Rightarrow> bool \<Rightarrow> nat \<Rightarrow> bytes option \<Rightarrow> nat \<Rightarrow> bytes option \<Rightarrow> nat \<Rightarrow> bytes option" where
  "blake2sp hash0 out_null outlen inp inlen key keylen =
     (if inp = None \<and> 0 < inlen then None
      else if out_null then None
      else if key = None \<and> 0 < keylen then None
      else if outlen = 0 \<or> BLAKE2S_OUTBYTES < outlen then None
      else if BLAKE2S_KEYBYTES < keylen then None
      else (case blake2sp_leaves outlen keylen of
        None \<Rightarrow> None
      | Some Ss \<Rightarrow>
          let B = BLAKE2S_BLOCKBYTES;
              data = (case inp of None \<Rightarrow> [] | Some x \<Rightarrow> take inlen x);
              block = memcpy (replicate B 0) 0 (take keylen (case key of None \<Rightarrow> [] | Some k \<Rightarrow> k));
              Ss = (if 0 < keylen then map (\<lambda>S. blake2s_update S block) Ss else Ss);
              leaf = (\<lambda>i.
                case blake2sp_lane (Ss ! i) (drop (i * B) data) (length data) of
                  (T, in', inlen') \<Rightarrow>
                    let T = (if i * B < inlen'
                             then (let left = inlen' - i * B; len = (if left \<le> B then left else B)
                                   in blake2s_update T (take len in'))
                             else T)
                    in blake2sp_leaf_final (hash0 ! i) T)
          in (case blake2sp_init_root outlen keylen of
                None \<Rightarrow> None
              | Some FS \<Rightarrow>
                  map_option snd (blake2s_final
                    (fold (\<lambda>i R. blake2s_update R (snd (leaf i))) [0..<BLAKE2SP_DEGREE] (FS\<lparr>b2s_last_node := 1\<rparr>))
                    out_null outlen))))"

section \<open>Lanes of the leaves\<close>

lemma blake2sp_lane_absorbs:
  assumes "blake2s_ok S" and "i < 8"
  shows "\<exists>T. blake2sp_lane S (drop (i * 64) d) (length d) =
      (T, drop (i * 64) (rest 512 d), length (rest 512 d)) \<and> blake2s_ok T \<and>
    blake2s_abs T = blake2s_abs (blake2s_update S (lane 64 8 i (full 512 d)))"
  using assms
proof (induction "length d" arbitrary: d S rule: less_induct)
  case less
  show ?case
  proof (cases "512 \<le> length d")
    case True
    let ?b = "take 64 (drop (i * 64) d)" and ?d = "drop 512 d"
    let ?S = "blake2s_update S ?b"
    have "64 \<le> 512 - i * 64" using less.prems(2) by simp
    then have "?b = take 64 (drop (i * 64) (take 512 d))"
      by (simp add: drop_take min_absorb1)
    then have b: "lane 64 8 i (full 512 d) = ?b @ lane 64 8 i (full 512 ?d)"
      using lane_round [of 64 i 8 "take 512 d"] less.prems(2) True by (simp add: full_step)
    have "blake2sp_lane S (drop (i * 64) d) (length d) =
        blake2sp_lane ?S (drop (i * 64) ?d) (length ?d)"
      using True by (subst blake2sp_lane.simps) (simp add: add.commute)
    moreover have "length ?d < length d" using True by auto
    then obtain T where "blake2sp_lane ?S (drop (i * 64) ?d) (length ?d) =
          (T, drop (i * 64) (rest 512 ?d), length (rest 512 ?d))" "blake2s_ok T"
        "blake2s_abs T = blake2s_abs (blake2s_update ?S (lane 64 8 i (full 512 ?d)))"
      using less.hyps [OF _ b2s.update_ok [OF less.prems(1)] less.prems(2)] by blast
    moreover have "blake2s_abs (blake2s_update ?S (lane 64 8 i (full 512 ?d))) =
        blake2s_abs (blake2s_update S (lane 64 8 i (full 512 d)))"
      using b2s.update_update [OF less.prems(1)] b by simp
    ultimately show ?thesis using True by (simp add: rest_step)
  next
    case False
    then show ?thesis
      using less.prems b2s.update_nil [OF less.prems(1)]
      by (subst blake2sp_lane.simps) (simp add: full_short rest_short)
  qed
qed

section \<open>The specification of the tree\<close>

text \<open>The digest of a sequential state on some data, and the tree over leaves and a root.\<close>

definition digests :: "nat \<Rightarrow> blake2s_state \<Rightarrow> bytes \<Rightarrow> bytes option" where
  "digests n S d = map_option snd (blake2s_final (blake2s_update S d) False n)"

definition trees :: "nat \<Rightarrow> blake2s_state list \<Rightarrow> blake2s_state \<Rightarrow> bytes \<Rightarrow> bytes option" where
  "trees n Ss R d =
     digests n R (concat (map (\<lambda>i. the (digests 32 (Ss ! i) (lane 64 8 i d))) [0..<8]))"

definition leafs_ok :: "blake2s_state \<Rightarrow> bool" where
  "leafs_ok S \<longleftrightarrow> blake2s_ok S \<and> \<not> blake2s_is_lastblock S \<and> b2s_outlen S = 32"

lemma leafs_ok_update: "leafs_ok S \<Longrightarrow> leafs_ok (blake2s_update S x)"
  by (simp add: leafs_ok_def b2s.update_ok blake2s_is_lastblock_def)

lemma leafs_final:
  assumes "leafs_ok S" and "blake2s_ok T" and "blake2s_abs T = blake2s_abs (blake2s_update S d)"
    and "length row = 32"
  shows "snd (blake2sp_leaf_final row T) = the (digests 32 S d)"
proof -
  from leafs_ok_update [OF assms(1)] obtain S' e
    where e: "blake2s_final (blake2s_update S d) False 32 = Some (S', e)" "length e = 32"
    using blake2s_final_length [of "blake2s_update S d" 32] by (auto simp: leafs_ok_def)
  moreover from leafs_ok_update [OF assms(1)] have "blake2s_ok (blake2s_update S d)"
    by (simp add: leafs_ok_def)
  ultimately obtain T' where "blake2s_final T False 32 = Some (T', e)"
    using blake2s_final_cong [OF assms(2) _ assms(3), of 32] by auto
  with e assms(4) show ?thesis
    by (simp add: blake2sp_leaf_final_def digests_def memcpy_def)
qed

lemma fold_update_foldls: "fold (\<lambda>i R. blake2s_update R (f i)) is R = foldl blake2s_update R (map f is)"
  by (induction "is" arbitrary: R) simp_all

lemma roots_final:
  assumes "blake2s_ok R" and "\<And>i. i < 8 \<Longrightarrow> f i = the (digests 32 (Ss ! i) (lane 64 8 i d))"
  shows "map_option snd (blake2s_final (fold (\<lambda>i R. blake2s_update R (f i)) [0..<8] R) False n) = trees n Ss R d"
proof -
  have "map f [0..<8] = map (\<lambda>i. the (digests 32 (Ss ! i) (lane 64 8 i d))) [0..<8]"
    using assms(2) by simp
  then show ?thesis
    unfolding fold_update_foldls trees_def digests_def by (simp only: b2s.finish_foldl [OF assms(1)])
qed

section \<open>Streaming\<close>

text \<open>A streaming state that started with leaves \<open>Ss\<close> and root \<open>R\<close> and absorbed \<open>d\<close>.\<close>

definition absorbeds :: "blake2s_state list \<Rightarrow> blake2s_state \<Rightarrow> bytes \<Rightarrow> blake2sp_state \<Rightarrow> bool" where
  "absorbeds Ss R d S \<longleftrightarrow> sp_R S = R \<and> length (sp_buf S) = 512 \<and>
     sp_buflen S = length (rest 512 d) \<and> take (sp_buflen S) (sp_buf S) = rest 512 d \<and>
     (\<forall>i<8. blake2s_ok (sp_S S ! i) \<and>
        blake2s_abs (sp_S S ! i) = blake2s_abs (blake2s_update (Ss ! i) (lane 64 8 i (full 512 d))))"

lemma absorb_mores:
  assumes "blake2s_ok S0" and "blake2s_ok S" and "blake2s_abs S = blake2s_abs (blake2s_update S0 x)"
  shows "blake2s_ok (blake2s_update S y) \<and>
    blake2s_abs (blake2s_update S y) = blake2s_abs (blake2s_update S0 (x @ y))"
  using b2s.update_cong [OF assms(2) b2s.update_ok [OF assms(1)] assms(3)]
    b2s.update_update [OF assms(1)] b2s.update_ok [OF assms(2)] by simp

lemma absorbeds_update:
  assumes abs: "absorbeds Ss R d S" and Ss: "\<And>i. i < 8 \<Longrightarrow> blake2s_ok (Ss ! i)"
  shows "absorbeds Ss R (d @ x) (blake2sp_update S x)"
proof -
  let ?left = "sp_buflen S" and ?r = "rest 512 d"
  let ?fill = "512 - ?left"
  from abs have buf: "length (sp_buf S) = 512" "?left = length ?r" "take ?left (sp_buf S) = ?r"
    and R: "sp_R S = R"
    and leaf: "\<And>i. i < 8 \<Longrightarrow> blake2s_ok (sp_S S ! i)"
      "\<And>i. i < 8 \<Longrightarrow> blake2s_abs (sp_S S ! i) =
         blake2s_abs (blake2s_update (Ss ! i) (lane 64 8 i (full 512 d)))"
    by (auto simp: absorbeds_def)
  have left: "?left < 512" using buf(2) by simp
  define flush where "flush \<longleftrightarrow> ?left \<noteq> 0 \<and> ?fill \<le> length x"
  define buf1 where "buf1 = (if flush then memcpy (sp_buf S) ?left (take ?fill x) else sp_buf S)"
  define S1 where "S1 = (if flush then map (\<lambda>i. blake2s_update (sp_S S ! i)
      (take 64 (drop (i * 64) buf1))) [0..<8] else sp_S S)"
  define x1 where "x1 = (if flush then drop ?fill x else x)"
  define left1 where "left1 = (if flush then 0 else ?left)"
  have update: "blake2sp_update S x = S\<lparr>
      sp_S := map (\<lambda>i. fst (blake2sp_lane (S1 ! i) (drop (i * 64) x1) (length x1))) [0..<8],
      sp_buf := (if 0 < length (rest 512 x1) then memcpy buf1 left1 (rest 512 x1) else buf1),
      sp_buflen := left1 + length (rest 512 x1)\<rparr>"
    unfolding blake2sp_update_def Let_def buf(1)
    by (auto simp: flush_def buf1_def S1_def x1_def left1_def rest_def)
  define a where "a = (if flush then full 512 d @ buf1 else full 512 d)"
  have buf1: "length buf1 = 512" and flushed: "flush \<Longrightarrow> buf1 = ?r @ take ?fill x"
    using buf left by (auto simp: buf1_def memcpy_full flush_def)
  have dx: "d @ x = a @ take left1 buf1 @ x1"
  proof (cases flush)
    case True
    then show ?thesis
      using flushed full_rest [of 512 d] by (simp add: a_def left1_def x1_def)
  next
    case False
    then show ?thesis
      using buf(3) full_rest [of 512 d] by (simp add: a_def left1_def x1_def buf1_def)
  qed
  have "512 dvd length a" using full_dvd [of 512 d] buf1 by (auto simp: a_def)
  moreover have tail: "full 512 (take left1 buf1 @ x1) = full 512 x1 \<and>
      rest 512 (take left1 buf1 @ x1) = take left1 buf1 @ rest 512 x1 \<and> left1 + length (rest 512 x1) < 512"
  proof (cases "left1 = 0")
    case False
    then have "left1 + length x1 < 512" and "left1 = ?left"
      using left by (auto simp: left1_def x1_def flush_def split: if_splits)
    then show ?thesis using buf1 by (simp add: full_short rest_short)
  qed simp
  ultimately have parts: "full 512 (d @ x) = a @ full 512 x1" "rest 512 (d @ x) = take left1 buf1 @ rest 512 x1"
    unfolding dx by (simp_all add: full_append rest_append)
  have S1: "blake2s_ok (S1 ! i) \<and> blake2s_abs (S1 ! i) = blake2s_abs (blake2s_update (Ss ! i) (lane 64 8 i a))"
    if i: "i < 8" for i
  proof (cases flush)
    case True
    have "lane 64 8 i a = lane 64 8 i (full 512 d) @ take 64 (drop (i * 64) buf1)"
      using True i full_dvd [of 512 d] buf1 by (simp add: a_def lane_append lane_short)
    with absorb_mores [OF Ss [OF i] leaf(1) [OF i] leaf(2) [OF i], of "take 64 (drop (i * 64) buf1)"]
    show ?thesis using True i by (simp add: S1_def)
  next
    case False
    then show ?thesis using leaf i by (simp add: S1_def a_def)
  qed
  have "blake2s_ok (fst (blake2sp_lane (S1 ! i) (drop (i * 64) x1) (length x1))) \<and>
      blake2s_abs (fst (blake2sp_lane (S1 ! i) (drop (i * 64) x1) (length x1))) =
        blake2s_abs (blake2s_update (Ss ! i) (lane 64 8 i (full 512 (d @ x))))" if i: "i < 8" for i
  proof -
    obtain T where T: "blake2sp_lane (S1 ! i) (drop (i * 64) x1) (length x1) =
          (T, drop (i * 64) (rest 512 x1), length (rest 512 x1))" "blake2s_ok T"
        "blake2s_abs T = blake2s_abs (blake2s_update (S1 ! i) (lane 64 8 i (full 512 x1)))"
      using blake2sp_lane_absorbs [of "S1 ! i" i x1] S1 [OF i] i by blast
    moreover have "lane 64 8 i (full 512 (d @ x)) = lane 64 8 i a @ lane 64 8 i (full 512 x1)"
      using i \<open>512 dvd length a\<close> by (simp add: parts lane_append)
    ultimately show ?thesis using absorb_mores [OF Ss [OF i]] S1 [OF i] by simp
  qed
  moreover have "take (left1 + length (rest 512 x1)) (if 0 < length (rest 512 x1) then memcpy buf1 left1 (rest 512 x1) else buf1) =
      rest 512 (d @ x)" "length (if 0 < length (rest 512 x1) then memcpy buf1 left1 (rest 512 x1) else buf1) = 512"
    using tail buf1 by (auto simp: parts take_memcpy simp del: length_rest)
  moreover have "length (rest 512 (d @ x)) = left1 + length (rest 512 x1)"
    using tail buf1 by (simp add: parts del: length_rest)
  ultimately show ?thesis
    unfolding absorbeds_def update using R by (simp del: length_rest)
qed

lemma absorbeds_foldl:
  "absorbeds Ss R d S \<Longrightarrow> (\<And>i. i < 8 \<Longrightarrow> blake2s_ok (Ss ! i)) \<Longrightarrow>
     absorbeds Ss R (d @ concat xs) (foldl blake2sp_update S xs)"
proof (induction xs arbitrary: d S)
  case (Cons x xs)
  then show ?case using absorbeds_update [OF Cons.prems(1), of x] Cons.IH [of "d @ x"] by simp
qed simp

lemma absorbeds_final:
  assumes "absorbeds Ss R d S" and "\<And>i. i < 8 \<Longrightarrow> leafs_ok (Ss ! i)" and "blake2s_ok R"
    and "\<And>i. i < 8 \<Longrightarrow> length (hash0 ! i) = 32" and "sp_outlen S \<le> n"
  shows "snd (blake2sp_final hash0 S False n) = trees (sp_outlen S) Ss R d"
proof -
  define T where "T = (\<lambda>i. if i * 64 < sp_buflen S
     then blake2s_update (sp_S S ! i) (take (if 64 < sp_buflen S - i * 64 then 64 else sp_buflen S - i * 64)
            (drop (i * 64) (sp_buf S)))
     else sp_S S ! i)"
  from assms(1) have R: "sp_R S = R" and buf: "take (sp_buflen S) (sp_buf S) = rest 512 d"
      "sp_buflen S = length (rest 512 d)"
    and leaf: "\<And>i. i < 8 \<Longrightarrow> blake2s_ok (sp_S S ! i)"
      "\<And>i. i < 8 \<Longrightarrow> blake2s_abs (sp_S S ! i) =
         blake2s_abs (blake2s_update (Ss ! i) (lane 64 8 i (full 512 d)))"
    by (auto simp: absorbeds_def)
  have digest: "snd (blake2sp_leaf_final (hash0 ! i) (T i)) = the (digests 32 (Ss ! i) (lane 64 8 i d))"
    if i: "i < 8" for i
  proof -
    have ok: "blake2s_ok (Ss ! i)" using assms(2) [OF i] by (simp add: leafs_ok_def)
    have "512 dvd length (full 512 d)" by (rule full_dvd)
    then have lane: "lane 64 8 i d = lane 64 8 i (full 512 d) @ take 64 (drop (i * 64) (rest 512 d))"
      using i lane_append [of 64 i 8 "full 512 d" "rest 512 d"] lane_short [of "rest 512 d" 8 64 i]
      by (simp add: full_rest less_imp_le)
    have "blake2s_ok (T i) \<and> blake2s_abs (T i) = blake2s_abs (blake2s_update (Ss ! i) (lane 64 8 i d))"
    proof (cases "i * 64 < sp_buflen S")
      case True
      have "take (if 64 < sp_buflen S - i * 64 then 64 else sp_buflen S - i * 64) (drop (i * 64) (sp_buf S)) =
          take 64 (drop (i * 64) (rest 512 d))"
        unfolding buf(1) [symmetric] by (simp add: drop_take min_def)
      with absorb_mores [OF ok leaf(1) [OF i] leaf(2) [OF i]] True show ?thesis by (simp add: T_def lane)
    next
      case False
      then show ?thesis using leaf i buf(2) by (simp add: T_def lane del: length_rest)
    qed
    with leafs_final [OF assms(2) [OF i]] assms(4) [OF i] show ?thesis by blast
  qed
  let ?root = "fold (\<lambda>i R. blake2s_update R (snd (blake2sp_leaf_final (hash0 ! i) (T i)))) [0..<8] R"
  have "snd (blake2sp_final hash0 S False n) = map_option snd (blake2s_final ?root False (sp_outlen S))"
    using assms(5) unfolding blake2sp_final_def Let_def T_def R blake2s_constants blake2sp_constants
    by (simp split: option.split)
  then show ?thesis
    using roots_final [of R "\<lambda>i. snd (blake2sp_leaf_final (hash0 ! i) (T i))", OF assms(3) digest] by simp
qed

section \<open>The initial states\<close>

lemma blake2sp_leaf_init:
  assumes "blake2sp_init_leaf nn kk i = Some S"
  shows "leafs_ok S"
  using assms
  by (auto simp: blake2sp_init_leaf_def blake2sp_init_leaf_param_def blake2s_init_param_def
      blake2s_init0_def leafs_ok_def blake2s_ok_def blake2s_is_lastblock_def Let_def)

lemma blake2sp_leaf_exists: "\<exists>S. blake2sp_init_leaf nn kk i = Some S"
  by (simp add: blake2sp_init_leaf_def blake2sp_init_leaf_param_def blake2s_init_param_def Let_def)

lemma leafs_ok_last_node: "leafs_ok S \<Longrightarrow> leafs_ok (S\<lparr>b2s_last_node := v\<rparr>)"
  by (simp add: leafs_ok_def blake2s_ok_def blake2s_is_lastblock_def)

lemma blake2sp_leaves_ok:
  "\<exists>Ss. blake2sp_leaves nn kk = Some Ss \<and> length Ss = 8 \<and> (\<forall>i<8. leafs_ok (Ss ! i))"
proof -
  define g where "g = (\<lambda>i. the (blake2sp_init_leaf nn kk i))"
  have g: "blake2sp_init_leaf nn kk i = Some (g i)" for i
    using blake2sp_leaf_exists [of nn kk i] by (auto simp: g_def)
  then have ok: "leafs_ok (g i)" for i using blake2sp_leaf_init by blast
  let ?Ss = "(map g [0..<8])[8 - 1 := (map g [0..<8] ! (8 - 1))\<lparr>b2s_last_node := 1\<rparr>]"
  have "blake2sp_leaves nn kk = Some ?Ss"
    using those_map_Some [of "[0..<8]" "blake2sp_init_leaf nn kk" g] g by (simp add: blake2sp_leaves_def)
  moreover have "leafs_ok (?Ss ! i)" if "i < 8" for i
    using that ok leafs_ok_last_node by (simp add: nth_list_update)
  moreover have "length ?Ss = 8" unfolding length_list_update length_map by simp
  ultimately show ?thesis by blast
qed

lemma blake2sp_root_ok: "\<exists>R. blake2sp_init_root nn kk = Some R \<and> blake2s_ok R"
proof -
  obtain R where R: "blake2sp_init_root nn kk = Some R"
    by (simp add: blake2sp_init_root_def blake2s_init_param_def Let_def)
  then have "blake2s_ok R" unfolding blake2sp_init_root_def by (rule blake2s_init_param_ok)
  with R show ?thesis by blast
qed

section \<open>Properties\<close>

text \<open>The leaves and the root every entry point starts from.\<close>

definition startsp :: "nat \<Rightarrow> bytes \<Rightarrow> blake2s_state list \<times> blake2s_state" where
  "startsp outlen k =
     (let Ss = the (blake2sp_leaves outlen (length k));
          block = k @ replicate (64 - length k) 0
      in (if k = [] then Ss else map (\<lambda>S. blake2s_update S block) Ss,
          the (blake2sp_init_root outlen (length k))\<lparr>b2s_last_node := 1\<rparr>))"

lemma startsp_ok:
  assumes "startsp outlen k = (Ss, R)"
  shows "length Ss = 8" "\<And>i. i < 8 \<Longrightarrow> leafs_ok (Ss ! i)" "blake2s_ok R"
proof -
  obtain Ss0 where Ss0: "blake2sp_leaves outlen (length k) = Some Ss0" "length Ss0 = 8"
      "\<And>i. i < 8 \<Longrightarrow> leafs_ok (Ss0 ! i)"
    using blake2sp_leaves_ok [of outlen "length k"] by blast
  then show "length Ss = 8" "\<And>i. i < 8 \<Longrightarrow> leafs_ok (Ss ! i)"
    using assms leafs_ok_update by (auto simp: startsp_def Let_def)
  show "blake2s_ok R"
    using assms blake2sp_root_ok [of outlen "length k"] by (auto simp: startsp_def Let_def blake2s_ok_def)
qed

text \<open>C32: \<open>blake2sp\<close> is the tree hash: the root's sequential hash of the digests of the 8 leaves,
  leaf \<open>i\<close> over the blocks of the message with number \<open>i\<close> modulo 8, whatever the uninitialised
  array held.\<close>

theorem blake2sp_is_tree:
  assumes "0 < outlen" and "outlen \<le> 32" and "length k \<le> 32"
    and "\<forall>i<8. length (hash0 ! i) = 32" and "startsp outlen k = (Ss, R)"
  shows "blake2sp hash0 False outlen (Some d) (length d) (Some k) (length k) = trees outlen Ss R d"
proof -
  note start = startsp_ok [OF assms(5)]
  obtain Ss0 where Ss0: "blake2sp_leaves outlen (length k) = Some Ss0" using blake2sp_leaves_ok [of outlen "length k"] by blast
  obtain R0 where R0: "blake2sp_init_root outlen (length k) = Some R0" using blake2sp_root_ok by blast
  have Ss: "(if 0 < length k then map (\<lambda>S. blake2s_update S (memcpy (replicate 64 0) 0 (take (length k) k))) Ss0
      else Ss0) = Ss" and R: "R0\<lparr>b2s_last_node := 1\<rparr> = R"
    using assms(3,5) Ss0 R0 by (auto simp: startsp_def Let_def memcpy_def)
  define leaf where "leaf = (\<lambda>i. case blake2sp_lane (Ss ! i) (drop (i * 64) d) (length d) of
      (T, in', inlen') \<Rightarrow> blake2sp_leaf_final (hash0 ! i)
        (if i * 64 < inlen'
         then blake2s_update T (take (if inlen' - i * 64 \<le> 64 then inlen' - i * 64 else 64) in')
         else T))"
  have digest: "snd (leaf i) = the (digests 32 (Ss ! i) (lane 64 8 i d))" if i: "i < 8" for i
  proof -
    have ok: "blake2s_ok (Ss ! i)" using start(2) [OF i] by (simp add: leafs_ok_def)
    obtain T where T: "blake2sp_lane (Ss ! i) (drop (i * 64) d) (length d) =
          (T, drop (i * 64) (rest 512 d), length (rest 512 d))" "blake2s_ok T"
        "blake2s_abs T = blake2s_abs (blake2s_update (Ss ! i) (lane 64 8 i (full 512 d)))"
      using blake2sp_lane_absorbs [OF ok i] by blast
    have "512 dvd length (full 512 d)" by (rule full_dvd)
    then have lane: "lane 64 8 i d = lane 64 8 i (full 512 d) @ take 64 (drop (i * 64) (rest 512 d))"
      using i lane_append [of 64 i 8 "full 512 d" "rest 512 d"] lane_short [of "rest 512 d" 8 64 i]
      by (simp add: full_rest less_imp_le)
    let ?r = "rest 512 d"
    let ?T = "if i * 64 < length ?r
      then blake2s_update T (take (if length ?r - i * 64 \<le> 64 then length ?r - i * 64 else 64) (drop (i * 64) ?r))
      else T"
    have "blake2s_ok ?T \<and> blake2s_abs ?T = blake2s_abs (blake2s_update (Ss ! i) (lane 64 8 i d))"
    proof (cases "i * 64 < length ?r")
      case True
      have "take (if length ?r - i * 64 \<le> 64 then length ?r - i * 64 else 64) (drop (i * 64) ?r) =
          take 64 (drop (i * 64) ?r)"
        by (simp del: length_rest)
      with absorb_mores [OF ok T(2,3)] True show ?thesis by (simp add: lane del: length_rest)
    next
      case False
      then show ?thesis using T by (simp add: lane del: length_rest)
    qed
    moreover have "leaf i = blake2sp_leaf_final (hash0 ! i) ?T" unfolding leaf_def T(1) prod.case ..
    ultimately show ?thesis using leafs_final [OF start(2) [OF i]] assms(4) i by simp
  qed
  have "blake2sp hash0 False outlen (Some d) (length d) (Some k) (length k) =
      map_option snd (blake2s_final (fold (\<lambda>i R. blake2s_update R (snd (leaf i))) [0..<8] R) False outlen)"
    using assms(1-3) Ss0 R0 Ss R
    by (simp add: blake2sp_def leaf_def Let_def split_beta if_distrib [of fst] cong: if_cong)
  then show ?thesis using roots_final [OF start(3) digest] by simp
qed

theorem blake2sp_is_tree_witness:
  "blake2sp (replicate 8 (replicate 32 7)) False 32 (Some [1, 2, 3]) (length [1, 2, 3 :: u8]) (Some []) (length ([] :: bytes)) =
     (case startsp 32 [] of (Ss, R) \<Rightarrow> trees 32 Ss R [1, 2, 3])"
proof -
  obtain Ss R where start: "startsp 32 [] = (Ss, R)" by fastforce
  have "blake2sp (replicate 8 (replicate 32 7)) False 32 (Some [1, 2, 3]) (length [1, 2, 3 :: u8])
      (Some []) (length ([] :: bytes)) = trees 32 Ss R [1, 2, 3]"
    by (rule blake2sp_is_tree [OF _ _ _ _ start]) simp_all
  with start show ?thesis by simp
qed

text \<open>the streaming interface computes what the one call does, for any pieces of the message.\<close>

theorem blake2sp_stream_is_tree:
  assumes "length k \<le> 32" and "\<forall>i<8. length (hash0 ! i) = 32" and "startsp outlen k = (Ss, R)"
    and "(if k = [] then blake2sp_init outlen else blake2sp_init_key outlen (Some k) (length k)) = Some S"
  shows "snd (blake2sp_final hash0 (foldl blake2sp_update S xs) False outlen) = trees outlen Ss R (concat xs)"
proof -
  note start = startsp_ok [OF assms(3)]
  have S: "sp_R S = R" "sp_S S = Ss" "sp_buflen S = 0" "length (sp_buf S) = 512" "sp_outlen S = outlen"
    using assms by (auto simp: startsp_def blake2sp_init_def blake2sp_init_key_def Let_def memcpy_def
        split: if_splits option.splits)
  have "absorbeds Ss R [] S"
    using S start(2) b2s.update_nil by (auto simp: absorbeds_def leafs_ok_def full_def rest_def)
  then have "absorbeds Ss R (concat xs) (foldl blake2sp_update S xs)"
    using absorbeds_foldl [of Ss R "[]" S xs] start(2) by (simp add: leafs_ok_def)
  moreover have "sp_outlen (foldl blake2sp_update S xs) = outlen"
    using S(5) by (induction xs arbitrary: S) (simp_all add: blake2sp_update_def Let_def split_beta)
  ultimately show ?thesis
    using absorbeds_final [OF _ start(2,3), of "concat xs" _ hash0 outlen] assms(2) by simp
qed

theorem blake2sp_stream_is_tree_witness:
  "\<exists>S. blake2sp_init 32 = Some S \<and>
     snd (blake2sp_final (replicate 8 (replicate 32 0)) (foldl blake2sp_update S [[1], [2, 3]]) False 32) =
       (case startsp 32 [] of (Ss, R) \<Rightarrow> trees 32 Ss R [1, 2, 3])"
proof -
  obtain Ss R where start: "startsp 32 [] = (Ss, R)" by fastforce
  obtain R0 where R0: "blake2sp_init_root 32 0 = Some R0" using blake2sp_root_ok by blast
  obtain Ss0 where "blake2sp_leaves 32 0 = Some Ss0" using blake2sp_leaves_ok [of 32 0] by blast
  with R0 obtain S where S: "blake2sp_init 32 = Some S" by (simp add: blake2sp_init_def)
  have "snd (blake2sp_final (replicate 8 (replicate 32 0)) (foldl blake2sp_update S [[1], [2, 3]]) False 32) =
      trees 32 Ss R (concat [[1], [2, 3]])"
    by (rule blake2sp_stream_is_tree [OF _ _ start]) (simp_all add: S)
  with S start show ?thesis by simp
qed

end
