(* ===== verification/Blake2sSSE.thy ===== *)
theory Blake2sSSE
  imports Blake2s
begin

text \<open>
  BLAKE2s with SSE2 (\<open>blake2/sse/blake2s.c\<close>, \<open>blake2s-round.h\<close>, \<open>blake2s-load-sse2.h\<close>). A vector
  register is its four 32 bit lanes, the lowest first; the intrinsics act on the lanes as the
  instruction set defines them. The functions around the compression are those of this source
  file, on the same state and parameter block. Proved equal to the reference implementation, but
  for one thing: the final step copies the bytes of the state's length, the reference those the
  caller asks for.
\<close>

section \<open>Vector registers\<close>

type_synonym m128s = "u32 \<times> u32 \<times> u32 \<times> u32"

definition mm_set_epi32 :: "u32 \<Rightarrow> u32 \<Rightarrow> u32 \<Rightarrow> u32 \<Rightarrow> m128s" where
  "mm_set_epi32 e3 e2 e1 e0 = (e0, e1, e2, e3)"

definition mm_add_epi32 :: "m128s \<Rightarrow> m128s \<Rightarrow> m128s" where
  "mm_add_epi32 = (\<lambda>(a0, a1, a2, a3) (b0, b1, b2, b3). (a0 + b0, a1 + b1, a2 + b2, a3 + b3))"

definition mm_xor_epi32 :: "m128s \<Rightarrow> m128s \<Rightarrow> m128s" where
  "mm_xor_epi32 = (\<lambda>(a0, a1, a2, a3) (b0, b1, b2, b3). (a0 XOR b0, a1 XOR b1, a2 XOR b2, a3 XOR b3))"

definition mm_srli_epi32 :: "m128s \<Rightarrow> nat \<Rightarrow> m128s" where
  "mm_srli_epi32 = (\<lambda>(a0, a1, a2, a3) n. (drop_bit n a0, drop_bit n a1, drop_bit n a2, drop_bit n a3))"

definition mm_slli_epi32 :: "m128s \<Rightarrow> nat \<Rightarrow> m128s" where
  "mm_slli_epi32 = (\<lambda>(a0, a1, a2, a3) n. (push_bit n a0, push_bit n a1, push_bit n a2, push_bit n a3))"

definition MM_SHUFFLE :: "nat \<Rightarrow> nat \<Rightarrow> nat \<Rightarrow> nat \<Rightarrow> nat" where
  "MM_SHUFFLE z y x w = 64 * z + 16 * y + 4 * x + w"

text \<open>Each lane of the result is the lane of the register that two bits of the number name.\<close>

definition lane32 :: "m128s \<Rightarrow> nat \<Rightarrow> u32" where
  "lane32 = (\<lambda>(a0, a1, a2, a3) i. if i = 0 then a0 else if i = 1 then a1 else if i = 2 then a2 else a3)"

definition mm_shuffle_epi32 :: "m128s \<Rightarrow> nat \<Rightarrow> m128s" where
  "mm_shuffle_epi32 r imm =
     (lane32 r (imm mod 4), lane32 r (imm div 4 mod 4), lane32 r (imm div 16 mod 4), lane32 r (imm div 64 mod 4))"

text \<open>\<open>LOADU\<close> and \<open>STOREU\<close> on four adjacent words of an array.\<close>

definition LOADU_s :: "u32 list \<Rightarrow> m128s" where
  "LOADU_s p = (p ! 0, p ! 1, p ! 2, p ! 3)"

definition STOREU_s :: "u32 list \<Rightarrow> nat \<Rightarrow> m128s \<Rightarrow> u32 list" where
  "STOREU_s a i = (\<lambda>(r0, r1, r2, r3). a[i := r0, i + 1 := r1, i + 2 := r2, i + 3 := r3])"

lemmas mms_defs = mm_set_epi32_def mm_add_epi32_def mm_xor_epi32_def mm_srli_epi32_def mm_slli_epi32_def

section \<open>The round\<close>

definition mm_roti_epi32 :: "m128s \<Rightarrow> int \<Rightarrow> m128s" where
  "mm_roti_epi32 r c =
     mm_xor_epi32 (mm_srli_epi32 r (nat (- c))) (mm_slli_epi32 r (32 - nat (- c)))"

record sse_rows_s =
  row1 :: m128s
  row2 :: m128s
  row3 :: m128s
  row4 :: m128s

definition sse_G1_s :: "m128s \<Rightarrow> sse_rows_s \<Rightarrow> sse_rows_s" where
  "sse_G1_s buf R =
     (let R = R\<lparr>row1 := mm_add_epi32 (mm_add_epi32 (row1 R) buf) (row2 R)\<rparr>;
          R = R\<lparr>row4 := mm_xor_epi32 (row4 R) (row1 R)\<rparr>;
          R = R\<lparr>row4 := mm_roti_epi32 (row4 R) (-16)\<rparr>;
          R = R\<lparr>row3 := mm_add_epi32 (row3 R) (row4 R)\<rparr>;
          R = R\<lparr>row2 := mm_xor_epi32 (row2 R) (row3 R)\<rparr>
      in R\<lparr>row2 := mm_roti_epi32 (row2 R) (-12)\<rparr>)"

definition sse_G2_s :: "m128s \<Rightarrow> sse_rows_s \<Rightarrow> sse_rows_s" where
  "sse_G2_s buf R =
     (let R = R\<lparr>row1 := mm_add_epi32 (mm_add_epi32 (row1 R) buf) (row2 R)\<rparr>;
          R = R\<lparr>row4 := mm_xor_epi32 (row4 R) (row1 R)\<rparr>;
          R = R\<lparr>row4 := mm_roti_epi32 (row4 R) (-8)\<rparr>;
          R = R\<lparr>row3 := mm_add_epi32 (row3 R) (row4 R)\<rparr>;
          R = R\<lparr>row2 := mm_xor_epi32 (row2 R) (row3 R)\<rparr>
      in R\<lparr>row2 := mm_roti_epi32 (row2 R) (-7)\<rparr>)"

definition DIAGONALIZE_s :: "sse_rows_s \<Rightarrow> sse_rows_s" where
  "DIAGONALIZE_s R =
     (let R = R\<lparr>row4 := mm_shuffle_epi32 (row4 R) (MM_SHUFFLE 2 1 0 3)\<rparr>;
          R = R\<lparr>row3 := mm_shuffle_epi32 (row3 R) (MM_SHUFFLE 1 0 3 2)\<rparr>
      in R\<lparr>row2 := mm_shuffle_epi32 (row2 R) (MM_SHUFFLE 0 3 2 1)\<rparr>)"

definition UNDIAGONALIZE_s :: "sse_rows_s \<Rightarrow> sse_rows_s" where
  "UNDIAGONALIZE_s R =
     (let R = R\<lparr>row4 := mm_shuffle_epi32 (row4 R) (MM_SHUFFLE 0 3 2 1)\<rparr>;
          R = R\<lparr>row3 := mm_shuffle_epi32 (row3 R) (MM_SHUFFLE 1 0 3 2)\<rparr>
      in R\<lparr>row2 := mm_shuffle_epi32 (row2 R) (MM_SHUFFLE 2 1 0 3)\<rparr>)"

text \<open>The macros \<open>LOAD_MSG_r_k\<close>: the four message words each of them names, in its order.\<close>

definition LOAD_MSG_words_s :: "(nat \<times> nat \<times> nat \<times> nat) list list" where
  "LOAD_MSG_words_s =
    [[(6, 4, 2, 0), (7, 5, 3, 1), (14, 12, 10, 8), (15, 13, 11, 9)],
     [(13, 9, 4, 14), (6, 15, 8, 10), (5, 11, 0, 1), (3, 7, 2, 12)],
     [(15, 5, 12, 11), (13, 2, 0, 8), (9, 7, 3, 10), (4, 1, 6, 14)],
     [(11, 13, 3, 7), (14, 12, 1, 9), (15, 4, 5, 2), (8, 0, 10, 6)],
     [(10, 2, 5, 9), (15, 4, 7, 0), (3, 6, 11, 14), (13, 8, 12, 1)],
     [(8, 0, 6, 2), (3, 11, 10, 12), (1, 15, 7, 4), (9, 14, 5, 13)],
     [(4, 14, 1, 12), (10, 13, 15, 5), (8, 9, 6, 0), (11, 2, 3, 7)],
     [(3, 12, 7, 13), (9, 1, 14, 11), (2, 8, 15, 5), (10, 6, 4, 0)],
     [(0, 11, 14, 6), (8, 3, 9, 15), (10, 1, 13, 12), (5, 4, 7, 2)],
     [(1, 7, 8, 10), (5, 6, 4, 2), (13, 3, 9, 15), (0, 12, 14, 11)]]"

definition LOAD_MSG_s :: "u32 list \<Rightarrow> nat \<Rightarrow> nat \<Rightarrow> m128s" where
  "LOAD_MSG_s m r k = (case LOAD_MSG_words_s ! r ! (k - 1) of
     (a, b, c, d) \<Rightarrow> mm_set_epi32 (m ! a) (m ! b) (m ! c) (m ! d))"

definition sse_ROUND_s :: "u32 list \<Rightarrow> nat \<Rightarrow> sse_rows_s \<Rightarrow> sse_rows_s" where
  "sse_ROUND_s m r R =
     (let R = sse_G1_s (LOAD_MSG_s m r 1) R;
          R = sse_G2_s (LOAD_MSG_s m r 2) R;
          R = DIAGONALIZE_s R;
          R = sse_G1_s (LOAD_MSG_s m r 3) R;
          R = sse_G2_s (LOAD_MSG_s m r 4) R
      in UNDIAGONALIZE_s R)"

section \<open>The functions of the file\<close>

text \<open>The counters and the flags are adjacent in the state; one load takes both.\<close>

definition sse_blake2s_compress :: "blake2s_state \<Rightarrow> bytes \<Rightarrow> blake2s_state" where
  "sse_blake2s_compress S block =
     (let m = map (\<lambda>i. load32 (drop (i * 4) block)) [0..<16];
          ff0 = LOADU_s (drop 0 (b2s_h S));
          ff1 = LOADU_s (drop 4 (b2s_h S));
          R = \<lparr>row1 = ff0, row2 = ff1, row3 = LOADU_s (drop 0 blake2s_IV),
               row4 = mm_xor_epi32 (LOADU_s (drop 4 blake2s_IV)) (LOADU_s (b2s_t S @ b2s_f S))\<rparr>;
          R = fold (sse_ROUND_s m) [0..<10] R;
          h = STOREU_s (b2s_h S) 0 (mm_xor_epi32 ff0 (mm_xor_epi32 (row1 R) (row3 R)));
          h = STOREU_s h 4 (mm_xor_epi32 ff1 (mm_xor_epi32 (row2 R) (row4 R)))
      in S\<lparr>b2s_h := h\<rparr>)"

text \<open>The counter is put together from its halves, and taken apart again.\<close>

definition sse_blake2s_increment_counter :: "blake2s_state \<Rightarrow> u32 \<Rightarrow> blake2s_state" where
  "sse_blake2s_increment_counter S inc =
     (let t = push_bit 32 (ucast (b2s_t S ! 1) :: u64) OR ucast (b2s_t S ! 0);
          t = t + ucast inc
      in S\<lparr>b2s_t := (b2s_t S)[0 := ucast (drop_bit 0 t), 1 := ucast (drop_bit 32 t)]\<rparr>)"

definition sse_blake2s_set_lastblock :: "blake2s_state \<Rightarrow> blake2s_state" where
  "sse_blake2s_set_lastblock S =
     (let S = (if b2s_last_node S \<noteq> 0 then S\<lparr>b2s_f := (b2s_f S)[1 := -1]\<rparr> else S)
      in S\<lparr>b2s_f := (b2s_f S)[0 := -1]\<rparr>)"

text \<open>The bytes of the word array \<open>h\<close>, and a word array read from bytes (little endian).\<close>

definition words_mem_s :: "u32 list \<Rightarrow> bytes" where
  "words_mem_s h = concat (map (le_bytes 4) h)"

definition mem_words_s :: "bytes \<Rightarrow> u32 list" where
  "mem_words_s p = map (\<lambda>i. le_word (take 4 (drop (4 * i) p))) [0..<8]"

definition sse_blake2s_init_param :: "blake2s_param \<Rightarrow> blake2s_state option" where
  "sse_blake2s_init_param P =
     (let v = words_mem_s blake2s_IV;
          p = blake2s_param_bytes P;
          S = \<lparr>b2s_h = replicate 8 0, b2s_t = [0, 0], b2s_f = [0, 0],
               b2s_buf = replicate BLAKE2S_BLOCKBYTES 0, b2s_buflen = 0, b2s_outlen = 0,
               b2s_last_node = 0\<rparr>;
          h = map (\<lambda>i. v ! i XOR p ! i) [0..<BLAKE2S_OUTBYTES]
      in Some (S\<lparr>b2s_h := mem_words_s h, b2s_outlen := unat (p2s_digest_length P)\<rparr>))"

function sse_blake2s_blocks :: "blake2s_state \<Rightarrow> bytes \<Rightarrow> blake2s_state \<times> bytes" where
  "sse_blake2s_blocks S inp =
     (if BLAKE2S_BLOCKBYTES < length inp
      then sse_blake2s_blocks
             (sse_blake2s_compress (sse_blake2s_increment_counter S (of_nat BLAKE2S_BLOCKBYTES))
               (take BLAKE2S_BLOCKBYTES inp))
             (drop BLAKE2S_BLOCKBYTES inp)
      else (S, inp))"
  by pat_completeness auto
termination
  by (relation "measure (\<lambda>(S, inp). length inp)") auto

declare sse_blake2s_blocks.simps [simp del]

definition sse_blake2s_update :: "blake2s_state \<Rightarrow> bytes \<Rightarrow> blake2s_state" where
  "sse_blake2s_update S inp =
     (if 0 < length inp then
        (let left = b2s_buflen S;
             fill = BLAKE2S_BLOCKBYTES - left;
             (S, inp) =
               (if fill < length inp then
                  (let S = S\<lparr>b2s_buflen := 0, b2s_buf := memcpy (b2s_buf S) left (take fill inp)\<rparr>;
                       S = sse_blake2s_increment_counter S (of_nat BLAKE2S_BLOCKBYTES);
                       S = sse_blake2s_compress S (b2s_buf S)
                   in sse_blake2s_blocks S (drop fill inp))
                else (S, inp))
         in S\<lparr>b2s_buf := memcpy (b2s_buf S) (b2s_buflen S) inp,
              b2s_buflen := b2s_buflen S + length inp\<rparr>)
      else S)"

definition sse_blake2s_final :: "blake2s_state \<Rightarrow> bool \<Rightarrow> nat \<Rightarrow> (blake2s_state \<times> bytes) option" where
  "sse_blake2s_final S out_null outlen =
     (if out_null \<or> outlen < b2s_outlen S then None
      else if b2s_f S ! 0 \<noteq> 0 then None
      else
        (let S = sse_blake2s_increment_counter S (of_nat (b2s_buflen S));
             S = sse_blake2s_set_lastblock S;
             S = S\<lparr>b2s_buf := memcpy (b2s_buf S) (b2s_buflen S)
                    (replicate (BLAKE2S_BLOCKBYTES - b2s_buflen S) 0)\<rparr>;
             S = sse_blake2s_compress S (b2s_buf S);
             buffer = concat (map (\<lambda>i. store32 (b2s_h S ! i)) [0..<8])
         in Some (S, take (b2s_outlen S) buffer)))"

definition sse_blake2s_init :: "nat \<Rightarrow> blake2s_state option" where
  "sse_blake2s_init outlen =
     (if outlen = 0 \<or> BLAKE2S_OUTBYTES < outlen then None
      else sse_blake2s_init_param (blake2s_seq_param outlen 0))"

definition sse_blake2s_init_key :: "nat \<Rightarrow> bytes option \<Rightarrow> nat \<Rightarrow> blake2s_state option" where
  "sse_blake2s_init_key outlen key keylen =
     (if outlen = 0 \<or> BLAKE2S_OUTBYTES < outlen then None
      else case key of
        None \<Rightarrow> None
      | Some k \<Rightarrow>
          if keylen = 0 \<or> BLAKE2S_KEYBYTES < keylen then None
          else (case sse_blake2s_init_param (blake2s_seq_param outlen keylen) of
                  None \<Rightarrow> None
                | Some S \<Rightarrow>
                    let block = memcpy (replicate BLAKE2S_BLOCKBYTES 0) 0 (take keylen k)
                    in Some (sse_blake2s_update S block)))"

definition sse_blake2s :: "bool \<Rightarrow> nat \<Rightarrow> bytes option \<Rightarrow> nat \<Rightarrow> bytes option \<Rightarrow> nat \<Rightarrow> bytes option" where
  "sse_blake2s out_null outlen inp inlen key keylen =
     (if inp = None \<and> 0 < inlen then None
      else if out_null then None
      else if key = None \<and> 0 < keylen then None
      else if outlen = 0 \<or> BLAKE2S_OUTBYTES < outlen then None
      else if BLAKE2S_KEYBYTES < keylen then None
      else case (if 0 < keylen then sse_blake2s_init_key outlen key keylen else sse_blake2s_init outlen) of
             None \<Rightarrow> None
           | Some S \<Rightarrow>
               let S = sse_blake2s_update S (case inp of None \<Rightarrow> [] | Some i \<Rightarrow> take inlen i)
               in (case sse_blake2s_final S out_null outlen of
                     None \<Rightarrow> Some []
                   | Some (S', digest) \<Rightarrow> Some digest))"

section \<open>One round\<close>

lemma roti_rotr_s:
  assumes "0 < c" "c < 32"
  shows "mm_roti_epi32 (a0, a1, a2, a3) (- int c) = (word_rotr c a0, word_rotr c a1, word_rotr c a2, word_rotr c a3)"
proof -
  have "drop_bit c w XOR push_bit (32 - c) w = rotr32 w c" for w :: u32
    unfolding rotr32_def
    by (rule bit_word_eqI)
      (use assms in \<open>auto simp: bit_or_iff bit_xor_iff bit_drop_bit_eq bit_push_bit_iff dest: bit_imp_le_length\<close>)
  with assms show ?thesis
    by (simp add: mm_roti_epi32_def mms_defs rotr32_word_rotr)
qed

lemmas roti_numerals_s = roti_rotr_s [of 16, simplified] roti_rotr_s [of 12, simplified]
  roti_rotr_s [of 8, simplified] roti_rotr_s [of 7, simplified]

lemma shuffles:
  "mm_shuffle_epi32 (a0, a1, a2, a3) (MM_SHUFFLE 2 1 0 3) = (a3, a0, a1, a2)"
  "mm_shuffle_epi32 (a0, a1, a2, a3) (MM_SHUFFLE 1 0 3 2) = (a2, a3, a0, a1)"
  "mm_shuffle_epi32 (a0, a1, a2, a3) (MM_SHUFFLE 0 3 2 1) = (a1, a2, a3, a0)"
  by (simp_all add: mm_shuffle_epi32_def MM_SHUFFLE_def lane32_def)

lemmas shuffles_simp = shuffles [simplified One_nat_def]

text \<open>The rows of a working vector.\<close>

definition rows_of_s :: "u32 list \<Rightarrow> sse_rows_s" where
  "rows_of_s v = \<lparr>row1 = (v ! 0, v ! 1, v ! 2, v ! 3), row2 = (v ! 4, v ! 5, v ! 6, v ! 7),
     row3 = (v ! 8, v ! 9, v ! 10, v ! 11), row4 = (v ! 12, v ! 13, v ! 14, v ! 15)\<rparr>"

lemma mixs_sse: "mixs x y (a, b, c, d) =
  (let a = a + x + b; d = word_rotr 16 (d XOR a);
       c = c + d; b = word_rotr 12 (b XOR c);
       a = a + y + b; d = word_rotr 8 (d XOR a);
       c = c + d; b = word_rotr 7 (b XOR c)
   in (a, b, c, d))"
proof -
  have comm: "p + q + r = p + r + q" for p q r :: u32 by simp
  show ?thesis
    unfolding mixs_def prod.case comm [of a x b] Let_def
    by (simp only: comm [of _ y])
qed

text \<open>The two halves of a step mix the four columns of the rows.\<close>

lemma sse_G_mix_s:
  "sse_G2_s (y0, y1, y2, y3) (sse_G1_s (x0, x1, x2, x3)
     \<lparr>row1 = (a0, a1, a2, a3), row2 = (b0, b1, b2, b3), row3 = (c0, c1, c2, c3), row4 = (d0, d1, d2, d3)\<rparr>) =
   (let (a0, b0, c0, d0) = mixs x0 y0 (a0, b0, c0, d0);
        (a1, b1, c1, d1) = mixs x1 y1 (a1, b1, c1, d1);
        (a2, b2, c2, d2) = mixs x2 y2 (a2, b2, c2, d2);
        (a3, b3, c3, d3) = mixs x3 y3 (a3, b3, c3, d3)
    in \<lparr>row1 = (a0, a1, a2, a3), row2 = (b0, b1, b2, b3), row3 = (c0, c1, c2, c3), row4 = (d0, d1, d2, d3)\<rparr>)"
  by (simp add: sse_G1_s_def sse_G2_s_def mms_defs roti_numerals_s mixs_sse Let_def)

lemma LOAD_MSG_sigma_s:
  assumes "r < 10"
  shows "LOAD_MSG_s m r 1 = (m ! (blake2s_sigma ! r ! 0), m ! (blake2s_sigma ! r ! 2),
      m ! (blake2s_sigma ! r ! 4), m ! (blake2s_sigma ! r ! 6))"
    "LOAD_MSG_s m r 2 = (m ! (blake2s_sigma ! r ! 1), m ! (blake2s_sigma ! r ! 3),
      m ! (blake2s_sigma ! r ! 5), m ! (blake2s_sigma ! r ! 7))"
    "LOAD_MSG_s m r 3 = (m ! (blake2s_sigma ! r ! 8), m ! (blake2s_sigma ! r ! 10),
      m ! (blake2s_sigma ! r ! 12), m ! (blake2s_sigma ! r ! 14))"
    "LOAD_MSG_s m r 4 = (m ! (blake2s_sigma ! r ! 9), m ! (blake2s_sigma ! r ! 11),
      m ! (blake2s_sigma ! r ! 13), m ! (blake2s_sigma ! r ! 15))"
proof -
  have table: "LOAD_MSG_words_s = map (\<lambda>s. [(s ! 6, s ! 4, s ! 2, s ! 0), (s ! 7, s ! 5, s ! 3, s ! 1),
      (s ! 14, s ! 12, s ! 10, s ! 8), (s ! 15, s ! 13, s ! 11, s ! 9)]) blake2s_sigma"
    by (simp add: LOAD_MSG_words_s_def blake2s_sigma_def)
  have len: "length blake2s_sigma = 10" by (simp add: blake2s_sigma_def)
  with assms show "LOAD_MSG_s m r 1 = (m ! (blake2s_sigma ! r ! 0), m ! (blake2s_sigma ! r ! 2),
      m ! (blake2s_sigma ! r ! 4), m ! (blake2s_sigma ! r ! 6))"
    "LOAD_MSG_s m r 2 = (m ! (blake2s_sigma ! r ! 1), m ! (blake2s_sigma ! r ! 3),
      m ! (blake2s_sigma ! r ! 5), m ! (blake2s_sigma ! r ! 7))"
    "LOAD_MSG_s m r 3 = (m ! (blake2s_sigma ! r ! 8), m ! (blake2s_sigma ! r ! 10),
      m ! (blake2s_sigma ! r ! 12), m ! (blake2s_sigma ! r ! 14))"
    "LOAD_MSG_s m r 4 = (m ! (blake2s_sigma ! r ! 9), m ! (blake2s_sigma ! r ! 11),
      m ! (blake2s_sigma ! r ! 13), m ! (blake2s_sigma ! r ! 15))"
    by (simp_all add: LOAD_MSG_s_def table mm_set_epi32_def)
qed

lemma word_list_of_16:
  assumes "length v = 16"
  obtains v0 v1 v2 v3 v4 v5 v6 v7 v8 v9 v10 v11 v12 v13 v14 v15
  where "v = [v0, v1, v2, v3, v4, v5, v6, v7, v8, v9, v10, v11, v12, v13, v14, v15]"
  using assms by (auto simp: numeral_eq_Suc length_Suc_conv)

lemma sse_ROUND_rows_s:
  assumes "length v = 16" and "r < 10"
  shows "sse_ROUND_s m r (rows_of_s v) = rows_of_s (rfcs_round m (blake2s_sigma ! r) v)"
proof -
  obtain v0 v1 v2 v3 v4 v5 v6 v7 v8 v9 v10 v11 v12 v13 v14 v15
    where v: "v = [v0, v1, v2, v3, v4, v5, v6, v7, v8, v9, v10, v11, v12, v13, v14, v15]"
    using word_list_of_16 [OF assms(1)] .
  show ?thesis
    unfolding sse_ROUND_s_def LOAD_MSG_sigma_s [OF assms(2)] v
    by (simp add: rows_of_s_def sse_G_mix_s rfcs_round_def mixs_at_def DIAGONALIZE_s_def UNDIAGONALIZE_s_def
        shuffles_simp Let_def split_beta)
qed

lemma sse_rounds_rows_s:
  "length v = 16 \<Longrightarrow> set rs \<subseteq> {..<10} \<Longrightarrow>
     fold (sse_ROUND_s m) rs (rows_of_s v) = rows_of_s (fold (blake2s_ROUND m) rs v) \<and>
     length (fold (blake2s_ROUND m) rs v) = 16"
  by (induction rs arbitrary: v) (simp_all add: sse_ROUND_rows_s blake2s_ROUND_rfc)

section \<open>Every function equals the reference\<close>

lemma sse_compress_eq_s:
  assumes "length (b2s_h S) = 8" and "length (b2s_t S) = 2" and "length (b2s_f S) = 2"
  shows "sse_blake2s_compress S b = blake2s_compress S b"
proof -
  let ?m = "map (\<lambda>i. load32 (drop (i * 4) b)) [0..<16]"
  obtain h0 h1 h2 h3 h4 h5 h6 h7 where h: "b2s_h S = [h0, h1, h2, h3, h4, h5, h6, h7]"
    using list_of_8 [OF assms(1)] by blast
  obtain t0 t1 f0 f1 where tf: "b2s_t S = [t0, t1]" "b2s_f S = [f0, f1]"
    using assms(2,3) by (auto simp: numeral_eq_Suc length_Suc_conv)
  define v where "v = [h0, h1, h2, h3, h4, h5, h6, h7, blake2s_IV ! 0, blake2s_IV ! 1, blake2s_IV ! 2,
    blake2s_IV ! 3, t0 XOR blake2s_IV ! 4, t1 XOR blake2s_IV ! 5, f0 XOR blake2s_IV ! 6, f1 XOR blake2s_IV ! 7]"
  have "length v = 16" by (simp add: v_def)
  moreover have "set [0..<10] \<subseteq> {..<10::nat}" by auto
  ultimately have rounds: "fold (sse_ROUND_s ?m) [0..<10] (rows_of_s v) = rows_of_s (fold (blake2s_ROUND ?m) [0..<10] v)"
    and len: "length (fold (blake2s_ROUND ?m) [0..<10] v) = 16"
    using sse_rounds_rows_s by blast+
  obtain w0 w1 w2 w3 w4 w5 w6 w7 w8 w9 w10 w11 w12 w13 w14 w15
    where w: "fold (blake2s_ROUND ?m) [0..<10] v = [w0, w1, w2, w3, w4, w5, w6, w7, w8, w9, w10, w11, w12, w13, w14, w15]"
    using word_list_of_16 [OF len] .
  have rows: "\<lparr>row1 = LOADU_s (drop 0 (b2s_h S)), row2 = LOADU_s (drop 4 (b2s_h S)), row3 = LOADU_s (drop 0 blake2s_IV),
      row4 = mm_xor_epi32 (LOADU_s (drop 4 blake2s_IV)) (LOADU_s (b2s_t S @ b2s_f S))\<rparr> = rows_of_s v"
    by (simp add: h tf v_def rows_of_s_def LOADU_s_def mms_defs blake2s_IV_def xor.commute)
  have init: "map (\<lambda>i. b2s_h S ! i) [0..<8] @
      [blake2s_IV ! 0, blake2s_IV ! 1, blake2s_IV ! 2, blake2s_IV ! 3,
       b2s_t S ! 0 XOR blake2s_IV ! 4, b2s_t S ! 1 XOR blake2s_IV ! 5,
       b2s_f S ! 0 XOR blake2s_IV ! 6, b2s_f S ! 1 XOR blake2s_IV ! 7] = v"
  proof -
    have "map (\<lambda>i. b2s_h S ! i) [0..<8] = b2s_h S"
      using map_nth [of "b2s_h S"] assms(1) by simp
    then show ?thesis by (simp only: h tf v_def) simp
  qed
  show ?thesis
    unfolding sse_blake2s_compress_def blake2s_compress_def Let_def rows rounds init w
    by (simp add: rows_of_s_def h LOADU_s_def STOREU_s_def mms_defs upt_rec numeral_eq_Suc xor.assoc xor.commute
        xor.left_commute)
qed

text \<open>The carry of the counter: adding the halves, or the whole.\<close>

lemma ucast_down_of_nat: "(ucast (of_nat k :: u64) :: u32) = of_nat k"
  by (rule word_unat_eq_iff [THEN iffD2]) (simp add: unsigned_ucast_eq take_bit_eq_mod unat_of_nat mod_mod_cancel)

lemma counter_halves:
  fixes a b n :: u32
  defines "t \<equiv> (push_bit 32 (ucast b :: u64) OR ucast a) + ucast n"
  shows "(ucast t :: u32) = a + n" "(ucast (drop_bit 32 t) :: u32) = b + (if a + n < n then 1 else 0)"
proof -
  have or: "push_bit 32 (ucast b :: u64) OR ucast a = push_bit 32 (ucast b) + ucast a"
    by (rule disjunctive_add [symmetric]) (auto simp: bit_push_bit_iff bit_ucast_iff dest: bit_imp_le_length)
  let ?k = "unat a + 2 ^ 32 * unat b"
  have shift: "push_bit 32 (ucast b :: u64) = of_nat (2 ^ 32 * unat b)"
    by (simp add: push_bit_eq_mult mult.commute)
  have t: "t = of_nat (?k + unat n)"
    unfolding t_def or unfolding shift by simp
  have low: "(of_nat ?k :: u32) = a"
  proof -
    have "(of_nat (2 ^ 32) :: u32) = 0" by simp
    then have "(of_nat (2 ^ 32 * unat b) :: u32) = 0" by (simp only: of_nat_mult) simp
    then show ?thesis by (simp only: of_nat_add) simp
  qed
  have high: "?k div 2 ^ 32 = unat b"
    using unsigned_less [where 'a = nat, of a] by simp
  have "(ucast t :: u32) = of_nat (?k + unat n)"
    unfolding t by (rule ucast_down_of_nat)
  also have "\<dots> = a + n" using low by (simp only: of_nat_add) simp
  finally show "(ucast t :: u32) = a + n" .
  have "(ucast (drop_bit 32 t) :: u32) = of_nat (unat t div 2 ^ 32)"
  proof -
    have u: "unat (drop_bit 32 t) = unat t div 2 ^ 32" by (simp only: unat_drop_bit_eq drop_bit_eq_div [of 32 "unat t"])
    have "(ucast (drop_bit 32 t) :: u32) = of_nat (unat (drop_bit 32 t))" by simp
    then show ?thesis unfolding u .
  qed
  also have "unat t div 2 ^ 32 = (?k + unat n) div 2 ^ 32 mod 2 ^ 32"
  proof -
    have "unat t = (?k + unat n) mod (2 ^ 32 * 2 ^ 32)" unfolding t unat_of_nat by simp
    then show ?thesis by (simp only: mod_mult2_eq) simp
  qed
  also have "(of_nat ((?k + unat n) div 2 ^ 32 mod 2 ^ 32) :: u32) = of_nat ((?k + unat n) div 2 ^ 32)"
    by (rule word_unat_eq_iff [THEN iffD2]) (simp add: unat_of_nat)
  also have "\<dots> = of_nat (?k div 2 ^ 32) + (if of_nat ?k + of_nat (unat n) < (of_nat (unat n) :: u32) then 1 else 0)"
    using counter_carry [where 'a = 32, of "unat n" ?k] unsigned_less [where 'a = nat, of n] by simp
  also have "\<dots> = b + (if a + n < n then 1 else 0)"
    unfolding low high by simp
  finally show "(ucast (drop_bit 32 t) :: u32) = b + (if a + n < n then 1 else 0)" .
qed

lemma sse_increment_eq_s:
  assumes "length (b2s_t S) = 2"
  shows "sse_blake2s_increment_counter S inc = blake2s_increment_counter S inc"
  unfolding sse_blake2s_increment_counter_def blake2s_increment_counter_def Let_def drop_bit_0 id_apply counter_halves ..

lemma sse_lastblock_eq_s: "sse_blake2s_set_lastblock = blake2s_set_lastblock"
  by (simp add: fun_eq_iff sse_blake2s_set_lastblock_def blake2s_set_lastblock_def blake2s_set_lastnode_def)

lemma blake2s_ok_step [simp]:
  "blake2s_ok S \<Longrightarrow> blake2s_ok (blake2s_increment_counter S n)"
  "blake2s_ok S \<Longrightarrow> blake2s_ok (blake2s_compress S b)"
  by (simp_all add: blake2s_ok_def)

lemma sse_steps_ok:
  "blake2s_ok S \<Longrightarrow> sse_blake2s_compress S b = blake2s_compress S b"
  "blake2s_ok S \<Longrightarrow> sse_blake2s_increment_counter S n = blake2s_increment_counter S n"
  by (simp_all add: sse_compress_eq_s sse_increment_eq_s blake2s_ok_def)

lemma sse_blocks_eq_s: "blake2s_ok S \<Longrightarrow> sse_blake2s_blocks S inp = blake2s_blocks S inp"
proof (induction S inp rule: blake2s_blocks.induct)
  case (1 S inp)
  show ?case
  proof (cases "BLAKE2S_BLOCKBYTES < length inp")
    case True
    with 1 show ?thesis
      by (subst sse_blake2s_blocks.simps, subst blake2s_blocks.simps) (simp add: sse_steps_ok)
  next
    case False
    then show ?thesis by (subst sse_blake2s_blocks.simps, subst blake2s_blocks.simps) simp
  qed
qed

lemma sse_update_eq_s:
  assumes "blake2s_ok S"
  shows "sse_blake2s_update S x = blake2s_update S x"
proof (cases "64 - b2s_buflen S < length x")
  case True
  let ?S = "S\<lparr>b2s_buflen := 0, b2s_buf := memcpy (b2s_buf S) (b2s_buflen S) (take (64 - b2s_buflen S) x)\<rparr>"
  have "blake2s_ok ?S" using assms True by (simp add: blake2s_ok_def)
  with True show ?thesis
    by (simp add: sse_blake2s_update_def blake2s_update_def Let_def sse_steps_ok sse_blocks_eq_s split_beta)
next
  case False
  then show ?thesis by (simp add: sse_blake2s_update_def blake2s_update_def Let_def)
qed

text \<open>The final steps agree when the caller asks for as many bytes as the state's digest has.\<close>

lemma sse_final_eq_s:
  assumes "blake2s_ok S" and "b2s_outlen S = n"
  shows "sse_blake2s_final S out_null n = blake2s_final S out_null n"
proof -
  have "sse_blake2s_compress (T\<lparr>b2s_buf := m\<rparr>) b = blake2s_compress (T\<lparr>b2s_buf := m\<rparr>) b"
    if "T = blake2s_set_lastblock (blake2s_increment_counter S k)" for T m b k
    using that assms by (intro sse_compress_eq_s) (simp_all add: blake2s_ok_def)
  with assms show ?thesis
    by (simp add: sse_blake2s_final_def blake2s_final_def blake2s_is_lastblock_def Let_def sse_lastblock_eq_s sse_steps_ok)
qed

lemma words_mem_word_s:
  "i < length h \<Longrightarrow> take 4 (drop (4 * i) (words_mem_s h)) = le_bytes 4 (h ! i)"
proof (induction h arbitrary: i)
  case (Cons w h)
  then show ?case by (cases i) (simp_all add: words_mem_s_def)
qed simp

lemma le_word_xor_s:
  "length a = length b \<Longrightarrow>
     le_word (map (\<lambda>(x, y). x XOR y) (zip a b)) = (le_word a XOR le_word b :: 'a::len word)"
  by (rule bit_word_eqI) (auto simp: bit_le_word bit_xor_iff)

lemma sse_init_param_eq_s:
  assumes "length (blake2s_param_bytes P) = 32"
  shows "sse_blake2s_init_param P = blake2s_init_param P"
proof -
  let ?v = "words_mem_s blake2s_IV" and ?p = "blake2s_param_bytes P"
  have v: "length ?v = 32" by (simp add: words_mem_s_def blake2s_IV_def)
  have xor: "map (\<lambda>i. ?v ! i XOR ?p ! i) [0..<32] = map (\<lambda>(x, y). x XOR y) (zip ?v ?p)"
    by (rule nth_equalityI) (use assms v in auto)
  have "mem_words_s (map (\<lambda>i. ?v ! i XOR ?p ! i) [0..<32]) =
      map (\<lambda>i. blake2s_IV ! i XOR load32 (drop (4 * i) ?p)) [0..<8]"
  proof (rule nth_equalityI)
    fix i assume "i < length (mem_words_s (map (\<lambda>i. ?v ! i XOR ?p ! i) [0..<32]))"
    then have i: "i < 8" by (simp add: mem_words_s_def)
    have "take 4 (drop (4 * i) ?v) = le_bytes 4 (blake2s_IV ! i)"
      using i by (intro words_mem_word_s) (simp add: blake2s_IV_def)
    then have "le_word (take 4 (drop (4 * i) ?v)) = blake2s_IV ! i"
      by (simp add: le_word_le_bytes)
    moreover have "le_word (take 4 (drop (4 * i) ?p)) = load32 (drop (4 * i) ?p)"
      using i assms by (simp add: load32_le)
    ultimately show "mem_words_s (map (\<lambda>i. ?v ! i XOR ?p ! i) [0..<32]) ! i =
        map (\<lambda>i. blake2s_IV ! i XOR load32 (drop (4 * i) ?p)) [0..<8] ! i"
      using i v assms
      by (simp add: mem_words_s_def xor take_map drop_map take_zip drop_zip le_word_xor_s)
  qed (simp add: mem_words_s_def)
  moreover have "replicate 8 0 = [0, 0, 0, 0, 0, 0, 0, 0 :: u32]" by (simp add: replicate_numeral_list)
  moreover have "map (\<lambda>i. map (\<lambda>i. blake2s_IV ! i) [0..<8] ! i XOR load32 (drop (4 * i) ?p)) [0..<8] =
      map (\<lambda>i. blake2s_IV ! i XOR load32 (drop (4 * i) ?p)) [0..<8]"
    by (rule nth_equalityI) auto
  ultimately show ?thesis
    by (simp only: sse_blake2s_init_param_def blake2s_init_param_def blake2s_init0_def Let_def
        blake2s_constants) simp
qed

lemma seq_param_length_s: "length (blake2s_param_bytes (blake2s_seq_param n k)) = 32"
  by (simp add: blake2s_param_bytes_def blake2s_seq_param_def store32_def store16_def)

lemma sse_init_eq_s: "sse_blake2s_init n = blake2s_init n"
  by (simp add: sse_blake2s_init_def blake2s_init_def sse_init_param_eq_s seq_param_length_s)

lemma sse_init_key_eq_s: "sse_blake2s_init_key n k l = blake2s_init_key n k l"
  by (auto simp: sse_blake2s_init_key_def blake2s_init_key_def sse_init_param_eq_s seq_param_length_s Let_def
      sse_update_eq_s blake2s_init_param_ok split: option.split)

lemma init_outlen_s:
  "blake2s_init n = Some S \<Longrightarrow> b2s_outlen S = n"
  "blake2s_init_key n k l = Some S \<Longrightarrow> b2s_outlen S = n"
  by (auto simp: blake2s_init_def blake2s_init_key_def blake2s_init_param_def blake2s_seq_param_def Let_def
      unat_of_nat split: if_splits option.splits)

lemma outlen_foldl_s: "b2s_outlen (foldl blake2s_update S ds) = b2s_outlen S"
  by (induction ds arbitrary: S) simp_all

section \<open>The library\<close>

text \<open>C33: 
  The SSE2 library of BLAKE2s computes what the reference library computes on every call, the failing
  ones included. Its streams agree with those of the reference as well, up to the final step when that
  is asked for as many bytes as the state was made for.
\<close>

theorem sse_blake2s_is_reference:
  "sse_blake2s out_null outlen inp inlen key keylen = blake2s out_null outlen inp inlen key keylen \<and>
   sse_blake2s_init n = blake2s_init n \<and> sse_blake2s_init_key n key keylen = blake2s_init_key n key keylen \<and>
   (blake2s_ok S \<longrightarrow> sse_blake2s_update S msg = blake2s_update S msg \<and> blake2s_ok (blake2s_update S msg) \<and>
      sse_blake2s_final S out_null (b2s_outlen S) = blake2s_final S out_null (b2s_outlen S))"
proof (intro conjI impI)
  let ?start = "if 0 < keylen then blake2s_init_key outlen key keylen else blake2s_init outlen"
  show "sse_blake2s out_null outlen inp inlen key keylen = blake2s out_null outlen inp inlen key keylen"
  proof (cases ?start)
    case None
    show ?thesis unfolding sse_blake2s_def blake2s_def sse_init_eq_s sse_init_key_eq_s None option.case ..
  next
    case (Some S)
    then have "blake2s_ok S" "b2s_outlen S = outlen"
      by (auto dest: blake2s_init_ok blake2s_init_key_ok init_outlen_s split: if_splits)
    then have steps: "sse_blake2s_update S x = blake2s_update S x"
      "sse_blake2s_final (blake2s_update S x) out_null outlen = blake2s_final (blake2s_update S x) out_null outlen" for x
      by (simp_all add: sse_update_eq_s sse_final_eq_s b2s.update_ok)
    show ?thesis
      unfolding sse_blake2s_def blake2s_def sse_init_eq_s sse_init_key_eq_s Some option.case Let_def steps ..
  qed
qed (simp_all add: sse_init_eq_s sse_init_key_eq_s sse_update_eq_s sse_final_eq_s b2s.update_ok)

text \<open>A message in one call, and a state that a message of 70 bytes is put into.\<close>

theorem sse_blake2s_is_reference_witness:
  "sse_blake2s False 32 (Some [97, 98, 99]) 3 None 0 = blake2s False 32 (Some [97, 98, 99]) 3 None 0 \<and>
   sse_blake2s_update blake2s_init0 (replicate 70 1) = blake2s_update blake2s_init0 (replicate 70 1)"
proof -
  have ok: "blake2s_ok blake2s_init0" by (simp add: blake2s_ok_def blake2s_init0_def)
  from sse_blake2s_is_reference [of False 32 "Some [97, 98, 99]" 3 None 0 32 blake2s_init0 "replicate 70 1"] ok
  show ?thesis by blast
qed

end
