(* ===== verification/Blake2b.thy ===== *)
theory Blake2b
  imports Blake2Impl
begin

text \<open>
  Sequential BLAKE2b, reference implementation (\<open>blake2/ref/blake2b-ref.c\<close>, \<open>blake2.h\<close>):
  the state and parameter block, initialisation, compression, the buffered update and the final
  step. A function that returns \<open>-1\<close> is \<open>None\<close>; it has not touched its state then. A pointer
  that may be \<open>NULL\<close> is an option, an output pointer the flag \<open>out_null\<close>. The \<open>size_t\<close> lengths
  are natural numbers; the buffer invariant keeps the differences the code takes positive.
\<close>

section \<open>Constants and data\<close>

definition BLAKE2B_BLOCKBYTES :: nat where "BLAKE2B_BLOCKBYTES = 128"
definition BLAKE2B_OUTBYTES :: nat where "BLAKE2B_OUTBYTES = 64"
definition BLAKE2B_KEYBYTES :: nat where "BLAKE2B_KEYBYTES = 64"
definition BLAKE2B_SALTBYTES :: nat where "BLAKE2B_SALTBYTES = 16"
definition BLAKE2B_PERSONALBYTES :: nat where "BLAKE2B_PERSONALBYTES = 16"

lemmas blake2b_constants [simp] = BLAKE2B_BLOCKBYTES_def BLAKE2B_OUTBYTES_def
  BLAKE2B_KEYBYTES_def BLAKE2B_SALTBYTES_def BLAKE2B_PERSONALBYTES_def

record blake2b_state =
  b2b_h :: "u64 list"
  b2b_t :: "u64 list"
  b2b_f :: "u64 list"
  b2b_buf :: bytes
  b2b_buflen :: nat
  b2b_outlen :: nat
  b2b_last_node :: u8

record blake2b_param =
  p2b_digest_length :: u8
  p2b_key_length :: u8
  p2b_fanout :: u8
  p2b_depth :: u8
  p2b_leaf_length :: u32
  p2b_node_offset :: u32
  p2b_xof_length :: u32
  p2b_node_depth :: u8
  p2b_inner_length :: u8
  p2b_reserved :: bytes
  p2b_salt :: bytes
  p2b_personal :: bytes

text \<open>The packed bytes of the parameter block, on the little endian machine \<open>store32\<close> writes for.\<close>

definition blake2b_param_bytes :: "blake2b_param \<Rightarrow> bytes" where
  "blake2b_param_bytes P =
     [p2b_digest_length P, p2b_key_length P, p2b_fanout P, p2b_depth P] @
     store32 (p2b_leaf_length P) @ store32 (p2b_node_offset P) @ store32 (p2b_xof_length P) @
     [p2b_node_depth P, p2b_inner_length P] @ p2b_reserved P @ p2b_salt P @ p2b_personal P"

definition blake2b_IV :: "u64 list" where
  "blake2b_IV =
    [0x6a09e667f3bcc908, 0xbb67ae8584caa73b,
     0x3c6ef372fe94f82b, 0xa54ff53a5f1d36f1,
     0x510e527fade682d1, 0x9b05688c2b3e6c1f,
     0x1f83d9abfb41bd6b, 0x5be0cd19137e2179]"

definition blake2b_sigma :: "nat list list" where
  "blake2b_sigma =
    [[0, 1, 2, 3, 4, 5, 6, 7, 8, 9, 10, 11, 12, 13, 14, 15],
     [14, 10, 4, 8, 9, 15, 13, 6, 1, 12, 0, 2, 11, 7, 5, 3],
     [11, 8, 12, 0, 5, 2, 15, 13, 10, 14, 3, 6, 7, 1, 9, 4],
     [7, 9, 3, 1, 13, 12, 11, 14, 2, 6, 5, 10, 4, 0, 15, 8],
     [9, 0, 5, 7, 2, 4, 10, 15, 14, 1, 11, 12, 6, 8, 3, 13],
     [2, 12, 6, 10, 0, 11, 8, 3, 4, 13, 7, 5, 15, 14, 1, 9],
     [12, 5, 1, 15, 14, 13, 4, 10, 0, 7, 6, 3, 9, 2, 8, 11],
     [13, 11, 7, 14, 12, 1, 3, 9, 5, 0, 15, 4, 8, 6, 2, 10],
     [6, 15, 14, 9, 11, 3, 0, 8, 12, 2, 13, 7, 1, 4, 10, 5],
     [10, 2, 8, 4, 7, 6, 1, 5, 15, 11, 9, 14, 3, 12, 13, 0],
     [0, 1, 2, 3, 4, 5, 6, 7, 8, 9, 10, 11, 12, 13, 14, 15],
     [14, 10, 4, 8, 9, 15, 13, 6, 1, 12, 0, 2, 11, 7, 5, 3]]"

section \<open>State helpers\<close>

definition blake2b_set_lastnode :: "blake2b_state \<Rightarrow> blake2b_state" where
  "blake2b_set_lastnode S = S\<lparr>b2b_f := (b2b_f S)[1 := -1]\<rparr>"

definition blake2b_is_lastblock :: "blake2b_state \<Rightarrow> bool" where
  "blake2b_is_lastblock S \<longleftrightarrow> b2b_f S ! 0 \<noteq> 0"

definition blake2b_set_lastblock :: "blake2b_state \<Rightarrow> blake2b_state" where
  "blake2b_set_lastblock S =
     (let S = (if b2b_last_node S \<noteq> 0 then blake2b_set_lastnode S else S)
      in S\<lparr>b2b_f := (b2b_f S)[0 := -1]\<rparr>)"

definition blake2b_increment_counter :: "blake2b_state \<Rightarrow> u64 \<Rightarrow> blake2b_state" where
  "blake2b_increment_counter S inc =
     (let t0 = b2b_t S ! 0 + inc
      in S\<lparr>b2b_t := (b2b_t S)[0 := t0, 1 := b2b_t S ! 1 + (if t0 < inc then 1 else 0)]\<rparr>)"

definition blake2b_init0 :: blake2b_state where
  "blake2b_init0 = \<lparr>b2b_h = map (\<lambda>i. blake2b_IV ! i) [0..<8], b2b_t = [0, 0], b2b_f = [0, 0],
     b2b_buf = replicate BLAKE2B_BLOCKBYTES 0, b2b_buflen = 0, b2b_outlen = 0,
     b2b_last_node = 0\<rparr>"

definition blake2b_init_param :: "blake2b_param \<Rightarrow> blake2b_state option" where
  "blake2b_init_param P =
     (let p = blake2b_param_bytes P; S = blake2b_init0
      in Some (S\<lparr>b2b_h := map (\<lambda>i. b2b_h S ! i XOR load64 (drop (8 * i) p)) [0..<8],
                 b2b_outlen := unat (p2b_digest_length P)\<rparr>))"

section \<open>Compression\<close>

definition blake2b_G :: "u64 list \<Rightarrow> nat \<Rightarrow> nat \<Rightarrow> nat \<Rightarrow> nat \<Rightarrow> nat \<Rightarrow> nat \<Rightarrow> u64 list \<Rightarrow> u64 list" where
  "blake2b_G m r i a b c d v =
     (let v = v[a := v ! a + v ! b + m ! (blake2b_sigma ! r ! (2 * i + 0))];
          v = v[d := rotr64 (v ! d XOR v ! a) 32];
          v = v[c := v ! c + v ! d];
          v = v[b := rotr64 (v ! b XOR v ! c) 24];
          v = v[a := v ! a + v ! b + m ! (blake2b_sigma ! r ! (2 * i + 1))];
          v = v[d := rotr64 (v ! d XOR v ! a) 16];
          v = v[c := v ! c + v ! d]
      in v[b := rotr64 (v ! b XOR v ! c) 63])"

definition blake2b_ROUND :: "u64 list \<Rightarrow> nat \<Rightarrow> u64 list \<Rightarrow> u64 list" where
  "blake2b_ROUND m r v =
     (let v = blake2b_G m r 0 0 4 8 12 v;
          v = blake2b_G m r 1 1 5 9 13 v;
          v = blake2b_G m r 2 2 6 10 14 v;
          v = blake2b_G m r 3 3 7 11 15 v;
          v = blake2b_G m r 4 0 5 10 15 v;
          v = blake2b_G m r 5 1 6 11 12 v;
          v = blake2b_G m r 6 2 7 8 13 v
      in blake2b_G m r 7 3 4 9 14 v)"

definition blake2b_compress :: "blake2b_state \<Rightarrow> bytes \<Rightarrow> blake2b_state" where
  "blake2b_compress S block =
     (let m = map (\<lambda>i. load64 (drop (i * 8) block)) [0..<16];
          v = map (\<lambda>i. b2b_h S ! i) [0..<8] @
              [blake2b_IV ! 0, blake2b_IV ! 1, blake2b_IV ! 2, blake2b_IV ! 3,
               blake2b_IV ! 4 XOR b2b_t S ! 0, blake2b_IV ! 5 XOR b2b_t S ! 1,
               blake2b_IV ! 6 XOR b2b_f S ! 0, blake2b_IV ! 7 XOR b2b_f S ! 1];
          v = fold (blake2b_ROUND m) [0..<12] v
      in S\<lparr>b2b_h := map (\<lambda>i. b2b_h S ! i XOR v ! i XOR v ! (i + 8)) [0..<8]\<rparr>)"

section \<open>Update and final\<close>

text \<open>The loop over whole blocks of the input: the state and what is left of the input.\<close>

function blake2b_blocks :: "blake2b_state \<Rightarrow> bytes \<Rightarrow> blake2b_state \<times> bytes" where
  "blake2b_blocks S inp =
     (if BLAKE2B_BLOCKBYTES < length inp
      then blake2b_blocks
             (blake2b_compress (blake2b_increment_counter S (of_nat BLAKE2B_BLOCKBYTES))
               (take BLAKE2B_BLOCKBYTES inp))
             (drop BLAKE2B_BLOCKBYTES inp)
      else (S, inp))"
  by pat_completeness auto
termination
  by (relation "measure (\<lambda>(S, inp). length inp)") auto

declare blake2b_blocks.simps [simp del]

definition blake2b_update :: "blake2b_state \<Rightarrow> bytes \<Rightarrow> blake2b_state" where
  "blake2b_update S inp =
     (if 0 < length inp then
        (let left = b2b_buflen S;
             fill = BLAKE2B_BLOCKBYTES - left;
             (S, inp) =
               (if fill < length inp then
                  (let S = S\<lparr>b2b_buflen := 0, b2b_buf := memcpy (b2b_buf S) left (take fill inp)\<rparr>;
                       S = blake2b_increment_counter S (of_nat BLAKE2B_BLOCKBYTES);
                       S = blake2b_compress S (b2b_buf S)
                   in blake2b_blocks S (drop fill inp))
                else (S, inp))
         in S\<lparr>b2b_buf := memcpy (b2b_buf S) (b2b_buflen S) inp,
              b2b_buflen := b2b_buflen S + length inp\<rparr>)
      else S)"

definition blake2b_final :: "blake2b_state \<Rightarrow> bool \<Rightarrow> nat \<Rightarrow> (blake2b_state \<times> bytes) option" where
  "blake2b_final S out_null outlen =
     (if out_null \<or> outlen < b2b_outlen S then None
      else if blake2b_is_lastblock S then None
      else
        (let S = blake2b_increment_counter S (of_nat (b2b_buflen S));
             S = blake2b_set_lastblock S;
             S = S\<lparr>b2b_buf := memcpy (b2b_buf S) (b2b_buflen S)
                    (replicate (BLAKE2B_BLOCKBYTES - b2b_buflen S) 0)\<rparr>;
             S = blake2b_compress S (b2b_buf S);
             buffer = concat (map (\<lambda>i. store64 (b2b_h S ! i)) [0..<8])
         in Some (S, take (b2b_outlen S) buffer)))"

section \<open>Initialisation and the simple interface\<close>

definition blake2b_seq_param :: "nat \<Rightarrow> nat \<Rightarrow> blake2b_param" where
  "blake2b_seq_param outlen keylen = \<lparr>p2b_digest_length = of_nat outlen,
     p2b_key_length = of_nat keylen, p2b_fanout = 1, p2b_depth = 1, p2b_leaf_length = 0,
     p2b_node_offset = 0, p2b_xof_length = 0, p2b_node_depth = 0, p2b_inner_length = 0,
     p2b_reserved = replicate 14 0, p2b_salt = replicate BLAKE2B_SALTBYTES 0,
     p2b_personal = replicate BLAKE2B_PERSONALBYTES 0\<rparr>"

definition blake2b_init :: "nat \<Rightarrow> blake2b_state option" where
  "blake2b_init outlen =
     (if outlen = 0 \<or> BLAKE2B_OUTBYTES < outlen then None
      else blake2b_init_param (blake2b_seq_param outlen 0))"

definition blake2b_init_key :: "nat \<Rightarrow> bytes option \<Rightarrow> nat \<Rightarrow> blake2b_state option" where
  "blake2b_init_key outlen key keylen =
     (if outlen = 0 \<or> BLAKE2B_OUTBYTES < outlen then None
      else case key of
        None \<Rightarrow> None
      | Some k \<Rightarrow>
          if keylen = 0 \<or> BLAKE2B_KEYBYTES < keylen then None
          else (case blake2b_init_param (blake2b_seq_param outlen keylen) of
                  None \<Rightarrow> None
                | Some S \<Rightarrow>
                    let block = memcpy (replicate BLAKE2B_BLOCKBYTES 0) 0 (take keylen k)
                    in Some (blake2b_update S block)))"

text \<open>The bytes written to \<open>out\<close>; the code ignores the result of its call of the final function.\<close>

definition blake2b :: "bool \<Rightarrow> nat \<Rightarrow> bytes option \<Rightarrow> nat \<Rightarrow> bytes option \<Rightarrow> nat \<Rightarrow> bytes option" where
  "blake2b out_null outlen inp inlen key keylen =
     (if inp = None \<and> 0 < inlen then None
      else if out_null then None
      else if key = None \<and> 0 < keylen then None
      else if outlen = 0 \<or> BLAKE2B_OUTBYTES < outlen then None
      else if BLAKE2B_KEYBYTES < keylen then None
      else case (if 0 < keylen then blake2b_init_key outlen key keylen else blake2b_init outlen) of
             None \<Rightarrow> None
           | Some S \<Rightarrow>
               let S = blake2b_update S (case inp of None \<Rightarrow> [] | Some i \<Rightarrow> take inlen i)
               in (case blake2b_final S out_null outlen of
                     None \<Rightarrow> Some []
                   | Some (S', digest) \<Rightarrow> Some digest))"

definition blake2 :: "bool \<Rightarrow> nat \<Rightarrow> bytes option \<Rightarrow> nat \<Rightarrow> bytes option \<Rightarrow> nat \<Rightarrow> bytes option" where
  "blake2 out_null outlen inp inlen key keylen = blake2b out_null outlen inp inlen key keylen"


section \<open>The state invariant\<close>

definition blake2b_ok :: "blake2b_state \<Rightarrow> bool" where
  "blake2b_ok S \<longleftrightarrow> length (b2b_h S) = 8 \<and> length (b2b_t S) = 2 \<and> length (b2b_f S) = 2 \<and>
     length (b2b_buf S) = BLAKE2B_BLOCKBYTES \<and> b2b_buflen S \<le> BLAKE2B_BLOCKBYTES"

text \<open>The chaining part of a state and its pending bytes.\<close>

definition blake2b_abs :: "blake2b_state \<Rightarrow> blake2b_state \<times> bytes" where
  "blake2b_abs S = (S\<lparr>b2b_buf := [], b2b_buflen := 0\<rparr>, take (b2b_buflen S) (b2b_buf S))"

definition blake2b_absorb :: "bytes \<Rightarrow> blake2b_state \<Rightarrow> blake2b_state" where
  "blake2b_absorb b c =
     blake2b_compress (blake2b_increment_counter c (of_nat BLAKE2B_BLOCKBYTES)) b"

lemma blake2b_compress_fields [simp]:
  "b2b_t (blake2b_compress S b) = b2b_t S" "b2b_f (blake2b_compress S b) = b2b_f S"
  "b2b_buf (blake2b_compress S b) = b2b_buf S" "b2b_buflen (blake2b_compress S b) = b2b_buflen S"
  "b2b_outlen (blake2b_compress S b) = b2b_outlen S"
  "b2b_last_node (blake2b_compress S b) = b2b_last_node S"
  "length (b2b_h (blake2b_compress S b)) = 8"
  by (simp_all add: blake2b_compress_def Let_def)

lemma blake2b_increment_fields [simp]:
  "b2b_h (blake2b_increment_counter S n) = b2b_h S"
  "b2b_f (blake2b_increment_counter S n) = b2b_f S"
  "b2b_buf (blake2b_increment_counter S n) = b2b_buf S"
  "b2b_buflen (blake2b_increment_counter S n) = b2b_buflen S"
  "b2b_outlen (blake2b_increment_counter S n) = b2b_outlen S"
  "b2b_last_node (blake2b_increment_counter S n) = b2b_last_node S"
  "length (b2b_t (blake2b_increment_counter S n)) = length (b2b_t S)"
  by (simp_all add: blake2b_increment_counter_def Let_def)

text \<open>Compression and counter do not look at the buffer.\<close>

lemma blake2b_compress_buf:
  "blake2b_compress (S\<lparr>b2b_buf := x\<rparr>) b = (blake2b_compress S b)\<lparr>b2b_buf := x\<rparr>"
  "blake2b_compress (S\<lparr>b2b_buflen := n\<rparr>) b = (blake2b_compress S b)\<lparr>b2b_buflen := n\<rparr>"
  by (simp_all add: blake2b_compress_def Let_def)

lemma blake2b_increment_buf:
  "blake2b_increment_counter (S\<lparr>b2b_buf := x\<rparr>) k = (blake2b_increment_counter S k)\<lparr>b2b_buf := x\<rparr>"
  "blake2b_increment_counter (S\<lparr>b2b_buflen := n\<rparr>) k = (blake2b_increment_counter S k)\<lparr>b2b_buflen := n\<rparr>"
  by (simp_all add: blake2b_increment_counter_def Let_def)

lemmas blake2b_buf_simps = blake2b_compress_buf blake2b_increment_buf

lemma blake2b_absorb_ok [simp]:
  "blake2b_ok S \<Longrightarrow> blake2b_ok (blake2b_absorb b S)"
  by (simp add: blake2b_ok_def blake2b_absorb_def)

lemma blake2b_blocks_absorb:
  assumes "blake2b_ok S"
  shows "\<exists>S' r. blake2b_blocks S inp = (S', r) \<and> blake2b_ok S' \<and> b2b_buf S' = b2b_buf S \<and>
     b2b_buflen S' = b2b_buflen S \<and> (inp \<noteq> [] \<longrightarrow> r \<noteq> []) \<and> length r \<le> BLAKE2B_BLOCKBYTES \<and>
     absorb_all BLAKE2B_BLOCKBYTES blake2b_absorb (S\<lparr>b2b_buf := [], b2b_buflen := 0\<rparr>) inp =
       (S'\<lparr>b2b_buf := [], b2b_buflen := 0\<rparr>, r)"
  using assms
proof (induction S inp rule: blake2b_blocks.induct)
  case (1 S inp)
  show ?case
  proof (cases "BLAKE2B_BLOCKBYTES < length inp")
    case True
    let ?S = "blake2b_absorb (take BLAKE2B_BLOCKBYTES inp) S"
    have "blake2b_absorb b (S\<lparr>b2b_buf := [], b2b_buflen := 0\<rparr>) =
        (blake2b_absorb b S)\<lparr>b2b_buf := [], b2b_buflen := 0\<rparr>" for b
      by (simp add: blake2b_absorb_def blake2b_buf_simps)
    then have "absorb_all BLAKE2B_BLOCKBYTES blake2b_absorb (S\<lparr>b2b_buf := [], b2b_buflen := 0\<rparr>) inp =
        absorb_all BLAKE2B_BLOCKBYTES blake2b_absorb (?S\<lparr>b2b_buf := [], b2b_buflen := 0\<rparr>)
          (drop BLAKE2B_BLOCKBYTES inp)"
      using True by (subst absorb_all.simps) simp
    moreover have "blake2b_blocks S inp = blake2b_blocks ?S (drop BLAKE2B_BLOCKBYTES inp)"
      using True by (subst blake2b_blocks.simps) (simp add: blake2b_absorb_def)
    moreover have "blake2b_ok ?S" "b2b_buf ?S = b2b_buf S" "b2b_buflen ?S = b2b_buflen S"
      using "1.prems" by (simp, simp_all add: blake2b_absorb_def)
    moreover have "drop BLAKE2B_BLOCKBYTES inp \<noteq> []" using True by simp
    ultimately show ?thesis
      using "1.IH" [OF True, folded blake2b_absorb_def] True by auto
  next
    case False
    then show ?thesis
      using "1.prems" by (subst blake2b_blocks.simps) (simp add: absorb_all_short)
  qed
qed

lemma blake2b_update_absorb:
  assumes "blake2b_ok S"
  shows "blake2b_ok (blake2b_update S x) \<and>
    blake2b_abs (blake2b_update S x) =
      absorb_all BLAKE2B_BLOCKBYTES blake2b_absorb (fst (blake2b_abs S)) (snd (blake2b_abs S) @ x)"
proof -
  let ?left = "b2b_buflen S" and ?fill = "BLAKE2B_BLOCKBYTES - b2b_buflen S"
  have left: "?left \<le> BLAKE2B_BLOCKBYTES" and buf: "length (b2b_buf S) = BLAKE2B_BLOCKBYTES"
    using assms by (simp_all add: blake2b_ok_def)
  consider "x = []" | "x \<noteq> []" "length x \<le> ?fill" | "?fill < length x" by fastforce
  then show ?thesis
  proof cases
    case 1
    with assms left show ?thesis
      by (simp add: blake2b_update_def blake2b_abs_def absorb_all_short)
  next
    case 2
    with left have len: "?left + length x \<le> BLAKE2B_BLOCKBYTES" by simp
    have "blake2b_update S x =
        S\<lparr>b2b_buf := memcpy (b2b_buf S) ?left x, b2b_buflen := ?left + length x\<rparr>"
      using 2 by (simp add: blake2b_update_def Let_def)
    moreover have "length (take ?left (b2b_buf S) @ x) \<le> BLAKE2B_BLOCKBYTES" using len by simp
    ultimately show ?thesis
      using assms len left buf
      by (simp add: blake2b_abs_def blake2b_ok_def absorb_all_short take_memcpy del: append_take_drop_id)
  next
    case 3
    define b where "b = take ?left (b2b_buf S) @ take ?fill x"
    have b: "length b = BLAKE2B_BLOCKBYTES" and mem: "memcpy (b2b_buf S) ?left (take ?fill x) = b"
      using left buf 3 by (simp_all add: b_def memcpy_def)
    define S1 where "S1 = blake2b_absorb b (S\<lparr>b2b_buflen := 0, b2b_buf := b\<rparr>)"
    have S1: "blake2b_ok S1" "b2b_buflen S1 = 0" "b2b_buf S1 = b"
      using assms b by (simp_all add: S1_def blake2b_ok_def blake2b_absorb_def)
    obtain S2 r where blocks: "blake2b_blocks S1 (drop ?fill x) = (S2, r)" "blake2b_ok S2"
        "b2b_buf S2 = b" "b2b_buflen S2 = 0" "length r \<le> BLAKE2B_BLOCKBYTES"
        "absorb_all BLAKE2B_BLOCKBYTES blake2b_absorb (S1\<lparr>b2b_buf := [], b2b_buflen := 0\<rparr>) (drop ?fill x) =
           (S2\<lparr>b2b_buf := [], b2b_buflen := 0\<rparr>, r)"
      using blake2b_blocks_absorb [OF S1(1), of "drop ?fill x"] S1 by auto
    have update: "blake2b_update S x = S2\<lparr>b2b_buf := memcpy b 0 r, b2b_buflen := length r\<rparr>"
      using 3 blocks(1-4) mem by (cases "x = []") (simp_all add: blake2b_update_def Let_def S1_def blake2b_absorb_def)
    have "absorb_all BLAKE2B_BLOCKBYTES blake2b_absorb (fst (blake2b_abs S)) (b @ drop ?fill x) =
        absorb_all BLAKE2B_BLOCKBYTES blake2b_absorb (blake2b_absorb b (fst (blake2b_abs S))) (drop ?fill x)"
      by (rule absorb_all_block) (use b 3 in auto)
    moreover have "blake2b_absorb b (fst (blake2b_abs S)) = S1\<lparr>b2b_buf := [], b2b_buflen := 0\<rparr>"
      by (simp add: blake2b_abs_def S1_def blake2b_absorb_def blake2b_buf_simps)
    moreover have "snd (blake2b_abs S) @ x = b @ drop ?fill x"
      by (simp add: blake2b_abs_def b_def)
    moreover have "take (length r) (memcpy b 0 r) = r" by (simp add: memcpy_def)
    ultimately show ?thesis
      using blocks update b by (simp add: blake2b_abs_def blake2b_ok_def)
  qed
qed

section \<open>Finishing\<close>

text \<open>What finishing makes of a chaining part and its pending bytes.\<close>

definition blake2b_fin :: "nat \<Rightarrow> blake2b_state \<times> bytes \<Rightarrow> bytes option" where
  "blake2b_fin n = (\<lambda>(c, p).
     if n < b2b_outlen c \<or> blake2b_is_lastblock c then None
     else Some (take (b2b_outlen c) (concat (map store64
       (b2b_h (blake2b_compress
          (blake2b_set_lastblock (blake2b_increment_counter c (of_nat (length p))))
          (p @ replicate (BLAKE2B_BLOCKBYTES - length p) 0)))))))"

lemma blake2b_lastblock_fields [simp]:
  "b2b_h (blake2b_set_lastblock S) = b2b_h S" "b2b_t (blake2b_set_lastblock S) = b2b_t S"
  "b2b_buf (blake2b_set_lastblock S) = b2b_buf S"
  "b2b_buflen (blake2b_set_lastblock S) = b2b_buflen S"
  "b2b_outlen (blake2b_set_lastblock S) = b2b_outlen S"
  "b2b_last_node (blake2b_set_lastblock S) = b2b_last_node S"
  "length (b2b_f (blake2b_set_lastblock S)) = length (b2b_f S)"
  by (simp_all add: blake2b_set_lastblock_def blake2b_set_lastnode_def Let_def)

lemma blake2b_lastblock_buf:
  "blake2b_set_lastblock (S\<lparr>b2b_buf := x\<rparr>) = (blake2b_set_lastblock S)\<lparr>b2b_buf := x\<rparr>"
  "blake2b_set_lastblock (S\<lparr>b2b_buflen := n\<rparr>) = (blake2b_set_lastblock S)\<lparr>b2b_buflen := n\<rparr>"
  by (simp_all add: blake2b_set_lastblock_def blake2b_set_lastnode_def Let_def)

lemma blake2b_final_fin:
  assumes "blake2b_ok S"
  shows "map_option snd (blake2b_final S False n) = blake2b_fin n (blake2b_abs S)"
proof -
  have len: "b2b_buflen S \<le> BLAKE2B_BLOCKBYTES" "length (b2b_buf S) = BLAKE2B_BLOCKBYTES"
    using assms by (simp_all add: blake2b_ok_def)
  then have "memcpy (b2b_buf S) (b2b_buflen S) (replicate (BLAKE2B_BLOCKBYTES - b2b_buflen S) 0) =
      take (b2b_buflen S) (b2b_buf S) @ replicate (BLAKE2B_BLOCKBYTES - b2b_buflen S) 0"
    by (simp add: memcpy_def)
  with len show ?thesis
    by (simp add: blake2b_final_def blake2b_fin_def blake2b_abs_def blake2b_is_lastblock_def Let_def
        blake2b_buf_simps blake2b_lastblock_buf map_nth_8 min_absorb2)
qed

interpretation b2b: block_hash BLAKE2B_BLOCKBYTES blake2b_update
  "\<lambda>S. map_option snd (blake2b_final S False n)" blake2b_ok blake2b_abs blake2b_absorb
  "blake2b_fin n" for n
proof unfold_locales
  fix S :: blake2b_state
  assume ok: "blake2b_ok S"
  then show "length (snd (blake2b_abs S)) \<le> BLAKE2B_BLOCKBYTES"
    by (simp add: blake2b_abs_def blake2b_ok_def)
  show "map_option snd (blake2b_final S False n) = blake2b_fin n (blake2b_abs S)"
    by (rule blake2b_final_fin [OF ok])
  fix x
  show "blake2b_ok (blake2b_update S x)"
    "blake2b_abs (blake2b_update S x) =
      absorb_all BLAKE2B_BLOCKBYTES blake2b_absorb (fst (blake2b_abs S)) (snd (blake2b_abs S) @ x)"
    using blake2b_update_absorb [OF ok] by simp_all
qed

lemma blake2b_init_param_ok: "blake2b_init_param P = Some S \<Longrightarrow> blake2b_ok S"
  by (auto simp: blake2b_init_param_def blake2b_init0_def blake2b_ok_def Let_def)

lemma blake2b_init_ok: "blake2b_init n = Some S \<Longrightarrow> blake2b_ok S"
  by (auto simp: blake2b_init_def blake2b_init_param_ok split: if_splits)

lemma blake2b_init_key_ok: "blake2b_init_key n k l = Some S \<Longrightarrow> blake2b_ok S"
  by (auto simp: blake2b_init_key_def Let_def intro: b2b.update_ok dest: blake2b_init_param_ok
      split: if_splits option.splits)

lemma blake2b_blocks_fields:
  "b2b_f (fst (blake2b_blocks S inp)) = b2b_f S \<and>
   b2b_outlen (fst (blake2b_blocks S inp)) = b2b_outlen S \<and>
   b2b_last_node (fst (blake2b_blocks S inp)) = b2b_last_node S"
  by (induction S inp rule: blake2b_blocks.induct) (subst (1 2 3) blake2b_blocks.simps, simp)

lemma blake2b_update_fields [simp]:
  "b2b_f (blake2b_update S x) = b2b_f S" "b2b_outlen (blake2b_update S x) = b2b_outlen S"
  "b2b_last_node (blake2b_update S x) = b2b_last_node S"
  by (simp_all add: blake2b_update_def Let_def split_beta blake2b_blocks_fields)

text \<open>A state that was not finished finishes, with as many bytes as its digest has.\<close>

lemma blake2b_buffer_length: "length (concat (map (\<lambda>i. store64 (h ! i)) [0..<8])) = 64"
  by (simp add: store64_def length_concat o_def sum_list_triv)

lemma blake2b_final_length:
  assumes "\<not> blake2b_is_lastblock S" and "b2b_outlen S = n" and "n \<le> 64"
  shows "\<exists>S' d. blake2b_final S False n = Some (S', d) \<and> length d = n"
  using assms by (simp add: blake2b_final_def Let_def blake2b_buffer_length del: length_concat)

text \<open>Finishing depends on the abstraction of a state alone.\<close>

lemma blake2b_final_cong:
  assumes "blake2b_ok S" and "blake2b_ok T" and "blake2b_abs S = blake2b_abs T"
  shows "map_option snd (blake2b_final S False n) = map_option snd (blake2b_final T False n)"
  by (simp add: blake2b_final_fin assms)

section \<open>The specification (RFC 7693)\<close>

text \<open>
  The mixing function on four words, the round, the compression function \<open>F\<close> and the hash of a
  message, as the RFC defines them: \<open>h\<close> the chaining words, \<open>t\<close> the number of bytes absorbed.
\<close>

definition mixb :: "u64 \<Rightarrow> u64 \<Rightarrow> u64 \<times> u64 \<times> u64 \<times> u64 \<Rightarrow> u64 \<times> u64 \<times> u64 \<times> u64" where
  "mixb x y = (\<lambda>(a, b, c, d).
     let a = a + b + x; d = word_rotr 32 (d XOR a);
         c = c + d; b = word_rotr 24 (b XOR c);
         a = a + b + y; d = word_rotr 16 (d XOR a);
         c = c + d; b = word_rotr 63 (b XOR c)
     in (a, b, c, d))"

definition mixb_at :: "u64 \<Rightarrow> u64 \<Rightarrow> nat \<times> nat \<times> nat \<times> nat \<Rightarrow> u64 list \<Rightarrow> u64 list" where
  "mixb_at x y = (\<lambda>(a, b, c, d) v.
     case mixb x y (v ! a, v ! b, v ! c, v ! d) of
       (a', b', c', d') \<Rightarrow> v[a := a', b := b', c := c', d := d'])"

definition rfcb_round :: "u64 list \<Rightarrow> nat list \<Rightarrow> u64 list \<Rightarrow> u64 list" where
  "rfcb_round m s v =
     fold (\<lambda>(i, p). mixb_at (m ! (s ! (2 * i))) (m ! (s ! (2 * i + 1))) p)
       (enumerate 0 [(0, 4, 8, 12), (1, 5, 9, 13), (2, 6, 10, 14), (3, 7, 11, 15),
                     (0, 5, 10, 15), (1, 6, 11, 12), (2, 7, 8, 13), (3, 4, 9, 14)]) v"

definition rfcb_F :: "u64 list \<Rightarrow> bytes \<Rightarrow> nat \<Rightarrow> bool \<Rightarrow> u64 list" where
  "rfcb_F h block t lb =
     (let m = map (\<lambda>i. le_word (take 8 (drop (8 * i) block))) [0..<16];
          v = h @ blake2b_IV;
          v = v[12 := v ! 12 XOR of_nat t, 13 := v ! 13 XOR of_nat (t div 2 ^ 64),
                14 := (if lb then NOT (v ! 14) else v ! 14)];
          v = fold (\<lambda>r. rfcb_round m (blake2b_sigma ! (r mod 10))) [0..<12] v
      in map (\<lambda>i. h ! i XOR v ! i XOR v ! (i + 8)) [0..<8])"

function rfcb_chain :: "u64 list \<Rightarrow> nat \<Rightarrow> bytes \<Rightarrow> u64 list" where
  "rfcb_chain h t d =
     (if 128 < length d then rfcb_chain (rfcb_F h (take 128 d) (t + 128) False) (t + 128) (drop 128 d)
      else rfcb_F h (d @ replicate (128 - length d) 0) (t + length d) True)"
  by pat_completeness auto
termination
  by (relation "measure (\<lambda>(h, t, d). length d)") auto

declare rfcb_chain.simps [simp del]

lemma length_rfcb_chain [simp]: "length (rfcb_chain h t d) = 8"
  by (induction h t d rule: rfcb_chain.induct) (subst rfcb_chain.simps, simp add: rfcb_F_def Let_def)

definition rfcb_start :: "nat \<Rightarrow> nat \<Rightarrow> u64 list" where
  "rfcb_start nn kk =
     blake2b_IV[0 := blake2b_IV ! 0 XOR 0x01010000 XOR push_bit 8 (of_nat kk) XOR of_nat nn]"

definition rfcb_hash :: "nat \<Rightarrow> bytes \<Rightarrow> bytes \<Rightarrow> bytes" where
  "rfcb_hash nn key msg =
     take nn (concat (map (le_bytes 8)
       (rfcb_chain (rfcb_start nn (length key)) 0
         ((if key = [] then [] else key @ replicate (128 - length key) 0) @ msg))))"

section \<open>The compression function against the specification\<close>

lemma rot_mixb:
  "rotr64 w 32 = word_rotr 32 w" "rotr64 w 24 = word_rotr 24 w"
  "rotr64 w 16 = word_rotr 16 w" "rotr64 w 63 = word_rotr 63 w"
  by (simp_all add: rotr64_word_rotr)

lemma blake2b_G_mix:
  assumes "distinct [a, b, c, d]" and "a < length v" "b < length v" "c < length v" "d < length v"
  shows "blake2b_G m r i a b c d v =
    mixb_at (m ! (blake2b_sigma ! r ! (2 * i))) (m ! (blake2b_sigma ! r ! (2 * i + 1))) (a, b, c, d) v"
  using assms
  by (simp add: blake2b_G_def mixb_at_def mixb_def Let_def rot_mixb nth_list_update
      list_update_swap [of b a] list_update_swap [of c a] list_update_swap [of c b]
      list_update_swap [of d a] list_update_swap [of d b] list_update_swap [of d c])

lemma length_mixb_at [simp]: "length (mixb_at x y p v) = length v"
  by (auto simp: mixb_at_def split: prod.split)

lemma blake2b_ROUND_rfc:
  "length v = 16 \<Longrightarrow> blake2b_ROUND m r v = rfcb_round m (blake2b_sigma ! r) v"
  by (simp add: blake2b_ROUND_def rfcb_round_def blake2b_G_mix Let_def)

lemma length_rfcb_round [simp]: "length (rfcb_round m s v) = length v"
  by (simp add: rfcb_round_def)

lemma blake2b_rounds:
  "length v = 16 \<Longrightarrow> set rs \<subseteq> {..<12} \<Longrightarrow>
     fold (blake2b_ROUND m) rs v = fold (\<lambda>r. rfcb_round m (blake2b_sigma ! (r mod 10))) rs v"
proof (induction rs arbitrary: v)
  case (Cons r rs)
  have "blake2b_sigma ! r = blake2b_sigma ! (r mod 10)" if "r < 12"
  proof (cases "r < 10")
    case False
    with that have "r = 10 \<or> r = 11" by auto
    with that show ?thesis by (auto simp: blake2b_sigma_def)
  qed simp
  moreover have "r < 12" "set rs \<subseteq> {..<12}" using Cons.prems(2) by auto
  ultimately show ?case using Cons.IH [of "rfcb_round m (blake2b_sigma ! r) v"] Cons.prems(1)
    by (simp add: blake2b_ROUND_rfc)
qed simp

lemma blake2b_compress_rfc:
  assumes "length (b2b_h S) = 8" and "length b = 128"
    and "b2b_t S = [of_nat t, of_nat (t div 2 ^ 64)]" and "b2b_f S = [if lb then -1 else 0, 0]"
  shows "b2b_h (blake2b_compress S b) = rfcb_F (b2b_h S) b t lb"
proof -
  let ?m = "map (\<lambda>i. load64 (drop (i * 8) b)) [0..<16]"
  have m: "?m = map (\<lambda>i. le_word (take 8 (drop (8 * i) b))) [0..<16]"
    using assms(2) by (simp add: load64_le mult.commute)
  have h: "map (\<lambda>i. b2b_h S ! i) [0..<8] = b2b_h S"
    using map_nth [of "b2b_h S"] assms(1) by simp
  let ?v = "b2b_h S @ blake2b_IV"
  have tail: "b2b_h S @
      [blake2b_IV ! 0, blake2b_IV ! 1, blake2b_IV ! 2, blake2b_IV ! 3,
       blake2b_IV ! 4 XOR b2b_t S ! 0, blake2b_IV ! 5 XOR b2b_t S ! 1, blake2b_IV ! 6 XOR b2b_f S ! 0, blake2b_IV ! 7 XOR b2b_f S ! 1] =
    ?v[12 := ?v ! 12 XOR of_nat t, 13 := ?v ! 13 XOR of_nat (t div 2 ^ 64),
       14 := (if lb then NOT (?v ! 14) else ?v ! 14)]" (is "?l = ?r")
  proof -
    obtain h0 h1 h2 h3 h4 h5 h6 h7 where "b2b_h S = [h0, h1, h2, h3, h4, h5, h6, h7]"
      using list_of_8 [OF assms(1)] by blast
    with assms(3,4) show ?thesis
      by (simp add: blake2b_IV_def xor.commute bit.xor_one_right bit.xor_one_left)
  qed
  have "length ?r = 16" using assms(1) by (simp add: blake2b_IV_def)
  then have rounds: "fold (blake2b_ROUND m) [0..<12] ?r =
      fold (\<lambda>r. rfcb_round m (blake2b_sigma ! (r mod 10))) [0..<12] ?r" for m
    by (rule blake2b_rounds) auto
  have proj: "b2b_h (S\<lparr>b2b_h := x\<rparr>) = x" for x by simp
  show ?thesis
    unfolding blake2b_compress_def rfcb_F_def Let_def m h tail rounds proj by (rule refl)
qed

section \<open>The hash against the specification\<close>

lemma blake2b_increment_split:
  assumes "b2b_t S = [of_nat t, of_nat (t div 2 ^ 64)]" and "n < 2 ^ 64"
  shows "b2b_t (blake2b_increment_counter S (of_nat n)) = [of_nat (t + n), of_nat ((t + n) div 2 ^ 64)]"
  using assms counter_carry [where 'a = 64, of n t]
  by (simp add: blake2b_increment_counter_def Let_def)

lemma blake2b_fin_chain:
  assumes "absorb_all BLAKE2B_BLOCKBYTES blake2b_absorb c p = (c', p')"
    and "length (b2b_h c) = 8" and "b2b_t c = [of_nat t, of_nat (t div 2 ^ 64)]" and "b2b_f c = [0, 0]"
    and "b2b_last_node c = 0" and "b2b_outlen c \<le> n"
  shows "blake2b_fin n (c', p') =
    Some (take (b2b_outlen c) (concat (map (le_bytes 8) (rfcb_chain (b2b_h c) t p))))"
  using assms
proof (induction "length p" arbitrary: c p t rule: less_induct)
  case less
  show ?case
  proof (cases "128 < length p")
    case True
    let ?c = "blake2b_absorb (take 128 p) c"
    have t: "b2b_t ?c = [of_nat (t + 128), of_nat ((t + 128) div 2 ^ 64)]"
      using blake2b_increment_split [OF less.prems(3), of 128] by (simp add: blake2b_absorb_def)
    have h: "b2b_h ?c = rfcb_F (b2b_h c) (take 128 p) (t + 128) False"
      using blake2b_increment_split [OF less.prems(3), of 128] less.prems True
        blake2b_compress_rfc [of "blake2b_increment_counter c 128" "take 128 p" "t + 128" False]
      by (simp add: blake2b_absorb_def)
    have "absorb_all BLAKE2B_BLOCKBYTES blake2b_absorb ?c (drop 128 p) = (c', p')"
      using less.prems(1) True by (subst (asm) absorb_all.simps) simp
    then have "blake2b_fin n (c', p') =
        Some (take (b2b_outlen ?c) (concat (map (le_bytes 8) (rfcb_chain (b2b_h ?c) (t + 128) (drop 128 p)))))"
      by (rule less.hyps [rotated]) (use True t less.prems in \<open>simp_all add: blake2b_absorb_def\<close>)
    also have "rfcb_chain (b2b_h ?c) (t + 128) (drop 128 p) = rfcb_chain (b2b_h c) t p"
      using True h by (subst (2) rfcb_chain.simps) simp
    finally show ?thesis by (simp add: blake2b_absorb_def)
  next
    case False
    then have cp: "c' = c" "p' = p"
      using less.prems(1) by (simp_all add: absorb_all_short)
    let ?c = "blake2b_set_lastblock (blake2b_increment_counter c (of_nat (length p)))"
    have "length p < 2 ^ 64" using False by simp
    from blake2b_increment_split [OF less.prems(3) this]
    have "b2b_t ?c = [of_nat (t + length p), of_nat ((t + length p) div 2 ^ 64)]" by simp
    moreover have "b2b_f ?c = [if True then -1 else 0, 0]"
      using less.prems(4,5) by (simp add: blake2b_set_lastblock_def Let_def)
    moreover have "length (p @ replicate (128 - length p) 0) = 128" using False by simp
    ultimately have "b2b_h (blake2b_compress ?c (p @ replicate (128 - length p) 0)) =
        rfcb_F (b2b_h c) (p @ replicate (128 - length p) 0) (t + length p) True"
      using blake2b_compress_rfc [of ?c "p @ replicate (128 - length p) 0" "t + length p" True]
        less.prems(2) by simp
    with cp less.prems False show ?thesis
      by (subst rfcb_chain.simps)
        (simp add: blake2b_fin_def blake2b_is_lastblock_def store64_le [abs_def])
  qed
qed

lemma blake2b_start:
  assumes "nn \<le> 64" and "kk \<le> 64" and "blake2b_init_param (blake2b_seq_param nn kk) = Some S"
  shows "blake2b_abs S = (S\<lparr>b2b_buf := [], b2b_buflen := 0\<rparr>, [])" "b2b_h S = rfcb_start nn kk"
    "b2b_t S = [0, 0]" "b2b_f S = [0, 0]" "b2b_last_node S = 0" "b2b_outlen S = nn"
proof -
  show "blake2b_abs S = (S\<lparr>b2b_buf := [], b2b_buflen := 0\<rparr>, [])" "b2b_t S = [0, 0]" "b2b_f S = [0, 0]"
    "b2b_last_node S = 0" "b2b_outlen S = nn"
    using assms by (auto simp: blake2b_init_param_def blake2b_init0_def blake2b_abs_def Let_def
        blake2b_seq_param_def unat_of_nat)
  let ?p = "[of_nat nn, of_nat kk, 1, 1] @ replicate 60 (0 :: u8)"
  have p: "blake2b_param_bytes (blake2b_seq_param nn kk) = ?p"
    by (simp add: blake2b_param_bytes_def blake2b_seq_param_def store32_def store32_def
        replicate_numeral_list)
  have zero: "load64 (drop (8 * i) ?p) = 0" if "0 < i" "i < 8" for i
  proof -
    have "drop (8 * i) [of_nat nn, of_nat kk, 1, 1 :: u8] = []"
      using that by (intro drop_all) simp
    then have "drop (8 * i) ?p = replicate (64 - 8 * i) 0"
      using that by (simp only: drop_append append_Nil drop_replicate) simp
    with that show ?thesis by (simp add: load64_zero)
  qed
  have first: "load64 (drop (8 * 0) ?p) = 0x01010000 XOR push_bit 8 (of_nat kk) XOR of_nat nn"
    unfolding mult_0_right drop_0 using assms(1,2) by (intro load64_param) simp_all
  have "b2b_h S = map (\<lambda>i. blake2b_IV ! i XOR load64 (drop (8 * i) ?p)) [0..<8]"
    using assms(3) by (auto simp: blake2b_init_param_def p blake2b_init0_def Let_def simp del: drop_append)
  also have "\<dots> = rfcb_start nn kk"
  proof (rule nth_equalityI)
    fix i assume "i < length (map (\<lambda>i. blake2b_IV ! i XOR load64 (drop (8 * i) ?p)) [0..<8])"
    then have i: "i < 8" by simp
    have IV: "length blake2b_IV = 8" by (simp add: blake2b_IV_def)
    show "map (\<lambda>i. blake2b_IV ! i XOR load64 (drop (8 * i) ?p)) [0..<8] ! i = rfcb_start nn kk ! i"
    proof (cases "i = 0")
      case True
      then show ?thesis using first IV by (simp add: rfcb_start_def xor.assoc del: drop_append)
    next
      case False
      then show ?thesis using zero [of i] i IV by (simp add: rfcb_start_def del: drop_append)
    qed
  qed (simp add: rfcb_start_def blake2b_IV_def)
  finally show "b2b_h S = rfcb_start nn kk" .
qed

text \<open>Absorbing a message into a fresh state and finishing is the specification's chain.\<close>

lemma blake2b_fresh_hash:
  assumes "nn \<le> 64" and "kk \<le> 64" and "blake2b_init_param (blake2b_seq_param nn kk) = Some S"
    and "blake2b_ok T" and "blake2b_abs T = blake2b_abs (blake2b_update S d)"
  shows "map_option snd (blake2b_final T False nn) =
    Some (take nn (concat (map (le_bytes 8) (rfcb_chain (rfcb_start nn kk) 0 d))))"
proof -
  note start = blake2b_start [OF assms(1-3)]
  have S: "blake2b_ok S" by (rule blake2b_init_param_ok [OF assms(3)])
  then have len: "length (b2b_h S) = 8" by (simp add: blake2b_ok_def)
  obtain c' p' where cp: "blake2b_abs T = (c', p')" by (cases "blake2b_abs T")
  with assms(5) b2b.update_abs [OF S, of d] start(1)
  have "absorb_all BLAKE2B_BLOCKBYTES blake2b_absorb (S\<lparr>b2b_buf := [], b2b_buflen := 0\<rparr>) d = (c', p')"
    by simp
  then have "blake2b_fin nn (c', p') =
      Some (take nn (concat (map (le_bytes 8) (rfcb_chain (b2b_h S) 0 d))))"
    using blake2b_fin_chain [of "S\<lparr>b2b_buf := [], b2b_buflen := 0\<rparr>" d c' p' 0 nn] start len by simp
  with cp start blake2b_final_fin [OF assms(4), of nn] show ?thesis by simp
qed

section \<open>Properties\<close>

text \<open>C3: for every valid call \<open>blake2b\<close> returns the RFC 7693 hash of the message under the key;
  a null message or key pointer of length zero stands for the empty string.\<close>

theorem blake2b_is_rfc7693:
  assumes "0 < outlen" and "outlen \<le> 64" and "length k \<le> 64"
    and "key = Some k \<or> key = None \<and> k = []" and "inp = Some i \<or> inp = None \<and> i = []"
  shows "blake2b False outlen inp (length i) key (length k) = Some (rfcb_hash outlen k i)"
proof -
  have i: "(case inp of None \<Rightarrow> [] | Some x \<Rightarrow> take (length i) x) = i" using assms(5) by auto
  obtain S where S: "blake2b_init_param (blake2b_seq_param outlen (length k)) = Some S"
    by (simp add: blake2b_init_param_def Let_def)
  then have ok: "blake2b_ok S" by (rule blake2b_init_param_ok)
  define d where "d = (if k = [] then [] else k @ replicate (128 - length k) 0)"
  define T where "T = (if k = [] then S else blake2b_update S d)"
  have T: "(if 0 < length k then blake2b_init_key outlen key (length k) else blake2b_init outlen) = Some T"
    using assms S by (auto simp: blake2b_init_key_def blake2b_init_def T_def d_def memcpy_def)
  have "blake2b_abs (blake2b_update T i) = blake2b_abs (blake2b_update S (d @ i))"
    using b2b.update_update [OF ok, of d i] by (cases "k = []") (simp_all add: T_def d_def)
  moreover have "blake2b_ok (blake2b_update T i)"
    using ok by (simp add: T_def b2b.update_ok)
  ultimately have "map_option snd (blake2b_final (blake2b_update T i) False outlen) =
      Some (rfcb_hash outlen k i)"
    using blake2b_fresh_hash [OF assms(2,3) S] by (simp add: rfcb_hash_def d_def)
  then obtain S' where "blake2b_final (blake2b_update T i) False outlen = Some (S', rfcb_hash outlen k i)"
    by auto
  with T i assms show ?thesis
    by (auto simp: blake2b_def Let_def simp del: blake2b_constants)
      (auto simp: blake2b_constants)
qed

theorem blake2b_is_rfc7693_witness:
  "blake2b False 32 (Some [97, 98, 99]) (length [97, 98, 99 :: u8]) None (length ([] :: bytes)) =
     Some (rfcb_hash 32 [] [97, 98, 99])"
  by (rule blake2b_is_rfc7693) simp_all

text \<open>\<open>blake2b\<close> fails on exactly the calls its checks name, and writes nothing then.\<close>

theorem blake2b_fails_iff:
  "blake2b out_null outlen inp inlen key keylen = None \<longleftrightarrow>
     out_null \<or> inp = None \<and> 0 < inlen \<or> key = None \<and> 0 < keylen \<or>
     outlen = 0 \<or> 64 < outlen \<or> 64 < keylen"
  by (auto simp: blake2b_def Let_def blake2b_init_key_def blake2b_init_def blake2b_init_param_def
      split: option.splits)

text \<open>hashing a message in any pieces gives what hashing it at once gives.\<close>

theorem blake2b_pieces:
  assumes "blake2b_init_key outlen (Some k) (length k) = Some S \<or> blake2b_init outlen = Some S"
    and "concat xs = concat ys"
  shows "map_option snd (blake2b_final (foldl blake2b_update S xs) False n) =
    map_option snd (blake2b_final (foldl blake2b_update S ys) False n)"
proof -
  have "blake2b_ok S" using assms(1) blake2b_init_ok blake2b_init_key_ok by blast
  then show ?thesis using assms(2) by (rule b2b.finish_chunks)
qed

theorem blake2b_pieces_witness:
  "\<exists>S. blake2b_init 20 = Some S \<and>
     map_option snd (blake2b_final (foldl blake2b_update S [[1, 2], [], [3]]) False 20) =
     map_option snd (blake2b_final (foldl blake2b_update S [[1], [2, 3]]) False 20)"
proof -
  obtain S where "blake2b_init 20 = Some S"
    by (simp add: blake2b_init_def blake2b_init_param_def Let_def)
  with blake2b_pieces [of 20 _ S "[[1, 2], [], [3]]" "[[1], [2, 3]]" 20] show ?thesis by simp
qed

text \<open>a finished state cannot be finished again; the buffer never holds more than a block, and
  an update neither grows it nor leaves it empty when it was given bytes.\<close>

theorem blake2b_buffer_invariant:
  assumes "blake2b_ok S"
  shows "blake2b_ok (blake2b_update S x) \<and>
    (if x = [] then blake2b_update S x = S else 0 < b2b_buflen (blake2b_update S x)) \<and>
    (case blake2b_final S out_null n of
       None \<Rightarrow> True | Some (S', d) \<Rightarrow> blake2b_ok S' \<and> blake2b_final S' out_null n = None)"
proof (intro conjI)
  show "blake2b_ok (blake2b_update S x)" by (rule b2b.update_ok [OF assms])
  show "if x = [] then blake2b_update S x = S else 0 < b2b_buflen (blake2b_update S x)"
  proof (cases "x = []")
    case False
    then have "snd (blake2b_abs (blake2b_update S x)) \<noteq> []"
      using b2b.update_abs [OF assms, of x] by (simp add: absorb_all_nonempty)
    with False show ?thesis by (auto simp: blake2b_abs_def)
  qed (simp add: blake2b_update_def)
  have last: "blake2b_is_lastblock (blake2b_set_lastblock T)" if "length (b2b_f T) = 2" for T
    using that by (cases "b2b_f T")
      (auto simp: blake2b_is_lastblock_def blake2b_set_lastblock_def blake2b_set_lastnode_def Let_def)
  have f: "blake2b_is_lastblock (blake2b_compress T b) = blake2b_is_lastblock T"
    "blake2b_is_lastblock (T\<lparr>b2b_buf := m\<rparr>) = blake2b_is_lastblock T" for T b m
    by (simp_all add: blake2b_is_lastblock_def)
  show "case blake2b_final S out_null n of
      None \<Rightarrow> True | Some (S', d) \<Rightarrow> blake2b_ok S' \<and> blake2b_final S' out_null n = None"
  proof (cases "blake2b_final S out_null n")
    case (Some r)
    then obtain S' d where r: "r = (S', d)" and "blake2b_is_lastblock S'" and "blake2b_ok S'"
      using assms last [of "blake2b_increment_counter S (of_nat (b2b_buflen S))"]
      by (cases r) (auto simp: blake2b_final_def Let_def f blake2b_ok_def split: if_splits)
    with Some show ?thesis by (simp add: blake2b_final_def)
  qed simp
qed

theorem blake2b_buffer_invariant_witness:
  "\<exists>S. blake2b_init 20 = Some S \<and> blake2b_ok (blake2b_update S (replicate 200 7))"
proof -
  obtain S where S: "blake2b_init 20 = Some S"
    by (simp add: blake2b_init_def blake2b_init_param_def Let_def)
  from blake2b_buffer_invariant [OF blake2b_init_ok [OF S]] S show ?thesis by blast
qed

text \<open>the two counter words are one counter of 128 bits: adding a length adds it modulo
  \<open>2 ^ 128\<close>, with the carry into the high word.\<close>

theorem blake2b_counter_adds:
  assumes "b2b_t S = [lo, hi]"
  shows "\<exists>lo' hi'. b2b_t (blake2b_increment_counter S inc) = [lo', hi'] \<and>
    unat lo' + 2 ^ 64 * unat hi' = (unat lo + 2 ^ 64 * unat hi + unat inc) mod 2 ^ 128"
proof -
  define t where "t = unat lo + 2 ^ LENGTH(64) * unat hi"
  have lo: "lo = of_nat t" unfolding t_def by (rule of_nat_words(1))
  have hi: "hi = of_nat (t div 2 ^ LENGTH(64))" unfolding t_def by (rule of_nat_words(2))
  have inc: "unat inc < 2 ^ 64" using unsigned_less [of inc, where 'a = nat] by simp
  have "b2b_t S = [of_nat t, of_nat (t div 2 ^ 64)]"
    unfolding assms by (subst lo, subst hi) simp
  from blake2b_increment_split [OF this inc]
  have "b2b_t (blake2b_increment_counter S inc) =
      [of_nat (t + unat inc), of_nat ((t + unat inc) div 2 ^ 64)]" by simp
  with counter_words [of "t + unat inc", where 'a = 64] show ?thesis by (simp add: t_def)
qed

theorem blake2b_counter_adds_witness:
  "\<exists>lo' hi'. b2b_t (blake2b_increment_counter (blake2b_init0\<lparr>b2b_t := [-1, 5]\<rparr>) 2) = [lo', hi'] \<and>
     unat lo' + 2 ^ 64 * unat hi' = (unat (-1 :: u64) + 2 ^ 64 * unat (5 :: u64) + unat (2 :: u64)) mod 2 ^ 128"
  by (rule blake2b_counter_adds) simp

end
