(* ===== verification/Blake2bp.thy ===== *)
theory Blake2bp
  imports Blake2b Lanes
begin

text \<open>
  Parallel BLAKE2bp, reference implementation (\<open>blake2/ref/blake2bp-ref.c\<close>): 4 leaves that
  take the blocks of the message in turn, and a root over their digests. The branch without
  OpenMP. The local array \<open>hash\<close> is not initialised: \<open>hash0\<close> stands for what it holds.
\<close>

section \<open>State and initialisation\<close>

definition BLAKE2BP_DEGREE :: nat where "BLAKE2BP_DEGREE = 4"

lemmas blake2bp_constants [simp] = BLAKE2BP_DEGREE_def

record blake2bp_state =
  bp_S :: "blake2b_state list"
  bp_R :: blake2b_state
  bp_buf :: bytes
  bp_buflen :: nat
  bp_outlen :: nat

definition blake2bp_init_leaf_param :: "blake2b_param \<Rightarrow> blake2b_state option" where
  "blake2bp_init_leaf_param P =
     map_option (\<lambda>S. S\<lparr>b2b_outlen := unat (p2b_inner_length P)\<rparr>) (blake2b_init_param P)"

definition blake2bp_init_leaf :: "nat \<Rightarrow> nat \<Rightarrow> nat \<Rightarrow> blake2b_state option" where
  "blake2bp_init_leaf outlen keylen offset =
     blake2bp_init_leaf_param \<lparr>p2b_digest_length = of_nat outlen, p2b_key_length = of_nat keylen,
       p2b_fanout = of_nat BLAKE2BP_DEGREE, p2b_depth = 2, p2b_leaf_length = 0,
       p2b_node_offset = of_nat offset, p2b_xof_length = 0, p2b_node_depth = 0,
       p2b_inner_length = of_nat BLAKE2B_OUTBYTES, p2b_reserved = replicate 14 0, p2b_salt = replicate BLAKE2B_SALTBYTES 0,
       p2b_personal = replicate BLAKE2B_PERSONALBYTES 0\<rparr>"

definition blake2bp_init_root :: "nat \<Rightarrow> nat \<Rightarrow> blake2b_state option" where
  "blake2bp_init_root outlen keylen =
     blake2b_init_param \<lparr>p2b_digest_length = of_nat outlen, p2b_key_length = of_nat keylen,
       p2b_fanout = of_nat BLAKE2BP_DEGREE, p2b_depth = 2, p2b_leaf_length = 0,
       p2b_node_offset = 0, p2b_xof_length = 0, p2b_node_depth = 1,
       p2b_inner_length = of_nat BLAKE2B_OUTBYTES, p2b_reserved = replicate 14 0, p2b_salt = replicate BLAKE2B_SALTBYTES 0,
       p2b_personal = replicate BLAKE2B_PERSONALBYTES 0\<rparr>"

definition blake2bp_leaves :: "nat \<Rightarrow> nat \<Rightarrow> blake2b_state list option" where
  "blake2bp_leaves outlen keylen =
     map_option (\<lambda>Ss. Ss[BLAKE2BP_DEGREE - 1 := (Ss ! (BLAKE2BP_DEGREE - 1))\<lparr>b2b_last_node := 1\<rparr>])
       (those (map (blake2bp_init_leaf outlen keylen) [0..<BLAKE2BP_DEGREE]))"

definition blake2bp_init :: "nat \<Rightarrow> blake2bp_state option" where
  "blake2bp_init outlen =
     (if outlen = 0 \<or> BLAKE2B_OUTBYTES < outlen then None
      else case blake2bp_init_root outlen 0 of
        None \<Rightarrow> None
      | Some R \<Rightarrow>
          (case blake2bp_leaves outlen 0 of
             None \<Rightarrow> None
           | Some Ss \<Rightarrow> Some \<lparr>bp_S = Ss, bp_R = R\<lparr>b2b_last_node := 1\<rparr>,
               bp_buf = replicate (BLAKE2BP_DEGREE * BLAKE2B_BLOCKBYTES) 0, bp_buflen = 0,
               bp_outlen = outlen\<rparr>))"

definition blake2bp_init_key :: "nat \<Rightarrow> bytes option \<Rightarrow> nat \<Rightarrow> blake2bp_state option" where
  "blake2bp_init_key outlen key keylen =
     (if outlen = 0 \<or> BLAKE2B_OUTBYTES < outlen then None
      else case key of
        None \<Rightarrow> None
      | Some k \<Rightarrow>
          if keylen = 0 \<or> BLAKE2B_KEYBYTES < keylen then None
          else (case blake2bp_init_root outlen keylen of
            None \<Rightarrow> None
          | Some R \<Rightarrow>
              (case blake2bp_leaves outlen keylen of
                 None \<Rightarrow> None
               | Some Ss \<Rightarrow>
                   let block = memcpy (replicate BLAKE2B_BLOCKBYTES 0) 0 (take keylen k)
                   in Some \<lparr>bp_S = map (\<lambda>S. blake2b_update S block) Ss,
                     bp_R = R\<lparr>b2b_last_node := 1\<rparr>,
                     bp_buf = replicate (BLAKE2BP_DEGREE * BLAKE2B_BLOCKBYTES) 0, bp_buflen = 0,
                     bp_outlen = outlen\<rparr>)))"

section \<open>Update and final\<close>

text \<open>The loop of one leaf over the input: its state, its pointer and the length that is left.\<close>

function blake2bp_lane :: "blake2b_state \<Rightarrow> bytes \<Rightarrow> nat \<Rightarrow> blake2b_state \<times> bytes \<times> nat" where
  "blake2bp_lane S inp inlen =
     (if BLAKE2BP_DEGREE * BLAKE2B_BLOCKBYTES \<le> inlen
      then blake2bp_lane (blake2b_update S (take BLAKE2B_BLOCKBYTES inp))
             (drop (BLAKE2BP_DEGREE * BLAKE2B_BLOCKBYTES) inp) (inlen - BLAKE2BP_DEGREE * BLAKE2B_BLOCKBYTES)
      else (S, inp, inlen))"
  by pat_completeness auto
termination
  by (relation "measure (\<lambda>(S, inp, inlen). inlen)") auto

declare blake2bp_lane.simps [simp del]

definition blake2bp_update :: "blake2bp_state \<Rightarrow> bytes \<Rightarrow> blake2bp_state" where
  "blake2bp_update S inp =
     (let left = bp_buflen S;
          fill = length (bp_buf S) - left;
          (S, inp, left) =
            (if left \<noteq> 0 \<and> fill \<le> length inp then
               (let buf = memcpy (bp_buf S) left (take fill inp)
                in (S\<lparr>bp_buf := buf,
                      bp_S := map (\<lambda>i. blake2b_update (bp_S S ! i)
                        (take BLAKE2B_BLOCKBYTES (drop (i * BLAKE2B_BLOCKBYTES) buf))) [0..<BLAKE2BP_DEGREE]\<rparr>,
                    drop fill inp, 0))
             else (S, inp, left));
          Ss = map (\<lambda>i. fst (blake2bp_lane (bp_S S ! i) (drop (i * BLAKE2B_BLOCKBYTES) inp) (length inp)))
                 [0..<BLAKE2BP_DEGREE];
          rest = drop (length inp - length inp mod (BLAKE2BP_DEGREE * BLAKE2B_BLOCKBYTES)) inp
      in S\<lparr>bp_S := Ss,
           bp_buf := (if 0 < length rest then memcpy (bp_buf S) left rest else bp_buf S),
           bp_buflen := left + length rest\<rparr>)"

text \<open>What a leaf that is finished writes into its row of \<open>hash\<close>; a failed call leaves the row.\<close>

definition blake2bp_leaf_final :: "bytes \<Rightarrow> blake2b_state \<Rightarrow> blake2b_state \<times> bytes" where
  "blake2bp_leaf_final row S =
     (case blake2b_final S False BLAKE2B_OUTBYTES of
        None \<Rightarrow> (S, row) | Some (S', d) \<Rightarrow> (S', memcpy row 0 d))"

text \<open>The state after the call and the bytes written to \<open>out\<close>, none for \<open>-1\<close>.\<close>

definition blake2bp_final :: "bytes list \<Rightarrow> blake2bp_state \<Rightarrow> bool \<Rightarrow> nat \<Rightarrow> blake2bp_state \<times> bytes option" where
  "blake2bp_final hash0 S out_null outlen =
     (if out_null \<or> outlen < bp_outlen S then (S, None)
      else
        (let leaf = (\<lambda>i.
               let B = BLAKE2B_BLOCKBYTES;
                   T = bp_S S ! i;
                   T = (if i * B < bp_buflen S
                        then (let left = bp_buflen S - i * B; left = (if B < left then B else left)
                              in blake2b_update T (take left (drop (i * B) (bp_buf S))))
                        else T)
               in blake2bp_leaf_final (hash0 ! i) T);
             R = fold (\<lambda>i R. blake2b_update R (snd (leaf i))) [0..<BLAKE2BP_DEGREE] (bp_R S);
             S = S\<lparr>bp_S := map (\<lambda>i. fst (leaf i)) [0..<BLAKE2BP_DEGREE], bp_R := R\<rparr>
         in case blake2b_final R out_null (bp_outlen S) of
              None \<Rightarrow> (S, None)
            | Some (R', d) \<Rightarrow> (S\<lparr>bp_R := R'\<rparr>, Some d)))"

definition blake2bp :: "bytes list \<Rightarrow> bool \<Rightarrow> nat \<Rightarrow> bytes option \<Rightarrow> nat \<Rightarrow> bytes option \<Rightarrow> nat \<Rightarrow> bytes option" where
  "blake2bp hash0 out_null outlen inp inlen key keylen =
     (if inp = None \<and> 0 < inlen then None
      else if out_null then None
      else if key = None \<and> 0 < keylen then None
      else if outlen = 0 \<or> BLAKE2B_OUTBYTES < outlen then None
      else if BLAKE2B_KEYBYTES < keylen then None
      else (case blake2bp_leaves outlen keylen of
        None \<Rightarrow> None
      | Some Ss \<Rightarrow>
          let B = BLAKE2B_BLOCKBYTES;
              data = (case inp of None \<Rightarrow> [] | Some x \<Rightarrow> take inlen x);
              block = memcpy (replicate B 0) 0 (take keylen (case key of None \<Rightarrow> [] | Some k \<Rightarrow> k));
              Ss = (if 0 < keylen then map (\<lambda>S. blake2b_update S block) Ss else Ss);
              leaf = (\<lambda>i.
                case blake2bp_lane (Ss ! i) (drop (i * B) data) (length data) of
                  (T, in', inlen') \<Rightarrow>
                    let T = (if i * B < inlen'
                             then (let left = inlen' - i * B; len = (if left \<le> B then left else B)
                                   in blake2b_update T (take len in'))
                             else T)
                    in blake2bp_leaf_final (hash0 ! i) T)
          in (case blake2bp_init_root outlen keylen of
                None \<Rightarrow> None
              | Some FS \<Rightarrow>
                  map_option snd (blake2b_final
                    (fold (\<lambda>i R. blake2b_update R (snd (leaf i))) [0..<BLAKE2BP_DEGREE] (FS\<lparr>b2b_last_node := 1\<rparr>))
                    out_null outlen))))"

section \<open>Lanes of the leaves\<close>

lemma blake2bp_lane_absorbs:
  assumes "blake2b_ok S" and "i < 4"
  shows "\<exists>T. blake2bp_lane S (drop (i * 128) d) (length d) =
      (T, drop (i * 128) (rest 512 d), length (rest 512 d)) \<and> blake2b_ok T \<and>
    blake2b_abs T = blake2b_abs (blake2b_update S (lane 128 4 i (full 512 d)))"
  using assms
proof (induction "length d" arbitrary: d S rule: less_induct)
  case less
  show ?case
  proof (cases "512 \<le> length d")
    case True
    let ?b = "take 128 (drop (i * 128) d)" and ?d = "drop 512 d"
    let ?S = "blake2b_update S ?b"
    have "128 \<le> 512 - i * 128" using less.prems(2) by simp
    then have "?b = take 128 (drop (i * 128) (take 512 d))"
      by (simp add: drop_take min_absorb1)
    then have b: "lane 128 4 i (full 512 d) = ?b @ lane 128 4 i (full 512 ?d)"
      using lane_round [of 128 i 4 "take 512 d"] less.prems(2) True by (simp add: full_step)
    have "blake2bp_lane S (drop (i * 128) d) (length d) =
        blake2bp_lane ?S (drop (i * 128) ?d) (length ?d)"
      using True by (subst blake2bp_lane.simps) (simp add: add.commute)
    moreover have "length ?d < length d" using True by auto
    then obtain T where "blake2bp_lane ?S (drop (i * 128) ?d) (length ?d) =
          (T, drop (i * 128) (rest 512 ?d), length (rest 512 ?d))" "blake2b_ok T"
        "blake2b_abs T = blake2b_abs (blake2b_update ?S (lane 128 4 i (full 512 ?d)))"
      using less.hyps [OF _ b2b.update_ok [OF less.prems(1)] less.prems(2)] by blast
    moreover have "blake2b_abs (blake2b_update ?S (lane 128 4 i (full 512 ?d))) =
        blake2b_abs (blake2b_update S (lane 128 4 i (full 512 d)))"
      using b2b.update_update [OF less.prems(1)] b by simp
    ultimately show ?thesis using True by (simp add: rest_step)
  next
    case False
    then show ?thesis
      using less.prems b2b.update_nil [OF less.prems(1)]
      by (subst blake2bp_lane.simps) (simp add: full_short rest_short)
  qed
qed

section \<open>The specification of the tree\<close>

text \<open>The digest of a sequential state on some data, and the tree over leaves and a root.\<close>

definition digestb :: "nat \<Rightarrow> blake2b_state \<Rightarrow> bytes \<Rightarrow> bytes option" where
  "digestb n S d = map_option snd (blake2b_final (blake2b_update S d) False n)"

definition treeb :: "nat \<Rightarrow> blake2b_state list \<Rightarrow> blake2b_state \<Rightarrow> bytes \<Rightarrow> bytes option" where
  "treeb n Ss R d =
     digestb n R (concat (map (\<lambda>i. the (digestb 64 (Ss ! i) (lane 128 4 i d))) [0..<4]))"

definition leafb_ok :: "blake2b_state \<Rightarrow> bool" where
  "leafb_ok S \<longleftrightarrow> blake2b_ok S \<and> \<not> blake2b_is_lastblock S \<and> b2b_outlen S = 64"

lemma leafb_ok_update: "leafb_ok S \<Longrightarrow> leafb_ok (blake2b_update S x)"
  by (simp add: leafb_ok_def b2b.update_ok blake2b_is_lastblock_def)

lemma leafb_final:
  assumes "leafb_ok S" and "blake2b_ok T" and "blake2b_abs T = blake2b_abs (blake2b_update S d)"
    and "length row = 64"
  shows "snd (blake2bp_leaf_final row T) = the (digestb 64 S d)"
proof -
  from leafb_ok_update [OF assms(1)] obtain S' e
    where e: "blake2b_final (blake2b_update S d) False 64 = Some (S', e)" "length e = 64"
    using blake2b_final_length [of "blake2b_update S d" 64] by (auto simp: leafb_ok_def)
  moreover from leafb_ok_update [OF assms(1)] have "blake2b_ok (blake2b_update S d)"
    by (simp add: leafb_ok_def)
  ultimately obtain T' where "blake2b_final T False 64 = Some (T', e)"
    using blake2b_final_cong [OF assms(2) _ assms(3), of 64] by auto
  with e assms(4) show ?thesis
    by (simp add: blake2bp_leaf_final_def digestb_def memcpy_def)
qed

lemma fold_update_foldlb: "fold (\<lambda>i R. blake2b_update R (f i)) is R = foldl blake2b_update R (map f is)"
  by (induction "is" arbitrary: R) simp_all

lemma rootb_final:
  assumes "blake2b_ok R" and "\<And>i. i < 4 \<Longrightarrow> f i = the (digestb 64 (Ss ! i) (lane 128 4 i d))"
  shows "map_option snd (blake2b_final (fold (\<lambda>i R. blake2b_update R (f i)) [0..<4] R) False n) = treeb n Ss R d"
proof -
  have "map f [0..<4] = map (\<lambda>i. the (digestb 64 (Ss ! i) (lane 128 4 i d))) [0..<4]"
    using assms(2) by simp
  then show ?thesis
    unfolding fold_update_foldlb treeb_def digestb_def by (simp only: b2b.finish_foldl [OF assms(1)])
qed

section \<open>Streaming\<close>

text \<open>A streaming state that started with leaves \<open>Ss\<close> and root \<open>R\<close> and absorbed \<open>d\<close>.\<close>

definition absorbedb :: "blake2b_state list \<Rightarrow> blake2b_state \<Rightarrow> bytes \<Rightarrow> blake2bp_state \<Rightarrow> bool" where
  "absorbedb Ss R d S \<longleftrightarrow> bp_R S = R \<and> length (bp_buf S) = 512 \<and>
     bp_buflen S = length (rest 512 d) \<and> take (bp_buflen S) (bp_buf S) = rest 512 d \<and>
     (\<forall>i<4. blake2b_ok (bp_S S ! i) \<and>
        blake2b_abs (bp_S S ! i) = blake2b_abs (blake2b_update (Ss ! i) (lane 128 4 i (full 512 d))))"

lemma absorb_moreb:
  assumes "blake2b_ok S0" and "blake2b_ok S" and "blake2b_abs S = blake2b_abs (blake2b_update S0 x)"
  shows "blake2b_ok (blake2b_update S y) \<and>
    blake2b_abs (blake2b_update S y) = blake2b_abs (blake2b_update S0 (x @ y))"
  using b2b.update_cong [OF assms(2) b2b.update_ok [OF assms(1)] assms(3)]
    b2b.update_update [OF assms(1)] b2b.update_ok [OF assms(2)] by simp

lemma absorbedb_update:
  assumes abs: "absorbedb Ss R d S" and Ss: "\<And>i. i < 4 \<Longrightarrow> blake2b_ok (Ss ! i)"
  shows "absorbedb Ss R (d @ x) (blake2bp_update S x)"
proof -
  let ?left = "bp_buflen S" and ?r = "rest 512 d"
  let ?fill = "512 - ?left"
  from abs have buf: "length (bp_buf S) = 512" "?left = length ?r" "take ?left (bp_buf S) = ?r"
    and R: "bp_R S = R"
    and leaf: "\<And>i. i < 4 \<Longrightarrow> blake2b_ok (bp_S S ! i)"
      "\<And>i. i < 4 \<Longrightarrow> blake2b_abs (bp_S S ! i) =
         blake2b_abs (blake2b_update (Ss ! i) (lane 128 4 i (full 512 d)))"
    by (auto simp: absorbedb_def)
  have left: "?left < 512" using buf(2) by simp
  define flush where "flush \<longleftrightarrow> ?left \<noteq> 0 \<and> ?fill \<le> length x"
  define buf1 where "buf1 = (if flush then memcpy (bp_buf S) ?left (take ?fill x) else bp_buf S)"
  define S1 where "S1 = (if flush then map (\<lambda>i. blake2b_update (bp_S S ! i)
      (take 128 (drop (i * 128) buf1))) [0..<4] else bp_S S)"
  define x1 where "x1 = (if flush then drop ?fill x else x)"
  define left1 where "left1 = (if flush then 0 else ?left)"
  have update: "blake2bp_update S x = S\<lparr>
      bp_S := map (\<lambda>i. fst (blake2bp_lane (S1 ! i) (drop (i * 128) x1) (length x1))) [0..<4],
      bp_buf := (if 0 < length (rest 512 x1) then memcpy buf1 left1 (rest 512 x1) else buf1),
      bp_buflen := left1 + length (rest 512 x1)\<rparr>"
    unfolding blake2bp_update_def Let_def buf(1)
    by (auto simp: flush_def buf1_def S1_def x1_def left1_def rest_def)
  define a where "a = (if flush then full 512 d @ buf1 else full 512 d)"
  have buf1: "length buf1 = 512" and flushed: "flush \<Longrightarrow> buf1 = ?r @ take ?fill x"
    using buf left by (auto simp: buf1_def memcpy_full flush_def)
  have dx: "d @ x = a @ take left1 buf1 @ x1"
  proof (cases flush)
    case True
    then show ?thesis
      using flushed full_rest [of 512 d] by (simp add: a_def left1_def x1_def)
  next
    case False
    then show ?thesis
      using buf(3) full_rest [of 512 d] by (simp add: a_def left1_def x1_def buf1_def)
  qed
  have "512 dvd length a" using full_dvd [of 512 d] buf1 by (auto simp: a_def)
  moreover have tail: "full 512 (take left1 buf1 @ x1) = full 512 x1 \<and>
      rest 512 (take left1 buf1 @ x1) = take left1 buf1 @ rest 512 x1 \<and> left1 + length (rest 512 x1) < 512"
  proof (cases "left1 = 0")
    case False
    then have "left1 + length x1 < 512" and "left1 = ?left"
      using left by (auto simp: left1_def x1_def flush_def split: if_splits)
    then show ?thesis using buf1 by (simp add: full_short rest_short)
  qed simp
  ultimately have parts: "full 512 (d @ x) = a @ full 512 x1" "rest 512 (d @ x) = take left1 buf1 @ rest 512 x1"
    unfolding dx by (simp_all add: full_append rest_append)
  have S1: "blake2b_ok (S1 ! i) \<and> blake2b_abs (S1 ! i) = blake2b_abs (blake2b_update (Ss ! i) (lane 128 4 i a))"
    if i: "i < 4" for i
  proof (cases flush)
    case True
    have "lane 128 4 i a = lane 128 4 i (full 512 d) @ take 128 (drop (i * 128) buf1)"
      using True i full_dvd [of 512 d] buf1 by (simp add: a_def lane_append lane_short)
    with absorb_moreb [OF Ss [OF i] leaf(1) [OF i] leaf(2) [OF i], of "take 128 (drop (i * 128) buf1)"]
    show ?thesis using True i by (simp add: S1_def)
  next
    case False
    then show ?thesis using leaf i by (simp add: S1_def a_def)
  qed
  have "blake2b_ok (fst (blake2bp_lane (S1 ! i) (drop (i * 128) x1) (length x1))) \<and>
      blake2b_abs (fst (blake2bp_lane (S1 ! i) (drop (i * 128) x1) (length x1))) =
        blake2b_abs (blake2b_update (Ss ! i) (lane 128 4 i (full 512 (d @ x))))" if i: "i < 4" for i
  proof -
    obtain T where T: "blake2bp_lane (S1 ! i) (drop (i * 128) x1) (length x1) =
          (T, drop (i * 128) (rest 512 x1), length (rest 512 x1))" "blake2b_ok T"
        "blake2b_abs T = blake2b_abs (blake2b_update (S1 ! i) (lane 128 4 i (full 512 x1)))"
      using blake2bp_lane_absorbs [of "S1 ! i" i x1] S1 [OF i] i by blast
    moreover have "lane 128 4 i (full 512 (d @ x)) = lane 128 4 i a @ lane 128 4 i (full 512 x1)"
      using i \<open>512 dvd length a\<close> by (simp add: parts lane_append)
    ultimately show ?thesis using absorb_moreb [OF Ss [OF i]] S1 [OF i] by simp
  qed
  moreover have "take (left1 + length (rest 512 x1)) (if 0 < length (rest 512 x1) then memcpy buf1 left1 (rest 512 x1) else buf1) =
      rest 512 (d @ x)" "length (if 0 < length (rest 512 x1) then memcpy buf1 left1 (rest 512 x1) else buf1) = 512"
    using tail buf1 by (auto simp: parts take_memcpy simp del: length_rest)
  moreover have "length (rest 512 (d @ x)) = left1 + length (rest 512 x1)"
    using tail buf1 by (simp add: parts del: length_rest)
  ultimately show ?thesis
    unfolding absorbedb_def update using R by (simp del: length_rest)
qed

lemma absorbedb_foldl:
  "absorbedb Ss R d S \<Longrightarrow> (\<And>i. i < 4 \<Longrightarrow> blake2b_ok (Ss ! i)) \<Longrightarrow>
     absorbedb Ss R (d @ concat xs) (foldl blake2bp_update S xs)"
proof (induction xs arbitrary: d S)
  case (Cons x xs)
  then show ?case using absorbedb_update [OF Cons.prems(1), of x] Cons.IH [of "d @ x"] by simp
qed simp

lemma absorbedb_final:
  assumes "absorbedb Ss R d S" and "\<And>i. i < 4 \<Longrightarrow> leafb_ok (Ss ! i)" and "blake2b_ok R"
    and "\<And>i. i < 4 \<Longrightarrow> length (hash0 ! i) = 64" and "bp_outlen S \<le> n"
  shows "snd (blake2bp_final hash0 S False n) = treeb (bp_outlen S) Ss R d"
proof -
  define T where "T = (\<lambda>i. if i * 128 < bp_buflen S
     then blake2b_update (bp_S S ! i) (take (if 128 < bp_buflen S - i * 128 then 128 else bp_buflen S - i * 128)
            (drop (i * 128) (bp_buf S)))
     else bp_S S ! i)"
  from assms(1) have R: "bp_R S = R" and buf: "take (bp_buflen S) (bp_buf S) = rest 512 d"
      "bp_buflen S = length (rest 512 d)"
    and leaf: "\<And>i. i < 4 \<Longrightarrow> blake2b_ok (bp_S S ! i)"
      "\<And>i. i < 4 \<Longrightarrow> blake2b_abs (bp_S S ! i) =
         blake2b_abs (blake2b_update (Ss ! i) (lane 128 4 i (full 512 d)))"
    by (auto simp: absorbedb_def)
  have digest: "snd (blake2bp_leaf_final (hash0 ! i) (T i)) = the (digestb 64 (Ss ! i) (lane 128 4 i d))"
    if i: "i < 4" for i
  proof -
    have ok: "blake2b_ok (Ss ! i)" using assms(2) [OF i] by (simp add: leafb_ok_def)
    have "512 dvd length (full 512 d)" by (rule full_dvd)
    then have lane: "lane 128 4 i d = lane 128 4 i (full 512 d) @ take 128 (drop (i * 128) (rest 512 d))"
      using i lane_append [of 128 i 4 "full 512 d" "rest 512 d"] lane_short [of "rest 512 d" 4 128 i]
      by (simp add: full_rest less_imp_le)
    have "blake2b_ok (T i) \<and> blake2b_abs (T i) = blake2b_abs (blake2b_update (Ss ! i) (lane 128 4 i d))"
    proof (cases "i * 128 < bp_buflen S")
      case True
      have "take (if 128 < bp_buflen S - i * 128 then 128 else bp_buflen S - i * 128) (drop (i * 128) (bp_buf S)) =
          take 128 (drop (i * 128) (rest 512 d))"
        unfolding buf(1) [symmetric] by (simp add: drop_take min_def)
      with absorb_moreb [OF ok leaf(1) [OF i] leaf(2) [OF i]] True show ?thesis by (simp add: T_def lane)
    next
      case False
      then show ?thesis using leaf i buf(2) by (simp add: T_def lane del: length_rest)
    qed
    with leafb_final [OF assms(2) [OF i]] assms(4) [OF i] show ?thesis by blast
  qed
  let ?root = "fold (\<lambda>i R. blake2b_update R (snd (blake2bp_leaf_final (hash0 ! i) (T i)))) [0..<4] R"
  have "snd (blake2bp_final hash0 S False n) = map_option snd (blake2b_final ?root False (bp_outlen S))"
    using assms(5) unfolding blake2bp_final_def Let_def T_def R blake2b_constants blake2bp_constants
    by (simp split: option.split)
  then show ?thesis
    using rootb_final [of R "\<lambda>i. snd (blake2bp_leaf_final (hash0 ! i) (T i))", OF assms(3) digest] by simp
qed

section \<open>The initial states\<close>

lemma blake2bp_leaf_init:
  assumes "blake2bp_init_leaf nn kk i = Some S"
  shows "leafb_ok S"
  using assms
  by (auto simp: blake2bp_init_leaf_def blake2bp_init_leaf_param_def blake2b_init_param_def
      blake2b_init0_def leafb_ok_def blake2b_ok_def blake2b_is_lastblock_def Let_def)

lemma blake2bp_leaf_exists: "\<exists>S. blake2bp_init_leaf nn kk i = Some S"
  by (simp add: blake2bp_init_leaf_def blake2bp_init_leaf_param_def blake2b_init_param_def Let_def)

lemma leafb_ok_last_node: "leafb_ok S \<Longrightarrow> leafb_ok (S\<lparr>b2b_last_node := v\<rparr>)"
  by (simp add: leafb_ok_def blake2b_ok_def blake2b_is_lastblock_def)

lemma blake2bp_leaves_ok:
  "\<exists>Ss. blake2bp_leaves nn kk = Some Ss \<and> length Ss = 4 \<and> (\<forall>i<4. leafb_ok (Ss ! i))"
proof -
  define g where "g = (\<lambda>i. the (blake2bp_init_leaf nn kk i))"
  have g: "blake2bp_init_leaf nn kk i = Some (g i)" for i
    using blake2bp_leaf_exists [of nn kk i] by (auto simp: g_def)
  then have ok: "leafb_ok (g i)" for i using blake2bp_leaf_init by blast
  let ?Ss = "(map g [0..<4])[4 - 1 := (map g [0..<4] ! (4 - 1))\<lparr>b2b_last_node := 1\<rparr>]"
  have "blake2bp_leaves nn kk = Some ?Ss"
    using those_map_Some [of "[0..<4]" "blake2bp_init_leaf nn kk" g] g by (simp add: blake2bp_leaves_def)
  moreover have "leafb_ok (?Ss ! i)" if "i < 4" for i
    using that ok leafb_ok_last_node by (simp add: nth_list_update)
  moreover have "length ?Ss = 4" unfolding length_list_update length_map by simp
  ultimately show ?thesis by blast
qed

lemma blake2bp_root_ok: "\<exists>R. blake2bp_init_root nn kk = Some R \<and> blake2b_ok R"
proof -
  obtain R where R: "blake2bp_init_root nn kk = Some R"
    by (simp add: blake2bp_init_root_def blake2b_init_param_def Let_def)
  then have "blake2b_ok R" unfolding blake2bp_init_root_def by (rule blake2b_init_param_ok)
  with R show ?thesis by blast
qed

section \<open>Properties\<close>

text \<open>The leaves and the root every entry point starts from.\<close>

definition startbp :: "nat \<Rightarrow> bytes \<Rightarrow> blake2b_state list \<times> blake2b_state" where
  "startbp outlen k =
     (let Ss = the (blake2bp_leaves outlen (length k));
          block = k @ replicate (128 - length k) 0
      in (if k = [] then Ss else map (\<lambda>S. blake2b_update S block) Ss,
          the (blake2bp_init_root outlen (length k))\<lparr>b2b_last_node := 1\<rparr>))"

lemma startbp_ok:
  assumes "startbp outlen k = (Ss, R)"
  shows "length Ss = 4" "\<And>i. i < 4 \<Longrightarrow> leafb_ok (Ss ! i)" "blake2b_ok R"
proof -
  obtain Ss0 where Ss0: "blake2bp_leaves outlen (length k) = Some Ss0" "length Ss0 = 4"
      "\<And>i. i < 4 \<Longrightarrow> leafb_ok (Ss0 ! i)"
    using blake2bp_leaves_ok [of outlen "length k"] by blast
  then show "length Ss = 4" "\<And>i. i < 4 \<Longrightarrow> leafb_ok (Ss ! i)"
    using assms leafb_ok_update by (auto simp: startbp_def Let_def)
  show "blake2b_ok R"
    using assms blake2bp_root_ok [of outlen "length k"] by (auto simp: startbp_def Let_def blake2b_ok_def)
qed

text \<open>C31: \<open>blake2bp\<close> is the tree hash: the root's sequential hash of the digests of the 4 leaves,
  leaf \<open>i\<close> over the blocks of the message with number \<open>i\<close> modulo 4, whatever the uninitialised
  array held.\<close>

theorem blake2bp_is_tree:
  assumes "0 < outlen" and "outlen \<le> 64" and "length k \<le> 64"
    and "\<forall>i<4. length (hash0 ! i) = 64" and "startbp outlen k = (Ss, R)"
  shows "blake2bp hash0 False outlen (Some d) (length d) (Some k) (length k) = treeb outlen Ss R d"
proof -
  note start = startbp_ok [OF assms(5)]
  obtain Ss0 where Ss0: "blake2bp_leaves outlen (length k) = Some Ss0" using blake2bp_leaves_ok [of outlen "length k"] by blast
  obtain R0 where R0: "blake2bp_init_root outlen (length k) = Some R0" using blake2bp_root_ok by blast
  have Ss: "(if 0 < length k then map (\<lambda>S. blake2b_update S (memcpy (replicate 128 0) 0 (take (length k) k))) Ss0
      else Ss0) = Ss" and R: "R0\<lparr>b2b_last_node := 1\<rparr> = R"
    using assms(3,5) Ss0 R0 by (auto simp: startbp_def Let_def memcpy_def)
  define leaf where "leaf = (\<lambda>i. case blake2bp_lane (Ss ! i) (drop (i * 128) d) (length d) of
      (T, in', inlen') \<Rightarrow> blake2bp_leaf_final (hash0 ! i)
        (if i * 128 < inlen'
         then blake2b_update T (take (if inlen' - i * 128 \<le> 128 then inlen' - i * 128 else 128) in')
         else T))"
  have digest: "snd (leaf i) = the (digestb 64 (Ss ! i) (lane 128 4 i d))" if i: "i < 4" for i
  proof -
    have ok: "blake2b_ok (Ss ! i)" using start(2) [OF i] by (simp add: leafb_ok_def)
    obtain T where T: "blake2bp_lane (Ss ! i) (drop (i * 128) d) (length d) =
          (T, drop (i * 128) (rest 512 d), length (rest 512 d))" "blake2b_ok T"
        "blake2b_abs T = blake2b_abs (blake2b_update (Ss ! i) (lane 128 4 i (full 512 d)))"
      using blake2bp_lane_absorbs [OF ok i] by blast
    have "512 dvd length (full 512 d)" by (rule full_dvd)
    then have lane: "lane 128 4 i d = lane 128 4 i (full 512 d) @ take 128 (drop (i * 128) (rest 512 d))"
      using i lane_append [of 128 i 4 "full 512 d" "rest 512 d"] lane_short [of "rest 512 d" 4 128 i]
      by (simp add: full_rest less_imp_le)
    let ?r = "rest 512 d"
    let ?T = "if i * 128 < length ?r
      then blake2b_update T (take (if length ?r - i * 128 \<le> 128 then length ?r - i * 128 else 128) (drop (i * 128) ?r))
      else T"
    have "blake2b_ok ?T \<and> blake2b_abs ?T = blake2b_abs (blake2b_update (Ss ! i) (lane 128 4 i d))"
    proof (cases "i * 128 < length ?r")
      case True
      have "take (if length ?r - i * 128 \<le> 128 then length ?r - i * 128 else 128) (drop (i * 128) ?r) =
          take 128 (drop (i * 128) ?r)"
        by (simp del: length_rest)
      with absorb_moreb [OF ok T(2,3)] True show ?thesis by (simp add: lane del: length_rest)
    next
      case False
      then show ?thesis using T by (simp add: lane del: length_rest)
    qed
    moreover have "leaf i = blake2bp_leaf_final (hash0 ! i) ?T" unfolding leaf_def T(1) prod.case ..
    ultimately show ?thesis using leafb_final [OF start(2) [OF i]] assms(4) i by simp
  qed
  have "blake2bp hash0 False outlen (Some d) (length d) (Some k) (length k) =
      map_option snd (blake2b_final (fold (\<lambda>i R. blake2b_update R (snd (leaf i))) [0..<4] R) False outlen)"
    using assms(1-3) Ss0 R0 Ss R
    by (simp add: blake2bp_def leaf_def Let_def split_beta if_distrib [of fst] cong: if_cong)
  then show ?thesis using rootb_final [OF start(3) digest] by simp
qed

theorem blake2bp_is_tree_witness:
  "blake2bp (replicate 4 (replicate 64 7)) False 32 (Some [1, 2, 3]) (length [1, 2, 3 :: u8]) (Some []) (length ([] :: bytes)) =
     (case startbp 32 [] of (Ss, R) \<Rightarrow> treeb 32 Ss R [1, 2, 3])"
proof -
  obtain Ss R where start: "startbp 32 [] = (Ss, R)" by fastforce
  have "blake2bp (replicate 4 (replicate 64 7)) False 32 (Some [1, 2, 3]) (length [1, 2, 3 :: u8])
      (Some []) (length ([] :: bytes)) = treeb 32 Ss R [1, 2, 3]"
    by (rule blake2bp_is_tree [OF _ _ _ _ start]) simp_all
  with start show ?thesis by simp
qed

text \<open>the streaming interface computes what the one call does, for any pieces of the message.\<close>

theorem blake2bp_stream_is_tree:
  assumes "length k \<le> 64" and "\<forall>i<4. length (hash0 ! i) = 64" and "startbp outlen k = (Ss, R)"
    and "(if k = [] then blake2bp_init outlen else blake2bp_init_key outlen (Some k) (length k)) = Some S"
  shows "snd (blake2bp_final hash0 (foldl blake2bp_update S xs) False outlen) = treeb outlen Ss R (concat xs)"
proof -
  note start = startbp_ok [OF assms(3)]
  have S: "bp_R S = R" "bp_S S = Ss" "bp_buflen S = 0" "length (bp_buf S) = 512" "bp_outlen S = outlen"
    using assms by (auto simp: startbp_def blake2bp_init_def blake2bp_init_key_def Let_def memcpy_def
        split: if_splits option.splits)
  have "absorbedb Ss R [] S"
    using S start(2) b2b.update_nil by (auto simp: absorbedb_def leafb_ok_def full_def rest_def)
  then have "absorbedb Ss R (concat xs) (foldl blake2bp_update S xs)"
    using absorbedb_foldl [of Ss R "[]" S xs] start(2) by (simp add: leafb_ok_def)
  moreover have "bp_outlen (foldl blake2bp_update S xs) = outlen"
    using S(5) by (induction xs arbitrary: S) (simp_all add: blake2bp_update_def Let_def split_beta)
  ultimately show ?thesis
    using absorbedb_final [OF _ start(2,3), of "concat xs" _ hash0 outlen] assms(2) by simp
qed

theorem blake2bp_stream_is_tree_witness:
  "\<exists>S. blake2bp_init 32 = Some S \<and>
     snd (blake2bp_final (replicate 4 (replicate 64 0)) (foldl blake2bp_update S [[1], [2, 3]]) False 32) =
       (case startbp 32 [] of (Ss, R) \<Rightarrow> treeb 32 Ss R [1, 2, 3])"
proof -
  obtain Ss R where start: "startbp 32 [] = (Ss, R)" by fastforce
  obtain R0 where R0: "blake2bp_init_root 32 0 = Some R0" using blake2bp_root_ok by blast
  obtain Ss0 where "blake2bp_leaves 32 0 = Some Ss0" using blake2bp_leaves_ok [of 32 0] by blast
  with R0 obtain S where S: "blake2bp_init 32 = Some S" by (simp add: blake2bp_init_def)
  have "snd (blake2bp_final (replicate 4 (replicate 64 0)) (foldl blake2bp_update S [[1], [2, 3]]) False 32) =
      treeb 32 Ss R (concat [[1], [2, 3]])"
    by (rule blake2bp_stream_is_tree [OF _ _ start]) (simp_all add: S)
  with S start show ?thesis by simp
qed

end
