(* ===== verification/Blake2bSSE.thy ===== *)
theory Blake2bSSE
  imports Blake2b
begin

text \<open>
  BLAKE2b with SSE2 (\<open>blake2/sse/blake2b.c\<close>, \<open>blake2b-round.h\<close>, \<open>blake2b-load-sse2.h\<close>), which
  the default build links. A vector register is the pair of its low and high 64 bit lane, the
  intrinsics act on the lanes as the instruction set defines them. The functions around the
  compression are those of this source file, on the same state and parameter block. Proved
  equal to the reference implementation.
\<close>

section \<open>Vector registers\<close>

type_synonym m128i = "u64 \<times> u64"

definition mm_set_epi64x :: "u64 \<Rightarrow> u64 \<Rightarrow> m128i" where
  "mm_set_epi64x e1 e0 = (e0, e1)"

definition mm_add_epi64 :: "m128i \<Rightarrow> m128i \<Rightarrow> m128i" where
  "mm_add_epi64 a b = (fst a + fst b, snd a + snd b)"

definition mm_xor_si128 :: "m128i \<Rightarrow> m128i \<Rightarrow> m128i" where
  "mm_xor_si128 a b = (fst a XOR fst b, snd a XOR snd b)"

definition mm_srli_epi64 :: "m128i \<Rightarrow> nat \<Rightarrow> m128i" where
  "mm_srli_epi64 a n = (drop_bit n (fst a), drop_bit n (snd a))"

definition mm_slli_epi64 :: "m128i \<Rightarrow> nat \<Rightarrow> m128i" where
  "mm_slli_epi64 a n = (push_bit n (fst a), push_bit n (snd a))"

definition mm_unpacklo_epi64 :: "m128i \<Rightarrow> m128i \<Rightarrow> m128i" where
  "mm_unpacklo_epi64 a b = (fst a, fst b)"

definition mm_unpackhi_epi64 :: "m128i \<Rightarrow> m128i \<Rightarrow> m128i" where
  "mm_unpackhi_epi64 a b = (snd a, snd b)"

text \<open>\<open>LOADU\<close> and \<open>STOREU\<close> on two adjacent words of an array.\<close>

definition LOADU :: "u64 list \<Rightarrow> m128i" where
  "LOADU p = (p ! 0, p ! 1)"

definition STOREU :: "u64 list \<Rightarrow> nat \<Rightarrow> m128i \<Rightarrow> u64 list" where
  "STOREU a i r = a[i := fst r, i + 1 := snd r]"

lemmas mm_defs = mm_set_epi64x_def mm_add_epi64_def mm_xor_si128_def mm_srli_epi64_def
  mm_slli_epi64_def mm_unpacklo_epi64_def mm_unpackhi_epi64_def

section \<open>The round\<close>

definition mm_roti_epi64 :: "m128i \<Rightarrow> int \<Rightarrow> m128i" where
  "mm_roti_epi64 r c =
     mm_xor_si128 (mm_srli_epi64 r (nat (- c))) (mm_slli_epi64 r (64 - nat (- c)))"

record sse_rows =
  row1l :: m128i
  row1h :: m128i
  row2l :: m128i
  row2h :: m128i
  row3l :: m128i
  row3h :: m128i
  row4l :: m128i
  row4h :: m128i

definition sse_G1 :: "m128i \<Rightarrow> m128i \<Rightarrow> sse_rows \<Rightarrow> sse_rows" where
  "sse_G1 b0 b1 R =
     (let R = R\<lparr>row1l := mm_add_epi64 (mm_add_epi64 (row1l R) b0) (row2l R)\<rparr>;
          R = R\<lparr>row1h := mm_add_epi64 (mm_add_epi64 (row1h R) b1) (row2h R)\<rparr>;
          R = R\<lparr>row4l := mm_xor_si128 (row4l R) (row1l R)\<rparr>;
          R = R\<lparr>row4h := mm_xor_si128 (row4h R) (row1h R)\<rparr>;
          R = R\<lparr>row4l := mm_roti_epi64 (row4l R) (-32)\<rparr>;
          R = R\<lparr>row4h := mm_roti_epi64 (row4h R) (-32)\<rparr>;
          R = R\<lparr>row3l := mm_add_epi64 (row3l R) (row4l R)\<rparr>;
          R = R\<lparr>row3h := mm_add_epi64 (row3h R) (row4h R)\<rparr>;
          R = R\<lparr>row2l := mm_xor_si128 (row2l R) (row3l R)\<rparr>;
          R = R\<lparr>row2h := mm_xor_si128 (row2h R) (row3h R)\<rparr>;
          R = R\<lparr>row2l := mm_roti_epi64 (row2l R) (-24)\<rparr>
      in R\<lparr>row2h := mm_roti_epi64 (row2h R) (-24)\<rparr>)"

definition sse_G2 :: "m128i \<Rightarrow> m128i \<Rightarrow> sse_rows \<Rightarrow> sse_rows" where
  "sse_G2 b0 b1 R =
     (let R = R\<lparr>row1l := mm_add_epi64 (mm_add_epi64 (row1l R) b0) (row2l R)\<rparr>;
          R = R\<lparr>row1h := mm_add_epi64 (mm_add_epi64 (row1h R) b1) (row2h R)\<rparr>;
          R = R\<lparr>row4l := mm_xor_si128 (row4l R) (row1l R)\<rparr>;
          R = R\<lparr>row4h := mm_xor_si128 (row4h R) (row1h R)\<rparr>;
          R = R\<lparr>row4l := mm_roti_epi64 (row4l R) (-16)\<rparr>;
          R = R\<lparr>row4h := mm_roti_epi64 (row4h R) (-16)\<rparr>;
          R = R\<lparr>row3l := mm_add_epi64 (row3l R) (row4l R)\<rparr>;
          R = R\<lparr>row3h := mm_add_epi64 (row3h R) (row4h R)\<rparr>;
          R = R\<lparr>row2l := mm_xor_si128 (row2l R) (row3l R)\<rparr>;
          R = R\<lparr>row2h := mm_xor_si128 (row2h R) (row3h R)\<rparr>;
          R = R\<lparr>row2l := mm_roti_epi64 (row2l R) (-63)\<rparr>
      in R\<lparr>row2h := mm_roti_epi64 (row2h R) (-63)\<rparr>)"

text \<open>The branch without SSSE3, with the temporaries \<open>t0\<close> and \<open>t1\<close>.\<close>

definition DIAGONALIZE :: "sse_rows \<Rightarrow> sse_rows" where
  "DIAGONALIZE R =
     (let t0 = row4l R;
          t1 = row2l R;
          R = R\<lparr>row4l := row3l R\<rparr>;
          R = R\<lparr>row3l := row3h R\<rparr>;
          R = R\<lparr>row3h := row4l R\<rparr>;
          R = R\<lparr>row4l := mm_unpackhi_epi64 (row4h R) (mm_unpacklo_epi64 t0 t0)\<rparr>;
          R = R\<lparr>row4h := mm_unpackhi_epi64 t0 (mm_unpacklo_epi64 (row4h R) (row4h R))\<rparr>;
          R = R\<lparr>row2l := mm_unpackhi_epi64 (row2l R) (mm_unpacklo_epi64 (row2h R) (row2h R))\<rparr>
      in R\<lparr>row2h := mm_unpackhi_epi64 (row2h R) (mm_unpacklo_epi64 t1 t1)\<rparr>)"

definition UNDIAGONALIZE :: "sse_rows \<Rightarrow> sse_rows" where
  "UNDIAGONALIZE R =
     (let t0 = row3l R;
          R = R\<lparr>row3l := row3h R\<rparr>;
          R = R\<lparr>row3h := t0\<rparr>;
          t0 = row2l R;
          t1 = row4l R;
          R = R\<lparr>row2l := mm_unpackhi_epi64 (row2h R) (mm_unpacklo_epi64 (row2l R) (row2l R))\<rparr>;
          R = R\<lparr>row2h := mm_unpackhi_epi64 t0 (mm_unpacklo_epi64 (row2h R) (row2h R))\<rparr>;
          R = R\<lparr>row4l := mm_unpackhi_epi64 (row4l R) (mm_unpacklo_epi64 (row4h R) (row4h R))\<rparr>
      in R\<lparr>row4h := mm_unpackhi_epi64 (row4h R) (mm_unpacklo_epi64 t1 t1)\<rparr>)"

text \<open>The macros \<open>LOAD_MSG_r_k\<close>: the four message words each of them names, in its order.\<close>

definition LOAD_MSG_words :: "(nat \<times> nat \<times> nat \<times> nat) list list" where
  "LOAD_MSG_words =
    [[(2, 0, 6, 4), (3, 1, 7, 5), (10, 8, 14, 12), (11, 9, 15, 13)],
     [(4, 14, 13, 9), (8, 10, 6, 15), (0, 1, 5, 11), (2, 12, 3, 7)],
     [(12, 11, 15, 5), (0, 8, 13, 2), (3, 10, 9, 7), (6, 14, 4, 1)],
     [(3, 7, 11, 13), (1, 9, 14, 12), (5, 2, 15, 4), (10, 6, 8, 0)],
     [(5, 9, 10, 2), (7, 0, 15, 4), (11, 14, 3, 6), (12, 1, 13, 8)],
     [(6, 2, 8, 0), (10, 12, 3, 11), (7, 4, 1, 15), (5, 13, 9, 14)],
     [(1, 12, 4, 14), (15, 5, 10, 13), (6, 0, 8, 9), (3, 7, 11, 2)],
     [(7, 13, 3, 12), (14, 11, 9, 1), (15, 5, 2, 8), (4, 0, 10, 6)],
     [(14, 6, 0, 11), (9, 15, 8, 3), (13, 12, 10, 1), (7, 2, 5, 4)],
     [(8, 10, 1, 7), (4, 2, 5, 6), (9, 15, 13, 3), (14, 11, 0, 12)],
     [(2, 0, 6, 4), (3, 1, 7, 5), (10, 8, 14, 12), (11, 9, 15, 13)],
     [(4, 14, 13, 9), (8, 10, 6, 15), (0, 1, 5, 11), (2, 12, 3, 7)]]"

definition LOAD_MSG :: "u64 list \<Rightarrow> nat \<Rightarrow> nat \<Rightarrow> m128i \<times> m128i" where
  "LOAD_MSG m r k = (case LOAD_MSG_words ! r ! (k - 1) of
     (a, b, c, d) \<Rightarrow> (mm_set_epi64x (m ! a) (m ! b), mm_set_epi64x (m ! c) (m ! d)))"

definition sse_ROUND :: "u64 list \<Rightarrow> nat \<Rightarrow> sse_rows \<Rightarrow> sse_rows" where
  "sse_ROUND m r R =
     (let (b0, b1) = LOAD_MSG m r 1; R = sse_G1 b0 b1 R;
          (b0, b1) = LOAD_MSG m r 2; R = sse_G2 b0 b1 R;
          R = DIAGONALIZE R;
          (b0, b1) = LOAD_MSG m r 3; R = sse_G1 b0 b1 R;
          (b0, b1) = LOAD_MSG m r 4; R = sse_G2 b0 b1 R
      in UNDIAGONALIZE R)"

section \<open>The functions of the file\<close>

definition sse_blake2b_compress :: "blake2b_state \<Rightarrow> bytes \<Rightarrow> blake2b_state" where
  "sse_blake2b_compress S block =
     (let m = map (\<lambda>i. load64 (drop (i * 8) block)) [0..<16];
          R = \<lparr>row1l = LOADU (drop 0 (b2b_h S)), row1h = LOADU (drop 2 (b2b_h S)),
               row2l = LOADU (drop 4 (b2b_h S)), row2h = LOADU (drop 6 (b2b_h S)),
               row3l = LOADU (drop 0 blake2b_IV), row3h = LOADU (drop 2 blake2b_IV),
               row4l = mm_xor_si128 (LOADU (drop 4 blake2b_IV)) (LOADU (drop 0 (b2b_t S))),
               row4h = mm_xor_si128 (LOADU (drop 6 blake2b_IV)) (LOADU (drop 0 (b2b_f S)))\<rparr>;
          R = fold (sse_ROUND m) [0..<12] R;
          R = R\<lparr>row1l := mm_xor_si128 (row3l R) (row1l R)\<rparr>;
          R = R\<lparr>row1h := mm_xor_si128 (row3h R) (row1h R)\<rparr>;
          h = STOREU (b2b_h S) 0 (mm_xor_si128 (LOADU (drop 0 (b2b_h S))) (row1l R));
          h = STOREU h 2 (mm_xor_si128 (LOADU (drop 2 h)) (row1h R));
          R = R\<lparr>row2l := mm_xor_si128 (row4l R) (row2l R)\<rparr>;
          R = R\<lparr>row2h := mm_xor_si128 (row4h R) (row2h R)\<rparr>;
          h = STOREU h 4 (mm_xor_si128 (LOADU (drop 4 h)) (row2l R));
          h = STOREU h 6 (mm_xor_si128 (LOADU (drop 6 h)) (row2h R))
      in S\<lparr>b2b_h := h\<rparr>)"

text \<open>The counter and flag helpers are the same text as in the reference file.\<close>

definition sse_blake2b_increment_counter :: "blake2b_state \<Rightarrow> u64 \<Rightarrow> blake2b_state" where
  "sse_blake2b_increment_counter S inc =
     (let t0 = b2b_t S ! 0 + inc
      in S\<lparr>b2b_t := (b2b_t S)[0 := t0, 1 := b2b_t S ! 1 + (if t0 < inc then 1 else 0)]\<rparr>)"

definition sse_blake2b_set_lastblock :: "blake2b_state \<Rightarrow> blake2b_state" where
  "sse_blake2b_set_lastblock S =
     (let S = (if b2b_last_node S \<noteq> 0 then S\<lparr>b2b_f := (b2b_f S)[1 := -1]\<rparr> else S)
      in S\<lparr>b2b_f := (b2b_f S)[0 := -1]\<rparr>)"

text \<open>The bytes of the word array \<open>h\<close>, and a word array read from bytes (little endian).\<close>

definition words_mem :: "u64 list \<Rightarrow> bytes" where
  "words_mem h = concat (map (le_bytes 8) h)"

definition mem_words :: "bytes \<Rightarrow> u64 list" where
  "mem_words p = map (\<lambda>i. le_word (take 8 (drop (8 * i) p))) [0..<8]"

definition sse_blake2b_init_param :: "blake2b_param \<Rightarrow> blake2b_state option" where
  "sse_blake2b_init_param P =
     (let v = words_mem blake2b_IV;
          p = blake2b_param_bytes P;
          S = \<lparr>b2b_h = replicate 8 0, b2b_t = [0, 0], b2b_f = [0, 0],
               b2b_buf = replicate BLAKE2B_BLOCKBYTES 0, b2b_buflen = 0, b2b_outlen = 0,
               b2b_last_node = 0\<rparr>;
          h = map (\<lambda>i. v ! i XOR p ! i) [0..<BLAKE2B_OUTBYTES]
      in Some (S\<lparr>b2b_h := mem_words h, b2b_outlen := unat (p2b_digest_length P)\<rparr>))"

function sse_blake2b_blocks :: "blake2b_state \<Rightarrow> bytes \<Rightarrow> blake2b_state \<times> bytes" where
  "sse_blake2b_blocks S inp =
     (if BLAKE2B_BLOCKBYTES < length inp
      then sse_blake2b_blocks
             (sse_blake2b_compress (sse_blake2b_increment_counter S (of_nat BLAKE2B_BLOCKBYTES))
               (take BLAKE2B_BLOCKBYTES inp))
             (drop BLAKE2B_BLOCKBYTES inp)
      else (S, inp))"
  by pat_completeness auto
termination
  by (relation "measure (\<lambda>(S, inp). length inp)") auto

declare sse_blake2b_blocks.simps [simp del]

definition sse_blake2b_update :: "blake2b_state \<Rightarrow> bytes \<Rightarrow> blake2b_state" where
  "sse_blake2b_update S inp =
     (if 0 < length inp then
        (let left = b2b_buflen S;
             fill = BLAKE2B_BLOCKBYTES - left;
             (S, inp) =
               (if fill < length inp then
                  (let S = S\<lparr>b2b_buflen := 0, b2b_buf := memcpy (b2b_buf S) left (take fill inp)\<rparr>;
                       S = sse_blake2b_increment_counter S (of_nat BLAKE2B_BLOCKBYTES);
                       S = sse_blake2b_compress S (b2b_buf S)
                   in sse_blake2b_blocks S (drop fill inp))
                else (S, inp))
         in S\<lparr>b2b_buf := memcpy (b2b_buf S) (b2b_buflen S) inp,
              b2b_buflen := b2b_buflen S + length inp\<rparr>)
      else S)"

definition sse_blake2b_final :: "blake2b_state \<Rightarrow> bool \<Rightarrow> nat \<Rightarrow> (blake2b_state \<times> bytes) option" where
  "sse_blake2b_final S out_null outlen =
     (if out_null \<or> outlen < b2b_outlen S then None
      else if b2b_f S ! 0 \<noteq> 0 then None
      else
        (let S = sse_blake2b_increment_counter S (of_nat (b2b_buflen S));
             S = sse_blake2b_set_lastblock S;
             S = S\<lparr>b2b_buf := memcpy (b2b_buf S) (b2b_buflen S)
                    (replicate (BLAKE2B_BLOCKBYTES - b2b_buflen S) 0)\<rparr>;
             S = sse_blake2b_compress S (b2b_buf S)
         in Some (S, take (b2b_outlen S) (words_mem (b2b_h S)))))"

definition sse_blake2b_init :: "nat \<Rightarrow> blake2b_state option" where
  "sse_blake2b_init outlen =
     (if outlen = 0 \<or> BLAKE2B_OUTBYTES < outlen then None
      else sse_blake2b_init_param (blake2b_seq_param outlen 0))"

text \<open>
  No test for a null key here: the callers make it. \<open>None\<close> for the key is the undefined copy from
  a null pointer; no state is claimed for it. The parameter step cannot fail.
\<close>

definition sse_blake2b_init_key :: "nat \<Rightarrow> bytes option \<Rightarrow> nat \<Rightarrow> blake2b_state option" where
  "sse_blake2b_init_key outlen key keylen =
     (if outlen = 0 \<or> BLAKE2B_OUTBYTES < outlen then None
      else if keylen = 0 \<or> BLAKE2B_KEYBYTES < keylen then None
      else (case sse_blake2b_init_param (blake2b_seq_param outlen keylen) of
              None \<Rightarrow> None
            | Some S \<Rightarrow>
                (case key of
                   None \<Rightarrow> None
                 | Some k \<Rightarrow>
                     let block = memcpy (replicate BLAKE2B_BLOCKBYTES 0) 0 (take keylen k)
                     in Some (sse_blake2b_update S block))))"

definition sse_blake2b :: "bool \<Rightarrow> nat \<Rightarrow> bytes option \<Rightarrow> nat \<Rightarrow> bytes option \<Rightarrow> nat \<Rightarrow> bytes option" where
  "sse_blake2b out_null outlen inp inlen key keylen =
     (if inp = None \<and> 0 < inlen then None
      else if out_null then None
      else if key = None \<and> 0 < keylen then None
      else if outlen = 0 \<or> BLAKE2B_OUTBYTES < outlen then None
      else if BLAKE2B_KEYBYTES < keylen then None
      else case (if keylen \<noteq> 0 then sse_blake2b_init_key outlen key keylen
                 else sse_blake2b_init outlen) of
             None \<Rightarrow> None
           | Some S \<Rightarrow>
               let S = sse_blake2b_update S (case inp of None \<Rightarrow> [] | Some i \<Rightarrow> take inlen i)
               in (case sse_blake2b_final S out_null outlen of
                     None \<Rightarrow> Some []
                   | Some (S', digest) \<Rightarrow> Some digest))"

section \<open>One round\<close>

lemma roti_rotr: "0 < c \<Longrightarrow> c < 64 \<Longrightarrow> mm_roti_epi64 r (- int c) = (word_rotr c (fst r), word_rotr c (snd r))"
proof -
  assume c: "0 < c" "c < 64"
  have "drop_bit c w XOR push_bit (64 - c) w = rotr64 w c" for w :: u64
    unfolding rotr64_def
    by (rule bit_word_eqI)
      (use c in \<open>auto simp: bit_or_iff bit_xor_iff bit_drop_bit_eq bit_push_bit_iff dest: bit_imp_le_length\<close>)
  with c show ?thesis
    by (simp add: mm_roti_epi64_def mm_defs rotr64_word_rotr)
qed

lemmas roti_numerals = roti_rotr [of 32, simplified] roti_rotr [of 24, simplified]
  roti_rotr [of 16, simplified] roti_rotr [of 63, simplified]

text \<open>The rows of a working vector.\<close>

definition rows_of :: "u64 list \<Rightarrow> sse_rows" where
  "rows_of v = \<lparr>row1l = (v ! 0, v ! 1), row1h = (v ! 2, v ! 3), row2l = (v ! 4, v ! 5),
     row2h = (v ! 6, v ! 7), row3l = (v ! 8, v ! 9), row3h = (v ! 10, v ! 11),
     row4l = (v ! 12, v ! 13), row4h = (v ! 14, v ! 15)\<rparr>"

text \<open>The order of the additions in \<open>G1\<close> and \<open>G2\<close>.\<close>

lemma mixb_sse: "mixb x y (a, b, c, d) =
  (let a = a + x + b; d = word_rotr 32 (d XOR a);
       c = c + d; b = word_rotr 24 (b XOR c);
       a = a + y + b; d = word_rotr 16 (d XOR a);
       c = c + d; b = word_rotr 63 (b XOR c)
   in (a, b, c, d))"
proof -
  have comm: "p + q + r = p + r + q" for p q r :: u64 by simp
  show ?thesis
    unfolding mixb_def prod.case comm [of a x b] Let_def
    by (simp only: comm [of _ y])
qed

text \<open>The two halves of a step mix the four columns of the rows.\<close>

lemma sse_G_mix:
  "sse_G2 (y0, y1) (y2, y3) (sse_G1 (x0, x1) (x2, x3)
     \<lparr>row1l = (a0, a1), row1h = (a2, a3), row2l = (b0, b1), row2h = (b2, b3),
      row3l = (c0, c1), row3h = (c2, c3), row4l = (d0, d1), row4h = (d2, d3)\<rparr>) =
   (let (a0, b0, c0, d0) = mixb x0 y0 (a0, b0, c0, d0);
        (a1, b1, c1, d1) = mixb x1 y1 (a1, b1, c1, d1);
        (a2, b2, c2, d2) = mixb x2 y2 (a2, b2, c2, d2);
        (a3, b3, c3, d3) = mixb x3 y3 (a3, b3, c3, d3)
    in \<lparr>row1l = (a0, a1), row1h = (a2, a3), row2l = (b0, b1), row2h = (b2, b3),
        row3l = (c0, c1), row3h = (c2, c3), row4l = (d0, d1), row4h = (d2, d3)\<rparr>)"
  by (simp add: sse_G1_def sse_G2_def mm_defs roti_numerals mixb_sse Let_def)

lemma LOAD_MSG_sigma:
  assumes "r < 12"
  shows "LOAD_MSG m r 1 = ((m ! (blake2b_sigma ! r ! 0), m ! (blake2b_sigma ! r ! 2)),
      (m ! (blake2b_sigma ! r ! 4), m ! (blake2b_sigma ! r ! 6)))"
    "LOAD_MSG m r 2 = ((m ! (blake2b_sigma ! r ! 1), m ! (blake2b_sigma ! r ! 3)),
      (m ! (blake2b_sigma ! r ! 5), m ! (blake2b_sigma ! r ! 7)))"
    "LOAD_MSG m r 3 = ((m ! (blake2b_sigma ! r ! 8), m ! (blake2b_sigma ! r ! 10)),
      (m ! (blake2b_sigma ! r ! 12), m ! (blake2b_sigma ! r ! 14)))"
    "LOAD_MSG m r 4 = ((m ! (blake2b_sigma ! r ! 9), m ! (blake2b_sigma ! r ! 11)),
      (m ! (blake2b_sigma ! r ! 13), m ! (blake2b_sigma ! r ! 15)))"
proof -
  have table: "LOAD_MSG_words = map (\<lambda>s. [(s ! 2, s ! 0, s ! 6, s ! 4), (s ! 3, s ! 1, s ! 7, s ! 5),
      (s ! 10, s ! 8, s ! 14, s ! 12), (s ! 11, s ! 9, s ! 15, s ! 13)]) blake2b_sigma"
    by (simp add: LOAD_MSG_words_def blake2b_sigma_def)
  have "length blake2b_sigma = 12" by (simp add: blake2b_sigma_def)
  with assms show
    "LOAD_MSG m r 1 = ((m ! (blake2b_sigma ! r ! 0), m ! (blake2b_sigma ! r ! 2)),
      (m ! (blake2b_sigma ! r ! 4), m ! (blake2b_sigma ! r ! 6)))"
    "LOAD_MSG m r 2 = ((m ! (blake2b_sigma ! r ! 1), m ! (blake2b_sigma ! r ! 3)),
      (m ! (blake2b_sigma ! r ! 5), m ! (blake2b_sigma ! r ! 7)))"
    "LOAD_MSG m r 3 = ((m ! (blake2b_sigma ! r ! 8), m ! (blake2b_sigma ! r ! 10)),
      (m ! (blake2b_sigma ! r ! 12), m ! (blake2b_sigma ! r ! 14)))"
    "LOAD_MSG m r 4 = ((m ! (blake2b_sigma ! r ! 9), m ! (blake2b_sigma ! r ! 11)),
      (m ! (blake2b_sigma ! r ! 13), m ! (blake2b_sigma ! r ! 15)))"
    by (simp_all add: LOAD_MSG_def table mm_set_epi64x_def)
qed

lemma list_of_16:
  assumes "length v = 16"
  obtains v0 v1 v2 v3 v4 v5 v6 v7 v8 v9 v10 v11 v12 v13 v14 v15
  where "v = [v0, v1, v2, v3, v4, v5, v6, v7, v8, v9, v10, v11, v12, v13, v14, v15]"
  using assms by (auto simp: numeral_eq_Suc length_Suc_conv)

lemma sse_ROUND_rows:
  assumes "length v = 16" and "r < 12"
  shows "sse_ROUND m r (rows_of v) = rows_of (rfcb_round m (blake2b_sigma ! r) v)"
proof -
  obtain v0 v1 v2 v3 v4 v5 v6 v7 v8 v9 v10 v11 v12 v13 v14 v15
    where v: "v = [v0, v1, v2, v3, v4, v5, v6, v7, v8, v9, v10, v11, v12, v13, v14, v15]"
    using list_of_16 [OF assms(1)] .
  show ?thesis
    unfolding sse_ROUND_def LOAD_MSG_sigma [OF assms(2)] v
    by (simp add: rows_of_def sse_G_mix rfcb_round_def mixb_at_def DIAGONALIZE_def UNDIAGONALIZE_def
        mm_defs Let_def split_beta)
qed

lemma sse_rounds_rows:
  "length v = 16 \<Longrightarrow> set rs \<subseteq> {..<12} \<Longrightarrow>
     fold (sse_ROUND m) rs (rows_of v) = rows_of (fold (blake2b_ROUND m) rs v) \<and>
     length (fold (blake2b_ROUND m) rs v) = 16"
  by (induction rs arbitrary: v) (simp_all add: sse_ROUND_rows blake2b_ROUND_rfc)

section \<open>Every function equals the reference\<close>

lemma sse_compress_eq:
  assumes "length (b2b_h S) = 8" and "length (b2b_t S) = 2" and "length (b2b_f S) = 2"
  shows "sse_blake2b_compress S b = blake2b_compress S b"
proof -
  let ?m = "map (\<lambda>i. load64 (drop (i * 8) b)) [0..<16]"
  obtain h0 h1 h2 h3 h4 h5 h6 h7 where h: "b2b_h S = [h0, h1, h2, h3, h4, h5, h6, h7]"
    using list_of_8 [OF assms(1)] by blast
  obtain t0 t1 f0 f1 where tf: "b2b_t S = [t0, t1]" "b2b_f S = [f0, f1]"
    using assms(2,3) by (auto simp: numeral_eq_Suc length_Suc_conv)
  define v where "v = [h0, h1, h2, h3, h4, h5, h6, h7, blake2b_IV ! 0, blake2b_IV ! 1, blake2b_IV ! 2,
    blake2b_IV ! 3, blake2b_IV ! 4 XOR t0, blake2b_IV ! 5 XOR t1, blake2b_IV ! 6 XOR f0, blake2b_IV ! 7 XOR f1]"
  have "length v = 16" by (simp add: v_def)
  moreover have "set [0..<12] \<subseteq> {..<12::nat}" by auto
  ultimately have rounds: "fold (sse_ROUND ?m) [0..<12] (rows_of v) = rows_of (fold (blake2b_ROUND ?m) [0..<12] v)"
    and len: "length (fold (blake2b_ROUND ?m) [0..<12] v) = 16"
    using sse_rounds_rows by blast+
  obtain w0 w1 w2 w3 w4 w5 w6 w7 w8 w9 w10 w11 w12 w13 w14 w15
    where w: "fold (blake2b_ROUND ?m) [0..<12] v = [w0, w1, w2, w3, w4, w5, w6, w7, w8, w9, w10, w11, w12, w13, w14, w15]"
    using list_of_16 [OF len] .
  have rows: "\<lparr>row1l = LOADU (drop 0 (b2b_h S)), row1h = LOADU (drop 2 (b2b_h S)),
      row2l = LOADU (drop 4 (b2b_h S)), row2h = LOADU (drop 6 (b2b_h S)),
      row3l = LOADU (drop 0 blake2b_IV), row3h = LOADU (drop 2 blake2b_IV),
      row4l = mm_xor_si128 (LOADU (drop 4 blake2b_IV)) (LOADU (drop 0 (b2b_t S))),
      row4h = mm_xor_si128 (LOADU (drop 6 blake2b_IV)) (LOADU (drop 0 (b2b_f S)))\<rparr> = rows_of v"
    by (simp add: h tf v_def rows_of_def LOADU_def mm_defs blake2b_IV_def)
  have init: "map (\<lambda>i. b2b_h S ! i) [0..<8] @
      [blake2b_IV ! 0, blake2b_IV ! 1, blake2b_IV ! 2, blake2b_IV ! 3,
       blake2b_IV ! 4 XOR b2b_t S ! 0, blake2b_IV ! 5 XOR b2b_t S ! 1,
       blake2b_IV ! 6 XOR b2b_f S ! 0, blake2b_IV ! 7 XOR b2b_f S ! 1] = v"
  proof -
    have "map (\<lambda>i. b2b_h S ! i) [0..<8] = b2b_h S"
      using map_nth [of "b2b_h S"] assms(1) by simp
    then show ?thesis by (simp only: h tf v_def) simp
  qed
  show ?thesis
    unfolding sse_blake2b_compress_def blake2b_compress_def Let_def rows rounds init w
    by (simp add: rows_of_def h LOADU_def STOREU_def mm_defs upt_rec numeral_eq_Suc xor.assoc xor.commute
        xor.left_commute)
qed

lemma sse_helpers_eq:
  "sse_blake2b_increment_counter = blake2b_increment_counter"
  "sse_blake2b_set_lastblock = blake2b_set_lastblock"
  by (simp_all add: fun_eq_iff sse_blake2b_increment_counter_def blake2b_increment_counter_def
      sse_blake2b_set_lastblock_def blake2b_set_lastblock_def blake2b_set_lastnode_def)

lemma sse_compress_ok: "blake2b_ok S \<Longrightarrow> sse_blake2b_compress S b = blake2b_compress S b"
  by (simp add: sse_compress_eq blake2b_ok_def)

lemma ok_step [simp]:
  "blake2b_ok S \<Longrightarrow> blake2b_ok (blake2b_increment_counter S n)"
  "blake2b_ok S \<Longrightarrow> blake2b_ok (blake2b_compress S b)"
  by (simp_all add: blake2b_ok_def)

lemma sse_blocks_eq: "blake2b_ok S \<Longrightarrow> sse_blake2b_blocks S inp = blake2b_blocks S inp"
proof (induction S inp rule: blake2b_blocks.induct)
  case (1 S inp)
  show ?case
  proof (cases "BLAKE2B_BLOCKBYTES < length inp")
    case True
    with 1 show ?thesis
      by (subst sse_blake2b_blocks.simps, subst blake2b_blocks.simps)
        (simp add: sse_helpers_eq sse_compress_ok)
  next
    case False
    then show ?thesis by (subst sse_blake2b_blocks.simps, subst blake2b_blocks.simps) simp
  qed
qed

lemma sse_update_eq:
  assumes "blake2b_ok S"
  shows "sse_blake2b_update S x = blake2b_update S x"
proof (cases "128 - b2b_buflen S < length x")
  case True
  let ?S = "S\<lparr>b2b_buflen := 0, b2b_buf := memcpy (b2b_buf S) (b2b_buflen S) (take (128 - b2b_buflen S) x)\<rparr>"
  have "blake2b_ok ?S" using assms True by (simp add: blake2b_ok_def)
  with True show ?thesis
    by (simp add: sse_blake2b_update_def blake2b_update_def Let_def sse_helpers_eq sse_compress_ok
        sse_blocks_eq split_beta)
next
  case False
  then show ?thesis by (simp add: sse_blake2b_update_def blake2b_update_def Let_def)
qed

lemma words_mem_store: "length h = 8 \<Longrightarrow> words_mem h = concat (map (\<lambda>i. store64 (h ! i)) [0..<8])"
  by (simp add: words_mem_def store64_le map_nth_8)

lemma sse_final_eq:
  assumes "blake2b_ok S"
  shows "sse_blake2b_final S out_null n = blake2b_final S out_null n"
proof -
  have "sse_blake2b_compress (T\<lparr>b2b_buf := m\<rparr>) b = blake2b_compress (T\<lparr>b2b_buf := m\<rparr>) b"
    if "T = blake2b_set_lastblock (blake2b_increment_counter S k)" for T m b k
    using that assms by (intro sse_compress_eq) (simp_all add: blake2b_ok_def)
  then show ?thesis
    by (simp add: sse_blake2b_final_def blake2b_final_def blake2b_is_lastblock_def Let_def sse_helpers_eq
        words_mem_store)
qed

lemma words_mem_word:
  "i < length h \<Longrightarrow> take 8 (drop (8 * i) (words_mem h)) = le_bytes 8 (h ! i)"
proof (induction h arbitrary: i)
  case (Cons w h)
  then show ?case by (cases i) (simp_all add: words_mem_def)
qed simp

lemma le_word_xor:
  "length a = length b \<Longrightarrow>
     le_word (map (\<lambda>(x, y). x XOR y) (zip a b)) = (le_word a XOR le_word b :: 'a::len word)"
  by (rule bit_word_eqI) (auto simp: bit_le_word bit_xor_iff)

lemma sse_init_param_eq:
  assumes "length (blake2b_param_bytes P) = 64"
  shows "sse_blake2b_init_param P = blake2b_init_param P"
proof -
  let ?v = "words_mem blake2b_IV" and ?p = "blake2b_param_bytes P"
  have v: "length ?v = 64" by (simp add: words_mem_def blake2b_IV_def)
  have xor: "map (\<lambda>i. ?v ! i XOR ?p ! i) [0..<64] = map (\<lambda>(x, y). x XOR y) (zip ?v ?p)"
    by (rule nth_equalityI) (use assms v in auto)
  have "mem_words (map (\<lambda>i. ?v ! i XOR ?p ! i) [0..<64]) =
      map (\<lambda>i. blake2b_IV ! i XOR load64 (drop (8 * i) ?p)) [0..<8]"
  proof (rule nth_equalityI)
    fix i assume "i < length (mem_words (map (\<lambda>i. ?v ! i XOR ?p ! i) [0..<64]))"
    then have i: "i < 8" by (simp add: mem_words_def)
    have "take 8 (drop (8 * i) ?v) = le_bytes 8 (blake2b_IV ! i)"
      using i by (intro words_mem_word) (simp add: blake2b_IV_def)
    then have "le_word (take 8 (drop (8 * i) ?v)) = blake2b_IV ! i"
      by (simp add: le_word_le_bytes)
    moreover have "le_word (take 8 (drop (8 * i) ?p)) = load64 (drop (8 * i) ?p)"
      using i assms by (simp add: load64_le)
    ultimately show "mem_words (map (\<lambda>i. ?v ! i XOR ?p ! i) [0..<64]) ! i =
        map (\<lambda>i. blake2b_IV ! i XOR load64 (drop (8 * i) ?p)) [0..<8] ! i"
      using i v assms
      by (simp add: mem_words_def xor take_map drop_map take_zip drop_zip le_word_xor)
  qed (simp add: mem_words_def)
  moreover have "replicate 8 0 = [0, 0, 0, 0, 0, 0, 0, 0 :: u64]" by (simp add: replicate_numeral_list)
  moreover have "map (\<lambda>i. map (\<lambda>i. blake2b_IV ! i) [0..<8] ! i XOR load64 (drop (8 * i) ?p)) [0..<8] =
      map (\<lambda>i. blake2b_IV ! i XOR load64 (drop (8 * i) ?p)) [0..<8]"
    by (rule nth_equalityI) auto
  ultimately show ?thesis
    by (simp only: sse_blake2b_init_param_def blake2b_init_param_def blake2b_init0_def Let_def
        blake2b_constants) simp
qed

lemma seq_param_length: "length (blake2b_param_bytes (blake2b_seq_param n k)) = 64"
  by (simp add: blake2b_param_bytes_def blake2b_seq_param_def store32_def)

lemma sse_init_eq: "sse_blake2b_init n = blake2b_init n"
  by (simp add: sse_blake2b_init_def blake2b_init_def sse_init_param_eq seq_param_length)

lemma sse_init_key_eq: "sse_blake2b_init_key n (Some k) l = blake2b_init_key n (Some k) l"
  by (auto simp: sse_blake2b_init_key_def blake2b_init_key_def sse_init_param_eq seq_param_length Let_def
      sse_update_eq blake2b_init_param_ok split: option.split)

section \<open>Properties\<close>

text \<open>on every state with arrays of their size, the SSE2 compression of a block is the
  reference compression: same round, rows for columns, tables for the permutations.\<close>

theorem sse_compress_is_reference:
  assumes "length (b2b_h S) = 8" and "length (b2b_t S) = 2" and "length (b2b_f S) = 2"
  shows "sse_blake2b_compress S block = blake2b_compress S block"
  by (rule sse_compress_eq [OF assms])

theorem sse_compress_is_reference_witness:
  "sse_blake2b_compress blake2b_init0 (replicate 128 1) = blake2b_compress blake2b_init0 (replicate 128 1)"
  by (rule sse_compress_is_reference) (simp_all add: blake2b_init0_def)

lemma sse_stream_eq:
  "blake2b_ok S \<Longrightarrow> foldl sse_blake2b_update S ds = foldl blake2b_update S ds \<and> blake2b_ok (foldl blake2b_update S ds)"
  by (induction ds arbitrary: S) (simp_all add: sse_update_eq b2b.update_ok)

text \<open>C8: 
  The SSE2 library of BLAKE2b computes what the reference library computes. The function of one call
  agrees on every call, the failing ones included. Starting a state agrees, without a key and with
  one, and so does hashing any pieces with a started state and its final step. Nothing is stated of a
  null key given to \<open>blake2b_init_key\<close> itself: the reference rejects it, the SSE2 file copies from
  the null pointer.
\<close>

theorem sse_blake2b_is_reference:
  "sse_blake2b out_null outlen inp inlen key keylen = blake2b out_null outlen inp inlen key keylen \<and>
   sse_blake2b_init n = blake2b_init n \<and> sse_blake2b_init_key n (Some k) l = blake2b_init_key n (Some k) l \<and>
   (blake2b_init n = Some S \<or> blake2b_init_key n (Some k) l = Some S \<longrightarrow>
      foldl sse_blake2b_update S ds = foldl blake2b_update S ds \<and>
      sse_blake2b_final (foldl sse_blake2b_update S ds) out_null m = blake2b_final (foldl blake2b_update S ds) out_null m)"
proof (intro conjI impI)
  have steps: "sse_blake2b_update S x = blake2b_update S x"
    "sse_blake2b_final (blake2b_update S x) b n = blake2b_final (blake2b_update S x) b n" if "blake2b_ok S" for S x b n
    using that by (simp_all add: sse_update_eq sse_final_eq b2b.update_ok)
  show "sse_blake2b out_null outlen inp inlen key keylen = blake2b out_null outlen inp inlen key keylen"
    by (cases key)
      (auto simp: sse_blake2b_def blake2b_def Let_def sse_init_eq sse_init_key_eq steps
        blake2b_init_ok blake2b_init_key_ok split: option.split)
next
  assume "blake2b_init n = Some S \<or> blake2b_init_key n (Some k) l = Some S"
  then have "blake2b_ok S" using blake2b_init_ok blake2b_init_key_ok by blast
  with sse_stream_eq [OF this, of ds] sse_final_eq
  show "foldl sse_blake2b_update S ds = foldl blake2b_update S ds"
    "sse_blake2b_final (foldl sse_blake2b_update S ds) out_null m = blake2b_final (foldl blake2b_update S ds) out_null m"
    by simp_all
qed (simp_all add: sse_init_eq sse_init_key_eq)

text \<open>A message in one call, and a state with a key that takes pieces.\<close>

theorem sse_blake2b_is_reference_witness:
  "sse_blake2b False 32 (Some [97, 98, 99]) 3 None 0 = blake2b False 32 (Some [97, 98, 99]) 3 None 0 \<and>
   (\<exists>S. blake2b_init_key 32 (Some [1, 2]) 2 = Some S \<and>
     sse_blake2b_final (foldl sse_blake2b_update S [[97], replicate 200 98]) False 32 =
       blake2b_final (foldl blake2b_update S [[97], replicate 200 98]) False 32)"
proof -
  have "\<exists>S. blake2b_init_key 32 (Some [1, 2]) 2 = Some S"
    by (simp add: blake2b_init_key_def blake2b_init_param_def Let_def)
  then obtain S where S: "blake2b_init_key 32 (Some [1, 2]) 2 = Some S" by blast
  with sse_blake2b_is_reference [of False 32 "Some [97, 98, 99]" 3 None 0 32 "[1, 2]" 2 S "[[97], replicate 200 98]" 32]
  show ?thesis by blast
qed

end
