(* ===== verification/Blake2bpSSE.thy ===== *)
theory Blake2bpSSE
  imports Blake2bp Blake2bSSE
begin

text \<open>
  Parallel BLAKE2bp over the SSE2 library (\<open>blake2/sse/blake2bp.c\<close>), whose state is that of the reference.
  It computes what the reference does.
\<close>

section \<open>The functions of the file\<close>

definition sse_blake2bp_init_leaf_param :: "blake2b_param \<Rightarrow> blake2b_state option" where
  "sse_blake2bp_init_leaf_param P =
     map_option (\<lambda>S. S\<lparr>b2b_outlen := unat (p2b_inner_length P)\<rparr>) (sse_blake2b_init_param P)"

definition sse_blake2bp_init_leaf :: "nat \<Rightarrow> nat \<Rightarrow> nat \<Rightarrow> blake2b_state option" where
  "sse_blake2bp_init_leaf outlen keylen offset =
     sse_blake2bp_init_leaf_param \<lparr>p2b_digest_length = of_nat outlen, p2b_key_length = of_nat keylen,
       p2b_fanout = of_nat BLAKE2BP_DEGREE, p2b_depth = 2, p2b_leaf_length = 0,
       p2b_node_offset = of_nat offset, p2b_xof_length = 0, p2b_node_depth = 0,
       p2b_inner_length = of_nat BLAKE2B_OUTBYTES, p2b_reserved = replicate 14 0, p2b_salt = replicate BLAKE2B_SALTBYTES 0,
       p2b_personal = replicate BLAKE2B_PERSONALBYTES 0\<rparr>"

definition sse_blake2bp_init_root :: "nat \<Rightarrow> nat \<Rightarrow> blake2b_state option" where
  "sse_blake2bp_init_root outlen keylen =
     sse_blake2b_init_param \<lparr>p2b_digest_length = of_nat outlen, p2b_key_length = of_nat keylen,
       p2b_fanout = of_nat BLAKE2BP_DEGREE, p2b_depth = 2, p2b_leaf_length = 0,
       p2b_node_offset = 0, p2b_xof_length = 0, p2b_node_depth = 1,
       p2b_inner_length = of_nat BLAKE2B_OUTBYTES, p2b_reserved = replicate 14 0, p2b_salt = replicate BLAKE2B_SALTBYTES 0,
       p2b_personal = replicate BLAKE2B_PERSONALBYTES 0\<rparr>"

definition sse_blake2bp_leaves :: "nat \<Rightarrow> nat \<Rightarrow> blake2b_state list option" where
  "sse_blake2bp_leaves outlen keylen =
     map_option (\<lambda>Ss. Ss[BLAKE2BP_DEGREE - 1 := (Ss ! (BLAKE2BP_DEGREE - 1))\<lparr>b2b_last_node := 1\<rparr>])
       (those (map (sse_blake2bp_init_leaf outlen keylen) [0..<BLAKE2BP_DEGREE]))"

definition sse_blake2bp_init :: "nat \<Rightarrow> blake2bp_state option" where
  "sse_blake2bp_init outlen =
     (if outlen = 0 \<or> BLAKE2B_OUTBYTES < outlen then None
      else case sse_blake2bp_init_root outlen 0 of
        None \<Rightarrow> None
      | Some R \<Rightarrow>
          (case sse_blake2bp_leaves outlen 0 of
             None \<Rightarrow> None
           | Some Ss \<Rightarrow> Some \<lparr>bp_S = Ss, bp_R = R\<lparr>b2b_last_node := 1\<rparr>,
               bp_buf = replicate (BLAKE2BP_DEGREE * BLAKE2B_BLOCKBYTES) 0, bp_buflen = 0,
               bp_outlen = outlen\<rparr>))"

definition sse_blake2bp_init_key :: "nat \<Rightarrow> bytes option \<Rightarrow> nat \<Rightarrow> blake2bp_state option" where
  "sse_blake2bp_init_key outlen key keylen =
     (if outlen = 0 \<or> BLAKE2B_OUTBYTES < outlen then None
      else case key of
        None \<Rightarrow> None
      | Some k \<Rightarrow>
          if keylen = 0 \<or> BLAKE2B_KEYBYTES < keylen then None
          else (case sse_blake2bp_init_root outlen keylen of
            None \<Rightarrow> None
          | Some R \<Rightarrow>
              (case sse_blake2bp_leaves outlen keylen of
                 None \<Rightarrow> None
               | Some Ss \<Rightarrow>
                   let block = memcpy (replicate BLAKE2B_BLOCKBYTES 0) 0 (take keylen k)
                   in Some \<lparr>bp_S = map (\<lambda>S. sse_blake2b_update S block) Ss,
                     bp_R = R\<lparr>b2b_last_node := 1\<rparr>,
                     bp_buf = replicate (BLAKE2BP_DEGREE * BLAKE2B_BLOCKBYTES) 0, bp_buflen = 0,
                     bp_outlen = outlen\<rparr>)))"

section \<open>Update and final\<close>

text \<open>The loop of one leaf over the input: its state, its pointer and the length that is left.\<close>

function sse_blake2bp_lane :: "blake2b_state \<Rightarrow> bytes \<Rightarrow> nat \<Rightarrow> blake2b_state \<times> bytes \<times> nat" where
  "sse_blake2bp_lane S inp inlen =
     (if BLAKE2BP_DEGREE * BLAKE2B_BLOCKBYTES \<le> inlen
      then sse_blake2bp_lane (sse_blake2b_update S (take BLAKE2B_BLOCKBYTES inp))
             (drop (BLAKE2BP_DEGREE * BLAKE2B_BLOCKBYTES) inp) (inlen - BLAKE2BP_DEGREE * BLAKE2B_BLOCKBYTES)
      else (S, inp, inlen))"
  by pat_completeness auto
termination
  by (relation "measure (\<lambda>(S, inp, inlen). inlen)") auto

declare sse_blake2bp_lane.simps [simp del]

definition sse_blake2bp_update :: "blake2bp_state \<Rightarrow> bytes \<Rightarrow> blake2bp_state" where
  "sse_blake2bp_update S inp =
     (let left = bp_buflen S;
          fill = length (bp_buf S) - left;
          (S, inp, left) =
            (if left \<noteq> 0 \<and> fill \<le> length inp then
               (let buf = memcpy (bp_buf S) left (take fill inp)
                in (S\<lparr>bp_buf := buf,
                      bp_S := map (\<lambda>i. sse_blake2b_update (bp_S S ! i)
                        (take BLAKE2B_BLOCKBYTES (drop (i * BLAKE2B_BLOCKBYTES) buf))) [0..<BLAKE2BP_DEGREE]\<rparr>,
                    drop fill inp, 0))
             else (S, inp, left));
          Ss = map (\<lambda>i. fst (sse_blake2bp_lane (bp_S S ! i) (drop (i * BLAKE2B_BLOCKBYTES) inp) (length inp)))
                 [0..<BLAKE2BP_DEGREE];
          rest = drop (length inp - length inp mod (BLAKE2BP_DEGREE * BLAKE2B_BLOCKBYTES)) inp
      in S\<lparr>bp_S := Ss,
           bp_buf := (if 0 < length rest then memcpy (bp_buf S) left rest else bp_buf S),
           bp_buflen := left + length rest\<rparr>)"

text \<open>What a leaf that is finished writes into its row of \<open>hash\<close>; a failed call leaves the row.\<close>

definition sse_blake2bp_leaf_final :: "bytes \<Rightarrow> blake2b_state \<Rightarrow> blake2b_state \<times> bytes" where
  "sse_blake2bp_leaf_final row S =
     (case sse_blake2b_final S False BLAKE2B_OUTBYTES of
        None \<Rightarrow> (S, row) | Some (S', d) \<Rightarrow> (S', memcpy row 0 d))"

text \<open>The state after the call and the bytes written to \<open>out\<close>, none for \<open>-1\<close>.\<close>

definition sse_blake2bp_final :: "bytes list \<Rightarrow> blake2bp_state \<Rightarrow> bool \<Rightarrow> nat \<Rightarrow> blake2bp_state \<times> bytes option" where
  "sse_blake2bp_final hash0 S out_null outlen =
     (if out_null \<or> outlen < bp_outlen S then (S, None)
      else
        (let leaf = (\<lambda>i.
               let B = BLAKE2B_BLOCKBYTES;
                   T = bp_S S ! i;
                   T = (if i * B < bp_buflen S
                        then (let left = bp_buflen S - i * B; left = (if B < left then B else left)
                              in sse_blake2b_update T (take left (drop (i * B) (bp_buf S))))
                        else T)
               in sse_blake2bp_leaf_final (hash0 ! i) T);
             R = fold (\<lambda>i R. sse_blake2b_update R (snd (leaf i))) [0..<BLAKE2BP_DEGREE] (bp_R S);
             S = S\<lparr>bp_S := map (\<lambda>i. fst (leaf i)) [0..<BLAKE2BP_DEGREE], bp_R := R\<rparr>
         in case sse_blake2b_final R out_null (bp_outlen S) of
              None \<Rightarrow> (S, None)
            | Some (R', d) \<Rightarrow> (S\<lparr>bp_R := R'\<rparr>, Some d)))"

definition sse_blake2bp :: "bytes list \<Rightarrow> bool \<Rightarrow> nat \<Rightarrow> bytes option \<Rightarrow> nat \<Rightarrow> bytes option \<Rightarrow> nat \<Rightarrow> bytes option" where
  "sse_blake2bp hash0 out_null outlen inp inlen key keylen =
     (if inp = None \<and> 0 < inlen then None
      else if out_null then None
      else if key = None \<and> 0 < keylen then None
      else if outlen = 0 \<or> BLAKE2B_OUTBYTES < outlen then None
      else if BLAKE2B_KEYBYTES < keylen then None
      else (case sse_blake2bp_leaves outlen keylen of
        None \<Rightarrow> None
      | Some Ss \<Rightarrow>
          let B = BLAKE2B_BLOCKBYTES;
              data = (case inp of None \<Rightarrow> [] | Some x \<Rightarrow> take inlen x);
              block = memcpy (replicate B 0) 0 (take keylen (case key of None \<Rightarrow> [] | Some k \<Rightarrow> k));
              Ss = (if 0 < keylen then map (\<lambda>S. sse_blake2b_update S block) Ss else Ss);
              leaf = (\<lambda>i.
                case sse_blake2bp_lane (Ss ! i) (drop (i * B) data) (length data) of
                  (T, in', inlen') \<Rightarrow>
                    let T = (if i * B < inlen'
                             then (let left = inlen' - i * B; len = (if left \<le> B then left else B)
                                   in sse_blake2b_update T (take len in'))
                             else T)
                    in sse_blake2bp_leaf_final (hash0 ! i) T)
          in (case sse_blake2bp_init_root outlen keylen of
                None \<Rightarrow> None
              | Some FS \<Rightarrow>
                  map_option snd (sse_blake2b_final
                    (fold (\<lambda>i R. sse_blake2b_update R (snd (leaf i))) [0..<BLAKE2BP_DEGREE] (FS\<lparr>b2b_last_node := 1\<rparr>))
                    out_null outlen))))"

section \<open>The reference computes the same\<close>

text \<open>A node of the tree whose digest has length \<open>n\<close>.\<close>

definition nodeb_ok :: "nat \<Rightarrow> blake2b_state \<Rightarrow> bool" where
  "nodeb_ok n S \<longleftrightarrow> blake2b_ok S \<and> b2b_outlen S = n"

lemma nodeb_eqs:
  assumes "nodeb_ok n S"
  shows "sse_blake2b_update S d = blake2b_update S d" "sse_blake2b_final S out_null n = blake2b_final S out_null n"
  using assms by (simp_all add: nodeb_ok_def sse_update_eq sse_final_eq)

lemma nodeb_update [simp]: "nodeb_ok n S \<Longrightarrow> nodeb_ok n (blake2b_update S d)"
  by (simp add: nodeb_ok_def b2b.update_ok)

lemma nodeb_last_node [simp]: "nodeb_ok n (S\<lparr>b2b_last_node := v\<rparr>) = nodeb_ok n S"
  by (simp add: nodeb_ok_def blake2b_ok_def)

lemma leafb_node: "leafb_ok S \<Longrightarrow> nodeb_ok 64 S"
  by (simp add: leafb_ok_def nodeb_ok_def)

lemma sse_init_bp:
  "sse_blake2bp_init_leaf nn kk i = blake2bp_init_leaf nn kk i" "sse_blake2bp_init_root nn kk = blake2bp_init_root nn kk"
  unfolding sse_blake2bp_init_leaf_def blake2bp_init_leaf_def sse_blake2bp_init_leaf_param_def blake2bp_init_leaf_param_def
    sse_blake2bp_init_root_def blake2bp_init_root_def
  by (subst sse_init_param_eq; simp add: blake2b_param_bytes_def store32_def store48_def store16_def)+

lemma sse_leaves_bp: "sse_blake2bp_leaves = blake2bp_leaves"
proof -
  have "sse_blake2bp_init_leaf = blake2bp_init_leaf" by (intro ext) (rule sse_init_bp(1))
  then show ?thesis by (intro ext) (simp add: sse_blake2bp_leaves_def blake2bp_leaves_def)
qed

lemma leaves_bp_ok: "blake2bp_leaves nn kk = Some Ss \<Longrightarrow> length Ss = 4 \<and> (\<forall>S \<in> set Ss. nodeb_ok 64 S)"
  using blake2bp_leaves_ok [of nn kk] leafb_node by (auto simp: in_set_conv_nth)

lemma root_bp_ok: "blake2bp_init_root nn kk = Some R \<Longrightarrow> nn \<le> 64 \<Longrightarrow> nodeb_ok nn R"
  using blake2bp_root_ok [of nn kk]
  by (auto simp: nodeb_ok_def blake2bp_init_root_def blake2b_init_param_def blake2b_init0_def Let_def of_nat_le_iff
      unsigned_of_nat take_bit_nat_eq_self)

lemma sse_lane_bp:
  "nodeb_ok n S \<Longrightarrow> sse_blake2bp_lane S inp inlen = blake2bp_lane S inp inlen \<and> nodeb_ok n (fst (blake2bp_lane S inp inlen))"
proof (induction S inp inlen rule: blake2bp_lane.induct)
  case (1 S inp inlen)
  then show ?case
    by (subst sse_blake2bp_lane.simps, subst (1 2) blake2bp_lane.simps) (simp add: nodeb_eqs)
qed

text \<open>A state of the streaming interface with its nodes.\<close>

definition nodesbp_ok :: "blake2bp_state \<Rightarrow> bool" where
  "nodesbp_ok S \<longleftrightarrow> (\<forall>i<4. nodeb_ok 64 (bp_S S ! i)) \<and> nodeb_ok (bp_outlen S) (bp_R S)"

lemma sse_update_bp:
  assumes "nodesbp_ok S"
  shows "sse_blake2bp_update S d = blake2bp_update S d \<and> nodesbp_ok (blake2bp_update S d)"
proof -
  have leaf: "nodeb_ok 64 (bp_S S ! i)" if "i < 4" for i using assms that by (simp add: nodesbp_ok_def)
  have lanes: "sse_blake2bp_lane (bp_S S ! i) y n = blake2bp_lane (bp_S S ! i) y n \<and>
      nodeb_ok 64 (fst (blake2bp_lane (bp_S S ! i) y n))"
    "sse_blake2bp_lane (blake2b_update (bp_S S ! i) z) y n = blake2bp_lane (blake2b_update (bp_S S ! i) z) y n \<and>
      nodeb_ok 64 (fst (blake2bp_lane (blake2b_update (bp_S S ! i) z) y n))" if "i < 4" for i y z n
    using sse_lane_bp leaf [OF that] nodeb_update [OF leaf [OF that]] by blast+
  have "sse_blake2bp_update S d = blake2bp_update S d"
    using leaf lanes by (simp add: sse_blake2bp_update_def blake2bp_update_def Let_def nodeb_eqs [OF leaf])
  moreover have "nodesbp_ok (blake2bp_update S d)"
    using assms lanes by (auto simp: nodesbp_ok_def blake2bp_update_def Let_def)
  ultimately show ?thesis by simp
qed

lemma sse_leaf_final_bp: "nodeb_ok 64 S \<Longrightarrow> sse_blake2bp_leaf_final row S = blake2bp_leaf_final row S"
  by (simp add: sse_blake2bp_leaf_final_def blake2bp_leaf_final_def nodeb_eqs)

lemma fold_bp:
  "nodeb_ok n R \<Longrightarrow> fold (\<lambda>i R. sse_blake2b_update R (f i)) is R = fold (\<lambda>i R. blake2b_update R (f i)) is R \<and>
     nodeb_ok n (fold (\<lambda>i R. blake2b_update R (f i)) is R)"
  by (induction "is" arbitrary: R) (simp_all add: nodeb_eqs)

lemma fold_same_bp: "(\<And>i. i \<in> set is \<Longrightarrow> f i = g i) \<Longrightarrow>
  fold (\<lambda>i R. blake2b_update R (f i)) is R = fold (\<lambda>i R. blake2b_update R (g i)) is R"
  by (rule fold_cong) simp_all

text \<open>The digests of the leaves, and the root over them.\<close>

lemma root_of_leaves_bp:
  assumes "\<forall>i<4. f i = g i" and "nodeb_ok n R"
  shows "map (\<lambda>i. fst (f i)) [0..<4] = map (\<lambda>i. fst (g i)) [0..<4]"
    and "fold (\<lambda>i R. sse_blake2b_update R (snd (f i))) [0..<4] R = fold (\<lambda>i R. blake2b_update R (snd (g i))) [0..<4] R"
    and "sse_blake2b_final (fold (\<lambda>i R. blake2b_update R (snd (g i))) [0..<4] R) out_null n =
      blake2b_final (fold (\<lambda>i R. blake2b_update R (snd (g i))) [0..<4] R) out_null n"
  using assms fold_bp [OF assms(2), of "\<lambda>i. snd (f i)" "[0..<4]"] fold_bp [OF assms(2), of "\<lambda>i. snd (g i)" "[0..<4]"]
    fold_same_bp [of "[0..<4]" "\<lambda>i. snd (f i)" "\<lambda>i. snd (g i)"] nodeb_eqs(2)
  by simp_all

lemma sse_final_bp:
  assumes "nodesbp_ok S"
  shows "sse_blake2bp_final hash0 S out_null n = blake2bp_final hash0 S out_null n"
proof -
  let ?left = "\<lambda>i. (let left = bp_buflen S - i * BLAKE2B_BLOCKBYTES
      in if BLAKE2B_BLOCKBYTES < left then BLAKE2B_BLOCKBYTES else left)"
  let ?x = "\<lambda>i. take (?left i) (drop (i * BLAKE2B_BLOCKBYTES) (bp_buf S))"
  define g where "g = (\<lambda>i. blake2bp_leaf_final (hash0 ! i)
    (if i * BLAKE2B_BLOCKBYTES < bp_buflen S then blake2b_update (bp_S S ! i) (?x i) else bp_S S ! i))"
  define f where "f = (\<lambda>i. sse_blake2bp_leaf_final (hash0 ! i)
    (if i * BLAKE2B_BLOCKBYTES < bp_buflen S then sse_blake2b_update (bp_S S ! i) (?x i) else bp_S S ! i))"
  have leaf: "nodeb_ok 64 (bp_S S ! i)" if "i < 4" for i using assms that by (simp add: nodesbp_ok_def)
  have fg: "\<forall>i<4. f i = g i"
    using leaf by (simp add: f_def g_def nodeb_eqs [OF leaf] sse_leaf_final_bp)
  have R: "nodeb_ok (bp_outlen S) (bp_R S)" using assms by (simp add: nodesbp_ok_def)
  note same = root_of_leaves_bp [of f g, OF fg R]
  have outlen: "bp_outlen (S\<lparr>bp_S := a, bp_R := b\<rparr>) = bp_outlen S" for a b by simp
  have "sse_blake2bp_final hash0 S out_null n =
     (if out_null \<or> n < bp_outlen S then (S, None)
      else (let R = fold (\<lambda>i R. sse_blake2b_update R (snd (f i))) [0..<4] (bp_R S);
                S = S\<lparr>bp_S := map (\<lambda>i. fst (f i)) [0..<4], bp_R := R\<rparr>
            in case sse_blake2b_final R out_null (bp_outlen S) of
                 None \<Rightarrow> (S, None) | Some (R', d) \<Rightarrow> (S\<lparr>bp_R := R'\<rparr>, Some d)))"
    by (simp only: sse_blake2bp_final_def f_def Let_def BLAKE2BP_DEGREE_def blake2bp_state.simps)
  also have "\<dots> = (if out_null \<or> n < bp_outlen S then (S, None)
      else (let R = fold (\<lambda>i R. blake2b_update R (snd (g i))) [0..<4] (bp_R S);
                S = S\<lparr>bp_S := map (\<lambda>i. fst (g i)) [0..<4], bp_R := R\<rparr>
            in case blake2b_final R out_null (bp_outlen S) of
                 None \<Rightarrow> (S, None) | Some (R', d) \<Rightarrow> (S\<lparr>bp_R := R'\<rparr>, Some d)))"
    unfolding same(1,2) Let_def by (simp only: outlen same(3))
  also have "\<dots> = blake2bp_final hash0 S out_null n"
    by (simp only: blake2bp_final_def g_def Let_def BLAKE2BP_DEGREE_def blake2bp_state.simps)
  finally show ?thesis .
qed

lemma sse_init_state_bp:
  "sse_blake2bp_init n = blake2bp_init n" "sse_blake2bp_init_key n key keylen = blake2bp_init_key n key keylen"
proof -
  show "sse_blake2bp_init n = blake2bp_init n"
    by (simp add: sse_blake2bp_init_def blake2bp_init_def sse_init_bp sse_leaves_bp cong: if_cong option.case_cong)
  have "map (\<lambda>S. sse_blake2b_update S b) Ss = map (\<lambda>S. blake2b_update S b) Ss" if "blake2bp_leaves nn kk = Some Ss" for nn kk Ss b
    using leaves_bp_ok [OF that] by (auto intro: nodeb_eqs(1))
  then show "sse_blake2bp_init_key n key keylen = blake2bp_init_key n key keylen"
    by (auto simp: sse_blake2bp_init_key_def blake2bp_init_key_def sse_init_bp sse_leaves_bp Let_def split: option.split)
qed

lemma sse_call_bp:
  "sse_blake2bp hash0 out_null outlen inp inlen key keylen = blake2bp hash0 out_null outlen inp inlen key keylen"
proof (cases "outlen \<le> 64")
  case False
  then show ?thesis by (simp add: sse_blake2bp_def blake2bp_def)
next
  case True
  obtain Ss where Ss: "blake2bp_leaves outlen keylen = Some Ss" using blake2bp_leaves_ok by blast
  obtain R where R: "blake2bp_init_root outlen keylen = Some R" using blake2bp_root_ok by blast
  let ?block = "memcpy (replicate BLAKE2B_BLOCKBYTES 0) 0 (take keylen (case key of None \<Rightarrow> [] | Some k \<Rightarrow> k))"
  let ?data = "case inp of None \<Rightarrow> [] | Some x \<Rightarrow> take inlen x"
  define Ts where "Ts = (if 0 < keylen then map (\<lambda>S. blake2b_update S ?block) Ss else Ss)"
  have Ts: "(if 0 < keylen then map (\<lambda>S. sse_blake2b_update S ?block) Ss else Ss) = Ts"
    using leaves_bp_ok [OF Ss] by (auto simp: Ts_def intro: nodeb_eqs(1))
  have leaf: "nodeb_ok 64 (Ts ! i)" if "i < 4" for i
    using leaves_bp_ok [OF Ss] that by (simp add: Ts_def)
  have R_ok: "nodeb_ok outlen (R\<lparr>b2b_last_node := 1\<rparr>)" using root_bp_ok [OF R True] by simp
  define g where "g = (\<lambda>i. case blake2bp_lane (Ts ! i) (drop (i * BLAKE2B_BLOCKBYTES) ?data) (length ?data) of
    (T, in', inlen') \<Rightarrow> blake2bp_leaf_final (hash0 ! i) (if i * BLAKE2B_BLOCKBYTES < inlen'
      then blake2b_update T (take (if inlen' - i * BLAKE2B_BLOCKBYTES \<le> BLAKE2B_BLOCKBYTES
        then inlen' - i * BLAKE2B_BLOCKBYTES else BLAKE2B_BLOCKBYTES) in') else T))"
  define f where "f = (\<lambda>i. case sse_blake2bp_lane (Ts ! i) (drop (i * BLAKE2B_BLOCKBYTES) ?data) (length ?data) of
    (T, in', inlen') \<Rightarrow> sse_blake2bp_leaf_final (hash0 ! i) (if i * BLAKE2B_BLOCKBYTES < inlen'
      then sse_blake2b_update T (take (if inlen' - i * BLAKE2B_BLOCKBYTES \<le> BLAKE2B_BLOCKBYTES
        then inlen' - i * BLAKE2B_BLOCKBYTES else BLAKE2B_BLOCKBYTES) in') else T))"
  have fg: "\<forall>i<4. f i = g i"
  proof (intro allI impI)
    fix i assume i: "i < (4 :: nat)"
    let ?lane = "blake2bp_lane (Ts ! i) (drop (i * BLAKE2B_BLOCKBYTES) ?data) (length ?data)"
    obtain T in' inlen' where T: "?lane = (T, in', inlen')" by (cases ?lane)
    with sse_lane_bp [OF leaf [OF i], of "drop (i * BLAKE2B_BLOCKBYTES) ?data" "length ?data"] have "nodeb_ok 64 T"
      "sse_blake2bp_lane (Ts ! i) (drop (i * BLAKE2B_BLOCKBYTES) ?data) (length ?data) = (T, in', inlen')"
      by (simp_all del: blake2b_constants)
    with T show "f i = g i"
      by (simp add: f_def g_def nodeb_eqs sse_leaf_final_bp del: blake2b_constants)
  qed
  note same = root_of_leaves_bp [of f g, OF fg R_ok]
  have "sse_blake2bp hash0 out_null outlen inp inlen key keylen =
     (if inp = None \<and> 0 < inlen then None
      else if out_null then None
      else if key = None \<and> 0 < keylen then None
      else if outlen = 0 \<or> BLAKE2B_OUTBYTES < outlen then None
      else if BLAKE2B_KEYBYTES < keylen then None
      else map_option snd (sse_blake2b_final
        (fold (\<lambda>i R. sse_blake2b_update R (snd (f i))) [0..<4] (R\<lparr>b2b_last_node := 1\<rparr>)) out_null outlen))"
    by (simp only: sse_blake2bp_def sse_leaves_bp Ss sse_init_bp R option.case Let_def f_def Ts BLAKE2BP_DEGREE_def)
  also have "\<dots> =
     (if inp = None \<and> 0 < inlen then None
      else if out_null then None
      else if key = None \<and> 0 < keylen then None
      else if outlen = 0 \<or> BLAKE2B_OUTBYTES < outlen then None
      else if BLAKE2B_KEYBYTES < keylen then None
      else map_option snd (blake2b_final
        (fold (\<lambda>i R. blake2b_update R (snd (g i))) [0..<4] (R\<lparr>b2b_last_node := 1\<rparr>)) out_null outlen))"
    by (simp only: same(2,3))
  also have "\<dots> = blake2bp hash0 out_null outlen inp inlen key keylen"
    by (simp only: blake2bp_def Ss R option.case Let_def g_def Ts_def BLAKE2BP_DEGREE_def)
  finally show ?thesis .
qed

lemma nodes_init_bp:
  "blake2bp_init n = Some S \<Longrightarrow> nodesbp_ok S" "blake2bp_init_key n key keylen = Some S \<Longrightarrow> nodesbp_ok S"
  using leaves_bp_ok root_bp_ok
  by (fastforce simp: blake2bp_init_def blake2bp_init_key_def nodesbp_ok_def Let_def split: if_splits option.splits)+

lemma sse_stream_bp:
  assumes "nodesbp_ok S"
  shows "foldl sse_blake2bp_update S ds = foldl blake2bp_update S ds \<and> nodesbp_ok (foldl blake2bp_update S ds)"
  using assms by (induction ds arbitrary: S) (simp_all add: sse_update_bp)

text \<open>The parallel BLAKE2bp of the SSE directory computes what the reference does on every call, and with the
  streaming calls, from either start and for any pieces.\<close>

theorem sse_blake2bp_is_reference:
  "sse_blake2bp hash0 out_null outlen inp inlen key keylen = blake2bp hash0 out_null outlen inp inlen key keylen \<and>
   sse_blake2bp_init outlen = blake2bp_init outlen \<and> sse_blake2bp_init_key outlen key keylen = blake2bp_init_key outlen key keylen \<and>
   (blake2bp_init outlen = Some S \<or> blake2bp_init_key outlen key keylen = Some S \<longrightarrow>
      sse_blake2bp_final hash0 (foldl sse_blake2bp_update S ds) out_null n =
      blake2bp_final hash0 (foldl blake2bp_update S ds) out_null n)"
  using sse_call_bp sse_init_state_bp nodes_init_bp sse_stream_bp sse_final_bp by metis

end
