(* ===== verification/Blake2spSSE.thy ===== *)
theory Blake2spSSE
  imports Blake2sp Blake2sSSE Blake2bpSSE
begin

text \<open>
  Parallel BLAKE2sp over the SSE2 library (\<open>blake2/sse/blake2sp.c\<close>), whose state is that of the reference.
  It computes what the reference does.
\<close>

section \<open>The functions of the file\<close>

definition sse_blake2sp_init_leaf_param :: "blake2s_param \<Rightarrow> blake2s_state option" where
  "sse_blake2sp_init_leaf_param P =
     map_option (\<lambda>S. S\<lparr>b2s_outlen := unat (p2s_inner_length P)\<rparr>) (sse_blake2s_init_param P)"

definition sse_blake2sp_init_leaf :: "nat \<Rightarrow> nat \<Rightarrow> nat \<Rightarrow> blake2s_state option" where
  "sse_blake2sp_init_leaf outlen keylen offset =
     sse_blake2sp_init_leaf_param \<lparr>p2s_digest_length = of_nat outlen, p2s_key_length = of_nat keylen,
       p2s_fanout = of_nat BLAKE2SP_DEGREE, p2s_depth = 2, p2s_leaf_length = 0,
       p2s_node_offset = of_nat offset, p2s_xof_length = 0, p2s_node_depth = 0,
       p2s_inner_length = of_nat BLAKE2S_OUTBYTES, p2s_salt = replicate BLAKE2S_SALTBYTES 0,
       p2s_personal = replicate BLAKE2S_PERSONALBYTES 0\<rparr>"

definition sse_blake2sp_init_root :: "nat \<Rightarrow> nat \<Rightarrow> blake2s_state option" where
  "sse_blake2sp_init_root outlen keylen =
     sse_blake2s_init_param \<lparr>p2s_digest_length = of_nat outlen, p2s_key_length = of_nat keylen,
       p2s_fanout = of_nat BLAKE2SP_DEGREE, p2s_depth = 2, p2s_leaf_length = 0,
       p2s_node_offset = 0, p2s_xof_length = 0, p2s_node_depth = 1,
       p2s_inner_length = of_nat BLAKE2S_OUTBYTES, p2s_salt = replicate BLAKE2S_SALTBYTES 0,
       p2s_personal = replicate BLAKE2S_PERSONALBYTES 0\<rparr>"

definition sse_blake2sp_leaves :: "nat \<Rightarrow> nat \<Rightarrow> blake2s_state list option" where
  "sse_blake2sp_leaves outlen keylen =
     map_option (\<lambda>Ss. Ss[BLAKE2SP_DEGREE - 1 := (Ss ! (BLAKE2SP_DEGREE - 1))\<lparr>b2s_last_node := 1\<rparr>])
       (those (map (sse_blake2sp_init_leaf outlen keylen) [0..<BLAKE2SP_DEGREE]))"

definition sse_blake2sp_init :: "nat \<Rightarrow> blake2sp_state option" where
  "sse_blake2sp_init outlen =
     (if outlen = 0 \<or> BLAKE2S_OUTBYTES < outlen then None
      else case sse_blake2sp_init_root outlen 0 of
        None \<Rightarrow> None
      | Some R \<Rightarrow>
          (case sse_blake2sp_leaves outlen 0 of
             None \<Rightarrow> None
           | Some Ss \<Rightarrow> Some \<lparr>sp_S = Ss, sp_R = R\<lparr>b2s_last_node := 1\<rparr>,
               sp_buf = replicate (BLAKE2SP_DEGREE * BLAKE2S_BLOCKBYTES) 0, sp_buflen = 0,
               sp_outlen = outlen\<rparr>))"

definition sse_blake2sp_init_key :: "nat \<Rightarrow> bytes option \<Rightarrow> nat \<Rightarrow> blake2sp_state option" where
  "sse_blake2sp_init_key outlen key keylen =
     (if outlen = 0 \<or> BLAKE2S_OUTBYTES < outlen then None
      else case key of
        None \<Rightarrow> None
      | Some k \<Rightarrow>
          if keylen = 0 \<or> BLAKE2S_KEYBYTES < keylen then None
          else (case sse_blake2sp_init_root outlen keylen of
            None \<Rightarrow> None
          | Some R \<Rightarrow>
              (case sse_blake2sp_leaves outlen keylen of
                 None \<Rightarrow> None
               | Some Ss \<Rightarrow>
                   let block = memcpy (replicate BLAKE2S_BLOCKBYTES 0) 0 (take keylen k)
                   in Some \<lparr>sp_S = map (\<lambda>S. sse_blake2s_update S block) Ss,
                     sp_R = R\<lparr>b2s_last_node := 1\<rparr>,
                     sp_buf = replicate (BLAKE2SP_DEGREE * BLAKE2S_BLOCKBYTES) 0, sp_buflen = 0,
                     sp_outlen = outlen\<rparr>)))"

section \<open>Update and final\<close>

text \<open>The loop of one leaf over the input: its state, its pointer and the length that is left.\<close>

function sse_blake2sp_lane :: "blake2s_state \<Rightarrow> bytes \<Rightarrow> nat \<Rightarrow> blake2s_state \<times> bytes \<times> nat" where
  "sse_blake2sp_lane S inp inlen =
     (if BLAKE2SP_DEGREE * BLAKE2S_BLOCKBYTES \<le> inlen
      then sse_blake2sp_lane (sse_blake2s_update S (take BLAKE2S_BLOCKBYTES inp))
             (drop (BLAKE2SP_DEGREE * BLAKE2S_BLOCKBYTES) inp) (inlen - BLAKE2SP_DEGREE * BLAKE2S_BLOCKBYTES)
      else (S, inp, inlen))"
  by pat_completeness auto
termination
  by (relation "measure (\<lambda>(S, inp, inlen). inlen)") auto

declare sse_blake2sp_lane.simps [simp del]

definition sse_blake2sp_update :: "blake2sp_state \<Rightarrow> bytes \<Rightarrow> blake2sp_state" where
  "sse_blake2sp_update S inp =
     (let left = sp_buflen S;
          fill = length (sp_buf S) - left;
          (S, inp, left) =
            (if left \<noteq> 0 \<and> fill \<le> length inp then
               (let buf = memcpy (sp_buf S) left (take fill inp)
                in (S\<lparr>sp_buf := buf,
                      sp_S := map (\<lambda>i. sse_blake2s_update (sp_S S ! i)
                        (take BLAKE2S_BLOCKBYTES (drop (i * BLAKE2S_BLOCKBYTES) buf))) [0..<BLAKE2SP_DEGREE]\<rparr>,
                    drop fill inp, 0))
             else (S, inp, left));
          Ss = map (\<lambda>i. fst (sse_blake2sp_lane (sp_S S ! i) (drop (i * BLAKE2S_BLOCKBYTES) inp) (length inp)))
                 [0..<BLAKE2SP_DEGREE];
          rest = drop (length inp - length inp mod (BLAKE2SP_DEGREE * BLAKE2S_BLOCKBYTES)) inp
      in S\<lparr>sp_S := Ss,
           sp_buf := (if 0 < length rest then memcpy (sp_buf S) left rest else sp_buf S),
           sp_buflen := left + length rest\<rparr>)"

text \<open>What a leaf that is finished writes into its row of \<open>hash\<close>; a failed call leaves the row.\<close>

definition sse_blake2sp_leaf_final :: "bytes \<Rightarrow> blake2s_state \<Rightarrow> blake2s_state \<times> bytes" where
  "sse_blake2sp_leaf_final row S =
     (case sse_blake2s_final S False BLAKE2S_OUTBYTES of
        None \<Rightarrow> (S, row) | Some (S', d) \<Rightarrow> (S', memcpy row 0 d))"

text \<open>The state after the call and the bytes written to \<open>out\<close>, none for \<open>-1\<close>.\<close>

definition sse_blake2sp_final :: "bytes list \<Rightarrow> blake2sp_state \<Rightarrow> bool \<Rightarrow> nat \<Rightarrow> blake2sp_state \<times> bytes option" where
  "sse_blake2sp_final hash0 S out_null outlen =
     (if out_null \<or> outlen < sp_outlen S then (S, None)
      else
        (let leaf = (\<lambda>i.
               let B = BLAKE2S_BLOCKBYTES;
                   T = sp_S S ! i;
                   T = (if i * B < sp_buflen S
                        then (let left = sp_buflen S - i * B; left = (if B < left then B else left)
                              in sse_blake2s_update T (take left (drop (i * B) (sp_buf S))))
                        else T)
               in sse_blake2sp_leaf_final (hash0 ! i) T);
             R = fold (\<lambda>i R. sse_blake2s_update R (snd (leaf i))) [0..<BLAKE2SP_DEGREE] (sp_R S);
             S = S\<lparr>sp_S := map (\<lambda>i. fst (leaf i)) [0..<BLAKE2SP_DEGREE], sp_R := R\<rparr>
         in case sse_blake2s_final R out_null (sp_outlen S) of
              None \<Rightarrow> (S, None)
            | Some (R', d) \<Rightarrow> (S\<lparr>sp_R := R'\<rparr>, Some d)))"

definition sse_blake2sp :: "bytes list \<Rightarrow> bool \<Rightarrow> nat \<Rightarrow> bytes option \<Rightarrow> nat \<Rightarrow> bytes option \<Rightarrow> nat \<Rightarrow> bytes option" where
  "sse_blake2sp hash0 out_null outlen inp inlen key keylen =
     (if inp = None \<and> 0 < inlen then None
      else if out_null then None
      else if key = None \<and> 0 < keylen then None
      else if outlen = 0 \<or> BLAKE2S_OUTBYTES < outlen then None
      else if BLAKE2S_KEYBYTES < keylen then None
      else (case sse_blake2sp_leaves outlen keylen of
        None \<Rightarrow> None
      | Some Ss \<Rightarrow>
          let B = BLAKE2S_BLOCKBYTES;
              data = (case inp of None \<Rightarrow> [] | Some x \<Rightarrow> take inlen x);
              block = memcpy (replicate B 0) 0 (take keylen (case key of None \<Rightarrow> [] | Some k \<Rightarrow> k));
              Ss = (if 0 < keylen then map (\<lambda>S. sse_blake2s_update S block) Ss else Ss);
              leaf = (\<lambda>i.
                case sse_blake2sp_lane (Ss ! i) (drop (i * B) data) (length data) of
                  (T, in', inlen') \<Rightarrow>
                    let T = (if i * B < inlen'
                             then (let left = inlen' - i * B; len = (if left \<le> B then left else B)
                                   in sse_blake2s_update T (take len in'))
                             else T)
                    in sse_blake2sp_leaf_final (hash0 ! i) T)
          in (case sse_blake2sp_init_root outlen keylen of
                None \<Rightarrow> None
              | Some FS \<Rightarrow>
                  map_option snd (sse_blake2s_final
                    (fold (\<lambda>i R. sse_blake2s_update R (snd (leaf i))) [0..<BLAKE2SP_DEGREE] (FS\<lparr>b2s_last_node := 1\<rparr>))
                    out_null outlen))))"

section \<open>The reference computes the same\<close>

text \<open>A node of the tree whose digest has length \<open>n\<close>.\<close>

definition nodes_ok :: "nat \<Rightarrow> blake2s_state \<Rightarrow> bool" where
  "nodes_ok n S \<longleftrightarrow> blake2s_ok S \<and> b2s_outlen S = n"

lemma nodes_eqs:
  assumes "nodes_ok n S"
  shows "sse_blake2s_update S d = blake2s_update S d" "sse_blake2s_final S out_null n = blake2s_final S out_null n"
  using assms by (simp_all add: nodes_ok_def sse_update_eq_s sse_final_eq_s)

lemma nodes_update [simp]: "nodes_ok n S \<Longrightarrow> nodes_ok n (blake2s_update S d)"
  by (simp add: nodes_ok_def b2s.update_ok)

lemma nodes_last_node [simp]: "nodes_ok n (S\<lparr>b2s_last_node := v\<rparr>) = nodes_ok n S"
  by (simp add: nodes_ok_def blake2s_ok_def)

lemma leafs_node: "leafs_ok S \<Longrightarrow> nodes_ok 32 S"
  by (simp add: leafs_ok_def nodes_ok_def)

lemma sse_init_sp:
  "sse_blake2sp_init_leaf nn kk i = blake2sp_init_leaf nn kk i" "sse_blake2sp_init_root nn kk = blake2sp_init_root nn kk"
  unfolding sse_blake2sp_init_leaf_def blake2sp_init_leaf_def sse_blake2sp_init_leaf_param_def blake2sp_init_leaf_param_def
    sse_blake2sp_init_root_def blake2sp_init_root_def
  by (subst sse_init_param_eq_s; simp add: blake2s_param_bytes_def store32_def store48_def store16_def)+

lemma sse_leaves_sp: "sse_blake2sp_leaves = blake2sp_leaves"
proof -
  have "sse_blake2sp_init_leaf = blake2sp_init_leaf" by (intro ext) (rule sse_init_sp(1))
  then show ?thesis by (intro ext) (simp add: sse_blake2sp_leaves_def blake2sp_leaves_def)
qed

lemma leaves_sp_ok: "blake2sp_leaves nn kk = Some Ss \<Longrightarrow> length Ss = 8 \<and> (\<forall>S \<in> set Ss. nodes_ok 32 S)"
  using blake2sp_leaves_ok [of nn kk] leafs_node by (auto simp: in_set_conv_nth)

lemma root_sp_ok: "blake2sp_init_root nn kk = Some R \<Longrightarrow> nn \<le> 32 \<Longrightarrow> nodes_ok nn R"
  using blake2sp_root_ok [of nn kk]
  by (auto simp: nodes_ok_def blake2sp_init_root_def blake2s_init_param_def blake2s_init0_def Let_def of_nat_le_iff
      unsigned_of_nat take_bit_nat_eq_self)

lemma sse_lane_sp:
  "nodes_ok n S \<Longrightarrow> sse_blake2sp_lane S inp inlen = blake2sp_lane S inp inlen \<and> nodes_ok n (fst (blake2sp_lane S inp inlen))"
proof (induction S inp inlen rule: blake2sp_lane.induct)
  case (1 S inp inlen)
  then show ?case
    by (subst sse_blake2sp_lane.simps, subst (1 2) blake2sp_lane.simps) (simp add: nodes_eqs)
qed

text \<open>A state of the streaming interface with its nodes.\<close>

definition nodessp_ok :: "blake2sp_state \<Rightarrow> bool" where
  "nodessp_ok S \<longleftrightarrow> (\<forall>i<8. nodes_ok 32 (sp_S S ! i)) \<and> nodes_ok (sp_outlen S) (sp_R S)"

lemma sse_update_sp:
  assumes "nodessp_ok S"
  shows "sse_blake2sp_update S d = blake2sp_update S d \<and> nodessp_ok (blake2sp_update S d)"
proof -
  have leaf: "nodes_ok 32 (sp_S S ! i)" if "i < 8" for i using assms that by (simp add: nodessp_ok_def)
  have lanes: "sse_blake2sp_lane (sp_S S ! i) y n = blake2sp_lane (sp_S S ! i) y n \<and>
      nodes_ok 32 (fst (blake2sp_lane (sp_S S ! i) y n))"
    "sse_blake2sp_lane (blake2s_update (sp_S S ! i) z) y n = blake2sp_lane (blake2s_update (sp_S S ! i) z) y n \<and>
      nodes_ok 32 (fst (blake2sp_lane (blake2s_update (sp_S S ! i) z) y n))" if "i < 8" for i y z n
    using sse_lane_sp leaf [OF that] nodes_update [OF leaf [OF that]] by blast+
  have "sse_blake2sp_update S d = blake2sp_update S d"
    using leaf lanes by (simp add: sse_blake2sp_update_def blake2sp_update_def Let_def nodes_eqs [OF leaf])
  moreover have "nodessp_ok (blake2sp_update S d)"
    using assms lanes by (auto simp: nodessp_ok_def blake2sp_update_def Let_def)
  ultimately show ?thesis by simp
qed

lemma sse_leaf_final_sp: "nodes_ok 32 S \<Longrightarrow> sse_blake2sp_leaf_final row S = blake2sp_leaf_final row S"
  by (simp add: sse_blake2sp_leaf_final_def blake2sp_leaf_final_def nodes_eqs)

lemma fold_sp:
  "nodes_ok n R \<Longrightarrow> fold (\<lambda>i R. sse_blake2s_update R (f i)) is R = fold (\<lambda>i R. blake2s_update R (f i)) is R \<and>
     nodes_ok n (fold (\<lambda>i R. blake2s_update R (f i)) is R)"
  by (induction "is" arbitrary: R) (simp_all add: nodes_eqs)

lemma fold_same_sp: "(\<And>i. i \<in> set is \<Longrightarrow> f i = g i) \<Longrightarrow>
  fold (\<lambda>i R. blake2s_update R (f i)) is R = fold (\<lambda>i R. blake2s_update R (g i)) is R"
  by (rule fold_cong) simp_all

text \<open>The digests of the leaves, and the root over them.\<close>

lemma root_of_leaves_sp:
  assumes "\<forall>i<8. f i = g i" and "nodes_ok n R"
  shows "map (\<lambda>i. fst (f i)) [0..<8] = map (\<lambda>i. fst (g i)) [0..<8]"
    and "fold (\<lambda>i R. sse_blake2s_update R (snd (f i))) [0..<8] R = fold (\<lambda>i R. blake2s_update R (snd (g i))) [0..<8] R"
    and "sse_blake2s_final (fold (\<lambda>i R. blake2s_update R (snd (g i))) [0..<8] R) out_null n =
      blake2s_final (fold (\<lambda>i R. blake2s_update R (snd (g i))) [0..<8] R) out_null n"
  using assms fold_sp [OF assms(2), of "\<lambda>i. snd (f i)" "[0..<8]"] fold_sp [OF assms(2), of "\<lambda>i. snd (g i)" "[0..<8]"]
    fold_same_sp [of "[0..<8]" "\<lambda>i. snd (f i)" "\<lambda>i. snd (g i)"] nodes_eqs(2)
  by simp_all

lemma sse_final_sp:
  assumes "nodessp_ok S"
  shows "sse_blake2sp_final hash0 S out_null n = blake2sp_final hash0 S out_null n"
proof -
  let ?left = "\<lambda>i. (let left = sp_buflen S - i * BLAKE2S_BLOCKBYTES
      in if BLAKE2S_BLOCKBYTES < left then BLAKE2S_BLOCKBYTES else left)"
  let ?x = "\<lambda>i. take (?left i) (drop (i * BLAKE2S_BLOCKBYTES) (sp_buf S))"
  define g where "g = (\<lambda>i. blake2sp_leaf_final (hash0 ! i)
    (if i * BLAKE2S_BLOCKBYTES < sp_buflen S then blake2s_update (sp_S S ! i) (?x i) else sp_S S ! i))"
  define f where "f = (\<lambda>i. sse_blake2sp_leaf_final (hash0 ! i)
    (if i * BLAKE2S_BLOCKBYTES < sp_buflen S then sse_blake2s_update (sp_S S ! i) (?x i) else sp_S S ! i))"
  have leaf: "nodes_ok 32 (sp_S S ! i)" if "i < 8" for i using assms that by (simp add: nodessp_ok_def)
  have fg: "\<forall>i<8. f i = g i"
    using leaf by (simp add: f_def g_def nodes_eqs [OF leaf] sse_leaf_final_sp)
  have R: "nodes_ok (sp_outlen S) (sp_R S)" using assms by (simp add: nodessp_ok_def)
  note same = root_of_leaves_sp [of f g, OF fg R]
  have outlen: "sp_outlen (S\<lparr>sp_S := a, sp_R := b\<rparr>) = sp_outlen S" for a b by simp
  have "sse_blake2sp_final hash0 S out_null n =
     (if out_null \<or> n < sp_outlen S then (S, None)
      else (let R = fold (\<lambda>i R. sse_blake2s_update R (snd (f i))) [0..<8] (sp_R S);
                S = S\<lparr>sp_S := map (\<lambda>i. fst (f i)) [0..<8], sp_R := R\<rparr>
            in case sse_blake2s_final R out_null (sp_outlen S) of
                 None \<Rightarrow> (S, None) | Some (R', d) \<Rightarrow> (S\<lparr>sp_R := R'\<rparr>, Some d)))"
    by (simp only: sse_blake2sp_final_def f_def Let_def BLAKE2SP_DEGREE_def blake2sp_state.simps)
  also have "\<dots> = (if out_null \<or> n < sp_outlen S then (S, None)
      else (let R = fold (\<lambda>i R. blake2s_update R (snd (g i))) [0..<8] (sp_R S);
                S = S\<lparr>sp_S := map (\<lambda>i. fst (g i)) [0..<8], sp_R := R\<rparr>
            in case blake2s_final R out_null (sp_outlen S) of
                 None \<Rightarrow> (S, None) | Some (R', d) \<Rightarrow> (S\<lparr>sp_R := R'\<rparr>, Some d)))"
    unfolding same(1,2) Let_def by (simp only: outlen same(3))
  also have "\<dots> = blake2sp_final hash0 S out_null n"
    by (simp only: blake2sp_final_def g_def Let_def BLAKE2SP_DEGREE_def blake2sp_state.simps)
  finally show ?thesis .
qed

lemma sse_init_state_sp:
  "sse_blake2sp_init n = blake2sp_init n" "sse_blake2sp_init_key n key keylen = blake2sp_init_key n key keylen"
proof -
  show "sse_blake2sp_init n = blake2sp_init n"
    by (simp add: sse_blake2sp_init_def blake2sp_init_def sse_init_sp sse_leaves_sp cong: if_cong option.case_cong)
  have "map (\<lambda>S. sse_blake2s_update S b) Ss = map (\<lambda>S. blake2s_update S b) Ss" if "blake2sp_leaves nn kk = Some Ss" for nn kk Ss b
    using leaves_sp_ok [OF that] by (auto intro: nodes_eqs(1))
  then show "sse_blake2sp_init_key n key keylen = blake2sp_init_key n key keylen"
    by (auto simp: sse_blake2sp_init_key_def blake2sp_init_key_def sse_init_sp sse_leaves_sp Let_def split: option.split)
qed

lemma sse_call_sp:
  "sse_blake2sp hash0 out_null outlen inp inlen key keylen = blake2sp hash0 out_null outlen inp inlen key keylen"
proof (cases "outlen \<le> 32")
  case False
  then show ?thesis by (simp add: sse_blake2sp_def blake2sp_def)
next
  case True
  obtain Ss where Ss: "blake2sp_leaves outlen keylen = Some Ss" using blake2sp_leaves_ok by blast
  obtain R where R: "blake2sp_init_root outlen keylen = Some R" using blake2sp_root_ok by blast
  let ?block = "memcpy (replicate BLAKE2S_BLOCKBYTES 0) 0 (take keylen (case key of None \<Rightarrow> [] | Some k \<Rightarrow> k))"
  let ?data = "case inp of None \<Rightarrow> [] | Some x \<Rightarrow> take inlen x"
  define Ts where "Ts = (if 0 < keylen then map (\<lambda>S. blake2s_update S ?block) Ss else Ss)"
  have Ts: "(if 0 < keylen then map (\<lambda>S. sse_blake2s_update S ?block) Ss else Ss) = Ts"
    using leaves_sp_ok [OF Ss] by (auto simp: Ts_def intro: nodes_eqs(1))
  have leaf: "nodes_ok 32 (Ts ! i)" if "i < 8" for i
    using leaves_sp_ok [OF Ss] that by (simp add: Ts_def)
  have R_ok: "nodes_ok outlen (R\<lparr>b2s_last_node := 1\<rparr>)" using root_sp_ok [OF R True] by simp
  define g where "g = (\<lambda>i. case blake2sp_lane (Ts ! i) (drop (i * BLAKE2S_BLOCKBYTES) ?data) (length ?data) of
    (T, in', inlen') \<Rightarrow> blake2sp_leaf_final (hash0 ! i) (if i * BLAKE2S_BLOCKBYTES < inlen'
      then blake2s_update T (take (if inlen' - i * BLAKE2S_BLOCKBYTES \<le> BLAKE2S_BLOCKBYTES
        then inlen' - i * BLAKE2S_BLOCKBYTES else BLAKE2S_BLOCKBYTES) in') else T))"
  define f where "f = (\<lambda>i. case sse_blake2sp_lane (Ts ! i) (drop (i * BLAKE2S_BLOCKBYTES) ?data) (length ?data) of
    (T, in', inlen') \<Rightarrow> sse_blake2sp_leaf_final (hash0 ! i) (if i * BLAKE2S_BLOCKBYTES < inlen'
      then sse_blake2s_update T (take (if inlen' - i * BLAKE2S_BLOCKBYTES \<le> BLAKE2S_BLOCKBYTES
        then inlen' - i * BLAKE2S_BLOCKBYTES else BLAKE2S_BLOCKBYTES) in') else T))"
  have fg: "\<forall>i<8. f i = g i"
  proof (intro allI impI)
    fix i assume i: "i < (8 :: nat)"
    let ?lane = "blake2sp_lane (Ts ! i) (drop (i * BLAKE2S_BLOCKBYTES) ?data) (length ?data)"
    obtain T in' inlen' where T: "?lane = (T, in', inlen')" by (cases ?lane)
    with sse_lane_sp [OF leaf [OF i], of "drop (i * BLAKE2S_BLOCKBYTES) ?data" "length ?data"] have "nodes_ok 32 T"
      "sse_blake2sp_lane (Ts ! i) (drop (i * BLAKE2S_BLOCKBYTES) ?data) (length ?data) = (T, in', inlen')"
      by (simp_all del: blake2s_constants)
    with T show "f i = g i"
      by (simp add: f_def g_def nodes_eqs sse_leaf_final_sp del: blake2s_constants)
  qed
  note same = root_of_leaves_sp [of f g, OF fg R_ok]
  have "sse_blake2sp hash0 out_null outlen inp inlen key keylen =
     (if inp = None \<and> 0 < inlen then None
      else if out_null then None
      else if key = None \<and> 0 < keylen then None
      else if outlen = 0 \<or> BLAKE2S_OUTBYTES < outlen then None
      else if BLAKE2S_KEYBYTES < keylen then None
      else map_option snd (sse_blake2s_final
        (fold (\<lambda>i R. sse_blake2s_update R (snd (f i))) [0..<8] (R\<lparr>b2s_last_node := 1\<rparr>)) out_null outlen))"
    by (simp only: sse_blake2sp_def sse_leaves_sp Ss sse_init_sp R option.case Let_def f_def Ts BLAKE2SP_DEGREE_def)
  also have "\<dots> =
     (if inp = None \<and> 0 < inlen then None
      else if out_null then None
      else if key = None \<and> 0 < keylen then None
      else if outlen = 0 \<or> BLAKE2S_OUTBYTES < outlen then None
      else if BLAKE2S_KEYBYTES < keylen then None
      else map_option snd (blake2s_final
        (fold (\<lambda>i R. blake2s_update R (snd (g i))) [0..<8] (R\<lparr>b2s_last_node := 1\<rparr>)) out_null outlen))"
    by (simp only: same(2,3))
  also have "\<dots> = blake2sp hash0 out_null outlen inp inlen key keylen"
    by (simp only: blake2sp_def Ss R option.case Let_def g_def Ts_def BLAKE2SP_DEGREE_def)
  finally show ?thesis .
qed

lemma nodes_init_sp:
  "blake2sp_init n = Some S \<Longrightarrow> nodessp_ok S" "blake2sp_init_key n key keylen = Some S \<Longrightarrow> nodessp_ok S"
  using leaves_sp_ok root_sp_ok
  by (fastforce simp: blake2sp_init_def blake2sp_init_key_def nodessp_ok_def Let_def split: if_splits option.splits)+

lemma sse_stream_sp:
  assumes "nodessp_ok S"
  shows "foldl sse_blake2sp_update S ds = foldl blake2sp_update S ds \<and> nodessp_ok (foldl blake2sp_update S ds)"
  using assms by (induction ds arbitrary: S) (simp_all add: sse_update_sp)

text \<open>The parallel BLAKE2sp of the SSE directory computes what the reference does on every call, and with the
  streaming calls, from either start and for any pieces.\<close>

theorem sse_blake2sp_is_reference:
  "sse_blake2sp hash0 out_null outlen inp inlen key keylen = blake2sp hash0 out_null outlen inp inlen key keylen \<and>
   sse_blake2sp_init outlen = blake2sp_init outlen \<and> sse_blake2sp_init_key outlen key keylen = blake2sp_init_key outlen key keylen \<and>
   (blake2sp_init outlen = Some S \<or> blake2sp_init_key outlen key keylen = Some S \<longrightarrow>
      sse_blake2sp_final hash0 (foldl sse_blake2sp_update S ds) out_null n =
      blake2sp_final hash0 (foldl blake2sp_update S ds) out_null n)"
  using sse_call_sp sse_init_state_sp nodes_init_sp sse_stream_sp sse_final_sp by metis

text \<open>C34: 
  the parallel modes of the SSE directory compute what those of the reference do, on every call, and with
  the streaming calls from either start, for any pieces of the message.\<close>

theorem sse_parallel_is_reference:
  "sse_blake2bp hashb out_null outlen inp inlen key keylen = blake2bp hashb out_null outlen inp inlen key keylen \<and>
   sse_blake2sp hashs out_null outlen inp inlen key keylen = blake2sp hashs out_null outlen inp inlen key keylen \<and>
   sse_blake2bp_init outlen = blake2bp_init outlen \<and> sse_blake2bp_init_key outlen key keylen = blake2bp_init_key outlen key keylen \<and>
   sse_blake2sp_init outlen = blake2sp_init outlen \<and> sse_blake2sp_init_key outlen key keylen = blake2sp_init_key outlen key keylen \<and>
   (blake2bp_init outlen = Some S \<or> blake2bp_init_key outlen key keylen = Some S \<longrightarrow>
      sse_blake2bp_final hashb (foldl sse_blake2bp_update S ds) out_null n =
      blake2bp_final hashb (foldl blake2bp_update S ds) out_null n) \<and>
   (blake2sp_init outlen = Some T \<or> blake2sp_init_key outlen key keylen = Some T \<longrightarrow>
      sse_blake2sp_final hashs (foldl sse_blake2sp_update T ds) out_null n =
      blake2sp_final hashs (foldl blake2sp_update T ds) out_null n)"
  by (intro conjI impI) (use sse_blake2bp_is_reference sse_blake2sp_is_reference in blast)+

theorem sse_parallel_is_reference_witness:
  "\<exists>S. blake2bp_init 32 = Some S \<and>
     sse_blake2bp_final (replicate 4 (replicate 64 0)) (foldl sse_blake2bp_update S [[1], [2, 3]]) False 32 =
     blake2bp_final (replicate 4 (replicate 64 0)) (foldl blake2bp_update S [[1], [2, 3]]) False 32"
proof -
  obtain Ss where "blake2bp_leaves 32 0 = Some Ss" using blake2bp_leaves_ok by blast
  moreover obtain R where "blake2bp_init_root 32 0 = Some R" using blake2bp_root_ok by blast
  ultimately obtain S where S: "blake2bp_init 32 = Some S" by (simp add: blake2bp_init_def)
  with sse_parallel_is_reference [of "replicate 4 (replicate 64 0)" False 32 "Some [1, 2, 3]" 3 None 0 "[]" S "[[1], [2, 3]]" 32]
  show ?thesis by blast
qed

end
