(* ===== verification/Blake2xb.thy ===== *)
theory Blake2xb
  imports Blake2bSSE
begin

text \<open>
  BLAKE2Xb, output of any length from BLAKE2b (\<open>blake2/ref/blake2xb-ref.c\<close>; \<open>blake2/sse/blake2xb.c\<close> is
  the same text but for two comments). The file calls the sequential hash functions of the library it is linked with:
  they are an argument, of which the reference and the SSE2 library are the two values. Both give
  the outputs of the specification, which is stated over the hash of RFC 7693.
\<close>

section \<open>The functions of the file\<close>

record b2b_library =
  libb_init_param :: "blake2b_param \<Rightarrow> blake2b_state option"
  libb_update :: "blake2b_state \<Rightarrow> bytes \<Rightarrow> blake2b_state"
  libb_final :: "blake2b_state \<Rightarrow> bool \<Rightarrow> nat \<Rightarrow> (blake2b_state \<times> bytes) option"

definition ref_b2b :: b2b_library where
  "ref_b2b = \<lparr>libb_init_param = blake2b_init_param, libb_update = blake2b_update, libb_final = blake2b_final\<rparr>"

definition sse_b2b :: b2b_library where
  "sse_b2b = \<lparr>libb_init_param = sse_blake2b_init_param, libb_update = sse_blake2b_update,
     libb_final = sse_blake2b_final\<rparr>"

record blake2xb_state =
  xb_S :: blake2b_state
  xb_P :: blake2b_param

definition blake2xb_root_param :: "nat \<Rightarrow> nat \<Rightarrow> blake2b_param" where
  "blake2xb_root_param outlen keylen = \<lparr>p2b_digest_length = of_nat BLAKE2B_OUTBYTES,
     p2b_key_length = of_nat keylen, p2b_fanout = 1, p2b_depth = 1, p2b_leaf_length = 0,
     p2b_node_offset = 0, p2b_xof_length = of_nat outlen, p2b_node_depth = 0, p2b_inner_length = 0,
     p2b_reserved = replicate 14 0, p2b_salt = replicate BLAKE2B_SALTBYTES 0,
     p2b_personal = replicate BLAKE2B_PERSONALBYTES 0\<rparr>"

definition blake2xb_init_key :: "b2b_library \<Rightarrow> nat \<Rightarrow> bytes option \<Rightarrow> nat \<Rightarrow> blake2xb_state option" where
  "blake2xb_init_key L outlen key keylen =
     (if outlen = 0 \<or> outlen > 0xFFFFFFFF then None
      else if key \<noteq> None \<and> BLAKE2B_KEYBYTES < keylen then None
      else if key = None \<and> 0 < keylen then None
      else
        (let P = blake2xb_root_param outlen keylen
         in case libb_init_param L P of
              None \<Rightarrow> None
            | Some S \<Rightarrow>
                Some \<lparr>xb_S = (if 0 < keylen
                    then libb_update L S (memcpy (replicate BLAKE2B_BLOCKBYTES 0) 0 (take keylen (the key))) else S),
                  xb_P = P\<rparr>))"

definition blake2xb_init :: "b2b_library \<Rightarrow> nat \<Rightarrow> blake2xb_state option" where
  "blake2xb_init L outlen = blake2xb_init_key L outlen None 0"

definition blake2xb_update :: "b2b_library \<Rightarrow> blake2xb_state \<Rightarrow> bytes \<Rightarrow> blake2xb_state" where
  "blake2xb_update L S inp = S\<lparr>xb_S := libb_update L (xb_S S) inp\<rparr>"

text \<open>
  The loop over the blocks of the output, from block \<open>i\<close> with \<open>outlen\<close> bytes to go: the bytes it writes.
  The result of the initialisation is ignored; no state is claimed when it fails.
\<close>

function blake2xb_blocks :: "b2b_library \<Rightarrow> blake2b_param \<Rightarrow> bytes \<Rightarrow> nat \<Rightarrow> nat \<Rightarrow> bytes option" where
  "blake2xb_blocks L P root i outlen =
     (if 0 < outlen then
        (let block_size = (if outlen < BLAKE2B_OUTBYTES then outlen else BLAKE2B_OUTBYTES);
             P = P\<lparr>p2b_digest_length := of_nat block_size, p2b_node_offset := of_nat i\<rparr>
         in case libb_init_param L P of
              None \<Rightarrow> None
            | Some C \<Rightarrow>
                (case libb_final L (libb_update L C root) False block_size of
                   None \<Rightarrow> None
                 | Some (_, d) \<Rightarrow>
                     map_option ((@) d) (blake2xb_blocks L P root (i + 1) (outlen - block_size))))
      else Some [])"
  by pat_completeness auto
termination
  by (relation "measure (\<lambda>(L, P, root, i, outlen). outlen)") auto

declare blake2xb_blocks.simps [simp del]

definition blake2xb_final :: "b2b_library \<Rightarrow> blake2xb_state \<Rightarrow> bool \<Rightarrow> nat \<Rightarrow> (blake2xb_state \<times> bytes) option" where
  "blake2xb_final L S out_null outlen =
     (let xof_length = p2b_xof_length (xb_P S)
      in if out_null then None
         else if (if xof_length = 0xFFFFFFFF then outlen = 0 else outlen \<noteq> unat xof_length) then None
         else case libb_final L (xb_S S) False BLAKE2B_OUTBYTES of
                None \<Rightarrow> None
              | Some (S', root) \<Rightarrow>
                  (let P = (xb_P S)\<lparr>p2b_key_length := 0, p2b_fanout := 0, p2b_depth := 0,
                         p2b_leaf_length := of_nat BLAKE2B_OUTBYTES,
                         p2b_inner_length := of_nat BLAKE2B_OUTBYTES, p2b_node_depth := 0\<rparr>
                   in map_option (Pair (S\<lparr>xb_S := S'\<rparr>)) (blake2xb_blocks L P root 0 outlen)))"

definition blake2xb :: "b2b_library \<Rightarrow> bool \<Rightarrow> nat \<Rightarrow> bytes option \<Rightarrow> nat \<Rightarrow> bytes option \<Rightarrow> nat \<Rightarrow> bytes option" where
  "blake2xb L out_null outlen inp inlen key keylen =
     (if inp = None \<and> 0 < inlen then None
      else if out_null then None
      else if key = None \<and> 0 < keylen then None
      else if BLAKE2B_KEYBYTES < keylen then None
      else if outlen = 0 then None
      else case blake2xb_init_key L outlen key keylen of
             None \<Rightarrow> None
           | Some S \<Rightarrow>
               (let S = blake2xb_update L S (case inp of None \<Rightarrow> [] | Some i \<Rightarrow> take inlen i)
                in map_option snd (blake2xb_final L S out_null outlen)))"

section \<open>The specification\<close>

text \<open>
  The hash of RFC 7693 with any parameter block, and BLAKE2X: the hash of the message is the root, each
  block of the output is a hash of the root that knows its number, and the last is as short as it has to be.
\<close>

definition rfcb_node :: "blake2b_param \<Rightarrow> nat \<Rightarrow> bytes \<Rightarrow> bytes" where
  "rfcb_node P nn d =
     take nn (concat (map (le_bytes 8) (rfcb_chain
       (map (\<lambda>i. blake2b_IV ! i XOR le_word (take 8 (drop (8 * i) (blake2b_param_bytes P)))) [0..<8]) 0 d)))"

definition node_param_b :: "nat \<Rightarrow> nat \<Rightarrow> nat \<Rightarrow> blake2b_param" where
  "node_param_b xof_length nn i = \<lparr>p2b_digest_length = of_nat nn, p2b_key_length = 0, p2b_fanout = 0,
     p2b_depth = 0, p2b_leaf_length = 64, p2b_node_offset = of_nat i,
     p2b_xof_length = of_nat xof_length, p2b_node_depth = 0, p2b_inner_length = 64,
     p2b_reserved = replicate 14 0, p2b_salt = replicate 16 0, p2b_personal = replicate 16 0\<rparr>"

definition xofb_root :: "nat \<Rightarrow> bytes \<Rightarrow> bytes \<Rightarrow> bytes" where
  "xofb_root xof_length key msg =
     rfcb_node (blake2xb_root_param xof_length (length key)) 64
       ((if key = [] then [] else key @ replicate (128 - length key) 0) @ msg)"

definition xofb :: "nat \<Rightarrow> nat \<Rightarrow> bytes \<Rightarrow> bytes \<Rightarrow> bytes" where
  "xofb xof_length outlen key msg =
     concat (map (\<lambda>i. let nn = min 64 (outlen - 64 * i)
       in rfcb_node (node_param_b xof_length nn i) nn (xofb_root xof_length key msg)) [0..<(outlen + 63) div 64])"

section \<open>The contract of the library\<close>

text \<open>
  What the file relies on: a state can be made from every parameter block, and hashing any pieces with
  it gives the hash with that block.
\<close>

locale hash_library_b =
  fixes L :: b2b_library
  assumes init_some: "\<exists>S. libb_init_param L P = Some S"
    and digest: "libb_init_param L P = Some S \<Longrightarrow> length (blake2b_param_bytes P) = 64 \<Longrightarrow> unat (p2b_digest_length P) = nn \<Longrightarrow>
      \<exists>S'. libb_final L (foldl (libb_update L) S ds) False nn = Some (S', rfcb_node P nn (concat ds))"
begin

text \<open>The loop over the blocks.\<close>

lemma blocks_spec:
  assumes "P\<lparr>p2b_digest_length := 0, p2b_node_offset := 0\<rparr> = node_param_b xl 0 0"
  shows "blake2xb_blocks L P root i n = Some (concat (map (\<lambda>j. let nn = min 64 (n - 64 * j)
      in rfcb_node (node_param_b xl nn (i + j)) nn root) [0..<(n + 63) div 64]))"
  using assms
proof (induction n arbitrary: i P rule: less_induct)
  case (less n)
  show ?case
  proof (cases "0 < n")
    case False
    then show ?thesis by (subst blake2xb_blocks.simps) simp
  next
    case True
    let ?nn = "min 64 n"
    let ?P = "P\<lparr>p2b_digest_length := of_nat ?nn, p2b_node_offset := of_nat i\<rparr>"
    have P: "?P = node_param_b xl ?nn i"
    proof -
      have "?P = (P\<lparr>p2b_digest_length := 0, p2b_node_offset := 0\<rparr>)
          \<lparr>p2b_digest_length := of_nat ?nn, p2b_node_offset := of_nat i\<rparr>" by simp
      then show ?thesis unfolding less.prems by (simp add: node_param_b_def)
    qed
    have bs: "(if n < BLAKE2B_OUTBYTES then n else BLAKE2B_OUTBYTES) = ?nn" by simp
    obtain C where C: "libb_init_param L ?P = Some C" using init_some by blast
    have "length (blake2b_param_bytes ?P) = 64" "unat (p2b_digest_length ?P) = ?nn"
      unfolding P by (simp_all add: blake2b_param_bytes_def node_param_b_def store32_def store16_def unat_of_nat)
    from digest [OF C this, of "[root]"] obtain C'
      where C': "libb_final L (libb_update L C root) False ?nn = Some (C', rfcb_node ?P ?nn root)" by auto
    have "?P\<lparr>p2b_digest_length := 0, p2b_node_offset := 0\<rparr> = node_param_b xl 0 0"
      using less.prems by simp
    moreover have "n - ?nn < n" using True by simp
    ultimately have rest: "blake2xb_blocks L ?P root (i + 1) (n - ?nn) = Some (concat (map (\<lambda>j. let nn = min 64 (n - ?nn - 64 * j)
        in rfcb_node (node_param_b xl nn (i + 1 + j)) nn root) [0..<(n - ?nn + 63) div 64]))"
      by (rule less.IH [rotated])
    have count: "(n + 63) div 64 = Suc ((n - ?nn + 63) div 64)"
      using True by (cases "n < 64") (auto simp: div_if)
    have tail: "n - ?nn - 64 * j = n - 64 * Suc j" for j by simp
    have "blake2xb_blocks L P root i n = map_option ((@) (rfcb_node ?P ?nn root)) (blake2xb_blocks L ?P root (i + 1) (n - ?nn))"
      using True C C' by (subst blake2xb_blocks.simps) (simp only: bs Let_def if_True option.case prod.case)
    also have "\<dots> = Some (rfcb_node (node_param_b xl ?nn i) ?nn root @ concat (map (\<lambda>j. let nn = min 64 (n - 64 * Suc j)
        in rfcb_node (node_param_b xl nn (i + Suc j)) nn root) [0..<(n - ?nn + 63) div 64]))"
      unfolding rest unfolding P tail by simp
    finally show ?thesis
      unfolding count by (simp only: upt_conv_Cons zero_less_Suc list.map concat.simps map_Suc_upt [symmetric] map_map comp_def mult_0_right diff_zero add_0_right Let_def)
  qed
qed

lemma foldl_update: "foldl (blake2xb_update L) S ds = S\<lparr>xb_S := foldl (libb_update L) (xb_S S) ds\<rparr>"
  by (induction ds arbitrary: S) (simp_all add: blake2xb_update_def)

lemma stream:
  assumes "blake2xb_init_key L X key (length k) = Some S" and "key = Some k \<or> key = None \<and> k = []"
  shows "map_option snd (blake2xb_final L (foldl (blake2xb_update L) S ds) False n) =
    (if (if X = 0xFFFFFFFF then n = 0 else n \<noteq> X) then None else Some (xofb X n k (concat ds)))"
proof -
  let ?P = "blake2xb_root_param X (length k)"
  from assms have X: "0 < X" "X \<le> 0xFFFFFFFF" "length k \<le> 64"
    by (auto simp: blake2xb_init_key_def split: if_splits)
  obtain S0 where S0: "libb_init_param L ?P = Some S0" using init_some by blast
  let ?pad = "if k = [] then [] else [k @ replicate (128 - length k) 0]"
  have S: "S = \<lparr>xb_S = foldl (libb_update L) S0 ?pad, xb_P = ?P\<rparr>"
    using assms S0 X by (auto simp: blake2xb_init_key_def Let_def memcpy_def split: if_splits)
  have "length (blake2b_param_bytes ?P) = 64" "unat (p2b_digest_length ?P) = 64"
    by (simp_all add: blake2b_param_bytes_def blake2xb_root_param_def store32_def store16_def)
  from digest [OF S0 this, of "?pad @ ds"] obtain S'
    where S': "libb_final L (foldl (libb_update L) (foldl (libb_update L) S0 ?pad) ds) False 64 =
      Some (S', rfcb_node ?P 64 (concat (?pad @ ds)))"
    unfolding foldl_append by blast
  have root: "rfcb_node ?P 64 (concat (?pad @ ds)) = xofb_root X k (concat ds)" by (simp add: xofb_root_def)
  let ?N = "?P\<lparr>p2b_key_length := 0, p2b_fanout := 0, p2b_depth := 0, p2b_leaf_length := of_nat BLAKE2B_OUTBYTES,
    p2b_inner_length := of_nat BLAKE2B_OUTBYTES, p2b_node_depth := 0\<rparr>"
  have "?N\<lparr>p2b_digest_length := 0, p2b_node_offset := 0\<rparr> = node_param_b X 0 0"
    by (simp add: blake2xb_root_param_def node_param_b_def)
  from blocks_spec [OF this, of "xofb_root X k (concat ds)" 0 n]
  have out: "blake2xb_blocks L ?N (xofb_root X k (concat ds)) 0 n = Some (xofb X n k (concat ds))"
    unfolding xofb_def add_0 .
  have xl: "(p2b_xof_length ?P = 0xFFFFFFFF) = (X = 0xFFFFFFFF)" "unat (p2b_xof_length ?P) = X"
  proof -
    show u: "unat (p2b_xof_length ?P) = X" using X by (simp add: blake2xb_root_param_def unat_of_nat)
    show "(p2b_xof_length ?P = 0xFFFFFFFF) = (X = 0xFFFFFFFF)" using u by (simp add: word_unat_eq_iff)
  qed
  have final: "libb_final L (xb_S (foldl (blake2xb_update L) S ds)) False BLAKE2B_OUTBYTES =
      Some (S', xofb_root X k (concat ds))" "xb_P (foldl (blake2xb_update L) S ds) = ?P"
    unfolding foldl_update S using S' unfolding root by simp_all
  show ?thesis
    unfolding blake2xb_final_def final Let_def option.case prod.case out xl by auto
qed

lemma one_call:
  assumes "0 < n" "n \<le> 0xFFFFFFFF" "length k \<le> 64"
    and "key = Some k \<or> key = None \<and> k = []" and "inp = Some d \<or> inp = None \<and> d = []"
  shows "blake2xb L False n inp (length d) key (length k) = Some (xofb n n k d)"
proof -
  obtain S where S: "blake2xb_init_key L n key (length k) = Some S"
    using assms init_some [of "blake2xb_root_param n (length k)"]
    by (auto simp: blake2xb_init_key_def Let_def)
  have d: "(case inp of None \<Rightarrow> [] | Some i \<Rightarrow> take (length d) i) = d" using assms(5) by auto
  from stream [OF S assms(4), of "[d]" n] assms(1)
  have "map_option snd (blake2xb_final L (blake2xb_update L S d) False n) = Some (xofb n n k d)" by simp
  with S d assms show ?thesis by (auto simp: blake2xb_def Let_def)
qed

end

section \<open>The two libraries\<close>

lemma param_state_b:
  assumes "blake2b_init_param P = Some S" "length (blake2b_param_bytes P) = 64"
  shows "blake2b_abs S = (S\<lparr>b2b_buf := [], b2b_buflen := 0\<rparr>, [])" "b2b_t S = [0, 0]" "b2b_f S = [0, 0]"
    "b2b_last_node S = 0" "b2b_outlen S = unat (p2b_digest_length P)"
    "b2b_h S = map (\<lambda>i. blake2b_IV ! i XOR le_word (take 8 (drop (8 * i) (blake2b_param_bytes P)))) [0..<8]"
proof -
  show "blake2b_abs S = (S\<lparr>b2b_buf := [], b2b_buflen := 0\<rparr>, [])" "b2b_t S = [0, 0]" "b2b_f S = [0, 0]"
    "b2b_last_node S = 0" "b2b_outlen S = unat (p2b_digest_length P)"
    using assms(1) by (auto simp: blake2b_init_param_def blake2b_init0_def blake2b_abs_def Let_def)
  have "b2b_h S = map (\<lambda>i. blake2b_IV ! i XOR load64 (drop (8 * i) (blake2b_param_bytes P))) [0..<8]"
    using assms(1) by (auto simp: blake2b_init_param_def blake2b_init0_def Let_def)
  also have "\<dots> = map (\<lambda>i. blake2b_IV ! i XOR le_word (take 8 (drop (8 * i) (blake2b_param_bytes P)))) [0..<8]"
    using assms(2) by (intro map_cong refl) (simp add: load64_le)
  finally show "b2b_h S = map (\<lambda>i. blake2b_IV ! i XOR le_word (take 8 (drop (8 * i) (blake2b_param_bytes P)))) [0..<8]" .
qed

lemma ref_digest_b:
  assumes "blake2b_init_param P = Some S" "length (blake2b_param_bytes P) = 64" "unat (p2b_digest_length P) = nn"
  shows "\<exists>S'. blake2b_final (foldl blake2b_update S ds) False nn = Some (S', rfcb_node P nn (concat ds))"
proof -
  note start = param_state_b [OF assms(1,2)]
  have ok: "blake2b_ok S" by (rule blake2b_init_param_ok [OF assms(1)])
  then have len: "length (b2b_h S) = 8" by (simp add: blake2b_ok_def)
  let ?T = "foldl blake2b_update S ds"
  obtain c' p' where cp: "blake2b_abs ?T = (c', p')" by (cases "blake2b_abs ?T")
  with b2b.foldl_update [OF ok, of ds] b2b.update_abs [OF ok, of "concat ds"] start(1)
  have "absorb_all BLAKE2B_BLOCKBYTES blake2b_absorb (S\<lparr>b2b_buf := [], b2b_buflen := 0\<rparr>) (concat ds) = (c', p')"
    by simp
  then have "blake2b_fin nn (c', p') = Some (take nn (concat (map (le_bytes 8) (rfcb_chain (b2b_h S) 0 (concat ds)))))"
    using blake2b_fin_chain [of "S\<lparr>b2b_buf := [], b2b_buflen := 0\<rparr>" "concat ds" c' p' 0 nn] start len assms(3) by simp
  then have "map_option snd (blake2b_final ?T False nn) = Some (rfcb_node P nn (concat ds))"
    using blake2b_final_fin [OF b2b.foldl_update_ok [OF ok], of ds nn] cp start(6) by (simp add: rfcb_node_def)
  then show ?thesis by auto
qed

interpretation ref_b: hash_library_b ref_b2b
proof unfold_locales
  show "\<exists>S. libb_init_param ref_b2b P = Some S" for P
    by (simp add: ref_b2b_def blake2b_init_param_def Let_def)
  show "libb_init_param ref_b2b P = Some S \<Longrightarrow> length (blake2b_param_bytes P) = 64 \<Longrightarrow> unat (p2b_digest_length P) = nn \<Longrightarrow>
      \<exists>S'. libb_final ref_b2b (foldl (libb_update ref_b2b) S ds) False nn = Some (S', rfcb_node P nn (concat ds))" for P S nn ds
    using ref_digest_b by (simp add: ref_b2b_def)
qed

lemma sse_foldl_b: "blake2b_ok S \<Longrightarrow> foldl sse_blake2b_update S ds = foldl blake2b_update S ds"
  by (induction ds arbitrary: S) (simp_all add: sse_update_eq b2b.update_ok)

interpretation sse_b: hash_library_b sse_b2b
proof unfold_locales
  show "\<exists>S. libb_init_param sse_b2b P = Some S" for P
    by (simp add: sse_b2b_def sse_blake2b_init_param_def Let_def)
next
  fix P S nn ds
  assume S: "libb_init_param sse_b2b P = Some S" and len: "length (blake2b_param_bytes P) = 64"
    and nn: "unat (p2b_digest_length P) = nn"
  then have ref: "blake2b_init_param P = Some S" by (simp add: sse_b2b_def sse_init_param_eq)
  have ok: "blake2b_ok S" by (rule blake2b_init_param_ok [OF ref])
  have same: "sse_blake2b_final (foldl blake2b_update S ds) False nn = blake2b_final (foldl blake2b_update S ds) False nn"
    using sse_final_eq [OF b2b.foldl_update_ok [OF ok]] .
  from ref_digest_b [OF ref len nn, of ds] show
    "\<exists>S'. libb_final sse_b2b (foldl (libb_update sse_b2b) S ds) False nn = Some (S', rfcb_node P nn (concat ds))"
    by (simp add: sse_b2b_def sse_foldl_b [OF ok] same)
qed

section \<open>Every output\<close>

lemma length_rfcb_node: "nn \<le> 64 \<Longrightarrow> length (rfcb_node P nn d) = nn"
  by (simp add: rfcb_node_def length_concat comp_def sum_list_triv length_rfcb_chain)

text \<open>The lengths of the blocks of an output.\<close>

lemma block_lengths_b: "sum_list (map (\<lambda>i. min 64 (n - 64 * i)) [0..<(n + 63) div 64]) = (n :: nat)"
proof (induction n rule: less_induct)
  case (less n)
  show ?case
  proof (cases "n = 0")
    case False
    let ?nn = "min 64 n"
    have count: "(n + 63) div 64 = Suc ((n - ?nn + 63) div 64)"
      using False by (cases "n < 64") (auto simp: div_if)
    have "n - 64 * Suc j = n - ?nn - 64 * j" for j by simp
    then have "sum_list (map (\<lambda>i. min 64 (n - 64 * i)) [0..<(n + 63) div 64]) =
        ?nn + sum_list (map (\<lambda>i. min 64 (n - ?nn - 64 * i)) [0..<(n - ?nn + 63) div 64])"
      unfolding count
      by (simp only: upt_conv_Cons zero_less_Suc list.map sum_list.Cons map_Suc_upt [symmetric] map_map comp_def mult_0_right diff_zero)
    with less [of "n - ?nn"] False show ?thesis by simp
  qed simp
qed

lemma length_xofb: "length (xofb X n k d) = n"
  using block_lengths_b [of n] by (simp add: xofb_def length_concat comp_def Let_def length_rfcb_node)

text \<open>C35: 
  BLAKE2Xb with the reference library and with the SSE2 library: a message in any pieces, under a key or
  none, gives the output of the specification, of exactly the length asked for. A length other than
  that of the initialisation is refused, unless that was the largest: then any length but zero is
  given. One call is the same.
\<close>

theorem blake2xb_is_xof:
  assumes "L = ref_b2b \<or> L = sse_b2b" and "0 < X" and "X \<le> 0xFFFFFFFF" and "length k \<le> 64"
  shows "\<exists>S. blake2xb_init_key L X (Some k) (length k) = Some S \<and>
    map_option snd (blake2xb_final L (foldl (blake2xb_update L) S ds) False n) =
      (if (if X = 0xFFFFFFFF then n = 0 else n \<noteq> X) then None else Some (xofb X n k (concat ds))) \<and>
    length (xofb X n k (concat ds)) = n \<and>
    blake2xb L False X (Some d) (length d) (Some k) (length k) = Some (xofb X X k d)"
proof -
  have "\<exists>S. blake2xb_init_key L X (Some k) (length k) = Some S"
    using assms ref_b.init_some sse_b.init_some by (auto simp: blake2xb_init_key_def Let_def split: option.split)
  then obtain S where S: "blake2xb_init_key L X (Some k) (length k) = Some S" by blast
  from assms(1) have "map_option snd (blake2xb_final L (foldl (blake2xb_update L) S ds) False n) =
      (if (if X = 0xFFFFFFFF then n = 0 else n \<noteq> X) then None else Some (xofb X n k (concat ds)))"
    using S ref_b.stream [of X "Some k" k S ds n] sse_b.stream [of X "Some k" k S ds n] by auto
  moreover have "blake2xb L False X (Some d) (length d) (Some k) (length k) = Some (xofb X X k d)"
    using assms(1) ref_b.one_call [OF assms(2-4), of "Some k" "Some d" d] sse_b.one_call [OF assms(2-4), of "Some k" "Some d" d]
    by auto
  ultimately show ?thesis using S length_xofb by blast
qed

text \<open>100 bytes from a message of two pieces, as two blocks of output.\<close>

theorem blake2xb_is_xof_witness:
  "\<exists>S. blake2xb_init_key sse_b2b 100 (Some [1, 2]) 2 = Some S \<and>
     map_option snd (blake2xb_final sse_b2b (foldl (blake2xb_update sse_b2b) S [[3], [4, 5]]) False 100) =
       Some (xofb 100 100 [1, 2] [3, 4, 5]) \<and> length (xofb 100 100 [1, 2] [3, 4, 5]) = 100"
  using blake2xb_is_xof [of sse_b2b 100 "[1, 2]" "[[3], [4, 5]]" 100 "[]"]
  by (auto simp: numeral_2_eq_2)

end
