(* ===== verification/Blake2xs.thy ===== *)
theory Blake2xs
  imports Blake2sSSE
begin

text \<open>
  BLAKE2Xs, output of any length from BLAKE2s (\<open>blake2/ref/blake2xs-ref.c\<close>; \<open>blake2/sse/blake2xs.c\<close> is
  the same text but for two comments). The file calls the sequential hash functions of the library it is linked with:
  they are an argument, of which the reference and the SSE2 library are the two values. Both give
  the outputs of the specification, which is stated over the hash of RFC 7693.
\<close>

section \<open>The functions of the file\<close>

record b2s_library =
  libs_init_param :: "blake2s_param \<Rightarrow> blake2s_state option"
  libs_update :: "blake2s_state \<Rightarrow> bytes \<Rightarrow> blake2s_state"
  libs_final :: "blake2s_state \<Rightarrow> bool \<Rightarrow> nat \<Rightarrow> (blake2s_state \<times> bytes) option"

definition ref_b2s :: b2s_library where
  "ref_b2s = \<lparr>libs_init_param = blake2s_init_param, libs_update = blake2s_update, libs_final = blake2s_final\<rparr>"

definition sse_b2s :: b2s_library where
  "sse_b2s = \<lparr>libs_init_param = sse_blake2s_init_param, libs_update = sse_blake2s_update,
     libs_final = sse_blake2s_final\<rparr>"

record blake2xs_state =
  xs_S :: blake2s_state
  xs_P :: blake2s_param

definition blake2xs_root_param :: "nat \<Rightarrow> nat \<Rightarrow> blake2s_param" where
  "blake2xs_root_param outlen keylen = \<lparr>p2s_digest_length = of_nat BLAKE2S_OUTBYTES,
     p2s_key_length = of_nat keylen, p2s_fanout = 1, p2s_depth = 1, p2s_leaf_length = 0,
     p2s_node_offset = 0, p2s_xof_length = of_nat outlen, p2s_node_depth = 0, p2s_inner_length = 0,
     p2s_salt = replicate BLAKE2S_SALTBYTES 0,
     p2s_personal = replicate BLAKE2S_PERSONALBYTES 0\<rparr>"

definition blake2xs_init_key :: "b2s_library \<Rightarrow> nat \<Rightarrow> bytes option \<Rightarrow> nat \<Rightarrow> blake2xs_state option" where
  "blake2xs_init_key L outlen key keylen =
     (if outlen = 0 \<or> outlen > 0xFFFF then None
      else if key \<noteq> None \<and> BLAKE2S_KEYBYTES < keylen then None
      else if key = None \<and> 0 < keylen then None
      else
        (let P = blake2xs_root_param outlen keylen
         in case libs_init_param L P of
              None \<Rightarrow> None
            | Some S \<Rightarrow>
                Some \<lparr>xs_S = (if 0 < keylen
                    then libs_update L S (memcpy (replicate BLAKE2S_BLOCKBYTES 0) 0 (take keylen (the key))) else S),
                  xs_P = P\<rparr>))"

definition blake2xs_init :: "b2s_library \<Rightarrow> nat \<Rightarrow> blake2xs_state option" where
  "blake2xs_init L outlen = blake2xs_init_key L outlen None 0"

definition blake2xs_update :: "b2s_library \<Rightarrow> blake2xs_state \<Rightarrow> bytes \<Rightarrow> blake2xs_state" where
  "blake2xs_update L S inp = S\<lparr>xs_S := libs_update L (xs_S S) inp\<rparr>"

text \<open>
  The loop over the blocks of the output, from block \<open>i\<close> with \<open>outlen\<close> bytes to go: the bytes it writes.
  The result of the initialisation is ignored; no state is claimed when it fails.
\<close>

function blake2xs_blocks :: "b2s_library \<Rightarrow> blake2s_param \<Rightarrow> bytes \<Rightarrow> nat \<Rightarrow> nat \<Rightarrow> bytes option" where
  "blake2xs_blocks L P root i outlen =
     (if 0 < outlen then
        (let block_size = (if outlen < BLAKE2S_OUTBYTES then outlen else BLAKE2S_OUTBYTES);
             P = P\<lparr>p2s_digest_length := of_nat block_size, p2s_node_offset := of_nat i\<rparr>
         in case libs_init_param L P of
              None \<Rightarrow> None
            | Some C \<Rightarrow>
                (case libs_final L (libs_update L C root) False block_size of
                   None \<Rightarrow> None
                 | Some (_, d) \<Rightarrow>
                     map_option ((@) d) (blake2xs_blocks L P root (i + 1) (outlen - block_size))))
      else Some [])"
  by pat_completeness auto
termination
  by (relation "measure (\<lambda>(L, P, root, i, outlen). outlen)") auto

declare blake2xs_blocks.simps [simp del]

definition blake2xs_final :: "b2s_library \<Rightarrow> blake2xs_state \<Rightarrow> bool \<Rightarrow> nat \<Rightarrow> (blake2xs_state \<times> bytes) option" where
  "blake2xs_final L S out_null outlen =
     (let xof_length = p2s_xof_length (xs_P S)
      in if out_null then None
         else if (if xof_length = 0xFFFF then outlen = 0 else outlen \<noteq> unat xof_length) then None
         else case libs_final L (xs_S S) False BLAKE2S_OUTBYTES of
                None \<Rightarrow> None
              | Some (S', root) \<Rightarrow>
                  (let P = (xs_P S)\<lparr>p2s_key_length := 0, p2s_fanout := 0, p2s_depth := 0,
                         p2s_leaf_length := of_nat BLAKE2S_OUTBYTES,
                         p2s_inner_length := of_nat BLAKE2S_OUTBYTES, p2s_node_depth := 0\<rparr>
                   in map_option (Pair (S\<lparr>xs_S := S'\<rparr>)) (blake2xs_blocks L P root 0 outlen)))"

definition blake2xs :: "b2s_library \<Rightarrow> bool \<Rightarrow> nat \<Rightarrow> bytes option \<Rightarrow> nat \<Rightarrow> bytes option \<Rightarrow> nat \<Rightarrow> bytes option" where
  "blake2xs L out_null outlen inp inlen key keylen =
     (if inp = None \<and> 0 < inlen then None
      else if out_null then None
      else if key = None \<and> 0 < keylen then None
      else if BLAKE2S_KEYBYTES < keylen then None
      else if outlen = 0 then None
      else case blake2xs_init_key L outlen key keylen of
             None \<Rightarrow> None
           | Some S \<Rightarrow>
               (let S = blake2xs_update L S (case inp of None \<Rightarrow> [] | Some i \<Rightarrow> take inlen i)
                in map_option snd (blake2xs_final L S out_null outlen)))"

section \<open>The specification\<close>

text \<open>
  The hash of RFC 7693 with any parameter block, and BLAKE2X: the hash of the message is the root, each
  block of the output is a hash of the root that knows its number, and the last is as short as it has to be.
\<close>

definition rfcs_node :: "blake2s_param \<Rightarrow> nat \<Rightarrow> bytes \<Rightarrow> bytes" where
  "rfcs_node P nn d =
     take nn (concat (map (le_bytes 4) (rfcs_chain
       (map (\<lambda>i. blake2s_IV ! i XOR le_word (take 4 (drop (4 * i) (blake2s_param_bytes P)))) [0..<8]) 0 d)))"

definition node_param_s :: "nat \<Rightarrow> nat \<Rightarrow> nat \<Rightarrow> blake2s_param" where
  "node_param_s xof_length nn i = \<lparr>p2s_digest_length = of_nat nn, p2s_key_length = 0, p2s_fanout = 0,
     p2s_depth = 0, p2s_leaf_length = 32, p2s_node_offset = of_nat i,
     p2s_xof_length = of_nat xof_length, p2s_node_depth = 0, p2s_inner_length = 32,
     p2s_salt = replicate 8 0, p2s_personal = replicate 8 0\<rparr>"

definition xofs_root :: "nat \<Rightarrow> bytes \<Rightarrow> bytes \<Rightarrow> bytes" where
  "xofs_root xof_length key msg =
     rfcs_node (blake2xs_root_param xof_length (length key)) 32
       ((if key = [] then [] else key @ replicate (64 - length key) 0) @ msg)"

definition xofs :: "nat \<Rightarrow> nat \<Rightarrow> bytes \<Rightarrow> bytes \<Rightarrow> bytes" where
  "xofs xof_length outlen key msg =
     concat (map (\<lambda>i. let nn = min 32 (outlen - 32 * i)
       in rfcs_node (node_param_s xof_length nn i) nn (xofs_root xof_length key msg)) [0..<(outlen + 31) div 32])"

section \<open>The contract of the library\<close>

text \<open>
  What the file relies on: a state can be made from every parameter block, and hashing any pieces with
  it gives the hash with that block.
\<close>

locale hash_library_s =
  fixes L :: b2s_library
  assumes init_some: "\<exists>S. libs_init_param L P = Some S"
    and digest: "libs_init_param L P = Some S \<Longrightarrow> length (blake2s_param_bytes P) = 32 \<Longrightarrow> unat (p2s_digest_length P) = nn \<Longrightarrow>
      \<exists>S'. libs_final L (foldl (libs_update L) S ds) False nn = Some (S', rfcs_node P nn (concat ds))"
begin

text \<open>The loop over the blocks.\<close>

lemma blocks_spec:
  assumes "P\<lparr>p2s_digest_length := 0, p2s_node_offset := 0\<rparr> = node_param_s xl 0 0"
  shows "blake2xs_blocks L P root i n = Some (concat (map (\<lambda>j. let nn = min 32 (n - 32 * j)
      in rfcs_node (node_param_s xl nn (i + j)) nn root) [0..<(n + 31) div 32]))"
  using assms
proof (induction n arbitrary: i P rule: less_induct)
  case (less n)
  show ?case
  proof (cases "0 < n")
    case False
    then show ?thesis by (subst blake2xs_blocks.simps) simp
  next
    case True
    let ?nn = "min 32 n"
    let ?P = "P\<lparr>p2s_digest_length := of_nat ?nn, p2s_node_offset := of_nat i\<rparr>"
    have P: "?P = node_param_s xl ?nn i"
    proof -
      have "?P = (P\<lparr>p2s_digest_length := 0, p2s_node_offset := 0\<rparr>)
          \<lparr>p2s_digest_length := of_nat ?nn, p2s_node_offset := of_nat i\<rparr>" by simp
      then show ?thesis unfolding less.prems by (simp add: node_param_s_def)
    qed
    have bs: "(if n < BLAKE2S_OUTBYTES then n else BLAKE2S_OUTBYTES) = ?nn" by simp
    obtain C where C: "libs_init_param L ?P = Some C" using init_some by blast
    have "length (blake2s_param_bytes ?P) = 32" "unat (p2s_digest_length ?P) = ?nn"
      unfolding P by (simp_all add: blake2s_param_bytes_def node_param_s_def store32_def store16_def unat_of_nat)
    from digest [OF C this, of "[root]"] obtain C'
      where C': "libs_final L (libs_update L C root) False ?nn = Some (C', rfcs_node ?P ?nn root)" by auto
    have "?P\<lparr>p2s_digest_length := 0, p2s_node_offset := 0\<rparr> = node_param_s xl 0 0"
      using less.prems by simp
    moreover have "n - ?nn < n" using True by simp
    ultimately have rest: "blake2xs_blocks L ?P root (i + 1) (n - ?nn) = Some (concat (map (\<lambda>j. let nn = min 32 (n - ?nn - 32 * j)
        in rfcs_node (node_param_s xl nn (i + 1 + j)) nn root) [0..<(n - ?nn + 31) div 32]))"
      by (rule less.IH [rotated])
    have count: "(n + 31) div 32 = Suc ((n - ?nn + 31) div 32)"
      using True by (cases "n < 32") (auto simp: div_if)
    have tail: "n - ?nn - 32 * j = n - 32 * Suc j" for j by simp
    have "blake2xs_blocks L P root i n = map_option ((@) (rfcs_node ?P ?nn root)) (blake2xs_blocks L ?P root (i + 1) (n - ?nn))"
      using True C C' by (subst blake2xs_blocks.simps) (simp only: bs Let_def if_True option.case prod.case)
    also have "\<dots> = Some (rfcs_node (node_param_s xl ?nn i) ?nn root @ concat (map (\<lambda>j. let nn = min 32 (n - 32 * Suc j)
        in rfcs_node (node_param_s xl nn (i + Suc j)) nn root) [0..<(n - ?nn + 31) div 32]))"
      unfolding rest unfolding P tail by simp
    finally show ?thesis
      unfolding count by (simp only: upt_conv_Cons zero_less_Suc list.map concat.simps map_Suc_upt [symmetric] map_map comp_def mult_0_right diff_zero add_0_right Let_def)
  qed
qed

lemma foldl_update: "foldl (blake2xs_update L) S ds = S\<lparr>xs_S := foldl (libs_update L) (xs_S S) ds\<rparr>"
  by (induction ds arbitrary: S) (simp_all add: blake2xs_update_def)

lemma stream:
  assumes "blake2xs_init_key L X key (length k) = Some S" and "key = Some k \<or> key = None \<and> k = []"
  shows "map_option snd (blake2xs_final L (foldl (blake2xs_update L) S ds) False n) =
    (if (if X = 0xFFFF then n = 0 else n \<noteq> X) then None else Some (xofs X n k (concat ds)))"
proof -
  let ?P = "blake2xs_root_param X (length k)"
  from assms have X: "0 < X" "X \<le> 0xFFFF" "length k \<le> 32"
    by (auto simp: blake2xs_init_key_def split: if_splits)
  obtain S0 where S0: "libs_init_param L ?P = Some S0" using init_some by blast
  let ?pad = "if k = [] then [] else [k @ replicate (64 - length k) 0]"
  have S: "S = \<lparr>xs_S = foldl (libs_update L) S0 ?pad, xs_P = ?P\<rparr>"
    using assms S0 X by (auto simp: blake2xs_init_key_def Let_def memcpy_def split: if_splits)
  have "length (blake2s_param_bytes ?P) = 32" "unat (p2s_digest_length ?P) = 32"
    by (simp_all add: blake2s_param_bytes_def blake2xs_root_param_def store32_def store16_def)
  from digest [OF S0 this, of "?pad @ ds"] obtain S'
    where S': "libs_final L (foldl (libs_update L) (foldl (libs_update L) S0 ?pad) ds) False 32 =
      Some (S', rfcs_node ?P 32 (concat (?pad @ ds)))"
    unfolding foldl_append by blast
  have root: "rfcs_node ?P 32 (concat (?pad @ ds)) = xofs_root X k (concat ds)" by (simp add: xofs_root_def)
  let ?N = "?P\<lparr>p2s_key_length := 0, p2s_fanout := 0, p2s_depth := 0, p2s_leaf_length := of_nat BLAKE2S_OUTBYTES,
    p2s_inner_length := of_nat BLAKE2S_OUTBYTES, p2s_node_depth := 0\<rparr>"
  have "?N\<lparr>p2s_digest_length := 0, p2s_node_offset := 0\<rparr> = node_param_s X 0 0"
    by (simp add: blake2xs_root_param_def node_param_s_def)
  from blocks_spec [OF this, of "xofs_root X k (concat ds)" 0 n]
  have out: "blake2xs_blocks L ?N (xofs_root X k (concat ds)) 0 n = Some (xofs X n k (concat ds))"
    unfolding xofs_def add_0 .
  have xl: "(p2s_xof_length ?P = 0xFFFF) = (X = 0xFFFF)" "unat (p2s_xof_length ?P) = X"
  proof -
    show u: "unat (p2s_xof_length ?P) = X" using X by (simp add: blake2xs_root_param_def unat_of_nat)
    show "(p2s_xof_length ?P = 0xFFFF) = (X = 0xFFFF)" using u by (simp add: word_unat_eq_iff)
  qed
  have final: "libs_final L (xs_S (foldl (blake2xs_update L) S ds)) False BLAKE2S_OUTBYTES =
      Some (S', xofs_root X k (concat ds))" "xs_P (foldl (blake2xs_update L) S ds) = ?P"
    unfolding foldl_update S using S' unfolding root by simp_all
  show ?thesis
    unfolding blake2xs_final_def final Let_def option.case prod.case out xl by auto
qed

lemma one_call:
  assumes "0 < n" "n \<le> 0xFFFF" "length k \<le> 32"
    and "key = Some k \<or> key = None \<and> k = []" and "inp = Some d \<or> inp = None \<and> d = []"
  shows "blake2xs L False n inp (length d) key (length k) = Some (xofs n n k d)"
proof -
  obtain S where S: "blake2xs_init_key L n key (length k) = Some S"
    using assms init_some [of "blake2xs_root_param n (length k)"]
    by (auto simp: blake2xs_init_key_def Let_def)
  have d: "(case inp of None \<Rightarrow> [] | Some i \<Rightarrow> take (length d) i) = d" using assms(5) by auto
  from stream [OF S assms(4), of "[d]" n] assms(1)
  have "map_option snd (blake2xs_final L (blake2xs_update L S d) False n) = Some (xofs n n k d)" by simp
  with S d assms show ?thesis by (auto simp: blake2xs_def Let_def)
qed

end

section \<open>The two libraries\<close>

lemma param_state_s:
  assumes "blake2s_init_param P = Some S" "length (blake2s_param_bytes P) = 32"
  shows "blake2s_abs S = (S\<lparr>b2s_buf := [], b2s_buflen := 0\<rparr>, [])" "b2s_t S = [0, 0]" "b2s_f S = [0, 0]"
    "b2s_last_node S = 0" "b2s_outlen S = unat (p2s_digest_length P)"
    "b2s_h S = map (\<lambda>i. blake2s_IV ! i XOR le_word (take 4 (drop (4 * i) (blake2s_param_bytes P)))) [0..<8]"
proof -
  show "blake2s_abs S = (S\<lparr>b2s_buf := [], b2s_buflen := 0\<rparr>, [])" "b2s_t S = [0, 0]" "b2s_f S = [0, 0]"
    "b2s_last_node S = 0" "b2s_outlen S = unat (p2s_digest_length P)"
    using assms(1) by (auto simp: blake2s_init_param_def blake2s_init0_def blake2s_abs_def Let_def)
  have "b2s_h S = map (\<lambda>i. blake2s_IV ! i XOR load32 (drop (4 * i) (blake2s_param_bytes P))) [0..<8]"
    using assms(1) by (auto simp: blake2s_init_param_def blake2s_init0_def Let_def)
  also have "\<dots> = map (\<lambda>i. blake2s_IV ! i XOR le_word (take 4 (drop (4 * i) (blake2s_param_bytes P)))) [0..<8]"
    using assms(2) by (intro map_cong refl) (simp add: load32_le)
  finally show "b2s_h S = map (\<lambda>i. blake2s_IV ! i XOR le_word (take 4 (drop (4 * i) (blake2s_param_bytes P)))) [0..<8]" .
qed

lemma ref_digest_s:
  assumes "blake2s_init_param P = Some S" "length (blake2s_param_bytes P) = 32" "unat (p2s_digest_length P) = nn"
  shows "\<exists>S'. blake2s_final (foldl blake2s_update S ds) False nn = Some (S', rfcs_node P nn (concat ds))"
proof -
  note start = param_state_s [OF assms(1,2)]
  have ok: "blake2s_ok S" by (rule blake2s_init_param_ok [OF assms(1)])
  then have len: "length (b2s_h S) = 8" by (simp add: blake2s_ok_def)
  let ?T = "foldl blake2s_update S ds"
  obtain c' p' where cp: "blake2s_abs ?T = (c', p')" by (cases "blake2s_abs ?T")
  with b2s.foldl_update [OF ok, of ds] b2s.update_abs [OF ok, of "concat ds"] start(1)
  have "absorb_all BLAKE2S_BLOCKBYTES blake2s_absorb (S\<lparr>b2s_buf := [], b2s_buflen := 0\<rparr>) (concat ds) = (c', p')"
    by simp
  then have "blake2s_fin nn (c', p') = Some (take nn (concat (map (le_bytes 4) (rfcs_chain (b2s_h S) 0 (concat ds)))))"
    using blake2s_fin_chain [of "S\<lparr>b2s_buf := [], b2s_buflen := 0\<rparr>" "concat ds" c' p' 0 nn] start len assms(3) by simp
  then have "map_option snd (blake2s_final ?T False nn) = Some (rfcs_node P nn (concat ds))"
    using blake2s_final_fin [OF b2s.foldl_update_ok [OF ok], of ds nn] cp start(6) by (simp add: rfcs_node_def)
  then show ?thesis by auto
qed

interpretation ref_s: hash_library_s ref_b2s
proof unfold_locales
  show "\<exists>S. libs_init_param ref_b2s P = Some S" for P
    by (simp add: ref_b2s_def blake2s_init_param_def Let_def)
  show "libs_init_param ref_b2s P = Some S \<Longrightarrow> length (blake2s_param_bytes P) = 32 \<Longrightarrow> unat (p2s_digest_length P) = nn \<Longrightarrow>
      \<exists>S'. libs_final ref_b2s (foldl (libs_update ref_b2s) S ds) False nn = Some (S', rfcs_node P nn (concat ds))" for P S nn ds
    using ref_digest_s by (simp add: ref_b2s_def)
qed

lemma sse_foldl_s: "blake2s_ok S \<Longrightarrow> foldl sse_blake2s_update S ds = foldl blake2s_update S ds"
  by (induction ds arbitrary: S) (simp_all add: sse_update_eq_s b2s.update_ok)

interpretation sse_s: hash_library_s sse_b2s
proof unfold_locales
  show "\<exists>S. libs_init_param sse_b2s P = Some S" for P
    by (simp add: sse_b2s_def sse_blake2s_init_param_def Let_def)
next
  fix P S nn ds
  assume S: "libs_init_param sse_b2s P = Some S" and len: "length (blake2s_param_bytes P) = 32"
    and nn: "unat (p2s_digest_length P) = nn"
  then have ref: "blake2s_init_param P = Some S" by (simp add: sse_b2s_def sse_init_param_eq_s)
  have ok: "blake2s_ok S" by (rule blake2s_init_param_ok [OF ref])
  have same: "sse_blake2s_final (foldl blake2s_update S ds) False nn = blake2s_final (foldl blake2s_update S ds) False nn"
    using sse_final_eq_s [OF b2s.foldl_update_ok [OF ok] outlen_foldl_s [of S ds, unfolded param_state_s(5) [OF ref len] nn]] .
  from ref_digest_s [OF ref len nn, of ds] show
    "\<exists>S'. libs_final sse_b2s (foldl (libs_update sse_b2s) S ds) False nn = Some (S', rfcs_node P nn (concat ds))"
    by (simp add: sse_b2s_def sse_foldl_s [OF ok] same)
qed

section \<open>Every output\<close>

lemma length_rfcs_chain: "length (rfcs_chain h t d) = 8"
  by (induction h t d rule: rfcs_chain.induct) (subst rfcs_chain.simps, simp add: rfcs_F_def Let_def)

lemma length_rfcs_node: "nn \<le> 32 \<Longrightarrow> length (rfcs_node P nn d) = nn"
  by (simp add: rfcs_node_def length_concat comp_def sum_list_triv length_rfcs_chain)

text \<open>The lengths of the blocks of an output.\<close>

lemma block_lengths_s: "sum_list (map (\<lambda>i. min 32 (n - 32 * i)) [0..<(n + 31) div 32]) = (n :: nat)"
proof (induction n rule: less_induct)
  case (less n)
  show ?case
  proof (cases "n = 0")
    case False
    let ?nn = "min 32 n"
    have count: "(n + 31) div 32 = Suc ((n - ?nn + 31) div 32)"
      using False by (cases "n < 32") (auto simp: div_if)
    have "n - 32 * Suc j = n - ?nn - 32 * j" for j by simp
    then have "sum_list (map (\<lambda>i. min 32 (n - 32 * i)) [0..<(n + 31) div 32]) =
        ?nn + sum_list (map (\<lambda>i. min 32 (n - ?nn - 32 * i)) [0..<(n - ?nn + 31) div 32])"
      unfolding count
      by (simp only: upt_conv_Cons zero_less_Suc list.map sum_list.Cons map_Suc_upt [symmetric] map_map comp_def mult_0_right diff_zero)
    with less [of "n - ?nn"] False show ?thesis by simp
  qed simp
qed

lemma length_xofs: "length (xofs X n k d) = n"
  using block_lengths_s [of n] by (simp add: xofs_def length_concat comp_def Let_def length_rfcs_node)

text \<open>C36: 
  BLAKE2Xs with the reference library and with the SSE2 library: a message in any pieces, under a key or
  none, gives the output of the specification, of exactly the length asked for. A length other than
  that of the initialisation is refused, unless that was the largest: then any length but zero is
  given. One call is the same.
\<close>

theorem blake2xs_is_xof:
  assumes "L = ref_b2s \<or> L = sse_b2s" and "0 < X" and "X \<le> 0xFFFF" and "length k \<le> 32"
  shows "\<exists>S. blake2xs_init_key L X (Some k) (length k) = Some S \<and>
    map_option snd (blake2xs_final L (foldl (blake2xs_update L) S ds) False n) =
      (if (if X = 0xFFFF then n = 0 else n \<noteq> X) then None else Some (xofs X n k (concat ds))) \<and>
    length (xofs X n k (concat ds)) = n \<and>
    blake2xs L False X (Some d) (length d) (Some k) (length k) = Some (xofs X X k d)"
proof -
  have "\<exists>S. blake2xs_init_key L X (Some k) (length k) = Some S"
    using assms ref_s.init_some sse_s.init_some by (auto simp: blake2xs_init_key_def Let_def split: option.split)
  then obtain S where S: "blake2xs_init_key L X (Some k) (length k) = Some S" by blast
  from assms(1) have "map_option snd (blake2xs_final L (foldl (blake2xs_update L) S ds) False n) =
      (if (if X = 0xFFFF then n = 0 else n \<noteq> X) then None else Some (xofs X n k (concat ds)))"
    using S ref_s.stream [of X "Some k" k S ds n] sse_s.stream [of X "Some k" k S ds n] by auto
  moreover have "blake2xs L False X (Some d) (length d) (Some k) (length k) = Some (xofs X X k d)"
    using assms(1) ref_s.one_call [OF assms(2-4), of "Some k" "Some d" d] sse_s.one_call [OF assms(2-4), of "Some k" "Some d" d]
    by auto
  ultimately show ?thesis using S length_xofs by blast
qed

text \<open>100 bytes from a message of two pieces, as two blocks of output.\<close>

theorem blake2xs_is_xof_witness:
  "\<exists>S. blake2xs_init_key sse_b2s 100 (Some [1, 2]) 2 = Some S \<and>
     map_option snd (blake2xs_final sse_b2s (foldl (blake2xs_update sse_b2s) S [[3], [4, 5]]) False 100) =
       Some (xofs 100 100 [1, 2] [3, 4, 5]) \<and> length (xofs 100 100 [1, 2] [3, 4, 5]) = 100"
  using blake2xs_is_xof [of sse_b2s 100 "[1, 2]" "[[3], [4, 5]]" 100 "[]"]
  by (auto simp: numeral_2_eq_2)

end
