(* ===== verification/NanoObjects.thy ===== *)
theory NanoObjects
  imports NanoMessages
begin

text \<open>
  The objects the parser makes (\<open>nano.cpp\<close>): every constructor and destructor as what it does to the
  memory. An object has pointer members, the \<open>n_\<dots>\<close> flags, and a vector the pointers it holds; a member
  that no initialiser sets is indeterminate, and so is a flag. Values are those of the readers of
  \<open>NanoMessages\<close>. A constructor that throws gives back the memory of its own object, as a
  \<open>new\<close> expression does, and runs no destructor of it: what its members point to stays. A destructor has no
  result where the code would read an indeterminate member, follow a null pointer or delete what is not there.
  The allocator never gives an address again.
\<close>

section \<open>Memory\<close>

type_synonym addr = nat

datatype ptr = Nullptr | Pointer addr | Indeterminate

datatype obj_class =
    Class_message_header | Class_frontier_entry | Class_frontier_balance_entry | Class_bulk_pull_account_entry |
   Class_bulk_push_response | Class_node_id_query | Class_node_id_response | Class_extended_parameters
    | Class_peer | Class_hash_pair | Class_vote_common | Class_frontier_req | Class_bulk_pull_blocks
    | Class_bulk_pull_account | Class_telemetry_ack | Class_telemetry_req | Class_block_send
    | Class_block_receive | Class_block_open | Class_block_change | Class_block_state
    | Class_ignore_until_eof | Class_block_selector | Class_confirm_request_by_hash
    | Class_vote_by_hash | Class_keepalive | Class_confirm_req | Class_confirm_ack | Class_publish
    | Class_node_id_handshake | Class_bulk_pull | Class_bulk_push_entry | Class_bulk_pull_entry
    | Class_bulk_push | Class_bulk_pull_response | Class_nano | Class_vector

record cell =
  cell_class :: obj_class
  cell_ptrs :: "string \<Rightarrow> ptr"
  cell_nulls :: "string \<Rightarrow> bool option"
  cell_items :: "ptr list"

type_synonym cells = "addr \<Rightarrow> cell option"

record heap =
  live :: cells
  next_addr :: addr

definition new_cell :: "obj_class \<Rightarrow> (string \<Rightarrow> ptr) \<Rightarrow> cell" where
  "new_cell C ptrs = \<lparr>cell_class = C, cell_ptrs = ptrs, cell_nulls = (\<lambda>_. None), cell_items = []\<rparr>"

text \<open>The members the constructor sets to 0.\<close>

definition null_members :: "string list \<Rightarrow> string \<Rightarrow> ptr" where
  "null_members ns n = (if n \<in> set ns then Nullptr else Indeterminate)"

section \<open>Constructors\<close>

text \<open>Code of a constructor: it reads the stream, works on the memory, and returns or throws.\<close>

type_synonym 'a maker = "kstream \<Rightarrow> heap \<Rightarrow> (ks_exception + 'a \<times> kstream) \<times> heap"

definition mk_return :: "'a \<Rightarrow> 'a maker" where
  "mk_return x ks h = (Inr (x, ks), h)"

definition mk_bind :: "'a maker \<Rightarrow> ('a \<Rightarrow> 'b maker) \<Rightarrow> 'b maker" where
  "mk_bind m f ks h = (case m ks h of (Inl e, h') \<Rightarrow> (Inl e, h') | (Inr (x, ks'), h') \<Rightarrow> f x ks' h')"

definition mk_read :: "'a reader \<Rightarrow> 'a maker" where
  "mk_read r ks h = (r ks, h)"

definition on_cell :: "addr \<Rightarrow> (cell \<Rightarrow> cell) \<Rightarrow> heap \<Rightarrow> heap" where
  "on_cell a f h = h\<lparr>live := (live h)(a := map_option f (live h a))\<rparr>"

definition set_ptr :: "addr \<Rightarrow> string \<Rightarrow> ptr \<Rightarrow> unit maker" where
  "set_ptr self n p ks h = (Inr ((), ks), on_cell self (cell_ptrs_update (\<lambda>f. f(n := p))) h)"

definition set_null :: "addr \<Rightarrow> string \<Rightarrow> bool \<Rightarrow> unit maker" where
  "set_null self n b ks h = (Inr ((), ks), on_cell self (cell_nulls_update (\<lambda>f. f(n := Some b))) h)"

definition push_item :: "addr \<Rightarrow> ptr \<Rightarrow> heap \<Rightarrow> heap" where
  "push_item v p = on_cell v (cell_items_update (\<lambda>ps. ps @ [p]))"

definition allocate :: "cell \<Rightarrow> heap \<Rightarrow> heap" where
  "allocate c h = h\<lparr>live := (live h)(next_addr h \<mapsto> c), next_addr := next_addr h + 1\<rparr>"

text \<open>\<open>new C (\<dots>)\<close>, the rest of the constructor being a function of the address.\<close>

definition new_object :: "obj_class \<Rightarrow> (string \<Rightarrow> ptr) \<Rightarrow> (addr \<Rightarrow> 'a maker) \<Rightarrow> (ptr \<times> 'a) maker" where
  "new_object C ptrs body ks h =
     (let a = next_addr h
      in case body a ks (allocate (new_cell C ptrs) h) of
           (Inl e, h') \<Rightarrow> (Inl e, h'\<lparr>live := (live h')(a := None)\<rparr>)
         | (Inr (x, ks'), h') \<Rightarrow> (Inr ((Pointer a, x), ks'), h'))"

definition new_vector :: "addr maker" where
  "new_vector ks h = (Inr (next_addr h, ks), allocate (new_cell Class_vector (null_members [])) h)"

text \<open>\<open>m = new \<dots>\<close>; the member that is null unless a condition holds; and the member that is a vector.\<close>

definition assign_new :: "addr \<Rightarrow> string \<Rightarrow> (ptr \<times> 'a) maker \<Rightarrow> 'a maker" where
  "assign_new self n m = mk_bind m (\<lambda>(p, v). mk_bind (set_ptr self n p) (\<lambda>_. mk_return v))"

definition assign_new_if :: "addr \<Rightarrow> string \<Rightarrow> string \<Rightarrow> bool \<Rightarrow> (ptr \<times> 'a) maker \<Rightarrow> 'a option maker" where
  "assign_new_if self flag n c m =
     mk_bind (set_null self flag True) (\<lambda>_.
     if c then
       mk_bind (set_null self flag False) (\<lambda>_.
       mk_bind (assign_new self n m) (\<lambda>v.
       mk_return (Some v)))
     else mk_return None)"

definition assign_vector :: "addr \<Rightarrow> string \<Rightarrow> (addr \<Rightarrow> 'a maker) \<Rightarrow> 'a maker" where
  "assign_vector self n fill =
     mk_bind new_vector (\<lambda>v.
     mk_bind (set_ptr self n (Pointer v)) (\<lambda>_. fill v))"

definition assign_vector_unless_eof :: "addr \<Rightarrow> string \<Rightarrow> string \<Rightarrow> (addr \<Rightarrow> 'a maker) \<Rightarrow> 'a option maker" where
  "assign_vector_unless_eof self flag n fill =
     mk_bind (set_null self flag True) (\<lambda>_.
     mk_bind (mk_read (\<lambda>ks. Inr (is_eof ks, ks))) (\<lambda>eof.
     if \<not> eof then
       mk_bind (set_null self flag False) (\<lambda>_.
       mk_bind (assign_vector self n fill) (\<lambda>xs.
       mk_return (Some xs)))
     else mk_return None))"

section \<open>Classes without owned members\<close>

definition message_header_new :: "(ptr \<times> message_header_t) maker" where
  "message_header_new = new_object Class_message_header (null_members []) (\<lambda>self. mk_read message_header_read)"

definition node_id_query_new :: "(ptr \<times> node_id_query_t) maker" where
  "node_id_query_new = new_object Class_node_id_query (null_members []) (\<lambda>self. mk_read node_id_query_read)"

definition node_id_response_new :: "(ptr \<times> node_id_response_t) maker" where
  "node_id_response_new = new_object Class_node_id_response (null_members []) (\<lambda>self. mk_read node_id_response_read)"

definition extended_parameters_new :: "(ptr \<times> extended_parameters_t) maker" where
  "extended_parameters_new = new_object Class_extended_parameters (null_members []) (\<lambda>self. mk_read extended_read)"

definition peer_new :: "(ptr \<times> peer_t) maker" where
  "peer_new = new_object Class_peer (null_members []) (\<lambda>self. mk_read peer_read)"

definition hash_pair_new :: "(ptr \<times> hash_pair_t) maker" where
  "hash_pair_new = new_object Class_hash_pair (null_members []) (\<lambda>self. mk_read hash_pair_read)"

definition vote_common_new :: "(ptr \<times> vote_common_t) maker" where
  "vote_common_new = new_object Class_vote_common (null_members []) (\<lambda>self. mk_read vote_common_read)"

definition frontier_req_new :: "(ptr \<times> msg_frontier_req_t) maker" where
  "frontier_req_new = new_object Class_frontier_req (null_members []) (\<lambda>self. mk_read frontier_req_read)"

definition bulk_pull_blocks_new :: "(ptr \<times> msg_bulk_pull_blocks_t) maker" where
  "bulk_pull_blocks_new = new_object Class_bulk_pull_blocks (null_members []) (\<lambda>self. mk_read bulk_pull_blocks_read)"

definition bulk_pull_account_new :: "(ptr \<times> msg_bulk_pull_account_t) maker" where
  "bulk_pull_account_new = new_object Class_bulk_pull_account (null_members []) (\<lambda>self. mk_read bulk_pull_account_read)"

definition telemetry_ack_new :: "(ptr \<times> msg_telemetry_ack_t) maker" where
  "telemetry_ack_new = new_object Class_telemetry_ack (null_members []) (\<lambda>self. mk_read telemetry_ack_read)"

definition telemetry_req_new :: "(ptr \<times> unit) maker" where
  "telemetry_req_new = new_object Class_telemetry_req (null_members []) (\<lambda>self. mk_read telemetry_req_read)"

definition frontier_entry_new :: "(ptr \<times> frontier_entry_t) maker" where
  "frontier_entry_new = new_object Class_frontier_entry (null_members []) (\<lambda>self. mk_read frontier_entry_read)"

definition frontier_balance_entry_new :: "(ptr \<times> frontier_balance_entry_t) maker" where
  "frontier_balance_entry_new = new_object Class_frontier_balance_entry (null_members []) (\<lambda>self. mk_read frontier_balance_read)"

definition bulk_push_response_new :: "(ptr \<times> unit) maker" where
  "bulk_push_response_new = new_object Class_bulk_push_response (null_members []) (\<lambda>self. mk_read bulk_push_response_read)"

definition bulk_pull_account_entry_new :: "u8 \<Rightarrow> (ptr \<times> bulk_pull_account_entry_t) maker" where
  "bulk_pull_account_entry_new flags =
     new_object Class_bulk_pull_account_entry (null_members []) (\<lambda>self. mk_read (bulk_pull_account_entry_read flags))"

definition block_send_new :: "(ptr \<times> block_send_t) maker" where
  "block_send_new = new_object Class_block_send (null_members []) (\<lambda>self. mk_read block_send_read)"

definition block_receive_new :: "(ptr \<times> block_receive_t) maker" where
  "block_receive_new = new_object Class_block_receive (null_members []) (\<lambda>self. mk_read block_receive_read)"

definition block_open_new :: "(ptr \<times> block_open_t) maker" where
  "block_open_new = new_object Class_block_open (null_members []) (\<lambda>self. mk_read block_open_read)"

definition block_change_new :: "(ptr \<times> block_change_t) maker" where
  "block_change_new = new_object Class_block_change (null_members []) (\<lambda>self. mk_read block_change_read)"

definition block_state_new :: "(ptr \<times> block_state_t) maker" where
  "block_state_new = new_object Class_block_state (null_members []) (\<lambda>self. mk_read block_state_read)"


section \<open>Values\<close>

text \<open>What code of a constructor gives is what the reader of the class gives, whatever the memory.\<close>

lemma mk_bind_run:
  "m ks h = (Inl e, h') \<Longrightarrow> mk_bind m f ks h = (Inl e, h')"
  "m ks h = (Inr (x, ks'), h') \<Longrightarrow> mk_bind m f ks h = f x ks' h'"
  by (simp_all add: mk_bind_def)

lemma run_cases:
  obtains (throw) e h' where "m ks h = (Inl e, h')" | (ret) x ks' h' where "m ks h = (Inr (x, ks'), h')"
proof -
  obtain y h' where "m ks h = (y, h')" by (cases "m ks h")
  then show thesis by (cases y) (use throw ret in auto)
qed

definition vals :: "'a maker \<Rightarrow> 'a reader \<Rightarrow> bool" where
  "vals m r \<longleftrightarrow> (\<forall>ks h. fst (m ks h) = r ks)"

definition objs :: "(ptr \<times> 'a) maker \<Rightarrow> 'a reader \<Rightarrow> bool" where
  "objs m r \<longleftrightarrow> (\<forall>ks h. r ks = map_sum id (\<lambda>((p, v), ks'). (v, ks')) (fst (m ks h)))"

lemma objs_run:
  assumes "objs m r"
  shows "m ks h = (Inl e, h') \<Longrightarrow> r ks = Inl e" "m ks h = (Inr ((p, v), ks'), h') \<Longrightarrow> r ks = Inr (v, ks')"
  using assms [unfolded objs_def, rule_format, of ks h] by simp_all

lemma vals_run:
  assumes "vals m r"
  shows "m ks h = (y, h') \<Longrightarrow> r ks = y"
  using assms [unfolded vals_def, rule_format, of ks h] by simp

named_theorems made \<open>the values a maker gives\<close>

lemma vals_return [made]: "vals (mk_return x) (ks_return x)"
  by (simp add: vals_def mk_return_def ks_return_def)

lemma vals_read [made]: "vals (mk_read r) r"
  by (simp add: vals_def mk_read_def)

lemma vals_bind [made]:
  assumes "vals m r" and "\<And>x. vals (f x) (g x)"
  shows "vals (mk_bind m f) (ks_bind r g)"
  unfolding vals_def
proof (intro allI)
  fix ks h
  show "fst (mk_bind m f ks h) = ks_bind r g ks"
    by (cases m ks h rule: run_cases)
      (use assms(2) in \<open>simp_all add: mk_bind_def ks_bind_def vals_run [OF assms(1)] vals_def\<close>)
qed

lemma vals_effect [made]:
  assumes "vals m r"
  shows "vals (mk_bind (set_ptr self n p) (\<lambda>_. m)) r" "vals (mk_bind (set_null self n b) (\<lambda>_. m)) r"
  using assms by (simp_all add: vals_def mk_bind_def set_ptr_def set_null_def)

lemma vals_cond [made]: "vals m r \<Longrightarrow> vals m' r' \<Longrightarrow> vals (if c then m else m') (if c then r else r')"
  by simp

lemma objs_new_object [made]:
  assumes "\<And>self. vals (body self) r"
  shows "objs (new_object C ptrs body) r"
  unfolding objs_def
proof (intro allI)
  fix ks h
  show "r ks = map_sum id (\<lambda>((p, v), ks'). (v, ks')) (fst (new_object C ptrs body ks h))"
    by (cases "body (next_addr h)" ks "allocate (new_cell C ptrs) h" rule: run_cases)
      (simp_all add: new_object_def vals_run [OF assms])
qed

lemma vals_assign_new [made]:
  assumes "objs m r"
  shows "vals (assign_new self n m) r"
  unfolding vals_def
proof (intro allI)
  fix ks h
  show "fst (assign_new self n m ks h) = r ks"
    by (cases m ks h rule: run_cases)
      (auto simp: assign_new_def mk_bind_def set_ptr_def mk_return_def objs_run [OF assms])
qed

lemma vals_assign_new_if [made]: "objs m r \<Longrightarrow> vals (assign_new_if self flag n c m) (read_if c r)"
  unfolding assign_new_if_def read_if_def by (intro made)

lemma vals_assign_vector [made]:
  assumes "\<And>v. vals (fill v) r"
  shows "vals (assign_vector self n fill) r"
  using assms by (simp add: assign_vector_def vals_def mk_bind_def new_vector_def set_ptr_def)

lemma vals_eof:
  assumes "vals m r" and "vals m' r'"
  shows "vals (mk_bind (mk_read (\<lambda>ks. Inr (is_eof ks, ks))) (\<lambda>eof. if \<not> eof then m else m'))
    (\<lambda>ks. if \<not> is_eof ks then r ks else r' ks)"
  using assms by (simp add: vals_def mk_bind_def mk_read_def)

lemma vals_assign_vector_unless_eof [made]:
  assumes "\<And>v. vals (fill v) r"
  shows "vals (assign_vector_unless_eof self flag n fill)
    (\<lambda>ks. if \<not> is_eof ks then ks_bind r (\<lambda>xs. ks_return (Some xs)) ks else ks_return None ks)"
  unfolding assign_vector_unless_eof_def by (intro made vals_eof assms)

lemma members_objs [made]:
  "objs message_header_new message_header_read"
  "objs node_id_query_new node_id_query_read"
  "objs node_id_response_new node_id_response_read"
  "objs extended_parameters_new extended_read"
  "objs peer_new peer_read"
  "objs hash_pair_new hash_pair_read"
  "objs vote_common_new vote_common_read"
  "objs frontier_req_new frontier_req_read"
  "objs bulk_pull_blocks_new bulk_pull_blocks_read"
  "objs bulk_pull_account_new bulk_pull_account_read"
  "objs telemetry_ack_new telemetry_ack_read"
  "objs telemetry_req_new telemetry_req_read"
  "objs block_send_new block_send_read"
  "objs block_receive_new block_receive_read"
  "objs block_open_new block_open_read"
  "objs block_change_new block_change_read"
  "objs block_state_new block_state_read"
  unfolding message_header_new_def node_id_query_new_def node_id_response_new_def extended_parameters_new_def
    peer_new_def hash_pair_new_def vote_common_new_def frontier_req_new_def
    bulk_pull_blocks_new_def bulk_pull_account_new_def telemetry_ack_new_def telemetry_req_new_def
    block_send_new_def block_receive_new_def block_open_new_def block_change_new_def
    block_state_new_def
  by (intro made)+

section \<open>Vectors of objects\<close>

lemma parts_progress:
  "hash_pair_read ks = Inr (x, ks') \<Longrightarrow> ks_left ks' < ks_left ks"
  "peer_read ks = Inr (y, ks') \<Longrightarrow> ks_left ks' < ks_left ks"
  by (auto dest!: hash_pair.read_progress peer.read_progress simp: ks_left_skip)

lemma new_progress:
  assumes "objs m r" and "\<And>x ks'. r ks = Inr (x, ks') \<Longrightarrow> ks_left ks' < ks_left ks" and "(Inr ((p, x), ks'), h') = m ks h"
  shows "ks_left ks' < ks_left ks"
  using assms(2) [OF objs_run(2) [OF assms(1)]] assms(3) by metis

text \<open>
  The loops that make an object and append it, with \<open>i\<close> objects already in the vector \<open>v\<close>. What the
  loops over strings and bytes do to the memory is inside the vector.
\<close>

function hash_pairs_new_loop :: "addr \<Rightarrow> nat \<Rightarrow> nat \<Rightarrow> hash_pair_t list \<Rightarrow> hash_pair_t list maker" where
  "hash_pairs_new_loop v n i acc ks h =
     (case hash_pair_new ks h of
        (Inl e, h) \<Rightarrow> (Inl e, h)
      | (Inr ((p, x), ks), h) \<Rightarrow>
          let h = push_item v p h
          in if i + 1 = n \<or> is_eof ks then (Inr (acc @ [x], ks), h)
             else hash_pairs_new_loop v n (i + 1) (acc @ [x]) ks h)"
  by pat_completeness auto
termination
  by (relation "measure (\<lambda>(v, n, i, acc, ks, h). ks_left ks)")
    (auto intro: new_progress [OF members_objs(6) parts_progress(1)])

declare hash_pairs_new_loop.simps [simp del]

function peers_new_loop :: "addr \<Rightarrow> nat \<Rightarrow> nat \<Rightarrow> peer_t list \<Rightarrow> peer_t list maker" where
  "peers_new_loop v n i acc ks h =
     (case peer_new ks h of
        (Inl e, h) \<Rightarrow> (Inl e, h)
      | (Inr ((p, x), ks), h) \<Rightarrow>
          let h = push_item v p h
          in if i + 1 = n \<or> is_eof ks then (Inr (acc @ [x], ks), h)
             else peers_new_loop v n (i + 1) (acc @ [x]) ks h)"
  by pat_completeness auto
termination
  by (relation "measure (\<lambda>(v, n, i, acc, ks, h). ks_left ks)")
    (auto intro: new_progress [OF members_objs(5) parts_progress(2)])

declare peers_new_loop.simps [simp del]

section \<open>Classes with owned members\<close>

definition ignore_until_eof_new :: "(ptr \<times> ignore_until_eof_t) maker" where
  "ignore_until_eof_new = new_object Class_ignore_until_eof (null_members [''m_empty'']) (\<lambda>self.
     mk_bind (assign_vector_unless_eof self ''n_empty'' ''m_empty'' (\<lambda>v. mk_read (ignore_loop []))) (\<lambda>empty.
     mk_return \<lparr>ign_empty = empty\<rparr>))"

definition confirm_request_by_hash_new :: "message_header_t \<Rightarrow> (ptr \<times> confirm_request_by_hash_t) maker" where
  "confirm_request_by_hash_new h = new_object Class_confirm_request_by_hash (null_members [''m_pairs'']) (\<lambda>self.
     mk_bind (assign_vector_unless_eof self ''n_pairs'' ''m_pairs''
       (\<lambda>v. hash_pairs_new_loop v (unat (item_count_int h)) 0 [])) (\<lambda>pairs.
     mk_return \<lparr>by_hash_pairs = pairs\<rparr>))"

definition vote_by_hash_new :: "message_header_t \<Rightarrow> (ptr \<times> vote_by_hash_t) maker" where
  "vote_by_hash_new h = new_object Class_vote_by_hash (null_members [''m_hashes'']) (\<lambda>self.
     mk_bind (assign_vector_unless_eof self ''n_hashes'' ''m_hashes''
       (\<lambda>v. mk_read (hashes_loop (unat (item_count_int h)) 0 []))) (\<lambda>hashes.
     mk_return \<lparr>vote_hashes = hashes\<rparr>))"

definition keepalive_new :: "(ptr \<times> msg_keepalive_t) maker" where
  "keepalive_new = new_object Class_keepalive (null_members [''m_peers'']) (\<lambda>self.
     mk_bind (assign_vector_unless_eof self ''n_peers'' ''m_peers'' (\<lambda>v. peers_new_loop v 8 0 [])) (\<lambda>peers.
     mk_return \<lparr>keepalive_peers = peers\<rparr>))"

text \<open>An object whose class is not known where its pointer is kept.\<close>

definition new_as :: "('a \<Rightarrow> 'b) \<Rightarrow> (ptr \<times> 'a) maker \<Rightarrow> (ptr \<times> 'b) maker" where
  "new_as f m = mk_bind m (\<lambda>(p, x). mk_return (p, f x))"

definition block_new :: "u8 \<Rightarrow> (ptr \<times> nano_block) maker" where
  "block_new arg_block_type =
     (case enum_blocktype_of (ucast arg_block_type) of
        ENUM_BLOCKTYPE_RECEIVE \<Rightarrow> new_as BlockReceive block_receive_new
      | ENUM_BLOCKTYPE_CHANGE \<Rightarrow> new_as BlockChange block_change_new
      | ENUM_BLOCKTYPE_STATE \<Rightarrow> new_as BlockState block_state_new
      | ENUM_BLOCKTYPE_OPEN \<Rightarrow> new_as BlockOpen block_open_new
      | ENUM_BLOCKTYPE_SEND \<Rightarrow> new_as BlockSend block_send_new
      | _ \<Rightarrow> new_as BlockIgnored ignore_until_eof_new)"

definition block_selector_new :: "u8 \<Rightarrow> (ptr \<times> block_selector_t) maker" where
  "block_selector_new arg_block_type = new_object Class_block_selector (null_members []) (\<lambda>self.
     mk_bind (assign_new self ''m_block'' (block_new arg_block_type)) (\<lambda>block.
     mk_return \<lparr>sel_arg_block_type = arg_block_type, sel_block = block\<rparr>))"

definition confirm_req_new :: "message_header_t \<Rightarrow> (ptr \<times> msg_confirm_req_t) maker" where
  "confirm_req_new h = new_object Class_confirm_req (null_members [''m_reqbyhash'', ''m_block'']) (\<lambda>self.
     mk_bind (assign_new_if self ''n_reqbyhash'' ''m_reqbyhash'' (hdr_block_type h = ENUM_BLOCKTYPE_NOT_A_BLOCK)
                (confirm_request_by_hash_new h)) (\<lambda>reqbyhash.
     mk_bind (assign_new_if self ''n_block'' ''m_block'' (hdr_block_type h \<noteq> ENUM_BLOCKTYPE_NOT_A_BLOCK)
                (block_selector_new (ucast (block_type_int h)))) (\<lambda>block.
     mk_return \<lparr>confirm_req_reqbyhash = reqbyhash, confirm_req_block = block\<rparr>)))"

definition confirm_ack_new :: "message_header_t \<Rightarrow> (ptr \<times> msg_confirm_ack_t) maker" where
  "confirm_ack_new h = new_object Class_confirm_ack (null_members [''m_common'', ''m_votebyhash'', ''m_block'']) (\<lambda>self.
     mk_bind (assign_new self ''m_common'' vote_common_new) (\<lambda>common.
     mk_bind (assign_new_if self ''n_votebyhash'' ''m_votebyhash'' (hdr_block_type h = ENUM_BLOCKTYPE_NOT_A_BLOCK)
                (vote_by_hash_new h)) (\<lambda>votebyhash.
     mk_bind (assign_new_if self ''n_block'' ''m_block'' (hdr_block_type h \<noteq> ENUM_BLOCKTYPE_NOT_A_BLOCK)
                (block_selector_new (ucast (block_type_int h)))) (\<lambda>block.
     mk_return \<lparr>confirm_ack_common = common, confirm_ack_votebyhash = votebyhash, confirm_ack_block = block\<rparr>))))"

definition publish_new :: "message_header_t \<Rightarrow> (ptr \<times> msg_publish_t) maker" where
  "publish_new h = new_object Class_publish (null_members [''m_body'']) (\<lambda>self.
     mk_bind (assign_new self ''m_body'' (block_selector_new (ucast (block_type_int h)))) (\<lambda>body.
     mk_return \<lparr>publish_body = body\<rparr>))"

definition node_id_handshake_new :: "message_header_t \<Rightarrow> (ptr \<times> msg_node_id_handshake_t) maker" where
  "node_id_handshake_new h = new_object Class_node_id_handshake (null_members [''m_query'', ''m_response'']) (\<lambda>self.
     mk_bind (assign_new_if self ''n_query'' ''m_query'' (query_flag h \<noteq> 0) node_id_query_new) (\<lambda>query.
     mk_bind (assign_new_if self ''n_response'' ''m_response'' (response_flag h \<noteq> 0) node_id_response_new) (\<lambda>response.
     mk_return \<lparr>handshake_query = query, handshake_response = response\<rparr>)))"

definition bulk_pull_new :: "message_header_t \<Rightarrow> (ptr \<times> msg_bulk_pull_t) maker" where
  "bulk_pull_new h = new_object Class_bulk_pull (null_members [''m_extended'']) (\<lambda>self.
     mk_bind (mk_read (read_bytes 32)) (\<lambda>start.
     mk_bind (mk_read (read_bytes 32)) (\<lambda>end_hash.
     mk_bind (assign_new_if self ''n_extended'' ''m_extended'' (extended_params_present h \<noteq> 0) extended_parameters_new) (\<lambda>extended.
     mk_return \<lparr>bulk_pull_start = start, bulk_pull_end = end_hash, bulk_pull_extended = extended\<rparr>))))"

definition bulk_push_entry_new :: "(ptr \<times> bulk_entry_t) maker" where
  "bulk_push_entry_new = new_object Class_bulk_push_entry (null_members [''m_block'']) (\<lambda>self.
     mk_bind (mk_read read_u1) (\<lambda>block_type.
     mk_bind (assign_new self ''m_block'' (block_selector_new block_type)) (\<lambda>block.
     mk_return \<lparr>entry_block_type = block_type, entry_block = block\<rparr>)))"

definition bulk_pull_entry_new :: "(ptr \<times> bulk_entry_t) maker" where
  "bulk_pull_entry_new = new_object Class_bulk_pull_entry (null_members [''m_block'']) (\<lambda>self.
     mk_bind (mk_read read_u1) (\<lambda>block_type.
     mk_bind (assign_new self ''m_block'' (block_selector_new block_type)) (\<lambda>block.
     mk_return \<lparr>entry_block_type = block_type, entry_block = block\<rparr>)))"

lemma objs_new_as [made]: "objs m r \<Longrightarrow> objs (new_as f m) (ks_bind r (\<lambda>x. ks_return (f x)))"
  unfolding objs_def
proof (intro allI)
  fix ks h
  assume a: "\<forall>ks h. r ks = map_sum id (\<lambda>((p, v), ks'). (v, ks')) (fst (m ks h))"
  show "ks_bind r (\<lambda>x. ks_return (f x)) ks = map_sum id (\<lambda>((p, v), ks'). (v, ks')) (fst (new_as f m ks h))"
    by (cases m ks h rule: run_cases)
      (auto simp: new_as_def mk_bind_def mk_return_def ks_bind_def ks_return_def a [rule_format, of ks h])
qed

lemma vals_hash_pairs_new_loop [made]: "vals (hash_pairs_new_loop v n i acc) (hash_pairs_loop n i acc)"
  unfolding vals_def
proof (intro allI)
  fix ks h
  show "fst (hash_pairs_new_loop v n i acc ks h) = hash_pairs_loop n i acc ks"
  proof (induction v n i acc ks h rule: hash_pairs_new_loop.induct)
    case (1 v n i acc ks h)
    then show ?case
      by (cases hash_pair_new ks h rule: run_cases)
        (auto simp: hash_pairs_new_loop.simps [of v n i acc ks h] hash_pairs_loop.simps [of n i acc ks] Let_def
          objs_run [OF members_objs(6)])
  qed
qed

lemma vals_peers_new_loop [made]: "vals (peers_new_loop v n i acc) (peers_loop n i acc)"
  unfolding vals_def
proof (intro allI)
  fix ks h
  show "fst (peers_new_loop v n i acc ks h) = peers_loop n i acc ks"
  proof (induction v n i acc ks h rule: peers_new_loop.induct)
    case (1 v n i acc ks h)
    then show ?case
      by (cases peer_new ks h rule: run_cases)
        (auto simp: peers_new_loop.simps [of v n i acc ks h] peers_loop.simps [of n i acc ks] Let_def objs_run [OF members_objs(5)])
  qed
qed

lemma vector_reads:
  "ks_bind (\<lambda>ks. if \<not> is_eof ks then ks_bind r (\<lambda>xs. ks_return (Some xs)) ks else ks_return None ks) f =
     (\<lambda>ks. if \<not> is_eof ks then (case r ks of Inl e \<Rightarrow> Inl e | Inr (xs, ks') \<Rightarrow> f (Some xs) ks') else f None ks)"
  by (rule ext) (simp add: ks_bind_def ks_return_def split: sum.split)

lemma vectors_objs [made]:
  "objs ignore_until_eof_new ignore_until_eof_read"
  "objs (confirm_request_by_hash_new hdr) (confirm_request_by_hash_read hdr)"
  "objs (vote_by_hash_new hdr) (vote_by_hash_read hdr)"
  "objs keepalive_new keepalive_read"
proof -
  let ?r = "\<lambda>r ks. if \<not> is_eof ks then ks_bind r (\<lambda>xs. ks_return (Some xs)) ks else ks_return None ks"
  have "ignore_until_eof_read = ks_bind (?r (ignore_loop [])) (\<lambda>x. ks_return \<lparr>ign_empty = x\<rparr>)"
    unfolding vector_reads by (simp add: fun_eq_iff ignore_until_eof_read_def ks_return_def split: sum.split)
  then show "objs ignore_until_eof_new ignore_until_eof_read"
    unfolding ignore_until_eof_new_def by (rule ssubst [where P = "objs _"]) (intro made)
  have "confirm_request_by_hash_read hdr =
      ks_bind (?r (hash_pairs_loop (unat (item_count_int hdr)) 0 [])) (\<lambda>x. ks_return \<lparr>by_hash_pairs = x\<rparr>)"
    unfolding vector_reads by (simp add: fun_eq_iff confirm_request_by_hash_read_def ks_return_def split: sum.split)
  then show "objs (confirm_request_by_hash_new hdr) (confirm_request_by_hash_read hdr)"
    unfolding confirm_request_by_hash_new_def by (rule ssubst [where P = "objs _"]) (intro made)
  have "vote_by_hash_read hdr = ks_bind (?r (hashes_loop (unat (item_count_int hdr)) 0 [])) (\<lambda>x. ks_return \<lparr>vote_hashes = x\<rparr>)"
    unfolding vector_reads by (simp add: fun_eq_iff vote_by_hash_read_def ks_return_def split: sum.split)
  then show "objs (vote_by_hash_new hdr) (vote_by_hash_read hdr)"
    unfolding vote_by_hash_new_def by (rule ssubst [where P = "objs _"]) (intro made)
  have "keepalive_read = ks_bind (?r (peers_loop 8 0 [])) (\<lambda>x. ks_return \<lparr>keepalive_peers = x\<rparr>)"
    unfolding vector_reads by (simp add: fun_eq_iff keepalive_read_def ks_return_def split: sum.split)
  then show "objs keepalive_new keepalive_read"
    unfolding keepalive_new_def by (rule ssubst [where P = "objs _"]) (intro made)
qed

lemma block_new_objs [made]: "objs (block_new t)
   (case enum_blocktype_of (ucast t) of
      ENUM_BLOCKTYPE_RECEIVE \<Rightarrow> ks_bind block_receive_read (\<lambda>b. ks_return (BlockReceive b))
    | ENUM_BLOCKTYPE_CHANGE \<Rightarrow> ks_bind block_change_read (\<lambda>b. ks_return (BlockChange b))
    | ENUM_BLOCKTYPE_STATE \<Rightarrow> ks_bind block_state_read (\<lambda>b. ks_return (BlockState b))
    | ENUM_BLOCKTYPE_OPEN \<Rightarrow> ks_bind block_open_read (\<lambda>b. ks_return (BlockOpen b))
    | ENUM_BLOCKTYPE_SEND \<Rightarrow> ks_bind block_send_read (\<lambda>b. ks_return (BlockSend b))
    | _ \<Rightarrow> ks_bind ignore_until_eof_read (\<lambda>b. ks_return (BlockIgnored b)))"
  unfolding block_new_def by (cases "enum_blocktype_of (ucast t)") (simp_all, (intro made)+)

lemma block_selector_objs [made]: "objs (block_selector_new t) (block_selector_read t)"
  unfolding block_selector_new_def block_selector_read_def by (intro made)

lemma messages_objs [made]:
  "objs (confirm_req_new hdr) (confirm_req_read hdr)"
  "objs (confirm_ack_new hdr) (confirm_ack_read hdr)"
  "objs (publish_new hdr) (publish_read hdr)"
  "objs (node_id_handshake_new hdr) (node_id_handshake_read hdr)"
  "objs (bulk_pull_new hdr) (bulk_pull_read hdr)"
  "objs bulk_push_entry_new bulk_push_entry_read"
  "objs bulk_pull_entry_new bulk_pull_entry_read"
  unfolding confirm_req_new_def confirm_req_read_def confirm_ack_new_def confirm_ack_read_def publish_new_def publish_read_def
    node_id_handshake_new_def node_id_handshake_read_def bulk_pull_new_def bulk_pull_read_def
    bulk_push_entry_new_def bulk_push_entry_read_def bulk_pull_entry_new_def bulk_pull_entry_read_def
  by (intro made)+

text \<open>The loops whose condition looks at the entry behind the last.\<close>

function bulk_push_new_loop :: "addr \<Rightarrow> nat \<Rightarrow> bulk_entry_t list \<Rightarrow> bulk_entry_t list maker" where
  "bulk_push_new_loop v i acc ks h =
     (case bulk_push_entry_new ks h of
        (Inl e, h) \<Rightarrow> (Inl e, h)
      | (Inr ((p, x), ks), h) \<Rightarrow>
          let h = push_item v p h
          in if is_eof ks then (Inr (acc @ [x], ks), h)
             else (case vector_at (acc @ [x]) (i + 1) of
                     Inl e \<Rightarrow> (Inl e, h)
                   | Inr y \<Rightarrow>
                       if entry_block_type y = 1 then (Inr (acc @ [x], ks), h)
                       else bulk_push_new_loop v (i + 1) (acc @ [x]) ks h))"
  by pat_completeness auto
termination
  by (relation "measure (\<lambda>(v, i, acc, ks, h). ks_left ks)")
    (auto intro: new_progress [OF messages_objs(6) bulk_push_entry_progress])

declare bulk_push_new_loop.simps [simp del]

function bulk_pull_new_loop :: "addr \<Rightarrow> nat \<Rightarrow> bulk_entry_t list \<Rightarrow> bulk_entry_t list maker" where
  "bulk_pull_new_loop v i acc ks h =
     (case bulk_pull_entry_new ks h of
        (Inl e, h) \<Rightarrow> (Inl e, h)
      | (Inr ((p, x), ks), h) \<Rightarrow>
          let h = push_item v p h
          in if is_eof ks then (Inr (acc @ [x], ks), h)
             else (case vector_at (acc @ [x]) (i + 1) of
                     Inl e \<Rightarrow> (Inl e, h)
                   | Inr y \<Rightarrow>
                       if entry_block_type y = 1 then (Inr (acc @ [x], ks), h)
                       else bulk_pull_new_loop v (i + 1) (acc @ [x]) ks h))"
  by pat_completeness auto
termination
  by (relation "measure (\<lambda>(v, i, acc, ks, h). ks_left ks)")
    (auto intro: new_progress [OF messages_objs(7) bulk_pull_entry_progress])

declare bulk_pull_new_loop.simps [simp del]

lemma vals_bulk_push_new_loop [made]: "vals (bulk_push_new_loop v i acc) (bulk_push_loop i acc)"
  unfolding vals_def
proof (intro allI)
  fix ks h
  show "fst (bulk_push_new_loop v i acc ks h) = bulk_push_loop i acc ks"
  proof (induction v i acc ks h rule: bulk_push_new_loop.induct)
    case (1 v i acc ks h)
    then show ?case
      by (cases bulk_push_entry_new ks h rule: run_cases)
        (auto simp: bulk_push_new_loop.simps [of v i acc ks h] bulk_push_loop.simps [of i acc ks] Let_def objs_run [OF messages_objs(6)]
          split: sum.split)
  qed
qed

lemma vals_bulk_pull_new_loop [made]: "vals (bulk_pull_new_loop v i acc) (bulk_pull_loop i acc)"
  unfolding vals_def
proof (intro allI)
  fix ks h
  show "fst (bulk_pull_new_loop v i acc ks h) = bulk_pull_loop i acc ks"
  proof (induction v i acc ks h rule: bulk_pull_new_loop.induct)
    case (1 v i acc ks h)
    then show ?case
      by (cases bulk_pull_entry_new ks h rule: run_cases)
        (auto simp: bulk_pull_new_loop.simps [of v i acc ks h] bulk_pull_loop.simps [of i acc ks] Let_def objs_run [OF messages_objs(7)]
          split: sum.split)
  qed
qed

definition bulk_push_new :: "(ptr \<times> bulk_entry_t list) maker" where
  "bulk_push_new = new_object Class_bulk_push (null_members [''m_entry'']) (\<lambda>self.
     assign_vector self ''m_entry'' (\<lambda>v. bulk_push_new_loop v 0 []))"

definition bulk_pull_response_new :: "(ptr \<times> bulk_entry_t list) maker" where
  "bulk_pull_response_new = new_object Class_bulk_pull_response (null_members [''m_entry'']) (\<lambda>self.
     assign_vector self ''m_entry'' (\<lambda>v. bulk_pull_new_loop v 0 []))"

lemma streams_objs [made]:
  "objs bulk_push_new bulk_push_read" "objs bulk_pull_response_new bulk_pull_response_read"
  unfolding bulk_push_new_def bulk_push_read_def bulk_pull_response_new_def bulk_pull_response_read_def
  by (intro made)+

section \<open>The message\<close>

definition nano_body_new :: "message_header_t \<Rightarrow> (ptr \<times> nano_body) maker" where
  "nano_body_new h =
     (case hdr_message_type h of
        ENUM_MSGTYPE_CONFIRM_REQ \<Rightarrow> new_as BodyConfirmReq (confirm_req_new h)
      | ENUM_MSGTYPE_CONFIRM_ACK \<Rightarrow> new_as BodyConfirmAck (confirm_ack_new h)
      | ENUM_MSGTYPE_BULK_PULL \<Rightarrow> new_as BodyBulkPull (bulk_pull_new h)
      | ENUM_MSGTYPE_BULK_PULL_ACCOUNT \<Rightarrow> new_as BodyBulkPullAccount bulk_pull_account_new
      | ENUM_MSGTYPE_KEEPALIVE \<Rightarrow> new_as BodyKeepalive keepalive_new
      | ENUM_MSGTYPE_BULK_PUSH \<Rightarrow> new_as BodyBulkPush bulk_push_new
      | ENUM_MSGTYPE_TELEMETRY_ACK \<Rightarrow> new_as BodyTelemetryAck telemetry_ack_new
      | ENUM_MSGTYPE_NODE_ID_HANDSHAKE \<Rightarrow> new_as BodyNodeIdHandshake (node_id_handshake_new h)
      | ENUM_MSGTYPE_FRONTIER_REQ \<Rightarrow> new_as BodyFrontierReq frontier_req_new
      | ENUM_MSGTYPE_BULK_PULL_BLOCKS \<Rightarrow> new_as BodyBulkPullBlocks bulk_pull_blocks_new
      | ENUM_MSGTYPE_PUBLISH \<Rightarrow> new_as BodyPublish (publish_new h)
      | ENUM_MSGTYPE_TELEMETRY_REQ \<Rightarrow> new_as (\<lambda>m. BodyTelemetryReq) telemetry_req_new
      | _ \<Rightarrow> new_as BodyIgnored ignore_until_eof_new)"

definition nano_new :: "(ptr \<times> nano_t) maker" where
  "nano_new = new_object Class_nano (null_members [''m_header'']) (\<lambda>self.
     mk_bind (assign_new self ''m_header'' message_header_new) (\<lambda>h.
     mk_bind (assign_new self ''m_body'' (nano_body_new h)) (\<lambda>b.
     mk_return \<lparr>nano_header = h, nano_body = b\<rparr>)))"

lemma nano_body_objs [made]: "objs (nano_body_new h) (nano_body_read h)"
  unfolding nano_body_new_def nano_body_read_def by (cases "hdr_message_type h") (simp_all, (intro made)+)

lemma nano_objs [made]: "objs nano_new nano_read"
  unfolding nano_new_def nano_read_def by (intro made)

section \<open>Destructors\<close>

text \<open>What a destructor does to the cells that live; none where it is undefined.\<close>

type_synonym destroyer = "addr \<Rightarrow> cells \<Rightarrow> cells option"

text \<open>
  \<open>delete p\<close>: the destructor is that of the object's class, which has to be one the static type of the pointer
  admits; deleting a null pointer does nothing.
\<close>

definition delete_object :: "(obj_class \<Rightarrow> destroyer option) \<Rightarrow> ptr \<Rightarrow> cells \<Rightarrow> cells option" where
  "delete_object D p l =
     (case p of
        Nullptr \<Rightarrow> Some l
      | Indeterminate \<Rightarrow> None
      | Pointer a \<Rightarrow>
          (case l a of
             None \<Rightarrow> None
           | Some c \<Rightarrow>
               (case D (cell_class c) of
                  None \<Rightarrow> None
                | Some d \<Rightarrow> map_option (\<lambda>l. l(a := None)) (d a l))))"

definition only :: "obj_class \<Rightarrow> destroyer \<Rightarrow> obj_class \<Rightarrow> destroyer option" where
  "only C d C' = (if C' = C then Some d else None)"

definition member :: "addr \<Rightarrow> string \<Rightarrow> cells \<Rightarrow> ptr" where
  "member self n l = (case l self of None \<Rightarrow> Indeterminate | Some c \<Rightarrow> cell_ptrs c n)"

definition delete_member :: "(obj_class \<Rightarrow> destroyer option) \<Rightarrow> string \<Rightarrow> destroyer" where
  "delete_member D n self l = delete_object D (member self n l) l"

text \<open>\<open>if (!n_x) { ... }\<close>.\<close>

definition unless_null :: "string \<Rightarrow> destroyer \<Rightarrow> destroyer" where
  "unless_null flag d self l =
     (case l self of
        None \<Rightarrow> None
      | Some c \<Rightarrow>
          (case cell_nulls c flag of None \<Rightarrow> None | Some b \<Rightarrow> if b then Some l else d self l))"

definition then_destroy :: "destroyer \<Rightarrow> destroyer \<Rightarrow> destroyer" where
  "then_destroy d1 d2 self l = Option.bind (d1 self l) (d2 self)"

definition empty_destroy :: destroyer where
  "empty_destroy self l = Some l"

fun delete_each :: "(obj_class \<Rightarrow> destroyer option) \<Rightarrow> ptr list \<Rightarrow> cells \<Rightarrow> cells option" where
  "delete_each D [] l = Some l"
| "delete_each D (p # ps) l = Option.bind (delete_object D p l) (delete_each D ps)"

definition delete_vector :: "string \<Rightarrow> destroyer" where
  "delete_vector = delete_member (only Class_vector empty_destroy)"

definition delete_items :: "(obj_class \<Rightarrow> destroyer option) \<Rightarrow> string \<Rightarrow> destroyer" where
  "delete_items D n self l =
     (case member self n l of
        Pointer v \<Rightarrow> (case l v of None \<Rightarrow> None | Some c \<Rightarrow> delete_each D (cell_items c) l)
      | _ \<Rightarrow> None)"

definition ignore_until_eof_destroy :: destroyer where
  "ignore_until_eof_destroy = unless_null ''n_empty'' (delete_vector ''m_empty'')"

definition confirm_request_by_hash_destroy :: destroyer where
  "confirm_request_by_hash_destroy = unless_null ''n_pairs''
     (then_destroy (delete_items (only Class_hash_pair empty_destroy) ''m_pairs'') (delete_vector ''m_pairs''))"

definition vote_by_hash_destroy :: destroyer where
  "vote_by_hash_destroy = unless_null ''n_hashes'' (delete_vector ''m_hashes'')"

definition keepalive_destroy :: destroyer where
  "keepalive_destroy = unless_null ''n_peers''
     (then_destroy (delete_items (only Class_peer empty_destroy) ''m_peers'') (delete_vector ''m_peers''))"

text \<open>The destructor of \<open>m_block\<close>, a pointer to the base class, is the virtual one.\<close>

definition block_class :: "obj_class \<Rightarrow> destroyer option" where
  "block_class C =
     (if C \<in> {Class_block_receive, Class_block_change, Class_block_state, Class_block_open, Class_block_send}
      then Some empty_destroy
      else if C = Class_ignore_until_eof then Some ignore_until_eof_destroy else None)"

definition block_selector_destroy :: destroyer where
  "block_selector_destroy = delete_member block_class ''m_block''"

definition confirm_req_destroy :: destroyer where
  "confirm_req_destroy = then_destroy
     (unless_null ''n_reqbyhash'' (delete_member (only Class_confirm_request_by_hash confirm_request_by_hash_destroy) ''m_reqbyhash''))
     (unless_null ''n_block'' (delete_member (only Class_block_selector block_selector_destroy) ''m_block''))"

definition confirm_ack_destroy :: destroyer where
  "confirm_ack_destroy = then_destroy (then_destroy
     (delete_member (only Class_vote_common empty_destroy) ''m_common'')
     (unless_null ''n_votebyhash'' (delete_member (only Class_vote_by_hash vote_by_hash_destroy) ''m_votebyhash'')))
     (unless_null ''n_block'' (delete_member (only Class_block_selector block_selector_destroy) ''m_block''))"

definition publish_destroy :: destroyer where
  "publish_destroy = delete_member (only Class_block_selector block_selector_destroy) ''m_body''"

definition node_id_handshake_destroy :: destroyer where
  "node_id_handshake_destroy = then_destroy
     (unless_null ''n_query'' (delete_member (only Class_node_id_query empty_destroy) ''m_query''))
     (unless_null ''n_response'' (delete_member (only Class_node_id_response empty_destroy) ''m_response''))"

definition bulk_pull_destroy :: destroyer where
  "bulk_pull_destroy =
     unless_null ''n_extended'' (delete_member (only Class_extended_parameters empty_destroy) ''m_extended'')"

definition bulk_push_entry_destroy :: destroyer where
  "bulk_push_entry_destroy = delete_member (only Class_block_selector block_selector_destroy) ''m_block''"

definition bulk_pull_entry_destroy :: destroyer where
  "bulk_pull_entry_destroy = delete_member (only Class_block_selector block_selector_destroy) ''m_block''"

definition bulk_push_destroy :: destroyer where
  "bulk_push_destroy =
     then_destroy (delete_items (only Class_bulk_push_entry bulk_push_entry_destroy) ''m_entry'') (delete_vector ''m_entry'')"

definition bulk_pull_response_destroy :: destroyer where
  "bulk_pull_response_destroy =
     then_destroy (delete_items (only Class_bulk_pull_entry bulk_pull_entry_destroy) ''m_entry'') (delete_vector ''m_entry'')"

definition body_class :: "obj_class \<Rightarrow> destroyer option" where
  "body_class C =
     (case C of
        Class_confirm_req \<Rightarrow> Some confirm_req_destroy
      | Class_confirm_ack \<Rightarrow> Some confirm_ack_destroy
      | Class_bulk_pull \<Rightarrow> Some bulk_pull_destroy
      | Class_keepalive \<Rightarrow> Some keepalive_destroy
      | Class_bulk_push \<Rightarrow> Some bulk_push_destroy
      | Class_node_id_handshake \<Rightarrow> Some node_id_handshake_destroy
      | Class_publish \<Rightarrow> Some publish_destroy
      | Class_ignore_until_eof \<Rightarrow> Some ignore_until_eof_destroy
      | Class_bulk_pull_account \<Rightarrow> Some empty_destroy
      | Class_telemetry_ack \<Rightarrow> Some empty_destroy
      | Class_frontier_req \<Rightarrow> Some empty_destroy
      | Class_bulk_pull_blocks \<Rightarrow> Some empty_destroy
      | Class_telemetry_req \<Rightarrow> Some empty_destroy
      | _ \<Rightarrow> None)"

definition nano_destroy :: destroyer where
  "nano_destroy = then_destroy (delete_member (only Class_message_header empty_destroy) ''m_header'')
     (delete_member body_class ''m_body'')"

section \<open>The life of an object of the handler\<close>

text \<open>
  The objects \<open>packet_handler\<close> makes on its stack: one that throws is not destroyed, any other is at the end of its
  block, by whatever way the block is left.
\<close>

definition object_life :: "(ptr \<times> 'a) maker \<Rightarrow> (obj_class \<Rightarrow> destroyer option) \<Rightarrow> kstream \<Rightarrow> heap \<Rightarrow> heap option" where
  "object_life m D ks h =
     (case m ks h of
        (Inl e, h') \<Rightarrow> Some h'
      | (Inr ((p, x), ks'), h') \<Rightarrow> map_option (\<lambda>l. h'\<lparr>live := l\<rparr>) (delete_object D p (live h')))"

definition message_life :: "bytes \<Rightarrow> heap \<Rightarrow> heap option" where
  "message_life data = object_life nano_new (only Class_nano nano_destroy) (kstream_of data)"

definition push_entry_life :: "bytes \<Rightarrow> heap \<Rightarrow> heap option" where
  "push_entry_life data =
     object_life bulk_push_entry_new (only Class_bulk_push_entry bulk_push_entry_destroy) (kstream_of data)"

definition pull_entry_life :: "bytes \<Rightarrow> heap \<Rightarrow> heap option" where
  "pull_entry_life data =
     object_life bulk_pull_entry_new (only Class_bulk_pull_entry bulk_pull_entry_destroy) (kstream_of data)"

definition frontier_entry_life :: "bytes \<Rightarrow> heap \<Rightarrow> heap option" where
  "frontier_entry_life data = object_life frontier_entry_new (only Class_frontier_entry empty_destroy) (kstream_of data)"

definition balance_entry_life :: "bytes \<Rightarrow> heap \<Rightarrow> heap option" where
  "balance_entry_life data =
     object_life frontier_balance_entry_new (only Class_frontier_balance_entry empty_destroy) (kstream_of data)"

definition account_entry_life :: "u8 \<Rightarrow> kstream \<Rightarrow> heap \<Rightarrow> heap option" where
  "account_entry_life flags =
     object_life (bulk_pull_account_entry_new flags) (only Class_bulk_pull_account_entry empty_destroy)"

fun message_lives :: "bytes list \<Rightarrow> heap \<Rightarrow> heap option" where
  "message_lives [] h = Some h"
| "message_lives (data # rest) h = Option.bind (message_life data h) (message_lives rest)"

end
