(* ===== verification/NanoObjectLaws.thy ===== *)
theory NanoObjectLaws
  imports NanoObjects
begin

text \<open>
  Who owns the memory of a message. Every constructor that returns has put everything the object owns into the
  cells it took, and the destructor gives back exactly these, whatever the rest of the memory holds by then.
  A constructor that throws may leave cells behind: which messages do is characterised, and they add up.
\<close>

section \<open>Owned cells\<close>

definition clear :: "addr \<Rightarrow> addr \<Rightarrow> cells \<Rightarrow> cells" where
  "clear lo hi l = (\<lambda>b. if lo \<le> b \<and> b < hi then None else l b)"

definition agree :: "addr \<Rightarrow> addr \<Rightarrow> cells \<Rightarrow> cells \<Rightarrow> bool" where
  "agree lo hi g l \<longleftrightarrow> (\<forall>b. lo \<le> b \<longrightarrow> b < hi \<longrightarrow> g b = l b)"

text \<open>\<open>q\<close> gives back the cells of a part of the memory, as long as they are as they are in \<open>l\<close>.\<close>

definition wipes :: "(cells \<Rightarrow> cells option) \<Rightarrow> addr \<Rightarrow> addr \<Rightarrow> cells \<Rightarrow> bool" where
  "wipes q lo hi l \<longleftrightarrow> (\<forall>g. agree lo hi g l \<longrightarrow> q g = Some (clear lo hi g))"

abbreviation owned :: "(obj_class \<Rightarrow> destroyer option) \<Rightarrow> ptr \<Rightarrow> addr \<Rightarrow> addr \<Rightarrow> cells \<Rightarrow> bool" where
  "owned D p \<equiv> wipes (delete_object D p)"

definition heap_ok :: "heap \<Rightarrow> bool" where
  "heap_ok h \<longleftrightarrow> (\<forall>b \<ge> next_addr h. live h b = None)"

text \<open>The memory has grown, and the cells there were are as they were, but for those in \<open>X\<close>.\<close>

definition grows :: "addr set \<Rightarrow> heap \<Rightarrow> heap \<Rightarrow> bool" where
  "grows X h h' \<longleftrightarrow> heap_ok h' \<and> next_addr h \<le> next_addr h' \<and>
     (\<forall>b < next_addr h. b \<notin> X \<longrightarrow> live h' b = live h b)"

lemma grows_refl: "heap_ok h \<Longrightarrow> grows X h h"
  by (simp add: grows_def)

lemma grows_trans: "grows X h h' \<Longrightarrow> grows X h' h'' \<Longrightarrow> grows X h h''"
  by (auto simp: grows_def)

lemma grows_mono: "grows X h h' \<Longrightarrow> X \<subseteq> Y \<Longrightarrow> grows Y h h'"
  by (auto simp: grows_def)

lemma agree_mono: "agree lo hi g l \<Longrightarrow> lo \<le> lo' \<Longrightarrow> hi' \<le> hi \<Longrightarrow> agree lo' hi' g l"
  by (simp add: agree_def)

lemma clear_clear: "lo \<le> mid \<Longrightarrow> mid \<le> hi \<Longrightarrow> clear mid hi (clear lo mid g) = clear lo hi g"
  by (auto simp: clear_def fun_eq_iff)

lemma clear_empty [simp]: "clear n n g = g"
  by (auto simp: clear_def fun_eq_iff)

lemma clear_below: "b < lo \<Longrightarrow> clear lo hi g b = g b"
  by (simp add: clear_def)

lemma clear_cell: "lo < hi \<Longrightarrow> (clear (Suc lo) hi g)(lo := None) = clear lo hi g"
  by (auto simp: clear_def fun_eq_iff)

text \<open>A constructor: what it makes is owned; also when it throws, nothing there was is touched.\<close>

definition makes :: "(obj_class \<Rightarrow> destroyer option) \<Rightarrow> (ptr \<times> 'a) maker \<Rightarrow> bool" where
  "makes D m \<longleftrightarrow> (\<forall>ks h. heap_ok h \<longrightarrow>
     (case m ks h of
        (Inl e, h') \<Rightarrow> grows {} h h'
      | (Inr ((p, v), ks'), h') \<Rightarrow> grows {} h h' \<and> owned D p (next_addr h) (next_addr h') (live h')))"

lemma makes_run:
  assumes "makes D m" and "heap_ok h"
  shows "m ks h = (Inl e, h') \<Longrightarrow> grows {} h h'"
    and "m ks h = (Inr ((p, v), ks'), h') \<Longrightarrow> grows {} h h' \<and> owned D p (next_addr h) (next_addr h') (live h')"
  using assms [unfolded makes_def] by (metis (no_types, lifting) case_prod_conv sum.case)+

text \<open>
  Inside the constructor of the object at \<open>self\<close>: its cell, and what of its destructor's work \<open>d\<close>, which
  reads no member but those in \<open>N\<close>, is the clearing of the cells taken since.
\<close>

definition same_members :: "string set \<Rightarrow> cell \<Rightarrow> cell \<Rightarrow> bool" where
  "same_members N c c' \<longleftrightarrow> (\<forall>n \<in> N. cell_ptrs c' n = cell_ptrs c n \<and> cell_nulls c' n = cell_nulls c n)"

definition held :: "obj_class \<Rightarrow> addr \<Rightarrow> destroyer \<Rightarrow> string set \<Rightarrow> heap \<Rightarrow> bool" where
  "held C self d N h \<longleftrightarrow> self < next_addr h \<and> (\<exists>c. live h self = Some c \<and> cell_class c = C \<and>
     (\<forall>g c'. g self = Some c' \<and> same_members N c c' \<and> agree (Suc self) (next_addr h) g (live h) \<longrightarrow>
        d self g = Some (clear (Suc self) (next_addr h) g)))"

definition stage :: "obj_class \<Rightarrow> addr \<Rightarrow> destroyer \<Rightarrow> string set \<Rightarrow> 'a maker \<Rightarrow> destroyer \<Rightarrow> string set \<Rightarrow> bool" where
  "stage C self d N m d' N' \<longleftrightarrow> (\<forall>ks h. heap_ok h \<and> held C self d N h \<longrightarrow>
     (case m ks h of
        (Inl e, h') \<Rightarrow> grows {self} h h'
      | (Inr x, h') \<Rightarrow> grows {self} h h' \<and> held C self d' N' h'))"

lemma stage_run:
  assumes "stage C self d N m d' N'" and "heap_ok h" and "held C self d N h"
  shows "m ks h = (Inl e, h') \<Longrightarrow> grows {self} h h'"
    and "m ks h = (Inr x, h') \<Longrightarrow> grows {self} h h' \<and> held C self d' N' h'"
  using assms [unfolded stage_def] by (metis (no_types, lifting) case_prod_conv sum.case)+

lemma stageI:
  assumes "\<And>ks h e h'. heap_ok h \<Longrightarrow> held C self d N h \<Longrightarrow> m ks h = (Inl e, h') \<Longrightarrow> grows {self} h h'"
    and "\<And>ks h x ks' h'. heap_ok h \<Longrightarrow> held C self d N h \<Longrightarrow> m ks h = (Inr (x, ks'), h') \<Longrightarrow>
      grows {self} h h' \<and> held C self d' N' h'"
  shows "stage C self d N m d' N'"
  unfolding stage_def
proof (intro allI impI)
  fix ks h assume h: "heap_ok h \<and> held C self d N h"
  show "case m ks h of (Inl e, h') \<Rightarrow> grows {self} h h' | (Inr x, h') \<Rightarrow> grows {self} h h' \<and> held C self d' N' h'"
    by (cases m ks h rule: run_cases) (use assms h in auto)
qed

named_theorems staged \<open>what the parts of a constructor add to the destructor\<close>

lemma stage_return [staged]: "stage C self d N (mk_return x) d N"
  by (auto simp: stage_def mk_return_def grows_refl)

lemma stage_read [staged]: "stage C self d N (mk_read r) d N"
  by (auto simp: stage_def mk_read_def grows_refl split: sum.split)

lemma stage_bind [staged]:
  assumes "stage C self d N m d' N'" and "\<And>x. stage C self d' N' (f x) d'' N''"
  shows "stage C self d N (mk_bind m f) d'' N''"
proof (rule stageI)
  fix ks h e h' assume h: "heap_ok h" "held C self d N h" and run: "mk_bind m f ks h = (Inl e, h')"
  show "grows {self} h h'"
  proof (cases m ks h rule: run_cases)
    case (throw e' h1)
    with stage_run(1) [OF assms(1) h] run show ?thesis by (simp add: mk_bind_run)
  next
    case (ret x ks1 h1)
    with run have "f x ks1 h1 = (Inl e, h')" by (simp add: mk_bind_run)
    with stage_run(2) [OF assms(1) h ret] stage_run(1) [OF assms(2)] show ?thesis
      by (meson grows_def grows_trans)
  qed
next
  fix ks h x ks' h' assume h: "heap_ok h" "held C self d N h" and run: "mk_bind m f ks h = (Inr (x, ks'), h')"
  then obtain y ks1 h1 where m: "m ks h = (Inr (y, ks1), h1)" "f y ks1 h1 = (Inr (x, ks'), h')"
    by (cases m ks h rule: run_cases) (auto simp: mk_bind_run)
  from stage_run(2) [OF assms(1) h m(1)] stage_run(2) [OF assms(2) _ _ m(2)]
  show "grows {self} h h' \<and> held C self d'' N'' h'" by (meson grows_def grows_trans)
qed

lemma makes_new_object:
  assumes "\<And>self. stage C self empty_destroy {} (body self) d N" and "D C = Some d"
  shows "makes D (new_object C ptrs body)"
  unfolding makes_def
proof (intro allI impI)
  fix ks h assume ok: "heap_ok h"
  let ?a = "next_addr h" and ?h = "allocate (new_cell C ptrs) h"
  have h: "heap_ok ?h" "held C ?a empty_destroy {} ?h" "next_addr ?h = Suc ?a" "\<forall>b < ?a. live ?h b = live h b"
    using ok by (auto simp: heap_ok_def held_def allocate_def new_cell_def empty_destroy_def)
  show "case new_object C ptrs body ks h of
      (Inl e, h') \<Rightarrow> grows {} h h'
    | (Inr ((p, v), ks'), h') \<Rightarrow> grows {} h h' \<and> owned D p ?a (next_addr h') (live h')"
  proof (cases "body ?a" ks ?h rule: run_cases)
    case (throw e h')
    from stage_run(1) [OF assms(1) h(1,2) throw] h(3,4) have "grows {} h (h'\<lparr>live := (live h')(?a := None)\<rparr>)"
      by (auto simp: grows_def heap_ok_def)
    with throw show ?thesis by (simp add: new_object_def)
  next
    case (ret x ks' h')
    from stage_run(2) [OF assms(1) h(1,2) ret] have grown: "grows {?a} ?h h'" and held: "held C ?a d N h'" by simp_all
    from held obtain c where c: "?a < next_addr h'" "live h' ?a = Some c" "cell_class c = C"
      and d: "\<And>g c'. g ?a = Some c' \<Longrightarrow> same_members N c c' \<Longrightarrow> agree (Suc ?a) (next_addr h') g (live h') \<Longrightarrow>
        d ?a g = Some (clear (Suc ?a) (next_addr h') g)"
      unfolding held_def by blast
    have "delete_object D (Pointer ?a) g = Some (clear ?a (next_addr h') g)" if g: "agree ?a (next_addr h') g (live h')" for g
    proof -
      from g c have "g ?a = Some c" by (simp add: agree_def)
      with d [of g c] agree_mono [OF g, of "Suc ?a" "next_addr h'"] c assms(2) show ?thesis
        by (simp add: delete_object_def same_members_def clear_cell)
    qed
    then have "owned D (Pointer ?a) ?a (next_addr h') (live h')" by (simp add: wipes_def)
    moreover have "grows {} h h'" using grown h(3,4) by (auto simp: grows_def)
    ultimately show ?thesis using ret by (simp add: new_object_def)
  qed
qed

lemma on_cell_simps [simp]:
  "next_addr (on_cell a f h) = next_addr h" "b \<noteq> a \<Longrightarrow> live (on_cell a f h) b = live h b"
  "live (on_cell a f h) a = map_option f (live h a)"
  by (simp_all add: on_cell_def)

lemma heap_ok_on_cell [simp]: "heap_ok (on_cell a f h) \<longleftrightarrow> heap_ok h"
  by (auto simp: heap_ok_def on_cell_def)

lemma grows_on_cell: "heap_ok h \<Longrightarrow> grows {a} h (on_cell a f h)"
  by (auto simp: grows_def)

lemma held_below: "held C self d N h \<Longrightarrow> self < next_addr h"
  by (simp add: held_def)

lemma agree_cong: "agree lo hi g l \<Longrightarrow> (\<And>b. lo \<le> b \<Longrightarrow> b < hi \<Longrightarrow> l b = l' b) \<Longrightarrow> agree lo hi g l'"
  by (simp add: agree_def)

lemma heldE:
  assumes "held C self d N h"
  obtains c where "self < next_addr h" "live h self = Some c" "cell_class c = C"
    "\<And>g c'. g self = Some c' \<Longrightarrow> same_members N c c' \<Longrightarrow> agree (Suc self) (next_addr h) g (live h) \<Longrightarrow>
      d self g = Some (clear (Suc self) (next_addr h) g)"
  using assms unfolding held_def by blast

lemma held_cell: "held C self d N h \<Longrightarrow> live h self \<noteq> None"
  by (auto elim: heldE)

lemma heldI:
  assumes "self < next_addr h" "live h self = Some c" "cell_class c = C"
    and "\<And>g c'. g self = Some c' \<Longrightarrow> same_members N c c' \<Longrightarrow> agree (Suc self) (next_addr h) g (live h) \<Longrightarrow>
      d self g = Some (clear (Suc self) (next_addr h) g)"
  shows "held C self d N h"
  using assms unfolding held_def by blast

text \<open>
  The next part of the object: the step \<open>e\<close> of the destructor gives back its cells, by what the object's
  own cell then has in its members.
\<close>

lemma held_part:
  assumes "held C self d N h" and "grows {self} h h'" and "live h' self = map_option u (live h self)"
    and u: "\<And>c. same_members N c (u c)" "\<And>c. cell_class (u c) = cell_class c"
    and e: "\<And>c g c'. live h self = Some c \<Longrightarrow> g self = Some c' \<Longrightarrow> same_members N' (u c) c' \<Longrightarrow>
      agree (next_addr h) (next_addr h') g (live h') \<Longrightarrow> e self g = Some (clear (next_addr h) (next_addr h') g)"
    and "N \<subseteq> N'"
  shows "held C self (then_destroy d e) N' h'"
proof -
  let ?n = "next_addr h" and ?m = "next_addr h'"
  from assms(1) obtain c where c: "self < ?n" "live h self = Some c" "cell_class c = C"
    and d: "\<And>g c'. g self = Some c' \<Longrightarrow> same_members N c c' \<Longrightarrow> agree (Suc self) ?n g (live h) \<Longrightarrow>
      d self g = Some (clear (Suc self) ?n g)"
    by (blast elim: heldE)
  have le: "?n \<le> ?m" using assms(2) by (simp add: grows_def)
  show ?thesis
  proof (rule heldI [of _ _ "u c"])
    show "self < ?m" "live h' self = Some (u c)" "cell_class (u c) = C" using c le assms(3) u(2) by simp_all
    fix g c' assume g: "g self = Some c'" "same_members N' (u c) c'" "agree (Suc self) ?m g (live h')"
    have "agree (Suc self) ?n g (live h)"
      using agree_mono [OF g(3) _ le] by (rule agree_cong) (use assms(2) in \<open>auto simp: grows_def\<close>)
    moreover have "same_members N c c'"
      using g(2) u(1) [of c] assms(7) by (auto simp: same_members_def)
    ultimately have "d self g = Some (clear (Suc self) ?n g)" using d [of g c', OF g(1)] by simp
    moreover have "agree ?n ?m (clear (Suc self) ?n g) (live h')"
      using g(3) c(1) by (auto simp: agree_def clear_def)
    then have "e self (clear (Suc self) ?n g) = Some (clear ?n ?m (clear (Suc self) ?n g))"
      using e [OF c(2) _ g(2)] g(1) by (simp add: clear_below)
    ultimately show "then_destroy d e self g = Some (clear (Suc self) ?m g)"
      using c(1) le by (simp add: then_destroy_def clear_clear)
  qed
qed

text \<open>A flag is set that the destructor has not looked at so far.\<close>

lemma held_flag:
  assumes "held C self d N h" and "flag \<notin> N"
  shows "held C self d N (on_cell self (cell_nulls_update (\<lambda>f. f(flag := b))) h)"
proof -
  let ?u = "cell_nulls_update (\<lambda>f. f(flag := b))"
  from assms(1) obtain c where c: "self < next_addr h" "live h self = Some c" "cell_class c = C"
    and d: "\<And>g c'. g self = Some c' \<Longrightarrow> same_members N c c' \<Longrightarrow> agree (Suc self) (next_addr h) g (live h) \<Longrightarrow>
      d self g = Some (clear (Suc self) (next_addr h) g)"
    by (blast elim: heldE)
  show ?thesis
  proof (rule heldI [of _ _ "?u c"])
    show "self < next_addr (on_cell self ?u h)" "live (on_cell self ?u h) self = Some (?u c)" "cell_class (?u c) = C"
      using c by simp_all
    fix g c' assume g: "g self = Some c'" "same_members N (?u c) c'" "agree (Suc self) (next_addr (on_cell self ?u h)) g (live (on_cell self ?u h))"
    have "same_members N c c'" using g(2) assms(2) by (auto simp: same_members_def)
    moreover have "agree (Suc self) (next_addr h) g (live h)" using g(3) by (auto simp: agree_def)
    ultimately show "d self g = Some (clear (Suc self) (next_addr (on_cell self ?u h)) g)"
      using d [of g c', OF g(1)] by simp
  qed
qed

text \<open>A member is made and its pointer set: the destructor deletes it last.\<close>

lemma assign_new_run:
  "assign_new self n m ks h = (Inl e, h') \<longleftrightarrow> m ks h = (Inl e, h')"
  "assign_new self n m ks h = (Inr (x, ks'), h') \<longleftrightarrow>
     (\<exists>p h1. m ks h = (Inr ((p, x), ks'), h1) \<and> h' = on_cell self (cell_ptrs_update (\<lambda>f. f(n := p))) h1)"
  by (cases m ks h rule: run_cases; auto simp: assign_new_def mk_bind_def set_ptr_def mk_return_def)+

lemma grows_assigned:
  assumes "grows {} h h1"
  shows "grows {self} h (on_cell self f h1)"
  using assms by (auto simp: grows_def)

lemma stage_assign_new [staged]:
  assumes "makes D m" and "n \<notin> N"
  shows "stage C self d N (assign_new self n m) (then_destroy d (delete_member D n)) (insert n N)"
proof (rule stageI)
  fix ks h e h' assume h: "heap_ok h" "held C self d N h" and run: "assign_new self n m ks h = (Inl e, h')"
  from makes_run(1) [OF assms(1) h(1)] run show "grows {self} h h'"
    by (auto simp: assign_new_run intro: grows_mono)
next
  fix ks h x ks' h' assume h: "heap_ok h" "held C self d N h" and run: "assign_new self n m ks h = (Inr (x, ks'), h')"
  then obtain p h1 where m: "m ks h = (Inr ((p, x), ks'), h1)"
    and h': "h' = on_cell self (cell_ptrs_update (\<lambda>f. f(n := p))) h1"
    by (auto simp: assign_new_run)
  from makes_run(2) [OF assms(1) h(1) m] have made: "grows {} h h1" "owned D p (next_addr h) (next_addr h1) (live h1)"
    by simp_all
  have "owned D p (next_addr h) (next_addr h') (live h')"
    using made(2) held_below [OF h(2)] by (auto simp: wipes_def h' agree_def)
  moreover have "live h' self = map_option (cell_ptrs_update (\<lambda>f. f(n := p))) (live h self)"
    using made(1) held_below [OF h(2)] by (simp add: h' grows_def)
  ultimately have "held C self (then_destroy d (delete_member D n)) (insert n N) h'"
    using assms(2)
    by (intro held_part [OF h(2) grows_assigned [OF made(1), of self "cell_ptrs_update (\<lambda>f. f(n := p))", folded h'],
          where u = "cell_ptrs_update (\<lambda>f. f(n := p))"])
      (auto simp: same_members_def delete_member_def member_def wipes_def)
  with grows_assigned [OF made(1)] show "grows {self} h h' \<and> held C self (then_destroy d (delete_member D n)) (insert n N) h'"
    by (simp add: h')
qed

text \<open>A member that is null unless a condition holds.\<close>

lemma stage_assign_new_if [staged]:
  assumes "makes D m" and "n \<notin> N" and "flag \<notin> N"
  shows "stage C self d N (assign_new_if self flag n c m)
    (then_destroy d (unless_null flag (delete_member D n))) (insert flag (insert n N))"
proof -
  let ?F = "\<lambda>b. on_cell self (cell_nulls_update (\<lambda>f. f(flag := Some b)))"
  let ?d = "then_destroy d (unless_null flag (delete_member D n))" and ?N = "insert flag (insert n N)"
  show ?thesis
  proof (cases c)
    case False
    then have run: "assign_new_if self flag n c m ks h = (Inr (None, ks), ?F True h)" for ks h
      by (simp add: assign_new_if_def mk_bind_def set_null_def mk_return_def)
    have "held C self ?d ?N (?F True h)" if "held C self d N h" "heap_ok h" for h
      using that assms(3)
      by (intro held_part [where u = "cell_nulls_update (\<lambda>f. f(flag := Some True))", OF that(1) grows_on_cell])
        (auto simp: same_members_def unless_null_def)
    with run show ?thesis by (auto simp: stage_def grows_on_cell)
  next
    case True
    have run: "assign_new_if self flag n c m ks h =
        mk_bind (assign_new self n m) (\<lambda>v. mk_return (Some v)) ks (?F False (?F True h))" for ks h
      using True by (simp add: assign_new_if_def mk_bind_def set_null_def)
    show ?thesis
    proof (rule stageI)
      fix ks h e h' assume h: "heap_ok h" "held C self d N h" and "assign_new_if self flag n c m ks h = (Inl e, h')"
      then have m: "m ks (?F False (?F True h)) = (Inl e, h')"
        by (cases "assign_new self n m" ks "?F False (?F True h)" rule: run_cases)
          (auto simp: run mk_bind_run mk_return_def assign_new_run)
      have "grows {self} h (?F False (?F True h))"
        using h(1) by (intro grows_trans [OF grows_on_cell grows_on_cell]) simp_all
      moreover have "grows {self} (?F False (?F True h)) h'"
        by (rule grows_mono [OF makes_run(1) [OF assms(1) _ m]]) (simp_all add: h(1))
      ultimately show "grows {self} h h'" by (rule grows_trans)
    next
      fix ks h x ks' h' assume h: "heap_ok h" "held C self d N h"
        and "assign_new_if self flag n c m ks h = (Inr (x, ks'), h')"
      then obtain p v h1 where m: "m ks (?F False (?F True h)) = (Inr ((p, v), ks'), h1)"
        and h': "h' = on_cell self (cell_ptrs_update (\<lambda>f. f(n := p))) h1"
        by (cases "assign_new self n m" ks "?F False (?F True h)" rule: run_cases)
          (auto simp: run mk_bind_run mk_return_def assign_new_run)
      let ?h = "?F False (?F True h)"
      have ok: "heap_ok ?h" "held C self d N ?h" using h assms(3) by (simp_all add: held_flag)
      from makes_run(2) [OF assms(1) ok(1) m] have made: "grows {} ?h h1" "owned D p (next_addr ?h) (next_addr h1) (live h1)"
        by simp_all
      have grown: "grows {self} ?h h'" using grows_assigned [OF made(1)] by (simp add: h')
      have "owned D p (next_addr ?h) (next_addr h') (live h')"
        using made(2) held_below [OF h(2)] by (auto simp: wipes_def h' agree_def)
      moreover have "live h' self = map_option (cell_ptrs_update (\<lambda>f. f(n := p))) (live ?h self)"
        using made(1) held_below [OF h(2)] by (simp add: h' grows_def)
      ultimately have "held C self ?d ?N h'"
        using assms(2)
        by (intro held_part [where u = "cell_ptrs_update (\<lambda>f. f(n := p))", OF ok(2) grown])
          (auto simp: same_members_def unless_null_def delete_member_def member_def wipes_def)
      moreover have "grows {self} h ?h"
        using h(1) by (intro grows_trans [OF grows_on_cell grows_on_cell]) simp_all
      ultimately show "grows {self} h h' \<and> held C self ?d ?N h'" using grown grows_trans by blast
    qed
  qed
qed

section \<open>Vectors\<close>

text \<open>
  The vector at \<open>v\<close>, last in the memory but for what its items own; \<open>Q\<close> gives back what the items own. A loop
  keeps it so.
\<close>

definition vec_at :: "(ptr list \<Rightarrow> cells \<Rightarrow> cells option) \<Rightarrow> addr \<Rightarrow> heap \<Rightarrow> bool" where
  "vec_at Q v h \<longleftrightarrow> v < next_addr h \<and> (\<exists>c. live h v = Some c \<and> cell_class c = Class_vector \<and>
     wipes (Q (cell_items c)) (Suc v) (next_addr h) (live h))"

definition fills :: "(ptr list \<Rightarrow> cells \<Rightarrow> cells option) \<Rightarrow> addr \<Rightarrow> 'a maker \<Rightarrow> bool" where
  "fills Q v m \<longleftrightarrow> (\<forall>ks h. heap_ok h \<longrightarrow> vec_at Q v h \<longrightarrow>
     (case m ks h of
        (Inl e, h') \<Rightarrow> grows {v} h h'
      | (Inr x, h') \<Rightarrow> grows {v} h h' \<and> vec_at Q v h'))"

lemma fills_run:
  assumes "fills Q v m" and "heap_ok h" and "vec_at Q v h"
  shows "m ks h = (Inl e, h') \<Longrightarrow> grows {v} h h'"
    and "m ks h = (Inr x, h') \<Longrightarrow> grows {v} h h' \<and> vec_at Q v h'"
  using assms [unfolded fills_def] by (metis (no_types, lifting) case_prod_conv sum.case)+

lemma fills_read: "fills Q v (mk_read r)"
  by (auto simp: fills_def mk_read_def grows_refl split: sum.split)

text \<open>An object is made and appended.\<close>

lemma delete_each_append: "delete_each D (ps @ qs) l = Option.bind (delete_each D ps l) (delete_each D qs)"
  by (induction ps arbitrary: l) (auto split: Option.bind_splits)

lemma push_step:
  assumes "makes D m" and "heap_ok h" and "vec_at (delete_each D) v h" and "m ks h = (Inr ((p, x), ks'), h1)"
  shows "heap_ok (push_item v p h1) \<and> grows {v} h (push_item v p h1) \<and> vec_at (delete_each D) v (push_item v p h1)"
proof -
  let ?h = "push_item v p h1"
  from makes_run(2) [OF assms(1,2,4)] have made: "grows {} h h1" "owned D p (next_addr h) (next_addr h1) (live h1)"
    by simp_all
  from assms(3) obtain c where c: "v < next_addr h" "live h v = Some c" "cell_class c = Class_vector"
    and w: "wipes (delete_each D (cell_items c)) (Suc v) (next_addr h) (live h)"
    unfolding vec_at_def by blast
  have le: "next_addr h \<le> next_addr h1" and same: "\<And>b. b < next_addr h \<Longrightarrow> live h1 b = live h b"
    using made(1) by (simp_all add: grows_def)
  have "delete_each D (cell_items c @ [p]) g = Some (clear (Suc v) (next_addr h1) g)"
    if g: "agree (Suc v) (next_addr h1) g (live ?h)" for g
  proof -
    have "agree (Suc v) (next_addr h) g (live h)"
      using agree_mono [OF g _ le] by (rule agree_cong) (auto simp: push_item_def same)
    then have "delete_each D (cell_items c) g = Some (clear (Suc v) (next_addr h) g)"
      using w by (simp add: wipes_def)
    moreover have "agree (next_addr h) (next_addr h1) (clear (Suc v) (next_addr h) g) (live h1)"
      using g c(1) by (auto simp: agree_def clear_def push_item_def)
    ultimately show ?thesis
      using made(2) c(1) le by (simp add: delete_each_append wipes_def clear_clear)
  qed
  then have "vec_at (delete_each D) v ?h"
    using c same le by (auto simp: vec_at_def wipes_def push_item_def)
  moreover have "grows {v} h ?h" using made(1) by (auto simp: push_item_def grows_def)
  ultimately show ?thesis by (simp add: grows_def)
qed

text \<open>The step of the destructor for a vector in the member \<open>n\<close>.\<close>

definition vector_part :: "(ptr list \<Rightarrow> cells \<Rightarrow> cells option) \<Rightarrow> string \<Rightarrow> destroyer \<Rightarrow> bool" where
  "vector_part Q n E \<longleftrightarrow> (\<forall>self v hi g c c'. g self = Some c' \<longrightarrow> cell_ptrs c' n = Pointer v \<longrightarrow> self < v \<longrightarrow> v < hi \<longrightarrow>
     g v = Some c \<longrightarrow> cell_class c = Class_vector \<longrightarrow> Q (cell_items c) g = Some (clear (Suc v) hi g) \<longrightarrow>
     E self g = Some (clear v hi g))"

lemma vector_parts:
  "vector_part (delete_each D) n (then_destroy (delete_items D n) (delete_vector n))"
  "vector_part (\<lambda>_. Some) n (delete_vector n)"
  by (auto simp: vector_part_def then_destroy_def delete_items_def delete_vector_def delete_member_def delete_object_def member_def
      only_def empty_destroy_def clear_cell clear_below) (metis clear_cell)

lemma vector_made:
  assumes "\<And>v. fills Q v (fill v)" and "heap_ok h" and "self < next_addr h" and "live h self \<noteq> None"
    and Q: "\<And>l lo. wipes (Q []) lo lo l"
  shows "assign_vector self n fill ks h = (Inl e, h') \<Longrightarrow> grows {self} h h'"
    and "assign_vector self n fill ks h = (Inr (x, ks'), h') \<Longrightarrow> grows {self} h h' \<and>
      live h' self = map_option (cell_ptrs_update (\<lambda>f. f(n := Pointer (next_addr h)))) (live h self) \<and>
      vec_at Q (next_addr h) h'"
proof -
  let ?v = "next_addr h"
  let ?u = "cell_ptrs_update (\<lambda>f. f(n := Pointer ?v))"
  let ?h = "on_cell self ?u (allocate (new_cell Class_vector (null_members [])) h)"
  have run: "assign_vector self n fill ks h = fill ?v ks ?h"
    by (simp add: assign_vector_def mk_bind_def new_vector_def set_ptr_def)
  have h: "heap_ok ?h" "next_addr ?h = Suc ?v" "live ?h ?v = Some (new_cell Class_vector (null_members []))"
      "live ?h self = map_option ?u (live h self)" "\<And>b. b < ?v \<Longrightarrow> b \<noteq> self \<Longrightarrow> live ?h b = live h b"
    using assms(2,3) by (auto simp: allocate_def heap_ok_def on_cell_def)
  have vec: "vec_at Q ?v ?h"
    using h(2,3) Q by (simp add: vec_at_def new_cell_def)
  show "assign_vector self n fill ks h = (Inl e, h') \<Longrightarrow> grows {self} h h'"
    using fills_run(1) [OF assms(1) h(1) vec, of ks e h'] h(2,5) unfolding run by (auto simp: grows_def)
  assume "assign_vector self n fill ks h = (Inr (x, ks'), h')"
  with fills_run(2) [OF assms(1) h(1) vec, of ks "(x, ks')" h'] run
  have "grows {?v} ?h h'" "vec_at Q ?v h'" by simp_all
  with h(2,4,5) assms(3) show "grows {self} h h' \<and> live h' self = map_option ?u (live h self) \<and> vec_at Q ?v h'"
    by (auto simp: grows_def)
qed

lemma vector_wiped:
  assumes "vector_part Q n E" and "vec_at Q v h" and "g self = Some c'" and "cell_ptrs c' n = Pointer v" and "self < v"
    and "agree v (next_addr h) g (live h)"
  shows "E self g = Some (clear v (next_addr h) g)"
proof -
  from assms(2) obtain c where c: "v < next_addr h" "live h v = Some c" "cell_class c = Class_vector"
    and w: "wipes (Q (cell_items c)) (Suc v) (next_addr h) (live h)"
    unfolding vec_at_def by blast
  have "g v = Some c" using assms(6) c by (simp add: agree_def)
  moreover have "Q (cell_items c) g = Some (clear (Suc v) (next_addr h) g)"
    using w agree_mono [OF assms(6), of "Suc v" "next_addr h"] by (simp add: wipes_def)
  ultimately show ?thesis using assms(1,3-5) c unfolding vector_part_def by blast
qed

lemma stage_assign_vector:
  assumes "\<And>v. fills Q v (fill v)" and "vector_part Q n E" and Q: "\<And>l lo. wipes (Q []) lo lo l" and "n \<notin> N"
  shows "stage C self d N (assign_vector self n fill) (then_destroy d E) (insert n N)"
proof (rule stageI)
  fix ks h e h' assume h: "heap_ok h" "held C self d N h" and run: "assign_vector self n fill ks h = (Inl e, h')"
  then have "self < next_addr h" "live h self \<noteq> None" by (auto elim: heldE)
  from vector_made(1) [OF assms(1) h(1) this Q run] show "grows {self} h h'" .
next
  fix ks h x ks' h' assume h: "heap_ok h" "held C self d N h" and run: "assign_vector self n fill ks h = (Inr (x, ks'), h')"
  then have self: "self < next_addr h" "live h self \<noteq> None" by (auto elim: heldE)
  from vector_made(2) [OF assms(1) h(1) self Q run] have made: "grows {self} h h'"
      "live h' self = map_option (cell_ptrs_update (\<lambda>f. f(n := Pointer (next_addr h)))) (live h self)" "vec_at Q (next_addr h) h'"
    by simp_all
  have "held C self (then_destroy d E) (insert n N) h'"
    using assms(4)
    by (intro held_part [OF h(2) made(1,2)])
      (auto simp: same_members_def intro!: vector_wiped [OF assms(2) made(3) _ _ self(1)])
  with made(1) show "grows {self} h h' \<and> held C self (then_destroy d E) (insert n N) h'" by simp
qed

lemma stage_assign_vector_unless_eof:
  assumes "\<And>v. fills Q v (fill v)" and "vector_part Q n E" and Q: "\<And>l lo. wipes (Q []) lo lo l" and "n \<notin> N" and "flag \<notin> N"
  shows "stage C self d N (assign_vector_unless_eof self flag n fill) (then_destroy d (unless_null flag E)) (insert flag (insert n N))"
proof -
  let ?F = "\<lambda>b. on_cell self (cell_nulls_update (\<lambda>f. f(flag := Some b)))"
  let ?d = "then_destroy d (unless_null flag E)" and ?N = "insert flag (insert n N)"
  have eof: "assign_vector_unless_eof self flag n fill ks h = (Inr (None, ks), ?F True h)" if "is_eof ks" for ks h
    using that by (simp add: assign_vector_unless_eof_def mk_bind_def mk_read_def set_null_def mk_return_def)
  have run: "assign_vector_unless_eof self flag n fill ks h =
      mk_bind (assign_vector self n fill) (\<lambda>xs. mk_return (Some xs)) ks (?F False (?F True h))" if "\<not> is_eof ks" for ks h
    using that by (simp add: assign_vector_unless_eof_def mk_bind_def mk_read_def set_null_def)
  have null: "held C self ?d ?N (?F True h)" if "held C self d N h" "heap_ok h" for h
    using that assms(5)
    by (intro held_part [where u = "cell_nulls_update (\<lambda>f. f(flag := Some True))", OF that(1) grows_on_cell])
      (auto simp: same_members_def unless_null_def)
  show ?thesis
  proof (rule stageI)
    fix ks h e h' assume h: "heap_ok h" "held C self d N h"
      and throw: "assign_vector_unless_eof self flag n fill ks h = (Inl e, h')"
    let ?h = "?F False (?F True h)"
    have ok: "heap_ok ?h" "held C self d N ?h" using h assms(5) by (simp_all add: held_flag)
    note self = held_below [OF ok(2)] held_cell [OF ok(2)]
    have "assign_vector self n fill ks ?h = (Inl e, h')"
      using throw eof run
      by (cases "is_eof ks"; cases "assign_vector self n fill" ks ?h rule: run_cases) (auto simp: mk_bind_run mk_return_def)
    from vector_made(1) [OF assms(1) ok(1) self Q this] have "grows {self} ?h h'" .
    moreover have "grows {self} h ?h"
      using h(1) by (intro grows_trans [OF grows_on_cell grows_on_cell]) simp_all
    ultimately show "grows {self} h h'" using grows_trans by blast
  next
    fix ks h x ks' h' assume h: "heap_ok h" "held C self d N h"
      and ret: "assign_vector_unless_eof self flag n fill ks h = (Inr (x, ks'), h')"
    let ?h = "?F False (?F True h)"
    have ok: "heap_ok ?h" "held C self d N ?h" using h assms(5) by (simp_all add: held_flag)
    note self = held_below [OF ok(2)] held_cell [OF ok(2)]
    show "grows {self} h h' \<and> held C self ?d ?N h'"
    proof (cases "is_eof ks")
      case True
      with ret eof null [OF h(2,1)] h(1) show ?thesis by (auto simp: grows_on_cell)
    next
      case False
      with ret run obtain xs where "assign_vector self n fill ks ?h = (Inr (xs, ks'), h')"
        by (cases "assign_vector self n fill" ks ?h rule: run_cases) (auto simp: mk_bind_run mk_return_def)
      from vector_made(2) [OF assms(1) ok(1) self Q this] have made: "grows {self} ?h h'"
          "live h' self = map_option (cell_ptrs_update (\<lambda>f. f(n := Pointer (next_addr ?h)))) (live ?h self)"
          "vec_at Q (next_addr ?h) h'"
        by blast+
      have "held C self ?d ?N h'"
        using assms(4)
        by (intro held_part [OF ok(2) made(1,2)])
          (auto simp: same_members_def unless_null_def intro!: vector_wiped [OF assms(2) made(3) _ _ self(1), simplified])
      moreover have "grows {self} h ?h"
        using h(1) by (intro grows_trans [OF grows_on_cell grows_on_cell]) simp_all
      ultimately show ?thesis using made(1) grows_trans by blast
    qed
  qed
qed

section \<open>The classes\<close>

lemma makes_new_as: "makes D m \<Longrightarrow> makes D (new_as f m)"
  unfolding makes_def
proof (intro allI impI)
  fix ks h assume m: "\<forall>ks h. heap_ok h \<longrightarrow> (case m ks h of (Inl e, h') \<Rightarrow> grows {} h h'
      | (Inr ((p, v), ks'), h') \<Rightarrow> grows {} h h' \<and> owned D p (next_addr h) (next_addr h') (live h'))" and h: "heap_ok h"
  from m [rule_format, OF h, of ks] show "case new_as f m ks h of (Inl e, h') \<Rightarrow> grows {} h h'
      | (Inr ((p, v), ks'), h') \<Rightarrow> grows {} h h' \<and> owned D p (next_addr h) (next_addr h') (live h')"
    by (cases m ks h rule: run_cases) (auto simp: new_as_def mk_bind_def mk_return_def)
qed

lemma makes_leaf: "D C = Some empty_destroy \<Longrightarrow> makes D (new_object C ptrs (\<lambda>self. mk_read r))"
  by (rule makes_new_object) (rule stage_read)

lemma empty_first: "then_destroy empty_destroy d = d"
  by (simp add: fun_eq_iff then_destroy_def empty_destroy_def)

lemma only_same [simp]: "only C d C = Some d"
  by (simp add: only_def)

lemma wipes_nothing: "wipes (delete_each D []) lo lo l" "wipes Some lo lo l"
  by (simp_all add: wipes_def)

lemmas leaves = message_header_new_def node_id_query_new_def node_id_response_new_def extended_parameters_new_def
  peer_new_def hash_pair_new_def vote_common_new_def frontier_req_new_def bulk_pull_blocks_new_def bulk_pull_account_new_def
  telemetry_ack_new_def telemetry_req_new_def block_send_new_def block_receive_new_def block_open_new_def block_change_new_def
  block_state_new_def

text \<open>
  The loops that fill a vector: an object is made and appended, then the loop throws, returns or goes on
  with another state.
\<close>

locale object_loop =
  fixes D :: "obj_class \<Rightarrow> destroyer option"
    and make :: "(ptr \<times> 'a) maker"
    and cont :: "'s \<Rightarrow> 'a \<Rightarrow> kstream \<Rightarrow> ks_exception + ('b + 's)"
    and loop :: "addr \<Rightarrow> 's \<Rightarrow> 'b maker"
  assumes makes: "makes D make"
    and progress: "(Inr ((p, x), ks'), h') = make ks h \<Longrightarrow> ks_left ks' < ks_left ks"
    and loop_eq: "loop v s ks h =
      (case make ks h of
         (Inl e, h') \<Rightarrow> (Inl e, h')
       | (Inr ((p, x), ks'), h') \<Rightarrow>
           (case cont s x ks' of
              Inl e \<Rightarrow> (Inl e, push_item v p h')
            | Inr (Inl y) \<Rightarrow> (Inr (y, ks'), push_item v p h')
            | Inr (Inr s') \<Rightarrow> loop v s' ks' (push_item v p h')))"
begin

lemma loop_fills: "fills (delete_each D) v (loop v s)"
  unfolding fills_def
proof (intro allI impI)
  fix ks h assume "heap_ok h" "vec_at (delete_each D) v h"
  then show "case loop v s ks h of
      (Inl e, h') \<Rightarrow> grows {v} h h' | (Inr x, h') \<Rightarrow> grows {v} h h' \<and> vec_at (delete_each D) v h'"
  proof (induction "ks_left ks" arbitrary: s ks h rule: less_induct)
    case less
    show ?case
    proof (cases make ks h rule: run_cases)
      case (throw e h')
      with makes_run(1) [OF makes less(2) throw] show ?thesis
        by (simp add: loop_eq [of v s ks h] grows_mono [of "{}"])
    next
      case (ret y ks' h1)
      obtain p x where y: "y = (p, x)" by (cases y)
      let ?h = "push_item v p h1"
      note push = push_step [OF makes less(2,3) ret [unfolded y]]
      have rest: "case loop v s' ks' ?h of
          (Inl e, h') \<Rightarrow> grows {v} ?h h' | (Inr x, h') \<Rightarrow> grows {v} ?h h' \<and> vec_at (delete_each D) v h'" for s'
        using less(1) [OF progress [OF ret [unfolded y, symmetric]]] push by simp
      then have "case loop v s' ks' ?h of
          (Inl e, h') \<Rightarrow> grows {v} h h' | (Inr x, h') \<Rightarrow> grows {v} h h' \<and> vec_at (delete_each D) v h'" for s'
        using rest [of s'] push by (cases "loop v s'" ks' ?h rule: run_cases) (auto intro: grows_trans)
      with push show ?thesis
        by (simp add: loop_eq [of v s ks h] ret y split: sum.split)
    qed
  qed
qed

end

interpretation pairs_made: object_loop "only Class_hash_pair empty_destroy" hash_pair_new
  "\<lambda>(i, acc) x ks. Inr (if i + 1 = n \<or> is_eof ks then Inl (acc @ [x]) else Inr (i + 1, acc @ [x]))"
  "\<lambda>v (i, acc). hash_pairs_new_loop v n i acc" for n
proof unfold_locales
  show "makes (only Class_hash_pair empty_destroy) hash_pair_new" unfolding leaves by (rule makes_leaf) simp
qed (auto simp: hash_pairs_new_loop.simps Let_def intro: new_progress [OF members_objs(6) parts_progress(1)] split: sum.splits prod.splits)

interpretation peers_made: object_loop "only Class_peer empty_destroy" peer_new
  "\<lambda>(i, acc) x ks. Inr (if i + 1 = n \<or> is_eof ks then Inl (acc @ [x]) else Inr (i + 1, acc @ [x]))"
  "\<lambda>v (i, acc). peers_new_loop v n i acc" for n
proof unfold_locales
  show "makes (only Class_peer empty_destroy) peer_new" unfolding leaves by (rule makes_leaf) simp
qed (auto simp: peers_new_loop.simps Let_def intro: new_progress [OF members_objs(5) parts_progress(2)] split: sum.splits prod.splits)

lemma makes_object:
  assumes "D C = Some d'" and "\<And>self. stage C self empty_destroy {} (body self) d N" and "d = d'"
  shows "makes D (new_object C ptrs body)"
  using makes_new_object [OF assms(2)] assms(1,3) by simp

named_theorems owned_by \<open>constructors and the destructor of their class\<close>

lemma leaves_owned [owned_by]:
  "makes (only Class_message_header empty_destroy) message_header_new"
  "makes (only Class_node_id_query empty_destroy) node_id_query_new"
  "makes (only Class_node_id_response empty_destroy) node_id_response_new"
  "makes (only Class_extended_parameters empty_destroy) extended_parameters_new"
  "makes (only Class_vote_common empty_destroy) vote_common_new"
  unfolding leaves by (rule makes_leaf, simp)+

lemmas plain_vector = stage_assign_vector_unless_eof [OF fills_read vector_parts(2) wipes_nothing(2)]

lemma stage_pairs:
  assumes "n \<notin> N" and "flag \<notin> N"
  shows "stage C self d N (assign_vector_unless_eof self flag n (\<lambda>v. hash_pairs_new_loop v k i acc))
    (then_destroy d (unless_null flag (then_destroy (delete_items (only Class_hash_pair empty_destroy) n) (delete_vector n))))
    (insert flag (insert n N))"
  by (rule stage_assign_vector_unless_eof [OF _ vector_parts(1) wipes_nothing(1) assms])
    (use pairs_made.loop_fills [of _ k "(i, acc)"] in simp)

lemma stage_peers:
  assumes "n \<notin> N" and "flag \<notin> N"
  shows "stage C self d N (assign_vector_unless_eof self flag n (\<lambda>v. peers_new_loop v k i acc))
    (then_destroy d (unless_null flag (then_destroy (delete_items (only Class_peer empty_destroy) n) (delete_vector n))))
    (insert flag (insert n N))"
  by (rule stage_assign_vector_unless_eof [OF _ vector_parts(1) wipes_nothing(1) assms])
    (use peers_made.loop_fills [of _ k "(i, acc)"] in simp)

lemma makes_ignore_until_eof:
  assumes "D Class_ignore_until_eof = Some ignore_until_eof_destroy"
  shows "makes D ignore_until_eof_new"
  unfolding ignore_until_eof_new_def
  by (rule makes_object [where D = D, OF assms], (rule staged plain_vector | simp add: ignore_until_eof_destroy_def empty_first)+)

lemma makes_confirm_request_by_hash:
  assumes "D Class_confirm_request_by_hash = Some confirm_request_by_hash_destroy"
  shows "makes D (confirm_request_by_hash_new hdr)"
  unfolding confirm_request_by_hash_new_def
  by (rule makes_object [where D = D, OF assms], (rule staged stage_pairs | simp add: confirm_request_by_hash_destroy_def empty_first)+)

lemma makes_vote_by_hash:
  assumes "D Class_vote_by_hash = Some vote_by_hash_destroy"
  shows "makes D (vote_by_hash_new hdr)"
  unfolding vote_by_hash_new_def
  by (rule makes_object [where D = D, OF assms], (rule staged plain_vector | simp add: vote_by_hash_destroy_def empty_first)+)

lemma makes_keepalive:
  assumes "D Class_keepalive = Some keepalive_destroy"
  shows "makes D keepalive_new"
  unfolding keepalive_new_def
  by (rule makes_object [where D = D, OF assms], (rule staged stage_peers | simp add: keepalive_destroy_def empty_first)+)

lemma makes_block: "makes block_class (block_new t)"
proof -
  have "makes block_class block_receive_new" "makes block_class block_change_new" "makes block_class block_state_new"
    "makes block_class block_open_new" "makes block_class block_send_new"
    unfolding leaves by (rule makes_leaf, simp add: block_class_def)+
  moreover have "makes block_class ignore_until_eof_new"
    by (rule makes_ignore_until_eof) (simp add: block_class_def)
  ultimately show ?thesis
    unfolding block_new_def by (cases "enum_blocktype_of (ucast t)") (simp_all add: makes_new_as)
qed

lemma makes_block_selector:
  assumes "D Class_block_selector = Some block_selector_destroy"
  shows "makes D (block_selector_new t)"
  unfolding block_selector_new_def
  by (rule makes_object [where D = D, OF assms], (rule staged makes_block | simp add: block_selector_destroy_def empty_first)+)

lemma parts_owned [owned_by]:
  "makes (only Class_block_selector block_selector_destroy) (block_selector_new t)"
  "makes (only Class_confirm_request_by_hash confirm_request_by_hash_destroy) (confirm_request_by_hash_new hdr)"
  "makes (only Class_vote_by_hash vote_by_hash_destroy) (vote_by_hash_new hdr)"
  by (simp_all add: makes_block_selector makes_confirm_request_by_hash makes_vote_by_hash)

lemma makes_confirm_req:
  assumes "D Class_confirm_req = Some confirm_req_destroy"
  shows "makes D (confirm_req_new hdr)"
  unfolding confirm_req_new_def
  by (rule makes_object [where D = D, OF assms], (rule staged owned_by | simp add: confirm_req_destroy_def empty_first)+)

lemma makes_confirm_ack:
  assumes "D Class_confirm_ack = Some confirm_ack_destroy"
  shows "makes D (confirm_ack_new hdr)"
  unfolding confirm_ack_new_def
  by (rule makes_object [where D = D, OF assms], (rule staged owned_by | simp add: confirm_ack_destroy_def empty_first)+)

lemma makes_publish:
  assumes "D Class_publish = Some publish_destroy"
  shows "makes D (publish_new hdr)"
  unfolding publish_new_def
  by (rule makes_object [where D = D, OF assms], (rule staged owned_by | simp add: publish_destroy_def empty_first)+)

lemma makes_node_id_handshake:
  assumes "D Class_node_id_handshake = Some node_id_handshake_destroy"
  shows "makes D (node_id_handshake_new hdr)"
  unfolding node_id_handshake_new_def
  by (rule makes_object [where D = D, OF assms], (rule staged owned_by | simp add: node_id_handshake_destroy_def empty_first)+)

lemma makes_bulk_pull:
  assumes "D Class_bulk_pull = Some bulk_pull_destroy"
  shows "makes D (bulk_pull_new hdr)"
  unfolding bulk_pull_new_def
  by (rule makes_object [where D = D, OF assms], (rule staged owned_by | simp add: bulk_pull_destroy_def empty_first)+)

lemma makes_bulk_push_entry:
  assumes "D Class_bulk_push_entry = Some bulk_push_entry_destroy"
  shows "makes D bulk_push_entry_new"
  unfolding bulk_push_entry_new_def
  by (rule makes_object [where D = D, OF assms], (rule staged owned_by | simp add: bulk_push_entry_destroy_def empty_first)+)

lemma makes_bulk_pull_entry:
  assumes "D Class_bulk_pull_entry = Some bulk_pull_entry_destroy"
  shows "makes D bulk_pull_entry_new"
  unfolding bulk_pull_entry_new_def
  by (rule makes_object [where D = D, OF assms], (rule staged owned_by | simp add: bulk_pull_entry_destroy_def empty_first)+)

interpretation push_entries_made: object_loop "only Class_bulk_push_entry bulk_push_entry_destroy" bulk_push_entry_new
  "\<lambda>(i, acc) x ks. if is_eof ks then Inr (Inl (acc @ [x]))
     else (case vector_at (acc @ [x]) (i + 1) of
             Inl e \<Rightarrow> Inl e
           | Inr y \<Rightarrow> Inr (if entry_block_type y = 1 then Inl (acc @ [x]) else Inr (i + 1, acc @ [x])))"
  "\<lambda>v (i, acc). bulk_push_new_loop v i acc"
proof unfold_locales
  show "makes (only Class_bulk_push_entry bulk_push_entry_destroy) bulk_push_entry_new" by (simp add: makes_bulk_push_entry)
qed (auto simp: bulk_push_new_loop.simps Let_def intro: new_progress [OF messages_objs(6) bulk_push_entry_progress]
    split: sum.splits prod.splits)

lemma stage_push_entries:
  assumes "n \<notin> N"
  shows "stage C self d N (assign_vector self n (\<lambda>v. bulk_push_new_loop v i acc))
    (then_destroy d (then_destroy (delete_items (only Class_bulk_push_entry bulk_push_entry_destroy) n) (delete_vector n))) (insert n N)"
  by (rule stage_assign_vector [OF _ vector_parts(1) wipes_nothing(1) assms])
    (use push_entries_made.loop_fills [of _ "(i, acc)"] in simp)

interpretation pull_entries_made: object_loop "only Class_bulk_pull_entry bulk_pull_entry_destroy" bulk_pull_entry_new
  "\<lambda>(i, acc) x ks. if is_eof ks then Inr (Inl (acc @ [x]))
     else (case vector_at (acc @ [x]) (i + 1) of
             Inl e \<Rightarrow> Inl e
           | Inr y \<Rightarrow> Inr (if entry_block_type y = 1 then Inl (acc @ [x]) else Inr (i + 1, acc @ [x])))"
  "\<lambda>v (i, acc). bulk_pull_new_loop v i acc"
proof unfold_locales
  show "makes (only Class_bulk_pull_entry bulk_pull_entry_destroy) bulk_pull_entry_new" by (simp add: makes_bulk_pull_entry)
qed (auto simp: bulk_pull_new_loop.simps Let_def intro: new_progress [OF messages_objs(7) bulk_pull_entry_progress]
    split: sum.splits prod.splits)

lemma stage_pull_entries:
  assumes "n \<notin> N"
  shows "stage C self d N (assign_vector self n (\<lambda>v. bulk_pull_new_loop v i acc))
    (then_destroy d (then_destroy (delete_items (only Class_bulk_pull_entry bulk_pull_entry_destroy) n) (delete_vector n))) (insert n N)"
  by (rule stage_assign_vector [OF _ vector_parts(1) wipes_nothing(1) assms])
    (use pull_entries_made.loop_fills [of _ "(i, acc)"] in simp)

lemma makes_bulk_push:
  assumes "D Class_bulk_push = Some bulk_push_destroy"
  shows "makes D bulk_push_new"
  unfolding bulk_push_new_def
  by (rule makes_object [where D = D, OF assms], (rule staged stage_push_entries | simp add: bulk_push_destroy_def empty_first)+)

lemma makes_bulk_pull_response:
  assumes "D Class_bulk_pull_response = Some bulk_pull_response_destroy"
  shows "makes D bulk_pull_response_new"
  unfolding bulk_pull_response_new_def
  by (rule makes_object [where D = D, OF assms], (rule staged stage_pull_entries | simp add: bulk_pull_response_destroy_def empty_first)+)

lemma makes_body: "makes body_class (nano_body_new hdr)"
proof -
  have "makes body_class bulk_pull_account_new" "makes body_class telemetry_ack_new" "makes body_class frontier_req_new"
    "makes body_class bulk_pull_blocks_new" "makes body_class telemetry_req_new"
    unfolding leaves by (rule makes_leaf, simp add: body_class_def)+
  moreover have "makes body_class (confirm_req_new hdr)" "makes body_class (confirm_ack_new hdr)"
    "makes body_class (bulk_pull_new hdr)" "makes body_class keepalive_new" "makes body_class bulk_push_new"
    "makes body_class (node_id_handshake_new hdr)" "makes body_class (publish_new hdr)" "makes body_class ignore_until_eof_new"
    by (simp_all add: body_class_def makes_confirm_req makes_confirm_ack makes_bulk_pull makes_keepalive makes_bulk_push
        makes_node_id_handshake makes_publish makes_ignore_until_eof)
  ultimately show ?thesis
    unfolding nano_body_new_def by (cases "hdr_message_type hdr") (simp_all add: makes_new_as)
qed

lemma makes_nano:
  assumes "D Class_nano = Some nano_destroy"
  shows "makes D nano_new"
  unfolding nano_new_def
  by (rule makes_object [where D = D, OF assms], (rule staged owned_by makes_body | simp add: nano_destroy_def empty_first)+)

section \<open>What an object leaves behind\<close>

lemma clear_new: "heap_ok h \<Longrightarrow> grows {} h h' \<Longrightarrow> clear (next_addr h) (next_addr h') (live h') = live h"
  unfolding clear_def grows_def heap_ok_def fun_eq_iff by (metis empty_iff not_le)

text \<open>An object that was made is destroyed without a trace.\<close>

lemma life_of_made:
  assumes "makes D m" and "heap_ok h" and "m ks h = (Inr ((p, x), ks'), h')"
  shows "object_life m D ks h = Some (h'\<lparr>live := live h\<rparr>) \<and> next_addr h \<le> next_addr h'"
proof -
  from makes_run(2) [OF assms] have made: "grows {} h h'" "owned D p (next_addr h) (next_addr h') (live h')" by simp_all
  then have "delete_object D p (live h') = Some (clear (next_addr h) (next_addr h') (live h'))"
    by (simp add: wipes_def agree_def)
  with made(1) assms(2,3) show ?thesis by (simp add: object_life_def clear_new grows_def)
qed

lemma life_ok:
  assumes "makes D m" and "heap_ok h"
  shows "\<exists>h'. object_life m D ks h = Some h' \<and> heap_ok h' \<and> next_addr h \<le> next_addr h' \<and> (\<forall>b < next_addr h. live h' b = live h b)"
proof (cases m ks h rule: run_cases)
  case (throw e h')
  with makes_run(1) [OF assms throw] show ?thesis by (simp add: object_life_def grows_def)
next
  case (ret y ks' h')
  obtain p x where "y = (p, x)" by (cases y)
  with life_of_made [OF assms, of ks p x ks' h'] ret assms(2) show ?thesis by (auto simp: heap_ok_def)
qed

text \<open>A constructor that leaves nothing when it throws.\<close>

definition clean :: "'a maker \<Rightarrow> bool" where
  "clean m \<longleftrightarrow> (\<forall>ks h e h'. heap_ok h \<longrightarrow> m ks h = (Inl e, h') \<longrightarrow> live h' = live h)"

lemma clean_life:
  assumes "makes D m" and "clean m" and "heap_ok h"
  shows "\<exists>h'. object_life m D ks h = Some h' \<and> live h' = live h"
proof (cases m ks h rule: run_cases)
  case (throw e h')
  with assms(2,3) show ?thesis by (auto simp: object_life_def clean_def)
next
  case (ret y ks' h')
  obtain p x where "y = (p, x)" by (cases y)
  with life_of_made [OF assms(1,3), of ks p x ks' h'] ret show ?thesis by auto
qed

lemma heap_ok_allocate [simp]: "heap_ok h \<Longrightarrow> heap_ok (allocate c h)"
  by (simp add: heap_ok_def allocate_def)

text \<open>
  An object with one member, which is made last: when that throws, the memory of the object itself is given back,
  and nothing else had been taken.
\<close>

lemma clean_object:
  assumes "\<And>self ks h e h'. body self ks h = (Inl e, h') \<Longrightarrow> heap_ok h \<Longrightarrow> live h' = live h"
  shows "clean (new_object C ptrs body)"
  unfolding clean_def
proof (intro allI impI)
  fix ks h e h' assume h: "heap_ok h" and run: "new_object C ptrs body ks h = (Inl e, h')"
  then obtain h1 where b: "body (next_addr h) ks (allocate (new_cell C ptrs) h) = (Inl e, h1)"
    and h': "h' = h1\<lparr>live := (live h1)(next_addr h := None)\<rparr>"
    by (cases "body (next_addr h)" ks "allocate (new_cell C ptrs) h" rule: run_cases) (auto simp: new_object_def)
  from assms [OF b] h have "live h1 = live (allocate (new_cell C ptrs) h)" by simp
  with h show "live h' = live h" by (auto simp: h' allocate_def heap_ok_def fun_eq_iff)
qed

lemma clean_leaf: "clean (new_object C ptrs (\<lambda>self. mk_read r))"
  by (rule clean_object) (simp add: mk_read_def)

lemma clean_new_as:
  assumes "clean m"
  shows "clean (new_as f m)"
  unfolding clean_def
proof (intro allI impI)
  fix ks h e h' assume h: "heap_ok h" and "new_as f m ks h = (Inl e, h')"
  then have "m ks h = (Inl e, h')"
    by (cases m ks h rule: run_cases) (auto simp: new_as_def mk_bind_def mk_return_def)
  with assms h show "live h' = live h" by (simp add: clean_def)
qed

lemma clean_assign:
  assumes "clean m" and "mk_bind (assign_new self n m) (\<lambda>x. mk_return (f x)) ks h = (Inl e, h')" and "heap_ok h"
  shows "live h' = live h"
proof -
  from assms(2) have "m ks h = (Inl e, h')"
    by (cases "assign_new self n m" ks h rule: run_cases) (auto simp: mk_bind_run mk_return_def assign_new_run)
  with assms(1,3) show ?thesis by (simp add: clean_def)
qed

lemma clean_block_selector: "clean (block_selector_new t)"
proof -
  have "clean ignore_until_eof_new"
    unfolding clean_def using objs_run(1) [OF vectors_objs(1)] by (fastforce simp: ignore_until_eof_read_eq)
  moreover have "clean block_receive_new" "clean block_change_new" "clean block_state_new" "clean block_open_new" "clean block_send_new"
    unfolding leaves by (rule clean_leaf)+
  ultimately have "clean (block_new t)"
    unfolding block_new_def by (cases "enum_blocktype_of (ucast t)") (simp_all add: clean_new_as)
  then show ?thesis
    unfolding block_selector_new_def by (intro clean_object) (rule clean_assign)
qed

lemma clean_entries: "clean bulk_push_entry_new" "clean bulk_pull_entry_new"
proof -
  have "live h' = live h" if "heap_ok h"
    and "mk_bind (mk_read read_u1) (\<lambda>t. mk_bind (assign_new self n (block_selector_new t)) (\<lambda>b. mk_return (f t b))) ks h = (Inl e, h')"
    for self n ks h e h' and f :: "u8 \<Rightarrow> block_selector_t \<Rightarrow> bulk_entry_t"
    using that clean_assign [OF clean_block_selector]
    by (cases "mk_read read_u1" ks h rule: run_cases) (auto simp: mk_bind_run, auto simp: mk_read_def)
  note last = this [where f = "\<lambda>t b. \<lparr>entry_block_type = t, entry_block = b\<rparr>"]
  show "clean bulk_push_entry_new"
    unfolding bulk_push_entry_new_def by (rule clean_object) (rule last)
  show "clean bulk_pull_entry_new"
    unfolding bulk_pull_entry_new_def by (rule clean_object) (rule last)
qed

section \<open>What a message leaves behind\<close>

text \<open>A message whose header is accepted and whose body is not.\<close>

definition rejected_body :: "bytes \<Rightarrow> bool" where
  "rejected_body data \<longleftrightarrow>
     (case message_header_read (kstream_of data) of Inl e \<Rightarrow> False | Inr _ \<Rightarrow> True) \<and>
     (case nano_read (kstream_of data) of Inl e \<Rightarrow> True | Inr _ \<Rightarrow> False)"

lemma makes_message: "makes (only Class_nano nano_destroy) nano_new"
  by (rule makes_nano) simp

lemma header_new_run:
  assumes "heap_ok h"
  shows "message_header_read ks = Inl e \<Longrightarrow> \<exists>h'. message_header_new ks h = (Inl e, h') \<and> live h' = live h"
    and "message_header_read ks = Inr (hdr, ks') \<Longrightarrow> message_header_new ks h =
      (Inr ((Pointer (next_addr h), hdr), ks'), allocate (new_cell Class_message_header (null_members [])) h)"
  using assms by (auto simp: message_header_new_def new_object_def mk_read_def allocate_def heap_ok_def)

text \<open>The header stays where it is when the body throws.\<close>

lemma rejected_message_leaks:
  assumes "heap_ok h" and "nano_new ks h = (Inl e, h')"
  shows "(case message_header_read ks of
     Inl _ \<Rightarrow> live h' = live h
   | Inr _ \<Rightarrow> live h' (Suc (next_addr h)) = Some (new_cell Class_message_header (null_members [])))"
proof -
  let ?a = "next_addr h"
  let ?h = "allocate (new_cell Class_nano (null_members [''m_header''])) h"
  let ?body = "\<lambda>hdr. mk_bind (assign_new ?a ''m_body'' (nano_body_new hdr)) (\<lambda>b. mk_return \<lparr>nano_header = hdr, nano_body = b\<rparr>)"
  have h: "heap_ok ?h" "next_addr ?h = Suc ?a" "live ?h = (live h)(?a \<mapsto> new_cell Class_nano (null_members [''m_header'']))"
    using assms(1) by (simp_all add: allocate_def heap_ok_def)
  from assms(2) obtain h1 where run: "mk_bind (assign_new ?a ''m_header'' message_header_new) ?body ks ?h = (Inl e, h1)"
    and h': "h' = h1\<lparr>live := (live h1)(?a := None)\<rparr>"
    by (cases "mk_bind (assign_new ?a ''m_header'' message_header_new) ?body" ks ?h rule: run_cases)
      (auto simp: nano_new_def new_object_def)
  show ?thesis
  proof (cases "message_header_read ks")
    case (Inl e')
    from header_new_run(1) [OF h(1) Inl] obtain h2 where "message_header_new ks ?h = (Inl e', h2)" "live h2 = live ?h" by blast
    with run have "live h1 = live ?h"
      by (auto simp: mk_bind_run assign_new_run)
    with h(3) assms(1) Inl show ?thesis by (auto simp: h' heap_ok_def fun_eq_iff)
  next
    case (Inr y)
    obtain hdr ks1 where y: "y = (hdr, ks1)" by (cases y)
    let ?cell = "new_cell Class_message_header (null_members [])"
    let ?h2 = "on_cell ?a (cell_ptrs_update (\<lambda>f. f(''m_header'' := Pointer (Suc ?a)))) (allocate ?cell ?h)"
    have "assign_new ?a ''m_header'' message_header_new ks ?h = (Inr (hdr, ks1), ?h2)"
      using header_new_run(2) [OF h(1) Inr [unfolded y]] h(2) by (simp add: assign_new_run)
    with run have "?body hdr ks1 ?h2 = (Inl e, h1)" by (simp add: mk_bind_run)
    then have "nano_body_new hdr ks1 ?h2 = (Inl e, h1)"
      by (cases "assign_new ?a ''m_body'' (nano_body_new hdr)" ks1 ?h2 rule: run_cases)
        (auto simp: mk_bind_run mk_return_def assign_new_run)
    from makes_run(1) [OF makes_body _ this] h(1) have "grows {} ?h2 h1" by simp
    then have "live h1 (Suc ?a) = Some ?cell" using h(2) by (simp add: grows_def allocate_def)
    with Inr show ?thesis by (simp add: h')
  qed
qed

lemma message_life_effect:
  assumes "heap_ok h"
  shows "\<exists>h'. message_life data h = Some h' \<and> heap_ok h' \<and> (\<forall>b < next_addr h. live h' b = live h b) \<and>
    (if rejected_body data
     then live h' (Suc (next_addr h)) = Some (new_cell Class_message_header (null_members [])) \<and> live h (Suc (next_addr h)) = None
     else live h' = live h)"
proof -
  let ?ks = "kstream_of data"
  from life_ok [OF makes_message assms] obtain h' where h': "message_life data h = Some h'" "heap_ok h'"
      "\<forall>b < next_addr h. live h' b = live h b"
    unfolding message_life_def by blast
  have "if rejected_body data then live h' (Suc (next_addr h)) = Some (new_cell Class_message_header (null_members []))
      else live h' = live h"
  proof (cases nano_new ?ks h rule: run_cases)
    case (throw e h1)
    with h'(1) have "h1 = h'" by (simp add: message_life_def object_life_def)
    with rejected_message_leaks [OF assms throw] objs_run(1) [OF nano_objs throw] show ?thesis
      by (auto simp: rejected_body_def split: sum.splits)
  next
    case (ret y ks' h1)
    obtain p m where y: "y = (p, m)" by (cases y)
    from life_of_made [OF makes_message assms ret [unfolded y]] h'(1) have "live h' = live h" by (auto simp: message_life_def)
    with objs_run(2) [OF nano_objs ret [unfolded y]] show ?thesis by (simp add: rejected_body_def)
  qed
  with h' assms show ?thesis by (auto simp: heap_ok_def)
qed

text \<open>C10: 
  the memory a message takes: the object and all it owns is given back when it is destroyed, and no destructor
  reads an indeterminate member, follows a null pointer or deletes an object twice, for any bytes and whatever
  else is in memory. A message whose header is accepted and whose body is not leaves its header behind, for
  good; these are the only bytes that leave anything.\<close>

theorem message_memory:
  assumes "heap_ok h"
  shows "\<exists>h'. message_life data h = Some h' \<and> heap_ok h' \<and> (\<forall>b < next_addr h. live h' b = live h b) \<and>
    (if rejected_body data
     then live h' (Suc (next_addr h)) = Some (new_cell Class_message_header (null_members [])) \<and> live h (Suc (next_addr h)) = None
     else live h' = live h)"
  using assms by (rule message_life_effect)

definition empty_heap :: heap where
  "empty_heap = \<lparr>live = (\<lambda>_. None), next_addr = 0\<rparr>"

lemma empty_heap_ok: "heap_ok empty_heap"
  by (simp add: heap_ok_def empty_heap_def)

text \<open>A header that announces a request for frontiers, and nothing behind it.\<close>

definition header_only :: bytes where
  "header_only = [0x52, 0x43, 18, 18, 16, 8, 0, 0]"

lemma header_only_rejected: "rejected_body header_only"
  by (simp add: rejected_body_def header_only_def nano_read_def nano_body_read_def ks_bind_def ks_return_def message_header_read_eq
      frontier_req_read_eq enum_msgtype_of_def ks_left_eq)

theorem message_memory_witness:
  "\<exists>h'. message_life header_only empty_heap = Some h' \<and> live h' 1 \<noteq> None"
  using message_memory [OF empty_heap_ok, of header_only] header_only_rejected by (auto simp: empty_heap_def)

text \<open>C11: 
  what rejected messages leave adds up: in any sequence of messages each whose body is rejected leaves at least
  one more object in memory, which nothing gives back, and a sequence without such leaves nothing.\<close>

theorem rejected_messages_pile_up:
  assumes "heap_ok h"
  shows "\<exists>h'. message_lives datas h = Some h' \<and> heap_ok h' \<and> live h \<subseteq>\<^sub>m live h' \<and>
    card (dom (live h)) + length (filter rejected_body datas) \<le> card (dom (live h')) \<and>
    (list_all (\<lambda>data. \<not> rejected_body data) datas \<longrightarrow> live h' = live h)"
  using assms
proof (induction datas arbitrary: h)
  case Nil
  then show ?case by (simp add: map_le_def)
next
  case (Cons data datas)
  from message_life_effect [OF Cons.prems, of data] obtain h1 where h1: "message_life data h = Some h1" "heap_ok h1"
      "\<forall>b < next_addr h. live h1 b = live h b"
    and left: "if rejected_body data then live h1 (Suc (next_addr h)) \<noteq> None \<and> live h (Suc (next_addr h)) = None
      else live h1 = live h"
    by (auto split: if_splits)
  from Cons.IH [OF h1(2)] obtain h' where h': "message_lives datas h1 = Some h'" "heap_ok h'" "live h1 \<subseteq>\<^sub>m live h'"
      "card (dom (live h1)) + length (filter rejected_body datas) \<le> card (dom (live h'))"
      "list_all (\<lambda>data. \<not> rejected_body data) datas \<longrightarrow> live h' = live h1"
    by blast
  have sub: "live h \<subseteq>\<^sub>m live h1"
    using Cons.prems h1(3) unfolding map_le_def heap_ok_def by (metis domIff leI)
  have "dom (live h1) \<subseteq> {..< next_addr h1}"
    using h1(2) unfolding heap_ok_def by (metis domIff lessThan_iff not_le subsetI)
  then have finite: "finite (dom (live h1))" by (rule finite_subset) simp
  have "Suc (next_addr h) \<in> dom (live h1) - dom (live h)" if "rejected_body data"
    using left that by (simp add: domIff)
  then have "dom (live h) \<subset> dom (live h1)" if "rejected_body data"
    using map_le_implies_dom_le [OF sub] that by blast
  with finite have "card (dom (live h)) + (if rejected_body data then 1 else 0) \<le> card (dom (live h1))"
    using left psubset_card_mono [of "dom (live h1)" "dom (live h)"] by (simp add: Suc_le_eq split: if_splits)
  moreover have "live h \<subseteq>\<^sub>m live h'" by (rule map_le_trans [OF sub h'(3)])
  moreover have "message_lives (data # datas) h = Some h'" using h1(1) h'(1) by simp
  ultimately show ?case
    using h'(2,4,5) left by (intro exI [of _ h']) (cases "rejected_body data"; simp)
qed

theorem rejected_messages_pile_up_witness:
  "\<exists>h'. message_lives [header_only, header_only, header_only] empty_heap = Some h' \<and> 3 \<le> card (dom (live h'))"
  using rejected_messages_pile_up [OF empty_heap_ok, of "[header_only, header_only, header_only]"] header_only_rejected
  by (auto simp: empty_heap_def)

text \<open>The entries of the streams, which the handler reads one by one, leave nothing, accepted or not.\<close>

theorem entries_leave_nothing:
  assumes "heap_ok h"
  shows "\<exists>h'. push_entry_life data h = Some h' \<and> live h' = live h" "\<exists>h'. pull_entry_life data h = Some h' \<and> live h' = live h"
    "\<exists>h'. frontier_entry_life data h = Some h' \<and> live h' = live h" "\<exists>h'. balance_entry_life data h = Some h' \<and> live h' = live h"
    "\<exists>h'. account_entry_life flags ks h = Some h' \<and> live h' = live h"
proof -
  show "\<exists>h'. push_entry_life data h = Some h' \<and> live h' = live h"
    unfolding push_entry_life_def by (rule clean_life [OF makes_bulk_push_entry clean_entries(1) assms]) simp
  show "\<exists>h'. pull_entry_life data h = Some h' \<and> live h' = live h"
    unfolding pull_entry_life_def by (rule clean_life [OF makes_bulk_pull_entry clean_entries(2) assms]) simp
  show "\<exists>h'. frontier_entry_life data h = Some h' \<and> live h' = live h"
    unfolding frontier_entry_life_def frontier_entry_new_def
    by (rule clean_life [OF makes_leaf clean_leaf assms]) simp
  show "\<exists>h'. balance_entry_life data h = Some h' \<and> live h' = live h"
    unfolding balance_entry_life_def frontier_balance_entry_new_def
    by (rule clean_life [OF makes_leaf clean_leaf assms]) simp
  show "\<exists>h'. account_entry_life flags ks h = Some h' \<and> live h' = live h"
    unfolding account_entry_life_def bulk_pull_account_entry_new_def
    by (rule clean_life [OF makes_leaf clean_leaf assms]) simp
qed

end
