(* ===== verification/Action.thy ===== *)
theory Action
  imports KStream
begin

text \<open>
  Stateful code that may throw: an action takes the state to a result or the exception thrown,
  and to the state as it is then; what was changed before a throw stays changed. The theory has
  the sequencing of actions, the handler of an exception, a loop that may not end
  (\<open>None\<close> is the value of one that does not), and triples with their rules.
\<close>

section \<open>Actions\<close>

text \<open>
  \<open>SqliteException\<close> is \<open>SQLite::Exception\<close>, a \<open>std::runtime_error\<close> with the result code of the
  call. \<open>JsonException\<close> is an exception of the json library other than a parse error, which is not
  a \<open>std::runtime_error\<close>; \<open>ProcessExit\<close> is a call of \<open>std::exit\<close>. \<open>Undefined\<close> stands for behaviour
  the language leaves open; nothing catches it.
\<close>

datatype failure =
    StreamException ks_exception
  | SqliteException int
  | JsonException
  | ProcessExit int
  | Undefined

fun caught_as_runtime_error :: "failure \<Rightarrow> bool" where
  "caught_as_runtime_error (StreamException e) = is_runtime_error e"
| "caught_as_runtime_error (SqliteException _) = True"
| "caught_as_runtime_error JsonException = False"
| "caught_as_runtime_error (ProcessExit _) = False"
| "caught_as_runtime_error Undefined = False"

type_synonym ('s, 'a) act = "'s \<Rightarrow> (failure + 'a) \<times> 's"

definition act_return :: "'a \<Rightarrow> ('s, 'a) act" where
  "act_return x s = (Inr x, s)"

definition act_throw :: "failure \<Rightarrow> ('s, 'a) act" where
  "act_throw e s = (Inl e, s)"

definition act_get :: "('s \<Rightarrow> 'a) \<Rightarrow> ('s, 'a) act" where
  "act_get f s = (Inr (f s), s)"

definition act_modify :: "('s \<Rightarrow> 's) \<Rightarrow> ('s, unit) act" where
  "act_modify f s = (Inr (), f s)"

definition act_bind :: "('s, 'a) act \<Rightarrow> ('a \<Rightarrow> ('s, 'b) act) \<Rightarrow> ('s, 'b) act" where
  "act_bind m f s = (case m s of (Inl e, s') \<Rightarrow> (Inl e, s') | (Inr x, s') \<Rightarrow> f x s')"

primrec act_seq :: "('s, unit) act list \<Rightarrow> ('s, unit) act" where
  "act_seq [] = act_return ()"
| "act_seq (m # ms) = act_bind m (\<lambda>_. act_seq ms)"

definition act_when :: "bool \<Rightarrow> ('s, unit) act \<Rightarrow> ('s, unit) act" where
  "act_when b m = (if b then m else act_return ())"

text \<open>A value that the code can only compute inside its own bounds.\<close>

definition act_the :: "'a option \<Rightarrow> ('s, 'a) act" where
  "act_the x = (case x of None \<Rightarrow> act_throw Undefined | Some y \<Rightarrow> act_return y)"

definition act_catch :: "(failure \<Rightarrow> bool) \<Rightarrow> ('s, 'a) act \<Rightarrow> ('s, 'a) act \<Rightarrow> ('s, 'a) act" where
  "act_catch P m h s =
     (case m s of (Inl e, s') \<Rightarrow> if P e then h s' else (Inl e, s') | (Inr x, s') \<Rightarrow> (Inr x, s'))"

text \<open>An action on a component of the state.\<close>

definition act_zoom :: "('s \<Rightarrow> 't) \<Rightarrow> (('t \<Rightarrow> 't) \<Rightarrow> 's \<Rightarrow> 's) \<Rightarrow> ('t, 'a) act \<Rightarrow> ('s, 'a) act" where
  "act_zoom get upd m s = (case m (get s) of (r, t) \<Rightarrow> (r, upd (\<lambda>_. t) s))"

text \<open>A loop: its pass tells whether it goes round again.\<close>

partial_function (option) act_loop :: "('s, bool) act \<Rightarrow> 's \<Rightarrow> ((failure + unit) \<times> 's) option" where
  "act_loop pass s =
     (case pass s of
        (r, s') \<Rightarrow> (case r of Inl e \<Rightarrow> Some (Inl e, s')
                          | Inr again \<Rightarrow> if again then act_loop pass s' else Some (Inr (), s')))"

section \<open>What an action leaves alone\<close>

definition keeps :: "('s \<Rightarrow> 'x) \<Rightarrow> ('s, 'a) act \<Rightarrow> bool" where
  "keeps f m \<longleftrightarrow> (\<forall>s. f (snd (m s)) = f s)"

named_theorems keeps

lemma keepsI: "(\<And>s. f (snd (m s)) = f s) \<Longrightarrow> keeps f m"
  by (simp add: keeps_def)

lemma keepsD: "keeps f m \<Longrightarrow> m s = (r, s') \<Longrightarrow> f s' = f s"
  by (metis keeps_def snd_conv)

lemma keeps_bind [keeps]: "keeps f m \<Longrightarrow> (\<And>x. keeps f (g x)) \<Longrightarrow> keeps f (act_bind m g)"
  unfolding keeps_def act_bind_def by (auto split: prod.splits sum.splits) (metis snd_conv)+

lemma keeps_basic [keeps]:
  "keeps f (act_return x)" "keeps f (act_throw e)" "keeps f (act_get g)" "keeps f (act_the y)"
  by (auto simp: keeps_def act_return_def act_throw_def act_get_def act_the_def split: option.split)

lemma keeps_seq [keeps]: "(\<And>m. m \<in> set ms \<Longrightarrow> keeps f m) \<Longrightarrow> keeps f (act_seq ms)"
  by (induction ms) (auto intro: keeps)

lemma keeps_when [keeps]: "(b \<Longrightarrow> keeps f m) \<Longrightarrow> keeps f (act_when b m)"
  by (auto simp: act_when_def intro: keeps)

lemma keeps_modify [keeps]: "(\<And>s. f (h s) = f s) \<Longrightarrow> keeps f (act_modify h)"
  by (simp add: keeps_def act_modify_def)

section \<open>Triples\<close>

text \<open>
  From a state with \<open>P\<close> the action returns a value and a state with \<open>Q\<close>, or throws an exception
  in a state with \<open>R\<close>.
\<close>

definition triple :: "('s \<Rightarrow> bool) \<Rightarrow> ('s, 'a) act \<Rightarrow> ('a \<Rightarrow> 's \<Rightarrow> bool) \<Rightarrow> (failure \<Rightarrow> 's \<Rightarrow> bool) \<Rightarrow> bool" where
  "triple P m Q R \<longleftrightarrow> (\<forall>s. P s \<longrightarrow> (case m s of (Inl e, s') \<Rightarrow> R e s' | (Inr x, s') \<Rightarrow> Q x s'))"

named_theorems triples

lemma tripleI:
  "(\<And>s. P s \<Longrightarrow> case m s of (Inl e, s') \<Rightarrow> R e s' | (Inr x, s') \<Rightarrow> Q x s') \<Longrightarrow> triple P m Q R"
  by (simp add: triple_def)

lemma tripleD: "triple P m Q R \<Longrightarrow> P s \<Longrightarrow> m s = (Inr x, s') \<Longrightarrow> Q x s'"
  by (auto simp: triple_def split: prod.splits sum.splits)

lemma tripleD_throw: "triple P m Q R \<Longrightarrow> P s \<Longrightarrow> m s = (Inl e, s') \<Longrightarrow> R e s'"
  by (auto simp: triple_def split: prod.splits sum.splits)

lemma triple_returns:
  "triple P m Q (\<lambda>_ _. False) \<Longrightarrow> P s \<Longrightarrow> \<exists>x s'. m s = (Inr x, s') \<and> Q x s'"
  unfolding triple_def by (cases "m s"; cases "fst (m s)") fastforce+

lemma triple_weaken:
  "triple P' m Q' R' \<Longrightarrow> (\<And>s. P s \<Longrightarrow> P' s) \<Longrightarrow> (\<And>x s. Q' x s \<Longrightarrow> Q x s) \<Longrightarrow>
     (\<And>e s. R' e s \<Longrightarrow> R e s) \<Longrightarrow> triple P m Q R"
  unfolding triple_def by (fastforce split: prod.splits sum.splits)

lemma triple_return [triples]: "triple (Q x) (act_return x) Q R"
  by (simp add: triple_def act_return_def)

lemma triple_throw [triples]: "triple (R e) (act_throw e) Q R"
  by (simp add: triple_def act_throw_def)

lemma triple_get [triples]: "triple (\<lambda>s. Q (f s) s) (act_get f) Q R"
  by (simp add: triple_def act_get_def)

lemma triple_modify [triples]: "triple (\<lambda>s. Q () (f s)) (act_modify f) Q R"
  by (simp add: triple_def act_modify_def)

lemma triple_bind:
  "triple P m Q' R \<Longrightarrow> (\<And>x. triple (Q' x) (f x) Q R) \<Longrightarrow> triple P (act_bind m f) Q R"
  unfolding triple_def act_bind_def by (fastforce split: prod.splits sum.splits)

lemma triple_when:
  "(b \<Longrightarrow> triple P m Q R) \<Longrightarrow> (\<And>s. \<not> b \<Longrightarrow> P s \<Longrightarrow> Q () s) \<Longrightarrow> triple P (act_when b m) Q R"
  by (simp add: act_when_def triple_def act_return_def)

lemma triple_catch:
  "triple P m Q (\<lambda>e s. if C e then T s else R e s) \<Longrightarrow> triple T h Q R \<Longrightarrow> triple P (act_catch C m h) Q R"
  unfolding triple_def act_catch_def by (fastforce split: prod.splits sum.splits if_splits)

lemma triple_the: "x = Some y \<Longrightarrow> triple (Q y) (act_the x) Q R"
  by (simp add: act_the_def triple_return)

lemma triple_seq_nil: "triple (Q ()) (act_seq []) Q R"
  by (simp add: triple_return)

lemma triple_seq_cons:
  "triple P m (\<lambda>_. P') R \<Longrightarrow> triple P' (act_seq ms) Q R \<Longrightarrow> triple P (act_seq (m # ms)) Q R"
  by (auto intro: triple_bind)

text \<open>An invariant that every action of a list keeps.\<close>

lemma triple_seq:
  "(\<And>m. m \<in> set ms \<Longrightarrow> triple P m (\<lambda>_. P) R) \<Longrightarrow> triple P (act_seq ms) (\<lambda>_. P) R"
  by (induction ms) (auto intro!: triple_bind triple_return)

lemma triple_zoom:
  "(\<And>s. P s \<Longrightarrow> triple ((=) (get s)) m (\<lambda>x t. Q x (upd (\<lambda>_. t) s)) (\<lambda>e t. R e (upd (\<lambda>_. t) s))) \<Longrightarrow>
     triple P (act_zoom get upd m) Q R"
  unfolding triple_def act_zoom_def by (fastforce split: prod.splits sum.splits)

section \<open>Loops\<close>

lemma act_loop_returns:
  assumes "\<And>s s'. I s \<Longrightarrow> pass s = (Inr True, s') \<Longrightarrow> I s' \<and> m s' < (m s :: nat)" and "I s"
  shows "\<exists>r. act_loop pass s = Some r"
  using assms(2)
proof (induction "m s" arbitrary: s rule: less_induct)
  case less
  then show ?case
    using assms(1) [of s "snd (pass s)"]
    by (subst act_loop.simps) (cases "pass s"; cases "fst (pass s)"; auto)
qed

lemma act_loop_invariant:
  assumes "act_loop pass s = Some y" and "I s"
    and "\<And>s. I s \<Longrightarrow> (case pass s of (Inl e, s') \<Rightarrow> Q (Inl e) s'
      | (Inr again, s') \<Rightarrow> if again then I s' else Q (Inr ()) s')"
  shows "Q (fst y) (snd y)"
proof -
  have "I s \<longrightarrow> (\<forall>s. I s \<longrightarrow> (case pass s of (Inl e, s') \<Rightarrow> Q (Inl e) s'
      | (Inr again, s') \<Rightarrow> if again then I s' else Q (Inr ()) s')) \<longrightarrow> Q (fst y) (snd y)"
    by (rule act_loop.raw_induct [OF _ assms(1), where P = "\<lambda>pass s y. I s \<longrightarrow>
      (\<forall>s. I s \<longrightarrow> (case pass s of (Inl e, s') \<Rightarrow> Q (Inl e) s'
        | (Inr again, s') \<Rightarrow> if again then I s' else Q (Inr ()) s')) \<longrightarrow> Q (fst y) (snd y)"])
      (fastforce split: prod.splits sum.splits if_splits)
  with assms(2,3) show ?thesis by blast
qed

text \<open>A loop whose every pass from a set of states goes round again inside the set does not end.\<close>

lemma act_loop_diverges:
  assumes "\<And>s. I s \<Longrightarrow> \<exists>s'. pass s = (Inr True, s') \<and> I s'" and "I s"
  shows "act_loop pass s = None"
proof (cases "act_loop pass s")
  case (Some y)
  have pass: "case pass t of (Inl e, s') \<Rightarrow> False | (Inr again, s') \<Rightarrow> if again then I s' else False"
    if "I t" for t
    using assms(1) [OF that] by auto
  from act_loop_invariant [of pass s y I "\<lambda>_ _. False"] Some assms(2) pass show ?thesis by blast
qed simp

end
