(* ===== verification/Sqlite.thy ===== *)
theory Sqlite
  imports Action
begin

text \<open>
  The SQLite wrapper the capture database uses (\<open>SQLiteCpp/Statement.cpp\<close>,
  \<open>SQLiteCpp/Transaction.cpp\<close>): prepared insert statements with their bindings, and the
  transaction object. The SQLite engine is not in the repository. It is a parameter: the result
  code of a call, as a function of what the engine has executed before and of the call, so that
  the state of the database is the list of the calls that succeeded. What the documentation says
  of a prepared statement is in the wrapper's model: a value cannot be bound to a statement that
  was stepped and not reset (\<open>SQLITE_MISUSE\<close>), nor to a name it does not have
  (\<open>SQLITE_RANGE\<close>), a reset keeps the bindings, and a reset returns the error of the last step.
\<close>

section \<open>Tables and values\<close>

datatype table =
    TableConnection
  | TablePacket
  | TableVote
  | TableBlockState
  | TableBlockSend
  | TableBlockReceive
  | TableBlockOpen
  | TableBlockChange
  | TableKeepaliveHost
  | TableNodeidQuery
  | TableNodeidResponse
  | TableTelemetry
  | TableFrontierRequest
  | TableFrontierResponse
  | TableBulkPullRequest
  | TableBulkPullResponse
  | TableBulkPullAccountRequest
  | TableBulkPullAccountResponse
  | TableBulkPullAccountResponseEntry
  | TableBulkPushEntry
  | TableRuns

text \<open>A text value is a byte string; the model has its characters.\<close>

datatype sql_value = SqlNull | SqlInt int | SqlText string

text \<open>The calls that change the database. An insert has its values in the order of the statement;
  \<open>SqlRun\<close> is the insertion of default values into the table of runs.\<close>

datatype sql_event =
    SqlInsert table "sql_value list"
  | SqlDelete table
  | SqlRun
  | SqlBegin
  | SqlCommit
  | SqlRollback

type_synonym sql_history = "sql_event list"

definition SQLITE_OK :: int where "SQLITE_OK = 0"
definition SQLITE_MISUSE :: int where "SQLITE_MISUSE = 21"
definition SQLITE_RANGE :: int where "SQLITE_RANGE = 25"
definition SQLITE_ROW :: int where "SQLITE_ROW = 100"
definition SQLITE_DONE :: int where "SQLITE_DONE = 101"

lemmas sqlite_codes = SQLITE_OK_def SQLITE_MISUSE_def SQLITE_RANGE_def SQLITE_ROW_def SQLITE_DONE_def

record sqlite_engine =
  sqlite_call :: "sql_history \<Rightarrow> sql_event \<Rightarrow> int"
  sqlite_bytes :: "sql_history \<Rightarrow> int"

section \<open>Prepared statements\<close>

text \<open>The statements of the capture database: the parameters of each insert, in its order.\<close>

fun params :: "table \<Rightarrow> string list" where
  "params TableConnection = [''id'', ''ipv'', ''srcip'', ''srcport'', ''dstip'', ''dstport'', ''flowkey'', ''event'']"
| "params TablePacket = [''id'', ''flow_key'', ''ipv'', ''hdr_msg_type'', ''hdr_version_using'',
     ''hdr_version_min'', ''hdr_block_type'', ''hdr_extensions'', ''content_table'', ''content_id'',
     ''srcip'', ''srcport'', ''dstip'', ''dstport'', ''time'', ''time_usec'']"
| "params TableVote = [''id'', ''packet_id'', ''content_table'', ''content_id'', ''vote_count'', ''vbh'',
     ''account'', ''signature'', ''sequence'', ''hashes'']"
| "params TableBlockState = [''id'', ''packet_id'', ''hash'', ''account'', ''previous'', ''representative'',
     ''balance'', ''link'', ''signature'', ''work'']"
| "params TableBlockSend = [''id'', ''packet_id'', ''hash'', ''previous'', ''destination'', ''balance'',
     ''signature'', ''work'']"
| "params TableBlockReceive = [''id'', ''packet_id'', ''hash'', ''previous'', ''source'', ''signature'', ''work'']"
| "params TableBlockOpen = [''id'', ''packet_id'', ''hash'', ''source'', ''representative'', ''account'',
     ''signature'', ''work'']"
| "params TableBlockChange = [''id'', ''packet_id'', ''hash'', ''previous'', ''representative'',
     ''signature'', ''work'']"
| "params TableKeepaliveHost = [''id'', ''packet_id'', ''address'', ''port'']"
| "params TableNodeidQuery = [''id'', ''packet_id'', ''cookie'']"
| "params TableNodeidResponse = [''id'', ''packet_id'', ''nodeid'', ''nodeid_as_account'', ''signature'']"
| "params TableTelemetry = [''id'', ''packet_id'', ''signature'', ''nodeid'', ''nodeid_as_account'',
     ''blockcount'', ''cementedcount'', ''uncheckedcount'', ''accountcount'', ''bandwidthcap'', ''uptime'',
     ''peercount'', ''protocolversion'', ''genesisblock'', ''majorversion'', ''minorversion'',
     ''patchversion'', ''prereleaseversion'', ''maker'', ''timestamp'', ''activedifficulty'']"
| "params TableFrontierRequest = [''id'', ''packet_id'', ''start'', ''age'', ''count'']"
| "params TableFrontierResponse = [''id'', ''frontier_request_id'', ''account'', ''frontier_hash'']"
| "params TableBulkPullRequest = [''id'', ''packet_id'', ''start'', ''end'', ''extended_count'']"
| "params TableBulkPullResponse = [''id'', ''bulk_pull_request_id'', ''content_id'', ''content_table'']"
| "params TableBulkPullAccountRequest = [''id'', ''packet_id'', ''account'', ''minimum_amount'', ''flags'']"
| "params TableBulkPullAccountResponse = [''id'', ''bulk_pull_account_request_id'', ''frontier_hash'', ''balance'']"
| "params TableBulkPullAccountResponseEntry = [''id'', ''bulk_pull_account_request_id'', ''hash'', ''amount'',
     ''source'']"
| "params TableBulkPushEntry = [''id'', ''packet_id'', ''content_id'', ''content_table'']"
| "params TableRuns = []"

text \<open>The columns the \<open>CREATE TABLE\<close> statements declare \<open>NOT NULL\<close>, by the parameter they take.\<close>

fun not_null :: "table \<Rightarrow> string list" where
  "not_null TableConnection = [''ipv'', ''srcip'', ''srcport'', ''dstip'', ''dstport'', ''flowkey'', ''event'']"
| "not_null TablePacket = [''flow_key'', ''ipv'', ''hdr_msg_type'']"
| "not_null TableKeepaliveHost = [''address'', ''port'']"
| "not_null TableFrontierResponse = [''frontier_request_id'']"
| "not_null TableBulkPullResponse = [''bulk_pull_request_id'', ''content_id'', ''content_table'']"
| "not_null TableBulkPullAccountResponse = [''bulk_pull_account_request_id'']"
| "not_null TableBulkPullAccountResponseEntry = [''bulk_pull_account_request_id'']"
| "not_null TableBulkPushEntry = [''packet_id'', ''content_id'', ''content_table'']"
| "not_null TableRuns = []"
| "not_null _ = [''packet_id'']"

record statement =
  st_binds :: "string \<Rightarrow> sql_value"
  st_stepped :: bool
  st_result :: int
  st_has_row :: bool
  st_done :: bool

definition statement_init :: statement where
  "statement_init = \<lparr>st_binds = (\<lambda>_. SqlNull), st_stepped = False, st_result = SQLITE_OK,
     st_has_row = False, st_done = False\<rparr>"

record db =
  db_next_id :: int
  db_history :: sql_history
  db_stmts :: "table \<Rightarrow> statement"
  db_tx_commited :: bool
  db_count_per_type :: "u64 list"
  db_max_reached :: bool

definition db_stmt_set :: "table \<Rightarrow> statement \<Rightarrow> db \<Rightarrow> db" where
  "db_stmt_set t st d = d\<lparr>db_stmts := (db_stmts d)(t := st)\<rparr>"

definition stmt_bind :: "table \<Rightarrow> string \<Rightarrow> sql_value \<Rightarrow> (db, unit) act" where
  "stmt_bind t apName v d =
     (let st = db_stmts d t
      in if st_stepped st then (Inl (SqliteException SQLITE_MISUSE), d)
         else if apName \<notin> set (params t) then (Inl (SqliteException SQLITE_RANGE), d)
         else (Inr (), db_stmt_set t (st\<lparr>st_binds := (st_binds st)(apName := v)\<rparr>) d))"

definition stmt_clear_bindings :: "table \<Rightarrow> (db, unit) act" where
  "stmt_clear_bindings t d = (Inr (), db_stmt_set t ((db_stmts d t)\<lparr>st_binds := (\<lambda>_. SqlNull)\<rparr>) d)"

text \<open>\<open>tryExecuteStep\<close>: the result code; a row that was inserted is in the history.\<close>

definition stmt_values :: "table \<Rightarrow> statement \<Rightarrow> sql_value list" where
  "stmt_values t st = map (st_binds st) (params t)"

definition stmt_try_execute_step :: "'e sqlite_engine_scheme \<Rightarrow> table \<Rightarrow> db \<Rightarrow> int \<times> db" where
  "stmt_try_execute_step E t d =
     (let st = db_stmts d t
      in if \<not> st_done st then
           (let ret = sqlite_call E (db_history d) (SqlInsert t (stmt_values t st));
                st' = st\<lparr>st_stepped := True, st_result := ret,
                        st_has_row := (ret = SQLITE_ROW), st_done := (ret = SQLITE_DONE)\<rparr>;
                d' = db_stmt_set t st' d
            in (ret, if ret = SQLITE_DONE
                     then d'\<lparr>db_history := db_history d @ [SqlInsert t (stmt_values t st)]\<rparr> else d'))
         else (SQLITE_MISUSE, d))"

definition stmt_exec :: "'e sqlite_engine_scheme \<Rightarrow> table \<Rightarrow> (db, unit) act" where
  "stmt_exec E t d =
     (case stmt_try_execute_step E t d of
        (ret, d') \<Rightarrow>
          if ret \<noteq> SQLITE_DONE then
            (if ret = SQLITE_ROW then (Inl (SqliteException (-1)), d') else (Inl (SqliteException ret), d'))
          else (Inr (), d'))"

definition stmt_reset :: "table \<Rightarrow> (db, unit) act" where
  "stmt_reset t d =
     (let st = db_stmts d t;
          ret = (if \<not> st_stepped st \<or> st_result st = SQLITE_ROW \<or> st_result st = SQLITE_DONE
                 then SQLITE_OK else st_result st);
          d' = db_stmt_set t (st\<lparr>st_has_row := False, st_done := False, st_stepped := False\<rparr>) d
      in if ret = SQLITE_OK then (Inr (), d') else (Inl (SqliteException ret), d'))"

section \<open>Transactions\<close>

text \<open>\<open>Transaction::commit\<close> of the current transaction object.\<close>

definition transaction_commit :: "'e sqlite_engine_scheme \<Rightarrow> (db, unit) act" where
  "transaction_commit E d =
     (if db_tx_commited d then (Inl (SqliteException (-1)), d)
      else (let ret = sqlite_call E (db_history d) SqlCommit
            in if ret = SQLITE_OK
               then (Inr (), d\<lparr>db_history := db_history d @ [SqlCommit], db_tx_commited := True\<rparr>)
               else (Inl (SqliteException ret), d)))"

text \<open>
  A new transaction object replaces the current one: the new one begins, then the old one is
  destroyed, which rolls back what it did not commit and swallows an error of that.
\<close>

definition transaction_new :: "'e sqlite_engine_scheme \<Rightarrow> (db, unit) act" where
  "transaction_new E d =
     (let ret = sqlite_call E (db_history d) SqlBegin
      in if ret \<noteq> SQLITE_OK then (Inl (SqliteException ret), d)
         else
           (let d' = d\<lparr>db_history := db_history d @ [SqlBegin]\<rparr>;
                d'' = (if db_tx_commited d then d'
                       else if sqlite_call E (db_history d') SqlRollback = SQLITE_OK
                            then d'\<lparr>db_history := db_history d' @ [SqlRollback]\<rparr> else d')
            in (Inr (), d''\<lparr>db_tx_commited := False\<rparr>)))"

end
