(* ===== verification/Capture.thy ===== *)
theory Capture
  imports Sqlite NanoMessages
begin

text \<open>
  The data the packet handler and the database share: the configuration of the capture
  (\<open>config.hpp\<close>), a queued packet (\<open>shared.hpp\<close>), the state of a connection
  (\<open>packet_handler.hpp\<close>), and the environment: the calls into code that is not in the
  repository. An environment extends the SQLite engine by what the engine answers to the two
  queries made at start, the text \<open>strftime\<close> makes of a time (none when it does not fit its
  buffer), the text of an IPv6 address, and the operations of \<open>boost::circular_buffer\<close>: adding
  an element to a buffer of some capacity, erasing from its front, and what stands in the memory
  behind the elements that remain after an erasure.
\<close>

record config_capture =
  capture_enabled :: bool
  capture_device_ip :: string
  capture_filter :: string
  capture_max_megabytes :: int
  capture_block_details :: bool
  capture_bootstrap_details :: bool
  capture_connection_details :: bool

definition config_capture_default :: config_capture where
  "config_capture_default = \<lparr>capture_enabled = True, capture_device_ip = '''',
     capture_filter = '''', capture_max_megabytes = 4096, capture_block_details = True,
     capture_bootstrap_details = False, capture_connection_details = True\<rparr>"

record environment = sqlite_engine +
  env_max_run :: "sql_history \<Rightarrow> int"
  env_packets_per_type :: "sql_history \<Rightarrow> (nat \<times> nat) list"
  env_time_text :: "int \<Rightarrow> string option"
  env_address_text :: "bytes \<Rightarrow> string"
  env_push_back :: "nat \<Rightarrow> bytes \<Rightarrow> u8 \<Rightarrow> bytes"
  env_erase_front :: "bytes \<Rightarrow> nat \<Rightarrow> bytes"
  env_beyond :: "bytes \<Rightarrow> nat \<Rightarrow> bytes"

record nano_packet =
  info_src_ip :: string
  info_dst_ip :: string
  info_src_port :: u16
  info_dst_port :: u16
  info_timestamp :: int
  info_timestamp_usec :: int
  info_ip_version :: u8
  info_data :: bytes
  info_side :: int
  info_flow_key :: u32

record tcp_flow_data =
  flow_requesting_side :: u8
  flow_step :: u8
  flow_request_flags :: u8
  flow_current_msg_type :: enum_msgtype_t
  flow_packet_id :: int
  flow_message_id :: int
  flow_response_count :: u64
  flow_invalid_response_count :: u64
  flow_accumulated_data :: bytes

text \<open>\<open>tcp_flow_data::reset\<close>; the constructor is a reset to the invalid message type.\<close>

definition flow_reset :: "enum_msgtype_t \<Rightarrow> tcp_flow_data \<Rightarrow> tcp_flow_data" where
  "flow_reset message_type f =
     f\<lparr>flow_requesting_side := 0, flow_step := 0, flow_packet_id := 0, flow_message_id := 0,
       flow_response_count := 0, flow_invalid_response_count := 0, flow_request_flags := 0,
       flow_current_msg_type := message_type, flow_accumulated_data := []\<rparr>"

definition flow_init :: tcp_flow_data where
  "flow_init = \<lparr>flow_requesting_side = 0, flow_step = 0, flow_request_flags = 0,
     flow_current_msg_type = ENUM_MSGTYPE_INVALID, flow_packet_id = 0, flow_message_id = 0,
     flow_response_count = 0, flow_invalid_response_count = 0, flow_accumulated_data = []\<rparr>"

text \<open>The capacity of the buffer of a connection.\<close>

definition BUFFER_CAPACITY :: nat where "BUFFER_CAPACITY = 4096"

text \<open>What a call of the handler works on: the database and the connection of the packet.\<close>

record cap =
  cap_db :: db
  cap_flow :: tcp_flow_data

definition on_db :: "(db, 'a) act \<Rightarrow> (cap, 'a) act" where
  "on_db = act_zoom cap_db cap_db_update"

definition flow_modify :: "(tcp_flow_data \<Rightarrow> tcp_flow_data) \<Rightarrow> (cap, unit) act" where
  "flow_modify f = act_modify (cap_flow_update f)"

end
