(* ===== verification/NanoUtil.thy ===== *)
theory NanoUtil
  imports NanoBlocks Blake2b
begin

text \<open>
  Text forms of the binary fields (\<open>util/hex.hpp\<close>, \<open>util/nanoutil.cpp\<close>): upper case hex,
  decimal balances, \<open>nano_\<close> account names, and the hashes of the five block kinds. The numbers
  of \<open>boost::multiprecision\<close> are words of their width. The hash is the reference BLAKE2b; the
  SSE2 build computes the same (theory \<open>Blake2bSSE\<close>). The five check bytes are read back as a
  little endian integer, as on the machines the code supports.
\<close>

section \<open>Hex\<close>

definition hex_digit :: "nat \<Rightarrow> char" where
  "hex_digit d = ''0123456789ABCDEF'' ! d"

definition to_hex :: "bytes \<Rightarrow> string" where
  "to_hex str = concat (map (\<lambda>b. [hex_digit (unat b div 16), hex_digit (unat b mod 16)]) str)"

section \<open>Decimal\<close>

definition dec_digit :: "nat \<Rightarrow> char" where
  "dec_digit d = ''0123456789'' ! d"

text \<open>What an output stream prints for a natural number in base ten.\<close>

fun dec_string :: "nat \<Rightarrow> string" where
  "dec_string n = (if n < 10 then [dec_digit n] else dec_string (n div 10) @ [dec_digit (n mod 10)])"

declare dec_string.simps [simp del]

text \<open>\<open>import_bits\<close> reads sixteen bytes; fewer would be read past their end.\<close>

definition balance_to_dec :: "bytes \<Rightarrow> string option" where
  "balance_to_dec balance_raw_bytes =
     (if length balance_raw_bytes < 16 then None
      else (let balance = be_word (take 16 balance_raw_bytes) :: 128 word in Some (dec_string (unat balance))))"

section \<open>Account names\<close>

definition account_lookup :: string where
  "account_lookup = ''13456789abcdefghijkmnopqrstuwxyz''"

definition account_encode :: "u8 \<Rightarrow> char" where
  "account_encode value = account_lookup ! unat value"

definition number :: "bytes \<Rightarrow> 256 word" where
  "number bytes = fst (fold (\<lambda>b (result, shift). (push_bit shift result OR ucast b, 8)) bytes (0, 0))"

primrec account_digits :: "nat \<Rightarrow> 512 word \<Rightarrow> string" where
  "account_digits 0 number_l = []"
| "account_digits (Suc n) number_l =
     account_encode (ucast (number_l AND 0x1f)) # account_digits n (drop_bit 5 number_l)"

text \<open>The digest of the pieces one call of the update function each hashes.\<close>

definition blake2b_digest :: "nat \<Rightarrow> bytes list \<Rightarrow> bytes option" where
  "blake2b_digest outlen pieces =
     (case blake2b_init outlen of
        None \<Rightarrow> None
      | Some S \<Rightarrow> map_option snd (blake2b_final (foldl blake2b_update S pieces) False outlen))"

definition pub_to_account :: "bytes \<Rightarrow> string" where
  "pub_to_account public_bytes =
     (let check = le_word (case blake2b_digest 5 [public_bytes] of None \<Rightarrow> [] | Some d \<Rightarrow> d) :: u64;
          number_l = ucast (number public_bytes) :: 512 word;
          number_l = push_bit 40 number_l;
          number_l = number_l OR ucast check;
          destination_a = account_digits 60 number_l
      in rev (destination_a @ ''_onan''))"

section \<open>Block hashes\<close>

definition hash_of_state :: "block_state_t \<Rightarrow> bytes option" where
  "hash_of_state block =
     (let preamble = (replicate 32 0)[31 := ucast (enum_blocktype_val ENUM_BLOCKTYPE_STATE)]
      in blake2b_digest 32 [preamble, block_state_account block, block_state_previous block,
           block_state_representative block, block_state_balance block, block_state_link block])"

definition hash_of_send :: "block_send_t \<Rightarrow> bytes option" where
  "hash_of_send block =
     blake2b_digest 32 [block_send_previous block, block_send_destination block, block_send_balance block]"

definition hash_of_receive :: "block_receive_t \<Rightarrow> bytes option" where
  "hash_of_receive block = blake2b_digest 32 [block_receive_previous block, block_receive_source block]"

definition hash_of_open :: "block_open_t \<Rightarrow> bytes option" where
  "hash_of_open block =
     blake2b_digest 32 [block_open_source block, block_open_representative block, block_open_account block]"

definition hash_of_change :: "block_change_t \<Rightarrow> bytes option" where
  "hash_of_change block = blake2b_digest 32 [block_change_previous block, block_change_representative block]"

section \<open>What the functions return\<close>

lemma blake2b_digest_hash:
  assumes "0 < n" and "n \<le> 64"
  shows "blake2b_digest n pieces = Some (rfcb_hash n [] (concat pieces))"
proof -
  obtain S where S: "blake2b_init_param (blake2b_seq_param n 0) = Some S"
    by (simp add: blake2b_init_param_def Let_def)
  then have init: "blake2b_init n = Some S" and ok: "blake2b_ok S"
    using assms by (auto simp: blake2b_init_def blake2b_constants blake2b_init_param_ok)
  have "map_option snd (blake2b_final (foldl blake2b_update S pieces) False n) =
      Some (take n (concat (map (le_bytes 8) (rfcb_chain (rfcb_start n 0) 0 (concat pieces)))))"
    using assms(2) S ok
    by (intro blake2b_fresh_hash) (simp_all add: b2b.foldl_update_ok b2b.foldl_update)
  with init show ?thesis by (simp add: blake2b_digest_def rfcb_hash_def)
qed

lemma length_rfcb_F [simp]: "length (rfcb_F h m t lb) = 8"
  by (simp add: rfcb_F_def Let_def)

lemma length_rfcb_hash: "n \<le> 64 \<Longrightarrow> length (rfcb_hash n k m) = n"
  by (simp add: rfcb_hash_def length_concat comp_def sum_list_triv)

lemma hash_of_send_hash: "hash_of_send b = Some (rfcb_hash 32 []
    (block_send_previous b @ block_send_destination b @ block_send_balance b))"
  by (simp add: hash_of_send_def blake2b_digest_hash)

lemma hash_of_receive_hash: "hash_of_receive b = Some (rfcb_hash 32 []
    (block_receive_previous b @ block_receive_source b))"
  by (simp add: hash_of_receive_def blake2b_digest_hash)

lemma hash_of_open_hash: "hash_of_open b = Some (rfcb_hash 32 []
    (block_open_source b @ block_open_representative b @ block_open_account b))"
  by (simp add: hash_of_open_def blake2b_digest_hash)

lemma hash_of_change_hash: "hash_of_change b = Some (rfcb_hash 32 []
    (block_change_previous b @ block_change_representative b))"
  by (simp add: hash_of_change_def blake2b_digest_hash)

lemma hash_of_state_hash: "hash_of_state b = Some (rfcb_hash 32 []
    (replicate 31 0 @ [6] @ block_state_account b @ block_state_previous b @
     block_state_representative b @ block_state_balance b @ block_state_link b))"
proof -
  have "(replicate 32 0)[31 := x] = replicate 31 0 @ [x]" for x :: u8
    by (simp add: numeral_eq_Suc)
  then show ?thesis by (simp add: hash_of_state_def blake2b_digest_hash)
qed

text \<open>C14: every block hash is the 32 byte BLAKE2b hash of the block's hashed fields in order, a
  state block's behind 31 zero bytes and the type tag 6; the hash functions never fail.\<close>

theorem hash_of_is_rfc7693:
  "hash_of_send s = Some (rfcb_hash 32 []
     (block_send_previous s @ block_send_destination s @ block_send_balance s)) \<and>
   hash_of_receive r = Some (rfcb_hash 32 [] (block_receive_previous r @ block_receive_source r)) \<and>
   hash_of_open p = Some (rfcb_hash 32 []
     (block_open_source p @ block_open_representative p @ block_open_account p)) \<and>
   hash_of_change c = Some (rfcb_hash 32 [] (block_change_previous c @ block_change_representative c)) \<and>
   hash_of_state t = Some (rfcb_hash 32 []
     (replicate 31 0 @ [6] @ block_state_account t @ block_state_previous t @
      block_state_representative t @ block_state_balance t @ block_state_link t))"
  by (simp only: hash_of_send_hash hash_of_receive_hash hash_of_open_hash hash_of_change_hash
      hash_of_state_hash)

section \<open>Hex and decimal\<close>

definition hex_value :: "char \<Rightarrow> nat" where
  "hex_value c = (if of_char c \<le> (57 :: nat) then of_char c - 48 else of_char c - 55)"

fun from_hex :: "string \<Rightarrow> bytes" where
  "from_hex (a # b # s) = of_nat (16 * hex_value a + hex_value b) # from_hex s"
| "from_hex _ = []"

lemma hex_value_digit: "d < 16 \<Longrightarrow> hex_value (hex_digit d) = d \<and> hex_digit d \<in> set ''0123456789ABCDEF''"
proof -
  have "\<forall>d \<in> set [0..<16]. hex_value (hex_digit d) = d \<and> hex_digit d \<in> set ''0123456789ABCDEF''"
    by code_simp
  then show "d < 16 \<Longrightarrow> ?thesis" by simp
qed

text \<open>the hex form has two upper case digits for every byte and reads back as the bytes.\<close>

theorem to_hex_reads_back:
  "from_hex (to_hex bs) = bs \<and> length (to_hex bs) = 2 * length bs \<and>
   set (to_hex bs) \<subseteq> set ''0123456789ABCDEF''"
proof (induction bs)
  case Nil
  then show ?case by (simp add: to_hex_def)
next
  case (Cons b bs)
  have "unat b < 256" using unsigned_less [of b, where 'a = nat] by simp
  then have "unat b div 16 < 16" "unat b mod 16 < 16" by simp_all
  note d = hex_value_digit [OF this(1)] hex_value_digit [OF this(2)]
  have "to_hex (b # bs) = hex_digit (unat b div 16) # hex_digit (unat b mod 16) # to_hex bs"
    by (simp add: to_hex_def)
  with d Cons.IH show ?case by simp
qed

definition dec_value :: "string \<Rightarrow> nat" where
  "dec_value s = foldl (\<lambda>v c. 10 * v + (of_char c - 48)) 0 s"

lemma dec_value_snoc: "dec_value (s @ [c]) = 10 * dec_value s + (of_char c - 48)"
  by (simp add: dec_value_def)

lemma dec_digit_value: "d < 10 \<Longrightarrow> of_char (dec_digit d) - 48 = d \<and> (d \<noteq> 0 \<longrightarrow> dec_digit d \<noteq> CHR ''0'')"
proof -
  have "\<forall>d \<in> set [0..<10]. of_char (dec_digit d) - 48 = d \<and> (d \<noteq> 0 \<longrightarrow> dec_digit d \<noteq> CHR ''0'')"
    by code_simp
  then show "d < 10 \<Longrightarrow> ?thesis" by simp
qed

lemma dec_string_value: "dec_value (dec_string n) = n"
  by (induction n rule: dec_string.induct)
    (subst dec_string.simps, auto simp: dec_value_snoc dec_digit_value, simp add: dec_value_def dec_digit_value)

lemma dec_string_head: "dec_string n \<noteq> [] \<and> (n \<noteq> 0 \<longrightarrow> hd (dec_string n) \<noteq> CHR ''0'')"
  by (induction n rule: dec_string.induct)
    (subst dec_string.simps, subst (2) dec_string.simps, auto simp: dec_digit_value)

text \<open>the decimal form of a balance reads back as the big endian integer of its sixteen bytes,
  without a leading zero.\<close>

theorem balance_to_dec_reads_back:
  assumes "length bs = 16"
  shows "\<exists>s. balance_to_dec bs = Some s \<and> dec_value s = unat (be_word bs :: 128 word) \<and>
    (be_word bs \<noteq> (0 :: 128 word) \<longrightarrow> hd s \<noteq> CHR ''0'')"
  using assms by (simp add: balance_to_dec_def Let_def dec_string_value dec_string_head unat_eq_0)

theorem balance_to_dec_reads_back_witness:
  "\<exists>s. balance_to_dec (replicate 15 0 @ [42]) = Some s \<and>
     dec_value s = unat (be_word (replicate 15 0 @ [42]) :: 128 word) \<and>
     (be_word (replicate 15 0 @ [42]) \<noteq> (0 :: 128 word) \<longrightarrow> hd s \<noteq> CHR ''0'')"
  by (rule balance_to_dec_reads_back) simp
section \<open>Account names read back\<close>

definition account_index :: "char \<Rightarrow> nat" where
  "account_index c = length (takeWhile (\<lambda>x. x \<noteq> c) account_lookup)"

definition account_value :: "string \<Rightarrow> nat" where
  "account_value s = foldl (\<lambda>v c. 32 * v + account_index c) 0 s"

definition be_value :: "bytes \<Rightarrow> nat" where
  "be_value bs = foldl (\<lambda>v b. v * 256 + unat b) 0 bs"

lemma account_index_encode:
  "unat (v :: u8) < 32 \<Longrightarrow> account_index (account_encode v) = unat v \<and> account_encode v \<in> set account_lookup"
proof -
  have "\<forall>i \<in> set [0..<32]. account_index (account_lookup ! i) = i \<and> account_lookup ! i \<in> set account_lookup"
    by code_simp
  then show "unat v < 32 \<Longrightarrow> ?thesis" by (simp add: account_encode_def)
qed

lemma low_five_bits: "unat (ucast (x AND 0x1f :: 512 word) :: u8) = unat x mod 32"
proof -
  have "x AND 0x1f = take_bit 5 x" by (simp add: take_bit_eq_mask mask_eq_exp_minus_1)
  then have "unat (x AND 0x1f) = unat x mod 32" by (simp add: take_bit_eq_mod unat_mod_distrib)
  moreover have "unat x mod 32 < 256" by (rule less_trans [OF mod_less_divisor]) simp_all
  ultimately show ?thesis by (simp add: unsigned_ucast_eq take_bit_nat_eq_self_iff)
qed

lemma account_digits_value:
  "account_value (rev (account_digits n x)) = unat x mod 32 ^ n \<and>
   length (account_digits n x) = n \<and> set (account_digits n x) \<subseteq> set account_lookup"
proof (induction n arbitrary: x)
  case 0
  then show ?case by (simp add: account_value_def)
next
  case (Suc n)
  have five: "unat (ucast (x AND 0x1f) :: u8) < 32" by (simp add: low_five_bits)
  have "unat (drop_bit 5 x) = unat x div 32" by (simp add: drop_bit_eq_div unat_div_distrib)
  then have "account_value (rev (account_digits (Suc n) x)) =
      32 * (unat x div 32 mod 32 ^ n) + unat x mod 32"
    using Suc.IH [of "drop_bit 5 x"] account_index_encode [OF five]
    by (simp add: account_value_def low_five_bits)
  also have "\<dots> = unat x mod 32 ^ Suc n" by (simp add: mod_mult2_eq)
  finally show ?case using Suc.IH [of "drop_bit 5 x"] account_index_encode [OF five] by simp
qed

lemma push_or_of_nat:
  assumes "unat (b :: u8) < 2 ^ 8"
  shows "push_bit 8 (of_nat v) OR ucast b = (of_nat (v * 256 + unat b) :: 256 word)"
proof -
  have "push_bit 8 (of_nat v) OR ucast b = push_bit 8 (of_nat v) + (ucast b :: 256 word)"
    by (rule disjunctive_add [symmetric]) (auto simp: bit_push_bit_iff bit_ucast_iff dest: bit_imp_le_length)
  also have "\<dots> = of_nat (v * 256 + unat b)"
    by (simp add: push_bit_eq_mult mult.commute)
  finally show ?thesis .
qed
lemma number_value: "number bs = of_nat (be_value bs)"
proof -
  have "fst (fold (\<lambda>b (r, s). (push_bit s r OR ucast b, 8)) bs (of_nat v, 8)) =
      (of_nat (foldl (\<lambda>v b. v * 256 + unat b) v bs) :: 256 word)" for bs :: bytes and v
  proof (induction bs arbitrary: v)
    case (Cons b bs)
    have "unat b < 2 ^ 8" using unsigned_less [of b, where 'a = nat] by simp
    with Cons.IH [of "v * 256 + unat b"] push_or_of_nat [of b v] show ?case by simp
  qed simp
  from this [of "tl bs" "unat (hd bs)"] show ?thesis
    by (cases bs) (simp_all add: number_def be_value_def)
qed

lemma be_value_snoc: "be_value (bs @ [b]) = be_value bs * 256 + unat b"
  by (simp add: be_value_def)

lemma be_value_less: "be_value bs < 256 ^ length bs"
proof (induction bs rule: rev_induct)
  case (snoc b bs)
  have "unat b < 256" using unsigned_less [of b, where 'a = nat] by simp
  with snoc.IH have "be_value bs * 256 + unat b < 256 ^ length bs * 256" by linarith
  then show ?case by (simp add: be_value_snoc)
qed (simp add: be_value_def)

lemma be_word_value: "be_word bs = (of_nat (be_value bs) :: 256 word)"
proof (induction bs rule: rev_induct)
  case (snoc b bs)
  have "unat b < 2 ^ 8" using unsigned_less [of b, where 'a = nat] by simp
  with snoc.IH push_or_of_nat [of b "be_value bs"] show ?case
    by (simp add: be_word_def be_value_snoc or.commute)
qed (simp add: be_word_def be_value_def)

lemma push_or_word:
  assumes "unat (c :: u64) < 2 ^ 40" and "v < 2 ^ 256"
  shows "unat (push_bit 40 (ucast (of_nat v :: 256 word)) OR ucast c :: 512 word) = v * 2 ^ 40 + unat c"
proof -
  have c: "take_bit 40 c = c" using assms(1) by (simp only: word_unat_eq_iff unsigned_take_bit_eq take_bit_nat_eq_self)
  have "v < 2 ^ 512" using assms(2) by simp
  with assms(2) have v: "ucast (of_nat v :: 256 word) = (of_nat v :: 512 word)"
    by (simp add: word_unat_eq_iff unsigned_ucast_eq unat_of_nat take_bit_nat_eq_self)
  have "push_bit 40 (ucast (of_nat v :: 256 word)) OR ucast c =
      push_bit 40 (ucast (of_nat v :: 256 word)) + (ucast c :: 512 word)"
    by (rule disjunctive_add [symmetric]) (subst c [symmetric], auto simp: bit_push_bit_iff bit_ucast_iff bit_take_bit_iff)
  also have "\<dots> = of_nat (v * 2 ^ 40 + unat c)"
    by (simp only: v) (simp add: push_bit_eq_mult mult.commute)
  finally have eq: "push_bit 40 (ucast (of_nat v :: 256 word)) OR ucast c = (of_nat (v * 2 ^ 40 + unat c) :: 512 word)" .
  have "v * 2 ^ 40 + unat c < 2 ^ 512" using assms by simp
  then show ?thesis unfolding eq by (simp only: unat_of_nat) simp
qed
lemma check_less: "length d = 5 \<Longrightarrow> unat (le_word d :: u64) < 2 ^ 40"
proof -
  assume "length d = 5"
  then have "take_bit 40 (le_word d :: u64) = le_word d"
    by (auto intro!: bit_word_eqI simp: bit_take_bit_iff bit_le_word)
  then have "unat (le_word d :: u64) = take_bit 40 (unat (le_word d :: u64))"
    by (metis unsigned_take_bit_eq)
  also have "\<dots> < 2 ^ 40" by (rule take_bit_nat_less_exp)
  finally show ?thesis .
qed

text \<open>C38: the account name of a 32 byte public key is \<open>nano_\<close> and sixty characters of the base 32
  alphabet, whose value holds the key above a 40 bit check: the name determines the key.\<close>

theorem pub_to_account_reads_back:
  assumes "length key = 32"
  shows "\<exists>s. pub_to_account key = ''nano_'' @ s \<and> length s = 60 \<and> set s \<subseteq> set account_lookup \<and>
    be_bytes 32 (of_nat (account_value s div 2 ^ 40) :: 256 word) = key \<and>
    account_value s mod 2 ^ 40 = unat (le_word (rfcb_hash 5 [] key) :: u64)"
proof -
  define check where "check = (le_word (rfcb_hash 5 [] key) :: u64)"
  define N where "N = (push_bit 40 (ucast (number key)) OR ucast check :: 512 word)"
  have check: "unat check < 2 ^ 40" by (simp only: check_def check_less length_rfcb_hash)
  have key: "be_value key < 2 ^ 256" using be_value_less [of key] assms by simp
  have N: "unat N = be_value key * 2 ^ 40 + unat check"
    unfolding N_def number_value by (rule push_or_word [OF check key])
  with check key have "unat N < 32 ^ 60" by simp
  with account_digits_value [of 60 N] N
  have val: "account_value (rev (account_digits 60 N)) = be_value key * 2 ^ 40 + unat check" by simp
  have "pub_to_account key = ''nano_'' @ rev (account_digits 60 N)"
    by (simp add: pub_to_account_def Let_def blake2b_digest_hash check_def N_def)
  moreover have "be_bytes 32 (of_nat (be_value key) :: 256 word) = key"
    using be_bytes_be_word [of key, where 'a = 256] assms by (simp add: be_word_value)
  moreover have "account_value (rev (account_digits 60 N)) div 2 ^ 40 = be_value key"
    "account_value (rev (account_digits 60 N)) mod 2 ^ 40 = unat check"
    unfolding val using check by simp_all
  moreover have "length (rev (account_digits 60 N)) = 60"
    "set (rev (account_digits 60 N)) \<subseteq> set account_lookup"
    using account_digits_value [of 60 N] by simp_all
  ultimately show ?thesis unfolding check_def by metis
qed

theorem pub_to_account_reads_back_witness:
  "\<exists>s. pub_to_account (replicate 32 7) = ''nano_'' @ s \<and> length s = 60 \<and> set s \<subseteq> set account_lookup \<and>
    be_bytes 32 (of_nat (account_value s div 2 ^ 40) :: 256 word) = replicate 32 7 \<and>
    account_value s mod 2 ^ 40 = unat (le_word (rfcb_hash 5 [] (replicate 32 7)) :: u64)"
  by (rule pub_to_account_reads_back) simp

end
