(* ===== verification/Db.thy ===== *)
theory Db
  imports Capture NanoUtil
begin

text \<open>
  The capture database (\<open>db.hpp\<close>, \<open>db.cpp\<close>). Each method is an action on the state of the
  database object, and of the connection where the method works on \<open>info.flow_data\<close>. Methods
  hold the mutex of the database while they run, so an action stands for one call. \<open>next_id\<close>
  is an integer: it starts at a multiple of a billion and grows by one for every row, so it does
  not come near the end of 64 bits.
\<close>

section \<open>Start, flush and removal\<close>

definition db_fetch_add :: "(db, int) act" where
  "db_fetch_add d = (Inr (db_next_id d), d\<lparr>db_next_id := db_next_id d + 1\<rparr>)"

definition flush_internal :: "'e sqlite_engine_scheme \<Rightarrow> (db, unit) act" where
  "flush_internal E = act_seq [transaction_commit E, transaction_new E]"

text \<open>\<open>Database::exec\<close> of one statement.\<close>

definition db_exec :: "'e sqlite_engine_scheme \<Rightarrow> sql_event \<Rightarrow> (db, unit) act" where
  "db_exec E ev d =
     (let ret = sqlite_call E (db_history d) ev
      in if ret = SQLITE_OK then (Inr (), d\<lparr>db_history := db_history d @ [ev]\<rparr>)
         else (Inl (SqliteException ret), d))"

text \<open>\<open>tables\<close>: the names the query over \<open>sqlite_master\<close> returns, without \<open>sqlite_sequence\<close>.\<close>

definition destroy_capture_data :: "'e sqlite_engine_scheme \<Rightarrow> table list \<Rightarrow> (db, unit) act" where
  "destroy_capture_data E tables =
     act_seq [act_seq (map (\<lambda>t. act_seq [db_exec E (SqlDelete t), flush_internal E]) tables),
       db_exec E SqlRun,
       flush_internal E,
       act_modify (db_count_per_type_update (\<lambda>_. replicate 32 0))]"

text \<open>\<open>count_per_type\<close> is an array of 32 counters; an index past its end is undefined.\<close>

definition set_count :: "nat \<Rightarrow> u64 \<Rightarrow> (db, unit) act" where
  "set_count i n d =
     (if i < 32 then (Inr (), d\<lparr>db_count_per_type := (db_count_per_type d)[i := n]\<rparr>)
      else (Inl Undefined, d))"

definition init_packets_per_type_from_database :: "environment \<Rightarrow> (db, unit) act" where
  "init_packets_per_type_from_database E d =
     act_seq (map (\<lambda>(count, msg_type). set_count msg_type (of_nat count))
       (env_packets_per_type E (db_history d))) d"

text \<open>The constructor on a database file with a history, the schema being in place.\<close>

definition db_start :: "sql_history \<Rightarrow> db" where
  "db_start history = \<lparr>db_next_id = 0, db_history = history, db_stmts = (\<lambda>_. statement_init),
     db_tx_commited = True, db_count_per_type = replicate 32 0, db_max_reached = False\<rparr>"

definition db_init :: "environment \<Rightarrow> (db, unit) act" where
  "db_init E =
     act_seq [db_exec E SqlRun,
       act_modify (\<lambda>d. d\<lparr>db_next_id := 1000000000 * env_max_run E (db_history d)\<rparr>),
       transaction_new E,
       init_packets_per_type_from_database E]"

section \<open>Binding\<close>

definition sbinds :: "table \<Rightarrow> (string \<times> sql_value) list \<Rightarrow> (db, unit) act" where
  "sbinds t ps = act_seq (map (\<lambda>(apName, v). stmt_bind t apName v) ps)"

text \<open>Binding, executing and resetting a statement that has a row of its own.\<close>

definition insert_row :: "'e sqlite_engine_scheme \<Rightarrow> table \<Rightarrow> (string \<times> sql_value) list \<Rightarrow> (db, unit) act" where
  "insert_row E t ps = act_seq [sbinds t ps, stmt_exec E t, stmt_reset t]"

definition text_of_bytes :: "bytes \<Rightarrow> string" where
  "text_of_bytes bs = map (\<lambda>b. char_of (unat b)) bs"

text \<open>\<open>static_cast<int64_t>\<close> of an unsigned integer of 64 bits.\<close>

definition sql_int64 :: "u64 \<Rightarrow> sql_value" where
  "sql_int64 w = SqlInt (sint w)"

definition sql_uint :: "'a::len word \<Rightarrow> sql_value" where
  "sql_uint w = SqlInt (uint w)"

text \<open>The periodic commit and the check of the size, when the next id is a multiple of 10000.\<close>

definition check_size :: "environment \<Rightarrow> config_capture \<Rightarrow> (db, unit) act" where
  "check_size E C =
     act_bind (act_get db_next_id) (\<lambda>next_id.
     act_when (next_id mod 10000 = 0)
       (act_seq [transaction_commit E, transaction_new E,
          act_bind (act_get (\<lambda>d. sqlite_bytes E (db_history d))) (\<lambda>size_bytes.
          act_when (size_bytes > capture_max_megabytes C * 1024 * 1024)
            (act_modify (db_max_reached_update (\<lambda>_. True))))]))"

definition bind_header_fields :: "environment \<Rightarrow> config_capture \<Rightarrow> message_header_t \<Rightarrow> int \<Rightarrow> (db, unit) act" where
  "bind_header_fields E C h packet_id =
     act_seq [check_size E C,
       stmt_clear_bindings TablePacket,
       sbinds TablePacket [(''id'', SqlInt packet_id),
         (''hdr_msg_type'', sql_uint (enum_msgtype_val (hdr_message_type h))),
         (''hdr_version_using'', sql_uint (hdr_version_using h)),
         (''hdr_version_min'', sql_uint (hdr_version_min h)),
         (''hdr_block_type'', SqlInt (sint (enum_blocktype_val (hdr_block_type h)))),
         (''hdr_extensions'', sql_uint (hdr_extensions h)),
         (''content_table'', SqlNull),
         (''content_id'', SqlNull)],
       act_bind (act_get db_count_per_type) (\<lambda>count_per_type.
         let i = unat (enum_msgtype_val (hdr_message_type h))
         in set_count i (count_per_type ! i + 1))]"

definition bind_packet_fields :: "environment \<Rightarrow> nano_packet \<Rightarrow> (db, unit) act" where
  "bind_packet_fields E info =
     act_seq [sbinds TablePacket [(''srcip'', SqlText (info_src_ip info)),
         (''srcport'', sql_uint (info_src_port info)),
         (''dstip'', SqlText (info_dst_ip info)),
         (''dstport'', sql_uint (info_dst_port info)),
         (''time_usec'', SqlInt (info_timestamp_usec info)),
         (''flow_key'', sql_uint (info_flow_key info)),
         (''ipv'', sql_uint (info_ip_version info))],
       (case env_time_text E (info_timestamp info) of
          None \<Rightarrow> act_return ()
        | Some time \<Rightarrow> stmt_bind TablePacket ''time'' (SqlText time))]"

section \<open>Connections\<close>

definition put_connection :: "environment \<Rightarrow> int \<Rightarrow> string \<Rightarrow> u16 \<Rightarrow> string \<Rightarrow> u16 \<Rightarrow> u32 \<Rightarrow> string \<Rightarrow> (db, unit) act" where
  "put_connection E ipVersion srcip srcport dstip dstport flow_key event =
     act_bind db_fetch_add (\<lambda>id.
     insert_row E TableConnection [(''id'', SqlInt id), (''ipv'', SqlInt ipVersion),
       (''srcip'', SqlText srcip), (''srcport'', sql_uint srcport), (''dstip'', SqlText dstip),
       (''dstport'', sql_uint dstport), (''flowkey'', sql_uint flow_key), (''event'', SqlText event)])"

text \<open>The call with the addresses of a packet.\<close>

definition put_connection_of :: "environment \<Rightarrow> nano_packet \<Rightarrow> string \<Rightarrow> (db, unit) act" where
  "put_connection_of E info event =
     put_connection E (uint (info_ip_version info)) (info_src_ip info) (info_src_port info)
       (info_dst_ip info) (info_dst_port info) (info_flow_key info) event"
section \<open>Blocks\<close>

definition put_block_state :: "environment \<Rightarrow> block_state_t \<Rightarrow> int \<Rightarrow> int \<Rightarrow> (db, unit) act" where
  "put_block_state E block row_id packet_id =
     act_bind (act_the (hash_of_state block)) (\<lambda>hash.
     act_bind (act_the (balance_to_dec (block_state_balance block))) (\<lambda>balance.
     insert_row E TableBlockState [(''id'', SqlInt row_id), (''packet_id'', SqlInt packet_id),
       (''hash'', SqlText (to_hex hash)),
       (''account'', SqlText (pub_to_account (block_state_account block))),
       (''previous'', SqlText (to_hex (block_state_previous block))),
       (''representative'', SqlText (pub_to_account (block_state_representative block))),
       (''balance'', SqlText balance),
       (''link'', SqlText (to_hex (block_state_link block))),
       (''signature'', SqlText (to_hex (block_state_signature block))),
       (''work'', sql_int64 (block_state_work block))]))"

definition put_block_send :: "environment \<Rightarrow> block_send_t \<Rightarrow> int \<Rightarrow> int \<Rightarrow> (db, unit) act" where
  "put_block_send E block row_id packet_id =
     act_bind (act_the (hash_of_send block)) (\<lambda>hash.
     act_bind (act_the (balance_to_dec (block_send_balance block))) (\<lambda>balance.
     insert_row E TableBlockSend [(''id'', SqlInt row_id), (''packet_id'', SqlInt packet_id),
       (''hash'', SqlText (to_hex hash)),
       (''previous'', SqlText (to_hex (block_send_previous block))),
       (''destination'', SqlText (pub_to_account (block_send_destination block))),
       (''balance'', SqlText balance),
       (''signature'', SqlText (to_hex (block_send_signature block))),
       (''work'', sql_int64 (block_send_work block))]))"

definition put_block_receive :: "environment \<Rightarrow> block_receive_t \<Rightarrow> int \<Rightarrow> int \<Rightarrow> (db, unit) act" where
  "put_block_receive E block row_id packet_id =
     act_bind (act_the (hash_of_receive block)) (\<lambda>hash.
     insert_row E TableBlockReceive [(''id'', SqlInt row_id), (''packet_id'', SqlInt packet_id),
       (''hash'', SqlText (to_hex hash)),
       (''previous'', SqlText (to_hex (block_receive_previous block))),
       (''source'', SqlText (to_hex (block_receive_source block))),
       (''signature'', SqlText (to_hex (block_receive_signature block))),
       (''work'', sql_int64 (block_receive_work block))])"

definition put_block_open :: "environment \<Rightarrow> block_open_t \<Rightarrow> int \<Rightarrow> int \<Rightarrow> (db, unit) act" where
  "put_block_open E block row_id packet_id =
     act_bind (act_the (hash_of_open block)) (\<lambda>hash.
     insert_row E TableBlockOpen [(''id'', SqlInt row_id), (''packet_id'', SqlInt packet_id),
       (''hash'', SqlText (to_hex hash)),
       (''source'', SqlText (to_hex (block_open_source block))),
       (''representative'', SqlText (pub_to_account (block_open_representative block))),
       (''account'', SqlText (pub_to_account (block_open_account block))),
       (''signature'', SqlText (to_hex (block_open_signature block))),
       (''work'', sql_int64 (block_open_work block))])"

definition put_block_change :: "environment \<Rightarrow> block_change_t \<Rightarrow> int \<Rightarrow> int \<Rightarrow> (db, unit) act" where
  "put_block_change E block row_id packet_id =
     act_bind (act_the (hash_of_change block)) (\<lambda>hash.
     insert_row E TableBlockChange [(''id'', SqlInt row_id), (''packet_id'', SqlInt packet_id),
       (''hash'', SqlText (to_hex hash)),
       (''previous'', SqlText (to_hex (block_change_previous block))),
       (''representative'', SqlText (pub_to_account (block_change_representative block))),
       (''signature'', SqlText (to_hex (block_change_signature block))),
       (''work'', sql_int64 (block_change_work block))])"

text \<open>
  \<open>put_block\<close> returns the string \<open>content_table\<close> that the caller passes by reference, empty
  before the call. A cast of the block to a class it is not an object of is undefined.
\<close>

definition put_block_kind :: "environment \<Rightarrow> block_selector_t \<Rightarrow> int \<Rightarrow> int \<Rightarrow> (db, string) act" where
  "put_block_kind E sel row_id packet_id =
     (let named = (\<lambda>m content_table. act_bind m (\<lambda>_. act_return content_table))
      in case enum_blocktype_of (ucast (sel_arg_block_type sel)) of
           ENUM_BLOCKTYPE_STATE \<Rightarrow>
             (case sel_block sel of
                BlockState b \<Rightarrow> named (put_block_state E b row_id packet_id) ''block_state''
              | _ \<Rightarrow> act_throw Undefined)
         | ENUM_BLOCKTYPE_SEND \<Rightarrow>
             (case sel_block sel of
                BlockSend b \<Rightarrow> named (put_block_send E b row_id packet_id) ''block_send''
              | _ \<Rightarrow> act_throw Undefined)
         | ENUM_BLOCKTYPE_RECEIVE \<Rightarrow>
             (case sel_block sel of
                BlockReceive b \<Rightarrow> named (put_block_receive E b row_id packet_id) ''block_receive''
              | _ \<Rightarrow> act_throw Undefined)
         | ENUM_BLOCKTYPE_OPEN \<Rightarrow>
             (case sel_block sel of
                BlockOpen b \<Rightarrow> named (put_block_open E b row_id packet_id) ''block_open''
              | _ \<Rightarrow> act_throw Undefined)
         | ENUM_BLOCKTYPE_CHANGE \<Rightarrow>
             (case sel_block sel of
                BlockChange b \<Rightarrow> named (put_block_change E b row_id packet_id) ''block_change''
              | _ \<Rightarrow> act_throw Undefined)
         | _ \<Rightarrow> act_return [])"

definition put_block :: "environment \<Rightarrow> config_capture \<Rightarrow> block_selector_t option \<Rightarrow> int \<Rightarrow> int \<Rightarrow> (db, string) act" where
  "put_block E C block_selector row_id packet_id =
     (if capture_block_details C then
        (case block_selector of
           None \<Rightarrow> act_return []
         | Some sel \<Rightarrow> put_block_kind E sel row_id packet_id)
      else act_return [])"

section \<open>Messages without a connection state\<close>

text \<open>The packet row every message starts with, and the insertion of it at once.\<close>

definition bind_packet :: "environment \<Rightarrow> config_capture \<Rightarrow> message_header_t \<Rightarrow> nano_packet \<Rightarrow> int \<Rightarrow> (db, unit) act" where
  "bind_packet E C h info packet_id =
     act_seq [bind_header_fields E C h packet_id, bind_packet_fields E info]"

definition put_telemetry_req :: "environment \<Rightarrow> config_capture \<Rightarrow> message_header_t \<Rightarrow> nano_packet \<Rightarrow> (db, unit) act" where
  "put_telemetry_req E C h info =
     act_bind db_fetch_add (\<lambda>packet_id.
     act_seq [bind_packet E C h info packet_id, stmt_exec E TablePacket, stmt_reset TablePacket])"

definition put_telemetry_ack :: "environment \<Rightarrow> config_capture \<Rightarrow> message_header_t \<Rightarrow> msg_telemetry_ack_t \<Rightarrow> nano_packet \<Rightarrow> (db, unit) act" where
  "put_telemetry_ack E C h m info =
     act_bind db_fetch_add (\<lambda>packet_id.
     act_seq [bind_packet E C h info packet_id, stmt_exec E TablePacket,
       act_bind db_fetch_add (\<lambda>row_id.
       insert_row E TableTelemetry [(''id'', SqlInt row_id), (''packet_id'', SqlInt packet_id),
         (''signature'', SqlText (to_hex (telemetry_ack_signature m))),
         (''nodeid'', SqlText (to_hex (telemetry_ack_nodeid m))),
         (''nodeid_as_account'', SqlText (pub_to_account (telemetry_ack_nodeid m))),
         (''blockcount'', sql_int64 (telemetry_ack_blockcount m)),
         (''cementedcount'', sql_int64 (telemetry_ack_cementedcount m)),
         (''uncheckedcount'', sql_int64 (telemetry_ack_uncheckedcount m)),
         (''accountcount'', sql_int64 (telemetry_ack_accountcount m)),
         (''bandwidthcap'', sql_int64 (telemetry_ack_bandwidthcap m)),
         (''uptime'', sql_int64 (telemetry_ack_uptime m)),
         (''peercount'', sql_uint (telemetry_ack_peercount m)),
         (''protocolversion'', sql_uint (telemetry_ack_protocolversion m)),
         (''genesisblock'', SqlText (to_hex (telemetry_ack_genesisblock m))),
         (''majorversion'', sql_uint (telemetry_ack_majorversion m)),
         (''minorversion'', sql_uint (telemetry_ack_minorversion m)),
         (''patchversion'', sql_uint (telemetry_ack_patchversion m)),
         (''prereleaseversion'', sql_uint (telemetry_ack_prereleaseversion m)),
         (''maker'', sql_uint (telemetry_ack_maker m)),
         (''timestamp'', sql_int64 (telemetry_ack_timestamp m)),
         (''activedifficulty'', sql_int64 (telemetry_ack_activedifficulty m))]),
       stmt_reset TablePacket])"

definition put_keepalive_host :: "environment \<Rightarrow> int \<Rightarrow> peer_t \<Rightarrow> (db, unit) act" where
  "put_keepalive_host E packet_id peer =
     act_bind db_fetch_add (\<lambda>row_id.
     insert_row E TableKeepaliveHost [(''id'', SqlInt row_id), (''packet_id'', SqlInt packet_id),
       (''address'', SqlText (env_address_text E (peer_address peer))),
       (''port'', sql_uint (peer_port peer))])"

definition put_keepalive :: "environment \<Rightarrow> config_capture \<Rightarrow> message_header_t \<Rightarrow> msg_keepalive_t \<Rightarrow> nano_packet \<Rightarrow> (db, unit) act" where
  "put_keepalive E C h m info =
     act_bind db_fetch_add (\<lambda>packet_id.
     act_seq [bind_packet E C h info packet_id, stmt_exec E TablePacket,
       (case keepalive_peers m of
          None \<Rightarrow> act_return ()
        | Some peers \<Rightarrow> act_seq (map (put_keepalive_host E packet_id) peers)),
       stmt_reset TablePacket])"

text \<open>The comma separated hashes of a vote.\<close>

fun vote_hashes_text :: "bytes list \<Rightarrow> string" where
  "vote_hashes_text [] = []"
| "vote_hashes_text [hash] = to_hex hash"
| "vote_hashes_text (hash # hashes) = to_hex hash @ '','' @ vote_hashes_text hashes"
text \<open>The bindings of the three kinds of a vote: for a block, by hash, and malformed.\<close>

definition bind_vote :: "environment \<Rightarrow> config_capture \<Rightarrow> msg_confirm_ack_t \<Rightarrow> int \<Rightarrow> (db, unit) act" where
  "bind_vote E C m packet_id =
     (case confirm_ack_block m of
        Some block \<Rightarrow>
          act_bind db_fetch_add (\<lambda>block_content_id.
          act_bind (put_block E C (Some block) block_content_id packet_id) (\<lambda>content_table.
          sbinds TableVote [(''content_id'', SqlInt block_content_id),
            (''content_table'', SqlText content_table),
            (''vote_count'', SqlInt 1), (''vbh'', SqlInt 0)]))
      | None \<Rightarrow>
          (case Option.bind (confirm_ack_votebyhash m) vote_hashes of
             Some (hash # hashes) \<Rightarrow>
               sbinds TableVote [(''vbh'', SqlInt 1),
                 (''vote_count'', SqlInt (int (length (hash # hashes)))),
                 (''hashes'', SqlText (vote_hashes_text (hash # hashes)))]
           | _ \<Rightarrow> sbinds TableVote [(''vbh'', SqlInt 2), (''vote_count'', SqlInt 0)]))"

text \<open>The first part of a vote is read with every vote, so \<open>common ()\<close> is not null.\<close>

definition put_confirm_ack :: "environment \<Rightarrow> config_capture \<Rightarrow> message_header_t \<Rightarrow> msg_confirm_ack_t \<Rightarrow> nano_packet \<Rightarrow> (db, unit) act" where
  "put_confirm_ack E C h m info =
     act_bind db_fetch_add (\<lambda>packet_id.
     act_seq [bind_packet E C h info packet_id,
       bind_vote E C m packet_id,
       sbinds TableVote
         [(''account'', SqlText (pub_to_account (vote_common_account (confirm_ack_common m)))),
          (''signature'', SqlText (to_hex (vote_common_signature (confirm_ack_common m)))),
          (''sequence'', sql_int64 (vote_common_sequence (confirm_ack_common m)))],
       act_bind db_fetch_add (\<lambda>vote_content_id.
       act_seq [insert_row E TableVote [(''id'', SqlInt vote_content_id), (''packet_id'', SqlInt packet_id)],
         sbinds TablePacket [(''content_id'', SqlInt vote_content_id), (''content_table'', SqlText ''vote'')],
         stmt_exec E TablePacket,
         stmt_reset TablePacket])])"

text \<open>A packet with a block as its content: \<open>confirm_req\<close> and \<open>publish\<close>.\<close>

definition put_block_content :: "environment \<Rightarrow> config_capture \<Rightarrow> message_header_t \<Rightarrow> block_selector_t option \<Rightarrow> nano_packet \<Rightarrow> (db, unit) act" where
  "put_block_content E C h block info =
     act_bind db_fetch_add (\<lambda>packet_id.
     act_seq [bind_packet E C h info packet_id,
       act_bind db_fetch_add (\<lambda>content_id.
       act_bind (put_block E C block content_id packet_id) (\<lambda>content_table.
       act_seq [sbinds TablePacket [(''content_id'', SqlInt content_id),
           (''content_table'', SqlText content_table)],
         stmt_exec E TablePacket,
         stmt_reset TablePacket]))])"

definition put_confirm_req :: "environment \<Rightarrow> config_capture \<Rightarrow> message_header_t \<Rightarrow> msg_confirm_req_t \<Rightarrow> nano_packet \<Rightarrow> (db, unit) act" where
  "put_confirm_req E C h m info = put_block_content E C h (confirm_req_block m) info"

definition put_publish :: "environment \<Rightarrow> config_capture \<Rightarrow> message_header_t \<Rightarrow> msg_publish_t \<Rightarrow> nano_packet \<Rightarrow> (db, unit) act" where
  "put_publish E C h m info = put_block_content E C h (Some (publish_body m)) info"

definition put_node_id_handshake :: "environment \<Rightarrow> config_capture \<Rightarrow> message_header_t \<Rightarrow> msg_node_id_handshake_t \<Rightarrow> nano_packet \<Rightarrow> (db, unit) act" where
  "put_node_id_handshake E C h m info =
     act_bind db_fetch_add (\<lambda>packet_id.
     act_seq [bind_packet E C h info packet_id, stmt_exec E TablePacket,
       (case handshake_query m of
          None \<Rightarrow> act_return ()
        | Some query \<Rightarrow>
            act_bind db_fetch_add (\<lambda>row_id.
            insert_row E TableNodeidQuery [(''id'', SqlInt row_id), (''packet_id'', SqlInt packet_id),
              (''cookie'', SqlText (to_hex (node_id_query_cookie query)))])),
       (case handshake_response m of
          None \<Rightarrow> act_return ()
        | Some response \<Rightarrow>
            act_bind db_fetch_add (\<lambda>row_id.
            insert_row E TableNodeidResponse [(''id'', SqlInt row_id), (''packet_id'', SqlInt packet_id),
              (''nodeid'', SqlText (to_hex (node_id_response_account response))),
              (''nodeid_as_account'', SqlText (pub_to_account (node_id_response_account response))),
              (''signature'', SqlText (to_hex (node_id_response_signature response)))])),
       stmt_reset TablePacket])"

section \<open>Messages that start a stream on a connection\<close>

text \<open>\<open>info.flow_data->packet_id = next_id.fetch_add (1)\<close>, and the same for \<open>message_id\<close>.\<close>

definition new_packet_id :: "(cap, int) act" where
  "new_packet_id =
     act_bind (on_db db_fetch_add) (\<lambda>i.
     act_bind (flow_modify (flow_packet_id_update (\<lambda>_. i))) (\<lambda>_. act_return i))"

definition new_message_id :: "(cap, int) act" where
  "new_message_id =
     act_bind (on_db db_fetch_add) (\<lambda>i.
     act_bind (flow_modify (flow_message_id_update (\<lambda>_. i))) (\<lambda>_. act_return i))"

definition put_frontier_req :: "environment \<Rightarrow> config_capture \<Rightarrow> message_header_t \<Rightarrow> msg_frontier_req_t \<Rightarrow> nano_packet \<Rightarrow> (cap, unit) act" where
  "put_frontier_req E C h m info =
     act_bind new_packet_id (\<lambda>packet_id.
     act_seq [on_db (bind_packet E C h info packet_id), on_db (stmt_exec E TablePacket),
       act_bind new_message_id (\<lambda>message_id.
       on_db (insert_row E TableFrontierRequest [(''id'', SqlInt message_id), (''packet_id'', SqlInt packet_id),
         (''start'', SqlText (text_of_bytes (frontier_req_start m))),
         (''age'', sql_uint (frontier_req_age m)),
         (''count'', sql_uint (frontier_req_count m))])),
       on_db (stmt_reset TablePacket)])"

definition put_bulk_pull :: "environment \<Rightarrow> config_capture \<Rightarrow> message_header_t \<Rightarrow> msg_bulk_pull_t \<Rightarrow> nano_packet \<Rightarrow> (cap, unit) act" where
  "put_bulk_pull E C h m info =
     act_bind new_packet_id (\<lambda>packet_id.
     act_seq [on_db (bind_packet E C h info packet_id), on_db (stmt_exec E TablePacket),
       act_bind new_message_id (\<lambda>message_id.
       on_db (insert_row E TableBulkPullRequest [(''id'', SqlInt message_id), (''packet_id'', SqlInt packet_id),
         (''start'', SqlText (pub_to_account (bulk_pull_start m))),
         (''end'', SqlText (pub_to_account (bulk_pull_end m))),
         (''extended_count'',
            (case bulk_pull_extended m of Some x \<Rightarrow> sql_uint (extended_count x) | None \<Rightarrow> SqlInt 0))])),
       on_db (stmt_reset TablePacket)])"

definition put_bulk_push :: "environment \<Rightarrow> config_capture \<Rightarrow> message_header_t \<Rightarrow> nano_packet \<Rightarrow> (cap, unit) act" where
  "put_bulk_push E C h info =
     act_bind new_packet_id (\<lambda>packet_id.
     act_seq [on_db (bind_packet E C h info packet_id), on_db (stmt_exec E TablePacket),
       on_db (stmt_reset TablePacket)])"

definition put_bulk_pull_account :: "environment \<Rightarrow> config_capture \<Rightarrow> message_header_t \<Rightarrow> msg_bulk_pull_account_t \<Rightarrow> nano_packet \<Rightarrow> (cap, unit) act" where
  "put_bulk_pull_account E C h m info =
     act_bind new_packet_id (\<lambda>packet_id.
     act_bind new_message_id (\<lambda>message_id.
     act_seq [on_db (bind_packet E C h info packet_id), on_db (stmt_exec E TablePacket),
       act_bind (act_the (balance_to_dec (bulk_pull_account_minimum_amount m))) (\<lambda>minimum_amount.
       on_db (insert_row E TableBulkPullAccountRequest [(''id'', SqlInt message_id),
         (''packet_id'', SqlInt packet_id),
         (''account'', SqlText (pub_to_account (bulk_pull_account_account m))),
         (''minimum_amount'', SqlText minimum_amount),
         (''flags'', sql_uint (enum_bulk_pull_account_val (bulk_pull_account_flags m)))])),
       on_db (stmt_reset TablePacket)]))"

section \<open>Entries of the response streams\<close>

definition put_frontier_entry :: "environment \<Rightarrow> frontier_entry_t \<Rightarrow> (cap, unit) act" where
  "put_frontier_entry E entry =
     act_bind (on_db db_fetch_add) (\<lambda>row_id.
     act_bind (act_get (\<lambda>c. flow_message_id (cap_flow c))) (\<lambda>message_id.
     on_db (insert_row E TableFrontierResponse [(''id'', SqlInt row_id),
       (''frontier_request_id'', SqlInt message_id),
       (''account'', SqlText (pub_to_account (frontier_entry_account entry))),
       (''frontier_hash'', SqlText (to_hex (frontier_entry_frontier_hash entry)))])))"

text \<open>
  The entry of a stream of blocks: \<open>request\<close> and \<open>owner\<close> are the column and the id it belongs
  to. The first entry without a block of a known kind is noted as an event of the connection.
\<close>

definition put_block_entry :: "environment \<Rightarrow> config_capture \<Rightarrow> table \<Rightarrow> string \<Rightarrow> (tcp_flow_data \<Rightarrow> int) \<Rightarrow> string \<Rightarrow> bulk_entry_t \<Rightarrow> nano_packet \<Rightarrow> (cap, unit) act" where
  "put_block_entry E C t request owner event entry info =
     act_bind (on_db db_fetch_add) (\<lambda>block_content_id.
     act_bind (act_get cap_flow) (\<lambda>f.
     act_bind (on_db (put_block E C (Some (entry_block entry)) block_content_id (flow_packet_id f)))
       (\<lambda>content_table.
     if content_table \<noteq> [] then
       act_bind (on_db db_fetch_add) (\<lambda>row_id.
       on_db (insert_row E t [(''id'', SqlInt row_id), (request, SqlInt (owner f)),
         (''content_id'', SqlInt block_content_id), (''content_table'', SqlText content_table)]))
     else
       act_seq [flow_modify (\<lambda>f. f\<lparr>flow_invalid_response_count := flow_invalid_response_count f + 1\<rparr>),
         act_bind (act_get (\<lambda>c. flow_invalid_response_count (cap_flow c))) (\<lambda>n.
         act_when (n = 1) (on_db (put_connection_of E info event)))])))"

definition put_bulk_pull_entry :: "environment \<Rightarrow> config_capture \<Rightarrow> bulk_entry_t \<Rightarrow> nano_packet \<Rightarrow> (cap, unit) act" where
  "put_bulk_pull_entry E C =
     put_block_entry E C TableBulkPullResponse ''bulk_pull_request_id'' flow_message_id
       ''first invalid bulk_pull response''"

definition put_bulk_push_entry :: "environment \<Rightarrow> config_capture \<Rightarrow> bulk_entry_t \<Rightarrow> nano_packet \<Rightarrow> (cap, unit) act" where
  "put_bulk_push_entry E C =
     put_block_entry E C TableBulkPushEntry ''packet_id'' flow_packet_id
       ''first invalid bulk_push entry''"

definition put_frontier_balance :: "environment \<Rightarrow> frontier_balance_entry_t \<Rightarrow> (cap, unit) act" where
  "put_frontier_balance E entry =
     act_bind (on_db db_fetch_add) (\<lambda>row_id.
     act_bind (act_get (\<lambda>c. flow_message_id (cap_flow c))) (\<lambda>message_id.
     act_bind (act_the (balance_to_dec (frontier_balance_balance entry))) (\<lambda>balance.
     on_db (insert_row E TableBulkPullAccountResponse [(''id'', SqlInt row_id),
       (''bulk_pull_account_request_id'', SqlInt message_id),
       (''frontier_hash'', SqlText (to_hex (frontier_balance_frontier_hash entry))),
       (''balance'', SqlText balance)]))))"

text \<open>The row of an account entry: which columns are bound depends on the flags of the request.\<close>

definition put_account_entry_row :: "environment \<Rightarrow> bulk_pull_account_entry_t \<Rightarrow> int \<Rightarrow> tcp_flow_data \<Rightarrow> (cap, unit) act" where
  "put_account_entry_row E entry row_id f =
     (let flags = enum_bulk_pull_account_of (flow_request_flags f);
          pending_address_only = (flags = ENUM_BULK_PULL_ACCOUNT_PENDING_ADDRESS_ONLY);
          pending_include_address = (flags = ENUM_BULK_PULL_ACCOUNT_PENDING_HASH_AMOUNT_AND_ADDRESS)
      in act_seq [
        on_db (sbinds TableBulkPullAccountResponseEntry [(''id'', SqlInt row_id),
          (''bulk_pull_account_request_id'', SqlInt (flow_message_id f))]),
        act_when (\<not> pending_address_only)
          (act_bind (act_the (balance_to_dec (account_entry_amount entry))) (\<lambda>amount.
           on_db (sbinds TableBulkPullAccountResponseEntry [(''hash'', SqlText (to_hex (account_entry_hash entry))),
             (''amount'', SqlText amount)]))),
        act_when (pending_address_only \<or> pending_include_address)
          (on_db (sbinds TableBulkPullAccountResponseEntry
             [(''source'', SqlText (to_hex (account_entry_source entry)))])),
        on_db (stmt_exec E TableBulkPullAccountResponseEntry),
        on_db (stmt_reset TableBulkPullAccountResponseEntry)])"

definition put_bulk_pull_account_entry :: "environment \<Rightarrow> bulk_pull_account_entry_t \<Rightarrow> (cap, unit) act" where
  "put_bulk_pull_account_entry E entry =
     act_bind (on_db db_fetch_add) (\<lambda>row_id.
     act_bind (act_get cap_flow) (put_account_entry_row E entry row_id))"

end
