(* ===== verification/DbSafety.thy ===== *)
theory DbSafety
  imports Db
begin

text \<open>
  The invariant of the capture database and its preservation: when the engine takes every row the
  schema allows, no method of the database throws, primary keys are never used twice, every
  prepared statement is reset between calls, and the counters per message type agree with the
  packet table.
\<close>

section \<open>The contents of the tables\<close>

fun row_step :: "(table \<Rightarrow> sql_value list list) \<times> (table \<Rightarrow> sql_value list list) \<Rightarrow> sql_event \<Rightarrow>
    (table \<Rightarrow> sql_value list list) \<times> (table \<Rightarrow> sql_value list list)" where
  "row_step (cur, saved) (SqlInsert t vs) = (cur(t := cur t @ [vs]), saved)"
| "row_step (cur, saved) (SqlDelete t) = (cur(t := []), saved)"
| "row_step (cur, saved) SqlRun = (cur(TableRuns := cur TableRuns @ [[]]), saved)"
| "row_step (cur, saved) SqlBegin = (cur, cur)"
| "row_step (cur, saved) SqlCommit = (cur, cur)"
| "row_step (cur, saved) SqlRollback = (saved, saved)"

definition rows :: "sql_history \<Rightarrow> table \<Rightarrow> sql_value list list" where
  "rows h = fst (foldl row_step ((\<lambda>_. []), (\<lambda>_. [])) h)"

lemma rows_snoc [simp]:
  "rows (h @ [SqlInsert t vs]) = (rows h)(t := rows h t @ [vs])"
  "rows (h @ [SqlDelete t]) = (rows h)(t := [])"
  "rows (h @ [SqlRun]) = (rows h)(TableRuns := rows h TableRuns @ [[]])"
  "rows (h @ [SqlBegin]) = rows h"
  "rows (h @ [SqlCommit]) = rows h"
  unfolding rows_def by (cases "foldl row_step ((\<lambda>_. []), (\<lambda>_. [])) h"; simp)+

text \<open>A row the schema allows: an unused integer key and no null where the column forbids it.\<close>

definition insertable :: "sql_history \<Rightarrow> table \<Rightarrow> sql_value list \<Rightarrow> bool" where
  "insertable h t vs \<longleftrightarrow> length vs = length (params t) \<and>
     (\<exists>i. hd vs = SqlInt i \<and> (\<forall>r \<in> set (rows h t). hd r \<noteq> SqlInt i)) \<and>
     (\<forall>(p, v) \<in> set (zip (params t) vs). p \<in> set (not_null t) \<longrightarrow> v \<noteq> SqlNull)"

text \<open>An engine that takes every such row and every begin, commit and deletion.\<close>

definition engine_ok :: "'e sqlite_engine_scheme \<Rightarrow> bool" where
  "engine_ok E \<longleftrightarrow>
     (\<forall>h t vs. t \<noteq> TableRuns \<longrightarrow> insertable h t vs \<longrightarrow> sqlite_call E h (SqlInsert t vs) = SQLITE_DONE) \<and>
     (\<forall>h ev. (case ev of SqlInsert _ _ \<Rightarrow> False | _ \<Rightarrow> True) \<longrightarrow> sqlite_call E h ev = SQLITE_OK)"

section \<open>The invariant\<close>

definition ready :: "statement \<Rightarrow> bool" where
  "ready st \<longleftrightarrow> \<not> st_stepped st \<and> \<not> st_done st"

definition key_of :: "sql_value list \<Rightarrow> int" where
  "key_of r = (case hd r of SqlInt i \<Rightarrow> i | _ \<Rightarrow> 0)"

text \<open>The number of packet rows of a message type; the type is the fourth column.\<close>

definition packets_of_type :: "sql_history \<Rightarrow> nat \<Rightarrow> nat" where
  "packets_of_type h n = length (filter (\<lambda>r. r ! 3 = SqlInt (int n)) (rows h TablePacket))"

text \<open>Every packet row has a message type that \<open>count_per_type\<close> has a counter for.\<close>

definition types_known :: "sql_history \<Rightarrow> bool" where
  "types_known h \<longleftrightarrow> (\<forall>r \<in> set (rows h TablePacket). \<exists>k < 32. r ! 3 = SqlInt (int k))"

lemma types_known_snoc [simp]:
  "types_known (h @ [SqlInsert t vs]) \<longleftrightarrow> types_known h \<and> (t = TablePacket \<longrightarrow> (\<exists>k < 32. vs ! 3 = SqlInt (int k)))"
  "types_known (h @ [SqlDelete t]) \<longleftrightarrow> t = TablePacket \<or> types_known h"
  "types_known (h @ [SqlRun]) \<longleftrightarrow> types_known h"
  "types_known (h @ [SqlBegin]) \<longleftrightarrow> types_known h"
  "types_known (h @ [SqlCommit]) \<longleftrightarrow> types_known h"
  by (auto simp: types_known_def)

text \<open>
  The database between two steps of a method: \<open>F\<close> are ids that were drawn and not used as a key,
  \<open>P\<close> describes the packet statement, and \<open>n\<close> counts the packets per type that were counted and
  not yet inserted. The other statements are ready.
\<close>

definition db_mid :: "int set \<Rightarrow> (statement \<Rightarrow> bool) \<Rightarrow> (nat \<Rightarrow> nat) \<Rightarrow> db \<Rightarrow> bool" where
  "db_mid F P n d \<longleftrightarrow>
     (\<forall>t. t \<noteq> TablePacket \<longrightarrow> ready (db_stmts d t)) \<and> P (db_stmts d TablePacket) \<and>
     (\<forall>t. t \<noteq> TableRuns \<longrightarrow> (\<forall>r \<in> set (rows (db_history d) t).
        \<exists>i. hd r = SqlInt i \<and> i < db_next_id d \<and> i \<notin> F)) \<and>
     (\<forall>t. t \<noteq> TableRuns \<longrightarrow> distinct (map hd (rows (db_history d) t))) \<and>
     (\<forall>i \<in> F. i < db_next_id d) \<and>
     \<not> db_tx_commited d \<and> length (db_count_per_type d) = 32 \<and>
     (\<forall>k < 32. db_count_per_type d ! k = of_nat (packets_of_type (db_history d) k + n k)) \<and>
     types_known (db_history d)"

definition db_inv :: "db \<Rightarrow> bool" where
  "db_inv d \<longleftrightarrow> db_mid {} ready (\<lambda>_. 0) d"

abbreviation no_throw :: "failure \<Rightarrow> 's \<Rightarrow> bool" where
  "no_throw e s \<equiv> False"

lemma db_mid_weaken: "db_mid F P n d \<Longrightarrow> F' \<subseteq> F \<Longrightarrow> (\<And>st. P st \<Longrightarrow> P' st) \<Longrightarrow> db_mid F' P' n d"
  unfolding db_mid_def by blast

lemma db_mid_free:
  "db_mid F P n d \<Longrightarrow> i \<in> F \<Longrightarrow> t \<noteq> TableRuns \<Longrightarrow> \<forall>r \<in> set (rows (db_history d) t). hd r \<noteq> SqlInt i"
  unfolding db_mid_def by (metis sql_value.inject(1))

lemma triple_fetch_add:
  "triple (db_mid F P n) db_fetch_add (\<lambda>i d. i \<notin> F \<and> db_mid (insert i F) P n d) no_throw"
  by (rule tripleI) (fastforce simp: db_fetch_add_def db_mid_def)

text \<open>Binding and executing a statement other than the packet statement.\<close>

lemma sbinds_ready:
  assumes "ready (db_stmts d t)" and "set (map fst ps) \<subseteq> set (params t)"
  shows "sbinds t ps d = (Inr (), db_stmt_set t ((db_stmts d t)\<lparr>st_binds := fold (\<lambda>(p, v) b. b(p := v)) ps (st_binds (db_stmts d t))\<rparr>) d)"
  using assms
proof (induction ps arbitrary: d)
  case Nil
  then show ?case by (simp add: sbinds_def act_return_def db_stmt_set_def)
next
  case (Cons a ps)
  obtain p v where a: "a = (p, v)" by (cases a)
  let ?d = "db_stmt_set t ((db_stmts d t)\<lparr>st_binds := (st_binds (db_stmts d t))(p := v)\<rparr>) d"
  have "stmt_bind t p v d = (Inr (), ?d)"
    using Cons.prems a by (simp add: stmt_bind_def Let_def ready_def)
  moreover have "ready (db_stmts ?d t)" using Cons.prems by (simp add: db_stmt_set_def ready_def)
  ultimately show ?case
    using Cons.IH [of ?d] Cons.prems a
    by (simp add: sbinds_def act_bind_def db_stmt_set_def)
qed
lemma fold_binds:
  "distinct (map fst ps) \<Longrightarrow>
     fold (\<lambda>(p, v) b. b(p := v)) ps b q = (case map_of ps q of Some v \<Rightarrow> v | None \<Rightarrow> b q)"
  by (induction ps arbitrary: b) (auto split: option.splits dest: map_of_SomeD intro: rev_image_eqI)

lemma hd_params: "t \<noteq> TableRuns \<Longrightarrow> params t = ''id'' # tl (params t)"
  by (cases t) simp_all

lemma not_null_params: "set (not_null t) \<subseteq> set (params t)"
  by (cases t) simp_all

text \<open>Bindings that give a statement an acceptable row under the key \<open>i\<close>.\<close>

definition row_ok :: "table \<Rightarrow> int \<Rightarrow> statement \<Rightarrow> bool" where
  "row_ok t i st \<longleftrightarrow> ready st \<and> st_binds st ''id'' = SqlInt i \<and>
     (\<forall>p \<in> set (not_null t). st_binds st p \<noteq> SqlNull)"

lemma row_ok_insertable:
  assumes "row_ok t i st" and "t \<noteq> TableRuns" and "\<forall>r \<in> set (rows h t). hd r \<noteq> SqlInt i"
  shows "insertable h t (stmt_values t st)" and "hd (stmt_values t st) = SqlInt i"
proof -
  show hd: "hd (stmt_values t st) = SqlInt i"
    using assms(1) hd_params [OF assms(2)] by (simp add: stmt_values_def row_ok_def hd_map) (metis list.sel(1) list.simps(3) list.map_sel(1))
  have "v \<noteq> SqlNull" if "(p, v) \<in> set (zip (params t) (stmt_values t st))" "p \<in> set (not_null t)" for p v
  proof -
    have "v = st_binds st p" using that(1) by (auto simp: stmt_values_def set_zip)
    with that(2) assms(1) show ?thesis by (simp add: row_ok_def)
  qed
  with hd assms(3) show "insertable h t (stmt_values t st)"
    by (fastforce simp: insertable_def stmt_values_def)
qed

text \<open>Executing a statement with such bindings.\<close>

lemma stmt_exec_ok:
  assumes "engine_ok E" and "row_ok t i (db_stmts d t)" and "t \<noteq> TableRuns"
    and "\<forall>r \<in> set (rows (db_history d) t). hd r \<noteq> SqlInt i"
  shows "stmt_exec E t d = (Inr (), (db_stmt_set t ((db_stmts d t)\<lparr>st_stepped := True,
      st_result := SQLITE_DONE, st_has_row := False, st_done := True\<rparr>) d)
      \<lparr>db_history := db_history d @ [SqlInsert t (stmt_values t (db_stmts d t))]\<rparr>)"
proof -
  have "sqlite_call E (db_history d) (SqlInsert t (stmt_values t (db_stmts d t))) = SQLITE_DONE"
    using assms(1,3) row_ok_insertable(1) [OF assms(2-4)] unfolding engine_ok_def by blast
  moreover have "\<not> st_done (db_stmts d t)" using assms(2) by (simp add: row_ok_def ready_def)
  ultimately show ?thesis
    by (simp add: stmt_exec_def stmt_try_execute_step_def Let_def sqlite_codes db_stmt_set_def)
qed

lemma stmt_reset_ok:
  assumes "st_result (db_stmts d t) = SQLITE_DONE"
  shows "stmt_reset t d = (Inr (), db_stmt_set t ((db_stmts d t)\<lparr>st_has_row := False, st_done := False,
      st_stepped := False\<rparr>) d)"
  using assms by (simp add: stmt_reset_def Let_def)

lemma rows_keys_insert:
  assumes "\<forall>t. t \<noteq> TableRuns \<longrightarrow> (\<forall>r \<in> set (rows h t). \<exists>j. hd r = SqlInt j \<and> j < m \<and> j \<notin> F)"
    and "hd vs = SqlInt i" and "i < m"
  shows "\<forall>u. u \<noteq> TableRuns \<longrightarrow> (\<forall>r \<in> set (rows (h @ [SqlInsert t vs]) u).
    \<exists>j. hd r = SqlInt j \<and> j < m \<and> j \<notin> F - {i})"
proof (intro allI impI ballI)
  fix u r assume u: "u \<noteq> TableRuns" and "r \<in> set (rows (h @ [SqlInsert t vs]) u)"
  then have "r \<in> set (rows h u) \<or> r = vs" by (auto split: if_splits)
  with assms u show "\<exists>j. hd r = SqlInt j \<and> j < m \<and> j \<notin> F - {i}" by blast
qed

lemma keys_distinct_insert:
  assumes "db_mid F P n d" and "i \<in> F" and "hd vs = SqlInt i"
  shows "\<forall>u. u \<noteq> TableRuns \<longrightarrow> distinct (map hd (rows (db_history d @ [SqlInsert t vs]) u))"
proof (intro allI impI)
  fix u assume u: "u \<noteq> TableRuns"
  have "distinct (map hd (rows (db_history d) u))" using assms(1) u by (simp add: db_mid_def)
  moreover have "hd vs \<notin> hd ` set (rows (db_history d) u)"
    using db_mid_free [OF assms(1,2) u] assms(3) by force
  ultimately show "distinct (map hd (rows (db_history d @ [SqlInsert t vs]) u))" by auto
qed

lemma db_mid_insert:
  assumes "db_mid F P n d" and "i \<in> F" and "t \<noteq> TablePacket" and "hd vs = SqlInt i" and "ready st"
  shows "db_mid (F - {i}) P n (d\<lparr>db_history := db_history d @ [SqlInsert t vs],
    db_stmts := (db_stmts d)(t := st)\<rparr>)"
proof -
  have rows: "rows (db_history d @ [SqlInsert t vs]) TablePacket = rows (db_history d) TablePacket"
    using assms(3) by simp
  have "\<forall>u. u \<noteq> TableRuns \<longrightarrow> (\<forall>r \<in> set (rows (db_history d @ [SqlInsert t vs]) u).
      \<exists>j. hd r = SqlInt j \<and> j < db_next_id d \<and> j \<notin> F - {i})"
    using assms(1,2) by (intro rows_keys_insert assms(4)) (auto simp: db_mid_def)
  with assms(1,3,5) keys_distinct_insert [OF assms(1,2,4), of t] show ?thesis
    unfolding db_mid_def packets_of_type_def by (simp add: rows del: rows_snoc)
qed

text \<open>The row an insert makes: the values bound now, and what was bound before to the other parameters.\<close>

definition row_values :: "table \<Rightarrow> (string \<times> sql_value) list \<Rightarrow> statement \<Rightarrow> sql_value list" where
  "row_values t ps st = map (\<lambda>p. case map_of ps p of Some v \<Rightarrow> v | None \<Rightarrow> st_binds st p) (params t)"

lemma insert_row_result:
  assumes "engine_ok E" and "t \<noteq> TablePacket" and "t \<noteq> TableRuns" and "i \<in> F"
    and "set (map fst qs) \<subseteq> set (params t)" and "distinct (''id'' # map fst qs)"
    and "\<forall>p \<in> set (not_null t). \<exists>v. map_of qs p = Some v \<and> v \<noteq> SqlNull" and d: "db_mid F P n d"
  defines "vs \<equiv> row_values t ((''id'', SqlInt i) # qs) (db_stmts d t)"
  shows "\<exists>st. insert_row E t ((''id'', SqlInt i) # qs) d = (Inr (), d\<lparr>db_history := db_history d @ [SqlInsert t vs],
    db_stmts := (db_stmts d)(t := st)\<rparr>) \<and> ready st \<and> hd vs = SqlInt i"
proof -
  let ?ps = "(''id'', SqlInt i) # qs"
  let ?st = "(db_stmts d t)\<lparr>st_binds := fold (\<lambda>(p, v) b. b(p := v)) ?ps (st_binds (db_stmts d t))\<rparr>"
  define e where "e = db_stmt_set t ?st d"
  have ready: "ready (db_stmts d t)" using d assms(2) by (simp add: db_mid_def)
  have "''id'' \<in> set (params t)" using hd_params [OF assms(3)] by (metis list.set_intros(1))
  with assms(5) have binds: "sbinds t ?ps d = (Inr (), e)"
    unfolding e_def by (intro sbinds_ready [OF ready]) simp
  have distinct: "distinct (map fst ?ps)" using assms(6) by simp
  note fold = fold_binds [OF distinct, of "st_binds (db_stmts d t)"]
  have "\<forall>p \<in> set (not_null t). p \<noteq> ''id''" by (cases t) simp_all
  then have row: "row_ok t i (db_stmts e t)"
    using ready assms(7) fold by (fastforce simp: e_def db_stmt_set_def row_ok_def ready_def)
  have free: "\<forall>r \<in> set (rows (db_history e) t). hd r \<noteq> SqlInt i"
    using db_mid_free [OF d assms(4,3)] by (simp add: e_def db_stmt_set_def)
  have "stmt_values t (db_stmts e t) = vs"
    unfolding vs_def row_values_def stmt_values_def e_def db_stmt_set_def
    using fold by (simp del: fold_simps)
  with row_ok_insertable(2) [OF row assms(3) free] binds stmt_exec_ok [OF assms(1) row assms(3) free] stmt_reset_ok
  show ?thesis
    by (intro exI [of _ "?st\<lparr>st_result := SQLITE_DONE, st_has_row := False, st_done := False, st_stepped := False\<rparr>"])
      (simp add: insert_row_def act_bind_def act_return_def db_stmt_set_def e_def ready_def)
qed

lemma triple_insert_row:
  assumes "engine_ok E" and "t \<noteq> TablePacket" and "t \<noteq> TableRuns" and "i \<in> F"
    and "set (map fst qs) \<subseteq> set (params t)" and "distinct (''id'' # map fst qs)"
    and "\<forall>p \<in> set (not_null t). \<exists>v. map_of qs p = Some v \<and> v \<noteq> SqlNull"
  shows "triple (db_mid F P n) (insert_row E t ((''id'', SqlInt i) # qs)) (\<lambda>_. db_mid (F - {i}) P n) no_throw"
proof (rule tripleI)
  fix d assume d: "db_mid F P n d"
  from insert_row_result [OF assms d] db_mid_insert [OF d assms(4,2)]
  show "case insert_row E t ((''id'', SqlInt i) # qs) d of (Inl e, s') \<Rightarrow> False | (Inr x, s') \<Rightarrow> db_mid (F - {i}) P n s'"
    by auto
qed

section \<open>The packet statement\<close>

lemma triple_pure: "(A \<Longrightarrow> triple P m Q R) \<Longrightarrow> triple (\<lambda>s. A \<and> P s) m Q R"
  by (auto simp: triple_def)

lemma db_mid_history:
  assumes "db_mid F P n d" and "rows h = rows (db_history d)"
  shows "db_mid F P n (d\<lparr>db_history := h\<rparr>)"
  using assms by (simp add: db_mid_def packets_of_type_def types_known_def)

lemma rows_commit: "rows (h @ [SqlCommit, SqlBegin]) = rows h"
  using rows_snoc(4) [of "h @ [SqlCommit]"] by simp

lemma triple_check_size:
  assumes "engine_ok E"
  shows "triple (db_mid F P n) (check_size E C) (\<lambda>_. db_mid F P n) no_throw"
proof (rule tripleI)
  fix d assume d: "db_mid F P n d"
  then have "db_mid F P n (d\<lparr>db_history := db_history d @ [SqlCommit, SqlBegin]\<rparr>)"
    by (simp add: db_mid_history rows_commit)
  moreover from this have "db_mid F P n (d\<lparr>db_history := db_history d @ [SqlCommit, SqlBegin], db_max_reached := True\<rparr>)"
    by (simp add: db_mid_def packets_of_type_def)
  ultimately show "case check_size E C d of (Inl e, s') \<Rightarrow> False | (Inr x, s') \<Rightarrow> db_mid F P n s'"
    using d assms
    by (simp add: check_size_def act_bind_def act_get_def act_when_def act_return_def act_modify_def
        transaction_commit_def transaction_new_def Let_def engine_ok_def db_mid_def)
qed

lemma triple_sbinds_packet:
  assumes "\<And>st. P st \<Longrightarrow> ready st" and "set (map fst ps) \<subseteq> set (params TablePacket)"
    and "\<And>st. P st \<Longrightarrow> P' (st\<lparr>st_binds := fold (\<lambda>(p, v) b. b(p := v)) ps (st_binds st)\<rparr>)"
  shows "triple (db_mid F P n) (sbinds TablePacket ps) (\<lambda>_. db_mid F P' n) no_throw"
proof (rule tripleI)
  fix d assume d: "db_mid F P n d"
  then have "ready (db_stmts d TablePacket)" using assms(1) by (simp add: db_mid_def)
  from sbinds_ready [OF this assms(2)] d assms(3)
  show "case sbinds TablePacket ps d of (Inl e, s') \<Rightarrow> False | (Inr x, s') \<Rightarrow> db_mid F P' n s'"
    by (simp add: db_mid_def db_stmt_set_def packets_of_type_def)
qed

lemma triple_set_count:
  assumes "k < 32"
  shows "triple (db_mid F P n) (act_bind (act_get db_count_per_type) (\<lambda>c. set_count k (c ! k + 1)))
    (\<lambda>_. db_mid F P (n(k := n k + 1))) no_throw"
  using assms by (intro tripleI) (simp add: act_bind_def act_get_def set_count_def db_mid_def
      packets_of_type_def nth_list_update)

text \<open>A packet statement that is bound to a row with the key \<open>i\<close> and the message type \<open>k\<close>.\<close>

definition packet_bound :: "int \<Rightarrow> nat \<Rightarrow> statement \<Rightarrow> bool" where
  "packet_bound i k st \<longleftrightarrow> row_ok TablePacket i st \<and> st_binds st ''hdr_msg_type'' = SqlInt (int k)"

lemma triple_bind_packet:
  assumes "engine_ok E" and k: "k = unat (enum_msgtype_val (hdr_message_type h))" and "k < 32"
  shows "triple (db_mid F ready n) (bind_packet E C h info i) (\<lambda>_. db_mid F (packet_bound i k) (n(k := n k + 1))) no_throw"
proof -
  define A where "A = [(''id'', SqlInt i),
         (''hdr_msg_type'', sql_uint (enum_msgtype_val (hdr_message_type h))),
         (''hdr_version_using'', sql_uint (hdr_version_using h)),
         (''hdr_version_min'', sql_uint (hdr_version_min h)),
         (''hdr_block_type'', SqlInt (sint (enum_blocktype_val (hdr_block_type h)))),
         (''hdr_extensions'', sql_uint (hdr_extensions h)),
         (''content_table'', SqlNull),
         (''content_id'', SqlNull)]"
  define B where "B = [(''srcip'', SqlText (info_src_ip info)),
         (''srcport'', sql_uint (info_src_port info)),
         (''dstip'', SqlText (info_dst_ip info)),
         (''dstport'', sql_uint (info_dst_port info)),
         (''time_usec'', SqlInt (info_timestamp_usec info)),
         (''flow_key'', sql_uint (info_flow_key info)),
         (''ipv'', sql_uint (info_ip_version info))]"
  define P1 where "P1 st \<longleftrightarrow> ready st \<and> st_binds st ''id'' = SqlInt i \<and>
      st_binds st ''hdr_msg_type'' = SqlInt (int k)" for st
  define T where "T = (case env_time_text E (info_timestamp info) of
          None \<Rightarrow> act_return () | Some time \<Rightarrow> stmt_bind TablePacket ''time'' (SqlText time))"
  let ?n = "n(k := n k + 1)"
  have ty: "sql_uint (enum_msgtype_val (hdr_message_type h)) = SqlInt (int k)"
    by (simp add: sql_uint_def k)
  have clear: "triple (db_mid F ready n) (stmt_clear_bindings TablePacket) (\<lambda>_. db_mid F ready n) no_throw"
    by (rule tripleI) (simp add: stmt_clear_bindings_def db_stmt_set_def db_mid_def packets_of_type_def ready_def)
  have A: "triple (db_mid F ready n) (sbinds TablePacket A) (\<lambda>_. db_mid F P1 n) no_throw"
    by (rule triple_sbinds_packet) (simp_all add: A_def P1_def ready_def ty)
  have B: "triple (db_mid F P1 ?n) (sbinds TablePacket B) (\<lambda>_. db_mid F (packet_bound i k) ?n) no_throw"
    by (rule triple_sbinds_packet)
      (simp_all add: B_def P1_def ready_def packet_bound_def row_ok_def sql_uint_def)
  have T: "triple (db_mid F (packet_bound i k) ?n) T (\<lambda>_. db_mid F (packet_bound i k) ?n) no_throw"
    by (rule tripleI) (auto simp: T_def act_return_def stmt_bind_def Let_def db_mid_def packet_bound_def
        row_ok_def ready_def db_stmt_set_def packets_of_type_def split: option.splits)
  have "triple (db_mid F ready n) (bind_header_fields E C h i) (\<lambda>_. db_mid F P1 ?n) no_throw"
    unfolding bind_header_fields_def A_def [symmetric] k [symmetric] Let_def
    by (rule triple_seq_cons [OF triple_check_size [OF assms(1)]] triple_seq_cons [OF clear]
        triple_seq_cons [OF A] triple_seq_cons [OF triple_set_count [OF assms(3)]] triple_seq_nil)+
  moreover have "triple (db_mid F P1 ?n) (bind_packet_fields E info) (\<lambda>_. db_mid F (packet_bound i k) ?n) no_throw"
    unfolding bind_packet_fields_def B_def [symmetric] T_def [symmetric]
    by (rule triple_seq_cons [OF B] triple_seq_cons [OF T] triple_seq_nil)+
  ultimately show ?thesis
    unfolding bind_packet_def by (rule triple_seq_cons [OF _ triple_seq_cons [OF _ triple_seq_nil]])
qed
definition executed :: "statement \<Rightarrow> bool" where
  "executed st \<longleftrightarrow> st_result st = SQLITE_DONE"

lemma params_packet_type: "params TablePacket ! 3 = ''hdr_msg_type''" "3 < length (params TablePacket)"
  by (simp_all add: numeral_3_eq_3)

lemma packets_of_type_snoc:
  "packets_of_type (h @ [SqlInsert t vs]) k =
     packets_of_type h k + (if t = TablePacket \<and> vs ! 3 = SqlInt (int k) then 1 else 0)"
  by (simp add: packets_of_type_def)

lemma triple_exec_packet:
  assumes "engine_ok E" and "i \<in> F" and "0 < n k" and "k < 32"
  shows "triple (db_mid F (packet_bound i k) n) (stmt_exec E TablePacket)
    (\<lambda>_. db_mid (F - {i}) executed (n(k := n k - 1))) no_throw"
proof (rule tripleI)
  fix d assume d: "db_mid F (packet_bound i k) n d"
  let ?st = "db_stmts d TablePacket"
  have row: "row_ok TablePacket i ?st" and type: "st_binds ?st ''hdr_msg_type'' = SqlInt (int k)"
    using d by (simp_all add: db_mid_def packet_bound_def)
  have free: "\<forall>r \<in> set (rows (db_history d) TablePacket). hd r \<noteq> SqlInt i"
    using db_mid_free [OF d assms(2), of TablePacket] by simp
  have val3: "stmt_values TablePacket ?st ! 3 = SqlInt (int k)"
    using type by (simp only: stmt_values_def nth_map params_packet_type)
  then have types: "packets_of_type (db_history d @ [SqlInsert TablePacket (stmt_values TablePacket ?st)]) j =
      packets_of_type (db_history d) j + (if j = k then 1 else 0)" for j
    by (auto simp: packets_of_type_snoc)
  note keys = rows_keys_insert [of "db_history d" "db_next_id d" F _ i TablePacket,
      OF _ row_ok_insertable(2) [OF row _ free]]
  from stmt_exec_ok [OF assms(1) row _ free] d assms(2-4) val3
  show "case stmt_exec E TablePacket d of (Inl e, s') \<Rightarrow> False
      | (Inr x, s') \<Rightarrow> db_mid (F - {i}) executed (n(k := n k - 1)) s'"
    using keys keys_distinct_insert [OF d assms(2) row_ok_insertable(2) [OF row _ free], of TablePacket]
    by (simp add: db_mid_def db_stmt_set_def executed_def types of_nat_diff)
qed

lemma triple_reset_packet:
  "triple (db_mid F executed n) (stmt_reset TablePacket) (\<lambda>_. db_mid F ready n) no_throw"
  by (rule tripleI) (simp add: db_mid_def stmt_reset_ok executed_def ready_def db_stmt_set_def packets_of_type_def)
section \<open>The methods\<close>

text \<open>Bindings of the other columns of a table: known names, each once, the required ones not null.\<close>

definition columns_ok :: "table \<Rightarrow> (string \<times> sql_value) list \<Rightarrow> bool" where
  "columns_ok t qs \<longleftrightarrow> t \<noteq> TablePacket \<and> t \<noteq> TableRuns \<and> set (map fst qs) \<subseteq> set (params t) \<and>
     distinct (''id'' # map fst qs) \<and> (\<forall>p \<in> set (not_null t). \<exists>v. map_of qs p = Some v \<and> v \<noteq> SqlNull)"

lemma triple_row:
  assumes "engine_ok E" and "columns_ok t qs" and "i \<in> F"
  shows "triple (db_mid F P n) (insert_row E t ((''id'', SqlInt i) # qs)) (\<lambda>_. db_mid (F - {i}) P n) no_throw"
  by (rule triple_insert_row) (use assms in \<open>unfold columns_ok_def, blast\<close>)+

lemma triple_new_row:
  assumes "engine_ok E" and "columns_ok t qs"
  shows "triple (db_mid F P n) (act_bind db_fetch_add (\<lambda>i. insert_row E t ((''id'', SqlInt i) # qs)))
    (\<lambda>_. db_mid F P n) no_throw"
proof (rule triple_bind [OF triple_fetch_add], rule triple_pure)
  fix i assume "i \<notin> F"
  then show "triple (db_mid (insert i F) P n) (insert_row E t ((''id'', SqlInt i) # qs)) (\<lambda>_. db_mid F P n) no_throw"
    using triple_row [OF assms, of i "insert i F" P n] by simp
qed

definition counted :: "message_header_t \<Rightarrow> bool" where
  "counted h \<longleftrightarrow> unat (enum_msgtype_val (hdr_message_type h)) < 32"

text \<open>A method that inserts its packet row first.\<close>

lemma triple_packet_first:
  assumes "engine_ok E" and "counted h"
    and "\<And>i. triple (db_mid {} executed (\<lambda>_. 0)) (act_seq (ms i)) (\<lambda>_. db_inv) no_throw"
  shows "triple db_inv (act_bind db_fetch_add (\<lambda>i.
    act_seq (bind_packet E C h info i # stmt_exec E TablePacket # ms i))) (\<lambda>_. db_inv) no_throw"
proof -
  let ?k = "unat (enum_msgtype_val (hdr_message_type h))"
  have k: "?k < 32" using assms(2) by (simp add: counted_def)
  let ?n = "(\<lambda>_. 0)(?k := Suc 0)"
  have "triple (db_mid {i} ready (\<lambda>_. 0)) (act_seq (bind_packet E C h info i # stmt_exec E TablePacket # ms i))
      (\<lambda>_. db_inv) no_throw" for i
  proof (rule triple_seq_cons)
    show "triple (db_mid {i} ready (\<lambda>_. 0)) (bind_packet E C h info i) (\<lambda>_. db_mid {i} (packet_bound i ?k) ?n) no_throw"
      using triple_bind_packet [OF assms(1) refl k, of "{i}" "\<lambda>_. 0"] by simp
    have "?n(?k := ?n ?k - 1) = (\<lambda>_. 0)" by auto
    then have "triple (db_mid {i} (packet_bound i ?k) ?n) (stmt_exec E TablePacket)
        (\<lambda>_. db_mid {} executed (\<lambda>_. 0)) no_throw"
      using triple_exec_packet [OF assms(1), of i "{i}" ?n ?k] k by simp
    then show "triple (db_mid {i} (packet_bound i ?k) ?n) (act_seq (stmt_exec E TablePacket # ms i))
        (\<lambda>_. db_inv) no_throw"
      by (rule triple_seq_cons) (rule assms(3))
  qed
  then show ?thesis
    unfolding db_inv_def by (intro triple_bind [OF triple_fetch_add] triple_pure) simp
qed
lemma triple_put_connection:
  "engine_ok E \<Longrightarrow> triple (db_mid F P n) (put_connection E v a p b q k event) (\<lambda>_. db_mid F P n) no_throw"
  unfolding put_connection_def by (rule triple_new_row) (simp_all add: columns_ok_def sql_uint_def)

lemma triple_after_packet:
  assumes "triple (db_mid {} executed (\<lambda>_. 0)) m (\<lambda>_. db_mid {} executed (\<lambda>_. 0)) no_throw"
    and "triple (db_mid {} executed (\<lambda>_. 0)) (act_seq ms) (\<lambda>_. db_inv) no_throw"
  shows "triple (db_mid {} executed (\<lambda>_. 0)) (act_seq (m # ms)) (\<lambda>_. db_inv) no_throw"
  using assms by (rule triple_seq_cons)

lemma triple_end_packet:
  "triple (db_mid {} executed (\<lambda>_. 0)) (act_seq [stmt_reset TablePacket]) (\<lambda>_. db_inv) no_throw"
  unfolding db_inv_def by (rule triple_seq_cons [OF triple_reset_packet triple_seq_nil])

lemma triple_put_telemetry_req:
  assumes "engine_ok E" and "counted h"
  shows "triple db_inv (put_telemetry_req E C h info) (\<lambda>_. db_inv) no_throw"
  unfolding put_telemetry_req_def by (rule triple_packet_first [OF assms], rule triple_end_packet)

lemma columns_telemetry:
  "columns_ok TableTelemetry [(''packet_id'', SqlInt a0), (''signature'', a1), (''nodeid'', a2),
     (''nodeid_as_account'', a3), (''blockcount'', a4), (''cementedcount'', a5), (''uncheckedcount'', a6),
     (''accountcount'', a7), (''bandwidthcap'', a8), (''uptime'', a9), (''peercount'', a10),
     (''protocolversion'', a11), (''genesisblock'', a12), (''majorversion'', a13), (''minorversion'', a14),
     (''patchversion'', a15), (''prereleaseversion'', a16), (''maker'', a17), (''timestamp'', a18),
     (''activedifficulty'', a19)]"
  by (simp add: columns_ok_def)

lemma triple_put_telemetry_ack:
  assumes "engine_ok E" and "counted h"
  shows "triple db_inv (put_telemetry_ack E C h m info) (\<lambda>_. db_inv) no_throw"
  unfolding put_telemetry_ack_def
  by (rule triple_packet_first [OF assms], rule triple_after_packet,
      rule triple_new_row [OF assms(1) columns_telemetry], rule triple_end_packet)

lemma triple_put_keepalive:
  assumes "engine_ok E" and "counted h"
  shows "triple db_inv (put_keepalive E C h m info) (\<lambda>_. db_inv) no_throw"
proof -
  have host: "triple (db_mid F P n) (put_keepalive_host E i peer) (\<lambda>_. db_mid F P n) no_throw" for F P n i peer
    unfolding put_keepalive_host_def
    by (rule triple_new_row [OF assms(1)]) (simp add: columns_ok_def sql_uint_def)
  have hosts: "triple (db_mid F P n) (act_seq (map (put_keepalive_host E i) peers)) (\<lambda>_. db_mid F P n) no_throw"
    for F P n i peers
    by (rule triple_seq) (auto intro: host)
  show ?thesis
    unfolding put_keepalive_def
    by (rule triple_packet_first [OF assms], rule triple_after_packet [OF _ triple_end_packet])
      (auto intro: hosts triple_return split: option.split)
qed

lemma triple_put_node_id_handshake:
  assumes "engine_ok E" and "counted h"
  shows "triple db_inv (put_node_id_handshake E C h m info) (\<lambda>_. db_inv) no_throw"
  unfolding put_node_id_handshake_def
  by (rule triple_packet_first [OF assms], intro triple_after_packet triple_end_packet)
    (auto intro!: triple_return triple_new_row [OF assms(1)] split: option.split, simp_all add: columns_ok_def)

text \<open>A block of the kind its tag names, as every selector that was read holds it.\<close>

definition selector_ok :: "block_selector_t \<Rightarrow> bool" where
  "selector_ok sel \<longleftrightarrow> nano_block_wf (enum_blocktype_of (ucast (sel_arg_block_type sel))) (sel_block sel)"

lemma balance_some: "length b = 16 \<Longrightarrow> \<exists>s. balance_to_dec b = Some s"
  by (simp add: balance_to_dec_def Let_def)

lemma triple_bind_the: "x = Some y \<Longrightarrow> triple P (f y) Q R \<Longrightarrow> triple P (act_bind (act_the x) f) Q R"
  by (simp add: triple_def act_bind_def act_the_def act_return_def)

lemma triple_bind_balance:
  "length b = 16 \<Longrightarrow> (\<And>s. triple P (f s) Q R) \<Longrightarrow> triple P (act_bind (act_the (balance_to_dec b)) f) Q R"
  using balance_some triple_bind_the by metis

lemma triple_named:
  "triple P m (\<lambda>_. Q) R \<Longrightarrow> triple P (act_bind m (\<lambda>_. act_return s)) (\<lambda>_. Q) R"
  by (rule triple_bind, assumption) (rule triple_return)

lemma triple_put_block_rows:
  assumes "engine_ok E" and "i \<in> F"
  shows "block_state_wf b1 \<Longrightarrow> triple (db_mid F P n) (put_block_state E b1 i pid) (\<lambda>_. db_mid (F - {i}) P n) no_throw"
    and "block_send_wf b2 \<Longrightarrow> triple (db_mid F P n) (put_block_send E b2 i pid) (\<lambda>_. db_mid (F - {i}) P n) no_throw"
    and "triple (db_mid F P n) (put_block_receive E b3 i pid) (\<lambda>_. db_mid (F - {i}) P n) no_throw"
    and "triple (db_mid F P n) (put_block_open E b4 i pid) (\<lambda>_. db_mid (F - {i}) P n) no_throw"
    and "triple (db_mid F P n) (put_block_change E b5 i pid) (\<lambda>_. db_mid (F - {i}) P n) no_throw"
proof -
  note hash = hash_of_state_hash hash_of_send_hash hash_of_receive_hash hash_of_open_hash hash_of_change_hash
  note row = triple_row [OF assms(1) _ assms(2)]
  show "triple (db_mid F P n) (put_block_state E b1 i pid) (\<lambda>_. db_mid (F - {i}) P n) no_throw" if "block_state_wf b1"
    using that unfolding put_block_state_def hash
    by (intro triple_bind_the [OF refl] triple_bind_balance row)
      (simp_all add: block_state_wf_def columns_ok_def)
  show "triple (db_mid F P n) (put_block_send E b2 i pid) (\<lambda>_. db_mid (F - {i}) P n) no_throw" if "block_send_wf b2"
    using that unfolding put_block_send_def hash
    by (intro triple_bind_the [OF refl] triple_bind_balance row)
      (simp_all add: block_send_wf_def columns_ok_def)
  show "triple (db_mid F P n) (put_block_receive E b3 i pid) (\<lambda>_. db_mid (F - {i}) P n) no_throw"
    unfolding put_block_receive_def hash
    by (intro triple_bind_the [OF refl] row) (simp add: columns_ok_def)
  show "triple (db_mid F P n) (put_block_open E b4 i pid) (\<lambda>_. db_mid (F - {i}) P n) no_throw"
    unfolding put_block_open_def hash
    by (intro triple_bind_the [OF refl] row) (simp add: columns_ok_def)
  show "triple (db_mid F P n) (put_block_change E b5 i pid) (\<lambda>_. db_mid (F - {i}) P n) no_throw"
    unfolding put_block_change_def hash
    by (intro triple_bind_the [OF refl] row) (simp add: columns_ok_def)
qed

lemma triple_put_block:
  assumes "engine_ok E" and "\<And>s. sel = Some s \<Longrightarrow> selector_ok s" and "i \<in> F"
  shows "triple (db_mid F P n) (put_block E C sel i pid) (\<lambda>_. db_mid (F - {i}) P n) no_throw"
proof -
  have none: "triple (db_mid F P n) (act_return x) (\<lambda>_. db_mid (F - {i}) P n) no_throw" for x :: string
    by (rule tripleI) (auto simp: act_return_def elim: db_mid_weaken)
  have "triple (db_mid F P n) (put_block_kind E s i pid) (\<lambda>_. db_mid (F - {i}) P n) no_throw" if "selector_ok s" for s
    using that none
    unfolding put_block_kind_def selector_ok_def Let_def
    by (cases "enum_blocktype_of (ucast (sel_arg_block_type s))"; cases "sel_block s")
      (auto intro!: triple_named triple_put_block_rows [OF assms(1,3)])
  with none assms(2) show ?thesis
    unfolding put_block_def by (auto split: option.split)
qed
lemma triple_packet_last:
  assumes "engine_ok E" and "i \<in> F" and "k < 32"
  shows "triple (db_mid F (packet_bound i k) ((\<lambda>_. 0)(k := Suc 0)))
    (act_seq [sbinds TablePacket [(''content_id'', x), (''content_table'', y)], stmt_exec E TablePacket,
       stmt_reset TablePacket]) (\<lambda>_. db_inv) no_throw"
proof -
  let ?n = "(\<lambda>_. 0)(k := Suc 0)"
  have "triple (db_mid F (packet_bound i k) ?n) (sbinds TablePacket [(''content_id'', x), (''content_table'', y)])
      (\<lambda>_. db_mid F (packet_bound i k) ?n) no_throw"
    by (rule triple_sbinds_packet) (simp_all add: packet_bound_def row_ok_def ready_def)
  moreover have "?n(k := ?n k - 1) = (\<lambda>_. 0)" by auto
  then have "triple (db_mid F (packet_bound i k) ?n) (stmt_exec E TablePacket) (\<lambda>_. db_mid {} executed (\<lambda>_. 0)) no_throw"
    using triple_exec_packet [OF assms(1,2) _ assms(3), of ?n]
    by (auto elim!: triple_weaken db_mid_weaken)
  ultimately show ?thesis
    by (intro triple_seq_cons [OF _ triple_seq_cons [OF _ triple_end_packet]])
qed

lemma triple_bind_packet_first:
  assumes "engine_ok E" and "counted h"
    and "\<And>i k. k < 32 \<Longrightarrow>
      triple (db_mid {i} (packet_bound i k) ((\<lambda>_. 0)(k := Suc 0))) (act_seq (ms i)) (\<lambda>_. db_inv) no_throw"
  shows "triple db_inv (act_bind db_fetch_add (\<lambda>i. act_seq (bind_packet E C h info i # ms i))) (\<lambda>_. db_inv) no_throw"
proof -
  let ?k = "unat (enum_msgtype_val (hdr_message_type h))"
  have k: "?k < 32" using assms(2) by (simp add: counted_def)
  have "triple (db_mid {i} ready (\<lambda>_. 0)) (bind_packet E C h info i)
      (\<lambda>_. db_mid {i} (packet_bound i ?k) ((\<lambda>_. 0)(?k := Suc 0))) no_throw" for i
    using triple_bind_packet [OF assms(1) refl k, of "{i}" "\<lambda>_. 0"] by simp
  then have "triple (db_mid {i} ready (\<lambda>_. 0)) (act_seq (bind_packet E C h info i # ms i)) (\<lambda>_. db_inv) no_throw" for i
    by (rule triple_seq_cons) (rule assms(3) [OF k])
  then show ?thesis
    unfolding db_inv_def by (intro triple_bind [OF triple_fetch_add] triple_pure) simp
qed

lemma triple_put_block_content:
  assumes "engine_ok E" and "counted h" and "\<And>s. sel = Some s \<Longrightarrow> selector_ok s"
  shows "triple db_inv (put_block_content E C h sel info) (\<lambda>_. db_inv) no_throw"
proof -
  have "triple (db_mid {i} (packet_bound i k) ((\<lambda>_. 0)(k := Suc 0)))
      (act_seq [act_bind db_fetch_add (\<lambda>content_id.
         act_bind (put_block E C sel content_id i) (\<lambda>content_table.
         act_seq [sbinds TablePacket [(''content_id'', SqlInt content_id), (''content_table'', SqlText content_table)],
           stmt_exec E TablePacket, stmt_reset TablePacket]))]) (\<lambda>_. db_inv) no_throw" if "k < 32" for i k
    by (rule triple_seq_cons [OF _ triple_seq_nil], rule triple_bind [OF triple_fetch_add], rule triple_pure,
        rule triple_bind [OF triple_put_block [OF assms(1,3)]])
      (auto simp del: act_seq.simps intro: triple_packet_last [OF assms(1)] that)
  then show ?thesis
    unfolding put_block_content_def by (rule triple_bind_packet_first [OF assms(1,2)])
qed

lemma triple_sbinds_other:
  assumes "t \<noteq> TablePacket" and "set (map fst ps) \<subseteq> set (params t)"
  shows "triple (db_mid F P n) (sbinds t ps) (\<lambda>_. db_mid F P n) no_throw"
proof (rule tripleI)
  fix d assume d: "db_mid F P n d"
  then have "ready (db_stmts d t)" using assms(1) by (simp add: db_mid_def)
  from sbinds_ready [OF this assms(2)] d assms(1)
  show "case sbinds t ps d of (Inl e, s') \<Rightarrow> False | (Inr x, s') \<Rightarrow> db_mid F P n s'"
    by (simp add: db_mid_def db_stmt_set_def packets_of_type_def ready_def)
qed

lemma triple_bind_vote:
  assumes "engine_ok E" and "\<And>s. confirm_ack_block m = Some s \<Longrightarrow> selector_ok s"
  shows "triple (db_mid F P n) (bind_vote E C m i) (\<lambda>_. db_mid F P n) no_throw"
proof -
  have vote: "triple (db_mid F P n) (sbinds TableVote ps) (\<lambda>_. db_mid F P n) no_throw"
    if "set (map fst ps) \<subseteq> set (params TableVote)" for ps
    by (rule triple_sbinds_other) (use that in simp_all)
  have "triple (db_mid F P n) (act_bind db_fetch_add (\<lambda>c. act_bind (put_block E C (Some s) c i) (\<lambda>content_table.
      sbinds TableVote [(''content_id'', SqlInt c), (''content_table'', SqlText content_table),
        (''vote_count'', SqlInt 1), (''vbh'', SqlInt 0)]))) (\<lambda>_. db_mid F P n) no_throw"
    if "confirm_ack_block m = Some s" for s
    by (rule triple_bind [OF triple_fetch_add], rule triple_pure, rule triple_bind [OF triple_put_block [OF assms(1)]])
      (use that assms(2) in \<open>auto intro: vote\<close>)
  then show ?thesis
    unfolding bind_vote_def by (auto intro!: vote split: option.split list.split)
qed

lemma triple_put_confirm_ack:
  assumes "engine_ok E" and "counted h" and "\<And>s. confirm_ack_block m = Some s \<Longrightarrow> selector_ok s"
  shows "triple db_inv (put_confirm_ack E C h m info) (\<lambda>_. db_inv) no_throw"
  unfolding put_confirm_ack_def
  by (rule triple_bind_packet_first [OF assms(1,2)], rule triple_seq_cons [OF triple_bind_vote [OF assms(1,3)]], assumption,
      rule triple_seq_cons [OF triple_sbinds_other], simp, simp, rule triple_seq_cons [OF _ triple_seq_nil],
      rule triple_bind [OF triple_fetch_add], rule triple_pure, rule triple_seq_cons [OF triple_row [OF assms(1)]])
    (simp add: columns_ok_def, simp, rule triple_packet_last [OF assms(1)], simp_all)
lemma triple_append:
  assumes "triple P (act_seq ms) (\<lambda>_. P') R" and "triple P' (act_seq ns) Q R"
  shows "triple P (act_seq (ms @ ns)) Q R"
proof -
  have "act_seq (ms @ ns) = act_bind (act_seq ms) (\<lambda>_. act_seq ns)"
    by (induction ms) (auto simp: fun_eq_iff act_bind_def act_return_def split: prod.splits sum.splits)
  with assms show ?thesis by (auto intro: triple_bind)
qed

section \<open>Methods that work on the connection\<close>

text \<open>The database part as before, and a predicate of the connection.\<close>

definition cap_mid :: "int set \<Rightarrow> (statement \<Rightarrow> bool) \<Rightarrow> (nat \<Rightarrow> nat) \<Rightarrow> (tcp_flow_data \<Rightarrow> bool) \<Rightarrow> cap \<Rightarrow> bool" where
  "cap_mid F P n A c \<longleftrightarrow> db_mid F P n (cap_db c) \<and> A (cap_flow c)"

definition cap_inv :: "(tcp_flow_data \<Rightarrow> bool) \<Rightarrow> cap \<Rightarrow> bool" where
  "cap_inv A c \<longleftrightarrow> db_inv (cap_db c) \<and> A (cap_flow c)"

lemma cap_inv_mid: "cap_inv A = cap_mid {} ready (\<lambda>_. 0) A"
  by (auto simp: cap_inv_def cap_mid_def db_inv_def)

lemma triple_on_db:
  assumes "triple P m Q no_throw"
  shows "triple (\<lambda>c. P (cap_db c) \<and> A (cap_flow c)) (on_db m) (\<lambda>x c. Q x (cap_db c) \<and> A (cap_flow c)) no_throw"
  using assms by (fastforce simp: triple_def on_db_def act_zoom_def split: prod.splits sum.splits)

lemma triple_on_db_mid:
  assumes "triple (db_mid F P n) m (\<lambda>_. db_mid F' P' n') no_throw"
  shows "triple (cap_mid F P n A) (on_db m) (\<lambda>_. cap_mid F' P' n' A) no_throw"
  using triple_on_db [OF assms, of A] unfolding cap_mid_def .

lemma triple_on_db_inv:
  assumes "triple db_inv m (\<lambda>_. db_inv) no_throw"
  shows "triple (cap_inv A) (on_db m) (\<lambda>_. cap_inv A) no_throw"
  using triple_on_db [OF assms, of A] unfolding cap_inv_def .

text \<open>Predicates of the connection that do not speak of the two ids, and of the invalid entries.\<close>

definition no_ids :: "(tcp_flow_data \<Rightarrow> bool) \<Rightarrow> bool" where
  "no_ids A \<longleftrightarrow> (\<forall>f i. A f \<longrightarrow> A (f\<lparr>flow_packet_id := i\<rparr>) \<and> A (f\<lparr>flow_message_id := i\<rparr>))"

definition no_counts :: "(tcp_flow_data \<Rightarrow> bool) \<Rightarrow> bool" where
  "no_counts A \<longleftrightarrow> (\<forall>f i. A f \<longrightarrow> A (f\<lparr>flow_invalid_response_count := i\<rparr>) \<and> A (f\<lparr>flow_response_count := i\<rparr>))"

lemma triple_new_ids:
  assumes "no_ids A"
  shows "triple (cap_mid F P n A) new_packet_id (\<lambda>i c. i \<notin> F \<and> cap_mid (insert i F) P n A c) no_throw"
    and "triple (cap_mid F P n A) new_message_id (\<lambda>i c. i \<notin> F \<and> cap_mid (insert i F) P n A c) no_throw"
  using assms triple_fetch_add [of F P n]
  by (fastforce simp: triple_def cap_mid_def no_ids_def new_packet_id_def new_message_id_def on_db_def
      act_zoom_def act_bind_def act_return_def flow_modify_def act_modify_def db_fetch_add_def)+

lemma triple_cap_fetch_add:
  "triple (cap_mid F P n A) (on_db db_fetch_add) (\<lambda>i c. i \<notin> F \<and> cap_mid (insert i F) P n A c) no_throw"
  using triple_on_db [OF triple_fetch_add, of F P n A] unfolding cap_mid_def by (simp add: conj_assoc)

lemma triple_packet_seq:
  assumes "engine_ok E" and "counted h" and "i \<in> F"
    and "triple (cap_mid (F - {i}) executed (\<lambda>_. 0) A) (act_seq ms) Q no_throw"
  shows "triple (cap_mid F ready (\<lambda>_. 0) A)
    (act_seq (on_db (bind_packet E C h info i) # on_db (stmt_exec E TablePacket) # ms)) Q no_throw"
proof (rule triple_seq_cons [OF triple_on_db_mid], rule triple_bind_packet [OF assms(1) refl])
  let ?k = "unat (enum_msgtype_val (hdr_message_type h))"
  let ?n = "(\<lambda>_. 0 :: nat)(?k := 0 + 1)"
  show k: "?k < 32" using assms(2) by (simp add: counted_def)
  have "?n(?k := ?n ?k - 1) = (\<lambda>_. 0)" by (simp add: fun_eq_iff)
  then show "triple (cap_mid F (packet_bound i ?k) ?n A) (act_seq (on_db (stmt_exec E TablePacket) # ms)) Q no_throw"
    using triple_exec_packet [OF assms(1,3), of ?n ?k] assms(4) k
    by (auto intro!: triple_seq_cons [OF triple_on_db_mid] simp del: act_seq.simps)
qed

lemma triple_cap_end:
  "triple (cap_mid F executed (\<lambda>_. 0) A) (act_seq [on_db (stmt_reset TablePacket)]) (\<lambda>_. cap_inv A) no_throw"
  by (rule triple_seq_cons [OF triple_on_db_mid [OF triple_reset_packet]], rule tripleI)
    (auto simp: act_return_def cap_inv_def cap_mid_def db_inv_def elim: db_mid_weaken)

lemma triple_cap_row:
  assumes "engine_ok E" and "columns_ok t qs" and "i \<notin> F"
  shows "triple (cap_mid (insert i F) P n A) (on_db (insert_row E t ((''id'', SqlInt i) # qs)))
    (\<lambda>_. cap_mid F P n A) no_throw"
  using triple_on_db_mid [OF triple_row [OF assms(1,2), of i "insert i F"]] assms(3) by simp

lemma triple_cap_packet:
  assumes "engine_ok E" and "counted h" and "i \<notin> F"
    and "triple (cap_mid F executed (\<lambda>_. 0) A) (act_seq ms) (\<lambda>_. cap_mid {} executed (\<lambda>_. 0) A) no_throw"
  shows "triple (cap_mid (insert i F) ready (\<lambda>_. 0) A)
    (act_seq (on_db (bind_packet E C h info i) # on_db (stmt_exec E TablePacket) # ms @ [on_db (stmt_reset TablePacket)]))
    (\<lambda>_. cap_inv A) no_throw"
proof (rule triple_packet_seq [OF assms(1,2)])
  show "triple (cap_mid (insert i F - {i}) executed (\<lambda>_. 0) A)
      (act_seq (ms @ [on_db (stmt_reset TablePacket)])) (\<lambda>_. cap_inv A) no_throw"
    using triple_append [OF assms(4) triple_cap_end] assms(3) by simp
qed simp

lemma triple_put_frontier_req:
  assumes "engine_ok E" and "counted h" and "no_ids A"
  shows "triple (cap_inv A) (put_frontier_req E C h m info) (\<lambda>_. cap_inv A) no_throw"
proof -
  have "triple (cap_mid {} executed (\<lambda>_. 0) A) (act_seq [act_bind new_message_id (\<lambda>message_id.
      on_db (insert_row E TableFrontierRequest ((''id'', SqlInt message_id) # [(''packet_id'', SqlInt i),
        (''start'', a), (''age'', b), (''count'', c)])))]) (\<lambda>_. cap_mid {} executed (\<lambda>_. 0) A) no_throw" for i a b c
    by (rule triple_seq_cons [OF _ triple_seq_nil], rule triple_bind [OF triple_new_ids(2) [OF assms(3)]],
        rule triple_pure, rule triple_cap_row [OF assms(1)]) (simp_all add: columns_ok_def)
  from triple_cap_packet [OF assms(1,2) _ this] show ?thesis
    unfolding put_frontier_req_def cap_inv_mid
    by (intro triple_bind [OF triple_new_ids(1) [OF assms(3)]] triple_pure) (simp add: cap_inv_mid)
qed
lemma triple_put_bulk_pull:
  assumes "engine_ok E" and "counted h" and "no_ids A"
  shows "triple (cap_inv A) (put_bulk_pull E C h m info) (\<lambda>_. cap_inv A) no_throw"
proof -
  have "triple (cap_mid {} executed (\<lambda>_. 0) A) (act_seq [act_bind new_message_id (\<lambda>message_id.
      on_db (insert_row E TableBulkPullRequest ((''id'', SqlInt message_id) # [(''packet_id'', SqlInt i),
        (''start'', a), (''end'', b), (''extended_count'', c)])))]) (\<lambda>_. cap_mid {} executed (\<lambda>_. 0) A) no_throw" for i a b c
    by (rule triple_seq_cons [OF _ triple_seq_nil], rule triple_bind [OF triple_new_ids(2) [OF assms(3)]],
        rule triple_pure, rule triple_cap_row [OF assms(1)]) (simp_all add: columns_ok_def)
  from triple_cap_packet [OF assms(1,2) _ this] show ?thesis
    unfolding put_bulk_pull_def cap_inv_mid
    by (intro triple_bind [OF triple_new_ids(1) [OF assms(3)]] triple_pure) (simp add: cap_inv_mid)
qed

lemma triple_put_bulk_push:
  assumes "engine_ok E" and "counted h" and "no_ids A"
  shows "triple (cap_inv A) (put_bulk_push E C h info) (\<lambda>_. cap_inv A) no_throw"
proof -
  from triple_cap_packet [OF assms(1,2) _ triple_seq_nil] show ?thesis
    unfolding put_bulk_push_def cap_inv_mid
    by (intro triple_bind [OF triple_new_ids(1) [OF assms(3)]] triple_pure) (simp add: cap_inv_mid)
qed

lemma triple_put_bulk_pull_account:
  assumes "engine_ok E" and "counted h" and "no_ids A"
    and "length (bulk_pull_account_minimum_amount m) = 16"
  shows "triple (cap_inv A) (put_bulk_pull_account E C h m info) (\<lambda>_. cap_inv A) no_throw"
proof -
  have row: "triple (cap_mid {j} executed (\<lambda>_. 0) A) (act_seq [act_bind
      (act_the (balance_to_dec (bulk_pull_account_minimum_amount m))) (\<lambda>amount.
      on_db (insert_row E TableBulkPullAccountRequest ((''id'', SqlInt j) # [(''packet_id'', SqlInt i),
        (''account'', a), (''minimum_amount'', SqlText amount), (''flags'', b)])))])
      (\<lambda>_. cap_mid {} executed (\<lambda>_. 0) A) no_throw" for i j a b
    by (rule triple_seq_cons [OF _ triple_seq_nil], rule triple_bind_balance [OF assms(4)],
        rule triple_cap_row [OF assms(1)]) (simp_all add: columns_ok_def)
  have "triple (cap_mid (insert j {i}) ready (\<lambda>_. 0) A)
      (act_seq (on_db (bind_packet E C h info i) # on_db (stmt_exec E TablePacket) # [act_bind
      (act_the (balance_to_dec (bulk_pull_account_minimum_amount m))) (\<lambda>amount.
      on_db (insert_row E TableBulkPullAccountRequest ((''id'', SqlInt j) # [(''packet_id'', SqlInt i),
        (''account'', a), (''minimum_amount'', SqlText amount), (''flags'', b)])))] @
      [on_db (stmt_reset TablePacket)])) (\<lambda>_. cap_inv A) no_throw" if "j \<notin> {i}" for i j a b
    using triple_cap_packet [OF assms(1,2) _ row, of i j] that by (simp add: insert_commute)
  then show ?thesis
    unfolding put_bulk_pull_account_def cap_inv_mid
    by (intro triple_bind [OF triple_new_ids(1) [OF assms(3)]] triple_pure
        triple_bind [OF triple_new_ids(2) [OF assms(3)]]) (simp add: cap_inv_mid)
qed

lemma triple_put_frontier_entry:
  assumes "engine_ok E"
  shows "triple (cap_inv A) (put_frontier_entry E entry) (\<lambda>_. cap_inv A) no_throw"
proof -
  have "triple (cap_mid {i} ready (\<lambda>_. 0) A) (act_bind (act_get (\<lambda>c. flow_message_id (cap_flow c))) (\<lambda>message_id.
      on_db (insert_row E TableFrontierResponse ((''id'', SqlInt i) # [(''frontier_request_id'', SqlInt message_id),
        (''account'', a), (''frontier_hash'', b)])))) (\<lambda>_. cap_mid {} ready (\<lambda>_. 0) A) no_throw" for i a b
    by (rule triple_bind [OF triple_get], rule triple_cap_row [OF assms]) (simp_all add: columns_ok_def)
  then show ?thesis
    unfolding put_frontier_entry_def cap_inv_mid
    by (intro triple_bind [OF triple_cap_fetch_add] triple_pure) simp
qed

lemma triple_put_frontier_balance:
  assumes "engine_ok E" and "length (frontier_balance_balance entry) = 16"
  shows "triple (cap_inv A) (put_frontier_balance E entry) (\<lambda>_. cap_inv A) no_throw"
proof -
  have "triple (cap_mid {i} ready (\<lambda>_. 0) A) (act_bind (act_get (\<lambda>c. flow_message_id (cap_flow c))) (\<lambda>message_id.
      act_bind (act_the (balance_to_dec (frontier_balance_balance entry))) (\<lambda>balance.
      on_db (insert_row E TableBulkPullAccountResponse ((''id'', SqlInt i) #
        [(''bulk_pull_account_request_id'', SqlInt message_id),
        (''frontier_hash'', a), (''balance'', SqlText balance)]))))) (\<lambda>_. cap_mid {} ready (\<lambda>_. 0) A) no_throw" for i a
    by (rule triple_bind [OF triple_get], rule triple_bind_balance [OF assms(2)], rule triple_cap_row [OF assms(1)])
      (simp_all add: columns_ok_def)
  then show ?thesis
    unfolding put_frontier_balance_def cap_inv_mid
    by (intro triple_bind [OF triple_cap_fetch_add] triple_pure) simp
qed
lemma triple_put_block_entry:
  assumes "engine_ok E" and "selector_ok (entry_block entry)" and "no_counts A"
    and "\<And>a b s. columns_ok t [(request, SqlInt a), (''content_id'', SqlInt b), (''content_table'', SqlText s)]"
  shows "triple (cap_inv A) (put_block_entry E C t request owner event entry info) (\<lambda>_. cap_inv A) no_throw"
proof -
  have block: "triple (cap_mid {i} ready (\<lambda>_. 0) A) (on_db (put_block E C (Some (entry_block entry)) i p))
      (\<lambda>_. cap_mid {} ready (\<lambda>_. 0) A) no_throw" for i p
    using triple_on_db_mid [OF triple_put_block [OF assms(1)], of "Some (entry_block entry)" i "{i}"] assms(2) by simp
  have named: "triple (cap_mid {} ready (\<lambda>_. 0) A) (act_bind (on_db db_fetch_add) (\<lambda>j.
      on_db (insert_row E t ((''id'', SqlInt j) # [(request, SqlInt a), (''content_id'', SqlInt b),
        (''content_table'', SqlText s)])))) (\<lambda>_. cap_mid {} ready (\<lambda>_. 0) A) no_throw" for a b s
    by (rule triple_bind [OF triple_cap_fetch_add], rule triple_pure, rule triple_cap_row [OF assms(1,4)]) simp
  have count: "triple (cap_mid {} ready (\<lambda>_. 0) A)
      (flow_modify (\<lambda>f. f\<lparr>flow_invalid_response_count := flow_invalid_response_count f + 1\<rparr>))
      (\<lambda>_. cap_mid {} ready (\<lambda>_. 0) A) no_throw"
    using assms(3) by (auto simp: triple_def flow_modify_def act_modify_def cap_mid_def no_counts_def)
  have event: "triple (cap_mid {} ready (\<lambda>_. 0) A) (act_bind (act_get (\<lambda>c. flow_invalid_response_count (cap_flow c)))
      (\<lambda>n. act_when (n = 1) (on_db (put_connection_of E info event)))) (\<lambda>_. cap_mid {} ready (\<lambda>_. 0) A) no_throw"
    unfolding put_connection_of_def
    by (rule triple_bind [OF triple_get], rule triple_when, rule triple_on_db_mid,
        rule triple_put_connection [OF assms(1)])
  show ?thesis
    unfolding put_block_entry_def cap_inv_mid
    apply (rule triple_bind [OF triple_cap_fetch_add], rule triple_pure)
    apply (rule triple_bind [OF triple_get])
    apply (rule triple_bind [OF block])
    using named count event by (auto intro!: triple_seq_cons triple_seq_nil simp del: act_seq.simps)
qed

lemma triple_put_bulk_entries:
  assumes "engine_ok E" and "selector_ok (entry_block entry)" and "no_counts A"
  shows "triple (cap_inv A) (put_bulk_pull_entry E C entry info) (\<lambda>_. cap_inv A) no_throw"
    and "triple (cap_inv A) (put_bulk_push_entry E C entry info) (\<lambda>_. cap_inv A) no_throw"
  unfolding put_bulk_pull_entry_def put_bulk_push_entry_def
  by (rule triple_put_block_entry [OF assms]; simp add: columns_ok_def)+
lemma act_seq_append: "act_seq (ms @ ns) = act_bind (act_seq ms) (\<lambda>_. act_seq ns)"
  by (induction ms) (auto simp: fun_eq_iff act_bind_def act_return_def split: prod.splits sum.splits)

lemma act_bind_assoc: "act_bind (act_bind m f) g = act_bind m (\<lambda>x. act_bind (f x) g)"
  by (auto simp: fun_eq_iff act_bind_def split: prod.splits sum.splits)

lemma act_bind_return: "act_bind (act_return x) f = f x" "act_bind m act_return = m"
  by (auto simp: fun_eq_iff act_bind_def act_return_def split: prod.splits sum.splits)

lemma on_db_bind: "on_db (act_bind m f) = act_bind (on_db m) (\<lambda>x. on_db (f x))"
  by (auto simp: fun_eq_iff on_db_def act_zoom_def act_bind_def split: prod.splits sum.splits)

lemma on_db_return: "on_db (act_return x) = act_return x"
  by (auto simp: fun_eq_iff on_db_def act_zoom_def act_return_def)

lemma sbinds_append: "sbinds t (a @ b) = act_bind (sbinds t a) (\<lambda>_. sbinds t b)"
  by (simp add: sbinds_def act_seq_append)

lemma enum_bulk_pull_account_flags:
  "enum_bulk_pull_account_of v = ENUM_BULK_PULL_ACCOUNT_PENDING_ADDRESS_ONLY \<longleftrightarrow> v = 1"
  "enum_bulk_pull_account_of v = ENUM_BULK_PULL_ACCOUNT_PENDING_HASH_AMOUNT_AND_ADDRESS \<longleftrightarrow> v = 2"
  by (simp_all add: enum_bulk_pull_account_of_def)

text \<open>The columns that are bound for some flags, as one row.\<close>

definition account_entry_columns :: "bulk_pull_account_entry_t \<Rightarrow> string \<Rightarrow> u8 \<Rightarrow> (string \<times> sql_value) list" where
  "account_entry_columns entry amount flags =
     (if flags = 1 then [] else [(''hash'', SqlText (to_hex (account_entry_hash entry))), (''amount'', SqlText amount)]) @
     (if flags = 1 \<or> flags = 2 then [(''source'', SqlText (to_hex (account_entry_source entry)))] else [])"

lemma put_account_entry_row_eq:
  assumes "flow_request_flags f \<noteq> 1 \<Longrightarrow> balance_to_dec (account_entry_amount entry) = Some amount"
  shows "put_account_entry_row E entry i f =
    on_db (insert_row E TableBulkPullAccountResponseEntry ((''id'', SqlInt i) #
      (''bulk_pull_account_request_id'', SqlInt (flow_message_id f)) #
      account_entry_columns entry amount (flow_request_flags f)))"
proof -
  let ?t = TableBulkPullAccountResponseEntry
  let ?a = "[(''id'', SqlInt i), (''bulk_pull_account_request_id'', SqlInt (flow_message_id f))]"
  let ?b = "account_entry_columns entry amount (flow_request_flags f)"
  have split: "sbinds ?t (?a @ ?b) = act_bind (sbinds ?t ?a) (\<lambda>_. sbinds ?t ?b)" by (rule sbinds_append)
  have nil: "sbinds ?t [] = act_return ()" by (simp add: sbinds_def)
  have two: "sbinds ?t [x, y, z] = act_bind (sbinds ?t [x, y]) (\<lambda>_. sbinds ?t [z])" for x y z
    using sbinds_append [of ?t "[x, y]" "[z]"] by simp
  show ?thesis
    using assms split nil two unfolding put_account_entry_row_def insert_row_def Let_def enum_bulk_pull_account_flags
    by (cases "flow_request_flags f = 1"; cases "flow_request_flags f = 2")
      (simp_all add: account_entry_columns_def act_when_def act_the_def on_db_bind on_db_return
        act_bind_assoc act_bind_return)
qed

lemma triple_put_bulk_pull_account_entry:
  assumes "engine_ok E"
    and "\<And>f. A f \<Longrightarrow> flow_request_flags f \<noteq> 1 \<Longrightarrow> length (account_entry_amount entry) = 16"
  shows "triple (cap_inv A) (put_bulk_pull_account_entry E entry) (\<lambda>_. cap_inv A) no_throw"
proof -
  have row: "triple (\<lambda>c. A f \<and> cap_mid {i} ready (\<lambda>_. 0) A c) (put_account_entry_row E entry i f)
      (\<lambda>_. cap_mid {} ready (\<lambda>_. 0) A) no_throw" for i f
  proof (rule triple_pure)
    assume "A f"
    obtain amount where "flow_request_flags f \<noteq> 1 \<longrightarrow> balance_to_dec (account_entry_amount entry) = Some amount"
      using balance_some [OF assms(2) [OF \<open>A f\<close>]] by blast
    then show "triple (cap_mid {i} ready (\<lambda>_. 0) A) (put_account_entry_row E entry i f)
        (\<lambda>_. cap_mid {} ready (\<lambda>_. 0) A) no_throw"
      by (subst put_account_entry_row_eq)
        (auto intro!: triple_cap_row [OF assms(1)] simp: columns_ok_def account_entry_columns_def)
  qed
  have get: "triple (cap_mid {i} ready (\<lambda>_. 0) A) (act_get cap_flow)
      (\<lambda>f c. A f \<and> cap_mid {i} ready (\<lambda>_. 0) A c) no_throw" for i
    by (rule tripleI) (simp add: act_get_def cap_mid_def)
  show ?thesis
    unfolding put_bulk_pull_account_entry_def cap_inv_mid
    by (rule triple_bind [OF triple_cap_fetch_add], rule triple_pure, rule triple_bind [OF get], rule row)
qed
section \<open>Start, flush and removal\<close>

lemma triple_flush:
  assumes "engine_ok E"
  shows "triple (db_mid F P n) (flush_internal E) (\<lambda>_. db_mid F P n) no_throw"
proof (rule tripleI)
  fix d assume d: "db_mid F P n d"
  then have "db_mid F P n (d\<lparr>db_history := db_history d @ [SqlCommit, SqlBegin], db_tx_commited := False\<rparr>)"
    using db_mid_history [OF d rows_commit] by (simp add: db_mid_def packets_of_type_def)
  with d assms show "case flush_internal E d of (Inl e, s') \<Rightarrow> False | (Inr x, s') \<Rightarrow> db_mid F P n s'"
    by (simp add: flush_internal_def act_bind_def act_return_def transaction_commit_def
        transaction_new_def Let_def engine_ok_def db_mid_def)
qed

lemma triple_delete:
  assumes "engine_ok E"
  shows "triple (\<lambda>d. \<exists>n. db_mid {} ready n d \<and> (A \<longrightarrow> rows (db_history d) TablePacket = []))
    (db_exec E (SqlDelete t))
    (\<lambda>_ d. \<exists>n. db_mid {} ready n d \<and> (A \<or> t = TablePacket \<longrightarrow> rows (db_history d) TablePacket = [])) no_throw"
proof (rule tripleI)
  fix d assume "\<exists>n. db_mid {} ready n d \<and> (A \<longrightarrow> rows (db_history d) TablePacket = [])"
  then obtain n where d: "db_mid {} ready n d" and A: "A \<longrightarrow> rows (db_history d) TablePacket = []" by blast
  define n' where "n' k = (if t = TablePacket then packets_of_type (db_history d) k + n k else n k)" for k
  have "packets_of_type (db_history d @ [SqlDelete t]) k + n' k = packets_of_type (db_history d) k + n k" for k
    by (simp add: packets_of_type_def n'_def)
  then have "db_mid {} ready n' (d\<lparr>db_history := db_history d @ [SqlDelete t]\<rparr>)"
    using d by (auto simp: db_mid_def)
  with assms A show "case db_exec E (SqlDelete t) d of (Inl e, s') \<Rightarrow> False
      | (Inr x, s') \<Rightarrow> \<exists>n. db_mid {} ready n s' \<and> (A \<or> t = TablePacket \<longrightarrow> rows (db_history s') TablePacket = [])"
    by (auto simp: db_exec_def Let_def engine_ok_def)
qed

lemma triple_flush_deleted:
  assumes "engine_ok E"
  shows "triple (\<lambda>d. \<exists>n. db_mid {} ready n d \<and> (A \<longrightarrow> rows (db_history d) TablePacket = [])) (flush_internal E)
    (\<lambda>_ d. \<exists>n. db_mid {} ready n d \<and> (A \<longrightarrow> rows (db_history d) TablePacket = [])) no_throw"
proof (rule tripleI)
  fix d assume "\<exists>n. db_mid {} ready n d \<and> (A \<longrightarrow> rows (db_history d) TablePacket = [])"
  then obtain n where d: "db_mid {} ready n d" and A: "A \<longrightarrow> rows (db_history d) TablePacket = []" by blast
  then have "flush_internal E d = (Inr (), d\<lparr>db_history := db_history d @ [SqlCommit, SqlBegin], db_tx_commited := False\<rparr>)"
    using assms by (simp add: flush_internal_def act_bind_def act_return_def transaction_commit_def
        transaction_new_def Let_def engine_ok_def db_mid_def)
  with tripleD [OF triple_flush [OF assms] d] A rows_commit [of "db_history d"]
  show "case flush_internal E d of (Inl e, s') \<Rightarrow> False
      | (Inr x, s') \<Rightarrow> \<exists>n. db_mid {} ready n s' \<and> (A \<longrightarrow> rows (db_history s') TablePacket = [])"
    by auto
qed

lemma triple_destroy_tables:
  assumes "engine_ok E"
  shows "triple (\<lambda>d. \<exists>n. db_mid {} ready n d \<and> (A \<longrightarrow> rows (db_history d) TablePacket = []))
    (act_seq (map (\<lambda>t. act_seq [db_exec E (SqlDelete t), flush_internal E]) ts))
    (\<lambda>_ d. \<exists>n. db_mid {} ready n d \<and> (A \<or> TablePacket \<in> set ts \<longrightarrow> rows (db_history d) TablePacket = [])) no_throw"
proof (induction ts arbitrary: A)
  case Nil
  show ?case by simp (rule triple_return)
next
  case (Cons t ts)
  have "triple (\<lambda>d. \<exists>n. db_mid {} ready n d \<and> (A \<longrightarrow> rows (db_history d) TablePacket = []))
      (act_seq [db_exec E (SqlDelete t), flush_internal E])
      (\<lambda>_ d. \<exists>n. db_mid {} ready n d \<and> (A \<or> t = TablePacket \<longrightarrow> rows (db_history d) TablePacket = [])) no_throw"
    by (rule triple_seq_cons [OF triple_delete [OF assms] triple_seq_cons [OF triple_flush_deleted [OF assms] triple_seq_nil]])
  from triple_seq_cons [OF this Cons.IH [of "A \<or> t = TablePacket"]] show ?case
    by (simp add: disj_assoc eq_commute [of t] del: act_seq.simps)
qed

lemma db_mid_run:
  "db_mid F P n d \<Longrightarrow> db_mid F P n (d\<lparr>db_history := db_history d @ [SqlRun]\<rparr>)"
  by (simp add: db_mid_def packets_of_type_def)

lemma triple_destroy_capture_data:
  assumes "engine_ok E" and "TablePacket \<in> set tables"
  shows "triple db_inv (destroy_capture_data E tables) (\<lambda>_. db_inv) no_throw"
proof -
  let ?D = "\<lambda>d. \<exists>n. db_mid {} ready n d \<and> (True \<longrightarrow> rows (db_history d) TablePacket = [])"
  have run: "triple ?D (db_exec E SqlRun) (\<lambda>_. ?D) no_throw"
    using assms(1) by (fastforce intro!: tripleI simp: db_exec_def Let_def engine_ok_def intro: db_mid_run)
  have zero: "triple ?D (act_modify (db_count_per_type_update (\<lambda>_. replicate 32 0))) (\<lambda>_. db_inv) no_throw"
    by (rule tripleI) (auto simp: act_modify_def db_inv_def db_mid_def packets_of_type_def)
  have tables: "triple db_inv (act_seq (map (\<lambda>t. act_seq [db_exec E (SqlDelete t), flush_internal E]) tables))
      (\<lambda>_. ?D) no_throw"
    by (rule triple_weaken [OF triple_destroy_tables [OF assms(1), of False tables]])
      (use assms(2) in \<open>auto simp: db_inv_def\<close>)
  show ?thesis
    unfolding destroy_capture_data_def
    by (rule triple_seq_cons [OF tables triple_seq_cons [OF run
        triple_seq_cons [OF triple_flush_deleted [OF assms(1)] triple_seq_cons [OF zero triple_seq_nil]]]])
qed
text \<open>
  What the engine answers at start: the packets per type are those of the table, once per type and
  of known types, and the keys of earlier runs are below the ids of the new run.
\<close>

definition start_ok :: "environment \<Rightarrow> sql_history \<Rightarrow> bool" where
  "start_ok E h \<longleftrightarrow>
     (let h' = h @ [SqlRun] @ [SqlBegin]; L = env_packets_per_type E h'
      in distinct (map snd L) \<and> (\<forall>(c, k) \<in> set L. k < 32 \<and> c = packets_of_type h k) \<and>
         (\<forall>k < 32. k \<notin> snd ` set L \<longrightarrow> packets_of_type h k = 0)) \<and>
     (\<forall>t. t \<noteq> TableRuns \<longrightarrow> (\<forall>r \<in> set (rows h t). \<exists>i. hd r = SqlInt i \<and>
        i < 1000000000 * env_max_run E (h @ [SqlRun])) \<and> distinct (map hd (rows h t))) \<and>
     types_known h"

lemma set_counts:
  assumes "distinct (map snd L)" and "\<forall>(c, k) \<in> set L. k < 32" and "length (db_count_per_type d) = 32"
  shows "\<exists>cs. act_seq (map (\<lambda>(count, msg_type). set_count msg_type (of_nat count)) L) d =
      (Inr (), d\<lparr>db_count_per_type := cs\<rparr>) \<and> length cs = 32 \<and>
      (\<forall>k < 32. cs ! k = (case map_of (map prod.swap L) k of Some c \<Rightarrow> of_nat c | None \<Rightarrow> db_count_per_type d ! k))"
  using assms
proof (induction L arbitrary: d)
  case Nil
  then show ?case by (intro exI [of _ "db_count_per_type d"]) (simp add: act_return_def)
next
  case (Cons p L)
  obtain c j where p: "p = (c, j)" by (cases p)
  let ?d = "d\<lparr>db_count_per_type := (db_count_per_type d)[j := of_nat c]\<rparr>"
  from Cons.prems p obtain cs where cs: "act_seq (map (\<lambda>(count, msg_type). set_count msg_type (of_nat count)) L) ?d =
      (Inr (), ?d\<lparr>db_count_per_type := cs\<rparr>)" "length cs = 32"
      "\<forall>k < 32. cs ! k = (case map_of (map prod.swap L) k of Some c \<Rightarrow> of_nat c | None \<Rightarrow> db_count_per_type ?d ! k)"
    using Cons.IH [of ?d] by auto
  have "j \<notin> snd ` set L" using Cons.prems(1) p by auto
  then have "map_of (map prod.swap L) j = None" by (force simp: map_of_eq_None_iff image_image)
  moreover have "set_count j (of_nat c) d = (Inr (), ?d)"
    using Cons.prems p by (simp add: set_count_def)
  ultimately show ?case
    using cs Cons.prems p
    by (intro exI [of _ cs]) (auto simp: act_bind_def nth_list_update split: option.split)
qed

lemma db_init_inv:
  assumes "engine_ok E" and "start_ok E h"
  shows "\<exists>d. db_init E (db_start h) = (Inr (), d) \<and> db_inv d \<and>
    db_next_id d = 1000000000 * env_max_run E (h @ [SqlRun]) \<and> db_history d = h @ [SqlRun] @ [SqlBegin]"
proof -
  define L where "L = env_packets_per_type E (h @ [SqlRun] @ [SqlBegin])"
  let ?d = "(db_start h)\<lparr>db_history := h @ [SqlRun] @ [SqlBegin],
    db_next_id := 1000000000 * env_max_run E (h @ [SqlRun]), db_tx_commited := False\<rparr>"
  have L: "distinct (map snd L)" "\<forall>(c, k) \<in> set L. k < 32 \<and> c = packets_of_type h k"
      "\<forall>k < 32. k \<notin> snd ` set L \<longrightarrow> packets_of_type h k = 0"
    using assms(2) by (simp_all add: start_ok_def L_def Let_def)
  have small: "\<forall>(c, k) \<in> set L. k < 32" using L(2) by auto
  have zero: "length (db_count_per_type ?d) = 32" "k < 32 \<Longrightarrow> db_count_per_type ?d ! k = 0" for k
    by (simp_all add: db_start_def)
  from set_counts [OF L(1) small zero(1)] obtain cs
    where cs: "act_seq (map (\<lambda>(count, msg_type). set_count msg_type (of_nat count)) L) ?d =
      (Inr (), ?d\<lparr>db_count_per_type := cs\<rparr>)" "length cs = 32"
      and counts: "\<forall>k < 32. cs ! k = (case map_of (map prod.swap L) k of
        Some c \<Rightarrow> of_nat c | None \<Rightarrow> db_count_per_type ?d ! k)" by blast
  have count: "cs ! k = of_nat (packets_of_type h k)" if "k < 32" for k
  proof (cases "map_of (map prod.swap L) k")
    case None
    then have "k \<notin> snd ` set L" by (force simp: map_of_eq_None_iff image_image)
    with None counts L(3) zero(2) that show ?thesis by simp
  next
    case (Some c)
    then have "(c, k) \<in> set L" by (auto dest!: map_of_SomeD)
    with Some counts L(2) that show ?thesis by fastforce
  qed
  have "db_init E (db_start h) = act_seq [init_packets_per_type_from_database E] ?d"
    using assms(1) by (simp add: db_init_def act_bind_def db_exec_def Let_def engine_ok_def
        act_modify_def transaction_new_def db_start_def)
  also have "\<dots> = (Inr (), ?d\<lparr>db_count_per_type := cs\<rparr>)"
    using cs(1) by (simp add: act_bind_def act_return_def init_packets_per_type_from_database_def L_def)
  finally have init: "db_init E (db_start h) = (Inr (), ?d\<lparr>db_count_per_type := cs\<rparr>)" .
  have rows: "rows (h @ [SqlRun] @ [SqlBegin]) = (rows h)(TableRuns := rows h TableRuns @ [[]])"
    using rows_snoc(4) [of "h @ [SqlRun]"] by simp
  have "db_inv (?d\<lparr>db_count_per_type := cs\<rparr>)"
    using assms(2) count cs(2)
    by (simp add: db_inv_def db_mid_def rows packets_of_type_def types_known_def db_start_def start_ok_def
        ready_def statement_init_def del: append_Cons append_assoc)
  with init show ?thesis by simp
qed

end
