(* ===== verification/PacketHandler.thy ===== *)
theory PacketHandler
  imports Db
begin

text \<open>
  The packet handler (\<open>packet_handler.hpp\<close>, \<open>packet_handler.cpp\<close>): what it does with the data of
  a connection, the handlers of the messages, the callbacks of the TCP reassembly and the queue
  between the capturing and the processing thread. A loop over a response stream is \<open>act_loop\<close>
  of its pass; a pass returns whether the loop goes on (\<open>break\<close> and a false condition return no).
  Output to the console, the counter that only paces a check of the capturing device, and the
  device itself are not modelled.
\<close>

section \<open>Response streams\<close>

text \<open>A constructor of the protocol library on a stream over some memory.\<close>

definition act_read :: "'a reader \<Rightarrow> kstream \<Rightarrow> ('s, 'a \<times> kstream) act" where
  "act_read r ks s = (case r ks of Inl e \<Rightarrow> (Inl (StreamException e), s) | Inr y \<Rightarrow> (Inr y, s))"

definition all_zero :: "bytes \<Rightarrow> bool" where
  "all_zero b \<longleftrightarrow> list_all (\<lambda>x. x = 0) b"

definition flow_get :: "(tcp_flow_data \<Rightarrow> 'a) \<Rightarrow> (cap, 'a) act" where
  "flow_get f = act_get (\<lambda>c. f (cap_flow c))"

text \<open>\<open>std::copy\<close> of the payload to the back of the buffer.\<close>

definition push_data :: "environment \<Rightarrow> nano_packet \<Rightarrow> (cap, unit) act" where
  "push_data E info =
     flow_modify (flow_accumulated_data_update (\<lambda>b. foldl (env_push_back E BUFFER_CAPACITY) b (info_data info)))"

definition erase_data :: "environment \<Rightarrow> nat \<Rightarrow> (cap, unit) act" where
  "erase_data E n = flow_modify (flow_accumulated_data_update (\<lambda>b. env_erase_front E b n))"

definition count_response :: "(cap, unit) act" where
  "count_response = flow_modify (flow_response_count_update (\<lambda>n. n + 1))"

definition count_invalid :: "(cap, unit) act" where
  "count_invalid = flow_modify (flow_invalid_response_count_update (\<lambda>n. n + 1))"

definition reset_flow :: "(cap, unit) act" where
  "reset_flow = flow_modify (flow_reset ENUM_MSGTYPE_INVALID)"

text \<open>The event that ends a stream, when the details of the bootstrap are captured.\<close>

definition put_end_event :: "environment \<Rightarrow> config_capture \<Rightarrow> nano_packet \<Rightarrow> string \<Rightarrow> (cap, unit) act" where
  "put_end_event E C info what =
     act_when (capture_bootstrap_details C)
       (act_bind (act_get cap_flow) (\<lambda>f.
        on_db (put_connection_of E info
          (what @ dec_string (unat (flow_response_count f)) @ '', invalid: '' @
           dec_string (unat (flow_invalid_response_count f))))))"

definition act_yields :: "(cap, unit) act list \<Rightarrow> bool \<Rightarrow> (cap, bool) act" where
  "act_yields ms again = act_bind (act_seq ms) (\<lambda>_. act_return again)"

definition frontier_pass :: "environment \<Rightarrow> config_capture \<Rightarrow> nano_packet \<Rightarrow> (cap, bool) act" where
  "frontier_pass E C info =
     act_bind (flow_get flow_accumulated_data) (\<lambda>acc.
     if length acc < 64 then act_return False
     else
       act_catch caught_as_runtime_error
         (act_bind (act_read frontier_entry_read (kstream_of (take 64 acc))) (\<lambda>(entry, ks).
          if all_zero (frontier_entry_account entry) then
            act_yields [put_end_event E C info ''end of frontier_req, responses. valid: '', reset_flow] False
          else
            act_yields [act_when (capture_bootstrap_details C) (put_frontier_entry E entry),
              count_response, erase_data E (pos ks)] True))
         (act_yields [count_invalid] False))"

text \<open>The two streams of blocks run the same loop, with an entry type and texts of their own.\<close>

definition blocks_pass :: "environment \<Rightarrow> config_capture \<Rightarrow> nano_packet \<Rightarrow> bulk_entry_t reader \<Rightarrow>
    (bulk_entry_t \<Rightarrow> nano_packet \<Rightarrow> (cap, unit) act) \<Rightarrow> string \<Rightarrow> (cap, bool) act" where
  "blocks_pass E C info entry_read put_entry what =
     act_bind (flow_get flow_accumulated_data) (\<lambda>acc.
     if acc = [] then act_return False
     else if acc ! 0 = ucast (enum_blocktype_val ENUM_BLOCKTYPE_NOT_A_BLOCK) then
       act_yields [put_end_event E C info what, reset_flow] False
     else
       act_catch caught_as_runtime_error
         (act_bind (act_read entry_read (kstream_of acc)) (\<lambda>(entry, ks).
          act_yields [act_when (capture_bootstrap_details C) (put_entry entry info),
            count_response, erase_data E (pos ks)] True))
         (act_return False))"

definition bulk_pull_pass :: "environment \<Rightarrow> config_capture \<Rightarrow> nano_packet \<Rightarrow> (cap, bool) act" where
  "bulk_pull_pass E C info =
     blocks_pass E C info bulk_pull_entry_read (put_bulk_pull_entry E C) ''end of bulk_pull. valid entries: ''"

definition bulk_push_pass :: "environment \<Rightarrow> config_capture \<Rightarrow> nano_packet \<Rightarrow> (cap, bool) act" where
  "bulk_push_pass E C info =
     blocks_pass E C info bulk_push_entry_read (put_bulk_push_entry E C) ''end of bulk_push. valid entries: ''"

text \<open>
  The first step of a pending account stream: the balance entry is taken off the buffer. The
  stream goes on reading the memory it was made on, where the buffer has moved its elements to
  the front.
\<close>

definition account_first_step :: "environment \<Rightarrow> config_capture \<Rightarrow> bytes \<Rightarrow> kstream \<Rightarrow> (cap, kstream) act" where
  "account_first_step E C acc ks =
     act_bind (act_read frontier_balance_read ks) (\<lambda>(entry, ks).
     act_bind (act_seq [act_when (capture_bootstrap_details C) (put_frontier_balance E entry),
         erase_data E (pos ks),
         flow_modify (flow_step_update (\<lambda>n. n + 1))]) (\<lambda>_.
     act_return (ks\<lparr>ks_data := env_erase_front E acc (pos ks) @ env_beyond E acc (pos ks)\<rparr>)))"

definition account_second_step :: "environment \<Rightarrow> config_capture \<Rightarrow> nano_packet \<Rightarrow> kstream \<Rightarrow> (cap, unit) act" where
  "account_second_step E C info ks =
     act_bind (flow_get flow_request_flags) (\<lambda>flags.
     act_bind (act_read (bulk_pull_account_entry_read flags) ks) (\<lambda>(entry, ks).
     if all_zero (account_entry_source entry) \<or> all_zero (account_entry_hash entry) then
       act_seq [put_end_event E C info ''end of bulk_pull_account. valid entries: '', reset_flow]
     else
       act_seq [act_when (capture_bootstrap_details C) (put_bulk_pull_account_entry E entry),
         count_response]))"

definition account_pass :: "environment \<Rightarrow> config_capture \<Rightarrow> nano_packet \<Rightarrow> (cap, bool) act" where
  "account_pass E C info =
     act_bind (flow_get flow_accumulated_data) (\<lambda>acc.
     if acc = [] then act_return False
     else
       act_catch caught_as_runtime_error
         (act_bind (flow_get flow_step) (\<lambda>step.
          act_bind (if step = 0 then account_first_step E C acc (kstream_of acc) else act_return (kstream_of acc)) (\<lambda>ks.
          act_bind (flow_get flow_step) (\<lambda>step.
          act_bind (act_when (step = 1) (account_second_step E C info ks)) (\<lambda>_.
          act_return True)))))
         (act_return False))"

section \<open>Messages\<close>

text \<open>What every message handler does first.\<close>

definition message_seen :: "environment \<Rightarrow> config_capture \<Rightarrow> nano_packet \<Rightarrow> enum_msgtype_t \<Rightarrow> string \<Rightarrow> (cap, unit) act" where
  "message_seen E C info message_type event =
     act_seq [flow_modify (flow_reset message_type),
       act_when (capture_connection_details C) (on_db (put_connection_of E info event))]"

definition handle_keepalive :: "environment \<Rightarrow> config_capture \<Rightarrow> message_header_t \<Rightarrow> msg_keepalive_t \<Rightarrow> nano_packet \<Rightarrow> (cap, unit) act" where
  "handle_keepalive E C h m info =
     act_seq [message_seen E C info ENUM_MSGTYPE_KEEPALIVE ''keepalive'', on_db (put_keepalive E C h m info)]"

definition handle_confirm_ack :: "environment \<Rightarrow> config_capture \<Rightarrow> message_header_t \<Rightarrow> msg_confirm_ack_t \<Rightarrow> nano_packet \<Rightarrow> (cap, unit) act" where
  "handle_confirm_ack E C h m info =
     act_seq [message_seen E C info ENUM_MSGTYPE_CONFIRM_ACK ''confirm_ack'', on_db (put_confirm_ack E C h m info)]"

definition handle_confirm_req :: "environment \<Rightarrow> config_capture \<Rightarrow> message_header_t \<Rightarrow> msg_confirm_req_t \<Rightarrow> nano_packet \<Rightarrow> (cap, unit) act" where
  "handle_confirm_req E C h m info =
     act_seq [message_seen E C info ENUM_MSGTYPE_CONFIRM_REQ ''confirm_req'', on_db (put_confirm_req E C h m info)]"

definition handle_publish :: "environment \<Rightarrow> config_capture \<Rightarrow> message_header_t \<Rightarrow> msg_publish_t \<Rightarrow> nano_packet \<Rightarrow> (cap, unit) act" where
  "handle_publish E C h m info =
     act_seq [message_seen E C info ENUM_MSGTYPE_PUBLISH ''publish'', on_db (put_publish E C h m info)]"

definition handle_node_id_handshake :: "environment \<Rightarrow> config_capture \<Rightarrow> message_header_t \<Rightarrow> msg_node_id_handshake_t \<Rightarrow> nano_packet \<Rightarrow> (cap, unit) act" where
  "handle_node_id_handshake E C h m info =
     act_seq [message_seen E C info ENUM_MSGTYPE_NODE_ID_HANDSHAKE ''node_id_handshake'',
       on_db (put_node_id_handshake E C h m info)]"

definition handle_frontier_req :: "environment \<Rightarrow> config_capture \<Rightarrow> message_header_t \<Rightarrow> msg_frontier_req_t \<Rightarrow> nano_packet \<Rightarrow> (cap, unit) act" where
  "handle_frontier_req E C h m info =
     act_seq [message_seen E C info ENUM_MSGTYPE_FRONTIER_REQ ''frontier_req'', put_frontier_req E C h m info]"

definition handle_telemetry_req :: "environment \<Rightarrow> config_capture \<Rightarrow> message_header_t \<Rightarrow> nano_packet \<Rightarrow> (cap, unit) act" where
  "handle_telemetry_req E C h info =
     act_seq [message_seen E C info ENUM_MSGTYPE_TELEMETRY_REQ ''telemetry_req'', on_db (put_telemetry_req E C h info)]"

definition handle_telemetry_ack :: "environment \<Rightarrow> config_capture \<Rightarrow> message_header_t \<Rightarrow> msg_telemetry_ack_t \<Rightarrow> nano_packet \<Rightarrow> (cap, unit) act" where
  "handle_telemetry_ack E C h m info =
     act_seq [message_seen E C info ENUM_MSGTYPE_TELEMETRY_ACK ''telemetry_ack'', on_db (put_telemetry_ack E C h m info)]"

definition handle_bulk_pull :: "environment \<Rightarrow> config_capture \<Rightarrow> message_header_t \<Rightarrow> msg_bulk_pull_t \<Rightarrow> nano_packet \<Rightarrow> (cap, unit) act" where
  "handle_bulk_pull E C h m info =
     act_seq [message_seen E C info ENUM_MSGTYPE_BULK_PULL ''bulk_pull'', put_bulk_pull E C h m info]"

definition handle_bulk_push :: "environment \<Rightarrow> config_capture \<Rightarrow> message_header_t \<Rightarrow> nano_packet \<Rightarrow> (cap, unit) act" where
  "handle_bulk_push E C h info =
     act_seq [message_seen E C info ENUM_MSGTYPE_BULK_PUSH ''bulk_push'', put_bulk_push E C h info]"

definition handle_bulk_pull_account :: "environment \<Rightarrow> config_capture \<Rightarrow> message_header_t \<Rightarrow> msg_bulk_pull_account_t \<Rightarrow> nano_packet \<Rightarrow> (cap, unit) act" where
  "handle_bulk_pull_account E C h m info =
     act_seq [flow_modify (flow_reset ENUM_MSGTYPE_BULK_PULL_ACCOUNT),
       flow_modify (flow_request_flags_update (\<lambda>_. enum_bulk_pull_account_val (bulk_pull_account_flags m))),
       act_when (capture_connection_details C) (on_db (put_connection_of E info ''bulk_pull_account'')),
       put_bulk_pull_account E C h m info]"
text \<open>
  The switch over the message type: the body is cast to the class of the type, and a cast to a
  class it is not an object of is undefined.
\<close>

definition handle_body :: "environment \<Rightarrow> config_capture \<Rightarrow> nano_t \<Rightarrow> nano_packet \<Rightarrow> (cap, unit) act" where
  "handle_body E C proto info =
     (let h = nano_header proto
      in case hdr_message_type h of
           ENUM_MSGTYPE_KEEPALIVE \<Rightarrow>
             (case nano_body proto of BodyKeepalive m \<Rightarrow> handle_keepalive E C h m info | _ \<Rightarrow> act_throw Undefined)
         | ENUM_MSGTYPE_CONFIRM_ACK \<Rightarrow>
             (case nano_body proto of BodyConfirmAck m \<Rightarrow> handle_confirm_ack E C h m info | _ \<Rightarrow> act_throw Undefined)
         | ENUM_MSGTYPE_CONFIRM_REQ \<Rightarrow>
             (case nano_body proto of BodyConfirmReq m \<Rightarrow> handle_confirm_req E C h m info | _ \<Rightarrow> act_throw Undefined)
         | ENUM_MSGTYPE_PUBLISH \<Rightarrow>
             (case nano_body proto of BodyPublish m \<Rightarrow> handle_publish E C h m info | _ \<Rightarrow> act_throw Undefined)
         | ENUM_MSGTYPE_NODE_ID_HANDSHAKE \<Rightarrow>
             (case nano_body proto of BodyNodeIdHandshake m \<Rightarrow> handle_node_id_handshake E C h m info
              | _ \<Rightarrow> act_throw Undefined)
         | ENUM_MSGTYPE_BULK_PULL \<Rightarrow>
             (case nano_body proto of BodyBulkPull m \<Rightarrow> handle_bulk_pull E C h m info | _ \<Rightarrow> act_throw Undefined)
         | ENUM_MSGTYPE_BULK_PUSH \<Rightarrow>
             (case nano_body proto of BodyBulkPush m \<Rightarrow> handle_bulk_push E C h info | _ \<Rightarrow> act_throw Undefined)
         | ENUM_MSGTYPE_FRONTIER_REQ \<Rightarrow>
             (case nano_body proto of BodyFrontierReq m \<Rightarrow> handle_frontier_req E C h m info | _ \<Rightarrow> act_throw Undefined)
         | ENUM_MSGTYPE_BULK_PULL_ACCOUNT \<Rightarrow>
             (case nano_body proto of BodyBulkPullAccount m \<Rightarrow> handle_bulk_pull_account E C h m info
              | _ \<Rightarrow> act_throw Undefined)
         | ENUM_MSGTYPE_TELEMETRY_REQ \<Rightarrow>
             (case nano_body proto of BodyTelemetryReq \<Rightarrow> handle_telemetry_req E C h info | _ \<Rightarrow> act_throw Undefined)
         | ENUM_MSGTYPE_TELEMETRY_ACK \<Rightarrow>
             (case nano_body proto of BodyTelemetryAck m \<Rightarrow> handle_telemetry_ack E C h m info | _ \<Rightarrow> act_throw Undefined)
         | _ \<Rightarrow> act_return ())"

definition handle_message_data :: "environment \<Rightarrow> config_capture \<Rightarrow> nano_packet \<Rightarrow> (cap, unit) act" where
  "handle_message_data E C info =
     act_bind (act_read nano_read (kstream_of (info_data info))) (\<lambda>(proto, ks).
     act_seq [reset_flow, handle_body E C proto info])"

section \<open>The data of a connection\<close>

definition after :: "('s, unit) act \<Rightarrow> ('s \<Rightarrow> ((failure + unit) \<times> 's) option) \<Rightarrow> 's \<Rightarrow> ((failure + unit) \<times> 's) option" where
  "after m g s = (case m s of (Inl e, s') \<Rightarrow> Some (Inl e, s') | (Inr _, s') \<Rightarrow> g s')"

text \<open>The body of \<open>handle_tcp\<close>; no value is a loop that does not end.\<close>

definition tcp_data :: "environment \<Rightarrow> config_capture \<Rightarrow> nano_packet \<Rightarrow> cap \<Rightarrow> ((failure + unit) \<times> cap) option" where
  "tcp_data E C info c =
     (let t = flow_current_msg_type (cap_flow c);
          data = (info_data info \<noteq> [])
      in if t = ENUM_MSGTYPE_FRONTIER_REQ \<and> data then
           after (push_data E info) (act_loop (frontier_pass E C info)) c
         else if t = ENUM_MSGTYPE_BULK_PULL \<and> data then
           after (push_data E info) (act_loop (bulk_pull_pass E C info)) c
         else if t = ENUM_MSGTYPE_BULK_PUSH \<and> data then
           after (push_data E info) (act_loop (bulk_push_pass E C info)) c
         else if t = ENUM_MSGTYPE_BULK_PULL_ACCOUNT \<and> data then
           after (push_data E info) (act_loop (account_pass E C info)) c
         else Some (handle_message_data E C info c))"

text \<open>
  The handlers of exceptions of \<open>handle_tcp\<close>: whether a parse error is counted, and the capture
  after the call. What is undefined has no result.
\<close>

datatype tcp_outcome = Handled | ParseError | UnknownException | UndefinedBehaviour

definition handle_tcp :: "environment \<Rightarrow> config_capture \<Rightarrow> nano_packet \<Rightarrow> cap \<Rightarrow> (tcp_outcome \<times> cap) option" where
  "handle_tcp E C info c =
     (case tcp_data E C info c of
        None \<Rightarrow> None
      | Some (Inr _, c') \<Rightarrow> Some (Handled, c')
      | Some (Inl e, c') \<Rightarrow>
          Some (if e = Undefined then UndefinedBehaviour
                else if caught_as_runtime_error e then ParseError else UnknownException, c'))"

section \<open>The handler\<close>

record connection_data =
  conn_flow_key :: u32
  conn_src_ip :: string
  conn_src_port :: u16
  conn_dst_ip :: string
  conn_dst_port :: u16
  conn_ip_version :: u8
  conn_end_time_sec :: int
  conn_end_time_usec :: int

record packet_handler =
  ph_db :: db
  ph_conn_mgr :: "u32 \<Rightarrow> tcp_flow_data option"
  ph_packet_queue :: "nano_packet list"
  ph_stopped :: bool
  ph_packet_parse_error_count :: int

fun has_ing :: "bytes \<Rightarrow> bool" where
  "has_ing (a # b # c # d # r) \<longleftrightarrow>
     a = 105 \<and> b = 110 \<and> c = 103 \<and> d = 93 \<or> has_ing (b # c # d # r)"
| "has_ing _ \<longleftrightarrow> False"

text \<open>\<open>[nnn bytes missing]\<close>, which the reassembly puts in the place of lost data.\<close>

definition hasMissingData :: "bytes \<Rightarrow> bool" where
  "hasMissingData data \<longleftrightarrow> 16 < length data \<and> data ! 0 = 91 \<and> has_ing data"

definition packet_of :: "connection_data \<Rightarrow> bytes \<Rightarrow> int \<Rightarrow> nano_packet" where
  "packet_of k data side = \<lparr>info_src_ip = conn_src_ip k, info_dst_ip = conn_dst_ip k,
     info_src_port = conn_src_port k, info_dst_port = conn_dst_port k,
     info_timestamp = conn_end_time_sec k, info_timestamp_usec = conn_end_time_usec k,
     info_ip_version = conn_ip_version k, info_data = data, info_side = side,
     info_flow_key = conn_flow_key k\<rparr>"

text \<open>\<open>tcpReassemblyMsgReadyCallback\<close>: the flow of the packet is the one the map has for its key.\<close>

definition msg_ready :: "connection_data \<Rightarrow> bytes \<Rightarrow> int \<Rightarrow> packet_handler \<Rightarrow> packet_handler" where
  "msg_ready k data side s =
     (if data = [] then s
      else
        (let s = (if ph_conn_mgr s (conn_flow_key k) = None
                  then s\<lparr>ph_conn_mgr := (ph_conn_mgr s)(conn_flow_key k \<mapsto> flow_init)\<rparr> else s)
         in if hasMissingData data then s
            else s\<lparr>ph_packet_queue := ph_packet_queue s @ [packet_of k data side]\<rparr>))"

definition ph_put_connection :: "environment \<Rightarrow> connection_data \<Rightarrow> string \<Rightarrow> (packet_handler, unit) act" where
  "ph_put_connection E k event =
     act_zoom ph_db ph_db_update
       (put_connection E (uint (conn_ip_version k)) (conn_src_ip k) (conn_src_port k)
          (conn_dst_ip k) (conn_dst_port k) (conn_flow_key k) event)"

definition connection_start :: "environment \<Rightarrow> connection_data \<Rightarrow> (packet_handler, unit) act" where
  "connection_start E k =
     act_seq [ph_put_connection E k ''open connection'',
       act_modify (\<lambda>s. s\<lparr>ph_conn_mgr := (ph_conn_mgr s)(conn_flow_key k \<mapsto>
         (case ph_conn_mgr s (conn_flow_key k) of
            None \<Rightarrow> flow_init | Some f \<Rightarrow> flow_reset ENUM_MSGTYPE_INVALID f))\<rparr>)]"

definition connection_end :: "environment \<Rightarrow> connection_data \<Rightarrow> (packet_handler, unit) act" where
  "connection_end E k = ph_put_connection E k ''close connection''"

definition stop_packet_processing_thread :: "packet_handler \<Rightarrow> packet_handler" where
  "stop_packet_processing_thread s = s\<lparr>ph_stopped := True\<rparr>"

text \<open>
  One round of the inner loop of \<open>run_packet_processing_loop\<close>: none when the packet's handler does
  not return; nothing happens to an empty queue or after a stop.
\<close>

definition process_packet :: "environment \<Rightarrow> config_capture \<Rightarrow> packet_handler \<Rightarrow> (tcp_outcome \<times> packet_handler) option" where
  "process_packet E C s =
     (if ph_stopped s then Some (Handled, s)
      else case ph_packet_queue s of
        [] \<Rightarrow> Some (Handled, s)
      | info # q \<Rightarrow>
          (case ph_conn_mgr s (info_flow_key info) of
             None \<Rightarrow> Some (UndefinedBehaviour, s\<lparr>ph_packet_queue := q\<rparr>)
           | Some f \<Rightarrow>
               (case handle_tcp E C info \<lparr>cap_db = ph_db s, cap_flow = f\<rparr> of
                  None \<Rightarrow> None
                | Some (out, c) \<Rightarrow>
                    Some (out, s\<lparr>ph_packet_queue := q, ph_db := cap_db c,
                      ph_conn_mgr := (ph_conn_mgr s)(info_flow_key info \<mapsto> cap_flow c),
                      ph_packet_parse_error_count := ph_packet_parse_error_count s +
                        (if out = ParseError then 1 else 0)\<rparr>))))"

section \<open>Runs\<close>

text \<open>
  What happens to the handler, in any order: the callbacks of the capturing thread, and rounds of
  the processing thread. Each callback works under the locks of the queue and the database, and a
  round takes one packet. An outcome that is a call's own failure ends the run.
\<close>

datatype handler_event =
    ConnectionStart connection_data
  | MsgReady connection_data bytes int
  | ConnectionEnd connection_data
  | ProcessPacket
  | StopProcessing

inductive ph_step :: "environment \<Rightarrow> config_capture \<Rightarrow> packet_handler \<Rightarrow> handler_event \<Rightarrow> packet_handler \<Rightarrow> bool"
  for E :: environment and C :: config_capture where
  start: "connection_start E k s = (Inr (), s') \<Longrightarrow> ph_step E C s (ConnectionStart k) s'"
| ready: "ph_step E C s (MsgReady k data side) (msg_ready k data side s)"
| finish: "connection_end E k s = (Inr (), s') \<Longrightarrow> ph_step E C s (ConnectionEnd k) s'"
| process: "process_packet E C s = Some (out, s') \<Longrightarrow> out \<noteq> UndefinedBehaviour \<Longrightarrow> ph_step E C s ProcessPacket s'"
| stop: "ph_step E C s StopProcessing (stop_packet_processing_thread s)"

inductive ph_run :: "environment \<Rightarrow> config_capture \<Rightarrow> packet_handler \<Rightarrow> handler_event list \<Rightarrow> packet_handler \<Rightarrow> bool"
  for E :: environment and C :: config_capture where
  nil: "ph_run E C s [] s"
| snoc: "ph_run E C s evs s' \<Longrightarrow> ph_step E C s' ev s'' \<Longrightarrow> ph_run E C s (evs @ [ev]) s''"

inductive_cases ph_stepE: "ph_step E C s ev s'"
inductive_simps ph_step_simps: "ph_step E C s (ConnectionStart k) s'" "ph_step E C s (MsgReady k data side) s'"
  "ph_step E C s (ConnectionEnd k) s'" "ph_step E C s ProcessPacket s'" "ph_step E C s StopProcessing s'"

definition ph_start :: "db \<Rightarrow> packet_handler" where
  "ph_start d = \<lparr>ph_db = d, ph_conn_mgr = (\<lambda>_. None), ph_packet_queue = [], ph_stopped = False,
     ph_packet_parse_error_count = 0\<rparr>"

end
