(* ===== verification/HandlerLoops.thy ===== *)
theory HandlerLoops
  imports PacketHandler NanoWire
begin

text \<open>
  The loops over response streams: the calls into the database leave the buffer of the connection
  alone, and every pass that goes on takes bytes off it, so that the loops of the frontier and
  block streams end whatever the database does.
\<close>

section \<open>What leaves the buffer alone\<close>

lemma keeps_read [keeps]: "keeps f (act_read r ks)"
  by (auto simp: keeps_def act_read_def split: sum.split)

lemma keeps_on_db [keeps]: "keeps (\<lambda>c. g (cap_flow c)) (on_db m)"
  by (auto simp: keeps_def on_db_def act_zoom_def split: prod.split)

lemma keeps_flow_modify [keeps]: "(\<And>x. g (h x) = g x) \<Longrightarrow> keeps (\<lambda>c. g (cap_flow c)) (flow_modify h)"
  by (simp add: keeps_def flow_modify_def act_modify_def)

abbreviation buffer :: "cap \<Rightarrow> bytes" where
  "buffer c \<equiv> flow_accumulated_data (cap_flow c)"

lemma keeps_puts [keeps]:
  "keeps buffer (put_frontier_entry E e)"
  "keeps buffer (put_block_entry E C t request owner event b info)"
  "keeps buffer (put_bulk_pull_entry E C b info)"
  "keeps buffer (put_bulk_push_entry E C b info)"
  "keeps buffer (put_end_event E C info what)"
proof -
  show "keeps buffer (put_frontier_entry E e)" "keeps buffer (put_end_event E C info what)"
    unfolding put_frontier_entry_def put_end_event_def by (intro keeps)+
  show block: "keeps buffer (put_block_entry E C t request owner event b info)" for t request owner event
    unfolding put_block_entry_def by (auto intro!: keeps)
  show "keeps buffer (put_bulk_pull_entry E C b info)" "keeps buffer (put_bulk_push_entry E C b info)"
    unfolding put_bulk_pull_entry_def put_bulk_push_entry_def by (rule block)+
qed

lemma keeps_counts [keeps]: "keeps buffer count_response" "keeps buffer count_invalid"
  unfolding count_response_def count_invalid_def by (intro keeps; simp)+
section \<open>Triples over the connection\<close>

lemma triple_keeps: "keeps f m \<Longrightarrow> triple (\<lambda>s. f s = x) m (\<lambda>_ s. f s = x) (\<lambda>_ _. True)"
  by (intro tripleI) (auto dest: keepsD split: sum.split prod.split)

lemma triple_flow_get:
  "(\<And>s. P s \<Longrightarrow> f (cap_flow s) = x) \<Longrightarrow> triple P (g x) Q R \<Longrightarrow> triple P (act_bind (flow_get f) g) Q R"
  by (simp add: triple_def act_bind_def flow_get_def act_get_def)

lemma triple_read:
  "(\<And>x ks'. r ks = Inr (x, ks') \<Longrightarrow> triple P (g (x, ks')) Q R) \<Longrightarrow>
   (\<And>e s. r ks = Inl e \<Longrightarrow> P s \<Longrightarrow> R (StreamException e) s) \<Longrightarrow> triple P (act_bind (act_read r ks) g) Q R"
  by (cases "r ks") (fastforce simp: triple_def act_bind_def act_read_def split: prod.split)+

lemma triple_yields: "triple P (act_seq ms) (\<lambda>_. Q b) R \<Longrightarrow> triple P (act_yields ms b) Q R"
  unfolding act_yields_def by (rule triple_bind, assumption, rule triple_return)

lemma triple_stop:
  "triple P (act_yields ms False) (\<lambda>again s. again \<longrightarrow> A s) (\<lambda>_ _. True)"
  "triple P (act_return False) (\<lambda>again s. again \<longrightarrow> A s) R"
  by (simp_all add: triple_def act_return_def act_yields_def act_bind_def split: prod.split sum.split)

section \<open>The loops end\<close>

text \<open>Erasing elements of a buffer from its front leaves fewer of them.\<close>

definition erasing :: "environment \<Rightarrow> bool" where
  "erasing E \<longleftrightarrow> (\<forall>b n. 0 < n \<longrightarrow> n \<le> length b \<longrightarrow> length (env_erase_front E b n) < length b)"

lemma triple_erase:
  assumes "erasing E" and "keeps buffer m" and "0 < n" and "n \<le> length b"
  shows "triple (\<lambda>c. buffer c = b) (act_yields [m, count_response, erase_data E n] True)
    (\<lambda>again c. again \<longrightarrow> length (buffer c) < length b) (\<lambda>_ _. True)"
proof -
  have "triple (\<lambda>c. buffer c = b) (erase_data E n) (\<lambda>_ c. length (buffer c) < length b) (\<lambda>_ _. True)"
    using assms by (intro tripleI) (simp add: erase_data_def flow_modify_def act_modify_def erasing_def)
  then have erase: "triple (\<lambda>c. buffer c = b) (act_seq [erase_data E n]) (\<lambda>_ c. length (buffer c) < length b) (\<lambda>_ _. True)"
    by (rule triple_seq_cons) (rule triple_seq_nil)
  show ?thesis
    by (rule triple_yields, rule triple_seq_cons [OF triple_keeps [OF assms(2)]],
        rule triple_seq_cons [OF triple_keeps [OF keeps_counts(1)]]) (use erase in simp)
qed

lemma frontier_pass_shortens:
  assumes "erasing E"
  shows "triple (\<lambda>c. buffer c = b) (frontier_pass E C info)
    (\<lambda>again c. again \<longrightarrow> length (buffer c) < length b) (\<lambda>_ _. True)"
proof -
  have "triple (\<lambda>c. buffer c = b) (act_yields [act_when (capture_bootstrap_details C) (put_frontier_entry E e),
      count_response, erase_data E (pos ks)] True) (\<lambda>again c. again \<longrightarrow> length (buffer c) < length b) (\<lambda>_ _. True)"
    if "\<not> length b < 64" and "frontier_entry_read (kstream_of (take 64 b)) = Inr (e, ks)" for e ks
    using frontier_entry.read_progress [OF that(2)] that(1)
    by (intro triple_erase [OF assms] keeps) (simp_all add: pos_def ks_skip_def kstream_of_def)
  then show ?thesis
    unfolding frontier_pass_def
    by (auto intro!: triple_flow_get [where x = b] triple_catch [where T = "\<lambda>_. True"] triple_stop triple_read
        split: if_splits)
qed

lemma blocks_pass_shortens:
  assumes "erasing E" and "\<And>entry. keeps buffer (put_entry entry info)"
    and "\<And>entry ks. entry_read (kstream_of b) = Inr (entry, ks) \<Longrightarrow> 0 < pos ks \<and> pos ks \<le> length b"
  shows "triple (\<lambda>c. buffer c = b) (blocks_pass E C info entry_read put_entry what)
    (\<lambda>again c. again \<longrightarrow> length (buffer c) < length b) (\<lambda>_ _. True)"
proof -
  have again: "triple (\<lambda>c. buffer c = b) (act_yields [act_when (capture_bootstrap_details C) (put_entry e info),
      count_response, erase_data E (pos ks)] True) (\<lambda>again c. again \<longrightarrow> length (buffer c) < length b) (\<lambda>_ _. True)"
    if "entry_read (kstream_of b) = Inr (e, ks)" for e ks
    using assms(3) [OF that] by (intro triple_erase [OF assms(1)] keeps_when assms(2)) simp_all
  let ?Q = "\<lambda>again c. again \<longrightarrow> length (buffer c) < length b"
  let ?read = "act_bind (act_read entry_read (kstream_of b)) (\<lambda>(entry, ks).
     act_yields [act_when (capture_bootstrap_details C) (put_entry entry info),
       count_response, erase_data E (pos ks)] True)"
  have "triple (\<lambda>c. buffer c = b) ?read ?Q (\<lambda>_ _. True)"
    by (rule triple_read) (simp_all add: again)
  then have "triple (\<lambda>c. buffer c = b) (act_catch caught_as_runtime_error ?read (act_return False)) ?Q (\<lambda>_ _. True)"
    by (intro triple_catch [where T = "\<lambda>_. True"] triple_stop) simp
  then show ?thesis
    unfolding blocks_pass_def by - (rule triple_flow_get [where x = b], simp_all add: triple_stop triple_stop(2) [where A = "\<lambda>_. False", simplified])
qed

lemma bulk_entry_read_pos:
  assumes "bulk_push_entry_read (kstream_of b) = Inr (e, ks)"
  shows "0 < pos ks \<and> pos ks \<le> length b"
proof -
  have w: "ks_rest (kstream_of b) = bulk_entry_wire e @ ks_rest ks"
    and ks: "ks = ks_skip (length (bulk_entry_wire e)) (kstream_of b)"
    using consumed_bulk_entry [OF assms] unfolding consumed_def by blast+
  have "pos ks = length (bulk_entry_wire e)"
    by (subst ks) (simp add: pos_def ks_skip_def kstream_of_def)
  moreover have "length (bulk_entry_wire e) \<le> length b"
    using arg_cong [OF w, of length] by simp
  moreover have "0 < length (bulk_entry_wire e)" by (simp add: bulk_entry_wire_def)
  ultimately show ?thesis by simp
qed

lemma bulk_passes_shorten:
  assumes "erasing E"
  shows "triple (\<lambda>c. buffer c = b) (bulk_pull_pass E C info)
      (\<lambda>again c. again \<longrightarrow> length (buffer c) < length b) (\<lambda>_ _. True)"
    and "triple (\<lambda>c. buffer c = b) (bulk_push_pass E C info)
      (\<lambda>again c. again \<longrightarrow> length (buffer c) < length b) (\<lambda>_ _. True)"
  unfolding bulk_pull_pass_def bulk_push_pass_def
  by (rule blocks_pass_shortens [OF assms], rule keeps,
      simp add: bulk_pull_entry_read_same bulk_entry_read_pos)+

lemma shortening_loop_returns:
  assumes "\<And>b. triple (\<lambda>c. buffer c = b) pass (\<lambda>again c. again \<longrightarrow> length (buffer c) < length b) (\<lambda>_ _. True)"
  shows "\<exists>r. after (push_data E info) (act_loop pass) c = Some r"
proof -
  have "length (buffer c') < length (buffer c)" if "pass c = (Inr True, c')" for c c'
    using tripleD [OF assms refl that] by simp
  then have "\<exists>r. act_loop pass c = Some r" for c
    by (intro act_loop_returns [where I = "\<lambda>_. True" and m = "\<lambda>c. length (buffer c)"]) auto
  then show ?thesis
    by (simp add: after_def push_data_def flow_modify_def act_modify_def)
qed

lemma handle_tcp_ends:
  assumes "erasing E"
    and "flow_current_msg_type (cap_flow c) \<noteq> ENUM_MSGTYPE_BULK_PULL_ACCOUNT \<or> info_data info = []"
  shows "\<exists>r. handle_tcp E C info c = Some r"
proof -
  have "\<exists>y. tcp_data E C info c = Some y"
    using
      shortening_loop_returns [OF frontier_pass_shortens [OF assms(1)]]
      shortening_loop_returns [OF bulk_passes_shorten(1) [OF assms(1)]]
      shortening_loop_returns [OF bulk_passes_shorten(2) [OF assms(1)]]
    by (simp add: tcp_data_def Let_def) (use assms(2) in blast)
  then show ?thesis
    by (auto simp: handle_tcp_def split: sum.split prod.split)
qed

text \<open>C15: 
  Whatever the data of a packet, handling it ends, unless the connection is in the stream of a
  request for the pending blocks of an account.
\<close>

theorem handle_tcp_returns:
  assumes "erasing E"
    and "flow_current_msg_type (cap_flow c) \<noteq> ENUM_MSGTYPE_BULK_PULL_ACCOUNT \<or> info_data info = []"
  shows "\<exists>r. handle_tcp E C info c = Some r"
  using assms by (rule handle_tcp_ends)

end
