(* ===== verification/HandlerSafety.thy ===== *)
theory HandlerSafety
  imports DbSafety HandlerLoops
begin

text \<open>
  The invariant of the packet handler: the state of every connection, of the queue and of the
  database, kept by every callback and by every round of the processing thread. It follows that
  no cast of a message body or block is to the wrong class, no counter is out of bounds, no
  statement is used in a wrong state, and that whatever is thrown is an exception of the stream.
\<close>

section \<open>The state of a connection\<close>

text \<open>What \<open>boost::circular_buffer\<close> documents of the operations the handler uses.\<close>

definition buffer_ok :: "environment \<Rightarrow> bool" where
  "buffer_ok E \<longleftrightarrow>
     (\<forall>n b x. 0 < n \<longrightarrow> env_push_back E n b x = (if length b < n then b @ [x] else tl b @ [x])) \<and>
     (\<forall>b n. n \<le> length b \<longrightarrow> env_erase_front E b n = drop n b)"

lemma buffer_ok_erasing: "buffer_ok E \<Longrightarrow> erasing E"
  by (auto simp: buffer_ok_def erasing_def)

fun stream_type :: "enum_msgtype_t \<Rightarrow> bool" where
  "stream_type ENUM_MSGTYPE_FRONTIER_REQ = True"
| "stream_type ENUM_MSGTYPE_BULK_PULL = True"
| "stream_type ENUM_MSGTYPE_BULK_PUSH = True"
| "stream_type ENUM_MSGTYPE_BULK_PULL_ACCOUNT = True"
| "stream_type _ = False"

text \<open>
  Data is kept for the four kinds of streams, no more than the buffer holds; the step and the
  flags belong to a stream of pending blocks.
\<close>

definition flow_ok :: "tcp_flow_data \<Rightarrow> bool" where
  "flow_ok f \<longleftrightarrow> length (flow_accumulated_data f) \<le> BUFFER_CAPACITY \<and>
     (flow_accumulated_data f \<noteq> [] \<longrightarrow> stream_type (flow_current_msg_type f)) \<and>
     (flow_step f \<noteq> 0 \<or> flow_request_flags f \<noteq> 0 \<longrightarrow>
        flow_current_msg_type f = ENUM_MSGTYPE_BULK_PULL_ACCOUNT) \<and>
     unat (flow_step f) \<le> 1"

lemma flow_ok_reset [simp]: "flow_ok (flow_reset t f)"
  by (simp add: flow_ok_def flow_reset_def)

lemma flow_ok_init [simp]: "flow_ok flow_init"
  by (simp add: flow_ok_def flow_init_def)

lemma flow_ok_no_ids: "no_ids flow_ok" "no_counts flow_ok"
  by (simp_all add: no_ids_def no_counts_def flow_ok_def)

lemma length_push_back:
  "buffer_ok E \<Longrightarrow> 0 < n \<Longrightarrow> length b \<le> n \<Longrightarrow> length (foldl (env_push_back E n) b xs) \<le> n"
  by (induction xs arbitrary: b) (auto simp: buffer_ok_def)

text \<open>Nothing is thrown but an exception of the stream, in a state with the invariant.\<close>

definition stream_throw :: "(tcp_flow_data \<Rightarrow> bool) \<Rightarrow> failure \<Rightarrow> cap \<Rightarrow> bool" where
  "stream_throw A e c \<longleftrightarrow> (\<exists>x. e = StreamException x) \<and> cap_inv A c"

lemma triple_safe: "triple P m Q no_throw \<Longrightarrow> triple P m Q R"
  by (erule triple_weaken) simp_all

lemma triple_flow_modify:
  "(\<And>f. A f \<Longrightarrow> B (g f)) \<Longrightarrow> triple (cap_inv A) (flow_modify g) (\<lambda>_. cap_inv B) R"
  by (rule tripleI) (simp add: flow_modify_def act_modify_def cap_inv_def)

lemma db_inv_eq: "db_inv = db_mid {} ready (\<lambda>_. 0)"
  by (simp add: fun_eq_iff db_inv_def)

lemma triple_put_connection_of:
  "engine_ok E \<Longrightarrow> triple (cap_inv A) (on_db (put_connection_of E info event)) (\<lambda>_. cap_inv A) no_throw"
  using triple_put_connection [of E "{}" ready "\<lambda>_. 0"]
  unfolding put_connection_of_def by (intro triple_on_db_inv) (simp add: db_inv_eq)

lemma triple_put_end_event:
  assumes "engine_ok E"
  shows "triple (cap_inv A) (put_end_event E C info what) (\<lambda>_. cap_inv A) R"
  unfolding put_end_event_def
  by (intro triple_when triple_bind [where Q' = "\<lambda>_. cap_inv A"] triple_safe [OF triple_put_connection_of [OF assms]])
    (auto simp: triple_def act_get_def)

lemma triple_counts:
  assumes "no_counts A"
  shows "triple (cap_inv A) count_response (\<lambda>_. cap_inv A) R"
    and "triple (cap_inv A) count_invalid (\<lambda>_. cap_inv A) R"
proof -
  have "flow_response_count_update g f = f\<lparr>flow_response_count := g (flow_response_count f)\<rparr>"
    "flow_invalid_response_count_update g f = f\<lparr>flow_invalid_response_count := g (flow_invalid_response_count f)\<rparr>"
    for g f
    by (cases f; simp)+
  with assms show "triple (cap_inv A) count_response (\<lambda>_. cap_inv A) R"
      "triple (cap_inv A) count_invalid (\<lambda>_. cap_inv A) R"
    unfolding count_response_def count_invalid_def no_counts_def by (metis triple_flow_modify)+
qed

lemma triple_reset_flow: "triple (cap_inv A) reset_flow (\<lambda>_. cap_inv flow_ok) R"
  unfolding reset_flow_def by (rule triple_flow_modify) simp

lemma triple_flow_case:
  "(\<And>x. triple (cap_inv (\<lambda>f. A f \<and> h f = x)) (g x) Q R) \<Longrightarrow> triple (cap_inv A) (act_bind (flow_get h) g) Q R"
  by (simp add: triple_def act_bind_def flow_get_def act_get_def cap_inv_def)

section \<open>The passes over the response streams\<close>

definition flow_with :: "bytes \<Rightarrow> tcp_flow_data \<Rightarrow> bool" where
  "flow_with acc f \<longleftrightarrow> flow_ok f \<and> flow_accumulated_data f = acc"

lemma flow_with_no_counts: "no_counts (flow_with acc)"
  by (auto simp: no_counts_def flow_with_def flow_ok_def)

lemma triple_erase_data:
  "buffer_ok E \<Longrightarrow> n \<le> length acc \<Longrightarrow>
     triple (cap_inv (flow_with acc)) (erase_data E n) (\<lambda>_. cap_inv flow_ok) R"
  unfolding erase_data_def
proof (rule triple_flow_modify)
  fix f assume "buffer_ok E" "n \<le> length acc" "flow_with acc f"
  then show "flow_ok (flow_accumulated_data_update (\<lambda>b. env_erase_front E b n) f)"
    by (cases f) (auto simp: buffer_ok_def flow_with_def flow_ok_def)
qed

lemma triple_with_buffer:
  "(\<And>acc. triple (cap_inv (flow_with acc)) (g acc) Q R) \<Longrightarrow>
     triple (cap_inv flow_ok) (act_bind (flow_get flow_accumulated_data) g) Q R"
  by (rule triple_flow_case) (simp add: flow_with_def [abs_def])

lemma triple_with_return: "triple (cap_inv (flow_with acc)) (act_return x) (\<lambda>_. cap_inv flow_ok) R"
  by (rule tripleI) (simp add: act_return_def cap_inv_def flow_with_def)

lemma flow_withD: "flow_with acc f \<Longrightarrow> flow_ok f"
  by (simp add: flow_with_def)

lemma triple_consume:
  assumes "buffer_ok E" and "n \<le> length acc"
    and "triple (cap_inv (flow_with acc)) m (\<lambda>_. cap_inv (flow_with acc)) no_throw"
  shows "triple (cap_inv (flow_with acc)) (act_yields [act_when b m, count_response, erase_data E n] again)
    (\<lambda>_. cap_inv flow_ok) R"
  by (intro triple_yields triple_seq_cons [OF triple_when [OF triple_safe [OF assms(3)]]]
      triple_seq_cons [OF triple_counts(1) [OF flow_with_no_counts]]
      triple_seq_cons [OF triple_erase_data [OF assms(1,2)]] triple_seq_nil)

lemma triple_stream_end:
  assumes "engine_ok E"
  shows "triple (cap_inv A) (act_yields [put_end_event E C info what, reset_flow] again) (\<lambda>_. cap_inv flow_ok) R"
  by (intro triple_yields triple_seq_cons [OF triple_put_end_event [OF assms]]
      triple_seq_cons [OF triple_reset_flow] triple_seq_nil)

lemma triple_catch_stream:
  assumes "triple P m (\<lambda>_. cap_inv flow_ok) (stream_throw A)"
    and "triple (cap_inv A) h (\<lambda>_. cap_inv flow_ok) (stream_throw flow_ok)"
    and "\<And>f. A f \<Longrightarrow> flow_ok f"
  shows "triple P (act_catch caught_as_runtime_error m h) (\<lambda>_. cap_inv flow_ok) (stream_throw flow_ok)"
proof (rule triple_catch [OF _ assms(2)])
  show "triple P m (\<lambda>_. cap_inv flow_ok)
      (\<lambda>e s. if caught_as_runtime_error e then cap_inv A s else stream_throw flow_ok e s)"
    by (rule triple_weaken [OF assms(1)]) (auto simp: stream_throw_def cap_inv_def assms(3))
qed

lemma triple_frontier_pass:
  assumes "engine_ok E" and "buffer_ok E"
  shows "triple (cap_inv flow_ok) (frontier_pass E C info) (\<lambda>_. cap_inv flow_ok) (stream_throw flow_ok)"
proof -
  have entry: "triple (cap_inv (flow_with acc)) (act_yields [act_when (capture_bootstrap_details C) (put_frontier_entry E e),
      count_response, erase_data E (pos ks)] True) (\<lambda>_. cap_inv flow_ok) R"
    if "\<not> length acc < 64" and "frontier_entry_read (kstream_of (take 64 acc)) = Inr (e, ks)" for e ks acc R
    using frontier_entry.read_progress [OF that(2)] that(1)
    by (intro triple_consume [OF assms(2)] triple_put_frontier_entry [OF assms(1)])
      (simp_all add: pos_def ks_skip_def kstream_of_def)
  have "triple (cap_inv (flow_with acc)) (act_bind (act_read frontier_entry_read (kstream_of (take 64 acc))) (\<lambda>(entry, ks).
          if all_zero (frontier_entry_account entry) then
            act_yields [put_end_event E C info ''end of frontier_req, responses. valid: '', reset_flow] False
          else
            act_yields [act_when (capture_bootstrap_details C) (put_frontier_entry E entry),
              count_response, erase_data E (pos ks)] True)) (\<lambda>_. cap_inv flow_ok) (stream_throw (flow_with acc))"
    if "\<not> length acc < 64" for acc
    using that by (intro triple_read)
      (auto intro!: triple_stream_end assms entry simp: stream_throw_def)
  moreover have "triple (cap_inv (flow_with acc)) (act_yields [count_invalid] False) (\<lambda>_. cap_inv flow_ok) R" for acc R
    by (rule triple_weaken [OF triple_yields [OF triple_seq_cons [OF triple_counts(2) [OF flow_with_no_counts] triple_seq_nil]]])
      (auto simp: cap_inv_def flow_with_def)
  ultimately show ?thesis
    unfolding frontier_pass_def
    by (intro triple_with_buffer) (auto intro: triple_with_return triple_catch_stream flow_withD)
qed
lemma bulk_entry_selector_ok:
  "bulk_push_entry_read ks = Inr (e, ks') \<Longrightarrow> selector_ok (entry_block e)"
  using consumed_bulk_entry [of ks e ks'] by (simp add: selector_ok_def bulk_entry_wf_def)

lemma triple_blocks_pass:
  assumes "engine_ok E" and "buffer_ok E" and "\<And>acc. entry_read acc = bulk_push_entry_read acc"
    and "\<And>e acc. selector_ok (entry_block e) \<Longrightarrow>
      triple (cap_inv (flow_with acc)) (put_entry e info) (\<lambda>_. cap_inv (flow_with acc)) no_throw"
  shows "triple (cap_inv flow_ok) (blocks_pass E C info entry_read put_entry what)
    (\<lambda>_. cap_inv flow_ok) (stream_throw flow_ok)"
proof -
  have entry: "triple (cap_inv (flow_with acc)) (act_yields [act_when (capture_bootstrap_details C) (put_entry e info),
      count_response, erase_data E (pos ks)] True) (\<lambda>_. cap_inv flow_ok) R"
    if "bulk_push_entry_read (kstream_of acc) = Inr (e, ks)" for e ks acc R
    using bulk_entry_read_pos [OF that] bulk_entry_selector_ok [OF that]
    by (intro triple_consume [OF assms(2)] assms(4)) simp_all
  have "triple (cap_inv (flow_with acc)) (act_bind (act_read entry_read (kstream_of acc)) (\<lambda>(entry, ks).
          act_yields [act_when (capture_bootstrap_details C) (put_entry entry info),
            count_response, erase_data E (pos ks)] True)) (\<lambda>_. cap_inv flow_ok) (stream_throw (flow_with acc))"
    for acc
    by (intro triple_read) (auto intro!: entry simp: stream_throw_def assms(3))
  then have read: "triple (cap_inv (flow_with acc)) (act_catch caught_as_runtime_error
      (act_bind (act_read entry_read (kstream_of acc)) (\<lambda>(entry, ks).
          act_yields [act_when (capture_bootstrap_details C) (put_entry entry info),
            count_response, erase_data E (pos ks)] True)) (act_return False))
      (\<lambda>_. cap_inv flow_ok) (stream_throw flow_ok)" for acc
    by (rule triple_catch_stream) (rule triple_with_return, rule flow_withD)
  show ?thesis
    unfolding blocks_pass_def
    by (rule triple_with_buffer) (simp add: triple_with_return triple_stream_end assms(1) read)
qed

lemma triple_bulk_passes:
  assumes "engine_ok E" and "buffer_ok E"
  shows "triple (cap_inv flow_ok) (bulk_pull_pass E C info) (\<lambda>_. cap_inv flow_ok) (stream_throw flow_ok)"
    and "triple (cap_inv flow_ok) (bulk_push_pass E C info) (\<lambda>_. cap_inv flow_ok) (stream_throw flow_ok)"
  unfolding bulk_pull_pass_def bulk_push_pass_def
  by (rule triple_blocks_pass [OF assms];
      simp add: bulk_pull_entry_read_same triple_put_bulk_entries assms(1) flow_with_no_counts)+

text \<open>The two steps of a stream of pending blocks.\<close>

lemma account_entry_amount:
  "bulk_pull_account_entry_read flags ks = Inr (e, ks') \<Longrightarrow> flags \<noteq> 1 \<Longrightarrow> length (account_entry_amount e) = 16"
  by (auto simp: bulk_pull_account_entry_read_def read_if_def pending_address_only_def ks_bind_def ks_return_def
      reader_simps ks_left_eq split: sum.splits if_splits option.splits)

definition account_ok :: "tcp_flow_data \<Rightarrow> bool" where
  "account_ok f \<longleftrightarrow> flow_ok f \<and>
     (flow_accumulated_data f \<noteq> [] \<longrightarrow> flow_current_msg_type f = ENUM_MSGTYPE_BULK_PULL_ACCOUNT)"

lemma account_ok_flow: "account_ok f \<Longrightarrow> flow_ok f"
  by (simp add: account_ok_def)

lemma account_ok_reset: "account_ok (flow_reset t f)"
  by (simp add: account_ok_def) (simp add: flow_reset_def)

lemma triple_account_first_step:
  assumes "engine_ok E" and "buffer_ok E"
  shows "triple (cap_inv (\<lambda>f. flow_with acc f \<and> flow_step f = 0 \<and> flow_current_msg_type f = ENUM_MSGTYPE_BULK_PULL_ACCOUNT))
    (account_first_step E C acc (kstream_of acc)) (\<lambda>_. cap_inv account_ok) (stream_throw account_ok)"
proof -
  let ?A = "\<lambda>f. flow_with acc f \<and> flow_step f = 0 \<and> flow_current_msg_type f = ENUM_MSGTYPE_BULK_PULL_ACCOUNT"
  let ?B = "\<lambda>f. flow_ok f \<and> flow_step f = 0 \<and> flow_current_msg_type f = ENUM_MSGTYPE_BULK_PULL_ACCOUNT"
  have erase: "triple (cap_inv ?A) (erase_data E n) (\<lambda>_. cap_inv ?B) R" if "n \<le> length acc" for n R
    unfolding erase_data_def
  proof (rule triple_flow_modify)
    fix f assume "?A f"
    with that assms(2) show "?B (flow_accumulated_data_update (\<lambda>b. env_erase_front E b n) f)"
      by (cases f) (auto simp: buffer_ok_def flow_with_def flow_ok_def)
  qed
  have step: "triple (cap_inv ?B) (flow_modify (flow_step_update (\<lambda>n. n + 1))) (\<lambda>_. cap_inv account_ok) R" for R
  proof (rule triple_flow_modify)
    fix f assume "?B f"
    then show "account_ok (flow_step_update (\<lambda>n. n + 1) f)"
      by (cases f) (auto simp: flow_ok_def account_ok_def)
  qed
  have seq: "triple (cap_inv ?A) (act_seq [act_when (capture_bootstrap_details C) (put_frontier_balance E e),
      erase_data E (pos ks), flow_modify (flow_step_update (\<lambda>n. n + 1))]) (\<lambda>_. cap_inv account_ok) R"
    if "frontier_balance_read (kstream_of acc) = Inr (e, ks)" for e ks R
  proof -
    have "frontier_balance_wf e" using frontier_balance.read_consumed [OF that] by blast
    then have "length (frontier_balance_balance e) = 16" by (simp add: frontier_balance_wf_def)
    then have put: "triple (cap_inv ?A) (act_when (capture_bootstrap_details C) (put_frontier_balance E e)) (\<lambda>_. cap_inv ?A) R"
      by (intro triple_when [OF triple_safe [OF triple_put_frontier_balance [OF assms(1)]]])
    have "pos ks \<le> length acc"
      using frontier_balance.read_progress [OF that] by (simp add: pos_def ks_skip_def kstream_of_def ks_left_def)
    from triple_seq_cons [OF put triple_seq_cons [OF erase [OF this] triple_seq_cons [OF step triple_seq_nil]]]
    show ?thesis .
  qed
  show ?thesis
    unfolding account_first_step_def
    by (rule triple_read, simp only: prod.case, rule triple_bind [OF seq], assumption, rule triple_return)
      (auto simp: stream_throw_def cap_inv_def flow_with_def account_ok_def)
qed
lemma triple_account_second_step:
  assumes "engine_ok E"
  shows "triple (cap_inv account_ok) (account_second_step E C info ks) (\<lambda>_. cap_inv account_ok) (stream_throw account_ok)"
proof -
  let ?A = "\<lambda>flags f. account_ok f \<and> flow_request_flags f = flags"
  have counts: "no_counts (?A flags)" for flags
    by (auto simp: no_counts_def account_ok_def flow_ok_def)
  have ok: "cap_inv (?A flags) c \<Longrightarrow> cap_inv account_ok c" for flags c
    by (simp add: cap_inv_def)
  have put: "triple (cap_inv (?A flags)) (act_seq [act_when (capture_bootstrap_details C) (put_bulk_pull_account_entry E e),
      count_response]) (\<lambda>_. cap_inv account_ok) R"
    if "bulk_pull_account_entry_read flags ks = Inr (e, ks')" for e ks' flags R
  proof -
    have "triple (cap_inv (?A flags)) (put_bulk_pull_account_entry E e) (\<lambda>_. cap_inv (?A flags)) no_throw"
      by (rule triple_put_bulk_pull_account_entry [OF assms]) (use account_entry_amount [OF that] in auto)
    then have "triple (cap_inv (?A flags)) (act_when (capture_bootstrap_details C) (put_bulk_pull_account_entry E e))
        (\<lambda>_. cap_inv (?A flags)) R"
      by (intro triple_when [OF triple_safe])
    from triple_seq_cons [OF this triple_seq_cons [OF triple_counts(1) [OF counts] triple_seq_nil]]
    show ?thesis by (rule triple_weaken) (auto simp: ok)
  qed
  have reset: "triple (cap_inv A) reset_flow (\<lambda>_. cap_inv account_ok) R" for A R
    unfolding reset_flow_def by (rule triple_flow_modify) (rule account_ok_reset)
  have finish: "triple (cap_inv A) (act_seq [put_end_event E C info what, reset_flow]) (\<lambda>_. cap_inv account_ok) R" for A what R
    by (rule triple_seq_cons [OF triple_put_end_event [OF assms] triple_seq_cons [OF reset triple_seq_nil]])
  show ?thesis
    unfolding account_second_step_def
    by (rule triple_flow_case, rule triple_read, simp only: prod.case)
      (auto simp: stream_throw_def ok intro: finish put simp del: act_seq.simps)
qed

text \<open>A pass keeps the invariant, and nothing it throws escapes but an exception that is no \<open>runtime_error\<close>.\<close>

lemma triple_account_pass:
  assumes "engine_ok E" and "buffer_ok E"
  shows "triple (cap_inv account_ok) (account_pass E C info) (\<lambda>_. cap_inv account_ok) (stream_throw account_ok)"
proof -
  have second: "triple (cap_inv account_ok) (act_bind (flow_get flow_step) (\<lambda>step.
      act_bind (act_when (step = 1) (account_second_step E C info ks)) (\<lambda>_. act_return True)))
      (\<lambda>_. cap_inv account_ok) (stream_throw account_ok)" for ks
    by (rule triple_flow_case, rule triple_bind [where Q' = "\<lambda>_. cap_inv account_ok", OF triple_when],
        rule triple_weaken [OF triple_account_second_step [OF assms(1)]])
      (auto simp: cap_inv_def intro: triple_return)
  have first: "triple (cap_inv (\<lambda>f. (account_ok f \<and> flow_accumulated_data f = acc) \<and> flow_step f = step))
      (if step = 0 then account_first_step E C acc (kstream_of acc) else act_return (kstream_of acc))
      (\<lambda>_. cap_inv account_ok) (stream_throw account_ok)" if "acc \<noteq> []" for acc step
  proof (cases "step = 0")
    case True
    then show ?thesis
      using that by simp (rule triple_weaken [OF triple_account_first_step [OF assms]],
          auto simp: cap_inv_def account_ok_def flow_with_def)
  next
    case False
    then show ?thesis by (auto simp: triple_def act_return_def cap_inv_def)
  qed
  have body: "triple (cap_inv (\<lambda>f. account_ok f \<and> flow_accumulated_data f = acc)) (act_bind (flow_get flow_step) (\<lambda>step.
      act_bind (if step = 0 then account_first_step E C acc (kstream_of acc) else act_return (kstream_of acc)) (\<lambda>ks.
      act_bind (flow_get flow_step) (\<lambda>step.
      act_bind (act_when (step = 1) (account_second_step E C info ks)) (\<lambda>_. act_return True)))))
      (\<lambda>_. cap_inv account_ok) (stream_throw account_ok)" if "acc \<noteq> []" for acc
    by (rule triple_flow_case, rule triple_bind [OF first [OF that]], rule second)
  have caught: "triple (cap_inv (\<lambda>f. account_ok f \<and> flow_accumulated_data f = acc)) (act_catch caught_as_runtime_error
      (act_bind (flow_get flow_step) (\<lambda>step.
      act_bind (if step = 0 then account_first_step E C acc (kstream_of acc) else act_return (kstream_of acc)) (\<lambda>ks.
      act_bind (flow_get flow_step) (\<lambda>step.
      act_bind (act_when (step = 1) (account_second_step E C info ks)) (\<lambda>_. act_return True))))) (act_return False))
      (\<lambda>_. cap_inv account_ok) (stream_throw account_ok)" if "acc \<noteq> []" for acc
    by (rule triple_catch [OF triple_weaken [OF body [OF that]] triple_return [of "\<lambda>_. cap_inv account_ok"]])
      (auto simp: stream_throw_def)
  show ?thesis
    unfolding account_pass_def
    by (rule triple_flow_case) (auto intro: caught simp: triple_def [of _ "act_return False"] act_return_def cap_inv_def)
qed
section \<open>Messages\<close>

lemma selector_wf_ok: "selector_wf h s \<Longrightarrow> selector_ok s"
  by (simp add: selector_wf_def selector_ok_def)

lemma triple_message_seen:
  assumes "engine_ok E"
  shows "triple (cap_inv flow_ok) (message_seen E C info t event) (\<lambda>_. cap_inv flow_ok) R"
  unfolding message_seen_def
  by (rule triple_seq_cons [OF triple_flow_modify triple_seq_cons
      [OF triple_when [OF triple_safe [OF triple_put_connection_of [OF assms]]] triple_seq_nil]]) simp_all

lemma triple_handled:
  assumes "engine_ok E" and "triple (cap_inv flow_ok) m (\<lambda>_. cap_inv flow_ok) no_throw"
  shows "triple (cap_inv flow_ok) (act_seq [message_seen E C info t event, m]) (\<lambda>_. cap_inv flow_ok) R"
  by (rule triple_seq_cons [OF triple_message_seen [OF assms(1)] triple_seq_cons [OF triple_safe [OF assms(2)] triple_seq_nil]])

lemma triple_handle_bulk_pull_account:
  assumes "engine_ok E" and "counted h" and "bulk_pull_account_wf m"
  shows "triple (cap_inv flow_ok) (handle_bulk_pull_account E C h m info) (\<lambda>_. cap_inv flow_ok) R"
proof -
  let ?B = "\<lambda>f. flow_ok f \<and> flow_current_msg_type f = ENUM_MSGTYPE_BULK_PULL_ACCOUNT"
  have "triple (cap_inv flow_ok) (flow_modify (flow_reset ENUM_MSGTYPE_BULK_PULL_ACCOUNT)) (\<lambda>_. cap_inv ?B) R"
    by (rule triple_flow_modify) (simp, simp add: flow_reset_def)
  moreover have "triple (cap_inv ?B) (flow_modify (flow_request_flags_update (\<lambda>_. x))) (\<lambda>_. cap_inv flow_ok) R" for x
    by (rule triple_flow_modify) (auto simp: flow_ok_def)
  moreover have "triple (cap_inv flow_ok) (put_bulk_pull_account E C h m info) (\<lambda>_. cap_inv flow_ok) no_throw"
    using assms(3) by (intro triple_put_bulk_pull_account assms(1,2) flow_ok_no_ids) (simp add: bulk_pull_account_wf_def)
  ultimately show ?thesis
    unfolding handle_bulk_pull_account_def
    by - (rule triple_seq_cons [OF _ triple_seq_cons [OF _ triple_seq_cons [OF triple_when
          [OF triple_safe [OF triple_put_connection_of [OF assms(1)]]]
          triple_seq_cons [OF triple_safe triple_seq_nil]]]], assumption+)
qed

lemma triple_handle_body:
  assumes "engine_ok E" and "nano_wf proto"
  shows "triple (cap_inv flow_ok) (handle_body E C proto info) (\<lambda>_. cap_inv flow_ok) R"
proof -
  let ?h = "nano_header proto"
  have wf: "nano_body_wf ?h (nano_body proto)" using assms(2) by (simp add: nano_wf_def)
  note db = triple_on_db_inv triple_put_keepalive triple_put_confirm_ack triple_put_block_content
    triple_put_node_id_handshake triple_put_telemetry_req triple_put_telemetry_ack
  note cap = triple_put_frontier_req triple_put_bulk_pull triple_put_bulk_push
  note handlers = handle_keepalive_def handle_confirm_ack_def handle_confirm_req_def handle_publish_def
    handle_node_id_handshake_def handle_frontier_req_def handle_telemetry_req_def handle_telemetry_ack_def
    handle_bulk_pull_def handle_bulk_push_def
  have none: "triple (cap_inv flow_ok) (act_return ()) (\<lambda>_. cap_inv flow_ok) R" by (rule triple_return)
  show ?thesis
  proof (cases "hdr_message_type ?h = ENUM_MSGTYPE_BULK_PULL_ACCOUNT")
    case True
    then have "counted ?h" by (simp add: counted_def)
    with True wf show ?thesis
      by (cases "nano_body proto") (auto simp: handle_body_def intro!: triple_handle_bulk_pull_account assms(1))
  next
    case False
    with wf show ?thesis
      unfolding handle_body_def Let_def
      by (cases "nano_body proto")
        (simp_all add: none handlers put_confirm_req_def put_publish_def del: act_seq.simps,
         auto intro!: none triple_handled [OF assms(1)] cap db assms(1) flow_ok_no_ids
           simp: counted_def option_wf_def selector_wf_ok simp del: act_seq.simps split: option.splits)
  qed
qed
section \<open>The data of a packet\<close>

lemma triple_handle_message_data:
  assumes "engine_ok E"
  shows "triple (cap_inv flow_ok) (handle_message_data E C info) (\<lambda>_. cap_inv flow_ok) (stream_throw flow_ok)"
  unfolding handle_message_data_def
proof (rule triple_read, simp only: prod.case)
  fix proto ks assume "nano_read (kstream_of (info_data info)) = Inr (proto, ks)"
  then have "nano_wf proto" using nano_read_inv by blast
  then show "triple (cap_inv flow_ok) (act_seq [reset_flow, handle_body E C proto info])
      (\<lambda>_. cap_inv flow_ok) (stream_throw flow_ok)"
    by (intro triple_seq_cons [OF triple_reset_flow] triple_seq_cons [OF triple_handle_body] triple_seq_nil assms)
qed (simp add: stream_throw_def)

definition safe_result :: "(failure + unit) \<times> cap \<Rightarrow> bool" where
  "safe_result y \<longleftrightarrow> (case fst y of Inl e \<Rightarrow> stream_throw flow_ok e (snd y) | Inr _ \<Rightarrow> cap_inv flow_ok (snd y))"

lemma safe_loop:
  assumes "triple (cap_inv A) pass (\<lambda>_. cap_inv A) (stream_throw A)" and "\<And>f. A f \<Longrightarrow> flow_ok f"
    and "cap_inv A c" and "act_loop pass c = Some y"
  shows "safe_result y"
proof -
  have "case pass s of (Inl e, s') \<Rightarrow> safe_result (Inl e, s')
      | (Inr again, s') \<Rightarrow> if again then cap_inv A s' else safe_result (Inr (), s')" if "cap_inv A s" for s
  proof (cases "pass s")
    case (Pair r s')
    show ?thesis
    proof (cases r)
      case (Inl e)
      with tripleD_throw [OF assms(1) that] Pair have "stream_throw A e s'" by simp
      with Pair Inl assms(2) show ?thesis by (auto simp: safe_result_def stream_throw_def cap_inv_def)
    next
      case (Inr again)
      with tripleD [OF assms(1) that] Pair have "cap_inv A s'" by simp
      with Pair Inr assms(2) show ?thesis by (simp add: safe_result_def cap_inv_def)
    qed
  qed
  from act_loop_invariant [where Q = "\<lambda>r s. safe_result (r, s)", OF assms(4,3) this] show ?thesis by simp
qed

lemma push_data_inv:
  assumes "buffer_ok E" and "cap_inv flow_ok c" and "stream_type (flow_current_msg_type (cap_flow c))"
  shows "\<exists>c'. push_data E info c = (Inr (), c') \<and> cap_inv flow_ok c' \<and>
    flow_current_msg_type (cap_flow c') = flow_current_msg_type (cap_flow c)"
proof -
  have "length (foldl (env_push_back E BUFFER_CAPACITY) (buffer c) (info_data info)) \<le> BUFFER_CAPACITY"
    using assms(2) by (intro length_push_back [OF assms(1)]) (simp_all add: BUFFER_CAPACITY_def cap_inv_def flow_ok_def)
  with assms(2,3) show ?thesis
    by (cases "cap_flow c") (auto simp: push_data_def flow_modify_def act_modify_def cap_inv_def flow_ok_def)
qed

lemma safe_stream:
  assumes "buffer_ok E" and "cap_inv flow_ok c" and "stream_type (flow_current_msg_type (cap_flow c))"
    and "triple (cap_inv A) pass (\<lambda>_. cap_inv A) (stream_throw A)" and "\<And>f. A f \<Longrightarrow> flow_ok f"
    and "\<And>f. flow_ok f \<Longrightarrow> flow_current_msg_type f = flow_current_msg_type (cap_flow c) \<Longrightarrow> A f"
    and "after (push_data E info) (act_loop pass) c = Some y"
  shows "safe_result y"
proof -
  from push_data_inv [OF assms(1-3)] obtain c' where c': "push_data E info c = (Inr (), c')" "cap_inv flow_ok c'"
      "flow_current_msg_type (cap_flow c') = flow_current_msg_type (cap_flow c)" by blast
  then have "cap_inv A c'" using assms(6) by (simp add: cap_inv_def)
  moreover from c'(1) assms(7) have "act_loop pass c' = Some y" by (simp add: after_def)
  ultimately show ?thesis using safe_loop [OF assms(4,5)] by blast
qed

lemma safe_tcp_data:
  assumes "engine_ok E" and "buffer_ok E" and "cap_inv flow_ok c" and "tcp_data E C info c = Some y"
  shows "safe_result y"
proof -
  note stream = safe_stream [OF assms(2,3) _ _ _ _, rotated -1]
  note frontier = stream [OF _ _ triple_frontier_pass [OF assms(1,2)]]
    and pull = stream [OF _ _ triple_bulk_passes(1) [OF assms(1,2)]]
    and push = stream [OF _ _ triple_bulk_passes(2) [OF assms(1,2)]]
    and account = stream [OF _ _ triple_account_pass [OF assms(1,2)] account_ok_flow]
  have msg: "safe_result (handle_message_data E C info c)"
    using triple_handle_message_data [OF assms(1), of C info] assms(3)
    by (auto simp: triple_def safe_result_def split: prod.splits sum.splits)
  show ?thesis
    using assms(4) msg unfolding tcp_data_def Let_def
    by (auto split: if_splits intro: frontier pull push account simp: account_ok_def)
qed

text \<open>
  Whatever the packet and whatever state the connection is in: what escapes a call is an
  exception of the stream.
\<close>

theorem tcp_data_throws_stream_exceptions:
  assumes "engine_ok E" and "buffer_ok E" and "db_inv (cap_db c)" and "flow_ok (cap_flow c)"
    and "tcp_data E C info c = Some (Inl e, c')"
  shows "\<exists>x. e = StreamException x"
  using safe_tcp_data [OF assms(1,2) _ assms(5)] assms(3,4)
  by (simp add: safe_result_def stream_throw_def cap_inv_def)

end
