(* ===== verification/HandlerRuns.thy ===== *)
theory HandlerRuns
  imports HandlerSafety
begin

text \<open>
  Runs of the packet handler: the invariant of its state over every order of callbacks and rounds
  of the processing thread, what follows for the database, and that the queue is worked off. At
  the end there is an environment that satisfies what is assumed of one.
\<close>

section \<open>The invariant of the handler\<close>

definition ph_inv :: "packet_handler \<Rightarrow> bool" where
  "ph_inv s \<longleftrightarrow> db_inv (ph_db s) \<and> (\<forall>k f. ph_conn_mgr s k = Some f \<longrightarrow> flow_ok f) \<and>
     (\<forall>p \<in> set (ph_packet_queue s). info_data p \<noteq> [] \<and> ph_conn_mgr s (info_flow_key p) \<noteq> None)"

lemma ph_inv_start: "db_inv d \<Longrightarrow> ph_inv (ph_start d)"
  by (simp add: ph_inv_def ph_start_def)

lemma ph_put_connection_ok:
  assumes "engine_ok E" and "db_inv (ph_db s)"
  shows "\<exists>d. ph_put_connection E k event s = (Inr (), s\<lparr>ph_db := d\<rparr>) \<and> db_inv d"
proof -
  have "triple db_inv (put_connection E (uint (conn_ip_version k)) (conn_src_ip k) (conn_src_port k)
      (conn_dst_ip k) (conn_dst_port k) (conn_flow_key k) event) (\<lambda>_. db_inv) no_throw"
    unfolding db_inv_eq by (rule triple_put_connection [OF assms(1)])
  from triple_returns [OF this assms(2)] show ?thesis
    by (auto simp: ph_put_connection_def act_zoom_def)
qed

lemma connection_start_ok:
  assumes "engine_ok E" and "ph_inv s"
  shows "\<exists>s'. connection_start E k s = (Inr (), s') \<and> ph_inv s'"
proof -
  obtain d where d: "ph_put_connection E k ''open connection'' s = (Inr (), s\<lparr>ph_db := d\<rparr>)" "db_inv d"
    using ph_put_connection_ok [OF assms(1)] assms(2) unfolding ph_inv_def by blast
  then show ?thesis
    using assms(2)
    by (auto simp: connection_start_def act_bind_def act_modify_def act_return_def ph_inv_def split: option.split)
qed

lemma connection_end_ok:
  assumes "engine_ok E" and "ph_inv s"
  shows "\<exists>s'. connection_end E k s = (Inr (), s') \<and> ph_inv s'"
  using ph_put_connection_ok [OF assms(1), of s k "''close connection''"] assms(2)
  by (auto simp: connection_end_def ph_inv_def)

lemma msg_ready_inv: "ph_inv s \<Longrightarrow> ph_inv (msg_ready k data side s)"
  by (auto simp: msg_ready_def Let_def ph_inv_def packet_of_def split: if_splits)

lemma handle_tcp_safe:
  assumes "engine_ok E" and "buffer_ok E" and "db_inv (cap_db c)" and "flow_ok (cap_flow c)"
    and "handle_tcp E C info c = Some (out, c')"
  shows "out \<noteq> UndefinedBehaviour \<and> db_inv (cap_db c') \<and> flow_ok (cap_flow c')"
proof -
  obtain r where y: "tcp_data E C info c = Some (r, c')"
    using assms(5) by (auto simp: handle_tcp_def split: option.splits sum.splits prod.splits)
  have "safe_result (r, c')"
    using safe_tcp_data [OF assms(1,2) _ y] assms(3,4) by (simp add: cap_inv_def)
  with y assms(5) show ?thesis
    by (cases r) (auto simp: handle_tcp_def safe_result_def stream_throw_def cap_inv_def split: if_splits)
qed

lemma process_packet_ok:
  assumes "engine_ok E" and "buffer_ok E" and "ph_inv s" and "process_packet E C s = Some (out, s')"
  shows "out \<noteq> UndefinedBehaviour \<and> ph_inv s'"
proof (cases "ph_stopped s \<or> ph_packet_queue s = []")
  case True
  with assms(3,4) show ?thesis by (auto simp: process_packet_def split: if_splits)
next
  case False
  then obtain info q where q: "ph_packet_queue s = info # q" by (cases "ph_packet_queue s") auto
  with assms(3) obtain f where f: "ph_conn_mgr s (info_flow_key info) = Some f" "flow_ok f"
    by (fastforce simp: ph_inv_def)
  with False q assms(4) obtain c where c: "handle_tcp E C info \<lparr>cap_db = ph_db s, cap_flow = f\<rparr> = Some (out, c)"
    and s': "s' = s\<lparr>ph_packet_queue := q, ph_db := cap_db c,
      ph_conn_mgr := (ph_conn_mgr s)(info_flow_key info \<mapsto> cap_flow c),
      ph_packet_parse_error_count := ph_packet_parse_error_count s + (if out = ParseError then 1 else 0)\<rparr>"
    by (auto simp: process_packet_def split: option.splits)
  have "db_inv (ph_db s)" using assms(3) by (simp add: ph_inv_def)
  with handle_tcp_safe [OF assms(1,2) _ _ c] f(2)
  have "out \<noteq> UndefinedBehaviour" "db_inv (cap_db c)" "flow_ok (cap_flow c)" by simp_all
  with assms(3) q s' show ?thesis by (auto simp: ph_inv_def)
qed

lemma ph_step_inv:
  "ph_step E C s ev s' \<Longrightarrow> engine_ok E \<Longrightarrow> buffer_ok E \<Longrightarrow> ph_inv s \<Longrightarrow> ph_inv s'"
proof (induction rule: ph_step.induct)
  case (start k s s')
  then show ?case using connection_start_ok [of E s k] by auto
next
  case (finish k s s')
  then show ?case using connection_end_ok [of E s k] by auto
next
  case (process s out s')
  then show ?case using process_packet_ok by blast
qed (simp_all add: msg_ready_inv, simp add: ph_inv_def stop_packet_processing_thread_def)

lemma ph_run_inv:
  assumes "ph_run E C s evs s'" and "engine_ok E" and "buffer_ok E" and "ph_inv s"
  shows "ph_inv s'"
  using assms by (induction rule: ph_run.induct) (auto intro: ph_step_inv)
text \<open>C4: 
  Whatever the order of the callbacks and of the rounds of the processing thread: no call and no
  round runs into a cast of a body or block to a class it is not an object of, a counter out of
  bounds, a conversion of a balance that is not 16 bytes long or a packet without a connection,
  and the database rejects nothing a callback asks of it. It is assumed that the engine takes
  every row the schema allows and that the buffer is the circular buffer it is documented to be.
\<close>

theorem handler_never_undefined:
  assumes "engine_ok E" and "buffer_ok E" and "db_inv d" and "ph_run E C (ph_start d) evs s"
  shows "(\<forall>out s'. process_packet E C s = Some (out, s') \<longrightarrow> out \<noteq> UndefinedBehaviour) \<and>
    (\<forall>k. \<exists>s'. connection_start E k s = (Inr (), s')) \<and> (\<forall>k. \<exists>s'. connection_end E k s = (Inr (), s'))"
proof -
  have inv: "ph_inv s" using ph_run_inv [OF assms(4,1,2) ph_inv_start [OF assms(3)]] .
  show ?thesis
    using process_packet_ok [OF assms(1,2) inv] connection_start_ok [OF assms(1) inv]
      connection_end_ok [OF assms(1) inv] by blast
qed

text \<open>C12: 
  In every state the handler can reach, each counter of \<open>count_per_type\<close> is the number of rows of
  its type in the packet table, the keys of every table are distinct and below \<open>next_id\<close>, every
  connection has at most 4096 bytes of a stream buffered, and only while it is in a stream, and
  every packet in the queue has data and a connection.
\<close>

theorem handler_invariant:
  assumes "engine_ok E" and "buffer_ok E" and "db_inv d" and "ph_run E C (ph_start d) evs s"
  shows "(\<forall>k < 32. db_count_per_type (ph_db s) ! k = of_nat (packets_of_type (db_history (ph_db s)) k)) \<and>
    (\<forall>t. t \<noteq> TableRuns \<longrightarrow> distinct (map hd (rows (db_history (ph_db s)) t)) \<and>
       (\<forall>r \<in> set (rows (db_history (ph_db s)) t). \<exists>i < db_next_id (ph_db s). hd r = SqlInt i)) \<and>
    (\<forall>k f. ph_conn_mgr s k = Some f \<longrightarrow> length (flow_accumulated_data f) \<le> 4096 \<and>
       (flow_accumulated_data f \<noteq> [] \<longrightarrow> stream_type (flow_current_msg_type f))) \<and>
    (\<forall>p \<in> set (ph_packet_queue s). info_data p \<noteq> [] \<and> ph_conn_mgr s (info_flow_key p) \<noteq> None)"
proof -
  have inv: "ph_inv s" using ph_run_inv [OF assms(4,1,2) ph_inv_start [OF assms(3)]] .
  then have "db_mid {} ready (\<lambda>_. 0) (ph_db s)" by (simp add: ph_inv_def db_inv_eq)
  then have "\<forall>k < 32. db_count_per_type (ph_db s) ! k = of_nat (packets_of_type (db_history (ph_db s)) k)"
    and "\<forall>t. t \<noteq> TableRuns \<longrightarrow> distinct (map hd (rows (db_history (ph_db s)) t)) \<and>
       (\<forall>r \<in> set (rows (db_history (ph_db s)) t). \<exists>i < db_next_id (ph_db s). hd r = SqlInt i)"
    unfolding db_mid_def by (simp, blast)
  with inv show ?thesis by (auto simp: ph_inv_def flow_ok_def BUFFER_CAPACITY_def)
qed

section \<open>An environment\<close>

text \<open>An engine that takes every call, and a circular buffer on lists.\<close>

definition sample_environment :: environment where
  "sample_environment = \<lparr>
     sqlite_call = (\<lambda>h ev. case ev of SqlInsert t vs \<Rightarrow> SQLITE_DONE | _ \<Rightarrow> SQLITE_OK),
     sqlite_bytes = (\<lambda>h. 0), env_max_run = (\<lambda>h. 1), env_packets_per_type = (\<lambda>h. []),
     env_time_text = (\<lambda>t. None), env_address_text = (\<lambda>b. ''''),
     env_push_back = (\<lambda>n b x. if length b < n then b @ [x] else tl b @ [x]),
     env_erase_front = (\<lambda>b n. drop n b), env_beyond = (\<lambda>b n. drop (length b - n) b)\<rparr>"

lemma sample_ok: "engine_ok sample_environment" "buffer_ok sample_environment" "erasing sample_environment"
  by (auto simp: engine_ok_def buffer_ok_def erasing_def sample_environment_def split: sql_event.splits)

definition sample_db :: db where
  "sample_db = snd (db_init sample_environment (db_start []))"

lemma sample_db_inv: "db_inv sample_db"
proof -
  have "start_ok sample_environment []"
    by (simp add: start_ok_def Let_def sample_environment_def rows_def packets_of_type_def types_known_def)
  from db_init_inv [OF sample_ok(1) this] show ?thesis by (auto simp: sample_db_def)
qed

definition sample_connection :: connection_data where
  "sample_connection = \<lparr>conn_flow_key = 7, conn_src_ip = ''10.0.0.1'', conn_src_port = 7075,
     conn_dst_ip = ''10.0.0.2'', conn_dst_port = 7075, conn_ip_version = 4,
     conn_end_time_sec = 0, conn_end_time_usec = 0\<rparr>"

lemma sample_run:
  "\<exists>s. ph_run sample_environment C (ph_start sample_db)
     [ConnectionStart sample_connection, MsgReady sample_connection [1, 2, 3] 0] s \<and> ph_packet_queue s \<noteq> []"
proof -
  obtain s where "connection_start sample_environment sample_connection (ph_start sample_db) = (Inr (), s)"
    using connection_start_ok [OF sample_ok(1) ph_inv_start [OF sample_db_inv]] by blast
  then have "ph_step sample_environment C (ph_start sample_db) (ConnectionStart sample_connection) s"
    by (rule ph_step.start)
  from ph_run.snoc [OF ph_run.snoc [OF ph_run.nil this] ph_step.ready]
  have "ph_run sample_environment C (ph_start sample_db)
      [ConnectionStart sample_connection, MsgReady sample_connection [1, 2, 3] 0]
      (msg_ready sample_connection [1, 2, 3] 0 s)" by simp
  moreover have "ph_packet_queue (msg_ready sample_connection [1, 2, 3] 0 s) \<noteq> []"
    by (simp add: msg_ready_def Let_def hasMissingData_def)
  ultimately show ?thesis by blast
qed

theorem handler_never_undefined_witness:
  "\<exists>s. ph_packet_queue s \<noteq> [] \<and>
     (\<forall>out s'. process_packet sample_environment config_capture_default s = Some (out, s') \<longrightarrow> out \<noteq> UndefinedBehaviour)"
  using sample_run [of config_capture_default] handler_never_undefined [OF sample_ok(1,2) sample_db_inv] by meson

theorem handler_invariant_witness:
  "\<exists>s :: packet_handler. ph_packet_queue s \<noteq> [] \<and>
     (\<forall>k < 32. db_count_per_type (ph_db s) ! k = of_nat (packets_of_type (db_history (ph_db s)) k))"
  using sample_run [of config_capture_default] handler_invariant [OF sample_ok(1,2) sample_db_inv] by meson

section \<open>The queue is worked off\<close>

abbreviation stream :: "cap \<Rightarrow> enum_msgtype_t" where
  "stream c \<equiv> flow_current_msg_type (cap_flow c)"

lemma keeps_stream [keeps]:
  "keeps stream (put_frontier_req E C h m1 info)" "keeps stream (put_bulk_pull E C h m2 info)"
  "keeps stream (put_bulk_push E C h info)" "keeps stream new_packet_id" "keeps stream new_message_id"
  "keeps stream (put_frontier_entry E e)" "keeps stream (put_end_event E C info what)"
  "keeps stream (put_bulk_pull_entry E C b info)" "keeps stream (put_bulk_push_entry E C b info)"
  "keeps stream count_response" "keeps stream count_invalid" "keeps stream (erase_data E n)" "keeps stream (push_data E info)"
proof -
  show ids: "keeps stream new_packet_id" "keeps stream new_message_id"
    unfolding new_packet_id_def new_message_id_def by (intro keeps; simp)+
  show "keeps stream (put_frontier_req E C h m1 info)" "keeps stream (put_bulk_pull E C h m2 info)"
      "keeps stream (put_bulk_push E C h info)"
    unfolding put_frontier_req_def put_bulk_pull_def put_bulk_push_def
    by (auto intro!: keeps ids simp del: act_seq.simps)
  show "keeps stream (put_frontier_entry E e)" "keeps stream (put_end_event E C info what)"
    unfolding put_frontier_entry_def put_end_event_def by (intro keeps)+
  have block: "keeps stream (put_block_entry E C t request owner event b info)" for t request owner event
    unfolding put_block_entry_def by (auto intro!: keeps)
  show "keeps stream (put_bulk_pull_entry E C b info)" "keeps stream (put_bulk_push_entry E C b info)"
    unfolding put_bulk_pull_entry_def put_bulk_push_entry_def by (rule block)+
  show "keeps stream count_response" "keeps stream count_invalid" "keeps stream (erase_data E n)"
      "keeps stream (push_data E info)"
    unfolding count_response_def count_invalid_def erase_data_def push_data_def by (intro keeps; simp)+
qed

text \<open>No stream of pending blocks.\<close>

definition calm :: "cap \<Rightarrow> bool" where
  "calm c \<longleftrightarrow> stream c \<noteq> ENUM_MSGTYPE_BULK_PULL_ACCOUNT"

abbreviation calm_triple :: "(cap, 'a) act \<Rightarrow> bool" where
  "calm_triple m \<equiv> triple calm m (\<lambda>_. calm) (\<lambda>_. calm)"

lemma calm_keeps: "keeps stream m \<Longrightarrow> calm_triple m"
  by (auto intro!: tripleI simp: calm_def split: prod.split sum.split dest: keepsD)

lemma calm_rules:
  "calm_triple (act_return x)"
  "(\<And>m. m \<in> set ms \<Longrightarrow> calm_triple m) \<Longrightarrow> calm_triple (act_seq ms)"
  "(\<And>m. m \<in> set ms \<Longrightarrow> calm_triple m) \<Longrightarrow> calm_triple (act_yields ms again)"
  "(b \<Longrightarrow> calm_triple m) \<Longrightarrow> calm_triple (act_when b m)"
  "calm_triple n1 \<Longrightarrow> (\<And>x. calm_triple (g x)) \<Longrightarrow> calm_triple (act_bind n1 g)"
  "calm_triple n2 \<Longrightarrow> calm_triple h \<Longrightarrow> calm_triple (act_catch P n2 h)"
  "calm_triple reset_flow" "calm_triple (on_db n)" "calm_triple (flow_get k)" "calm_triple (act_read r ks)"
  "t \<noteq> ENUM_MSGTYPE_BULK_PULL_ACCOUNT \<Longrightarrow> calm_triple (flow_modify (flow_reset t))"
proof -
  show seq: "calm_triple (act_seq ms)" if "\<And>m. m \<in> set ms \<Longrightarrow> calm_triple m" for ms
    using that by (rule triple_seq)
  show "calm_triple (act_return x)" by (rule triple_return)
  show "calm_triple (act_yields ms again)" if "\<And>m. m \<in> set ms \<Longrightarrow> calm_triple m"
    using seq [OF that] by (rule triple_yields)
  show "calm_triple (act_bind n1 g)" if "calm_triple n1" "\<And>x. calm_triple (g x)"
    using that by (rule triple_bind)
  show "calm_triple (act_when b m)" if "b \<Longrightarrow> calm_triple m"
    using that by (rule triple_when)
  show "calm_triple (act_catch P n2 h)" if "calm_triple n2" "calm_triple h"
    by (rule triple_catch [OF _ that(2)], rule triple_weaken [OF that(1)]) simp_all
  show "calm_triple (on_db n)"
    by (rule calm_keeps) (rule keeps)
  show "calm_triple (flow_get k)" "calm_triple (act_read r ks)"
    unfolding flow_get_def by (rule calm_keeps; rule keeps)+
  show "calm_triple (flow_modify (flow_reset t))" if "t \<noteq> ENUM_MSGTYPE_BULK_PULL_ACCOUNT" for t
    using that by (intro tripleI) (simp add: flow_modify_def act_modify_def calm_def flow_reset_def)
  from this [of ENUM_MSGTYPE_INVALID] show "calm_triple reset_flow" by (simp add: reset_flow_def)
qed

lemma calm_passes:
  "calm_triple (frontier_pass E C info)" "calm_triple (bulk_pull_pass E C info)" "calm_triple (bulk_push_pass E C info)"
  unfolding frontier_pass_def bulk_pull_pass_def bulk_push_pass_def blocks_pass_def
  by (auto intro!: calm_rules keeps_stream [THEN calm_keeps])
text \<open>A packet that is not, by its header, a request for the pending blocks of an account.\<close>

definition no_account_request :: "bytes \<Rightarrow> bool" where
  "no_account_request data \<longleftrightarrow> (length data > 5 \<longrightarrow> data ! 5 \<noteq> 11)"

lemma message_type_byte:
  assumes "nano_read (kstream_of data) = Inr (proto, ks)"
  shows "5 < length data \<and> data ! 5 = enum_msgtype_val (hdr_message_type (nano_header proto))"
proof -
  obtain rest where "ks_rest (kstream_of data) = nano_wire proto @ rest"
    using nano_read_inv [OF assms] unfolding consumed_def by blast
  then have "data = nano_wire proto @ rest" by simp
  moreover have "hdr_magic (nano_header proto) = [0x52]"
    using nano_read_inv [OF assms] by (simp add: nano_wf_def header_wf_def)
  ultimately show ?thesis by (simp add: nano_wire_def header_wire_def)
qed

lemma calm_handle_body:
  assumes "hdr_message_type (nano_header proto) \<noteq> ENUM_MSGTYPE_BULK_PULL_ACCOUNT"
  shows "calm_triple (handle_body E C proto info)"
  using assms
  unfolding handle_body_def Let_def handle_keepalive_def handle_confirm_ack_def handle_confirm_req_def handle_publish_def
    handle_node_id_handshake_def handle_frontier_req_def handle_telemetry_req_def handle_telemetry_ack_def
    handle_bulk_pull_def handle_bulk_push_def message_seen_def
  by (cases "hdr_message_type (nano_header proto)"; cases "nano_body proto")
    (auto intro!: calm_rules keeps_stream [THEN calm_keeps] calm_keeps [OF keeps_basic(2)] simp del: act_seq.simps)

lemma calm_handle_message_data:
  assumes "no_account_request (info_data info)"
  shows "calm_triple (handle_message_data E C info)"
  unfolding handle_message_data_def
proof (rule triple_read, simp only: prod.case)
  fix proto ks assume "nano_read (kstream_of (info_data info)) = Inr (proto, ks)"
  with assms message_type_byte have "enum_msgtype_val (hdr_message_type (nano_header proto)) \<noteq> 11"
    by (fastforce simp: no_account_request_def)
  then have "hdr_message_type (nano_header proto) \<noteq> ENUM_MSGTYPE_BULK_PULL_ACCOUNT" by auto
  then show "calm_triple (act_seq [reset_flow, handle_body E C proto info])"
    by (auto intro!: calm_rules calm_handle_body simp del: act_seq.simps)
qed simp

lemma calm_loop:
  assumes "calm_triple pass" and "calm c" and "after (push_data E info) (act_loop pass) c = Some (r, c')"
  shows "calm c'"
proof -
  have "case pass s of (Inl e, s') \<Rightarrow> calm s' | (Inr again, s') \<Rightarrow> if again then calm s' else calm s'" if "calm s" for s
    using assms(1) that by (auto simp: triple_def split: prod.splits sum.splits)
  moreover have "calm (snd (push_data E info c))"
    using assms(2) by (simp add: push_data_def flow_modify_def act_modify_def calm_def)
  ultimately show ?thesis
    using assms(3) act_loop_invariant [where Q = "\<lambda>_. calm" and I = calm and pass = pass and y = "(r, c')"]
    by (auto simp: after_def push_data_def flow_modify_def act_modify_def)
qed

lemma handle_tcp_calm:
  assumes "calm c" and "no_account_request (info_data info)" and "handle_tcp E C info c = Some (out, c')"
  shows "calm c'"
proof -
  obtain r where y: "tcp_data E C info c = Some (r, c')"
    using assms(3) by (auto simp: handle_tcp_def split: option.splits sum.splits prod.splits)
  have msg: "calm c'" if "handle_message_data E C info c = (r, c')"
    using calm_handle_message_data [OF assms(2), of E C] assms(1) that
    by (cases r) (auto simp: triple_def split: prod.splits sum.splits)
  have "stream c \<noteq> ENUM_MSGTYPE_BULK_PULL_ACCOUNT" using assms(1) by (simp add: calm_def)
  with y show ?thesis
    unfolding tcp_data_def Let_def
    by (auto split: if_splits intro: msg calm_loop [OF calm_passes(1) assms(1)]
        calm_loop [OF calm_passes(2) assms(1)] calm_loop [OF calm_passes(3) assms(1)])
qed
definition ph_calm :: "packet_handler \<Rightarrow> bool" where
  "ph_calm s \<longleftrightarrow>
     (\<forall>k f. ph_conn_mgr s k = Some f \<longrightarrow> flow_current_msg_type f \<noteq> ENUM_MSGTYPE_BULK_PULL_ACCOUNT) \<and>
     (\<forall>p \<in> set (ph_packet_queue s). no_account_request (info_data p))"

lemma process_packet_progress:
  assumes "engine_ok E" and "buffer_ok E" and "ph_inv s" and "ph_calm s" and "\<not> ph_stopped s"
    and q: "ph_packet_queue s = info # q"
  shows "\<exists>s'. ph_step E C s ProcessPacket s' \<and> ph_packet_queue s' = q \<and> \<not> ph_stopped s' \<and> ph_inv s' \<and> ph_calm s'"
proof -
  obtain f where f: "ph_conn_mgr s (info_flow_key info) = Some f"
    using assms(3) q by (fastforce simp: ph_inv_def)
  let ?c = "\<lparr>cap_db = ph_db s, cap_flow = f\<rparr>"
  have calm: "calm ?c" and request: "no_account_request (info_data info)"
    using assms(4) f q by (auto simp: ph_calm_def calm_def)
  obtain out c where c: "handle_tcp E C info ?c = Some (out, c)"
    using handle_tcp_ends [OF buffer_ok_erasing [OF assms(2)], of ?c info C] calm by (auto simp: calm_def)
  let ?s = "s\<lparr>ph_packet_queue := q, ph_db := cap_db c, ph_conn_mgr := (ph_conn_mgr s)(info_flow_key info \<mapsto> cap_flow c),
    ph_packet_parse_error_count := ph_packet_parse_error_count s + (if out = ParseError then 1 else 0)\<rparr>"
  have process: "process_packet E C s = Some (out, ?s)"
    using assms(5) q f c by (simp add: process_packet_def)
  with process_packet_ok [OF assms(1-3)] have "out \<noteq> UndefinedBehaviour" "ph_inv ?s" by blast+
  moreover have "ph_calm ?s"
    using assms(4) handle_tcp_calm [OF calm request c] q by (auto simp: ph_calm_def calm_def)
  ultimately show ?thesis
    using process assms(5) by (intro exI [of _ ?s]) (auto intro: ph_step.process)
qed

lemma drains:
  assumes "engine_ok E" and "buffer_ok E"
  shows "ph_run E C s0 evs s \<Longrightarrow> ph_inv s \<Longrightarrow> ph_calm s \<Longrightarrow> \<not> ph_stopped s \<Longrightarrow>
    \<exists>s'. ph_run E C s0 (evs @ replicate (length (ph_packet_queue s)) ProcessPacket) s' \<and> ph_packet_queue s' = []"
proof (induction "ph_packet_queue s" arbitrary: s evs)
  case Nil
  then show ?case by (intro exI [of _ s]) simp
next
  case (Cons info q)
  obtain s1 where s1: "ph_step E C s ProcessPacket s1" "ph_packet_queue s1 = q" "\<not> ph_stopped s1" "ph_inv s1" "ph_calm s1"
    using process_packet_progress [OF assms Cons.prems(2-4) Cons.hyps(2) [symmetric]] by blast
  have "ph_run E C s0 (evs @ [ProcessPacket]) s1" using ph_run.snoc [OF Cons.prems(1) s1(1)] .
  from Cons.hyps(1) [OF s1(2) [symmetric] this s1(4,5,3)] s1(2) Cons.hyps(2)
  show ?case by (simp flip: Cons.hyps(2))
qed

text \<open>C22: 
  As long as the thread is not stopped and no connection is, or is asked to be, in a stream of
  pending blocks, as many rounds as there are packets in the queue work it off; every round
  returns.
\<close>

theorem handler_drains:
  assumes "engine_ok E" and "buffer_ok E" and "db_inv d" and "ph_run E C (ph_start d) evs s"
    and "\<not> ph_stopped s"
    and "\<forall>k f. ph_conn_mgr s k = Some f \<longrightarrow> flow_current_msg_type f \<noteq> ENUM_MSGTYPE_BULK_PULL_ACCOUNT"
    and "\<forall>p \<in> set (ph_packet_queue s). length (info_data p) > 5 \<longrightarrow> info_data p ! 5 \<noteq> 11"
  shows "\<exists>s'. ph_run E C (ph_start d) (evs @ replicate (length (ph_packet_queue s)) ProcessPacket) s' \<and>
    ph_packet_queue s' = []"
proof -
  have "ph_inv s" using ph_run_inv [OF assms(4,1,2) ph_inv_start [OF assms(3)]] .
  moreover have "ph_calm s" using assms(6,7) by (simp add: ph_calm_def no_account_request_def)
  ultimately show ?thesis using drains [OF assms(1,2,4)] assms(5) by blast
qed

theorem handler_drains_witness:
  "\<exists>s'. ph_run sample_environment config_capture_default (ph_start sample_db)
     [MsgReady sample_connection [1, 2, 3] 0, ProcessPacket] s' \<and> ph_packet_queue s' = []"
proof -
  let ?s = "msg_ready sample_connection [1, 2, 3] 0 (ph_start sample_db)"
  have run: "ph_run sample_environment config_capture_default (ph_start sample_db) [MsgReady sample_connection [1, 2, 3] 0] ?s"
    using ph_run.snoc [OF ph_run.nil ph_step.ready] by fastforce
  have s: "ph_packet_queue ?s = [packet_of sample_connection [1, 2, 3] 0]" "\<not> ph_stopped ?s"
      "ph_conn_mgr ?s = [7 \<mapsto> flow_init]"
    by (simp_all add: msg_ready_def Let_def hasMissingData_def ph_start_def sample_connection_def)
  have "\<forall>k f. ph_conn_mgr ?s k = Some f \<longrightarrow> flow_current_msg_type f \<noteq> ENUM_MSGTYPE_BULK_PULL_ACCOUNT"
    using s(3) by (auto simp: flow_init_def split: if_splits)
  moreover have "\<forall>p \<in> set (ph_packet_queue ?s). length (info_data p) > 5 \<longrightarrow> info_data p ! 5 \<noteq> 11"
    using s(1) by (simp add: packet_of_def)
  ultimately show ?thesis
    using handler_drains [OF sample_ok(1,2) sample_db_inv run s(2)] s(1) by simp
qed

end
