(* ===== verification/HandlerStreams.thy ===== *)
theory HandlerStreams
  imports HandlerRuns
begin

text \<open>
  What the handler makes of the data of a stream: the entries of a frontier response, delivered in
  any pieces, are stored one by one and in order; the data of a stream of pending blocks can keep
  the processing thread in its loop for good; what is not a message changes nothing but the count
  of parse errors.
\<close>

section \<open>A stream of pending blocks that does not end\<close>

lemma foldl_push_back:
  "buffer_ok E \<Longrightarrow> 0 < n \<Longrightarrow> length b + length xs \<le> n \<Longrightarrow> foldl (env_push_back E n) b xs = b @ xs"
  by (induction xs arbitrary: b) (simp_all add: buffer_ok_def)

lemma account_entry_read_full:
  assumes "80 \<le> length b"
  shows "\<exists>e ks. bulk_pull_account_entry_read 2 (kstream_of b) = Inr (e, ks) \<and> account_entry_hash e = take 32 b \<and>
    account_entry_source e = take 32 (drop 48 b)"
  using assms
  by (simp add: bulk_pull_account_entry_read_def read_if_def pending_address_only_def pending_include_address_def
      ks_bind_def ks_return_def reader_simps)

lemma triple_read_known:
  "r ks = Inr (x, ks') \<Longrightarrow> triple P (g (x, ks')) Q R \<Longrightarrow> triple P (act_bind (act_read r ks) g) Q R"
  by (rule triple_read) auto

lemma account_pass_again:
  assumes "engine_ok E" and "80 \<le> length b" and "\<not> all_zero (take 32 b)" and "\<not> all_zero (take 32 (drop 48 b))"
  defines "A \<equiv> \<lambda>f. flow_accumulated_data f = b \<and> flow_step f = 1 \<and> flow_request_flags f = 2"
  shows "triple (cap_inv A) (account_pass E C info) (\<lambda>again c. again \<and> cap_inv A c) no_throw"
proof -
  obtain e ks where read: "bulk_pull_account_entry_read 2 (kstream_of b) = Inr (e, ks)"
    and e: "account_entry_hash e = take 32 b" "account_entry_source e = take 32 (drop 48 b)"
    using account_entry_read_full [OF assms(2)] by blast
  have more: "\<not> all_zero (account_entry_hash e)" "\<not> all_zero (account_entry_source e)"
    using assms(3,4) e by simp_all
  have "no_counts A" by (auto simp: no_counts_def A_def)
  note count = triple_counts(1) [OF this]
  have "triple (cap_inv A) (put_bulk_pull_account_entry E e) (\<lambda>_. cap_inv A) no_throw"
    by (rule triple_put_bulk_pull_account_entry [OF assms(1)]) (use account_entry_amount [OF read] in simp)
  then have "triple (cap_inv A) (act_when (capture_bootstrap_details C) (put_bulk_pull_account_entry E e)) (\<lambda>_. cap_inv A) no_throw"
    by (intro triple_when)
  from triple_seq_cons [OF this triple_seq_cons [OF count triple_seq_nil]]
  have "triple (cap_inv A) (account_second_step E C info (kstream_of b)) (\<lambda>_. cap_inv A) no_throw"
    unfolding account_second_step_def
    by - (rule triple_flow_get [where x = 2], simp add: cap_inv_def A_def, rule triple_read_known, rule read,
        simp add: more del: act_seq.simps)
  then have "triple (cap_inv A) (act_bind (flow_get flow_step) (\<lambda>step.
      act_bind (act_when (step = 1) (account_second_step E C info (kstream_of b))) (\<lambda>_. act_return True)))
      (\<lambda>again c. again \<and> cap_inv A c) no_throw"
    by - (rule triple_flow_get [where x = 1], simp add: cap_inv_def A_def, rule triple_bind [OF triple_when],
        assumption, simp, rule triple_weaken [OF triple_return [where Q = "\<lambda>again c. again \<and> cap_inv A c"]], simp_all)
  then have "triple (cap_inv A) (act_bind (flow_get flow_step) (\<lambda>step.
      act_bind (if step = 0 then account_first_step E C b (kstream_of b) else act_return (kstream_of b)) (\<lambda>ks.
      act_bind (flow_get flow_step) (\<lambda>step.
      act_bind (act_when (step = 1) (account_second_step E C info ks)) (\<lambda>_. act_return True)))))
      (\<lambda>again c. again \<and> cap_inv A c) no_throw"
    by - (rule triple_flow_get [where x = 1], simp add: cap_inv_def A_def, simp add: act_bind_return)
  then show ?thesis
    using assms(2) unfolding account_pass_def
    by - (rule triple_flow_get [where x = b], simp add: cap_inv_def A_def, cases "b = []", simp, simp,
        rule triple_catch [OF triple_weaken triple_return], assumption, simp_all)
qed

text \<open>C16: 
  A connection past the balance entry of a response that carries sources too: once a whole entry
  with a hash and a source has arrived, handling the packet does not end. The entry is read again
  and again, because it is never taken off the buffer; with the details of the bootstrap captured,
  a row is inserted each time.
\<close>

theorem pending_stream_does_not_end:
  assumes "engine_ok E" and "buffer_ok E" and "db_inv (cap_db c)"
    and "flow_current_msg_type (cap_flow c) = ENUM_MSGTYPE_BULK_PULL_ACCOUNT"
    and "flow_step (cap_flow c) = 1" and "flow_request_flags (cap_flow c) = 2"
    and "flow_accumulated_data (cap_flow c) = []"
    and "80 \<le> length (info_data info)" and "length (info_data info) \<le> 4096"
    and "\<not> all_zero (take 32 (info_data info))" and "\<not> all_zero (take 32 (drop 48 (info_data info)))"
  shows "handle_tcp E C info c = None"
proof -
  let ?b = "info_data info"
  let ?A = "\<lambda>f. flow_accumulated_data f = ?b \<and> flow_step f = 1 \<and> flow_request_flags f = 2"
  let ?c = "cap_flow_update (flow_accumulated_data_update (\<lambda>_. ?b)) c"
  have "foldl (env_push_back E BUFFER_CAPACITY) [] ?b = ?b"
    using foldl_push_back [OF assms(2), of BUFFER_CAPACITY "[]" ?b] assms(9) by (simp add: BUFFER_CAPACITY_def)
  then have push: "push_data E info c = (Inr (), ?c)"
    using assms(7) by (cases c; cases "cap_flow c") (simp add: push_data_def flow_modify_def act_modify_def)
  have "\<exists>c''. account_pass E C info c' = (Inr True, c'') \<and> cap_inv ?A c''" if "cap_inv ?A c'" for c'
    using triple_returns [OF account_pass_again [OF assms(1,8,10,11)] that, of C info] by auto
  moreover have "cap_inv ?A ?c" using assms(3,5,6) by (simp add: cap_inv_def)
  ultimately have "act_loop (account_pass E C info) ?c = None" by (rule act_loop_diverges)
  moreover have "?b \<noteq> []" using assms(8) by auto
  ultimately show ?thesis
    using assms(4) push by (simp add: handle_tcp_def tcp_data_def after_def)
qed

definition sample_packet :: "bytes \<Rightarrow> nano_packet" where
  "sample_packet data = packet_of sample_connection data 0"

theorem pending_stream_does_not_end_witness:
  "handle_tcp sample_environment config_capture_default (sample_packet (replicate 80 1))
     \<lparr>cap_db = sample_db, cap_flow = flow_init\<lparr>flow_current_msg_type := ENUM_MSGTYPE_BULK_PULL_ACCOUNT,
        flow_step := 1, flow_request_flags := 2\<rparr>\<rparr> = None"
  by (rule pending_stream_does_not_end [OF sample_ok(1,2)])
    (simp_all add: sample_db_inv sample_packet_def packet_of_def flow_init_def all_zero_def list_all_iff)

theorem handle_tcp_returns_witness:
  "\<exists>r. handle_tcp sample_environment config_capture_default (sample_packet (replicate 80 1))
     \<lparr>cap_db = sample_db, cap_flow = flow_init\<lparr>flow_current_msg_type := ENUM_MSGTYPE_FRONTIER_REQ\<rparr>\<rparr> = Some r"
  by (rule handle_tcp_returns [OF sample_ok(3)]) simp
section \<open>Storing a frontier response\<close>

lemma insert_row_history:
  assumes "engine_ok E" and "columns_ok t qs" and "i \<in> F" and "db_mid F P n d"
  shows "db_history (snd (insert_row E t ((''id'', SqlInt i) # qs) d)) =
    db_history d @ [SqlInsert t (row_values t ((''id'', SqlInt i) # qs) (db_stmts d t))]"
  using insert_row_result [OF assms(1) _ _ assms(3) _ _ _ assms(4), of t qs] assms(2)
  unfolding columns_ok_def by auto

lemma new_row_effect:
  assumes "engine_ok E" and "columns_ok t qs" and "db_inv d"
  shows "\<exists>d'. act_bind db_fetch_add (\<lambda>i. insert_row E t ((''id'', SqlInt i) # qs)) d = (Inr (), d') \<and> db_inv d' \<and>
    rows (db_history d') = (rows (db_history d))
      (t := rows (db_history d) t @ [row_values t ((''id'', SqlInt (db_next_id d)) # qs) (db_stmts d t)])"
proof -
  let ?i = "db_next_id d" and ?d = "d\<lparr>db_next_id := db_next_id d + 1\<rparr>"
  have mid: "db_mid {?i} ready (\<lambda>_. 0) ?d"
    using tripleD [OF triple_fetch_add [of "{}" ready "\<lambda>_. 0"]] assms(3)
    unfolding db_inv_eq db_fetch_add_def by blast
  from triple_returns [OF triple_row [OF assms(1,2), of ?i "{?i}" ready "\<lambda>_. 0"] mid] obtain d'
    where d': "insert_row E t ((''id'', SqlInt ?i) # qs) ?d = (Inr (), d')" "db_inv d'"
    by (auto simp: db_inv_eq)
  moreover have "db_history d' = db_history d @ [SqlInsert t (row_values t ((''id'', SqlInt ?i) # qs) (db_stmts d t))]"
    using insert_row_history [OF assms(1,2) _ mid, of ?i] d'(1) by simp
  ultimately show ?thesis
    by (simp add: act_bind_def db_fetch_add_def)
qed

definition frontier_row :: "int \<Rightarrow> frontier_entry_t \<Rightarrow> sql_value list" where
  "frontier_row message_id e = [SqlInt message_id, SqlText (pub_to_account (frontier_entry_account e)),
     SqlText (to_hex (frontier_entry_frontier_hash e))]"

text \<open>The rows of entries, which are kept only when the configuration asks for the details.\<close>

definition frontier_rows :: "config_capture \<Rightarrow> int \<Rightarrow> frontier_entry_t list \<Rightarrow> sql_value list list" where
  "frontier_rows C message_id es = (if capture_bootstrap_details C then map (frontier_row message_id) es else [])"

lemma frontier_rows_simps [simp]:
  "frontier_rows C i [] = []" "frontier_rows C i (es @ fs) = frontier_rows C i es @ frontier_rows C i fs"
  by (simp_all add: frontier_rows_def)

lemma frontier_rows_cons: "frontier_rows C i (e # es) = frontier_rows C i [e] @ frontier_rows C i es"
  by (simp add: frontier_rows_def)

abbreviation stored_frontiers :: "cap \<Rightarrow> sql_value list list" where
  "stored_frontiers c \<equiv> map tl (rows (db_history (cap_db c)) TableFrontierResponse)"

lemma put_frontier_entry_effect:
  assumes "engine_ok E" and "db_inv (cap_db c)"
  shows "\<exists>d. put_frontier_entry E e c = (Inr (), c\<lparr>cap_db := d\<rparr>) \<and> db_inv d \<and>
    map tl (rows (db_history d) TableFrontierResponse) =
      stored_frontiers c @ [frontier_row (flow_message_id (cap_flow c)) e]"
proof -
  let ?qs = "[(''frontier_request_id'', SqlInt (flow_message_id (cap_flow c))),
    (''account'', SqlText (pub_to_account (frontier_entry_account e))),
    (''frontier_hash'', SqlText (to_hex (frontier_entry_frontier_hash e)))]"
  have "columns_ok TableFrontierResponse ?qs" by (simp add: columns_ok_def)
  from new_row_effect [OF assms(1) this assms(2)] obtain d
    where d: "act_bind db_fetch_add (\<lambda>i. insert_row E TableFrontierResponse ((''id'', SqlInt i) # ?qs)) (cap_db c) = (Inr (), d)"
      "db_inv d" "rows (db_history d) = (rows (db_history (cap_db c)))(TableFrontierResponse :=
        rows (db_history (cap_db c)) TableFrontierResponse @
          [row_values TableFrontierResponse ((''id'', SqlInt (db_next_id (cap_db c))) # ?qs) (db_stmts (cap_db c) TableFrontierResponse)])"
    by auto
  have "put_frontier_entry E e c =
      on_db (act_bind db_fetch_add (\<lambda>i. insert_row E TableFrontierResponse ((''id'', SqlInt i) # ?qs))) c"
    by (simp add: put_frontier_entry_def act_bind_def on_db_def act_zoom_def act_get_def db_fetch_add_def split: prod.split)
  with d show ?thesis
    by (auto simp: on_db_def act_zoom_def row_values_def frontier_row_def)
qed
text \<open>One pass on a buffer that starts with an entry, and with the entry that ends the response.\<close>

lemma frontier_read_first:
  assumes "frontier_entry_wf e" and "b = frontier_entry_wire e @ rest"
  shows "frontier_entry_read (kstream_of (take 64 b)) = Inr (e, ks_skip 64 (kstream_of (take 64 b)))" and "64 \<le> length b"
proof -
  have w: "length (frontier_entry_wire e) = 64" using assms(1) by (rule frontier_entry.enc_width)
  then show "64 \<le> length b" using assms(2) by simp
  have "take 64 b = frontier_entry_wire e" using w assms(2) by simp
  with frontier_entry.read_all [OF assms(1), of "kstream_of (take 64 b)"] w
  show "frontier_entry_read (kstream_of (take 64 b)) = Inr (e, ks_skip 64 (kstream_of (take 64 b)))" by simp
qed

lemma frontier_pass_entry:
  assumes "engine_ok E" and "buffer_ok E" and "db_inv (cap_db c)"
    and "frontier_entry_wf e" and "\<not> all_zero (frontier_entry_account e)" and "buffer c = frontier_entry_wire e @ rest"
  shows "\<exists>c'. frontier_pass E C info c = (Inr True, c') \<and> db_inv (cap_db c') \<and> buffer c' = rest \<and> stream c' = stream c \<and>
    flow_message_id (cap_flow c') = flow_message_id (cap_flow c) \<and>
    stored_frontiers c' = stored_frontiers c @ frontier_rows C (flow_message_id (cap_flow c)) [e]"
proof -
  note read = frontier_read_first [OF assms(4,6)]
  obtain d where d: "put_frontier_entry E e c = (Inr (), c\<lparr>cap_db := d\<rparr>)" "db_inv d"
      "map tl (rows (db_history d) TableFrontierResponse) = stored_frontiers c @ [frontier_row (flow_message_id (cap_flow c)) e]"
    using put_frontier_entry_effect [OF assms(1,3)] by blast
  have pos: "pos (ks_skip 64 (kstream_of (take 64 (buffer c)))) = 64"
    by (simp add: pos_def ks_skip_def kstream_of_def)
  have "env_erase_front E (buffer c) 64 = rest"
    using assms(2,6) frontier_entry.enc_width [OF assms(4)] by (simp add: buffer_ok_def)
  with read d pos assms(3,5) show ?thesis
    by (cases "cap_flow c"; cases "capture_bootstrap_details C")
      (simp_all add: frontier_pass_def act_bind_def flow_get_def act_get_def act_catch_def act_read_def act_yields_def
        act_when_def count_response_def erase_data_def flow_modify_def act_modify_def act_return_def frontier_rows_def)
qed

lemma put_connection_effect:
  assumes "engine_ok E" and "db_inv d"
  shows "\<exists>d'. put_connection E v a p b q k ev d = (Inr (), d') \<and> db_inv d' \<and>
    (\<forall>t. t \<noteq> TableConnection \<longrightarrow> rows (db_history d') t = rows (db_history d) t)"
proof -
  have "columns_ok TableConnection [(''ipv'', SqlInt v), (''srcip'', SqlText a), (''srcport'', sql_uint p),
      (''dstip'', SqlText b), (''dstport'', sql_uint q), (''flowkey'', sql_uint k), (''event'', SqlText ev)]"
    by (simp add: columns_ok_def sql_uint_def)
  from new_row_effect [OF assms(1) this assms(2)] show ?thesis
    unfolding put_connection_def by auto
qed

lemma put_end_event_effect:
  assumes "engine_ok E" and "db_inv (cap_db c)"
  shows "\<exists>d. put_end_event E C info what c = (Inr (), c\<lparr>cap_db := d\<rparr>) \<and> db_inv d \<and>
    rows (db_history d) TableFrontierResponse = rows (db_history (cap_db c)) TableFrontierResponse"
proof (cases "capture_bootstrap_details C")
  case False
  with assms(2) show ?thesis
    by (intro exI [of _ "cap_db c"]) (simp add: put_end_event_def act_when_def act_return_def)
next
  case True
  let ?f = "cap_flow c"
  obtain d where "put_connection_of E info (what @ dec_string (unat (flow_response_count ?f)) @ '', invalid: '' @
      dec_string (unat (flow_invalid_response_count ?f))) (cap_db c) = (Inr (), d)" "db_inv d"
      "rows (db_history d) TableFrontierResponse = rows (db_history (cap_db c)) TableFrontierResponse"
    using put_connection_effect [OF assms] unfolding put_connection_of_def by (meson table.simps)
  with True show ?thesis
    by (intro exI [of _ d]) (simp add: put_end_event_def act_when_def act_bind_def act_get_def on_db_def act_zoom_def)
qed

lemma frontier_pass_end:
  assumes "engine_ok E" and "db_inv (cap_db c)"
    and "frontier_entry_wf e" and "all_zero (frontier_entry_account e)" and "buffer c = frontier_entry_wire e @ rest"
  shows "\<exists>c'. frontier_pass E C info c = (Inr False, c') \<and> db_inv (cap_db c') \<and> cap_flow c' = flow_reset ENUM_MSGTYPE_INVALID (cap_flow c) \<and>
    stored_frontiers c' = stored_frontiers c"
proof -
  note read = frontier_read_first [OF assms(3,5)]
  obtain d where "put_end_event E C info ''end of frontier_req, responses. valid: '' c = (Inr (), c\<lparr>cap_db := d\<rparr>)" "db_inv d"
      "rows (db_history d) TableFrontierResponse = rows (db_history (cap_db c)) TableFrontierResponse"
    using put_end_event_effect [OF assms(1,2)] by blast
  with read assms(4) show ?thesis
    by (simp add: frontier_pass_def act_bind_def flow_get_def act_get_def act_catch_def act_read_def
        act_yields_def reset_flow_def flow_modify_def act_modify_def act_return_def)
qed
lemma act_loop_again: "pass s = (Inr True, s') \<Longrightarrow> act_loop pass s = act_loop pass s'"
  by (subst act_loop.simps) simp

lemma act_loop_stop: "pass s = (Inr False, s') \<Longrightarrow> act_loop pass s = Some (Inr (), s')"
  by (subst act_loop.simps) simp

text \<open>The entries of a response that was not ended yet.\<close>

definition entries_ok :: "frontier_entry_t list \<Rightarrow> bool" where
  "entries_ok es \<longleftrightarrow> (\<forall>e \<in> set es. frontier_entry_wf e \<and> \<not> all_zero (frontier_entry_account e))"

definition entries_wire :: "frontier_entry_t list \<Rightarrow> bytes" where
  "entries_wire es = concat (map frontier_entry_wire es)"

lemma entries_simps [simp]:
  "entries_ok []" "entries_wire [] = []"
  "entries_ok (e # es) \<longleftrightarrow> frontier_entry_wf e \<and> \<not> all_zero (frontier_entry_account e) \<and> entries_ok es"
  "entries_wire (e # es) = frontier_entry_wire e @ entries_wire es"
  by (auto simp: entries_ok_def entries_wire_def)

lemma entries_ok_append [simp]: "entries_ok (es @ fs) \<longleftrightarrow> entries_ok es \<and> entries_ok fs"
  by (auto simp: entries_ok_def)

lemma entries_wire_append [simp]: "entries_wire (es @ fs) = entries_wire es @ entries_wire fs"
  by (simp add: entries_wire_def)

lemma length_entries_wire: "entries_ok es \<Longrightarrow> length (entries_wire es) = 64 * length es"
  by (induction es) (simp_all add: frontier_entry.enc_width)

lemma frontier_loop_entries:
  assumes "engine_ok E" and "buffer_ok E"
  shows "db_inv (cap_db c) \<Longrightarrow> entries_ok es \<Longrightarrow> buffer c = entries_wire es @ rest \<Longrightarrow>
    \<exists>c'. act_loop (frontier_pass E C info) c = act_loop (frontier_pass E C info) c' \<and> db_inv (cap_db c') \<and> buffer c' = rest \<and>
      stream c' = stream c \<and> flow_message_id (cap_flow c') = flow_message_id (cap_flow c) \<and>
      stored_frontiers c' = stored_frontiers c @ frontier_rows C (flow_message_id (cap_flow c)) es"
proof (induction es arbitrary: c)
  case Nil
  then show ?case by (intro exI [of _ c]) simp
next
  case (Cons e es)
  from Cons.prems have "frontier_entry_wf e" "\<not> all_zero (frontier_entry_account e)"
      "buffer c = frontier_entry_wire e @ entries_wire es @ rest" by simp_all
  from frontier_pass_entry [OF assms Cons.prems(1) this] obtain c1
    where c1: "frontier_pass E C info c = (Inr True, c1)" "db_inv (cap_db c1)" "buffer c1 = entries_wire es @ rest"
      "stream c1 = stream c" "flow_message_id (cap_flow c1) = flow_message_id (cap_flow c)"
      "stored_frontiers c1 = stored_frontiers c @ frontier_rows C (flow_message_id (cap_flow c)) [e]" by blast
  from Cons.IH [OF c1(2) _ c1(3)] Cons.prems(2) obtain c'
    where "act_loop (frontier_pass E C info) c1 = act_loop (frontier_pass E C info) c'" "db_inv (cap_db c')" "buffer c' = rest"
      "stream c' = stream c1" "flow_message_id (cap_flow c') = flow_message_id (cap_flow c1)"
      "stored_frontiers c' = stored_frontiers c1 @ frontier_rows C (flow_message_id (cap_flow c1)) es" by auto
  with c1 act_loop_again [of "frontier_pass E C info" c c1] show ?case
    by (intro exI [of _ c']) (simp add: frontier_rows_cons [of C _ e es])
qed

text \<open>The packets of a connection, one after the other, each of them handled.\<close>

fun handle_packets :: "environment \<Rightarrow> config_capture \<Rightarrow> nano_packet list \<Rightarrow> cap \<Rightarrow> cap option" where
  "handle_packets E C [] c = Some c"
| "handle_packets E C (info # infos) c =
     (case handle_tcp E C info c of Some (Handled, c') \<Rightarrow> handle_packets E C infos c' | _ \<Rightarrow> None)"

lemma handle_frontier_data:
  assumes "buffer_ok E" and "stream c = ENUM_MSGTYPE_FRONTIER_REQ" and "info_data info \<noteq> []"
    and "length (buffer c) + length (info_data info) \<le> 4096"
  shows "handle_tcp E C info c =
    map_option (\<lambda>(r, c'). (case r of Inr _ \<Rightarrow> Handled | Inl e \<Rightarrow> if e = Undefined then UndefinedBehaviour
        else if caught_as_runtime_error e then ParseError else UnknownException, c'))
      (act_loop (frontier_pass E C info) (cap_flow_update (flow_accumulated_data_update (\<lambda>b. b @ info_data info)) c))"
proof -
  have "foldl (env_push_back E BUFFER_CAPACITY) (buffer c) (info_data info) = buffer c @ info_data info"
    using foldl_push_back [OF assms(1), of BUFFER_CAPACITY] assms(4) by (simp add: BUFFER_CAPACITY_def)
  then have "push_data E info c = (Inr (), cap_flow_update (flow_accumulated_data_update (\<lambda>b. b @ info_data info)) c)"
    by (cases c; cases "cap_flow c") (simp add: push_data_def flow_modify_def act_modify_def)
  with assms(2,3) show ?thesis
    by (auto simp: handle_tcp_def tcp_data_def after_def split: option.split sum.split prod.split)
qed
lemma response_prefix:
  assumes "frontier_entry_wf z"
  shows "entries_ok es \<Longrightarrow> b @ rest = entries_wire es @ frontier_entry_wire z \<Longrightarrow>
    (\<exists>es1 es2 r. es = es1 @ es2 \<and> b = entries_wire es1 @ r \<and> length r < 64 \<and>
       r @ rest = entries_wire es2 @ frontier_entry_wire z) \<or>
    b = entries_wire es @ frontier_entry_wire z \<and> rest = []"
proof (induction es arbitrary: b)
  case Nil
  then have "length b + length rest = 64"
    using frontier_entry.enc_width [OF assms] by (metis append_Nil entries_simps(2) length_append)
  then have "length b < 64 \<or> rest = []" by (cases rest) auto
  with Nil show ?case by (auto intro: exI [of _ b])
next
  case (Cons e es)
  have w: "length (frontier_entry_wire e) = 64" using Cons.prems(1) by (simp add: frontier_entry.enc_width)
  show ?case
  proof (cases "length b < 64")
    case True
    with Cons.prems show ?thesis by (intro disjI1 exI [of _ "[]"] exI [of _ "e # es"] exI [of _ b]) simp
  next
    case False
    have "take 64 (b @ rest) = frontier_entry_wire e" unfolding Cons.prems(2) using w by simp
    with False have "take 64 b = frontier_entry_wire e" by simp
    then obtain b' where b: "b = frontier_entry_wire e @ b'" by (metis append_take_drop_id)
    with Cons.prems have "b' @ rest = entries_wire es @ frontier_entry_wire z" "entries_ok es" by simp_all
    from Cons.IH [OF this(2,1)] b show ?thesis
      by (elim disjE exE conjE) (rule disjI1, metis append_Cons append_assoc entries_simps(4), simp)
  qed
qed

lemma frontier_pieces:
  assumes "engine_ok E" and "buffer_ok E"
    and z: "frontier_entry_wf z" "all_zero (frontier_entry_account z)"
  shows "db_inv (cap_db c) \<Longrightarrow> stream c = ENUM_MSGTYPE_FRONTIER_REQ \<Longrightarrow> length (buffer c) < 64 \<Longrightarrow> entries_ok es \<Longrightarrow>
    buffer c @ concat (map info_data infos) = entries_wire es @ frontier_entry_wire z \<Longrightarrow>
    \<forall>info \<in> set infos. info_data info \<noteq> [] \<and> length (info_data info) \<le> 4032 \<Longrightarrow>
    \<exists>c'. handle_packets E C infos c = Some c' \<and> db_inv (cap_db c') \<and> stream c' = ENUM_MSGTYPE_INVALID \<and> buffer c' = [] \<and>
      stored_frontiers c' = stored_frontiers c @ frontier_rows C (flow_message_id (cap_flow c)) es"
proof (induction infos arbitrary: c es)
  case Nil
  then have "length (buffer c) = length (entries_wire es) + 64"
    using frontier_entry.enc_width [OF z(1)] by simp
  with Nil show ?case by simp
next
  case (Cons info infos)
  let ?loop = "act_loop (frontier_pass E C info)"
  let ?c = "cap_flow_update (flow_accumulated_data_update (\<lambda>b. b @ info_data info)) c"
  have handle: "handle_tcp E C info c = map_option (\<lambda>(r, c'). (case r of Inr _ \<Rightarrow> Handled | Inl e \<Rightarrow>
      if e = Undefined then UndefinedBehaviour else if caught_as_runtime_error e then ParseError else UnknownException, c')) (?loop ?c)"
    using Cons.prems(2,3,6) by (intro handle_frontier_data [OF assms(2)]) simp_all
  have c: "db_inv (cap_db ?c)" "buffer ?c = buffer c @ info_data info" "stream ?c = stream c"
      "flow_message_id (cap_flow ?c) = flow_message_id (cap_flow c)" "stored_frontiers ?c = stored_frontiers c"
    using Cons.prems(1) by simp_all
  have "(buffer c @ info_data info) @ concat (map info_data infos) = entries_wire es @ frontier_entry_wire z"
    using Cons.prems(5) by simp
  from response_prefix [OF z(1) Cons.prems(4) this] show ?case
  proof (elim disjE exE conjE)
    fix es1 es2 r
    assume es: "es = es1 @ es2" and b: "buffer c @ info_data info = entries_wire es1 @ r" and r: "length r < 64"
      and rest: "r @ concat (map info_data infos) = entries_wire es2 @ frontier_entry_wire z"
    have ok: "entries_ok es1" "entries_ok es2" using Cons.prems(4) es by simp_all
    from frontier_loop_entries [OF assms(1,2) c(1) ok(1), where rest = r and C = C and info = info] b c obtain c1
      where c1: "?loop ?c = ?loop c1" "db_inv (cap_db c1)" "buffer c1 = r" "stream c1 = ENUM_MSGTYPE_FRONTIER_REQ"
        "flow_message_id (cap_flow c1) = flow_message_id (cap_flow c)"
        "stored_frontiers c1 = stored_frontiers c @ frontier_rows C (flow_message_id (cap_flow c)) es1"
      using Cons.prems(2) by auto
    have "frontier_pass E C info c1 = (Inr False, c1)"
      using c1(3) r by (simp add: frontier_pass_def act_bind_def flow_get_def act_get_def act_return_def)
    from act_loop_stop [of "frontier_pass E C info" c1 c1, OF this] c1(1) handle
    have handled: "handle_tcp E C info c = Some (Handled, c1)" by simp
    from Cons.IH [OF c1(2,4) _ ok(2)] c1(3) r rest Cons.prems(6) obtain c'
      where "handle_packets E C infos c1 = Some c'" "db_inv (cap_db c')" "stream c' = ENUM_MSGTYPE_INVALID" "buffer c' = []"
        "stored_frontiers c' = stored_frontiers c1 @ frontier_rows C (flow_message_id (cap_flow c1)) es2"
      by auto
    with handled c1(5,6) es show ?thesis by (intro exI [of _ c']) simp
  next
    assume b: "buffer c @ info_data info = entries_wire es @ frontier_entry_wire z" and rest: "concat (map info_data infos) = []"
    have infos: "infos = []" using rest Cons.prems(6) by (cases infos) auto
    from frontier_loop_entries [OF assms(1,2) c(1) Cons.prems(4), where rest = "frontier_entry_wire z" and C = C and info = info] b c obtain c1
      where c1: "?loop ?c = ?loop c1" "db_inv (cap_db c1)" "buffer c1 = frontier_entry_wire z @ []"
        "stored_frontiers c1 = stored_frontiers c @ frontier_rows C (flow_message_id (cap_flow c)) es"
      by auto
    from frontier_pass_end [OF assms(1) c1(2) z c1(3), of C info] obtain c2
      where c2: "frontier_pass E C info c1 = (Inr False, c2)" "db_inv (cap_db c2)"
        "cap_flow c2 = flow_reset ENUM_MSGTYPE_INVALID (cap_flow c1)" "stored_frontiers c2 = stored_frontiers c1" by blast
    from act_loop_stop [of "frontier_pass E C info" c1 c2, OF c2(1)] c1(1) handle
    have "handle_tcp E C info c = Some (Handled, c2)" by simp
    with infos c1(4) c2 show ?thesis by (simp add: flow_reset_def)
  qed
qed

text \<open>C9: 
  A frontier response ends with the first entry whose account is zero, whatever its hash is. One
  that arrives in packets of at most 4032 bytes, cut anywhere, is read entry by entry and in order.
  When the configuration asks for bootstrap details, which it does not by default, each entry before
  the last is one row, with the id of the request, and no other rows are added; when it does not,
  the table stays as it is. Either way the connection is then ready for messages, with an empty
  buffer. With 4032 bytes a packet fits behind an entry that is not complete yet; from larger
  packets the buffer of 4096 bytes can lose data.
\<close>

theorem frontier_response_stored:
  assumes "engine_ok E" and "buffer_ok E" and "db_inv (cap_db c)"
    and "flow_current_msg_type (cap_flow c) = ENUM_MSGTYPE_FRONTIER_REQ" and "flow_accumulated_data (cap_flow c) = []"
    and "\<forall>e \<in> set es. frontier_entry_wf e \<and> \<not> all_zero (frontier_entry_account e)"
    and "frontier_entry_wf z" and "all_zero (frontier_entry_account z)"
    and "concat (map info_data infos) = concat (map frontier_entry_wire es) @ frontier_entry_wire z"
    and "\<forall>info \<in> set infos. info_data info \<noteq> [] \<and> length (info_data info) \<le> 4032"
  shows "\<exists>c'. handle_packets E C infos c = Some c' \<and>
    map tl (rows (db_history (cap_db c')) TableFrontierResponse) =
      map tl (rows (db_history (cap_db c)) TableFrontierResponse) @
      (if capture_bootstrap_details C then map (frontier_row (flow_message_id (cap_flow c))) es else []) \<and>
    flow_current_msg_type (cap_flow c') = ENUM_MSGTYPE_INVALID \<and> flow_accumulated_data (cap_flow c') = []"
proof -
  have "entries_ok es" "buffer c @ concat (map info_data infos) = entries_wire es @ frontier_entry_wire z"
    using assms(5,6,9) by (simp_all add: entries_ok_def entries_wire_def)
  from frontier_pieces [OF assms(1,2,7,8,3,4) _ this assms(10), of C] assms(5) show ?thesis
    unfolding frontier_rows_def by auto
qed

text \<open>An entry and the last one, whose hash is not zero, in two packets, with and without the details.\<close>

theorem frontier_response_stored_witness:
  fixes c :: cap
  defines "c \<equiv> \<lparr>cap_db = sample_db, cap_flow = flow_init\<lparr>flow_current_msg_type := ENUM_MSGTYPE_FRONTIER_REQ, flow_message_id := 5\<rparr>\<rparr>"
    and "e \<equiv> \<lparr>frontier_entry_account = replicate 32 1, frontier_entry_frontier_hash = replicate 32 2\<rparr>"
    and "infos \<equiv> [sample_packet (replicate 32 1 @ replicate 16 2), sample_packet (replicate 16 2 @ replicate 32 0 @ replicate 32 3)]"
  shows "(\<exists>c'. handle_packets sample_environment (config_capture_default\<lparr>capture_bootstrap_details := True\<rparr>) infos c = Some c' \<and>
      map tl (rows (db_history (cap_db c')) TableFrontierResponse) =
        map tl (rows (db_history sample_db) TableFrontierResponse) @ [frontier_row 5 e]) \<and>
    (\<exists>c'. handle_packets sample_environment config_capture_default infos c = Some c' \<and>
      map tl (rows (db_history (cap_db c')) TableFrontierResponse) = map tl (rows (db_history sample_db) TableFrontierResponse))"
proof -
  let ?z = "\<lparr>frontier_entry_account = replicate 32 0, frontier_entry_frontier_hash = replicate 32 3\<rparr>"
  have z: "frontier_entry_wf ?z" "all_zero (frontier_entry_account ?z)"
    by (simp_all add: frontier_entry_wf_def all_zero_def list_all_iff)
  have es: "\<forall>e \<in> set [e]. frontier_entry_wf e \<and> \<not> all_zero (frontier_entry_account e)"
    by (simp add: e_def frontier_entry_wf_def all_zero_def list_all_iff)
  have data: "concat (map info_data infos) = concat (map frontier_entry_wire [e]) @ frontier_entry_wire ?z"
    by (simp add: infos_def sample_packet_def packet_of_def e_def frontier_entry_wire_def replicate_numeral_list)
  have small: "\<forall>info \<in> set infos. info_data info \<noteq> [] \<and> length (info_data info) \<le> 4032"
    by (simp add: infos_def sample_packet_def packet_of_def)
  have c: "db_inv (cap_db c)" "flow_current_msg_type (cap_flow c) = ENUM_MSGTYPE_FRONTIER_REQ"
      "flow_accumulated_data (cap_flow c) = []" "flow_message_id (cap_flow c) = 5" "cap_db c = sample_db"
    by (simp_all add: c_def flow_init_def sample_db_inv)
  note stored = frontier_response_stored [OF sample_ok(1,2) c(1-3) es z data small]
  from stored [of "config_capture_default\<lparr>capture_bootstrap_details := True\<rparr>"] stored [of config_capture_default] c(4,5)
  show ?thesis by (simp add: config_capture_default_def) blast
qed

section \<open>Data that is not a message\<close>

text \<open>
  Outside a stream, data the protocol reader rejects with a \<open>runtime_error\<close> leaves the database and
  every connection as they are: the packet is dropped and counted.
\<close>

theorem parse_error_only_counts:
  assumes "\<not> ph_stopped s" and "ph_packet_queue s = info # q" and "ph_conn_mgr s (info_flow_key info) = Some f"
    and "\<not> stream_type (flow_current_msg_type f)"
    and "nano_read (kstream_of (info_data info)) = Inl e" and "is_runtime_error e"
  shows "process_packet E C s = Some (ParseError, s\<lparr>ph_packet_queue := q,
    ph_packet_parse_error_count := ph_packet_parse_error_count s + 1\<rparr>)"
proof -
  let ?c = "\<lparr>cap_db = ph_db s, cap_flow = f\<rparr>"
  have "tcp_data E C info ?c = Some (handle_message_data E C info ?c)"
    using assms(4) by (cases "flow_current_msg_type f") (simp_all add: tcp_data_def)
  moreover have "handle_message_data E C info ?c = (Inl (StreamException e), ?c)"
    using assms(5) by (simp add: handle_message_data_def act_bind_def act_read_def)
  ultimately have "handle_tcp E C info ?c = Some (ParseError, ?c)"
    using assms(6) by (simp add: handle_tcp_def)
  moreover have "(ph_conn_mgr s)(info_flow_key info \<mapsto> f) = ph_conn_mgr s" using assms(3) by auto
  ultimately show ?thesis using assms(1-3) by (simp add: process_packet_def)
qed

theorem parse_error_only_counts_witness:
  "process_packet sample_environment config_capture_default
     ((ph_start sample_db)\<lparr>ph_conn_mgr := [7 \<mapsto> flow_init], ph_packet_queue := [sample_packet [1, 2, 3]]\<rparr>) =
   Some (ParseError, (ph_start sample_db)\<lparr>ph_conn_mgr := [7 \<mapsto> flow_init], ph_packet_parse_error_count := 1\<rparr>)"
proof -
  obtain e where e: "nano_read (kstream_of [1, 2, 3]) = Inl e" "is_runtime_error e"
    by (simp add: nano_read_def ks_bind_def message_header_read_eq)
  show ?thesis
    using parse_error_only_counts [of "(ph_start sample_db)\<lparr>ph_conn_mgr := [7 \<mapsto> flow_init],
      ph_packet_queue := [sample_packet [1, 2, 3]]\<rparr>" "sample_packet [1, 2, 3]" "[]" flow_init e
      sample_environment config_capture_default] e
    by (simp add: ph_start_def sample_packet_def packet_of_def sample_connection_def flow_init_def)
qed

end
