(* ===== verification/DbLaws.thy ===== *)
theory DbLaws
  imports HandlerStreams
begin

text \<open>
  Properties of the capture database that stand on their own: what the constructor restores from a
  database file, what one rejected row does to all later ones, and which values a vote row takes
  from an earlier vote.
\<close>

section \<open>Opening a database\<close>

text \<open>C28: 
  The constructor on a file with earlier captures restores the counters per message type from the
  packet table and starts the ids above every key that is in use, in an open transaction.
\<close>

theorem database_start:
  assumes "engine_ok E" and "start_ok E h"
  shows "\<exists>d. db_init E (db_start h) = (Inr (), d) \<and>
    (\<forall>k < 32. db_count_per_type d ! k = of_nat (packets_of_type h k)) \<and>
    (\<forall>t. t \<noteq> TableRuns \<longrightarrow> rows (db_history d) t = rows h t \<and>
       (\<forall>r \<in> set (rows h t). \<exists>i < db_next_id d. hd r = SqlInt i)) \<and>
    \<not> db_tx_commited d"
proof -
  obtain d where init: "db_init E (db_start h) = (Inr (), d)" and inv: "db_inv d"
      and hist: "db_history d = h @ [SqlRun] @ [SqlBegin]"
    using db_init_inv [OF assms] by blast
  have rows: "rows (db_history d) = (rows h)(TableRuns := rows h TableRuns @ [[]])"
    using rows_snoc(4) [of "h @ [SqlRun]"] hist by simp
  then have "packets_of_type (db_history d) k = packets_of_type h k" for k
    by (simp add: packets_of_type_def)
  with init inv rows show ?thesis
    unfolding db_inv_eq db_mid_def by (intro exI [of _ d]) (simp, blast)
qed

theorem database_start_witness:
  fixes E :: environment and h :: sql_history
  defines "E \<equiv> sample_environment\<lparr>env_packets_per_type := (\<lambda>h. [(1, 3)])\<rparr>"
    and "h \<equiv> [SqlInsert TablePacket [SqlInt 5, SqlInt 7, SqlInt 4, SqlInt 3]]"
  shows "\<exists>d. db_init E (db_start h) = (Inr (), d) \<and> db_count_per_type d ! 3 = 1 \<and> 5 < db_next_id d"
proof -
  have E: "engine_ok E" using sample_ok(1) by (simp add: E_def engine_ok_def)
  have rows: "rows h t = (if t = TablePacket then [[SqlInt 5, SqlInt 7, SqlInt 4, SqlInt 3]] else [])" for t
    by (simp add: h_def rows_def)
  then have "start_ok E h"
    by (auto simp: start_ok_def Let_def E_def sample_environment_def packets_of_type_def types_known_def
        intro: exI [of _ "3 :: nat"])
  from database_start [OF E this] rows show ?thesis
    by (fastforce simp: packets_of_type_def)
qed

section \<open>After a rejected row\<close>

lemma sbinds_stepped:
  "st_stepped (db_stmts d t) \<Longrightarrow> ps \<noteq> [] \<Longrightarrow> sbinds t ps d = (Inl (SqliteException SQLITE_MISUSE), d)"
  by (cases ps) (auto simp: sbinds_def act_bind_def stmt_bind_def Let_def)

lemma put_connection_stepped:
  assumes "st_stepped (db_stmts d TableConnection)"
  shows "put_connection E v a p b q k ev d = (Inl (SqliteException SQLITE_MISUSE), d\<lparr>db_next_id := db_next_id d + 1\<rparr>)"
  using assms by (simp add: put_connection_def act_bind_def db_fetch_add_def insert_row_def sbinds_stepped)

lemma stepped_stays:
  assumes "st_stepped (db_stmts d TableConnection)"
  shows "db_history (foldl (\<lambda>d (v, a, p, b, q, k, ev). snd (put_connection E v a p b q k ev d)) d calls) = db_history d \<and>
    st_stepped (db_stmts (foldl (\<lambda>d (v, a, p, b, q, k, ev). snd (put_connection E v a p b q k ev d)) d calls) TableConnection)"
  using assms
proof (induction calls arbitrary: d)
  case (Cons x calls)
  obtain v a p b q k ev where x: "x = (v, a, p, b, q, k, ev)" by (cases x)
  from Cons.IH [of "d\<lparr>db_next_id := db_next_id d + 1\<rparr>"] Cons.prems x show ?case
    by (simp add: put_connection_stepped)
qed simp

text \<open>C24: 
  The statement of a row the engine rejects is not reset, and a statement that was stepped takes no
  bindings: after one rejected connection event no event is stored any more, whatever the engine
  would accept, and every call throws \<open>SQLITE_MISUSE\<close>. The other tables have the same code.
\<close>

theorem rejected_event_blocks_later_ones:
  assumes "ready (db_stmts d TableConnection)"
    and "\<forall>vs. sqlite_call E (db_history d) (SqlInsert TableConnection vs) = ret" and "ret \<noteq> SQLITE_DONE" and "ret \<noteq> SQLITE_ROW"
    and "put_connection E v a p b q k ev d = (r, d')"
  shows "r = Inl (SqliteException ret) \<and>
    (\<forall>calls. let d'' = foldl (\<lambda>d (v, a, p, b, q, k, ev). snd (put_connection E' v a p b q k ev d)) d' calls
      in db_history d'' = db_history d' \<and>
         (\<forall>v a p b q k ev. fst (put_connection E' v a p b q k ev d'') = Inl (SqliteException SQLITE_MISUSE)))"
proof -
  let ?ps = "[(''id'', SqlInt (db_next_id d)), (''ipv'', SqlInt v), (''srcip'', SqlText a), (''srcport'', sql_uint p),
    (''dstip'', SqlText b), (''dstport'', sql_uint q), (''flowkey'', sql_uint k), (''event'', SqlText ev)]"
  let ?d = "d\<lparr>db_next_id := db_next_id d + 1\<rparr>"
  obtain st where binds: "sbinds TableConnection ?ps ?d = (Inr (), db_stmt_set TableConnection st ?d)" and st: "\<not> st_done st"
    using sbinds_ready [of ?d TableConnection ?ps] assms(1) by (auto simp: ready_def)
  then have put: "put_connection E v a p b q k ev d = (Inl (SqliteException ret), db_stmt_set TableConnection
      (st\<lparr>st_stepped := True, st_result := ret, st_has_row := False, st_done := False\<rparr>) ?d)"
    using assms(2-4) by (simp add: put_connection_def act_bind_def db_fetch_add_def insert_row_def stmt_exec_def
        stmt_try_execute_step_def Let_def db_stmt_set_def)
  then have "st_stepped (db_stmts d' TableConnection)" using assms(5) by (auto simp: db_stmt_set_def)
  with put assms(5) stepped_stays [of d' E'] show ?thesis
    by (auto simp: Let_def put_connection_stepped)
qed

text \<open>An engine that is full at first and takes rows again later.\<close>

theorem rejected_event_blocks_later_ones_witness:
  "\<exists>d'. put_connection (sample_environment\<lparr>sqlite_call := (\<lambda>h ev. 13)\<rparr>) 4 ''a'' 1 ''b'' 2 7 ''event'' (db_start []) =
      (Inl (SqliteException 13), d') \<and>
    fst (put_connection sample_environment 4 ''a'' 1 ''b'' 2 7 ''event'' d') = Inl (SqliteException SQLITE_MISUSE)"
proof -
  let ?E = "sample_environment\<lparr>sqlite_call := (\<lambda>h ev. 13)\<rparr>"
  obtain r d' where put: "put_connection ?E 4 ''a'' 1 ''b'' 2 7 ''event'' (db_start []) = (r, d')"
    by fastforce
  have "ready (db_stmts (db_start []) TableConnection)" by (simp add: db_start_def statement_init_def ready_def)
  from rejected_event_blocks_later_ones [OF this _ _ _ put, of 13 sample_environment] put
  have "r = Inl (SqliteException 13)" and later: "let d'' = foldl (\<lambda>d (v, a, p, b, q, k, ev).
        snd (put_connection sample_environment v a p b q k ev d)) d' calls
      in db_history d'' = db_history d' \<and> (\<forall>v a p b q k ev.
        fst (put_connection sample_environment v a p b q k ev d'') = Inl (SqliteException SQLITE_MISUSE))" for calls
    by (simp_all add: sqlite_codes)
  with put later [of "[]"] show ?thesis by (simp add: Let_def)
qed
section \<open>Votes\<close>

text \<open>Partial correctness: what holds if the action returns.\<close>

abbreviation returning :: "('s \<Rightarrow> bool) \<Rightarrow> ('s, 'a) act \<Rightarrow> ('a \<Rightarrow> 's \<Rightarrow> bool) \<Rightarrow> bool" where
  "returning P m Q \<equiv> triple P m Q (\<lambda>_ _. True)"

text \<open>The bindings of the vote statement, which only its own bindings change.\<close>

abbreviation vote_binds :: "db \<Rightarrow> string \<Rightarrow> sql_value" where
  "vote_binds d \<equiv> st_binds (db_stmts d TableVote)"

lemma keeps_vote_steps [keeps]:
  "keeps vote_binds db_fetch_add" "keeps vote_binds (stmt_exec E t)" "keeps vote_binds (stmt_reset t)"
  "keeps vote_binds (stmt_clear_bindings TablePacket)" "keeps vote_binds (transaction_commit E)"
  "keeps vote_binds (transaction_new E)" "keeps vote_binds (set_count i n)"
  "(\<And>d. db_stmts (g d) = db_stmts d) \<Longrightarrow> keeps vote_binds (act_modify g)"
  "t \<noteq> TableVote \<Longrightarrow> keeps vote_binds (stmt_bind t p v)"
  by (auto simp: keeps_def db_fetch_add_def stmt_exec_def stmt_try_execute_step_def stmt_reset_def stmt_clear_bindings_def
      transaction_commit_def transaction_new_def set_count_def act_modify_def stmt_bind_def Let_def db_stmt_set_def)

lemma keeps_vote_sbinds [keeps]: "t \<noteq> TableVote \<Longrightarrow> keeps vote_binds (sbinds t ps)"
  unfolding sbinds_def by (auto intro!: keeps simp del: act_seq.simps)

lemma keeps_vote_insert_row [keeps]: "t \<noteq> TableVote \<Longrightarrow> keeps vote_binds (insert_row E t ps)"
  unfolding insert_row_def by (auto intro!: keeps simp del: act_seq.simps)

lemma keeps_vote_bind_packet [keeps]: "keeps vote_binds (bind_packet E C h info i)"
  unfolding bind_packet_def bind_header_fields_def bind_packet_fields_def check_size_def Let_def
  by (auto intro!: keeps simp del: act_seq.simps split: option.split)

lemma keeps_vote_put_block [keeps]: "keeps vote_binds (put_block E C sel i j)"
proof -
  have "keeps vote_binds (put_block_kind E s i j)" for s
    unfolding put_block_kind_def Let_def put_block_state_def put_block_send_def put_block_receive_def
      put_block_open_def put_block_change_def
    by (auto intro!: keeps split: enum_blocktype_t.split nano_block.split)
  then show ?thesis unfolding put_block_def by (auto intro!: keeps split: option.split)
qed

lemma returning_keeps: "keeps vote_binds m \<Longrightarrow> returning (\<lambda>d. Q (vote_binds d)) m (\<lambda>_ d. Q (vote_binds d))"
  by (intro tripleI) (auto dest: keepsD split: sum.split prod.split)

lemma returning_bind: "returning (\<lambda>d. Q ((vote_binds d)(p := v))) (stmt_bind TableVote p v) (\<lambda>_ d. Q (vote_binds d))"
  by (rule tripleI) (simp add: stmt_bind_def Let_def db_stmt_set_def)

lemma returning_sbinds:
  "returning (\<lambda>d. Q (fold (\<lambda>(p, v) b. b(p := v)) ps (vote_binds d))) (sbinds TableVote ps) (\<lambda>_ d. Q (vote_binds d))"
proof (induction ps)
  case Nil
  show ?case by (simp add: sbinds_def) (rule triple_return)
next
  case (Cons x ps)
  obtain p v where x: "x = (p, v)" by (cases x)
  have "sbinds TableVote (x # ps) = act_bind (stmt_bind TableVote p v) (\<lambda>_. sbinds TableVote ps)"
    by (simp add: x sbinds_def)
  with triple_bind [OF returning_bind [of "\<lambda>b. Q (fold (\<lambda>(p, v) b. b(p := v)) ps b)" p v] Cons.IH]
  show ?case by (simp only: x fold.simps(2) comp_apply prod.case)
qed

text \<open>The row a vote inserts has the values bound when the statement is executed.\<close>

definition vote_row :: "(string \<Rightarrow> sql_value) \<Rightarrow> sql_value list" where
  "vote_row b = map b (params TableVote)"

abbreviation last_vote :: "db \<Rightarrow> sql_value list" where
  "last_vote d \<equiv> last (rows (db_history d) TableVote)"

lemma returning_exec_vote:
  "returning (\<lambda>d. Q (vote_row (vote_binds d))) (stmt_exec E TableVote) (\<lambda>_ d. Q (last_vote d))"
  by (rule tripleI) (auto simp: stmt_exec_def stmt_try_execute_step_def Let_def sqlite_codes db_stmt_set_def
      vote_row_def stmt_values_def split: if_splits)

lemma keeps_last_vote [keeps]:
  "keeps last_vote (stmt_reset t)" "keeps last_vote (sbinds TablePacket ps)" "keeps last_vote (stmt_exec E TablePacket)"
proof -
  have "keeps last_vote (stmt_bind TablePacket p v)" for p v
    by (auto simp: keeps_def stmt_bind_def Let_def db_stmt_set_def)
  then show "keeps last_vote (sbinds TablePacket ps)"
    unfolding sbinds_def by (auto intro!: keeps_seq)
  show "keeps last_vote (stmt_reset t)" "keeps last_vote (stmt_exec E TablePacket)"
    by (auto simp: keeps_def stmt_reset_def stmt_exec_def stmt_try_execute_step_def Let_def db_stmt_set_def)
qed
text \<open>A vote inserts the bindings that the part of its kind leaves, and leaves them for the next.\<close>

definition vote_done :: "(sql_value \<Rightarrow> sql_value \<Rightarrow> bool) \<Rightarrow> db \<Rightarrow> bool" where
  "vote_done Q d \<longleftrightarrow> Q (last_vote d ! 5) (last_vote d ! 9) \<and> Q (vote_binds d ''vbh'') (vote_binds d ''hashes'')"

lemma returning_conj:
  "returning P m Q \<Longrightarrow> returning P m Q' \<Longrightarrow> returning P m (\<lambda>x s. Q x s \<and> Q' x s)"
  by (fastforce simp: triple_def split: prod.splits sum.splits)

lemma returning_put_confirm_ack:
  assumes "\<And>i. returning (\<lambda>d. P (vote_binds d)) (bind_vote E C m i) (\<lambda>_ d. Q (vote_binds d ''vbh'') (vote_binds d ''hashes''))"
  shows "returning (\<lambda>d. P (vote_binds d)) (put_confirm_ack E C h m info) (\<lambda>_. vote_done Q)"
proof -
  let ?Q = "\<lambda>b :: string \<Rightarrow> sql_value. Q (b ''vbh'') (b ''hashes'')"
  have common: "returning (\<lambda>d. ?Q (vote_binds d)) (sbinds TableVote
      [(''account'', a), (''signature'', s), (''sequence'', q)]) (\<lambda>_ d. ?Q (vote_binds d))" for a s q
    using returning_sbinds [of ?Q "[(''account'', a), (''signature'', s), (''sequence'', q)]"] by simp
  have ids: "returning (\<lambda>d. ?Q (vote_binds d)) (sbinds TableVote [(''id'', i), (''packet_id'', j)]) (\<lambda>_ d. ?Q (vote_binds d))" for i j
    using returning_sbinds [of ?Q "[(''id'', i), (''packet_id'', j)]"] by simp
  have exec: "returning (\<lambda>d. ?Q (vote_binds d)) (stmt_exec E TableVote) (\<lambda>_. vote_done Q)"
    unfolding vote_done_def
    using returning_exec_vote [of "\<lambda>r. Q (r ! 5) (r ! 9)" E]
    by (intro returning_conj returning_keeps [OF keeps_vote_steps(2), of ?Q]) (simp add: vote_row_def)
  have last: "returning (vote_done Q) m (\<lambda>_. vote_done Q)" if "keeps last_vote m" "keeps vote_binds m" for m :: "(db, unit) act"
    using that by (intro tripleI) (auto simp: vote_done_def dest: keepsD split: sum.split prod.split)
  have row: "returning (\<lambda>d. ?Q (vote_binds d)) (insert_row E TableVote [(''id'', i), (''packet_id'', j)])
      (\<lambda>_. vote_done Q)" for i j
    unfolding insert_row_def
    by (rule triple_seq_cons [OF ids triple_seq_cons [OF exec triple_seq_cons [OF last [OF keeps_last_vote(1)] triple_seq_nil]]],
        rule keeps)
  have fetch: "returning (\<lambda>d. F (vote_binds d)) db_fetch_add (\<lambda>_ d. F (vote_binds d))" for F
    by (rule returning_keeps) (rule keeps)
  have packet: "returning (vote_done Q) (act_seq [sbinds TablePacket ps, stmt_exec E TablePacket, stmt_reset TablePacket])
      (\<lambda>_. vote_done Q)" for ps
    by (intro triple_seq_cons [OF last] triple_seq_nil keeps) simp
  show ?thesis
    unfolding put_confirm_ack_def
    by (rule triple_bind [OF fetch], rule triple_seq_cons [OF returning_keeps [OF keeps_vote_bind_packet]],
        rule triple_seq_cons [OF assms], rule triple_seq_cons [OF common],
        rule triple_seq_cons [OF triple_bind [OF fetch triple_seq_cons [OF row packet]] triple_seq_nil])
qed

lemma bind_vote_by_hash:
  assumes "confirm_ack_block m = None" and "confirm_ack_votebyhash m = Some v" and "vote_hashes v = Some (hash # hashes)"
  shows "returning (\<lambda>_. True) (bind_vote E C m i)
    (\<lambda>_ d. vote_binds d ''vbh'' = SqlInt 1 \<and> vote_binds d ''hashes'' = SqlText (vote_hashes_text (hash # hashes)))"
proof -
  let ?text = "SqlText (vote_hashes_text (hash # hashes))"
  from returning_sbinds [of "\<lambda>b. b ''vbh'' = SqlInt 1 \<and> b ''hashes'' = ?text"
      "[(''vbh'', SqlInt 1), (''vote_count'', SqlInt (int (length (hash # hashes)))), (''hashes'', ?text)]"]
  show ?thesis using assms by (simp add: bind_vote_def)
qed

lemma bind_vote_block:
  assumes "confirm_ack_block m = Some block"
  shows "returning (\<lambda>d. vote_binds d ''hashes'' = x) (bind_vote E C m i)
    (\<lambda>_ d. vote_binds d ''vbh'' = SqlInt 0 \<and> vote_binds d ''hashes'' = x)"
proof -
  let ?Q = "\<lambda>b. b ''vbh'' = SqlInt 0 \<and> b ''hashes'' = x"
  have fetch: "returning (\<lambda>d. vote_binds d ''hashes'' = x) db_fetch_add (\<lambda>_ d. vote_binds d ''hashes'' = x)"
    by (rule returning_keeps) (rule keeps)
  have block: "returning (\<lambda>d. vote_binds d ''hashes'' = x) (put_block E C (Some block) j i) (\<lambda>_ d. vote_binds d ''hashes'' = x)" for j
    by (rule returning_keeps) (rule keeps)
  have bind: "returning (\<lambda>d. vote_binds d ''hashes'' = x) (sbinds TableVote [(''content_id'', SqlInt j),
      (''content_table'', SqlText t), (''vote_count'', SqlInt 1), (''vbh'', SqlInt 0)]) (\<lambda>_ d. ?Q (vote_binds d))" for j t
    using returning_sbinds [of ?Q "[(''content_id'', SqlInt j), (''content_table'', SqlText t), (''vote_count'', SqlInt 1), (''vbh'', SqlInt 0)]"]
    by simp
  show ?thesis
    using assms by (simp add: bind_vote_def) (rule triple_bind [OF fetch triple_bind [OF block bind]])
qed

text \<open>C39: 
  The bindings of the vote statement are not cleared between votes. A vote for a block that follows
  a vote by hash is stored as a vote for a block (\<open>vbh\<close> is 0), but its row has the hashes of the
  vote before it.
\<close>

theorem vote_row_keeps_earlier_hashes:
  assumes "engine_ok E" and "db_inv d"
    and "hdr_message_type h1 = ENUM_MSGTYPE_CONFIRM_ACK" and "hdr_message_type h2 = ENUM_MSGTYPE_CONFIRM_ACK"
    and "confirm_ack_block m1 = None" and "confirm_ack_votebyhash m1 = Some v" and "vote_hashes v = Some (hash # hashes)"
    and "confirm_ack_block m2 = Some block" and "selector_ok block"
  shows "\<exists>d1 d2. put_confirm_ack E C h1 m1 info1 d = (Inr (), d1) \<and> put_confirm_ack E C h2 m2 info2 d1 = (Inr (), d2) \<and>
    last (rows (db_history d2) TableVote) ! 5 = SqlInt 0 \<and>
    last (rows (db_history d2) TableVote) ! 9 = SqlText (vote_hashes_text (hash # hashes))"
proof -
  let ?text = "SqlText (vote_hashes_text (hash # hashes))"
  have "counted h1" "counted h2" using assms(3,4) by (simp_all add: counted_def)
  note put = triple_put_confirm_ack [OF assms(1) this(1)] triple_put_confirm_ack [OF assms(1) this(2)]
  from triple_returns [OF put(1) assms(2), of m1 C info1] assms(5) obtain d1
    where d1: "put_confirm_ack E C h1 m1 info1 d = (Inr (), d1)" "db_inv d1" by auto
  from triple_returns [OF put(2) d1(2), of m2 C info2] assms(8,9) obtain d2
    where d2: "put_confirm_ack E C h2 m2 info2 d1 = (Inr (), d2)" by auto
  have "vote_done (\<lambda>a b. a = SqlInt 1 \<and> b = ?text) d1"
    using tripleD [OF returning_put_confirm_ack [where P = "\<lambda>_. True" and Q = "\<lambda>a b. a = SqlInt 1 \<and> b = ?text"] _ d1(1)]
      bind_vote_by_hash [OF assms(5-7)] by simp
  then have "vote_binds d1 ''hashes'' = ?text" by (simp add: vote_done_def)
  with tripleD [OF returning_put_confirm_ack [where P = "\<lambda>b. b ''hashes'' = ?text" and Q = "\<lambda>a b. a = SqlInt 0 \<and> b = ?text"] _ d2]
      bind_vote_block [OF assms(8)]
  have "vote_done (\<lambda>a b. a = SqlInt 0 \<and> b = ?text) d2" by simp
  with d1 d2 show ?thesis by (auto simp: vote_done_def)
qed
theorem vote_row_keeps_earlier_hashes_witness:
  fixes h :: message_header_t
  defines "h \<equiv> \<lparr>hdr_magic = [0x52], hdr_network_id = enum_network_of 0x43, hdr_version_max = 18, hdr_version_using = 18,
      hdr_version_min = 17, hdr_message_type = ENUM_MSGTYPE_CONFIRM_ACK, hdr_extensions = 0\<rparr>"
    and "common \<equiv> \<lparr>vote_common_account = replicate 32 1, vote_common_signature = replicate 64 2, vote_common_sequence = 3\<rparr>"
  shows "\<exists>d2. last (rows (db_history (d2 :: db)) TableVote) ! 5 = SqlInt 0 \<and>
    last (rows (db_history d2) TableVote) ! 9 = SqlText (to_hex (replicate 32 9))"
proof -
  let ?block = "\<lparr>sel_arg_block_type = 3, sel_block = BlockReceive \<lparr>block_receive_previous = replicate 32 1,
    block_receive_source = replicate 32 2, block_receive_signature = replicate 64 3, block_receive_work = 4\<rparr>\<rparr>"
  have block: "selector_ok ?block"
    by (simp add: selector_ok_def enum_blocktype_of_def block_receive_wf_def)
  have h: "hdr_message_type h = ENUM_MSGTYPE_CONFIRM_ACK" by (simp add: h_def)
  show ?thesis
    using vote_row_keeps_earlier_hashes [OF sample_ok(1) sample_db_inv h h _ _ _ _ block,
        of "\<lparr>confirm_ack_common = common, confirm_ack_votebyhash = Some \<lparr>vote_hashes = Some [replicate 32 9]\<rparr>, confirm_ack_block = None\<rparr>"
          "\<lparr>vote_hashes = Some [replicate 32 9]\<rparr>" "replicate 32 9" "[]"
          "\<lparr>confirm_ack_common = common, confirm_ack_votebyhash = None, confirm_ack_block = Some ?block\<rparr>"
          config_capture_default "sample_packet []" "sample_packet []"]
    by fastforce
qed

theorem tcp_data_throws_stream_exceptions_witness:
  "\<exists>e c'. tcp_data sample_environment config_capture_default (sample_packet [1, 2, 3])
      \<lparr>cap_db = sample_db, cap_flow = flow_init\<rparr> = Some (Inl e, c') \<and> (\<exists>x. e = StreamException x)"
proof -
  let ?c = "\<lparr>cap_db = sample_db, cap_flow = flow_init\<rparr>"
  obtain e c' where "tcp_data sample_environment config_capture_default (sample_packet [1, 2, 3]) ?c = Some (Inl e, c')"
    by (simp add: tcp_data_def flow_init_def handle_message_data_def act_bind_def act_read_def sample_packet_def
        packet_of_def nano_read_def ks_bind_def message_header_read_eq)
  with tcp_data_throws_stream_exceptions [OF sample_ok(1,2) _ _ this] show ?thesis
    by (simp add: sample_db_inv)
qed

end
