(* ===== verification/DbStored.thy ===== *)
theory DbStored
  imports HandlerStreams
begin

text \<open>
  What is stored of a message that carries a block: from the bytes of a packet to the rows in the
  tables, through the parser, the handler, the hash functions and the statements of the database.
\<close>

section \<open>The rows of a block and of its packet\<close>

text \<open>The table a block is stored in, its name, and the row, in the order of the columns.\<close>

definition stored_hash :: "bytes \<Rightarrow> sql_value" where
  "stored_hash preimage = SqlText (to_hex (rfcb_hash 32 [] preimage))"

definition sql_balance :: "bytes \<Rightarrow> sql_value" where
  "sql_balance b = SqlText (dec_string (unat (be_word b :: 128 word)))"

fun block_stored :: "nano_block \<Rightarrow> int \<Rightarrow> int \<Rightarrow> (table \<times> string \<times> sql_value list) option" where
  "block_stored (BlockState b) row packet = Some (TableBlockState, ''block_state'',
     [SqlInt row, SqlInt packet,
      stored_hash (replicate 31 0 @ [6] @ block_state_account b @ block_state_previous b @
        block_state_representative b @ block_state_balance b @ block_state_link b),
      SqlText (pub_to_account (block_state_account b)), SqlText (to_hex (block_state_previous b)),
      SqlText (pub_to_account (block_state_representative b)), sql_balance (block_state_balance b),
      SqlText (to_hex (block_state_link b)), SqlText (to_hex (block_state_signature b)), sql_int64 (block_state_work b)])"
| "block_stored (BlockSend b) row packet = Some (TableBlockSend, ''block_send'',
     [SqlInt row, SqlInt packet,
      stored_hash (block_send_previous b @ block_send_destination b @ block_send_balance b),
      SqlText (to_hex (block_send_previous b)), SqlText (pub_to_account (block_send_destination b)),
      sql_balance (block_send_balance b), SqlText (to_hex (block_send_signature b)), sql_int64 (block_send_work b)])"
| "block_stored (BlockReceive b) row packet = Some (TableBlockReceive, ''block_receive'',
     [SqlInt row, SqlInt packet, stored_hash (block_receive_previous b @ block_receive_source b),
      SqlText (to_hex (block_receive_previous b)), SqlText (to_hex (block_receive_source b)),
      SqlText (to_hex (block_receive_signature b)), sql_int64 (block_receive_work b)])"
| "block_stored (BlockOpen b) row packet = Some (TableBlockOpen, ''block_open'',
     [SqlInt row, SqlInt packet,
      stored_hash (block_open_source b @ block_open_representative b @ block_open_account b),
      SqlText (to_hex (block_open_source b)), SqlText (pub_to_account (block_open_representative b)),
      SqlText (pub_to_account (block_open_account b)), SqlText (to_hex (block_open_signature b)), sql_int64 (block_open_work b)])"
| "block_stored (BlockChange b) row packet = Some (TableBlockChange, ''block_change'',
     [SqlInt row, SqlInt packet, stored_hash (block_change_previous b @ block_change_representative b),
      SqlText (to_hex (block_change_previous b)), SqlText (pub_to_account (block_change_representative b)),
      SqlText (to_hex (block_change_signature b)), sql_int64 (block_change_work b)])"
| "block_stored (BlockIgnored b) row packet = None"

definition packet_stored :: "environment \<Rightarrow> message_header_t \<Rightarrow> nano_packet \<Rightarrow> int \<Rightarrow> sql_value \<Rightarrow> sql_value \<Rightarrow> sql_value list" where
  "packet_stored E h info row content_table content_id =
     [SqlInt row, sql_uint (info_flow_key info), sql_uint (info_ip_version info),
      sql_uint (enum_msgtype_val (hdr_message_type h)), sql_uint (hdr_version_using h), sql_uint (hdr_version_min h),
      SqlInt (sint (enum_blocktype_val (hdr_block_type h))), sql_uint (hdr_extensions h), content_table, content_id,
      SqlText (info_src_ip info), sql_uint (info_src_port info), SqlText (info_dst_ip info), sql_uint (info_dst_port info),
      (case env_time_text E (info_timestamp info) of None \<Rightarrow> SqlNull | Some time \<Rightarrow> SqlText time),
      SqlInt (info_timestamp_usec info)]"

text \<open>The block a message carries: that of \<open>publish\<close>, or the one \<open>confirm_req\<close> asks about.\<close>

fun carried_block :: "nano_body \<Rightarrow> block_selector_t option" where
  "carried_block (BodyPublish m) = Some (publish_body m)"
| "carried_block (BodyConfirmReq m) = confirm_req_block m"
| "carried_block _ = None"

section \<open>What an action did when it returned\<close>

lemma act_bind_Inr: "act_bind m f s = (Inr y, s'') \<longleftrightarrow> (\<exists>x s'. m s = (Inr x, s') \<and> f x s' = (Inr y, s''))"
  by (auto simp: act_bind_def split: prod.splits sum.splits)

lemma act_seq_Inr:
  "act_seq [] s = (Inr y, s'') \<longleftrightarrow> s'' = s"
  "act_seq (m # ms) s = (Inr y, s'') \<longleftrightarrow> (\<exists>x s'. m s = (Inr x, s') \<and> act_seq ms s' = (Inr y, s''))"
  by (auto simp: act_bind_Inr act_return_def)

abbreviation binds_of :: "table \<Rightarrow> db \<Rightarrow> string \<Rightarrow> sql_value" where
  "binds_of t d \<equiv> st_binds (db_stmts d t)"

abbreviation bind_all :: "(string \<times> sql_value) list \<Rightarrow> (string \<Rightarrow> sql_value) \<Rightarrow> string \<Rightarrow> sql_value" where
  "bind_all ps b \<equiv> fold (\<lambda>(p, v) b. b(p := v)) ps b"

text \<open>The contents of the tables and the bindings of a statement, before and after.\<close>

lemma stmt_bind_did:
  "stmt_bind t p v d = (Inr u, d') \<Longrightarrow> db_history d' = db_history d \<and> binds_of t d' = (binds_of t d)(p := v) \<and>
     (\<forall>s. s \<noteq> t \<longrightarrow> db_stmts d' s = db_stmts d s) \<and> db_tx_commited d' = db_tx_commited d"
  by (auto simp: stmt_bind_def Let_def db_stmt_set_def split: if_splits)

lemma sbinds_did:
  "sbinds t ps d = (Inr u, d') \<Longrightarrow> db_history d' = db_history d \<and> binds_of t d' = bind_all ps (binds_of t d) \<and>
     (\<forall>s. s \<noteq> t \<longrightarrow> db_stmts d' s = db_stmts d s) \<and> db_tx_commited d' = db_tx_commited d"
proof (induction ps arbitrary: d)
  case Nil
  then show ?case by (simp add: sbinds_def act_return_def)
next
  case (Cons x ps)
  obtain p v where x: "x = (p, v)" by (cases x)
  with Cons.prems obtain w e where e: "stmt_bind t p v d = (Inr w, e)" "sbinds t ps e = (Inr u, d')"
    by (auto simp: sbinds_def act_bind_Inr)
  from stmt_bind_did [OF e(1)] Cons.IH [OF e(2)] x show ?case by auto
qed

lemma stmt_exec_did:
  "stmt_exec E t d = (Inr u, d') \<Longrightarrow>
     rows (db_history d') = (rows (db_history d))(t := rows (db_history d) t @ [map (binds_of t d) (params t)]) \<and>
     (\<forall>s. binds_of s d' = binds_of s d)"
  by (auto simp: stmt_exec_def stmt_try_execute_step_def Let_def sqlite_codes db_stmt_set_def stmt_values_def split: if_splits)

lemma stmt_reset_did:
  "stmt_reset t d = (Inr u, d') \<Longrightarrow> db_history d' = db_history d \<and> (\<forall>s. binds_of s d' = binds_of s d)"
  by (auto simp: stmt_reset_def Let_def db_stmt_set_def split: if_splits)

lemma insert_row_did:
  assumes "insert_row E t ps d = (Inr u, d')"
  shows "rows (db_history d') = (rows (db_history d))(t := rows (db_history d) t @ [map (bind_all ps (binds_of t d)) (params t)]) \<and>
    (\<forall>s. s \<noteq> t \<longrightarrow> binds_of s d' = binds_of s d)"
proof -
  from assms obtain d1 d2 a b where "sbinds t ps d = (Inr a, d1)" "stmt_exec E t d1 = (Inr b, d2)" "stmt_reset t d2 = (Inr u, d')"
    by (auto simp: insert_row_def act_bind_Inr act_return_def)
  from sbinds_did [OF this(1)] stmt_exec_did [OF this(2)] stmt_reset_did [OF this(3)] show ?thesis by auto
qed

lemma db_fetch_add_did:
  "db_fetch_add d = (Inr i, d') \<longleftrightarrow> i = db_next_id d \<and> d' = d\<lparr>db_next_id := db_next_id d + 1\<rparr>"
  by (auto simp: db_fetch_add_def)

section \<open>The packet row\<close>

definition packet_binds :: "environment \<Rightarrow> message_header_t \<Rightarrow> nano_packet \<Rightarrow> int \<Rightarrow> string \<Rightarrow> sql_value" where
  "packet_binds E h info packet_id =
     bind_all ([(''id'', SqlInt packet_id),
         (''hdr_msg_type'', sql_uint (enum_msgtype_val (hdr_message_type h))),
         (''hdr_version_using'', sql_uint (hdr_version_using h)),
         (''hdr_version_min'', sql_uint (hdr_version_min h)),
         (''hdr_block_type'', SqlInt (sint (enum_blocktype_val (hdr_block_type h)))),
         (''hdr_extensions'', sql_uint (hdr_extensions h)),
         (''content_table'', SqlNull),
         (''content_id'', SqlNull)] @
        [(''srcip'', SqlText (info_src_ip info)),
         (''srcport'', sql_uint (info_src_port info)),
         (''dstip'', SqlText (info_dst_ip info)),
         (''dstport'', sql_uint (info_dst_port info)),
         (''time_usec'', SqlInt (info_timestamp_usec info)),
         (''flow_key'', sql_uint (info_flow_key info)),
         (''ipv'', sql_uint (info_ip_version info))] @
        (case env_time_text E (info_timestamp info) of None \<Rightarrow> [] | Some time \<Rightarrow> [(''time'', SqlText time)]))
       (\<lambda>_. SqlNull)"

lemma check_size_did:
  assumes "check_size E C d = (Inr u, d')" and "\<not> db_tx_commited d"
  shows "rows (db_history d') = rows (db_history d) \<and> db_stmts d' = db_stmts d \<and> db_next_id d' = db_next_id d"
  using assms
  by (auto simp: check_size_def act_bind_def act_get_def act_when_def act_return_def act_modify_def transaction_commit_def
      transaction_new_def Let_def rows_commit split: if_splits)

lemma bind_packet_did:
  assumes "bind_packet E C h info i d = (Inr u, d')" and "\<not> db_tx_commited d"
  shows "rows (db_history d') = rows (db_history d) \<and> binds_of TablePacket d' = packet_binds E h info i"
proof -
  from assms(1) obtain d1 d2 d3 d4 d5 u1 u2 u3 u4 u5 where steps:
    "check_size E C d = (Inr u1, d1)" "stmt_clear_bindings TablePacket d1 = (Inr u2, d2)"
    "sbinds TablePacket [(''id'', SqlInt i),
         (''hdr_msg_type'', sql_uint (enum_msgtype_val (hdr_message_type h))),
         (''hdr_version_using'', sql_uint (hdr_version_using h)),
         (''hdr_version_min'', sql_uint (hdr_version_min h)),
         (''hdr_block_type'', SqlInt (sint (enum_blocktype_val (hdr_block_type h)))),
         (''hdr_extensions'', sql_uint (hdr_extensions h)),
         (''content_table'', SqlNull),
         (''content_id'', SqlNull)] d2 = (Inr u3, d3)"
    "act_bind (act_get db_count_per_type) (\<lambda>count_per_type.
         let i = unat (enum_msgtype_val (hdr_message_type h))
         in set_count i (count_per_type ! i + 1)) d3 = (Inr u4, d4)"
    "bind_packet_fields E info d4 = (Inr u5, d')"
    unfolding bind_packet_def bind_header_fields_def act_seq_Inr by blast
  from steps(5) obtain d6 u6 u7 where fields:
    "sbinds TablePacket [(''srcip'', SqlText (info_src_ip info)),
         (''srcport'', sql_uint (info_src_port info)),
         (''dstip'', SqlText (info_dst_ip info)),
         (''dstport'', sql_uint (info_dst_port info)),
         (''time_usec'', SqlInt (info_timestamp_usec info)),
         (''flow_key'', sql_uint (info_flow_key info)),
         (''ipv'', sql_uint (info_ip_version info))] d4 = (Inr u6, d6)"
    "(case env_time_text E (info_timestamp info) of
          None \<Rightarrow> act_return ()
        | Some time \<Rightarrow> stmt_bind TablePacket ''time'' (SqlText time)) d6 = (Inr u7, d')"
    unfolding bind_packet_fields_def act_seq_Inr by blast
  have clear: "db_history d2 = db_history d1 \<and> binds_of TablePacket d2 = (\<lambda>_. SqlNull)"
    using steps(2) by (auto simp: stmt_clear_bindings_def db_stmt_set_def)
  have count: "db_history d4 = db_history d3 \<and> db_stmts d4 = db_stmts d3"
    using steps(4) by (auto simp: act_bind_Inr act_get_def set_count_def Let_def split: if_splits)
  have time: "db_history d' = db_history d6 \<and> binds_of TablePacket d' =
      bind_all (case env_time_text E (info_timestamp info) of None \<Rightarrow> [] | Some time \<Rightarrow> [(''time'', SqlText time)]) (binds_of TablePacket d6)"
    using fields(2) stmt_bind_did by (fastforce simp: act_return_def split: option.splits)
  from check_size_did [OF steps(1) assms(2)] clear sbinds_did [OF steps(3)] count sbinds_did [OF fields(1)] time
  show ?thesis unfolding packet_binds_def fold_append comp_apply by simp
qed

text \<open>The row of a packet statement that is executed with these bindings and those of the content.\<close>

lemma packet_binds_row:
  "map (bind_all [(''content_id'', y), (''content_table'', x)] (packet_binds E h info i)) (params TablePacket) =
     packet_stored E h info i x y"
  by (cases "env_time_text E (info_timestamp info)") (simp_all add: packet_binds_def packet_stored_def)

section \<open>The block row\<close>

text \<open>The bindings of a block's statement name every column.\<close>

lemma put_block_kind_did:
  assumes "put_block_kind E sel row_id packet_id d = (Inr name, d')"
    and "nano_block_wf (enum_blocktype_of (ucast (sel_arg_block_type sel))) (sel_block sel)"
    and "block_stored (sel_block sel) row_id packet_id = Some (t, n, vs)"
  shows "name = n \<and> rows (db_history d') = (rows (db_history d))(t := rows (db_history d) t @ [vs]) \<and>
    binds_of TablePacket d' = binds_of TablePacket d"
  using assms
  by (cases "sel_block sel")
    (auto simp: put_block_kind_def Let_def act_bind_Inr act_return_def put_block_state_def put_block_send_def
      put_block_receive_def put_block_open_def put_block_change_def act_the_def hash_of_state_hash hash_of_send_hash
      hash_of_receive_hash hash_of_open_hash hash_of_change_hash balance_to_dec_def block_state_wf_def block_send_wf_def
      stored_hash_def sql_balance_def dest!: insert_row_did)

section \<open>The ids that are drawn\<close>

lemma next_id_steps [keeps]:
  "keeps db_next_id (stmt_bind t p v)" "keeps db_next_id (stmt_exec E t)" "keeps db_next_id (stmt_reset t)"
  "keeps db_next_id (set_count i n)" "keeps db_next_id (stmt_clear_bindings t)"
  "keeps db_next_id (transaction_commit E)" "keeps db_next_id (transaction_new E)"
  "keeps db_next_id (act_modify (db_max_reached_update m))"
  by (auto simp: keeps_def stmt_bind_def stmt_exec_def stmt_try_execute_step_def stmt_reset_def set_count_def
      stmt_clear_bindings_def transaction_commit_def transaction_new_def act_modify_def Let_def db_stmt_set_def)

lemma next_id_sbinds [keeps]: "keeps db_next_id (sbinds t ps)"
  unfolding sbinds_def by (auto intro!: keeps simp del: act_seq.simps)

lemma next_id_insert_row [keeps]: "keeps db_next_id (insert_row E t ps)"
  unfolding insert_row_def by (auto intro!: keeps simp del: act_seq.simps)

lemma next_id_bind_packet [keeps]: "keeps db_next_id (bind_packet E C h info i)"
  unfolding bind_packet_def bind_header_fields_def bind_packet_fields_def check_size_def Let_def
  by (auto intro!: keeps simp del: act_seq.simps split: option.split)

section \<open>The message\<close>

text \<open>The tables with one more row.\<close>

definition add_row :: "table \<Rightarrow> sql_value list \<Rightarrow> (table \<Rightarrow> sql_value list list) \<Rightarrow> table \<Rightarrow> sql_value list list" where
  "add_row t r T = T(t := T t @ [r])"

definition block_rows :: "environment \<Rightarrow> message_header_t \<Rightarrow> nano_packet \<Rightarrow> nano_block \<Rightarrow> int \<Rightarrow>
    (table \<Rightarrow> sql_value list list) \<Rightarrow> table \<Rightarrow> sql_value list list" where
  "block_rows E h info block i =
     (case block_stored block (i + 1) i of
        Some (t, name, r) \<Rightarrow> add_row TablePacket (packet_stored E h info i (SqlText name) (SqlInt (i + 1))) \<circ> add_row t r
      | None \<Rightarrow> add_row TablePacket (packet_stored E h info i (SqlText []) (SqlInt (i + 1))))"

lemma block_stored_table: "block_stored b i j = Some (t, n, vs) \<Longrightarrow> t \<noteq> TablePacket \<and> t \<noteq> TableConnection"
  by (cases b) auto

lemma put_block_did:
  assumes "put_block E C (Some sel) i j d = (Inr name, d')" and "capture_block_details C"
    and "nano_block_wf (enum_blocktype_of (ucast (sel_arg_block_type sel))) (sel_block sel)"
  shows "(case block_stored (sel_block sel) i j of
      Some (t, n, r) \<Rightarrow> name = n \<and> rows (db_history d') = add_row t r (rows (db_history d))
    | None \<Rightarrow> name = [] \<and> rows (db_history d') = rows (db_history d)) \<and> binds_of TablePacket d' = binds_of TablePacket d"
proof (cases "block_stored (sel_block sel) i j")
  case None
  then obtain b where b: "sel_block sel = BlockIgnored b" by (cases "sel_block sel") auto
  with assms have "name = [] \<and> d' = d"
    by (cases "enum_blocktype_of (ucast (sel_arg_block_type sel))")
      (auto simp: put_block_def put_block_kind_def Let_def act_return_def)
  with None show ?thesis by simp
next
  case (Some y)
  with put_block_kind_did [OF _ assms(3), of E i j d name d'] assms(1,2) show ?thesis
    by (auto simp: put_block_def add_row_def split: prod.split)
qed

lemma put_block_content_did:
  assumes "put_block_content E C h (Some sel) info d = (Inr u, d')" and "\<not> db_tx_commited d" and "capture_block_details C"
    and "nano_block_wf (enum_blocktype_of (ucast (sel_arg_block_type sel))) (sel_block sel)"
  shows "rows (db_history d') = block_rows E h info (sel_block sel) (db_next_id d) (rows (db_history d))"
proof -
  let ?i = "db_next_id d"
  let ?d = "d\<lparr>db_next_id := ?i + 1\<rparr>"
  let ?ps = "\<lambda>j name. [(''content_id'', SqlInt j), (''content_table'', SqlText name)]"
  from assms(1) obtain d1 u1 j d2 d3 name d4 u4 d5 u5 u6 where steps:
    "bind_packet E C h info ?i ?d = (Inr u1, d1)" "db_fetch_add d1 = (Inr j, d2)"
    "put_block E C (Some sel) j ?i d2 = (Inr name, d3)" "sbinds TablePacket (?ps j name) d3 = (Inr u4, d4)"
    "stmt_exec E TablePacket d4 = (Inr u5, d5)" "stmt_reset TablePacket d5 = (Inr u6, d')"
    unfolding put_block_content_def act_bind_Inr act_seq_Inr db_fetch_add_did [of d] by blast
  have packet: "rows (db_history d1) = rows (db_history d)" "binds_of TablePacket d1 = packet_binds E h info ?i"
    using bind_packet_did [OF steps(1)] assms(2) by simp_all
  have "db_next_id d1 = ?i + 1" using keepsD [OF next_id_bind_packet steps(1)] by simp
  then have j: "j = ?i + 1" "db_history d2 = db_history d1" "db_stmts d2 = db_stmts d1"
    using steps(2) by (simp_all add: db_fetch_add_did)
  note block = put_block_did [OF steps(3) assms(3,4)]
  have binds: "binds_of TablePacket d4 = bind_all (?ps j name) (packet_binds E h info ?i)"
    using sbinds_did [OF steps(4)] block packet(2) j(3) by (simp del: fold_simps)
  have "rows (db_history d') = add_row TablePacket (packet_stored E h info ?i (SqlText name) (SqlInt j)) (rows (db_history d3))"
    using stmt_reset_did [OF steps(6)] stmt_exec_did [OF steps(5)] sbinds_did [OF steps(4)]
    unfolding binds packet_binds_row add_row_def by simp
  with block packet(1) j show ?thesis
    by (auto simp: block_rows_def split: option.splits)
qed

text \<open>The event of the connection that comes before the message.\<close>

definition connection_stored :: "nano_packet \<Rightarrow> string \<Rightarrow> int \<Rightarrow> sql_value list" where
  "connection_stored info event i =
     [SqlInt i, sql_uint (info_ip_version info), SqlText (info_src_ip info), sql_uint (info_src_port info),
      SqlText (info_dst_ip info), sql_uint (info_dst_port info), sql_uint (info_flow_key info), SqlText event]"

lemma put_connection_did:
  assumes "put_connection_of E info event d = (Inr u, d')"
  shows "rows (db_history d') = add_row TableConnection (connection_stored info event (db_next_id d)) (rows (db_history d)) \<and>
    db_next_id d' = db_next_id d + 1"
proof -
  from assms have row: "insert_row E TableConnection [(''id'', SqlInt (db_next_id d)), (''ipv'', SqlInt (uint (info_ip_version info))),
       (''srcip'', SqlText (info_src_ip info)), (''srcport'', sql_uint (info_src_port info)), (''dstip'', SqlText (info_dst_ip info)),
       (''dstport'', sql_uint (info_dst_port info)), (''flowkey'', sql_uint (info_flow_key info)), (''event'', SqlText event)]
      (d\<lparr>db_next_id := db_next_id d + 1\<rparr>) = (Inr u, d')"
    by (simp add: put_connection_of_def put_connection_def act_bind_Inr db_fetch_add_did)
  from insert_row_did [OF row] keepsD [OF next_id_insert_row row] show ?thesis
    by (simp add: add_row_def connection_stored_def sql_uint_def)
qed

text \<open>The handler of both messages.\<close>

definition event_rows :: "config_capture \<Rightarrow> nano_packet \<Rightarrow> string \<Rightarrow> int \<Rightarrow>
    (table \<Rightarrow> sql_value list list) \<Rightarrow> table \<Rightarrow> sql_value list list" where
  "event_rows C info event i T =
     (if capture_connection_details C then add_row TableConnection (connection_stored info event i) T else T)"

definition event_ids :: "config_capture \<Rightarrow> int" where
  "event_ids C = (if capture_connection_details C then 1 else 0)"

lemma flow_reset_twice [simp]: "flow_reset t (flow_reset t' f) = flow_reset t f"
  by (simp add: flow_reset_def)

lemma message_seen_did:
  assumes "engine_ok E" and "db_inv (cap_db c)"
  shows "\<exists>d. message_seen E C info t event c = (Inr (), \<lparr>cap_db = d, cap_flow = flow_reset t (cap_flow c)\<rparr>) \<and> db_inv d \<and>
    rows (db_history d) = event_rows C info event (db_next_id (cap_db c)) (rows (db_history (cap_db c))) \<and>
    db_next_id d = db_next_id (cap_db c) + event_ids C"
proof (cases "capture_connection_details C")
  case False
  with assms(2) show ?thesis
    by (intro exI [of _ "cap_db c"])
      (simp add: message_seen_def act_bind_def flow_modify_def act_modify_def act_when_def act_return_def event_rows_def event_ids_def)
next
  case True
  from put_connection_effect [OF assms] obtain d
    where d: "put_connection_of E info event (cap_db c) = (Inr (), d)" "db_inv d"
    unfolding put_connection_of_def by blast
  with put_connection_did [OF d(1)] True show ?thesis
    by (intro exI [of _ d])
      (simp add: message_seen_def act_bind_def flow_modify_def act_modify_def act_when_def act_return_def event_rows_def event_ids_def
        on_db_def act_zoom_def)
qed

lemma handle_carried_block:
  assumes "carried_block (nano_body m) = Some sel" and "nano_wf m"
  obtains event where "handle_body E C m info = act_seq [message_seen E C info (hdr_message_type (nano_header m)) event,
      on_db (put_block_content E C (nano_header m) (Some sel) info)]"
    and "event = (if hdr_message_type (nano_header m) = ENUM_MSGTYPE_PUBLISH then ''publish'' else ''confirm_req'')"
    and "counted (nano_header m)" "selector_ok sel"
proof -
  have "nano_body_wf (nano_header m) (nano_body m)" using assms(2) by (simp add: nano_wf_def)
  moreover have "selector_ok s" if "selector_wf h s" for h s
    using that by (simp add: selector_wf_def selector_ok_def block_selector_type)
  ultimately show thesis
    using assms(1) that [of "if hdr_message_type (nano_header m) = ENUM_MSGTYPE_PUBLISH then ''publish'' else ''confirm_req''"]
    by (cases "nano_body m")
      (auto simp: handle_body_def Let_def handle_publish_def handle_confirm_req_def put_publish_def put_confirm_req_def
        counted_def option_wf_def split: option.splits)
qed

section \<open>From the packet to the rows\<close>

lemma carried_block_actions:
  assumes "engine_ok E" and "db_inv (cap_db c)" and "capture_block_details C"
    and "nano_wf m" and "carried_block (nano_body m) = Some sel"
    and "event = (if hdr_message_type (nano_header m) = ENUM_MSGTYPE_PUBLISH then ''publish'' else ''confirm_req'')"
  shows "\<exists>d. handle_body E C m info c = (Inr (), \<lparr>cap_db = d, cap_flow = flow_reset (hdr_message_type (nano_header m)) (cap_flow c)\<rparr>) \<and>
    db_inv d \<and> rows (db_history d) = block_rows E (nano_header m) info (sel_block sel) (db_next_id (cap_db c) + event_ids C)
      (event_rows C info event (db_next_id (cap_db c)) (rows (db_history (cap_db c))))"
proof -
  let ?h = "nano_header m"
  from handle_carried_block [OF assms(5,4), of E C info] assms(6)
  have body: "handle_body E C m info = act_seq [message_seen E C info (hdr_message_type ?h) event,
      on_db (put_block_content E C ?h (Some sel) info)]" and ok: "counted ?h" "selector_ok sel"
    by metis+
  from message_seen_did [OF assms(1,2), of C info "hdr_message_type ?h" event] obtain d1 where
    seen: "message_seen E C info (hdr_message_type ?h) event c = (Inr (), \<lparr>cap_db = d1, cap_flow = flow_reset (hdr_message_type ?h) (cap_flow c)\<rparr>)"
      "db_inv d1" "rows (db_history d1) = event_rows C info event (db_next_id (cap_db c)) (rows (db_history (cap_db c)))"
      "db_next_id d1 = db_next_id (cap_db c) + event_ids C"
    by blast
  have "triple db_inv (put_block_content E C ?h (Some sel) info) (\<lambda>_. db_inv) no_throw"
    by (rule triple_put_block_content [OF assms(1) ok(1)]) (use ok(2) in simp)
  from triple_returns [OF this seen(2)] obtain d where
    put: "put_block_content E C ?h (Some sel) info d1 = (Inr (), d)" "db_inv d" by auto
  have "\<not> db_tx_commited d1" using seen(2) by (simp add: db_inv_def db_mid_def)
  with put_block_content_did [OF put(1) _ assms(3)] ok(2) seen(3,4)
  have "rows (db_history d) = block_rows E ?h info (sel_block sel) (db_next_id (cap_db c) + event_ids C)
      (event_rows C info event (db_next_id (cap_db c)) (rows (db_history (cap_db c))))"
    by (simp add: selector_ok_def)
  with seen(1) put show ?thesis
    by (intro exI [of _ d]) (simp add: body act_bind_def on_db_def act_zoom_def act_return_def)
qed

text \<open>C5: 
  the packet that is exactly the encoding of a \<open>publish\<close> message, or of a \<open>confirm_req\<close> that names a
  block, adds these rows and no others: the event of the connection (when connection details are
  captured), one row in the table of the block's kind, with the hash of the block's fields and each
  field under its column, and one row for the packet, which names that table and that row. The ids
  are the next ones of the database, the connection's first, then the packet's, then the block's,
  and no exception is raised.\<close>

theorem carried_block_is_stored:
  assumes "engine_ok E" and "db_inv (ph_db s)" and "capture_block_details C"
    and "\<not> ph_stopped s" and "ph_packet_queue s = info # q" and "ph_conn_mgr s (info_flow_key info) = Some f"
    and "\<not> stream_type (flow_current_msg_type f)"
    and "nano_wf m" and "info_data info = nano_wire m" and "carried_block (nano_body m) = Some sel"
  shows "\<exists>d. process_packet E C s = Some (Handled, s\<lparr>ph_packet_queue := q, ph_db := d,
        ph_conn_mgr := (ph_conn_mgr s)(info_flow_key info \<mapsto> flow_reset (hdr_message_type (nano_header m)) f)\<rparr>) \<and>
    db_inv d \<and> rows (db_history d) =
      block_rows E (nano_header m) info (sel_block sel) (db_next_id (ph_db s) + event_ids C)
        (event_rows C info
          (if hdr_message_type (nano_header m) = ENUM_MSGTYPE_PUBLISH then ''publish'' else ''confirm_req'')
          (db_next_id (ph_db s)) (rows (db_history (ph_db s))))"
proof -
  let ?c = "\<lparr>cap_db = ph_db s, cap_flow = f\<rparr>"
  let ?c' = "\<lparr>cap_db = ph_db s, cap_flow = flow_reset ENUM_MSGTYPE_INVALID f\<rparr>"
  have tcp: "tcp_data E C info ?c = Some (handle_message_data E C info ?c)"
    using assms(7) by (cases "flow_current_msg_type f") (simp_all add: tcp_data_def)
  obtain ks where "nano_read (kstream_of (info_data info)) = Inr (m, ks)"
    using nano_read_enc [OF assms(8), of "kstream_of (nano_wire m)"] assms(9) by simp
  then have message: "handle_message_data E C info ?c = handle_body E C m info ?c'"
    by (simp add: handle_message_data_def act_bind_def act_read_def reset_flow_def flow_modify_def act_modify_def act_return_def
        split: prod.split sum.split)
  from carried_block_actions [OF assms(1) _ assms(3,8,10) refl, of ?c' info] assms(2) obtain d where
    body: "handle_body E C m info ?c' = (Inr (), \<lparr>cap_db = d, cap_flow = flow_reset (hdr_message_type (nano_header m)) f\<rparr>)"
    and d: "db_inv d" "rows (db_history d) =
      block_rows E (nano_header m) info (sel_block sel) (db_next_id (ph_db s) + event_ids C)
        (event_rows C info
          (if hdr_message_type (nano_header m) = ENUM_MSGTYPE_PUBLISH then ''publish'' else ''confirm_req'')
          (db_next_id (ph_db s)) (rows (db_history (ph_db s))))"
    by auto
  have "handle_tcp E C info ?c = Some (Handled, \<lparr>cap_db = d, cap_flow = flow_reset (hdr_message_type (nano_header m)) f\<rparr>)"
    by (simp add: handle_tcp_def tcp message body)
  with assms(4-6) d show ?thesis
    by (intro exI [of _ d]) (simp add: process_packet_def)
qed

text \<open>A \<open>publish\<close> with a receive block.\<close>

definition example_receive :: block_receive_t where
  "example_receive = \<lparr>block_receive_previous = replicate 32 1, block_receive_source = replicate 32 2,
     block_receive_signature = replicate 64 3, block_receive_work = 4\<rparr>"

definition example_publish :: nano_t where
  "example_publish = \<lparr>nano_header = \<lparr>hdr_magic = [0x52],
     hdr_network_id = ENUM_NETWORK_NETWORK_LIVE, hdr_version_max = 18, hdr_version_using = 18,
     hdr_version_min = 16, hdr_message_type = ENUM_MSGTYPE_PUBLISH, hdr_extensions = 0x300\<rparr>,
     nano_body = BodyPublish \<lparr>publish_body = \<lparr>sel_arg_block_type = 3, sel_block = BlockReceive example_receive\<rparr>\<rparr>\<rparr>"

theorem carried_block_is_stored_witness:
  "\<exists>s. process_packet sample_environment config_capture_default
      ((ph_start sample_db)\<lparr>ph_conn_mgr := [7 \<mapsto> flow_init], ph_packet_queue := [sample_packet (nano_wire example_publish)]\<rparr>) =
      Some (Handled, s) \<and>
    map (drop 3) (rows (db_history (ph_db s)) TableBlockReceive) =
      map (drop 3) (rows (db_history sample_db) TableBlockReceive) @
        [[SqlText (to_hex (replicate 32 1)), SqlText (to_hex (replicate 32 2)), SqlText (to_hex (replicate 64 3)), SqlInt 4]]"
proof -
  let ?s = "(ph_start sample_db)\<lparr>ph_conn_mgr := [7 \<mapsto> flow_init], ph_packet_queue := [sample_packet (nano_wire example_publish)]\<rparr>"
  have types: "block_type_int (nano_header example_publish) = 3" "hdr_block_type (nano_header example_publish) = ENUM_BLOCKTYPE_RECEIVE"
    by (simp_all add: example_publish_def block_type_int_def hdr_block_type_def enum_blocktype_of_def)
  have wf: "nano_wf example_publish"
    using types by (simp add: nano_wf_def header_wf_def example_publish_def enum_network_of_def enum_msgtype_of_def selector_wf_def
        example_receive_def block_receive_wf_def)
  have s: "db_inv (ph_db ?s)" "capture_block_details config_capture_default" "\<not> ph_stopped ?s"
      "ph_packet_queue ?s = [sample_packet (nano_wire example_publish)]"
      "ph_conn_mgr ?s (info_flow_key (sample_packet (nano_wire example_publish))) = Some flow_init"
      "\<not> stream_type (flow_current_msg_type flow_init)" "info_data (sample_packet (nano_wire example_publish)) = nano_wire example_publish"
      "carried_block (nano_body example_publish) = Some \<lparr>sel_arg_block_type = 3, sel_block = BlockReceive example_receive\<rparr>"
    by (simp_all add: sample_db_inv ph_start_def config_capture_default_def sample_packet_def packet_of_def sample_connection_def
        flow_init_def example_publish_def)
  from carried_block_is_stored [OF sample_ok(1) s(1-6) wf s(7,8)] show ?thesis
    by (auto simp: block_rows_def example_receive_def add_row_def event_rows_def ph_start_def sql_int64_def)
qed

end
