(* ===== verification/Config.thy ===== *)
theory Config
  imports Capture
begin

text \<open>
  The configuration (\<open>config.hpp\<close>) and the json library its loading and saving, and the answers of
  the web server, rest on. The library (nlohmann json) is not in the repository: it is the parameter
  \<open>json_library\<close>, over a type of json values the model knows nothing about. What is assumed of it is
  \<open>json_ok\<close>: what \<open>count\<close> and \<open>at\<close> say of an object built by assignments, and that the conversions
  give back what a value was made of.
\<close>

section \<open>The json library\<close>

record 'j json_library =
  json_null :: 'j
  json_boolean :: "bool \<Rightarrow> 'j"
  json_integer :: "int \<Rightarrow> 'j"
  json_string :: "string \<Rightarrow> 'j"
  json_array :: 'j
  json_object :: 'j
  json_push_back :: "'j \<Rightarrow> 'j \<Rightarrow> 'j"
  json_assign :: "'j \<Rightarrow> string \<Rightarrow> 'j \<Rightarrow> 'j"
  json_count :: "'j \<Rightarrow> string \<Rightarrow> nat"
  json_at :: "'j \<Rightarrow> string \<Rightarrow> failure + 'j"
  json_get_boolean :: "'j \<Rightarrow> failure + bool"
  json_get_integer :: "nat \<Rightarrow> 'j \<Rightarrow> failure + int"
  json_get_string :: "'j \<Rightarrow> failure + string"
  json_dump :: "nat \<Rightarrow> 'j \<Rightarrow> failure + string"
  json_parse :: "string \<Rightarrow> 'j option"

text \<open>An object from an initializer list of keys and values.\<close>

definition json_of_list :: "('j, 'm) json_library_scheme \<Rightarrow> (string \<times> 'j) list \<Rightarrow> 'j" where
  "json_of_list J kvs = foldl (\<lambda>j (k, v). json_assign J j k v) (json_object J) kvs"

definition json_array_of :: "('j, 'm) json_library_scheme \<Rightarrow> 'j list \<Rightarrow> 'j" where
  "json_array_of J xs = foldl (json_push_back J) (json_array J) xs"

definition json_ok :: "('j, 'm) json_library_scheme \<Rightarrow> bool" where
  "json_ok J \<longleftrightarrow>
     (\<forall>key. json_count J (json_null J) key = 0) \<and>
     (\<forall>kvs key. json_count J (json_of_list J kvs) key = (if key \<in> fst ` set kvs then 1 else 0)) \<and>
     (\<forall>kvs key v. map_of (rev kvs) key = Some v \<longrightarrow> json_at J (json_of_list J kvs) key = Inr v) \<and>
     (\<forall>b. json_get_boolean J (json_boolean J b) = Inr b) \<and>
     (\<forall>s. json_get_string J (json_string J s) = Inr s) \<and>
     (\<forall>w i. - (2 ^ (w - 1)) \<le> i \<and> i < 2 ^ (w - 1) \<longrightarrow> json_get_integer J w (json_integer J i) = Inr i)"

section \<open>The configuration\<close>

record config_web =
  web_enabled :: bool
  web_bind :: string
  web_port :: int
  web_max_query_result :: int

definition config_web_default :: config_web where
  "config_web_default = \<lparr>web_enabled = True, web_bind = ''0.0.0.0'', web_port = 8077,
     web_max_query_result = 5000\<rparr>"

record config =
  config_db :: string
  config_capture :: config_capture
  config_web :: config_web

definition config_default :: config where
  "config_default = \<lparr>config_db = '''', config_capture = config_capture_default, config_web = config_web_default\<rparr>"

definition to_json_capture :: "('j, 'm) json_library_scheme \<Rightarrow> config_capture \<Rightarrow> 'j" where
  "to_json_capture J capture = json_of_list J
     [(''enabled'', json_boolean J (capture_enabled capture)),
      (''device_ip'', json_string J (capture_device_ip capture)),
      (''filter'', json_string J (capture_filter capture)),
      (''max_capture_megabytes'', json_integer J (capture_max_megabytes capture)),
      (''block_details'', json_boolean J (capture_block_details capture)),
      (''bootstrap_details'', json_boolean J (capture_bootstrap_details capture)),
      (''connection_details'', json_boolean J (capture_connection_details capture))]"

text \<open>
  \<open>if (json.count(key)) json.at(key).get_to(field)\<close>: a field without a member of its name keeps its
  value; a member of another type throws.
\<close>

definition json_member :: "('j, 'm) json_library_scheme \<Rightarrow> 'j \<Rightarrow> string \<Rightarrow> ('j \<Rightarrow> failure + 'a) \<Rightarrow>
    ('a \<Rightarrow> 'c \<Rightarrow> 'c) \<Rightarrow> ('c, unit) act" where
  "json_member J json key get_to field c =
     (if json_count J json key > 0 then
        (case json_at J json key of
           Inl e \<Rightarrow> (Inl e, c)
         | Inr v \<Rightarrow> (case get_to v of Inl e \<Rightarrow> (Inl e, c) | Inr x \<Rightarrow> (Inr (), field x c)))
      else (Inr (), c))"

definition from_json_capture :: "('j, 'm) json_library_scheme \<Rightarrow> 'j \<Rightarrow> (config_capture, unit) act" where
  "from_json_capture J json = act_seq
     [json_member J json ''enabled'' (json_get_boolean J) (\<lambda>x c. c\<lparr>capture_enabled := x\<rparr>),
      json_member J json ''device_ip'' (json_get_string J) (\<lambda>x c. c\<lparr>capture_device_ip := x\<rparr>),
      json_member J json ''filter'' (json_get_string J) (\<lambda>x c. c\<lparr>capture_filter := x\<rparr>),
      json_member J json ''max_capture_megabytes'' (json_get_integer J 64) (\<lambda>x c. c\<lparr>capture_max_megabytes := x\<rparr>),
      json_member J json ''block_details'' (json_get_boolean J) (\<lambda>x c. c\<lparr>capture_block_details := x\<rparr>),
      json_member J json ''bootstrap_details'' (json_get_boolean J) (\<lambda>x c. c\<lparr>capture_bootstrap_details := x\<rparr>),
      json_member J json ''connection_details'' (json_get_boolean J) (\<lambda>x c. c\<lparr>capture_connection_details := x\<rparr>)]"

definition to_json_web :: "('j, 'm) json_library_scheme \<Rightarrow> config_web \<Rightarrow> 'j" where
  "to_json_web J web = json_of_list J
     [(''enabled'', json_boolean J (web_enabled web)),
      (''bind'', json_string J (web_bind web)),
      (''port'', json_integer J (web_port web)),
      (''max_query_result'', json_integer J (web_max_query_result web))]"

definition from_json_web :: "('j, 'm) json_library_scheme \<Rightarrow> 'j \<Rightarrow> (config_web, unit) act" where
  "from_json_web J json = act_seq
     [json_member J json ''enabled'' (json_get_boolean J) (\<lambda>x c. c\<lparr>web_enabled := x\<rparr>),
      json_member J json ''bind'' (json_get_string J) (\<lambda>x c. c\<lparr>web_bind := x\<rparr>),
      json_member J json ''port'' (json_get_integer J 32) (\<lambda>x c. c\<lparr>web_port := x\<rparr>),
      json_member J json ''max_query_result'' (json_get_integer J 32) (\<lambda>x c. c\<lparr>web_max_query_result := x\<rparr>)]"

definition to_json_config :: "('j, 'm) json_library_scheme \<Rightarrow> config \<Rightarrow> 'j" where
  "to_json_config J conf = json_of_list J
     [(''database'', json_string J (config_db conf)),
      (''capture'', to_json_capture J (config_capture conf)),
      (''web'', to_json_web J (config_web conf))]"

text \<open>A member that is an object of its own: \<open>if (json.count(key) > 0) from_json(json.at(key), field)\<close>.\<close>

definition json_part :: "('j, 'm) json_library_scheme \<Rightarrow> 'j \<Rightarrow> string \<Rightarrow> ('j \<Rightarrow> ('c, unit) act) \<Rightarrow> ('c, unit) act" where
  "json_part J json key from_json c =
     (if json_count J json key > 0 then
        (case json_at J json key of Inl e \<Rightarrow> (Inl e, c) | Inr v \<Rightarrow> from_json v c)
      else (Inr (), c))"

definition from_json_config :: "('j, 'm) json_library_scheme \<Rightarrow> 'j \<Rightarrow> (config, unit) act" where
  "from_json_config J json = act_seq
     [json_member J json ''database'' (json_get_string J) (\<lambda>x c. c\<lparr>config_db := x\<rparr>),
      json_part J json ''web'' (\<lambda>v. act_zoom config_web config_web_update (from_json_web J v)),
      json_part J json ''capture'' (\<lambda>v. act_zoom config_capture config_capture_update (from_json_capture J v))]"

text \<open>
  \<open>load_config\<close> of the text of the file, empty when there is no file: a parse error is caught and
  leaves the null value; any other exception of the library goes to the caller.
\<close>

definition load_config :: "('j, 'm) json_library_scheme \<Rightarrow> string \<Rightarrow> failure + config" where
  "load_config J json_input =
     (let json = (case json_parse J json_input of None \<Rightarrow> json_null J | Some j \<Rightarrow> j)
      in case from_json_config J json config_default of
           (Inl e, _) \<Rightarrow> Inl e
         | (Inr _, c) \<Rightarrow> Inr c)"

text \<open>
  \<open>save_config\<close>: the text of the file after it. Opening the file empties it; a text that cannot be
  made, of a string that is not UTF-8, leaves it empty.
\<close>

definition save_config :: "('j, 'm) json_library_scheme \<Rightarrow> config \<Rightarrow> string" where
  "save_config J conf =
     (case json_dump J 4 (to_json_config J conf) of Inl e \<Rightarrow> [] | Inr text \<Rightarrow> text @ [CHR 0x0A])"

section \<open>Loading\<close>

lemma json_count_list: "json_ok J \<Longrightarrow> json_count J (json_of_list J kvs) key = (if key \<in> fst ` set kvs then 1 else 0)"
  by (simp add: json_ok_def)

lemma json_at_list: "json_ok J \<Longrightarrow> map_of (rev kvs) key = Some v \<Longrightarrow> json_at J (json_of_list J kvs) key = Inr v"
  by (simp add: json_ok_def)

lemma json_gets:
  assumes "json_ok J"
  shows "json_get_boolean J (json_boolean J b) = Inr b" "json_get_string J (json_string J s) = Inr s"
    "- (2 ^ (w - 1)) \<le> i \<Longrightarrow> i < 2 ^ (w - 1) \<Longrightarrow> json_get_integer J w (json_integer J i) = Inr i"
  using assms by (simp_all add: json_ok_def)

lemma json_member_list:
  assumes "json_ok J" and "map_of (rev kvs) key = Some v" and "get_to v = Inr x"
  shows "json_member J (json_of_list J kvs) key get_to field c = (Inr (), field x c)"
proof -
  have "key \<in> fst ` set kvs" using map_of_SomeD [OF assms(2)] by force
  then show ?thesis
    using json_at_list [OF assms(1,2)] assms by (simp add: json_member_def json_count_list)
qed

lemma json_part_list:
  assumes "json_ok J" and "map_of (rev kvs) key = Some v"
  shows "json_part J (json_of_list J kvs) key from_json c = from_json v c"
proof -
  have "key \<in> fst ` set kvs" using map_of_SomeD [OF assms(2)] by force
  then show ?thesis
    using json_at_list [OF assms] assms(1) by (simp add: json_part_def json_count_list)
qed

lemma json_member_absent: "json_count J json key = 0 \<Longrightarrow> json_member J json key get_to field c = (Inr (), c)"
  by (simp add: json_member_def)

text \<open>The integers of a configuration fit the types of the class.\<close>

definition config_fits :: "config \<Rightarrow> bool" where
  "config_fits conf \<longleftrightarrow>
     - (2 ^ 63) \<le> capture_max_megabytes (config_capture conf) \<and> capture_max_megabytes (config_capture conf) < 2 ^ 63 \<and>
     - (2 ^ 31) \<le> web_port (config_web conf) \<and> web_port (config_web conf) < 2 ^ 31 \<and>
     - (2 ^ 31) \<le> web_max_query_result (config_web conf) \<and> web_max_query_result (config_web conf) < 2 ^ 31"

lemma from_json_capture_to_json:
  assumes "json_ok J" and "- (2 ^ 63) \<le> capture_max_megabytes c" and "capture_max_megabytes c < 2 ^ 63"
  shows "from_json_capture J (to_json_capture J c) c0 = (Inr (), c)"
  using assms json_gets [OF assms(1)] json_gets(3) [OF assms(1), of 64]
  by (simp add: from_json_capture_def to_json_capture_def act_bind_def act_return_def json_member_list)

lemma from_json_web_to_json:
  assumes "json_ok J" and "- (2 ^ 31) \<le> web_port c" and "web_port c < 2 ^ 31"
    and "- (2 ^ 31) \<le> web_max_query_result c" and "web_max_query_result c < 2 ^ 31"
  shows "from_json_web J (to_json_web J c) c0 = (Inr (), c)"
  using assms json_gets [OF assms(1)] json_gets(3) [OF assms(1), of 32]
  by (simp add: from_json_web_def to_json_web_def act_bind_def act_return_def json_member_list)

lemma from_json_config_to_json:
  assumes "json_ok J" and "config_fits conf"
  shows "from_json_config J (to_json_config J conf) c0 = (Inr (), conf)"
  using assms json_gets [OF assms(1)]
  by (simp add: from_json_config_def to_json_config_def act_bind_def act_return_def act_zoom_def
      json_member_list json_part_list config_fits_def from_json_web_to_json from_json_capture_to_json)

lemma act_bind_success:
  "act_bind m f s = (Inr x, s') \<longleftrightarrow> (\<exists>y t. m s = (Inr y, t) \<and> f y t = (Inr x, s'))"
  by (auto simp: act_bind_def split: prod.splits sum.splits)

lemma act_zoom_success:
  "act_zoom get upd m s = (Inr x, s') \<longleftrightarrow> (\<exists>t. m (get s) = (Inr x, t) \<and> s' = upd (\<lambda>_. t) s)"
  by (auto simp: act_zoom_def split: prod.splits)

lemma json_member_success:
  "json_member J json key get_to field c = (Inr u, c') \<longleftrightarrow>
     json_count J json key = 0 \<and> c' = c \<or>
     json_count J json key \<noteq> 0 \<and> (\<exists>v x. json_at J json key = Inr v \<and> get_to v = Inr x \<and> c' = field x c)"
  by (auto simp: json_member_def split: sum.splits)

lemma json_part_success:
  "json_part J json key from_json c = (Inr u, c') \<longleftrightarrow>
     json_count J json key = 0 \<and> c' = c \<or>
     json_count J json key \<noteq> 0 \<and> (\<exists>v. json_at J json key = Inr v \<and> from_json v c = (Inr (), c'))"
  by (auto simp: json_part_def split: sum.splits)

text \<open>A field without its member keeps its value.\<close>

lemma keeps_member [keeps]:
  "json_count J json key = 0 \<or> (\<forall>x c. f (field x c) = f c) \<Longrightarrow> keeps f (json_member J json key get_to field)"
  by (auto simp: keeps_def json_member_def split: sum.split)

lemma from_json_capture_keeps:
  "json_count J v ''filter'' = 0 \<Longrightarrow> keeps capture_filter (from_json_capture J v)"
  "json_count J v ''max_capture_megabytes'' = 0 \<Longrightarrow> keeps capture_max_megabytes (from_json_capture J v)"
  "json_count J v ''bootstrap_details'' = 0 \<Longrightarrow> keeps capture_bootstrap_details (from_json_capture J v)"
  unfolding from_json_capture_def by (auto intro!: keeps simp del: act_seq.simps)

lemma from_json_web_keeps:
  "json_count J v ''bind'' = 0 \<Longrightarrow> keeps web_bind (from_json_web J v)"
  "json_count J v ''port'' = 0 \<Longrightarrow> keeps web_port (from_json_web J v)"
  "json_count J v ''max_query_result'' = 0 \<Longrightarrow> keeps web_max_query_result (from_json_web J v)"
  unfolding from_json_web_def by (auto intro!: keeps simp del: act_seq.simps)

text \<open>
  A configuration that was saved is loaded again as it was, whatever values its fields have in the
  range of their types, when the library parses the text it made.
\<close>

theorem config_saved_is_loaded:
  assumes "json_ok J" and "config_fits conf" and "json_dump J 4 (to_json_config J conf) = Inr text"
    and "json_parse J (text @ [CHR 0x0A]) = Some (to_json_config J conf)"
  shows "load_config J (save_config J conf) = Inr conf"
  using assms from_json_config_to_json [OF assms(1,2)] by (simp add: load_config_def save_config_def)

text \<open>
  A file that is missing or not json gives the default configuration. In one that is json every
  member may be left out: a field without its member has its default value, field by field.
\<close>

theorem load_config_defaults:
  assumes "json_ok J"
  shows "(json_parse J text = None \<longrightarrow> load_config J text = Inr config_default) \<and>
    (\<forall>j c. json_parse J text = Some j \<longrightarrow> load_config J text = Inr c \<longrightarrow>
      (json_count J j ''database'' = 0 \<longrightarrow> config_db c = '''') \<and>
      (json_count J j ''web'' = 0 \<longrightarrow> config_web c = config_web_default) \<and>
      (json_count J j ''capture'' = 0 \<longrightarrow> config_capture c = config_capture_default) \<and>
      (\<forall>v. json_at J j ''capture'' = Inr v \<longrightarrow>
        (json_count J v ''filter'' = 0 \<longrightarrow> capture_filter (config_capture c) = '''') \<and>
        (json_count J v ''max_capture_megabytes'' = 0 \<longrightarrow> capture_max_megabytes (config_capture c) = 4096) \<and>
        (json_count J v ''bootstrap_details'' = 0 \<longrightarrow> \<not> capture_bootstrap_details (config_capture c))) \<and>
      (\<forall>v. json_at J j ''web'' = Inr v \<longrightarrow>
        (json_count J v ''bind'' = 0 \<longrightarrow> web_bind (config_web c) = ''0.0.0.0'') \<and>
        (json_count J v ''port'' = 0 \<longrightarrow> web_port (config_web c) = 8077) \<and>
        (json_count J v ''max_query_result'' = 0 \<longrightarrow> web_max_query_result (config_web c) = 5000)))"
proof -
  have null: "json_count J (json_null J) key = 0" for key using assms by (simp add: json_ok_def)
  have "json_parse J text = None \<Longrightarrow> load_config J text = Inr config_default"
    using null by (simp add: load_config_def from_json_config_def act_bind_def act_return_def json_member_def json_part_def)
  moreover have "(json_count J j ''database'' = 0 \<longrightarrow> config_db c = '''') \<and>
      (json_count J j ''web'' = 0 \<longrightarrow> config_web c = config_web_default) \<and>
      (json_count J j ''capture'' = 0 \<longrightarrow> config_capture c = config_capture_default) \<and>
      (\<forall>v. json_at J j ''capture'' = Inr v \<longrightarrow>
        (json_count J v ''filter'' = 0 \<longrightarrow> capture_filter (config_capture c) = '''') \<and>
        (json_count J v ''max_capture_megabytes'' = 0 \<longrightarrow> capture_max_megabytes (config_capture c) = 4096) \<and>
        (json_count J v ''bootstrap_details'' = 0 \<longrightarrow> \<not> capture_bootstrap_details (config_capture c))) \<and>
      (\<forall>v. json_at J j ''web'' = Inr v \<longrightarrow>
        (json_count J v ''bind'' = 0 \<longrightarrow> web_bind (config_web c) = ''0.0.0.0'') \<and>
        (json_count J v ''port'' = 0 \<longrightarrow> web_port (config_web c) = 8077) \<and>
        (json_count J v ''max_query_result'' = 0 \<longrightarrow> web_max_query_result (config_web c) = 5000))"
    if "json_parse J text = Some j" "load_config J text = Inr c" for j c
  proof -
    have "from_json_config J j config_default = (Inr (), c)"
      using that by (simp add: load_config_def split: prod.splits sum.splits)
    then obtain c1 c2 where database: "json_member J j ''database'' (json_get_string J) (\<lambda>x c. c\<lparr>config_db := x\<rparr>) config_default = (Inr (), c1)"
      and web: "json_part J j ''web'' (\<lambda>v. act_zoom config_web config_web_update (from_json_web J v)) c1 = (Inr (), c2)"
      and capture: "json_part J j ''capture'' (\<lambda>v. act_zoom config_capture config_capture_update (from_json_capture J v)) c2 = (Inr (), c)"
      by (auto simp: from_json_config_def act_bind_success act_return_def)
    have 1: "config_web c1 = config_web_default" "config_capture c1 = config_capture_default"
        "json_count J j ''database'' = 0 \<longrightarrow> config_db c1 = ''''"
      using database by (auto simp: json_member_success config_default_def)
    have 2: "config_capture c2 = config_capture_default" "config_db c2 = config_db c1"
        "json_count J j ''web'' = 0 \<longrightarrow> config_web c2 = config_web_default"
        "\<forall>v. json_at J j ''web'' = Inr v \<longrightarrow> config_web c2 = config_web_default \<or> from_json_web J v config_web_default = (Inr (), config_web c2)"
      using web 1 by (auto simp: json_part_success act_zoom_success)
    have 3: "config_web c = config_web c2" "config_db c = config_db c2"
        "json_count J j ''capture'' = 0 \<longrightarrow> config_capture c = config_capture_default"
        "\<forall>v. json_at J j ''capture'' = Inr v \<longrightarrow> config_capture c = config_capture_default \<or> from_json_capture J v config_capture_default = (Inr (), config_capture c)"
      using capture 2 by (auto simp: json_part_success act_zoom_success)
    have "(json_count J v ''filter'' = 0 \<longrightarrow> capture_filter (config_capture c) = '''') \<and>
        (json_count J v ''max_capture_megabytes'' = 0 \<longrightarrow> capture_max_megabytes (config_capture c) = 4096) \<and>
        (json_count J v ''bootstrap_details'' = 0 \<longrightarrow> \<not> capture_bootstrap_details (config_capture c))"
      if "json_at J j ''capture'' = Inr v" for v
    proof -
      from 3(4) that consider "config_capture c = config_capture_default"
        | "from_json_capture J v config_capture_default = (Inr (), config_capture c)" by blast
      then show ?thesis
        using from_json_capture_keeps [THEN keepsD, of J v] by cases (fastforce simp: config_capture_default_def)+
    qed
    moreover have "(json_count J v ''bind'' = 0 \<longrightarrow> web_bind (config_web c) = ''0.0.0.0'') \<and>
        (json_count J v ''port'' = 0 \<longrightarrow> web_port (config_web c) = 8077) \<and>
        (json_count J v ''max_query_result'' = 0 \<longrightarrow> web_max_query_result (config_web c) = 5000)"
      if "json_at J j ''web'' = Inr v" for v
    proof -
      from 2(4) 3(1) that consider "config_web c = config_web_default"
        | "from_json_web J v config_web_default = (Inr (), config_web c)" by auto
      then show ?thesis
        using from_json_web_keeps [THEN keepsD, of J v] by cases (fastforce simp: config_web_default_def)+
    qed
    ultimately show ?thesis using 1 2 3 by simp
  qed
  ultimately show ?thesis by blast
qed

section \<open>A json library\<close>

text \<open>A library over a datatype of json values, whose parser knows the one text its dump makes.\<close>

datatype sample_json =
    JsonNull
  | JsonBoolean bool
  | JsonInteger int
  | JsonString string
  | JsonArray "sample_json list"
  | JsonObject "(string \<times> sample_json) list"

fun sample_assign :: "sample_json \<Rightarrow> string \<Rightarrow> sample_json \<Rightarrow> sample_json" where
  "sample_assign (JsonObject kvs) k v = JsonObject ((k, v) # kvs)"
| "sample_assign _ k v = JsonObject [(k, v)]"

fun sample_members :: "sample_json \<Rightarrow> (string \<times> sample_json) list" where
  "sample_members (JsonObject kvs) = kvs"
| "sample_members _ = []"

definition sample_json_library :: "sample_json option \<Rightarrow> sample_json json_library" where
  "sample_json_library parsed = \<lparr>json_null = JsonNull, json_boolean = JsonBoolean, json_integer = JsonInteger,
     json_string = JsonString, json_array = JsonArray [], json_object = JsonObject [],
     json_push_back = (\<lambda>j x. case j of JsonArray xs \<Rightarrow> JsonArray (xs @ [x]) | _ \<Rightarrow> JsonArray [x]),
     json_assign = sample_assign,
     json_count = (\<lambda>j k. if k \<in> fst ` set (sample_members j) then 1 else 0),
     json_at = (\<lambda>j k. case map_of (sample_members j) k of None \<Rightarrow> Inl JsonException | Some v \<Rightarrow> Inr v),
     json_get_boolean = (\<lambda>j. case j of JsonBoolean b \<Rightarrow> Inr b | _ \<Rightarrow> Inl JsonException),
     json_get_integer = (\<lambda>w j. case j of JsonInteger i \<Rightarrow> Inr i | _ \<Rightarrow> Inl JsonException),
     json_get_string = (\<lambda>j. case j of JsonString s \<Rightarrow> Inr s | _ \<Rightarrow> Inl JsonException),
     json_dump = (\<lambda>n j. Inr ''{}''),
     json_parse = (\<lambda>text. if text = ''{}'' @ [CHR 0x0A] then parsed else None)\<rparr>"

lemma sample_json_of_list:
  "foldl (\<lambda>j (k, v). sample_assign j k v) (JsonObject xs) kvs = JsonObject (rev kvs @ xs)"
  by (induction kvs arbitrary: xs) auto

lemma sample_json_ok: "json_ok (sample_json_library parsed)"
  using sample_json_of_list [of "[]"]
  by (simp add: json_ok_def json_of_list_def sample_json_library_def)

theorem config_saved_is_loaded_witness:
  "\<exists>J :: sample_json json_library. load_config J (save_config J config_default) = Inr config_default"
proof -
  let ?j = "to_json_config (sample_json_library None) config_default"
  let ?J = "sample_json_library (Some ?j)"
  have "to_json_config ?J config_default = ?j"
    by (simp add: to_json_config_def to_json_web_def to_json_capture_def json_of_list_def sample_json_library_def)
  then have "load_config ?J (save_config ?J config_default) = Inr config_default"
    by (intro config_saved_is_loaded [OF sample_json_ok, of config_default _ "''{}''"])
      (simp_all add: config_fits_def config_default_def config_capture_default_def config_web_default_def
        sample_json_library_def)
  then show ?thesis ..
qed

theorem load_config_defaults_witness:
  "load_config (sample_json_library None) ''not json'' = Inr config_default"
  using load_config_defaults [OF sample_json_ok [of None], of "''not json''"]
  by (simp add: sample_json_library_def)

end
