(* ===== verification/Capturing.thy ===== *)
theory Capturing
  imports PacketHandler Config
begin

text \<open>
  The capturing side of the packet handler (\<open>packet_handler.cpp\<close>): starting and stopping a live
  capture, the import of a pcap file, and what a packet of the network does. PcapPlusPlus is not in
  the repository: it is the parameter \<open>pcap_library\<close>, which gives the devices, whether one opens and
  takes a filter, the packets of a file under a filter, and the TCP reassembly: the callbacks it makes
  when it is given a packet or told to close all connections, and its state after. A device is its
  number. Output to the console is not modelled.
\<close>

datatype tcp_callback =
    TcpConnectionStart connection_data
  | TcpMessageReady connection_data bytes int
  | TcpConnectionEnd connection_data

record ('p, 'r) pcap_library =
  pcap_devices :: "(string \<times> string) list"
  pcap_device_by_ip :: "string \<Rightarrow> nat option"
  pcap_open :: "nat \<Rightarrow> bool"
  pcap_set_filter :: "nat \<Rightarrow> string \<Rightarrow> bool"
  pcap_file :: "string \<Rightarrow> 'p list option"
  pcap_file_filter :: "string \<Rightarrow> string \<Rightarrow> 'p list option"
  pcap_is_tcp :: "'p \<Rightarrow> bool"
  pcap_reassemble :: "'r \<Rightarrow> 'p \<Rightarrow> tcp_callback list \<times> 'r"
  pcap_close_all :: "'r \<Rightarrow> tcp_callback list \<times> 'r"

text \<open>
  The application: its configuration and its packet handler with the members of the capturing side.
  \<open>app_dev\<close> is the device, if it is open, \<open>app_dev_running\<close> whether it captures; \<open>app_import\<close> has the
  packets of the file that are not read yet and the number of those that are; \<open>app_consumed\<close> is the
  counter of \<open>handle_tcp\<close>.
\<close>

record ('p, 'r) app =
  app_config :: config
  app_ph :: packet_handler
  app_capturing :: bool
  app_importing :: bool
  app_dev :: "nat option"
  app_dev_running :: bool
  app_reassembly :: 'r
  app_import :: "('p list \<times> nat) option"
  app_consumed :: int

section \<open>Packets\<close>

fun run_callback :: "environment \<Rightarrow> tcp_callback \<Rightarrow> (packet_handler, unit) act" where
  "run_callback E (TcpConnectionStart k) = connection_start E k"
| "run_callback E (TcpMessageReady k data side) = act_modify (msg_ready k data side)"
| "run_callback E (TcpConnectionEnd k) = connection_end E k"

definition run_callbacks :: "environment \<Rightarrow> tcp_callback list \<Rightarrow> (('p, 'r) app, unit) act" where
  "run_callbacks E cbs = act_seq (map (\<lambda>cb. act_zoom app_ph app_ph_update (run_callback E cb)) cbs)"

definition on_packet :: "environment \<Rightarrow> ('p, 'r) pcap_library \<Rightarrow> 'p \<Rightarrow> (('p, 'r) app, unit) act" where
  "on_packet E L packet s =
     (if pcap_is_tcp L packet then
        (case pcap_reassemble L (app_reassembly s) packet of
           (cbs, r) \<Rightarrow> run_callbacks E cbs (s\<lparr>app_reassembly := r\<rparr>))
      else (Inr (), s))"

definition close_all_connections :: "environment \<Rightarrow> ('p, 'r) pcap_library \<Rightarrow> (('p, 'r) app, unit) act" where
  "close_all_connections E L s =
     (case pcap_close_all L (app_reassembly s) of
        (cbs, r) \<Rightarrow> run_callbacks E cbs (s\<lparr>app_reassembly := r\<rparr>))"

section \<open>Live capture\<close>

text \<open>The address of the first device with one of its own.\<close>

fun first_address :: "(string \<times> string) list \<Rightarrow> string option" where
  "first_address [] = None"
| "first_address ((name, ip) # devList) =
     (if ip \<noteq> ''0.0.0.0'' \<and> ip \<noteq> ''127.0.0.1'' then Some ip else first_address devList)"

definition choose_device :: "('p, 'r) pcap_library \<Rightarrow> string \<Rightarrow> nat option" where
  "choose_device L device_ip =
     (let dev = (if device_ip \<noteq> [] then pcap_device_by_ip L device_ip else None)
      in if device_ip = [] \<or> dev = None
         then (case first_address (pcap_devices L) of None \<Rightarrow> dev | Some ip \<Rightarrow> pcap_device_by_ip L ip)
         else dev)"

definition start_capture :: "environment \<Rightarrow> ('p, 'r) pcap_library \<Rightarrow> (('p, 'r) app, unit) act" where
  "start_capture E L s0 =
     (let capture = config_capture (app_config s0);
          dev = choose_device L (capture_device_ip capture);
          s = s0\<lparr>app_capturing := True, app_dev := dev\<rparr>
      in case dev of
           None \<Rightarrow> (Inl (ProcessExit 1), s)
         | Some n \<Rightarrow>
             if \<not> pcap_open L n then (Inl (ProcessExit 1), s)
             else if capture_filter capture \<noteq> [] \<and> \<not> pcap_set_filter L n (capture_filter capture)
             then act_bind (close_all_connections E L) (\<lambda>_. act_throw (ProcessExit 0)) s
             else (Inr (), s\<lparr>app_dev_running := True\<rparr>))"

definition stop_capture :: "(('p, 'r) app, unit) act" where
  "stop_capture s =
     (let s = s\<lparr>app_capturing := False\<rparr>
      in if app_dev s \<noteq> None then (Inr (), s\<lparr>app_dev_running := False, app_dev := None\<rparr>) else (Inr (), s))"

text \<open>A packet of the device, on the capturing thread.\<close>

definition live_packet :: "environment \<Rightarrow> ('p, 'r) pcap_library \<Rightarrow> 'p \<Rightarrow> (('p, 'r) app, unit) act" where
  "live_packet E L packet s = (if app_dev_running s then on_packet E L packet s else (Inr (), s))"

section \<open>Import of a file\<close>

text \<open>
  \<open>analyze_pcap_file\<close> in the parts between which the other threads work: up to its loop, a pass of
  the loop, and what follows the loop.
\<close>

definition import_begin :: "('p, 'r) pcap_library \<Rightarrow> string \<Rightarrow> (('p, 'r) app, unit) act" where
  "import_begin L path s0 =
     (let s = s0\<lparr>app_importing := True\<rparr>; capture_filter = capture_filter (config_capture (app_config s))
      in case pcap_file L path of
           None \<Rightarrow> (Inr (), s\<lparr>app_importing := False\<rparr>)
         | Some packets \<Rightarrow>
             if capture_filter \<noteq> [] then
               (case pcap_file_filter L path capture_filter of
                  None \<Rightarrow> (Inl (ProcessExit 0), s)
                | Some filtered \<Rightarrow> (Inr (), s\<lparr>app_import := Some (filtered, 0)\<rparr>))
             else (Inr (), s\<lparr>app_import := Some (packets, 0)\<rparr>))"

definition import_pass :: "environment \<Rightarrow> ('p, 'r) pcap_library \<Rightarrow> (('p, 'r) app, unit) act" where
  "import_pass E L s =
     (case app_import s of
        Some (packet # packets, n) \<Rightarrow>
          act_bind (on_packet E L packet) (\<lambda>_ s.
            (Inr (), s\<lparr>app_import :=
               Some (if (n + 1) mod 10000 = 0 \<and> db_max_reached (ph_db (app_ph s)) then [] else packets, n + 1)\<rparr>)) s
      | _ \<Rightarrow> (Inr (), s))"

definition import_end :: "environment \<Rightarrow> ('p, 'r) pcap_library \<Rightarrow> (('p, 'r) app, unit) act" where
  "import_end E L s =
     (case app_import s of
        Some ([], n) \<Rightarrow>
          act_seq [close_all_connections E L, act_modify (\<lambda>s. s\<lparr>app_import := None, app_importing := False\<rparr>)] s
      | _ \<Rightarrow> (Inr (), s))"

section \<open>The processing thread\<close>

text \<open>
  The check at the start of \<open>handle_tcp\<close>: every 10000 packets a live capture is stopped when the
  database has reached its maximum size.
\<close>

definition check_maximum :: "('p, 'r) app \<Rightarrow> ('p, 'r) app" where
  "check_maximum s0 =
     (let s = s0\<lparr>app_consumed := app_consumed s0 + 1\<rparr>
      in if app_consumed s mod 10000 = 0 \<and> app_dev s \<noteq> None \<and> db_max_reached (ph_db (app_ph s))
         then s\<lparr>app_dev_running := False\<rparr> else s)"

text \<open>A round of the processing thread with a packet to process.\<close>

definition app_process :: "environment \<Rightarrow> ('p, 'r) app \<Rightarrow> (tcp_outcome \<times> ('p, 'r) app) option" where
  "app_process E s0 =
     (let s = (if ph_stopped (app_ph s0) \<or> ph_packet_queue (app_ph s0) = [] then s0 else check_maximum s0)
      in map_option (\<lambda>(out, h). (out, s\<lparr>app_ph := h\<rparr>))
           (process_packet E (config_capture (app_config s)) (app_ph s)))"

definition packet_queue_size :: "('p, 'r) app \<Rightarrow> nat" where
  "packet_queue_size s = length (ph_packet_queue (app_ph s))"

end
