(* ===== verification/DbQuery.thy ===== *)
theory DbQuery
  imports Db Config
begin

text \<open>
  The read side of the capture database (\<open>db.cpp\<close>) and of the SQLite wrapper (\<open>SQLiteCpp/\<close>): statements
  that give rows, their columns, the queries of the web server and the counts. What the engine
  answers to a text of SQL is the parameter \<open>sqlite_reader\<close>: the names of the columns, the rows of
  the successive steps with the result code of the step after the last one, and, for a text that is
  not a mere query, the calls that change the database it amounts to (made by its first step). A
  value of a column has the text the engine makes of it.
\<close>

section \<open>Statements that give rows\<close>

record prepared =
  pr_columns :: "string list"
  pr_rows :: "sql_value list list"
  pr_end :: int
  pr_effect :: "sql_event list"

record sqlite_reader =
  rd_prepare :: "sql_history \<Rightarrow> string \<Rightarrow> int + prepared"
  rd_errmsg :: "int \<Rightarrow> string"
  rd_text_int64 :: "string \<Rightarrow> int"
  rd_table_info :: "sql_history \<Rightarrow> string \<Rightarrow> int \<times> (string \<times> string option) list list"

record select_stmt =
  sel_columns :: "string list"
  sel_rest :: "sql_value list list"
  sel_end :: int
  sel_effect :: "sql_event list"
  sel_row :: "sql_value list"
  sel_has_row :: bool
  sel_done :: bool

text \<open>A query at work: the database, its statement, and the json values it builds.\<close>

record 'j query_state =
  q_db :: db
  q_stmt :: select_stmt
  q_res :: 'j
  q_rows :: 'j

text \<open>The constructor of \<open>Statement\<close>.\<close>

definition select_new :: "sqlite_reader \<Rightarrow> string \<Rightarrow> (db, select_stmt) act" where
  "select_new R query d =
     (case rd_prepare R (db_history d) query of
        Inl ret \<Rightarrow> (Inl (SqliteException ret), d)
      | Inr p \<Rightarrow> (Inr \<lparr>sel_columns = pr_columns p, sel_rest = pr_rows p, sel_end = pr_end p,
          sel_effect = pr_effect p, sel_row = [], sel_has_row = False, sel_done = False\<rparr>, d))"

definition select_try_execute_step :: "'j query_state \<Rightarrow> int \<times> 'j query_state" where
  "select_try_execute_step q =
     (let st = q_stmt q
      in if \<not> sel_done st then
           (let d = (q_db q)\<lparr>db_history := db_history (q_db q) @ sel_effect st\<rparr>;
                (ret, st') = (case sel_rest st of
                    r # rs \<Rightarrow> (SQLITE_ROW, st\<lparr>sel_row := r, sel_rest := rs, sel_effect := [], sel_has_row := True\<rparr>)
                  | [] \<Rightarrow> (sel_end st, st\<lparr>sel_effect := [], sel_has_row := False, sel_done := (sel_end st = SQLITE_DONE)\<rparr>))
            in (ret, q\<lparr>q_db := d, q_stmt := st'\<rparr>))
         else (SQLITE_MISUSE, q))"

definition select_execute_step :: "('j query_state, bool) act" where
  "select_execute_step q =
     (case select_try_execute_step q of
        (ret, q') \<Rightarrow> if ret \<noteq> SQLITE_ROW \<and> ret \<noteq> SQLITE_DONE then (Inl (SqliteException ret), q')
                    else (Inr (sel_has_row (q_stmt q')), q'))"

definition select_check_row :: "('j query_state, unit) act" where
  "select_check_row q = (if \<not> sel_has_row (q_stmt q) then (Inl (SqliteException (-1)), q) else (Inr (), q))"

definition select_check_index :: "int \<Rightarrow> ('j query_state, unit) act" where
  "select_check_index aIndex q =
     (if aIndex < 0 \<or> aIndex \<ge> int (length (sel_columns (q_stmt q))) then (Inl (SqliteException (-1)), q) else (Inr (), q))"

text \<open>\<open>getColumn\<close>: a column stands for its value in the row the statement is at.\<close>

definition select_get_column :: "int \<Rightarrow> ('j query_state, sql_value) act" where
  "select_get_column aIndex =
     act_bind select_check_row (\<lambda>_.
     act_bind (select_check_index aIndex) (\<lambda>_.
     act_get (\<lambda>q. sel_row (q_stmt q) ! nat aIndex)))"

text \<open>The map of column names has the last index of a name.\<close>

definition column_index :: "string list \<Rightarrow> string \<Rightarrow> nat option" where
  "column_index names apName =
     (if apName \<in> set names then Some (length names - 1 - length (takeWhile (\<lambda>n. n \<noteq> apName) (rev names))) else None)"

definition select_get_column_named :: "string \<Rightarrow> ('j query_state, sql_value) act" where
  "select_get_column_named apName =
     act_bind select_check_row (\<lambda>_.
     act_bind (act_get (\<lambda>q. column_index (sel_columns (q_stmt q)) apName)) (\<lambda>index.
     case index of None \<Rightarrow> act_throw (SqliteException (-1))
     | Some i \<Rightarrow> act_get (\<lambda>q. sel_row (q_stmt q) ! i)))"

section \<open>Columns\<close>

definition int_text :: "int \<Rightarrow> string" where
  "int_text i = (if i < 0 then CHR ''-'' # dec_string (nat (- i)) else dec_string (nat i))"

text \<open>A C string ends at its first null character.\<close>

definition c_string :: "string \<Rightarrow> string" where
  "c_string s = takeWhile (\<lambda>c. c \<noteq> CHR 0x00) s"

fun column_get_string :: "sql_value \<Rightarrow> string" where
  "column_get_string SqlNull = []"
| "column_get_string (SqlInt i) = int_text i"
| "column_get_string (SqlText s) = s"

fun column_get_text :: "string \<Rightarrow> sql_value \<Rightarrow> string" where
  "column_get_text apDefaultValue SqlNull = apDefaultValue"
| "column_get_text apDefaultValue (SqlInt i) = int_text i"
| "column_get_text apDefaultValue (SqlText s) = c_string s"

fun column_get_int64 :: "sqlite_reader \<Rightarrow> sql_value \<Rightarrow> int" where
  "column_get_int64 R SqlNull = 0"
| "column_get_int64 R (SqlInt i) = i"
| "column_get_int64 R (SqlText s) = rd_text_int64 R s"

text \<open>\<open>Database::execAndGet\<close>, with the state its caller goes on from.\<close>

definition db_exec_and_get :: "sqlite_reader \<Rightarrow> string \<Rightarrow> (db, sql_value) act" where
  "db_exec_and_get R query =
     act_bind (select_new R query) (\<lambda>st d.
       case act_bind select_execute_step (\<lambda>_. select_get_column 0) \<lparr>q_db = d, q_stmt = st, q_res = (), q_rows = ()\<rparr> of
         (r, q) \<Rightarrow> (r, q_db q))"

section \<open>Queries\<close>

text \<open>The inner loops: the values made of columns \<open>i\<close> to the last, added to an array.\<close>

fun push_columns :: "('j, 'm) json_library_scheme \<Rightarrow> (nat \<Rightarrow> sql_value \<Rightarrow> string) \<Rightarrow> nat list \<Rightarrow> 'j \<Rightarrow>
    ('j query_state, 'j) act" where
  "push_columns J f [] vals = act_return vals"
| "push_columns J f (i # is) vals =
     act_bind (select_get_column (int i)) (\<lambda>col. push_columns J f is (json_push_back J vals (json_string J (f i col))))"

definition query_row :: "('j, 'm) json_library_scheme \<Rightarrow> bool \<Rightarrow> ('j query_state, unit) act" where
  "query_row J first =
     act_bind (act_get (\<lambda>q. sel_columns (q_stmt q))) (\<lambda>names.
     act_seq
       [act_when first
          (act_bind (push_columns J (\<lambda>i col. names ! i) [0..<length names] (json_array J)) (\<lambda>colnames.
           act_modify (\<lambda>q. q\<lparr>q_res := json_assign J (q_res q) ''columns'' colnames\<rparr>))),
        act_bind (push_columns J (\<lambda>i col. column_get_text [] col) [0..<length names] (json_array J)) (\<lambda>column_vals.
          act_modify (\<lambda>q. q\<lparr>q_rows := json_push_back J (q_rows q) column_vals\<rparr>))])"

text \<open>The outer loop, with the number of passes that \<open>max_rows\<close> still allows.\<close>

primrec query_rows :: "('j, 'm) json_library_scheme \<Rightarrow> bool \<Rightarrow> nat \<Rightarrow> ('j query_state, unit) act" where
  "query_rows J first 0 = act_return ()"
| "query_rows J first (Suc n) =
     act_bind select_execute_step (\<lambda>more.
       if more then act_bind (query_row J first) (\<lambda>_. query_rows J False n) else act_return ())"

text \<open>\<open>what()\<close> of an exception that is caught as a \<open>std::runtime_error\<close>.\<close>

fun exception_what :: "sqlite_reader \<Rightarrow> failure \<Rightarrow> string" where
  "exception_what R (SqliteException ret) = rd_errmsg R ret"
| "exception_what R _ = []"

definition db_query :: "sqlite_reader \<Rightarrow> ('j, 'm) json_library_scheme \<Rightarrow> int \<Rightarrow> string \<Rightarrow> (db, 'j) act" where
  "db_query R J max_rows query d =
     (case select_new R query d of
        (Inl e, d') \<Rightarrow>
          if caught_as_runtime_error e
          then (Inr (json_assign J (json_null J) ''error'' (json_string J (exception_what R e))), d') else (Inl e, d')
      | (Inr st, d') \<Rightarrow>
          (case query_rows J True (nat max_rows) \<lparr>q_db = d', q_stmt = st, q_res = json_null J, q_rows = json_array J\<rparr> of
             (Inl e, q) \<Rightarrow>
               if caught_as_runtime_error e
               then (Inr (json_assign J (q_res q) ''error'' (json_string J (exception_what R e))), q_db q) else (Inl e, q_db q)
           | (Inr _, q) \<Rightarrow> (Inr (json_assign J (q_res q) ''rows'' (q_rows q)), q_db q)))"

section \<open>The schema\<close>

text \<open>\<open>pragma_table_info_callback\<close>, for one row of the pragma's answer.\<close>

definition pragma_table_info_callback :: "('j, 'm) json_library_scheme \<Rightarrow> 'j \<Rightarrow> (string \<times> string option) list \<Rightarrow> 'j" where
  "pragma_table_info_callback J cols argv =
     json_push_back J cols
       (foldl (\<lambda>col (azColName, arg). json_assign J col azColName
            (json_string J (case arg of None \<Rightarrow> ''NULL'' | Some s \<Rightarrow> s)))
          (json_object J) argv)"

definition schema_table :: "sqlite_reader \<Rightarrow> ('j, 'm) json_library_scheme \<Rightarrow> sql_history \<Rightarrow> string \<Rightarrow> 'j" where
  "schema_table R J h table_name =
     json_assign J (json_assign J (json_object J) ''table'' (json_string J table_name)) ''columns''
       (foldl (pragma_table_info_callback J) (json_array J)
          (snd (rd_table_info R h (''PRAGMA table_info('' @ table_name @ '');''))))"

definition tables_query :: string where
  "tables_query = ''SELECT name FROM sqlite_master WHERE type='' @ [CHR 0x27] @ ''table'' @ [CHR 0x27]"

definition schema_pass :: "sqlite_reader \<Rightarrow> ('j, 'm) json_library_scheme \<Rightarrow> ('j query_state, bool) act" where
  "schema_pass R J =
     act_bind select_execute_step (\<lambda>more.
       if \<not> more then act_return False
       else act_bind (select_get_column_named ''name'') (\<lambda>col.
         let table_name = column_get_string col
         in act_bind (act_when (table_name \<noteq> ''sqlite_sequence'')
              (act_modify (\<lambda>q. q\<lparr>q_res := json_push_back J (q_res q) (schema_table R J (db_history (q_db q)) table_name)\<rparr>)))
            (\<lambda>_. act_return True)))"

text \<open>None when the loop over the tables does not end.\<close>

definition get_schema :: "sqlite_reader \<Rightarrow> ('j, 'm) json_library_scheme \<Rightarrow> db \<Rightarrow> ((failure + 'j) \<times> db) option" where
  "get_schema R J d =
     (case select_new R tables_query d of
        (Inl e, d') \<Rightarrow> Some (Inl e, d')
      | (Inr st, d') \<Rightarrow>
          map_option (\<lambda>(r, q). (map_sum id (\<lambda>_. q_res q) r, q_db q))
            (act_loop (schema_pass R J) \<lparr>q_db = d', q_stmt = st, q_res = json_array J, q_rows = json_array J\<rparr>))"

definition get_schema_json :: "sqlite_reader \<Rightarrow> ('j, 'm) json_library_scheme \<Rightarrow> db \<Rightarrow> ((failure + string) \<times> db) option" where
  "get_schema_json R J d =
     map_option (\<lambda>(r, d'). (case r of Inl e \<Rightarrow> Inl e
         | Inr schema \<Rightarrow> map_sum id (\<lambda>text. text @ [CHR 0x0A]) (json_dump J 4 schema), d'))
       (get_schema R J d)"

section \<open>Counts, and the end of the database\<close>

definition count_packets :: "sqlite_reader \<Rightarrow> (db, int) act" where
  "count_packets R =
     act_bind (db_exec_and_get R ''select count(*) from packet'') (\<lambda>col. act_return (column_get_int64 R col))"

fun per_type_loop :: "('j, 'm) json_library_scheme \<Rightarrow> int \<Rightarrow> u64 list \<Rightarrow> 'j \<Rightarrow> 'j" where
  "per_type_loop J i [] arr = arr"
| "per_type_loop J i (count # counts) arr =
     per_type_loop J (i + 1) counts
       (json_push_back J arr (json_assign J (json_assign J (json_object J) ''count'' (json_integer J (uint count)))
          ''type'' (json_integer J i)))"

text \<open>The exceptions of \<open>dump\<close> are not runtime errors: they leave the method.\<close>

definition count_packets_per_type :: "sqlite_reader \<Rightarrow> ('j, 'm) json_library_scheme \<Rightarrow> (db, string) act" where
  "count_packets_per_type R J d =
     (case json_dump J 5 (per_type_loop J 0 (db_count_per_type d) (json_array J)) of
        Inl e \<Rightarrow> (if caught_as_runtime_error e then Inr (exception_what R e) else Inl e, d)
      | Inr res \<Rightarrow> (Inr res, d))"

text \<open>The destructor; an exception would end the process.\<close>

definition db_close :: "'e sqlite_engine_scheme \<Rightarrow> (db, unit) act" where
  "db_close E = transaction_commit E"

section \<open>What a query answers\<close>

text \<open>The values of a row, and the rows of an answer, as json.\<close>

definition row_json :: "('j, 'm) json_library_scheme \<Rightarrow> sql_value list \<Rightarrow> 'j" where
  "row_json J r = json_array_of J (map (\<lambda>v. json_string J (column_get_text [] v)) r)"

definition names_json :: "('j, 'm) json_library_scheme \<Rightarrow> string list \<Rightarrow> 'j" where
  "names_json J names = json_array_of J (map (json_string J) names)"

definition answer_head :: "('j, 'm) json_library_scheme \<Rightarrow> string list \<Rightarrow> 'a list \<Rightarrow> 'j" where
  "answer_head J names shown =
     (if shown = [] then json_null J else json_assign J (json_null J) ''columns'' (names_json J names))"

text \<open>A reader's answer has rows as wide as its columns, and its last code is not that of a row.\<close>

definition prepared_ok :: "prepared \<Rightarrow> bool" where
  "prepared_ok p \<longleftrightarrow> (\<forall>r \<in> set (pr_rows p). length r = length (pr_columns p)) \<and> pr_end p \<noteq> SQLITE_ROW"

lemma push_columns_row:
  assumes "sel_has_row (q_stmt q)" and "length (sel_row (q_stmt q)) = length (sel_columns (q_stmt q))"
    and "\<forall>i \<in> set is. i < length (sel_columns (q_stmt q))"
  shows "push_columns J f is vals q =
    (Inr (foldl (json_push_back J) vals (map (\<lambda>i. json_string J (f i (sel_row (q_stmt q) ! i))) is)), q)"
  using assms
  by (induction "is" arbitrary: vals)
    (auto simp: act_return_def act_bind_def select_get_column_def select_check_row_def select_check_index_def act_get_def)

lemma map_upt_nth: "length xs = n \<Longrightarrow> map (\<lambda>i. f (xs ! i)) [0..<n] = map f xs"
  by (auto intro: nth_equalityI)

lemma query_row_result:
  assumes "sel_has_row (q_stmt q)" and "length (sel_row (q_stmt q)) = length (sel_columns (q_stmt q))"
  shows "query_row J first q =
    (Inr (), q\<lparr>q_res := (if first then json_assign J (q_res q) ''columns'' (names_json J (sel_columns (q_stmt q))) else q_res q),
       q_rows := json_push_back J (q_rows q) (row_json J (sel_row (q_stmt q)))\<rparr>)"
proof -
  have names: "map (\<lambda>i. json_string J (sel_columns (q_stmt q) ! i)) [0..<length (sel_columns (q_stmt q))] =
      map (json_string J) (sel_columns (q_stmt q))"
    by (rule map_upt_nth) simp
  have row: "map (\<lambda>i. json_string J (column_get_text [] (sel_row (q_stmt q) ! i))) [0..<length (sel_columns (q_stmt q))] =
      map (\<lambda>v. json_string J (column_get_text [] v)) (sel_row (q_stmt q))"
    by (rule map_upt_nth [where f = "\<lambda>v. json_string J (column_get_text [] v)"]) (rule assms(2))
  have push_names: "push_columns J (\<lambda>i col. sel_columns (q_stmt q) ! i) [0..<length (sel_columns (q_stmt q))] (json_array J) q =
      (Inr (names_json J (sel_columns (q_stmt q))), q)"
    using push_columns_row [OF assms, of "[0..<length (sel_columns (q_stmt q))]" J "\<lambda>i col. sel_columns (q_stmt q) ! i" "json_array J"]
    unfolding names names_json_def json_array_of_def by simp
  have push_row: "push_columns J (\<lambda>i col. column_get_text [] col) [0..<length (sel_columns (q_stmt q))] (json_array J) (q\<lparr>q_res := r\<rparr>) =
      (Inr (row_json J (sel_row (q_stmt q))), q\<lparr>q_res := r\<rparr>)" for r
    using push_columns_row [of "q\<lparr>q_res := r\<rparr>" "[0..<length (sel_columns (q_stmt q))]" J "\<lambda>i col. column_get_text [] col" "json_array J"]
      assms by (simp add: row row_json_def json_array_of_def)
  from push_row [of "q_res q"] have "push_columns J (\<lambda>i col. column_get_text [] col) [0..<length (sel_columns (q_stmt q))] (json_array J) q =
      (Inr (row_json J (sel_row (q_stmt q))), q)" by simp
  with push_names push_row show ?thesis
    by (cases first) (simp_all add: query_row_def act_bind_def act_get_def act_when_def act_modify_def act_return_def)
qed

definition query_end :: "int \<Rightarrow> nat \<Rightarrow> 'a list \<Rightarrow> failure + unit" where
  "query_end ret n rest = (if n \<le> length rest \<or> ret = SQLITE_DONE then Inr () else Inl (SqliteException ret))"

definition with_effect :: "nat \<Rightarrow> sql_event list \<Rightarrow> db \<Rightarrow> db" where
  "with_effect n effect d = (if n = 0 then d else d\<lparr>db_history := db_history d @ effect\<rparr>)"

lemma with_effect_simps [simp]:
  "with_effect 0 e d = d" "with_effect n [] d = d" "with_effect (Suc n) e d = d\<lparr>db_history := db_history d @ e\<rparr>"
  by (simp_all add: with_effect_def)

lemma select_step_row:
  "\<not> sel_done (q_stmt q) \<Longrightarrow> sel_rest (q_stmt q) = r # rs \<Longrightarrow>
     select_execute_step q = (Inr True, q\<lparr>q_db := with_effect 1 (sel_effect (q_stmt q)) (q_db q),
       q_stmt := (q_stmt q)\<lparr>sel_row := r, sel_rest := rs, sel_effect := [], sel_has_row := True\<rparr>\<rparr>)"
  by (simp add: select_execute_step_def select_try_execute_step_def Let_def sqlite_codes)

lemma select_step_end:
  "\<not> sel_done (q_stmt q) \<Longrightarrow> sel_rest (q_stmt q) = [] \<Longrightarrow> sel_end (q_stmt q) \<noteq> SQLITE_ROW \<Longrightarrow>
     select_execute_step q =
       ((if sel_end (q_stmt q) = SQLITE_DONE then Inr False else Inl (SqliteException (sel_end (q_stmt q)))),
        q\<lparr>q_db := with_effect 1 (sel_effect (q_stmt q)) (q_db q),
          q_stmt := (q_stmt q)\<lparr>sel_effect := [], sel_has_row := False, sel_done := (sel_end (q_stmt q) = SQLITE_DONE)\<rparr>\<rparr>)"
  by (simp add: select_execute_step_def select_try_execute_step_def Let_def)

lemma query_rows_result:
  assumes "\<not> sel_done (q_stmt q)" and "\<forall>r \<in> set (sel_rest (q_stmt q)). length r = length (sel_columns (q_stmt q))"
    and "sel_end (q_stmt q) \<noteq> SQLITE_ROW"
  shows "\<exists>st. query_rows J first n q = (query_end (sel_end (q_stmt q)) n (sel_rest (q_stmt q)),
    q\<lparr>q_db := with_effect n (sel_effect (q_stmt q)) (q_db q), q_stmt := st,
      q_res := (if first \<and> take n (sel_rest (q_stmt q)) \<noteq> []
                then json_assign J (q_res q) ''columns'' (names_json J (sel_columns (q_stmt q))) else q_res q),
      q_rows := foldl (json_push_back J) (q_rows q) (map (row_json J) (take n (sel_rest (q_stmt q))))\<rparr>)"
  using assms
proof (induction n arbitrary: q first)
  case 0
  show ?case by (rule exI [of _ "q_stmt q"]) (simp add: act_return_def query_end_def)
next
  case (Suc n)
  show ?case
  proof (cases "sel_rest (q_stmt q)")
    case Nil
    with Suc.prems show ?thesis
      by (cases "sel_end (q_stmt q) = SQLITE_DONE")
        (simp_all add: act_bind_def select_step_end act_return_def query_end_def exI)
  next
    case (Cons r rs)
    let ?q = "q\<lparr>q_db := with_effect 1 (sel_effect (q_stmt q)) (q_db q),
       q_stmt := (q_stmt q)\<lparr>sel_row := r, sel_rest := rs, sel_effect := [], sel_has_row := True\<rparr>\<rparr>"
    let ?q' = "q\<lparr>q_db := with_effect 1 (sel_effect (q_stmt q)) (q_db q),
       q_stmt := (q_stmt q)\<lparr>sel_row := r, sel_rest := rs, sel_effect := [], sel_has_row := True\<rparr>,
       q_res := (if first then json_assign J (q_res q) ''columns'' (names_json J (sel_columns (q_stmt q))) else q_res q),
       q_rows := json_push_back J (q_rows q) (row_json J r)\<rparr>"
    have "query_row J first ?q = (Inr (), ?q')"
      using Suc.prems Cons query_row_result [of ?q J first] by (cases first) simp_all
    then have step: "query_rows J first (Suc n) q = query_rows J False n ?q'"
      using select_step_row [OF Suc.prems(1) Cons] by (simp add: act_bind_def)
    from Suc.IH [of ?q' False] Suc.prems Cons
    have "\<exists>st. query_rows J False n ?q' = (query_end (sel_end (q_stmt q)) n rs,
        q\<lparr>q_db := with_effect 1 (sel_effect (q_stmt q)) (q_db q), q_stmt := st,
          q_res := (if first then json_assign J (q_res q) ''columns'' (names_json J (sel_columns (q_stmt q))) else q_res q),
          q_rows := foldl (json_push_back J) (json_push_back J (q_rows q) (row_json J r)) (map (row_json J) (take n rs))\<rparr>)"
      by simp
    with step Cons show ?thesis by (simp add: query_end_def)
  qed
qed

lemma db_query_result:
  assumes "\<forall>p. rd_prepare R (db_history d) query = Inr p \<longrightarrow> prepared_ok p"
  shows "db_query R J max_rows query d =
    (case rd_prepare R (db_history d) query of
       Inl ret \<Rightarrow> (Inr (json_assign J (json_null J) ''error'' (json_string J (rd_errmsg R ret))), d)
     | Inr p \<Rightarrow>
         (let shown = take (nat max_rows) (pr_rows p)
          in (Inr (if length (pr_rows p) < nat max_rows \<and> pr_end p \<noteq> SQLITE_DONE
               then json_assign J (answer_head J (pr_columns p) shown) ''error'' (json_string J (rd_errmsg R (pr_end p)))
               else json_assign J (answer_head J (pr_columns p) shown) ''rows'' (json_array_of J (map (row_json J) shown))),
             with_effect (nat max_rows) (pr_effect p) d)))"
proof (cases "rd_prepare R (db_history d) query")
  case (Inl ret)
  then show ?thesis by (simp add: db_query_def select_new_def)
next
  case (Inr p)
  let ?q = "\<lparr>q_db = d, q_stmt = \<lparr>sel_columns = pr_columns p, sel_rest = pr_rows p, sel_end = pr_end p,
      sel_effect = pr_effect p, sel_row = [], sel_has_row = False, sel_done = False\<rparr>,
      q_res = json_null J, q_rows = json_array J\<rparr>"
  from query_rows_result [of ?q J True "nat max_rows"] assms Inr
  obtain st where "query_rows J True (nat max_rows) ?q = (query_end (pr_end p) (nat max_rows) (pr_rows p),
    ?q\<lparr>q_db := with_effect (nat max_rows) (pr_effect p) d, q_stmt := st,
      q_res := answer_head J (pr_columns p) (take (nat max_rows) (pr_rows p)),
      q_rows := json_array_of J (map (row_json J) (take (nat max_rows) (pr_rows p)))\<rparr>)"
    by (auto simp: prepared_ok_def answer_head_def json_array_of_def)
  with Inr show ?thesis
    by (simp add: db_query_def select_new_def query_end_def Let_def not_le)
qed

text \<open>C19: 
  What a query answers. A text the engine does not take gives its error message. Otherwise the
  answer has, in the engine's order, the first rows up to the configured maximum, each the array of
  the texts of its columns, under the names of the columns; without rows there are no names. A step
  that fails within the maximum gives the names and the error in the place of the rows. Nothing is
  thrown, and the database is changed by what the text does, which is nothing for a maximum of zero.
\<close>

theorem query_answers:
  assumes "\<forall>p. rd_prepare R (db_history d) query = Inr p \<longrightarrow> prepared_ok p"
  shows "db_query R J max_rows query d =
    (case rd_prepare R (db_history d) query of
       Inl ret \<Rightarrow> (Inr (json_assign J (json_null J) ''error'' (json_string J (rd_errmsg R ret))), d)
     | Inr p \<Rightarrow>
         (let shown = take (nat max_rows) (pr_rows p)
          in (Inr (if length (pr_rows p) < nat max_rows \<and> pr_end p \<noteq> SQLITE_DONE
               then json_assign J (answer_head J (pr_columns p) shown) ''error'' (json_string J (rd_errmsg R (pr_end p)))
               else json_assign J (answer_head J (pr_columns p) shown) ''rows'' (json_array_of J (map (row_json J) shown))),
             with_effect (nat max_rows) (pr_effect p) d)))"
  using assms by (rule db_query_result)

end
