(* ===== verification/WebText.thy ===== *)
theory WebText
  imports Prelude
begin

text \<open>
  The texts of HTTP the web server of nanocap reads and writes (\<open>webserver/utility.hpp\<close>): percent
  encoding, query strings, header fields, the request and the status line. A \<open>std::string\<close> is the
  list of its characters, an input stream the characters still to be read, and a
  \<open>CaseInsensitiveMultimap\<close> its entries in the order they were inserted; \<open>std::string::npos\<close> is none.
\<close>

type_synonym multimap = "(string \<times> string) list"

definition code :: "char \<Rightarrow> nat" where
  "code c = of_char c"

lemma code_less [simp]: "code c < 256"
  by (cases c) (simp add: code_def)

lemma char_of_code [simp]: "char_of (code c) = c"
  by (simp add: code_def)

section \<open>Character classes\<close>

definition tolower :: "char \<Rightarrow> char" where
  "tolower c = (if 65 \<le> code c \<and> code c \<le> 90 then char_of (code c + 32) else c)"

definition case_insensitive_equal :: "string \<Rightarrow> string \<Rightarrow> bool" where
  "case_insensitive_equal str1 str2 \<longleftrightarrow>
     length str1 = length str2 \<and> list_all2 (\<lambda>a b. tolower a = tolower b) str1 str2"

definition unreserved :: "char \<Rightarrow> bool" where
  "unreserved chr \<longleftrightarrow>
     48 \<le> code chr \<and> code chr \<le> 57 \<or> 65 \<le> code chr \<and> code chr \<le> 90 \<or>
     97 \<le> code chr \<and> code chr \<le> 122 \<or> chr \<in> {CHR ''-'', CHR ''.'', CHR ''_'', CHR ''~''}"

text \<open>\<open>std::isspace\<close>, and the value of a digit of base 16.\<close>

definition isspace :: "char \<Rightarrow> bool" where
  "isspace c \<longleftrightarrow> code c = 32 \<or> 9 \<le> code c \<and> code c \<le> 13"

definition hex_value :: "char \<Rightarrow> nat option" where
  "hex_value c =
     (if 48 \<le> code c \<and> code c \<le> 57 then Some (code c - 48)
      else if 65 \<le> code c \<and> code c \<le> 70 then Some (code c - 55)
      else if 97 \<le> code c \<and> code c \<le> 102 then Some (code c - 87)
      else None)"

fun hex_prefix :: "nat \<Rightarrow> string \<Rightarrow> nat" where
  "hex_prefix acc [] = acc"
| "hex_prefix acc (c # s) = (case hex_value c of None \<Rightarrow> acc | Some d \<Rightarrow> hex_prefix (16 * acc + d) s)"

text \<open>
  \<open>std::strtol\<close> with base 16 on a text whose value is in range: spaces, a sign, a prefix \<open>0x\<close> that
  a digit follows, and the longest run of digits, of value zero if there is none.
\<close>

definition strtol16 :: "string \<Rightarrow> int" where
  "strtol16 s =
     (let s1 = dropWhile isspace s;
          (neg, s2) = (case s1 of [] \<Rightarrow> (False, [])
            | c # r \<Rightarrow> if c = CHR ''-'' then (True, r) else if c = CHR ''+'' then (False, r) else (False, s1));
          s3 = (case s2 of a # b # c # r \<Rightarrow>
                  if a = CHR ''0'' \<and> b \<in> {CHR ''x'', CHR ''X''} \<and> hex_value c \<noteq> None then c # r else s2
                | _ \<Rightarrow> s2);
          v = int (hex_prefix 0 s3)
      in if neg then - v else v)"

section \<open>Percent encoding\<close>

definition hex_chars :: string where
  "hex_chars = ''0123456789ABCDEF''"

definition percent_encode :: "string \<Rightarrow> string" where
  "percent_encode value =
     concat (map (\<lambda>chr. if \<not> unreserved chr
       then CHR ''%'' # [hex_chars ! (code chr div 16), hex_chars ! (code chr mod 16)] else [chr]) value)"

text \<open>The loop over \<open>i\<close> has the characters from \<open>i\<close> on.\<close>

fun percent_decode :: "string \<Rightarrow> string" where
  "percent_decode [] = []"
| "percent_decode (chr # s) =
     (if chr = CHR ''%'' \<and> 2 \<le> length s
      then char_of (nat (strtol16 (take 2 s) mod 256)) # percent_decode (drop 2 s)
      else if chr = CHR ''+'' then CHR '' '' # percent_decode s
      else chr # percent_decode s)"

lemma hex_chars_digit:
  assumes "n < 16"
  shows "hex_value (hex_chars ! n) = Some n" "\<not> isspace (hex_chars ! n)"
    "hex_chars ! n \<noteq> CHR ''-''" "hex_chars ! n \<noteq> CHR ''+''" "unreserved (hex_chars ! n)"
proof -
  have "\<forall>n \<in> {0..<16}. hex_value (hex_chars ! n) = Some n \<and> \<not> isspace (hex_chars ! n) \<and>
    hex_chars ! n \<noteq> CHR ''-'' \<and> hex_chars ! n \<noteq> CHR ''+'' \<and> unreserved (hex_chars ! n)"
    by code_simp
  with assms show "hex_value (hex_chars ! n) = Some n" "\<not> isspace (hex_chars ! n)"
    "hex_chars ! n \<noteq> CHR ''-''" "hex_chars ! n \<noteq> CHR ''+''" "unreserved (hex_chars ! n)" by auto
qed

lemma strtol16_two_digits:
  assumes "a < 16" and "b < 16"
  shows "strtol16 [hex_chars ! a, hex_chars ! b] = int (16 * a + b)"
  using hex_chars_digit [OF assms(1)] hex_chars_digit [OF assms(2)]
  by (simp add: strtol16_def)

lemma percent_decode_char:
  "percent_decode (CHR ''%'' # hex_chars ! (code c div 16) # hex_chars ! (code c mod 16) # s) = c # percent_decode s"
proof -
  have "code c div 16 < 16" using code_less [of c] by linarith
  then have "strtol16 [hex_chars ! (code c div 16), hex_chars ! (code c mod 16)] = int (code c)"
    by (simp add: strtol16_two_digits flip: of_nat_mult of_nat_add)
  then show ?thesis by (simp add: numeral_2_eq_2)
qed

lemma unreserved_plain: "unreserved c \<Longrightarrow> c \<noteq> CHR ''%'' \<and> c \<noteq> CHR ''+''"
  by (auto simp: unreserved_def code_def)

lemma percent_decode_encode_append: "percent_decode (percent_encode v @ s) = v @ percent_decode s"
proof (induction v)
  case (Cons c v)
  then show ?case
    using unreserved_plain [of c] by (auto simp: percent_encode_def percent_decode_char simp del: percent_decode.simps(2))
      (simp_all)
qed (simp add: percent_encode_def)

lemma percent_encode_chars:
  "set (percent_encode v) \<subseteq> {c. unreserved c \<or> c = CHR ''%''}"
proof -
  have "unreserved (hex_chars ! (code c div 16))" "unreserved (hex_chars ! (code c mod 16))" for c
    using code_less [of c] by (simp_all add: hex_chars_digit(5) less_mult_imp_div_less)
  then show ?thesis by (auto simp: percent_encode_def split: if_splits)
qed

section \<open>Query strings\<close>

definition substr :: "string \<Rightarrow> nat \<Rightarrow> nat \<Rightarrow> string" where
  "substr s pos n = take n (drop pos s)"

text \<open>The loops take the fields in the order the multimap iterates over them.\<close>

fun query_create_loop :: "bool \<Rightarrow> multimap \<Rightarrow> string" where
  "query_create_loop first [] = []"
| "query_create_loop first ((name, value) # fields) =
     (if first then [] else ''&'') @ name @ ''='' @ percent_encode value @ query_create_loop False fields"

definition query_create :: "multimap \<Rightarrow> string" where
  "query_create fields = query_create_loop True fields"

function query_loop :: "string \<Rightarrow> nat \<Rightarrow> nat \<Rightarrow> nat option \<Rightarrow> nat option \<Rightarrow> multimap \<Rightarrow> multimap" where
  "query_loop query_string c name_pos name_end_pos value_pos result =
     (if c < length query_string then
        if query_string ! c = CHR ''&'' then
          let name = substr query_string name_pos ((case name_end_pos of None \<Rightarrow> c | Some e \<Rightarrow> e) - name_pos);
              value = (case value_pos of None \<Rightarrow> [] | Some v \<Rightarrow> substr query_string v (c - v))
          in query_loop query_string (c + 1) (c + 1) None None
               (if name \<noteq> [] then result @ [(name, percent_decode value)] else result)
        else if query_string ! c = CHR ''='' then
          query_loop query_string (c + 1) name_pos (Some c) (Some (c + 1)) result
        else query_loop query_string (c + 1) name_pos name_end_pos value_pos result
      else if name_pos < length query_string then
        let name = (case name_end_pos of None \<Rightarrow> drop name_pos query_string
                      | Some e \<Rightarrow> substr query_string name_pos (e - name_pos));
            value = (case value_pos of None \<Rightarrow> []
                      | Some v \<Rightarrow> if length query_string \<le> v then [] else drop v query_string)
        in if name \<noteq> [] then result @ [(name, percent_decode value)] else result
      else result)"
  by pat_completeness auto
termination
  by (relation "measure (\<lambda>(q, c, _). length q - c)") (auto simp: Let_def)

declare query_loop.simps [simp del]

definition query_parse :: "string \<Rightarrow> multimap" where
  "query_parse query_string = (if query_string = [] then [] else query_loop query_string 0 0 None None [])"

text \<open>
  What the loop computes: the text is cut at every \<open>&\<close>, and a piece is a name and a value around its
  last \<open>=\<close>; pieces without a name are dropped.
\<close>

fun pieces :: "string \<Rightarrow> string \<Rightarrow> string list" where
  "pieces seg [] = [seg]"
| "pieces seg (c # s) = (if c = CHR ''&'' then seg # pieces [] s else pieces (seg @ [c]) s)"

definition last_eq :: "string \<Rightarrow> nat option" where
  "last_eq seg = (if CHR ''='' \<in> set seg
     then Some (length seg - 1 - length (takeWhile (\<lambda>c. c \<noteq> CHR ''='') (rev seg))) else None)"

definition piece_field :: "string \<Rightarrow> multimap" where
  "piece_field seg =
     (let (name, value) = (case last_eq seg of None \<Rightarrow> (seg, []) | Some e \<Rightarrow> (take e seg, drop (e + 1) seg))
      in if name \<noteq> [] then [(name, percent_decode value)] else [])"

lemma last_eq_snoc [simp]:
  "last_eq [] = None"
  "last_eq (seg @ [c]) = (if c = CHR ''='' then Some (length seg) else last_eq seg)"
  by (simp_all add: last_eq_def)

lemma last_eq_less: "last_eq seg = Some e \<Longrightarrow> e < length seg"
  by (induction seg rule: rev_induct) (auto split: if_splits)

lemma last_eq_name: "CHR ''='' \<notin> set v \<Longrightarrow> last_eq (n @ CHR ''='' # v) = Some (length n)"
proof (induction v rule: rev_induct)
  case Nil
  then show ?case using last_eq_snoc(2) [of n "CHR ''=''"] by simp
next
  case (snoc c v)
  then show ?case using last_eq_snoc(2) [of "n @ CHR ''='' # v" c] by (auto simp del: last_eq_snoc)
qed

lemma query_loop_pieces:
  assumes "query_string = pre @ seg @ rest" and "e = map_option (\<lambda>i. length pre + i) (last_eq seg)"
    and "v = map_option (\<lambda>i. length pre + i + 1) (last_eq seg)" and "c = length pre + length seg" and "p = length pre"
  shows "query_loop query_string c p e v result = result @ concat (map piece_field (pieces seg rest))"
  using assms
proof (induction rest arbitrary: pre seg c p e v result)
  case Nil
  show ?case
  proof (cases "last_eq seg")
    case None
    with Nil show ?thesis unfolding query_loop.simps [of query_string c p e v result] by (simp add: piece_field_def)
  next
    case (Some i)
    from last_eq_less [OF this] Some Nil show ?thesis
      unfolding query_loop.simps [of query_string c p e v result] by (simp add: piece_field_def substr_def)
  qed
next
  case (Cons a rest)
  have c: "c < length query_string" "query_string ! c = a"
    using Cons.prems by (simp_all add: nth_append)
  show ?case
  proof (cases "a = CHR ''&''")
    case True
    have next_loop: "query_loop query_string (c + 1) (c + 1) None None r = r @ concat (map piece_field (pieces [] rest))" for r
      using Cons.prems True by (intro Cons.IH [of "pre @ seg @ [a]" "[]"]) simp_all
    have "query_loop query_string c p e v result =
      query_loop query_string (c + 1) (c + 1) None None (result @ piece_field seg)"
    proof (cases "last_eq seg")
      case None
      with Cons.prems c True show ?thesis
        unfolding query_loop.simps [of query_string c p e v result] by (simp add: piece_field_def substr_def)
    next
      case (Some i)
      from last_eq_less [OF this] Some Cons.prems c True show ?thesis
        unfolding query_loop.simps [of query_string c p e v result]
        by (simp add: piece_field_def substr_def Let_def)
    qed
    with next_loop True show ?thesis by simp
  next
    case False
    let ?e = "map_option (\<lambda>i. length pre + i) (last_eq (seg @ [a]))"
    let ?v = "map_option (\<lambda>i. length pre + i + 1) (last_eq (seg @ [a]))"
    have "query_loop query_string c p e v result = query_loop query_string (c + 1) p ?e ?v result"
      unfolding query_loop.simps [of query_string c p e v result] using Cons.prems c False by simp
    also have "\<dots> = result @ concat (map piece_field (pieces (seg @ [a]) rest))"
      using Cons.prems by (intro Cons.IH [of pre "seg @ [a]"]) simp_all
    finally show ?thesis using False by simp
  qed
qed

lemma query_parse_pieces: "query_parse query_string = concat (map piece_field (pieces [] query_string))"
  using query_loop_pieces [of query_string "[]" "[]" query_string None None 0 0 "[]"]
  by (simp add: query_parse_def piece_field_def)

lemma pieces_no_amp: "CHR ''&'' \<notin> set s \<Longrightarrow> pieces seg (s @ t) = pieces (seg @ s) t"
  by (induction s arbitrary: seg) auto

lemma percent_encode_plain: "CHR ''&'' \<notin> set (percent_encode v)" "CHR ''='' \<notin> set (percent_encode v)"
  using percent_encode_chars [of v] by (auto simp: unreserved_def code_def)

text \<open>Field names the functions do not change: not empty, and without \<open>&\<close> and \<open>=\<close>.\<close>

definition plain_name :: "string \<Rightarrow> bool" where
  "plain_name name \<longleftrightarrow> name \<noteq> [] \<and> CHR ''&'' \<notin> set name \<and> CHR ''='' \<notin> set name"

lemma pieces_field:
  "plain_name name \<Longrightarrow> pieces seg (name @ CHR ''='' # percent_encode value @ s) =
     pieces (seg @ name @ CHR ''='' # percent_encode value) s"
  using pieces_no_amp [of "name @ CHR ''='' # percent_encode value" seg s] percent_encode_plain(1) [of "value"]
  by (simp add: plain_name_def)

lemma piece_field_encoded:
  "plain_name name \<Longrightarrow> piece_field (name @ CHR ''='' # percent_encode value) = [(name, value)]"
  using percent_decode_encode_append [of "value" "[]"] percent_encode_plain(2) [of "value"]
  by (simp add: piece_field_def last_eq_name plain_name_def)

lemma query_create_pieces:
  assumes "\<forall>(name, value) \<in> set fields. plain_name name"
  shows "concat (map piece_field (pieces (n @ CHR ''='' # percent_encode v) (query_create_loop False fields))) =
    piece_field (n @ CHR ''='' # percent_encode v) @ fields"
  using assms
proof (induction fields arbitrary: n v)
  case (Cons f fields)
  obtain name val where f: "f = (name, val)" "plain_name name" using Cons.prems by auto
  have "pieces (n @ CHR ''='' # percent_encode v) (query_create_loop False (f # fields)) =
    (n @ CHR ''='' # percent_encode v) #
      pieces (name @ CHR ''='' # percent_encode val) (query_create_loop False fields)"
    using f pieces_field [OF f(2), of "[]" val] by simp
  with Cons.IH [of name val] Cons.prems piece_field_encoded [OF f(2), of val] f(1) show ?case by simp
qed simp

lemma query_parse_create:
  assumes "\<forall>(name, value) \<in> set fields. plain_name name"
  shows "query_parse (query_create fields) = fields"
proof (cases fields)
  case Nil
  then show ?thesis by (simp add: query_create_def query_parse_def)
next
  case (Cons f r)
  obtain name val where f: "f = (name, val)" "plain_name name" using assms Cons by auto
  have "pieces [] (query_create fields) =
      pieces (name @ CHR ''='' # percent_encode val) (query_create_loop False r)"
    using pieces_field [OF f(2), of "[]" val "query_create_loop False r"] Cons f by (simp add: query_create_def)
  with query_create_pieces [of r name val] piece_field_encoded [OF f(2), of val] assms Cons f(1)
  show ?thesis by (simp add: query_parse_pieces)
qed

section \<open>Lines and header fields\<close>

abbreviation CR :: char where "CR \<equiv> CHR 0x0D"
abbreviation LF :: char where "LF \<equiv> CHR 0x0A"

text \<open>\<open>std::getline\<close>: none when nothing is left to read.\<close>

definition get_line :: "string \<Rightarrow> (string \<times> string) option" where
  "get_line stream =
     (if stream = [] then None
      else Some (takeWhile (\<lambda>c. c \<noteq> LF) stream, drop 1 (dropWhile (\<lambda>c. c \<noteq> LF) stream)))"

definition find_char :: "char \<Rightarrow> nat \<Rightarrow> string \<Rightarrow> nat option" where
  "find_char c pos s =
     (if c \<in> set (drop pos s) then Some (pos + length (takeWhile (\<lambda>x. x \<noteq> c) (drop pos s))) else None)"

function value_start :: "string \<Rightarrow> nat \<Rightarrow> nat" where
  "value_start line v = (if v + 1 < length line \<and> line ! v = CHR '' '' then value_start line (v + 1) else v)"
  by pat_completeness auto
termination
  by (relation "measure (\<lambda>(line, v). length line - v)") auto

declare value_start.simps [simp del]

lemma get_line_less: "get_line stream = Some (line, rest) \<Longrightarrow> length rest < length stream"
proof -
  have "length (dropWhile (\<lambda>c. c \<noteq> LF) stream) \<le> length stream" by (rule length_dropWhile_le)
  then show "get_line stream = Some (line, rest) \<Longrightarrow> length rest < length stream"
    by (cases stream) (auto simp: get_line_def split: if_splits)
qed

text \<open>The fields, and the stream behind the line that ended them.\<close>

function header_parse :: "string \<Rightarrow> multimap \<times> string" where
  "header_parse stream =
     (case get_line stream of
        None \<Rightarrow> ([], stream)
      | Some (line, rest) \<Rightarrow>
          (case find_char CHR '':'' 0 line of
             None \<Rightarrow> ([], rest)
           | Some param_end \<Rightarrow>
               let v = value_start line (param_end + 1);
                   field = (if v < length line
                            then [(take param_end line,
                                   substr line v (length line - v - (if last line = CR then 1 else 0)))]
                            else []);
                   (fields, rest') = header_parse rest
               in (field @ fields, rest')))"
  by pat_completeness auto
termination
  by (relation "measure length") (auto dest: get_line_less)

declare header_parse.simps [simp del]

section \<open>Requests and responses\<close>

record request =
  req_method :: string
  req_path :: string
  req_query_string :: string
  req_http_version :: string
  req_header :: multimap

function request_scan :: "string \<Rightarrow> nat \<Rightarrow> nat option \<Rightarrow> nat option \<times> nat option" where
  "request_scan line i query_start =
     (if i < length line then
        if line ! i = CHR ''?'' \<and> i + 1 < length line then request_scan line (i + 1) (Some (i + 1))
        else if line ! i = CHR '' '' then (query_start, Some i)
        else request_scan line (i + 1) query_start
      else (query_start, None))"
  by pat_completeness auto
termination
  by (relation "measure (\<lambda>(line, i, _). length line - i)") auto

declare request_scan.simps [simp del]

text \<open>
  The request line and the header fields, with what the stream has behind them; none when the
  function returns false.
\<close>

definition request_parse :: "string \<Rightarrow> (request \<times> string) option" where
  "request_parse stream =
     (case get_line stream of
        None \<Rightarrow> None
      | Some (line, rest) \<Rightarrow>
          (case find_char CHR '' '' 0 line of
             None \<Rightarrow> None
           | Some method_end \<Rightarrow>
               (case request_scan line (method_end + 1) None of
                  (_, None) \<Rightarrow> None
                | (query_start, Some path_end) \<Rightarrow>
                    let (path, query) = (case query_start of
                            Some q \<Rightarrow> (substr line (method_end + 1) (q - method_end - 2), substr line q (path_end - q))
                          | None \<Rightarrow> (substr line (method_end + 1) (path_end - method_end - 1), []))
                    in (case find_char CHR ''/'' (path_end + 1) line of
                          None \<Rightarrow> None
                        | Some protocol_end \<Rightarrow>
                            if substr line (path_end + 1) (protocol_end - path_end - 1) \<noteq> ''HTTP'' then None
                            else
                              let (flds, rest') = header_parse rest
                              in Some (\<lparr>req_method = take method_end line, req_path = path,
                                   req_query_string = query,
                                   req_http_version = substr line (protocol_end + 1) (length line - protocol_end - 2),
                                   req_header = flds\<rparr>, rest')))))"

record response_message =
  resp_version :: string
  resp_status_code :: string
  resp_header :: multimap

text \<open>A version of fewer than five characters makes the length of its text wrap around to all of it.\<close>

definition response_parse :: "string \<Rightarrow> (response_message \<times> string) option" where
  "response_parse stream =
     (case get_line stream of
        None \<Rightarrow> None
      | Some (line, rest) \<Rightarrow>
          (case find_char CHR '' '' 0 line of
             None \<Rightarrow> None
           | Some version_end \<Rightarrow>
               if \<not> 5 < length line \<or> \<not> version_end + 1 < length line then None
               else
                 let (flds, rest') = header_parse rest
                 in Some (\<lparr>resp_version = (if version_end < 5 then drop 5 line else substr line 5 (version_end - 5)),
                      resp_status_code = substr line (version_end + 1) (length line - (version_end + 1) - 1),
                      resp_header = flds\<rparr>, rest')))"

section \<open>What is written is read back\<close>

definition header_text :: "multimap \<Rightarrow> string" where
  "header_text flds = concat (map (\<lambda>(name, val). name @ '': '' @ val @ [CR, LF]) flds)"

definition plain_field :: "string \<times> string \<Rightarrow> bool" where
  "plain_field f \<longleftrightarrow> CHR '':'' \<notin> set (fst f) \<and> LF \<notin> set (fst f) \<and> LF \<notin> set (snd f) \<and>
     (snd f \<noteq> [] \<longrightarrow> hd (snd f) \<noteq> CHR '' '')"

lemma while_until:
  "c \<notin> set a \<Longrightarrow> takeWhile (\<lambda>x. x \<noteq> c) (a @ c # b) = a" "c \<notin> set a \<Longrightarrow> dropWhile (\<lambda>x. x \<noteq> c) (a @ c # b) = c # b"
  by (induction a) auto

lemma get_line_append: "LF \<notin> set line \<Longrightarrow> get_line (line @ LF # rest) = Some (line, rest)"
  by (simp add: get_line_def while_until)

lemma find_char_0: "c \<notin> set a \<Longrightarrow> find_char c 0 (a @ c # b) = Some (length a)"
  by (simp add: find_char_def while_until)

lemma find_char_at: "c \<notin> set a \<Longrightarrow> pos = length p \<Longrightarrow> find_char c pos (p @ a @ c # b) = Some (length p + length a)"
  by (simp add: find_char_def while_until)

lemma header_parse_end: "header_parse (CR # LF # rest) = ([], rest)"
  using get_line_append [of "[CR]" rest]
  by (subst header_parse.simps) (simp add: find_char_def)

lemma header_parse_field:
  assumes "plain_field (name, val)" and "header_parse rest = (flds, rest')"
  shows "header_parse (name @ '': '' @ val @ CR # LF # rest) = ((name, val) # flds, rest')"
proof -
  let ?line = "name @ '': '' @ val @ [CR]"
  have line: "get_line (name @ '': '' @ val @ CR # LF # rest) = Some (?line, rest)"
    using get_line_append [of ?line rest] assms(1) by (simp add: plain_field_def)
  have colon: "find_char CHR '':'' 0 ?line = Some (length name)"
    using find_char_0 [of "CHR '':''" name] assms(1) by (simp add: plain_field_def)
  have "?line ! (length name + 2) \<noteq> CHR '' ''"
    using assms(1) by (cases val) (simp_all add: plain_field_def nth_append)
  then have start: "value_start ?line (length name + 1) = length name + 2"
    unfolding value_start.simps [of ?line "length name + 1"] value_start.simps [of ?line "length name + 1 + 1"]
    by (simp add: nth_append)
  show ?thesis
    unfolding header_parse.simps [of "name @ '': '' @ val @ CR # LF # rest"] line option.case prod.case colon start
    by (simp add: assms(2) substr_def Let_def)
qed

lemma header_parse_text:
  "\<forall>f \<in> set flds. plain_field f \<Longrightarrow> header_parse (header_text flds @ CR # LF # rest) = (flds, rest)"
proof (induction flds)
  case Nil
  then show ?case by (simp add: header_text_def header_parse_end)
next
  case (Cons f flds)
  then show ?case
    using header_parse_field [of "fst f" "snd f" "header_text flds @ CR # LF # rest" flds rest]
    by (cases f) (simp add: header_text_def)
qed

text \<open>A request line with a query string; the last question mark would start the query.\<close>

definition request_text :: "string \<Rightarrow> string \<Rightarrow> string option \<Rightarrow> string \<Rightarrow> multimap \<Rightarrow> string \<Rightarrow> string" where
  "request_text method path query version flds content =
     (method @ '' '') @ path @ (case query of None \<Rightarrow> [] | Some q \<Rightarrow> CHR ''?'' # q) @ '' HTTP/'' @ version @ [CR, LF] @
     header_text flds @ [CR, LF] @ content"

definition plain_target :: "string \<Rightarrow> bool" where
  "plain_target s \<longleftrightarrow> set s \<inter> {CHR '' '', CHR ''?'', LF} = {}"

lemma request_scan_skip:
  assumes "set a \<inter> {CHR '' '', CHR ''?''} = {}" and "i = length p"
  shows "request_scan (p @ a @ b) i q = request_scan (p @ a @ b) (length p + length a) q"
  using assms
proof (induction a arbitrary: p i)
  case (Cons c a)
  have "request_scan (p @ (c # a) @ b) i q = request_scan ((p @ [c]) @ a @ b) (i + 1) q"
    using Cons.prems by (subst request_scan.simps) (auto simp: nth_append)
  then show ?case using Cons.IH [of "i + 1" "p @ [c]"] Cons.prems by simp
qed simp

lemma request_scan_end: "i = length p \<Longrightarrow> request_scan (p @ CHR '' '' # b) i q = (q, Some (length p))"
  by (subst request_scan.simps) (simp add: nth_append)

lemma request_scan_query:
  "i = length p \<Longrightarrow> b \<noteq> [] \<Longrightarrow> request_scan (p @ CHR ''?'' # b) i q = request_scan (p @ CHR ''?'' # b) (length p + 1) (Some (length p + 1))"
  by (subst request_scan.simps) (simp add: nth_append)

lemma substr_mid: "pos = length p \<Longrightarrow> n = length a \<Longrightarrow> substr (p @ a @ b) pos n = a"
  by (simp add: substr_def)

lemma request_parse_text:
  assumes "plain_target method" and "plain_target path" and "\<forall>q. query = Some q \<longrightarrow> plain_target q"
    and "LF \<notin> set version" and "\<forall>f \<in> set flds. plain_field f"
  shows "request_parse (request_text method path query version flds content) =
    Some (\<lparr>req_method = method, req_path = path, req_query_string = (case query of None \<Rightarrow> [] | Some q \<Rightarrow> q),
      req_http_version = version, req_header = flds\<rparr>, content)"
proof -
  let ?t = "case query of None \<Rightarrow> [] | Some q \<Rightarrow> CHR ''?'' # q"
  let ?head = "method @ '' '' @ path @ ?t"
  let ?line = "?head @ '' HTTP/'' @ version @ [CR]"
  let ?rest = "header_text flds @ CR # LF # content"
  have "LF \<notin> set ?line"
    using assms(1-4) by (auto simp: plain_target_def split: option.splits)
  from get_line_append [OF this, of ?rest]
  have line: "get_line (request_text method path query version flds content) = Some (?line, ?rest)"
    by (simp add: request_text_def)
  have method_end: "find_char CHR '' '' 0 ?line = Some (length method)"
    using find_char_0 [of "CHR '' ''" "method"] assms(1) by (simp add: plain_target_def)
  have scan: "request_scan ?line (length method + 1) None =
    ((case query of None \<Rightarrow> None | Some q \<Rightarrow> Some (length method + length path + 2)), Some (length ?head))"
  proof (cases query)
    case None
    then show ?thesis
      using request_scan_skip [of path "length method + 1" "method @ '' ''" "'' HTTP/'' @ version @ [CR]" None]
        request_scan_end [of "length method + 1 + length path" "method @ '' '' @ path" "''HTTP/'' @ version @ [CR]" None]
        assms(2) by (simp add: plain_target_def)
  next
    case (Some q)
    then show ?thesis
      using request_scan_skip [of path "length method + 1" "method @ '' ''" "CHR ''?'' # q @ '' HTTP/'' @ version @ [CR]" None]
        request_scan_query [of "length method + 1 + length path" "method @ '' '' @ path" "q @ '' HTTP/'' @ version @ [CR]" None]
        request_scan_skip [of q "length method + length path + 2" "method @ '' '' @ path @ ''?''" "'' HTTP/'' @ version @ [CR]"
          "Some (length method + length path + 2)"]
        request_scan_end [of "length method + length path + 2 + length q" "method @ '' '' @ path @ ''?'' @ q" "''HTTP/'' @ version @ [CR]"
          "Some (length method + length path + 2)"]
        assms(2,3) by (simp add: plain_target_def)
  qed
  have slash: "find_char CHR ''/'' (length ?head + 1) ?line = Some (length ?head + 5)"
    using find_char_at [of "CHR ''/''" "''HTTP''" "length ?head + 1" "?head @ '' ''" "version @ [CR]"] by simp
  have headers: "header_parse ?rest = (flds, content)"
    by (rule header_parse_text [OF assms(5)])
  have protocol: "substr ?line (length ?head + 1) (length ?head + 5 - length ?head - 1) = ''HTTP''"
    using substr_mid [of "length ?head + 1" "?head @ '' ''" 4 "''HTTP''" "CHR ''/'' # version @ [CR]"] by simp
  have version: "substr ?line (length ?head + 5 + 1) (length ?line - (length ?head + 5) - 2) = version"
    using substr_mid [of "length ?head + 6" "?head @ '' HTTP/''" "length version" version "[CR]"] by simp
  have target: "substr ?line (length method + 1) (length path) = path"
    using substr_mid [of "length method + 1" "method @ '' ''" "length path" path "?t @ '' HTTP/'' @ version @ [CR]"] by simp
  have query: "query = Some q \<Longrightarrow> substr ?line (length method + length path + 2) (length q) = q" for q
    using substr_mid [of "length method + length path + 2" "method @ '' '' @ path @ ''?''" "length q" q "'' HTTP/'' @ version @ [CR]"]
    by simp
  have "request_parse (request_text method path query version flds content) =
      (let (p, q) = (case query of
            Some q \<Rightarrow> (substr ?line (length method + 1) (length path), substr ?line (length method + length path + 2) (length q))
          | None \<Rightarrow> (substr ?line (length method + 1) (length path), []))
       in Some (\<lparr>req_method = take (length method) ?line, req_path = p, req_query_string = q,
            req_http_version = substr ?line (length ?head + 5 + 1) (length ?line - (length ?head + 5) - 2),
            req_header = flds\<rparr>, content))"
    unfolding request_parse_def line option.case prod.case method_end scan slash protocol headers
    by (cases query) (simp_all del: append_assoc)
  then show ?thesis
    unfolding target version using query by (cases query) simp_all
qed
section \<open>The contract of a message format\<close>

text \<open>
  A format of messages with a content behind them: what is written of a message is read back as what
  the format shows of it, and the content is left in the stream.
\<close>

locale http_message =
  fixes parse :: "string \<Rightarrow> ('m \<times> string) option"
    and text_of :: "'a \<Rightarrow> string \<Rightarrow> string"
    and shown :: "'a \<Rightarrow> string \<Rightarrow> 'm"
    and wf :: "'a \<Rightarrow> bool"
  assumes reads_back: "wf a \<Longrightarrow> parse (text_of a content) = Some (shown a content, content)"
    and no_message: "parse [] = None"
begin

text \<open>A text determines the content and what is shown of the message: none passes for another.\<close>

lemma determined: "wf a \<Longrightarrow> wf b \<Longrightarrow> text_of a content = text_of b content' \<Longrightarrow>
    shown a content = shown b content' \<and> content = content'"
  by (metis Pair_inject option.inject reads_back)

lemma not_empty:
  assumes "wf a"
  shows "text_of a content \<noteq> []"
proof
  assume "text_of a content = []"
  with reads_back [OF assms, of content] have "parse [] = Some (shown a content, content)" by simp
  with no_message show False by simp
qed

text \<open>Messages without a content that follow each other on a connection are read one after the other.\<close>

lemma pipelined: "wf a \<Longrightarrow> wf b \<Longrightarrow>
    \<exists>rest. parse (text_of a (text_of b content)) = Some (shown a (text_of b content), rest) \<and>
      parse rest = Some (shown b content, content)"
  by (simp add: reads_back)

end

definition request_write :: "request \<Rightarrow> string \<Rightarrow> string" where
  "request_write req content = request_text (req_method req) (req_path req)
     (if req_query_string req = [] then None else Some (req_query_string req)) (req_http_version req) (req_header req) content"

definition request_wf :: "request \<Rightarrow> bool" where
  "request_wf req \<longleftrightarrow> plain_target (req_method req) \<and> plain_target (req_path req) \<and> plain_target (req_query_string req) \<and>
     LF \<notin> set (req_http_version req) \<and> (\<forall>f \<in> set (req_header req). plain_field f)"

interpretation request_message: http_message request_parse request_write "\<lambda>req content. req" request_wf
proof
  fix req :: request and content assume wf: "request_wf req"
  obtain m p q v h where req: "req = \<lparr>req_method = m, req_path = p, req_query_string = q, req_http_version = v, req_header = h\<rparr>"
    by (cases req)
  from wf have "\<forall>r. (if q = [] then None else Some q) = Some r \<longrightarrow> plain_target r"
    by (simp add: req request_wf_def)
  with request_parse_text [of m p "if q = [] then None else Some q" v h content] wf
  show "request_parse (request_write req content) = Some (req, content)"
    by (cases "q = []") (simp_all add: req request_wf_def request_write_def)
qed (simp add: request_parse_def get_line_def)

end
