(* ===== verification/WebStatus.thy ===== *)
theory WebStatus
  imports WebText NanoUtil
begin

text \<open>
  Status codes (\<open>webserver/status_code.hpp\<close>) and the text of a response
  (\<open>webserver/server_http.hpp\<close>): the status line, the header fields with the length of the content,
  and the content. A status code is the value its name has in the enumeration.
\<close>

section \<open>Status codes\<close>

type_synonym StatusCode = nat

definition status_codes :: "(string \<times> StatusCode) list" where
  "status_codes = [
     (''unknown'', 0),
     (''information_continue'', 100),
     (''information_switching_protocols'', 101),
     (''information_processing'', 102),
     (''success_ok'', 200),
     (''success_created'', 201),
     (''success_accepted'', 202),
     (''success_non_authoritative_information'', 203),
     (''success_no_content'', 204),
     (''success_reset_content'', 205),
     (''success_partial_content'', 206),
     (''success_multi_status'', 207),
     (''success_already_reported'', 208),
     (''success_im_used'', 226),
     (''redirection_multiple_choices'', 300),
     (''redirection_moved_permanently'', 301),
     (''redirection_found'', 302),
     (''redirection_see_other'', 303),
     (''redirection_not_modified'', 304),
     (''redirection_use_proxy'', 305),
     (''redirection_switch_proxy'', 306),
     (''redirection_temporary_redirect'', 307),
     (''redirection_permanent_redirect'', 308),
     (''client_error_bad_request'', 400),
     (''client_error_unauthorized'', 401),
     (''client_error_payment_required'', 402),
     (''client_error_forbidden'', 403),
     (''client_error_not_found'', 404),
     (''client_error_method_not_allowed'', 405),
     (''client_error_not_acceptable'', 406),
     (''client_error_proxy_authentication_required'', 407),
     (''client_error_request_timeout'', 408),
     (''client_error_conflict'', 409),
     (''client_error_gone'', 410),
     (''client_error_length_required'', 411),
     (''client_error_precondition_failed'', 412),
     (''client_error_payload_too_large'', 413),
     (''client_error_uri_too_long'', 414),
     (''client_error_unsupported_media_type'', 415),
     (''client_error_range_not_satisfiable'', 416),
     (''client_error_expectation_failed'', 417),
     (''client_error_im_a_teapot'', 418),
     (''client_error_misdirection_required'', 421),
     (''client_error_unprocessable_entity'', 422),
     (''client_error_locked'', 423),
     (''client_error_failed_dependency'', 424),
     (''client_error_upgrade_required'', 426),
     (''client_error_precondition_required'', 428),
     (''client_error_too_many_requests'', 429),
     (''client_error_request_header_fields_too_large'', 431),
     (''client_error_unavailable_for_legal_reasons'', 451),
     (''server_error_internal_server_error'', 500),
     (''server_error_not_implemented'', 501),
     (''server_error_bad_gateway'', 502),
     (''server_error_service_unavailable'', 503),
     (''server_error_gateway_timeout'', 504),
     (''server_error_http_version_not_supported'', 505),
     (''server_error_variant_also_negotiates'', 506),
     (''server_error_insufficient_storage'', 507),
     (''server_error_loop_detected'', 508),
     (''server_error_not_extended'', 510),
     (''server_error_network_authentication_required'', 511)]"

definition status_code_of :: "string \<Rightarrow> StatusCode" where
  "status_code_of name = (case map_of status_codes name of None \<Rightarrow> 0 | Some c \<Rightarrow> c)"

definition success_ok :: StatusCode where "success_ok = 200"
definition client_error_bad_request :: StatusCode where "client_error_bad_request = 400"

text \<open>The map from codes to texts, in the order of its keys.\<close>

definition status_code_strings :: "(StatusCode \<times> string) list" where
  "status_code_strings = [
     (0, ''''),
     (100, ''100 Continue''),
     (101, ''101 Switching Protocols''),
     (102, ''102 Processing''),
     (200, ''200 OK''),
     (201, ''201 Created''),
     (202, ''202 Accepted''),
     (203, ''203 Non-Authoritative Information''),
     (204, ''204 No Content''),
     (205, ''205 Reset Content''),
     (206, ''206 Partial Content''),
     (207, ''207 Multi-Status''),
     (208, ''208 Already Reported''),
     (226, ''226 IM Used''),
     (300, ''300 Multiple Choices''),
     (301, ''301 Moved Permanently''),
     (302, ''302 Found''),
     (303, ''303 See Other''),
     (304, ''304 Not Modified''),
     (305, ''305 Use Proxy''),
     (306, ''306 Switch Proxy''),
     (307, ''307 Temporary Redirect''),
     (308, ''308 Permanent Redirect''),
     (400, ''400 Bad Request''),
     (401, ''401 Unauthorized''),
     (402, ''402 Payment Required''),
     (403, ''403 Forbidden''),
     (404, ''404 Not Found''),
     (405, ''405 Method Not Allowed''),
     (406, ''406 Not Acceptable''),
     (407, ''407 Proxy Authentication Required''),
     (408, ''408 Request Timeout''),
     (409, ''409 Conflict''),
     (410, ''410 Gone''),
     (411, ''411 Length Required''),
     (412, ''412 Precondition Failed''),
     (413, ''413 Payload Too Large''),
     (414, ''414 URI Too Long''),
     (415, ''415 Unsupported Media Type''),
     (416, ''416 Range Not Satisfiable''),
     (417, ''417 Expectation Failed''),
     (418, ''418 I'' @ [CHR 0x27] @ ''m a teapot''),
     (421, ''421 Misdirected Request''),
     (422, ''422 Unprocessable Entity''),
     (423, ''423 Locked''),
     (424, ''424 Failed Dependency''),
     (426, ''426 Upgrade Required''),
     (428, ''428 Precondition Required''),
     (429, ''429 Too Many Requests''),
     (431, ''431 Request Header Fields Too Large''),
     (451, ''451 Unavailable For Legal Reasons''),
     (500, ''500 Internal Server Error''),
     (501, ''501 Not Implemented''),
     (502, ''502 Bad Gateway''),
     (503, ''503 Service Unavailable''),
     (504, ''504 Gateway Timeout''),
     (505, ''505 HTTP Version Not Supported''),
     (506, ''506 Variant Also Negotiates''),
     (507, ''507 Insufficient Storage''),
     (508, ''508 Loop Detected''),
     (510, ''510 Not Extended''),
     (511, ''511 Network Authentication Required'')]"

text \<open>\<open>status_code\<close> in both directions: no code has the value zero and no text is the empty one.\<close>

definition status_code_text :: "StatusCode \<Rightarrow> string" where
  "status_code_text status_code_enum =
     (case map_of status_code_strings status_code_enum of None \<Rightarrow> [] | Some s \<Rightarrow> s)"

definition status_code_parse :: "string \<Rightarrow> StatusCode" where
  "status_code_parse status_code_string =
     (case map_of (map prod.swap status_code_strings) status_code_string of None \<Rightarrow> 0 | Some c \<Rightarrow> c)"

text \<open>A text starts with the digits of its code, so that no two codes share one.\<close>

definition leading_code :: "string \<Rightarrow> nat" where
  "leading_code s = (if s = [] then 0 else foldl (\<lambda>n c. 10 * n + (WebText.code c - 48)) 0 (take 3 s))"

lemma status_codes_checked:
  "successively (<) (map fst status_code_strings)" "map fst status_code_strings = map snd status_codes"
  "\<forall>(c, s) \<in> set status_code_strings. leading_code s = c"
  by code_simp+

lemma status_codes_distinct:
  "distinct (map fst status_code_strings)" "distinct (map snd status_code_strings)"
proof -
  show fst: "distinct (map fst status_code_strings)"
    using status_codes_checked(1) successively_conv_sorted_wrt [of "(<) :: nat \<Rightarrow> nat \<Rightarrow> bool"]
    by (simp add: strict_sorted_iff transp_on_less)
  have "inj_on snd (set status_code_strings)"
    using status_codes_checked(3) by (intro inj_onI) (metis (mono_tags, lifting) case_prod_beta prod.collapse)
  with fst show "distinct (map snd status_code_strings)"
    by (simp add: distinct_map)
qed

lemma status_code_parse_text:
  "(c, s) \<in> set status_code_strings \<Longrightarrow> status_code_text c = s \<and> status_code_parse s = c"
  using status_codes_distinct
  by (auto simp: status_code_text_def status_code_parse_def comp_def intro!: map_of_is_SomeI)

section \<open>Responses\<close>

text \<open>The header fields, in the order the multimap iterates over them, and the end of the header.\<close>

fun is_content_length :: "string \<times> string \<Rightarrow> bool" where
  "is_content_length (name, val) \<longleftrightarrow> case_insensitive_equal name ''content-length''"

fun is_chunked :: "string \<times> string \<Rightarrow> bool" where
  "is_chunked (name, val) \<longleftrightarrow>
     case_insensitive_equal name ''transfer-encoding'' \<and> case_insensitive_equal val ''chunked''"

definition write_header :: "bool \<Rightarrow> multimap \<Rightarrow> nat \<Rightarrow> string" where
  "write_header close_connection_after_response header content_size =
     concat (map (\<lambda>(name, val). name @ '': '' @ val @ [CR, LF]) header) @
     (if \<not> list_ex is_content_length header \<and> \<not> list_ex is_chunked header \<and> \<not> close_connection_after_response
      then ''Content-Length: '' @ dec_string content_size @ [CR, LF, CR, LF] else [CR, LF])"

definition write_response :: "StatusCode \<Rightarrow> string \<Rightarrow> multimap \<Rightarrow> string" where
  "write_response status_code content header =
     ''HTTP/1.1 '' @ status_code_text status_code @ [CR, LF] @ write_header False header (length content) @ content"

definition write_content :: "string \<Rightarrow> string" where
  "write_content content = write_response success_ok content []"

section \<open>A response is read back\<close>

definition status_line_ok :: "StatusCode \<Rightarrow> bool" where
  "status_line_ok c \<longleftrightarrow> (\<exists>s. (c, s) \<in> set status_code_strings) \<and> c \<noteq> 0"

lemma status_texts_plain:
  "\<forall>(c, s) \<in> set status_code_strings. LF \<notin> set s \<and> (c \<noteq> 0 \<longrightarrow> s \<noteq> [])"
  by code_simp

lemma dec_string_digits: "set (dec_string n) \<subseteq> set ''0123456789''"
proof (induction n rule: dec_string.induct)
  case (1 n)
  have digit: "dec_digit k \<in> set ''0123456789''" if "k < 10" for k
  proof -
    have "\<forall>k \<in> {0..<10}. dec_digit k \<in> set ''0123456789''" by code_simp
    with that show ?thesis by auto
  qed
  have "n mod 10 < 10" by simp
  with 1 digit [of "n mod 10"] digit [of n] show ?case
    by (subst dec_string.simps) (cases "n < 10", auto)
qed

lemma content_length_field: "plain_field (''Content-Length'', dec_string n)"
  using dec_string_digits [of n]
  by (cases "dec_string n") (auto simp: plain_field_def)

lemma write_header_text:
  "write_header False header n = header_text (header @
     (if \<not> list_ex is_content_length header \<and> \<not> list_ex is_chunked header then [(''Content-Length'', dec_string n)] else [])) @ [CR, LF]"
  by (simp add: write_header_def header_text_def)

lemma response_parse_text:
  assumes "status_line_ok c" and "\<forall>f \<in> set header. plain_field f"
  shows "response_parse (write_response c content header) =
    Some (\<lparr>resp_version = ''1.1'', resp_status_code = status_code_text c,
      resp_header = header @ (if \<not> list_ex is_content_length header \<and> \<not> list_ex is_chunked header
        then [(''Content-Length'', dec_string (length content))] else [])\<rparr>, content)"
proof -
  let ?h = "header @ (if \<not> list_ex is_content_length header \<and> \<not> list_ex is_chunked header
    then [(''Content-Length'', dec_string (length content))] else [])"
  let ?line = "''HTTP/1.1 '' @ status_code_text c @ [CR]"
  obtain s where s: "(c, s) \<in> set status_code_strings" "c \<noteq> 0" using assms(1) by (auto simp: status_line_ok_def)
  then have status: "status_code_text c = s" "LF \<notin> set s" "s \<noteq> []"
    using status_code_parse_text status_texts_plain by auto
  have plain: "\<forall>f \<in> set ?h. plain_field f" using assms(2) content_length_field by auto
  have response: "write_response c content header = ?line @ LF # header_text ?h @ CR # LF # content"
    by (simp add: write_response_def write_header_text)
  have line: "get_line (?line @ LF # header_text ?h @ CR # LF # content) = Some (?line, header_text ?h @ CR # LF # content)"
    by (rule get_line_append) (use status in simp)
  have space: "find_char CHR '' '' 0 ?line = Some 8"
    by (simp add: find_char_def)
  have version: "substr ?line 5 (8 - 5) = ''1.1''" by (simp add: substr_def)
  have code: "substr ?line (8 + 1) (length ?line - (8 + 1) - 1) = status_code_text c"
    by (simp add: substr_def)
  have long: "5 < length ?line" "8 + 1 < length ?line" by simp_all
  show ?thesis
    unfolding response response_parse_def line option.case prod.case space header_parse_text [OF plain] version code Let_def
    using long by simp
qed

lemma status_line_parse: "status_line_ok c \<Longrightarrow> status_code_parse (status_code_text c) = c"
  unfolding status_line_ok_def by (metis status_code_parse_text)

definition response_wf :: "StatusCode \<times> multimap \<Rightarrow> bool" where
  "response_wf r \<longleftrightarrow> status_line_ok (fst r) \<and> (\<forall>f \<in> set (snd r). plain_field f)"

definition response_shown :: "StatusCode \<times> multimap \<Rightarrow> string \<Rightarrow> response_message" where
  "response_shown r content = \<lparr>resp_version = ''1.1'', resp_status_code = status_code_text (fst r),
     resp_header = snd r @ (if \<not> list_ex is_content_length (snd r) \<and> \<not> list_ex is_chunked (snd r)
       then [(''Content-Length'', dec_string (length content))] else [])\<rparr>"

interpretation response_text: http_message response_parse "\<lambda>r content. write_response (fst r) content (snd r)"
    response_shown response_wf
proof
  fix r :: "StatusCode \<times> multimap" and content assume "response_wf r"
  then show "response_parse (write_response (fst r) content (snd r)) = Some (response_shown r content, content)"
    using response_parse_text [of "fst r" "snd r" content] by (simp add: response_wf_def response_shown_def)
qed (simp add: response_parse_def get_line_def)

text \<open>
  Every response the server writes is read back by the parser of responses: the version, the status
  text, the header fields followed by the length of the content where the fields do not give one,
  and behind the header the content, which has that length. Responses with different codes or
  different contents have different texts.
\<close>

theorem response_reads_back:
  assumes "status_line_ok c" and "\<forall>f \<in> set header. plain_field f"
  shows "response_parse (write_response c content header) =
    Some (\<lparr>resp_version = ''1.1'', resp_status_code = status_code_text c,
      resp_header = header @ (if \<not> list_ex is_content_length header \<and> \<not> list_ex is_chunked header
        then [(''Content-Length'', dec_string (length content))] else [])\<rparr>, content) \<and>
    (\<forall>c' content' header'. status_line_ok c' \<and> (\<forall>f \<in> set header'. plain_field f) \<and>
       write_response c content header = write_response c' content' header' \<longrightarrow> c = c' \<and> content = content')"
proof (intro conjI allI impI)
  have wf: "response_wf (c, header)" using assms by (simp add: response_wf_def)
  then show "response_parse (write_response c content header) =
    Some (\<lparr>resp_version = ''1.1'', resp_status_code = status_code_text c,
      resp_header = header @ (if \<not> list_ex is_content_length header \<and> \<not> list_ex is_chunked header
        then [(''Content-Length'', dec_string (length content))] else [])\<rparr>, content)"
    using response_text.reads_back [of "(c, header)" content] by (simp add: response_shown_def)
  fix c' content' header'
  assume other: "status_line_ok c' \<and> (\<forall>f \<in> set header'. plain_field f) \<and>
    write_response c content header = write_response c' content' header'"
  then have c': "status_line_ok c'" and wf': "response_wf (c', header')" and
      eq: "write_response (fst (c, header)) content (snd (c, header)) = write_response (fst (c', header')) content' (snd (c', header'))"
    by (simp_all add: response_wf_def)
  from response_text.determined [OF wf wf' eq]
  have shown: "response_shown (c, header) content = response_shown (c', header') content'" and "content = content'"
    by blast+
  from arg_cong [OF shown, of resp_status_code] have "status_code_text c = status_code_text c'"
    by (simp only: response_shown_def response_message.select_convs fst_conv)
  then have "status_code_parse (status_code_text c) = status_code_parse (status_code_text c')" by (rule arg_cong)
  then show "c = c'" by (simp only: status_line_parse [OF assms(1)] status_line_parse [OF c'])
  show "content = content'" by fact
qed

theorem response_reads_back_witness:
  "response_parse (write_response 200 ''{}'' [(''Content-Type'', ''text/html'')]) =
     Some (\<lparr>resp_version = ''1.1'', resp_status_code = ''200 OK'',
       resp_header = [(''Content-Type'', ''text/html''), (''Content-Length'', ''2'')]\<rparr>, ''{}'')"
proof -
  have "status_line_ok 200" unfolding status_line_ok_def status_code_strings_def by simp
  moreover have "\<forall>f \<in> set [(''Content-Type'', ''text/html'')]. plain_field f" by (simp add: plain_field_def)
  ultimately have "response_parse (write_response 200 ''{}'' [(''Content-Type'', ''text/html'')]) =
    Some (\<lparr>resp_version = ''1.1'', resp_status_code = status_code_text 200,
      resp_header = [(''Content-Type'', ''text/html'')] @
        (if \<not> list_ex is_content_length [(''Content-Type'', ''text/html'')] \<and> \<not> list_ex is_chunked [(''Content-Type'', ''text/html'')]
         then [(''Content-Length'', dec_string (length ''{}''))] else [])\<rparr>, ''{}'')"
    by (rule response_reads_back [THEN conjunct1])
  moreover have "\<not> list_ex is_content_length [(''Content-Type'', ''text/html'')]"
    "\<not> list_ex is_chunked [(''Content-Type'', ''text/html'')]"
    "dec_string (length ''{}'') = ''2''" "status_code_text 200 = ''200 OK''" by code_simp+
  ultimately show ?thesis by simp
qed

end
