(* ===== verification/WebServer.thy ===== *)
theory WebServer
  imports Capturing DbQuery WebStatus
begin

text \<open>
  The web server of the application (\<open>webserver.cpp\<close>, and of \<open>webserver/server_http.hpp\<close> the choice
  of a resource, the call of its function and the end of the session). A handler is an action on the
  application that gives the text it wrote to the response; the handler that lists the schema has the
  value none when its loop does not end. Sockets, and requests with a content, are not modelled.
  Parameters are the file system (\<open>fs_library\<close>, after \<open>boost::filesystem\<close>) and what the multimap
  of the standard library leaves open: the order of an iteration, and which of several equal keys
  \<open>find\<close> gives.
\<close>

record fs_library =
  fs_root :: "string list"
  fs_components :: "string \<Rightarrow> string list"
  fs_append :: "string list \<Rightarrow> string \<Rightarrow> string list"
  fs_exists :: "string list \<Rightarrow> bool"
  fs_is_directory :: "string list \<Rightarrow> bool"
  fs_read :: "string list \<Rightarrow> string option"
  fs_extension :: "string list \<Rightarrow> string"
  fs_string :: "string list \<Rightarrow> string"

record ('p, 'r, 'j) app_environment =
  ae_env :: environment
  ae_pcap :: "('p, 'r) pcap_library"
  ae_json :: "'j json_library"
  ae_reader :: sqlite_reader
  ae_tables :: "sql_history \<Rightarrow> table list"
  ae_fs :: fs_library
  ae_iterate :: "multimap \<Rightarrow> multimap"
  ae_pick :: "string list \<Rightarrow> string"

definition VERSION :: string where "VERSION = ''2.0''"

definition server_port :: "config \<Rightarrow> u16" where
  "server_port conf = word_of_int (web_port (config_web conf))"

definition server_host :: "config \<Rightarrow> string" where
  "server_host conf = (if web_bind (config_web conf) = ''0.0.0.0'' then ''localhost'' else web_bind (config_web conf))"

definition get_static_url :: "config \<Rightarrow> string" where
  "get_static_url conf = ''http://'' @ server_host conf @ '':'' @ dec_string (unat (server_port conf))"

definition get_api_url :: "config \<Rightarrow> string" where
  "get_api_url conf = ''http://'' @ server_host conf @ '':'' @ dec_string (unat (server_port conf)) @ ''/api/v1''"

section \<open>Handlers\<close>

definition on_app_db :: "(db, 'a) act \<Rightarrow> (('p, 'r) app, 'a) act" where
  "on_app_db m = act_zoom app_ph app_ph_update (act_zoom ph_db ph_db_update m)"

definition act_sum :: "failure + 'a \<Rightarrow> ('s, 'a) act" where
  "act_sum r s = (r, s)"

definition status_json :: "'j json_library \<Rightarrow> ('p, 'r) app \<Rightarrow> 'j" where
  "status_json J s = foldl (\<lambda>j (k, v). json_assign J j k v) (json_null J)
     [(''capturing'', json_boolean J (app_capturing s)),
      (''importing'', json_boolean J (app_importing s)),
      (''max_db_size_reached'', json_boolean J (db_max_reached (ph_db (app_ph s)))),
      (''version'', json_string J VERSION),
      (''packet_queue_size'', json_integer J (int (packet_queue_size s))),
      (''packet_parse_error_count'', json_integer J (ph_packet_parse_error_count (app_ph s)))]"

definition web_status :: "('p, 'r, 'j) app_environment \<Rightarrow> (('p, 'r) app, string) act" where
  "web_status V =
     act_bind (act_get (status_json (ae_json V))) (\<lambda>status.
     act_bind (act_sum (json_dump (ae_json V) 4 status)) (\<lambda>text. act_return (write_content text)))"

text \<open>\<open>params.find\<close>: the values of the keys that are equal but for case.\<close>

definition param_values :: "string \<Rightarrow> multimap \<Rightarrow> string list" where
  "param_values key flds = map snd (filter (\<lambda>(name, val). case_insensitive_equal name key) flds)"

text \<open>The text of the source has the escape \<open>\e\<close>, which is the character 27.\<close>

definition missing_query :: string where
  "missing_query = CHR ''{'' # CHR 0x1B # ''rror'' @ [CHR 0x22] @ '': '' @ [CHR 0x22] @ ''Missing query'' @ [CHR 0x22] @ ''}''"

definition web_query :: "('p, 'r, 'j) app_environment \<Rightarrow> request \<Rightarrow> (('p, 'r) app, string) act" where
  "web_query V request =
     (let vals = param_values ''query'' (query_parse (req_query_string request))
      in if vals \<noteq> [] then
           act_bind (act_get (\<lambda>s. web_max_query_result (config_web (app_config s)))) (\<lambda>max_query_result.
           act_bind (on_app_db (db_query (ae_reader V) (ae_json V) max_query_result (ae_pick V vals))) (\<lambda>res.
           act_bind (act_sum (json_dump (ae_json V) 4 res)) (\<lambda>text. act_return (write_content text))))
         else act_return (write_content missing_query))"

definition web_start :: "('p, 'r, 'j) app_environment \<Rightarrow> (('p, 'r) app, string) act" where
  "web_start V = act_bind (start_capture (ae_env V) (ae_pcap V)) (\<lambda>_. act_return (write_content ''{}''))"

definition web_stop :: "('p, 'r, 'j) app_environment \<Rightarrow> (('p, 'r) app, string) act" where
  "web_stop V = act_bind stop_capture (\<lambda>_. act_return (write_content ''{}''))"

definition import_in_progress :: string where
  "import_in_progress = ''{'' @ [CHR 0x22] @ ''error'' @ [CHR 0x22] @ '': '' @ [CHR 0x22] @ ''Import in progress'' @ [CHR 0x22] @ ''}''"

definition web_toggle :: "('p, 'r, 'j) app_environment \<Rightarrow> (('p, 'r) app, string) act" where
  "web_toggle V =
     act_bind (act_get app_importing) (\<lambda>importing.
       if importing then act_return (write_content import_in_progress)
       else act_bind (act_get app_capturing) (\<lambda>capturing.
         act_bind (if capturing then stop_capture else start_capture (ae_env V) (ae_pcap V)) (\<lambda>_.
         act_return (write_content ''{}''))))"

definition web_destroy :: "('p, 'r, 'j) app_environment \<Rightarrow> (('p, 'r) app, string) act" where
  "web_destroy V =
     act_bind (act_get app_capturing) (\<lambda>is_capturing.
     act_bind (act_when is_capturing stop_capture) (\<lambda>_.
     act_bind (on_app_db (\<lambda>d. destroy_capture_data (ae_env V) (ae_tables V (db_history d)) d)) (\<lambda>_.
     act_bind (act_when is_capturing (start_capture (ae_env V) (ae_pcap V))) (\<lambda>_.
     act_return (write_content ''{}'')))))"

definition web_count :: "('p, 'r, 'j) app_environment \<Rightarrow> (('p, 'r) app, string) act" where
  "web_count V =
     (let J = ae_json V
      in act_bind (on_app_db (count_packets (ae_reader V))) (\<lambda>n.
         act_bind (act_sum (json_dump J 4 (json_assign J (json_null J) ''count'' (json_integer J n)))) (\<lambda>text.
         act_return (write_content text))))"

definition web_count_per_type :: "('p, 'r, 'j) app_environment \<Rightarrow> (('p, 'r) app, string) act" where
  "web_count_per_type V =
     act_bind (on_app_db (count_packets_per_type (ae_reader V) (ae_json V))) (\<lambda>text. act_return (write_content text))"

definition web_schema :: "('p, 'r, 'j) app_environment \<Rightarrow> ('p, 'r) app \<Rightarrow> ((failure + string) \<times> ('p, 'r) app) option" where
  "web_schema V s =
     map_option (\<lambda>(r, d). (map_sum id write_content r, s\<lparr>app_ph := (app_ph s)\<lparr>ph_db := d\<rparr>\<rparr>))
       (get_schema_json (ae_reader V) (ae_json V) (ph_db (app_ph s)))"

section \<open>Static files\<close>

text \<open>
  \<open>read_and_send\<close>: the texts of the successive sends. The response's buffer goes out with every full
  block; what is left in it goes out when the response is destroyed.
\<close>

definition BLOCK :: nat where "BLOCK = 131072"

function read_and_send :: "string \<Rightarrow> string \<Rightarrow> string list" where
  "read_and_send buffer ifs =
     (let block = take BLOCK ifs
      in if block = [] then [buffer]
         else if length block = BLOCK then (buffer @ block) # read_and_send [] (drop BLOCK ifs)
         else [buffer @ block])"
  by pat_completeness auto
termination
  by (relation "measure (\<lambda>(buffer, ifs). length ifs)") (auto simp: BLOCK_def)

declare read_and_send.simps [simp del]

definition content_type :: "string \<Rightarrow> multimap" where
  "content_type extension =
     (if extension = ''.html'' then [(''Content-Type'', ''text/html'')]
      else if extension = ''.css'' then [(''Content-Type'', ''text/css'')]
      else if extension = ''.js'' then [(''Content-Type'', ''application/javascript'')]
      else if extension = ''.png'' then [(''Content-Type'', ''image/png'')]
      else [])"

definition could_not_open :: "fs_library \<Rightarrow> string list \<Rightarrow> string \<Rightarrow> string list" where
  "could_not_open F path what = [write_response client_error_bad_request
     (''Could not open path '' @ fs_string F path @ '': '' @ what) []]"

definition web_static :: "('p, 'r, 'j) app_environment \<Rightarrow> request \<Rightarrow> string list" where
  "web_static V request =
     (let F = ae_fs V; web_root_path = fs_root F;
          path = fs_append F web_root_path (req_path request);
          path = (if \<not> fs_exists F path then web_root_path else path)
      in if length web_root_path > length path \<or> take (length web_root_path) path \<noteq> web_root_path
         then could_not_open F path ''path must be within root path''
         else
           let path = (if fs_is_directory F path then fs_append F path ''index.html'' else path)
           in (case fs_read F path of
                 Some content \<Rightarrow>
                   read_and_send (write_response success_ok []
                     (ae_iterate V (content_type (fs_extension F path) @ [(''Content-Length'', dec_string (length content))]))) content
               | None \<Rightarrow> could_not_open F path ''Could not read file''))"

section \<open>Requests\<close>

datatype web_resource =
    CaptureDestroy
  | CaptureQuery
  | CaptureStart
  | CaptureStop
  | CaptureToggle
  | CountPacket
  | CountPerType
  | Schema
  | Status
  | Default

text \<open>The resources, in the order of the map by the texts of their expressions; all are of the method GET.\<close>

definition resources :: "(string \<times> string \<times> web_resource) list" where
  "resources =
     [(''^/api/v1/capture/destroy$'', ''GET'', CaptureDestroy),
      (''^/api/v1/capture/query$'', ''GET'', CaptureQuery),
      (''^/api/v1/capture/start$'', ''GET'', CaptureStart),
      (''^/api/v1/capture/stop$'', ''GET'', CaptureStop),
      (''^/api/v1/capture/toggle$'', ''GET'', CaptureToggle),
      (''^/api/v1/count/packet$'', ''GET'', CountPacket),
      (''^/api/v1/count/per-type$'', ''GET'', CountPerType),
      (''^/api/v1/schema$'', ''GET'', Schema),
      (''^/api/v1/status$'', ''GET'', Status)]"

text \<open>\<open>std::regex_match\<close> with an expression of plain characters between \<open>^\<close> and \<open>$\<close>.\<close>

definition regex_match :: "string \<Rightarrow> string \<Rightarrow> bool" where
  "regex_match path regex \<longleftrightarrow> regex = CHR ''^'' # path @ ''$''"

definition find_resource :: "request \<Rightarrow> web_resource option" where
  "find_resource request =
     (case find (\<lambda>(regex, method, r). method = req_method request \<and> regex_match (req_path request) regex) resources of
        Some (regex, method, r) \<Rightarrow> Some r
      | None \<Rightarrow> if req_method request = ''GET'' then Some Default else None)"

definition resource_function :: "('p, 'r, 'j) app_environment \<Rightarrow> web_resource \<Rightarrow> request \<Rightarrow> ('p, 'r) app \<Rightarrow>
    ((failure + string) \<times> ('p, 'r) app) option" where
  "resource_function V r request s =
     (case r of
        CaptureDestroy \<Rightarrow> Some (web_destroy V s)
      | CaptureQuery \<Rightarrow> Some (web_query V request s)
      | CaptureStart \<Rightarrow> Some (web_start V s)
      | CaptureStop \<Rightarrow> Some (web_stop V s)
      | CaptureToggle \<Rightarrow> Some (web_toggle V s)
      | CountPacket \<Rightarrow> Some (web_count V s)
      | CountPerType \<Rightarrow> Some (web_count_per_type V s)
      | Schema \<Rightarrow> web_schema V s
      | Status \<Rightarrow> Some (web_status V s)
      | Default \<Rightarrow> Some (Inr (concat (web_static V request)), s))"

text \<open>What is a \<open>std::exception\<close>: the call of a resource function catches it, and writes nothing.\<close>

fun is_std_exception :: "failure \<Rightarrow> bool" where
  "is_std_exception (ProcessExit _) = False"
| "is_std_exception Undefined = False"
| "is_std_exception _ = True"

text \<open>
  \<open>find_resource\<close> and \<open>write\<close>: no text when there is no resource, for which nothing is sent.
  What a handler throws is caught, and nothing is sent either.
\<close>

definition answer_request :: "('p, 'r, 'j) app_environment \<Rightarrow> request \<Rightarrow> ('p, 'r) app \<Rightarrow>
    ((failure + string option) \<times> ('p, 'r) app) option" where
  "answer_request V request s =
     (case find_resource request of
        None \<Rightarrow> Some (Inr None, s)
      | Some r \<Rightarrow>
          map_option (\<lambda>(res, s'). (case res of
                Inl e \<Rightarrow> if is_std_exception e then Inr (Some []) else Inl e
              | Inr body \<Rightarrow> Inr (Some body), s'))
            (resource_function V r request s))"

text \<open>A request by its text: what cannot be parsed is not answered.\<close>

definition serve :: "('p, 'r, 'j) app_environment \<Rightarrow> string \<Rightarrow> ('p, 'r) app \<Rightarrow>
    ((failure + string option) \<times> ('p, 'r) app) option" where
  "serve V input s =
     (case request_parse input of
        None \<Rightarrow> Some (Inr None, s)
      | Some (request, _) \<Rightarrow> answer_request V request s)"

text \<open>Whether the connection is read again after a response was sent.\<close>

fun string_le :: "string \<Rightarrow> string \<Rightarrow> bool" where
  "string_le [] t = True"
| "string_le (a # s) [] = False"
| "string_le (a # s) (b # t) = (code a < code b \<or> a = b \<and> string_le s t)"

fun connection_option :: "string list \<Rightarrow> bool option" where
  "connection_option [] = None"
| "connection_option (v # vs) =
     (if case_insensitive_equal v ''close'' then Some False
      else if case_insensitive_equal v ''keep-alive'' then Some True else connection_option vs)"

definition reads_again :: "(multimap \<Rightarrow> multimap) \<Rightarrow> request \<Rightarrow> bool" where
  "reads_again iterate request =
     (case connection_option (param_values ''Connection'' (iterate (req_header request))) of
        Some b \<Rightarrow> b
      | None \<Rightarrow> string_le ''1.1'' (req_http_version request))"

end
