(* ===== verification/WebSession.thy ===== *)
theory WebSession
  imports WebServer
begin

text \<open>
  A connection of the web server (\<open>webserver/server_http.hpp\<close>): reading the requests, with the content
  they announce, and answering one after the other. What a client sends is the list of the pieces
  that successive reads of the socket give; its end is the end of the stream. Timeouts, errors of
  the socket, and the limit on the size of a request, which nanocap leaves at the largest value of
  its type, are not modelled.
\<close>

section \<open>Numbers\<close>

fun digits_value :: "(char \<Rightarrow> nat option) \<Rightarrow> nat \<Rightarrow> nat \<Rightarrow> string \<Rightarrow> nat" where
  "digits_value digit base acc [] = acc"
| "digits_value digit base acc (c # s) =
     (case digit c of None \<Rightarrow> acc | Some d \<Rightarrow> digits_value digit base (base * acc + d) s)"

definition dec_value :: "char \<Rightarrow> nat option" where
  "dec_value c = (if 48 \<le> code c \<and> code c \<le> 57 then Some (code c - 48) else None)"

text \<open>
  \<open>std::stoull\<close> and \<open>std::stoul\<close>, which throw without a digit or past 64 bits: spaces, a sign, the
  prefix \<open>0x\<close> for base 16 and the longest run of digits. A minus sign negates modulo two to the 64.
\<close>

definition stoul :: "nat \<Rightarrow> string \<Rightarrow> nat option" where
  "stoul base s =
     (let digit = (if base = 16 then hex_value else dec_value);
          s1 = dropWhile isspace s;
          (neg, s2) = (case s1 of [] \<Rightarrow> (False, [])
            | c # r \<Rightarrow> if c = CHR ''-'' then (True, r) else if c = CHR ''+'' then (False, r) else (False, s1));
          s3 = (case s2 of a # b # c # r \<Rightarrow>
                  if base = 16 \<and> a = CHR ''0'' \<and> b \<in> {CHR ''x'', CHR ''X''} \<and> hex_value c \<noteq> None then c # r else s2
                | _ \<Rightarrow> s2);
          v = digits_value digit base 0 s3
      in if s3 = [] \<or> digit (hd s3) = None \<or> 2 ^ 64 \<le> v then None
         else Some (if neg then (2 ^ 64 - v) mod 2 ^ 64 else v))"

section \<open>Reads of the socket\<close>

fun find_text :: "string \<Rightarrow> string \<Rightarrow> nat option" where
  "find_text delim [] = None"
| "find_text delim (c # s) =
     (if take (length delim) (c # s) = delim then Some 0 else map_option Suc (find_text delim s))"

text \<open>
  \<open>asio::async_read_until\<close>: the number of bytes up to and with the delimiter, the buffer, which may
  have more, and the pieces not read yet; none at the end of the stream.
\<close>

fun read_until :: "string \<Rightarrow> string \<Rightarrow> string list \<Rightarrow> (nat \<times> string \<times> string list) option" where
  "read_until delim buf [] =
     (case find_text delim buf of None \<Rightarrow> None | Some i \<Rightarrow> Some (i + length delim, buf, []))"
| "read_until delim buf (seg # segs) =
     (case find_text delim buf of
        None \<Rightarrow> read_until delim (buf @ seg) segs
      | Some i \<Rightarrow> Some (i + length delim, buf, seg # segs))"

text \<open>\<open>asio::async_read\<close> with \<open>transfer_exactly\<close>, which reads no more than the bytes it is to.\<close>

fun read_exactly :: "nat \<Rightarrow> string list \<Rightarrow> (string \<times> string list) option" where
  "read_exactly n [] = (if n = 0 then Some ([], []) else None)"
| "read_exactly n (seg # segs) =
     (if n < length seg then Some (take n seg, drop n seg # segs)
      else map_option (\<lambda>(added, rest). (seg @ added, rest)) (read_exactly (n - length seg) segs))"

section \<open>The content of a request\<close>

text \<open>
  Why the reading of a content fails: the end of the stream, a number that is not one, an exception of
  \<open>new\<close> that nothing catches, and \<open>pop_back\<close> of an empty text. Otherwise it gives the content and the
  pieces that are left.
\<close>

datatype content_failure =
    EndOfStream
  | ProtocolError
  | BadAlloc
  | BadPopBack

lemma read_until_length:
  "read_until delim buf segs = Some (n, buf', segs') \<Longrightarrow>
     length buf' + length (concat segs') = length buf + length (concat segs)"
  by (induction delim buf segs rule: read_until.induct) (auto split: option.splits)

lemma read_exactly_length:
  "read_exactly n segs = Some (added, segs') \<Longrightarrow>
     length added = n \<and> length added + length (concat segs') = length (concat segs)"
proof (induction n segs arbitrary: added segs' rule: read_exactly.induct)
  case (2 n seg segs)
  show ?case
  proof (cases "n < length seg")
    case True
    with "2.prems" show ?thesis by auto
  next
    case False
    with "2.prems" obtain more1 where "read_exactly (n - length seg) segs = Some (more1, segs')" "added = seg @ more1"
      by auto
    with "2.IH" [OF False] False show ?thesis by fastforce
  qed
qed (auto split: if_splits)


lemma read_until_shorter:
  "read_until delim buf segs = Some (n, buf', segs') \<Longrightarrow> length (concat segs') \<le> length (concat segs) \<and> buf' \<noteq> []"
proof (induction delim buf segs rule: read_until.induct)
  case (1 delim buf)
  then show ?case by (cases buf) (auto split: option.splits)
next
  case (2 delim buf seg segs)
  show ?case
  proof (cases "find_text delim buf")
    case None
    with "2.IH" "2.prems" show ?thesis by fastforce
  next
    case (Some i)
    with "2.prems" show ?thesis by (cases buf) auto
  qed
qed

text \<open>
  \<open>read_chunked_transfer_encoded\<close> up to the chunk: its length, and what is left of the buffer of the
  request, with the chunk, when it has all been read. Lengths are of 64 bits, and their sum with two
  wraps.
\<close>

definition read_chunk_size :: "string \<Rightarrow> string list \<Rightarrow> content_failure + nat \<times> string \<times> string list" where
  "read_chunk_size content segs =
     (case read_until [CR, LF] content segs of
        None \<Rightarrow> Inl EndOfStream
      | Some (transferred, buf, segs1) \<Rightarrow>
          (let line = takeWhile (\<lambda>c. c \<noteq> LF) buf;
               rest = drop 1 (dropWhile (\<lambda>c. c \<noteq> LF) buf);
               transferred' = transferred - (length line + 1)
           in if line = [] then Inl BadPopBack
              else
                (case stoul 16 (butlast line) of
                   None \<Rightarrow> Inl ProtocolError
                 | Some n \<Rightarrow>
                     let num_additional_bytes = length rest - transferred';
                         needed = (2 + n) mod 2 ^ 64
                     in if needed > num_additional_bytes then
                          (case read_exactly (needed - num_additional_bytes) segs1 of
                             None \<Rightarrow> Inl EndOfStream
                           | Some (added, segs2) \<Rightarrow> Inr (n, rest @ added, segs2))
                        else Inr (n, rest, segs1))))"

text \<open>What a chunk is taken from is shorter than what it was read from.\<close>

lemma read_chunk_size_shorter:
  assumes "read_chunk_size content segs = Inr (n, body, segs2)"
  shows "length body + length (concat segs2) < length content + length (concat segs)" (is ?less)
    and "length (concat segs2) \<le> length (concat segs)" (is ?le)
proof -
  obtain t buf segs1 where u: "read_until [CR, LF] content segs = Some (t, buf, segs1)"
    using assms by (auto simp: read_chunk_size_def split: option.splits)
  let ?rest = "drop 1 (dropWhile (\<lambda>c. c \<noteq> LF) buf)"
  have line: "takeWhile (\<lambda>c. c \<noteq> LF) buf \<noteq> []"
    using assms u by (auto simp: read_chunk_size_def Let_def)
  then have rest: "length ?rest < length buf"
    using length_dropWhile_le [of "\<lambda>c. c \<noteq> LF" buf] by (cases buf) auto
  have cases: "(\<exists>k added. read_exactly k segs1 = Some (added, segs2) \<and> body = ?rest @ added) \<or> body = ?rest \<and> segs2 = segs1"
    using assms u line by (fastforce simp: read_chunk_size_def Let_def split: option.splits if_splits)
  then show ?less
    using rest read_until_length [OF u] read_exactly_length [of _ segs1 _ segs2] by fastforce
  show ?le
    using cases read_until_shorter [OF u] read_exactly_length [of _ segs1 _ segs2] by fastforce
qed

text \<open>\<open>read_chunked_transfer_encoded_chunk\<close>: \<open>chunks\<close> is the buffer of the chunks read so far.\<close>

function read_chunked_transfer_encoded :: "string \<Rightarrow> string \<Rightarrow> string list \<Rightarrow> content_failure + string \<times> string list" where
  "read_chunked_transfer_encoded content chunks segs =
     (case read_chunk_size content segs of
        Inl e \<Rightarrow> Inl e
      | Inr (n, body, segs') \<Rightarrow>
          if n > 0 then
            (if 2 ^ 63 \<le> n then Inl BadAlloc
             else read_chunked_transfer_encoded (drop (n + 2) body) (chunks @ take n body) segs')
          else Inr (drop 2 body @ chunks, segs'))"
  by pat_completeness auto
termination
  by (relation "measure (\<lambda>(content, chunks, segs). length content + length (concat segs))")
    (use read_chunk_size_shorter(1) in fastforce)+

declare read_chunked_transfer_encoded.simps [simp del]

lemma read_chunked_shorter:
  "read_chunked_transfer_encoded content chunks segs = Inr (body, segs') \<Longrightarrow> length (concat segs') \<le> length (concat segs)"
proof (induction content chunks segs rule: read_chunked_transfer_encoded.induct)
  case (1 content chunks segs)
  obtain n body1 segs1 where c: "read_chunk_size content segs = Inr (n, body1, segs1)"
    using "1.prems" by (subst (asm) read_chunked_transfer_encoded.simps) (auto split: sum.splits)
  have le: "length (concat segs1) \<le> length (concat segs)" by (rule read_chunk_size_shorter(2) [OF c])
  show ?case
  proof (cases "n > 0")
    case True
    with "1.prems" c have "\<not> 2 ^ 63 \<le> n"
        "read_chunked_transfer_encoded (drop (n + 2) body1) (chunks @ take n body1) segs1 = Inr (body, segs')"
      by (subst (asm) read_chunked_transfer_encoded.simps, simp split: if_splits)+
    with "1.IH" [OF c refl refl True] le show ?thesis by linarith
  next
    case False
    with "1.prems" c le show ?thesis by (subst (asm) read_chunked_transfer_encoded.simps) simp
  qed
qed

text \<open>The content that the header announces, behind what the buffer has of it.\<close>

definition read_content :: "(string list \<Rightarrow> string) \<Rightarrow> request \<Rightarrow> nat \<Rightarrow> string \<Rightarrow> string list \<Rightarrow>
    content_failure + string \<times> string list" where
  "read_content pick request num_additional_bytes content segs =
     (let lengths = param_values ''Content-Length'' (req_header request);
          encodings = param_values ''Transfer-Encoding'' (req_header request)
      in if lengths \<noteq> [] then
           (case stoul 10 (pick lengths) of
              None \<Rightarrow> Inl ProtocolError
            | Some content_length \<Rightarrow>
                if content_length > num_additional_bytes then
                  (case read_exactly (content_length - num_additional_bytes) segs of
                     None \<Rightarrow> Inl EndOfStream
                   | Some (added, segs') \<Rightarrow> Inr (content @ added, segs'))
                else Inr (content, segs))
         else if encodings \<noteq> [] \<and> pick encodings = ''chunked'' then read_chunked_transfer_encoded content [] segs
         else Inr (content, segs))"

lemma read_content_shorter:
  "read_content pick request n content segs = Inr (body, segs') \<Longrightarrow> length (concat segs') \<le> length (concat segs)"
  using read_chunked_shorter [of content "[]" segs body segs'] read_exactly_length [of _ segs _ segs']
  by (fastforce simp: read_content_def Let_def split: if_splits option.splits)

section \<open>A connection\<close>

text \<open>
  How a connection ends: it is closed, the process exits or terminates by an exception, or what it
  does is undefined.
\<close>

datatype session_end =
    Closed
  | ServerExits failure
  | ServerTerminates
  | ServerUndefined

fun ends_by :: "content_failure \<Rightarrow> session_end" where
  "ends_by BadAlloc = ServerTerminates"
| "ends_by BadPopBack = ServerUndefined"
| "ends_by _ = Closed"

text \<open>\<open>read\<close>: the request, its content and the pieces that are left.\<close>

definition read_request :: "(string list \<Rightarrow> string) \<Rightarrow> string list \<Rightarrow> session_end + request \<times> string \<times> string list" where
  "read_request pick segs =
     (case read_until [CR, LF, CR, LF] [] segs of
        None \<Rightarrow> Inl Closed
      | Some (transferred, buf, segs1) \<Rightarrow>
          (case request_parse buf of
             None \<Rightarrow> Inl Closed
           | Some (request, content) \<Rightarrow>
               (case read_content pick request (length buf - transferred) content segs1 of
                  Inl e \<Rightarrow> Inl (ends_by e)
                | Inr (content', segs2) \<Rightarrow> Inr (request, content', segs2))))"

lemma read_request_shorter:
  assumes "read_request pick segs = Inr (request, content, segs')"
  shows "length (concat segs') < length (concat segs)"
proof -
  obtain t buf segs1 n body c where u: "read_until [CR, LF, CR, LF] [] segs = Some (t, buf, segs1)"
      and "read_content pick request n body segs1 = Inr (c, segs')"
    using assms by (auto simp: read_request_def split: option.splits sum.splits)
  then have "length (concat segs') \<le> length (concat segs1)" using read_content_shorter by blast
  moreover have "length (concat segs1) < length (concat segs)"
    using read_until_length [OF u] read_until_shorter [OF u] by (cases buf) auto
  ultimately show ?thesis by simp
qed

text \<open>
  The session and the sessions after it: the texts sent, how the connection ends and the application
  then; none when a handler does not return. A new session has a buffer of its own: what the buffer
  of the last one has behind its request is lost.
\<close>

function serve_connection :: "('p, 'r, 'j) app_environment \<Rightarrow> string list \<Rightarrow> ('p, 'r) app \<Rightarrow>
    (string list \<times> session_end \<times> ('p, 'r) app) option" where
  "serve_connection V segs s =
     (case read_request (ae_pick V) segs of
        Inl e \<Rightarrow> Some ([], e, s)
      | Inr (request, content, segs') \<Rightarrow>
          (case answer_request V request s of
             None \<Rightarrow> None
           | Some (Inl e, s') \<Rightarrow> Some ([], ServerExits e, s')
           | Some (Inr None, s') \<Rightarrow> Some ([], Closed, s')
           | Some (Inr (Some body), s') \<Rightarrow>
               if reads_again (ae_iterate V) request
               then map_option (\<lambda>(sent, rest). (body # sent, rest)) (serve_connection V segs' s')
               else Some ([body], Closed, s')))"
  by pat_completeness auto
termination
  by (relation "measure (\<lambda>(V, segs, s). length (concat segs))") (auto dest: read_request_shorter)

declare serve_connection.simps [simp del]

end
