(* ===== verification/WebContract.thy ===== *)
theory WebContract
  imports WebServer HandlerRuns
begin

text \<open>
  What the functions of the resources keep. The locale \<open>web_contract\<close> has a predicate on states, and
  what it takes for it to survive a request: that starting and stopping a capture, the queries and
  the removal of data keep it, and throw nothing but exceptions. It is interpreted for every state
  whatever, for the flags the web interface reports, both whatever text of SQL a client asks and
  whatever the engine answers, and for the invariant of the application, which needs an engine that
  takes the rows of the program and clients whose texts of SQL only read.
\<close>

section \<open>Exceptions\<close>

text \<open>An action that throws nothing but exceptions a handler of the server catches.\<close>

abbreviation throws_std :: "('s, 'a) act \<Rightarrow> bool" where
  "throws_std m \<equiv> triple (\<lambda>_. True) m (\<lambda>_ _. True) (\<lambda>e _. is_std_exception e)"

named_theorems std_throw

lemma std_throw_rules [std_throw]:
  "throws_std (act_return x)" "throws_std (act_get f)" "throws_std (act_modify h)"
  "is_std_exception e \<Longrightarrow> throws_std (act_throw e)"
  "throws_std m \<Longrightarrow> (\<And>x. throws_std (g x)) \<Longrightarrow> throws_std (act_bind m g)"
  "(\<And>n. n \<in> set ns \<Longrightarrow> throws_std n) \<Longrightarrow> throws_std (act_seq ns)"
  "(b \<Longrightarrow> throws_std w) \<Longrightarrow> throws_std (act_when b w)"
  "throws_std z \<Longrightarrow> throws_std (act_zoom get upd z)"
proof -
  show "throws_std (act_bind m g)" if "throws_std m" "\<And>x. throws_std (g x)"
    using that by (rule triple_bind)
  show "throws_std (act_seq ns)" if "\<And>n. n \<in> set ns \<Longrightarrow> throws_std n"
    using that by (rule triple_seq)
qed (auto simp: triple_def act_return_def act_get_def act_modify_def act_throw_def act_when_def act_zoom_def
    split: prod.splits sum.splits)

lemma std_throw_statements [std_throw]:
  "throws_std (stmt_bind t p v)" "throws_std (stmt_exec E t)" "throws_std (stmt_reset t)" "throws_std db_fetch_add"
  "throws_std (transaction_commit E)" "throws_std (transaction_new E)" "throws_std (db_exec E ev)"
  by (auto simp: triple_def stmt_bind_def stmt_exec_def stmt_reset_def db_fetch_add_def transaction_commit_def
      transaction_new_def db_exec_def Let_def split: prod.split)

lemma std_throw_methods [std_throw]:
  "throws_std (insert_row E t ps)" "throws_std (put_connection E v a p b q k ev)" "throws_std (flush_internal E)"
  "throws_std (destroy_capture_data E ts)"
proof -
  show row: "throws_std (insert_row E t ps)" for t ps
    unfolding insert_row_def sbinds_def by (auto intro!: std_throw simp del: act_seq.simps)
  show "throws_std (put_connection E v a p b q k ev)"
    unfolding put_connection_def by (intro std_throw row)
  show flush: "throws_std (flush_internal E)"
    unfolding flush_internal_def by (auto intro!: std_throw simp del: act_seq.simps)
  show "throws_std (destroy_capture_data E ts)"
    unfolding destroy_capture_data_def by (auto intro!: std_throw flush simp del: act_seq.simps)
qed

lemma std_throw_callbacks [std_throw]:
  fixes L :: "('p, 'r) pcap_library"
  shows "throws_std (run_callback E cb)" "throws_std (run_callbacks E cbs :: (('p, 'r) app, unit) act)"
    "throws_std (close_all_connections E L)"
proof -
  have put: "throws_std (ph_put_connection E k ev)" for k ev
    unfolding ph_put_connection_def by (intro std_throw)
  then have start: "throws_std (connection_start E k)" for k
    unfolding connection_start_def by (auto intro!: std_throw simp del: act_seq.simps)
  show callback: "throws_std (run_callback E cb)" for cb
    by (cases cb) (simp_all add: connection_end_def put start std_throw)
  show callbacks: "throws_std (run_callbacks E cbs :: (('p, 'r) app, unit) act)" for cbs
    unfolding run_callbacks_def by (auto intro!: std_throw callback)
  show "throws_std (close_all_connections E L)"
  proof (rule tripleI)
    fix s :: "('p, 'r) app"
    obtain cbs r where "pcap_close_all L (app_reassembly s) = (cbs, r)" by fastforce
    with callbacks [of cbs] show "case close_all_connections E L s of (Inl e, s') \<Rightarrow> is_std_exception e | (Inr x, s') \<Rightarrow> True"
      by (simp add: triple_def close_all_connections_def)
  qed
qed

text \<open>The queries, whatever their text does.\<close>

lemma std_throw_select [std_throw]:
  "throws_std select_execute_step" "throws_std (select_get_column i)" "throws_std (select_get_column_named name)"
  "throws_std (select_new R query)"
  by (auto simp: triple_def select_execute_step_def select_get_column_def select_get_column_named_def act_bind_def
      select_check_row_def select_check_index_def act_get_def act_throw_def select_new_def
      split: prod.split option.split sum.split)

lemma std_throw_rows [std_throw]:
  "throws_std (push_columns J f is vals)" "throws_std (query_row J first)" "throws_std (query_rows J first n)"
  "throws_std (schema_pass R J)"
proof -
  show push: "throws_std (push_columns J f is vals)" for f "is" vals
    by (induction "is" arbitrary: vals) (auto intro!: std_throw)
  show row: "throws_std (query_row J first)" for first
    unfolding query_row_def by (auto intro!: std_throw push simp del: act_seq.simps)
  show "throws_std (query_rows J first n)"
    by (induction n arbitrary: first) (auto intro!: std_throw row)
  show "throws_std (schema_pass R J)"
    unfolding schema_pass_def Let_def by (auto intro!: std_throw)
qed

text \<open>The exceptions of the json library are exceptions.\<close>

definition json_throws :: "'j json_library \<Rightarrow> bool" where
  "json_throws J \<longleftrightarrow> (\<forall>n j e. json_dump J n j = Inl e \<longrightarrow> is_std_exception e)"

lemma std_throw_query [std_throw]: "throws_std (db_query R J n query)"
proof (rule tripleI)
  fix d
  show "case db_query R J n query d of (Inl e, s') \<Rightarrow> is_std_exception e | (Inr x, s') \<Rightarrow> True"
  proof (cases "select_new R query d")
    case (Pair r d')
    have new: "is_std_exception e" if "r = Inl e" for e
      using tripleD_throw [OF std_throw_select(4) TrueI] Pair that by blast
    show ?thesis
    proof (cases r)
      case (Inl e)
      with new Pair show ?thesis by (simp add: db_query_def)
    next
      case (Inr st)
      obtain res q where run: "query_rows J True (nat n) \<lparr>q_db = d', q_stmt = st, q_res = json_null J, q_rows = json_array J\<rparr> = (res, q)"
        by fastforce
      have "is_std_exception e" if "res = Inl e" for e
        using tripleD_throw [OF std_throw_rows(3) TrueI] run that by blast
      with run Inr Pair show ?thesis by (cases res) (simp_all add: db_query_def)
    qed
  qed
qed

lemma std_throw_counts [std_throw]:
  "throws_std (count_packets R)"
  "json_throws J \<Longrightarrow> throws_std (count_packets_per_type R J)"
proof -
  have "throws_std (db_exec_and_get R query)" for query
  proof (unfold db_exec_and_get_def, intro std_throw, rule tripleI)
    fix st :: select_stmt and d :: db
    let ?m = "act_bind select_execute_step (\<lambda>_. select_get_column 0) :: (unit query_state, sql_value) act"
    obtain r q where run: "?m \<lparr>q_db = d, q_stmt = st, q_res = (), q_rows = ()\<rparr> = (r, q)" by fastforce
    have "throws_std ?m" by (intro std_throw)
    then have "is_std_exception e" if "r = Inl e" for e
      using tripleD_throw [of "\<lambda>_. True" ?m] run that by blast
    with run show "case case ?m \<lparr>q_db = d, q_stmt = st, q_res = (), q_rows = ()\<rparr> of (r, q) \<Rightarrow> (r, q_db q) of
        (Inl e, s') \<Rightarrow> is_std_exception e | (Inr x, s') \<Rightarrow> True"
      by (cases r) simp_all
  qed
  then show "throws_std (count_packets R)" unfolding count_packets_def by (intro std_throw)
qed (auto simp: triple_def count_packets_per_type_def json_throws_def split: sum.split)

text \<open>The loop over the tables ends, as every pass takes a row of the answer.\<close>

lemma schema_pass_less:
  assumes "schema_pass R J q = (Inr True, q')"
  shows "length (sel_rest (q_stmt q')) < length (sel_rest (q_stmt q))"
proof -
  obtain q1 where step: "select_execute_step q = (Inr True, q1)"
      and rest: "sel_rest (q_stmt q') = sel_rest (q_stmt q1)"
    using assms
    by (auto simp: schema_pass_def act_bind_success act_return_def act_when_def act_modify_def act_get_def act_throw_def
        select_get_column_named_def select_check_row_def Let_def split: if_splits option.splits)
  then show ?thesis
    by (auto simp: select_execute_step_def select_try_execute_step_def Let_def sqlite_codes
        split: list.splits prod.splits if_splits)
qed

lemma loop_triple:
  assumes pass: "triple I pass (\<lambda>_. I) R" and "I s" and y: "act_loop pass s = Some (r, s')"
  shows "case r of Inl e \<Rightarrow> R e s' | Inr _ \<Rightarrow> I s'"
proof -
  have "case pass s of (Inl e, s') \<Rightarrow> (case Inl e of Inl e \<Rightarrow> R e s' | Inr (_ :: unit) \<Rightarrow> I s')
      | (Inr again, s') \<Rightarrow> if again then I s' else (case Inr () of Inl e \<Rightarrow> R e s' | Inr _ \<Rightarrow> I s')" if "I s" for s
    using pass that unfolding triple_def by (auto split: prod.splits sum.splits)
  from act_loop_invariant [OF y, where Q = "\<lambda>r s'. case r of Inl e \<Rightarrow> R e s' | Inr _ \<Rightarrow> I s'", OF assms(2) this]
  show ?thesis by (simp only: fst_conv snd_conv)
qed

lemma get_schema_returns:
  "\<exists>res d'. get_schema R J d = Some (res, d') \<and> (\<forall>e. res = Inl e \<longrightarrow> is_std_exception e)"
proof (cases "rd_prepare R (db_history d) tables_query")
  case (Inl ret)
  then show ?thesis by (simp add: get_schema_def select_new_def)
next
  case (Inr p)
  then obtain st where new: "select_new R tables_query d = (Inr st, d)" by (simp add: select_new_def)
  let ?q = "\<lparr>q_db = d, q_stmt = st, q_res = json_array J, q_rows = json_array J\<rparr>"
  have "\<exists>y. act_loop (schema_pass R J) ?q = Some y"
    by (rule act_loop_returns [where I = "\<lambda>_. True" and m = "\<lambda>q. length (sel_rest (q_stmt q))"]) (simp_all add: schema_pass_less)
  then obtain r q' where y: "act_loop (schema_pass R J) ?q = Some (r, q')" by fastforce
  from loop_triple [OF std_throw_rows(4) TrueI y] new y show ?thesis
    by (cases r) (simp_all add: get_schema_def)
qed

section \<open>What a request keeps\<close>

text \<open>
  What a handler may throw: an exception the server catches, in a state with \<open>I\<close>, or, where \<open>X\<close> says
  so, the end of the process. A handler that returns has a text that starts a response.
\<close>

abbreviation web_throw :: "(('p, 'r) app \<Rightarrow> bool) \<Rightarrow> bool \<Rightarrow> failure \<Rightarrow> ('p, 'r) app \<Rightarrow> bool" where
  "web_throw I X e s \<equiv> is_std_exception e \<and> I s \<or> X \<and> (\<exists>c. e = ProcessExit c)"

abbreviation web_triple :: "(('p, 'r) app \<Rightarrow> bool) \<Rightarrow> bool \<Rightarrow> (('p, 'r) app, 'a) act \<Rightarrow> bool" where
  "web_triple I X m \<equiv> triple I m (\<lambda>_. I) (web_throw I X)"

definition response_start :: "string \<Rightarrow> bool" where
  "response_start body \<longleftrightarrow> take 9 body = ''HTTP/1.1 ''"

abbreviation web_answers :: "(('p, 'r) app \<Rightarrow> bool) \<Rightarrow> bool \<Rightarrow> (('p, 'r) app, string) act \<Rightarrow> bool" where
  "web_answers I X m \<equiv> triple I m (\<lambda>body s. response_start body \<and> I s) (web_throw I X)"

lemma response_start_write: "response_start (write_response c content header)" "response_start (write_content content)"
  by (simp_all add: response_start_def write_response_def write_content_def)

lemma web_rules:
  "response_start body \<Longrightarrow> web_answers I X (act_return body)"
  "web_triple I X (act_return x)" "web_triple I X (act_get f)"
  "(b \<Longrightarrow> web_triple I X w) \<Longrightarrow> web_triple I X (act_when b w)"
  by (auto simp: triple_def act_return_def act_get_def act_when_def)

lemma web_if: "(b \<Longrightarrow> web_answers I X m) \<Longrightarrow> (\<not> b \<Longrightarrow> web_answers I X n) \<Longrightarrow> web_answers I X (if b then m else n)"
  by simp

lemma web_bind: "web_triple I X m \<Longrightarrow> (\<And>x. web_answers I X (g x)) \<Longrightarrow> web_answers I X (act_bind m g)"
  by (rule triple_bind)

lemma web_dump: "json_throws J \<Longrightarrow> web_triple I X (act_sum (json_dump J n j))"
  by (auto simp: triple_def act_sum_def json_throws_def split: sum.split)

text \<open>The text of SQL a request asks, the resources whose functions can end the process, and texts that only read.\<close>

definition asked :: "('p, 'r, 'j) app_environment \<Rightarrow> request \<Rightarrow> string option" where
  "asked V request =
     (let vals = param_values ''query'' (query_parse (req_query_string request))
      in if vals \<noteq> [] then Some (ae_pick V vals) else None)"

definition may_exit :: "web_resource \<Rightarrow> bool" where
  "may_exit r \<longleftrightarrow> r \<in> {CaptureStart, CaptureToggle, CaptureDestroy}"

definition reads :: "sqlite_reader \<Rightarrow> string \<Rightarrow> bool" where
  "reads R sql \<longleftrightarrow> (\<forall>h p. rd_prepare R h sql = Inr p \<longrightarrow> pr_effect p = [])"

definition request_reads :: "('p, 'r, 'j) app_environment \<Rightarrow> request \<Rightarrow> bool" where
  "request_reads V request \<longleftrightarrow>
     (find_resource request = Some CaptureQuery \<longrightarrow> (\<forall>sql. asked V request = Some sql \<longrightarrow> reads (ae_reader V) sql))"

text \<open>The parts of a static file that are sent start with the header.\<close>

lemma read_and_send_all: "concat (read_and_send buf ifs) = buf @ ifs"
proof (induction buf ifs rule: read_and_send.induct)
  case (1 buf ifs)
  show ?case
  proof (cases "length ifs < BLOCK")
    case True
    then show ?thesis by (subst read_and_send.simps) (auto simp: Let_def BLOCK_def)
  next
    case False
    then have "take BLOCK ifs \<noteq> []" "length (take BLOCK ifs) = BLOCK" by (auto simp: BLOCK_def)
    with 1 show ?thesis
      by (subst read_and_send.simps) (simp add: Let_def)
  qed
qed

lemma static_start: "response_start (concat (web_static V request))"
proof -
  have "response_start (a @ b)" if "response_start a" for a b
    using that by (cases "9 \<le> length a") (auto simp: response_start_def dest: arg_cong [where f = length])
  then show ?thesis
    by (simp add: web_static_def could_not_open_def Let_def read_and_send_all response_start_write split: option.split)
qed

locale web_contract =
  fixes ok :: "('p, 'r, 'j) app_environment \<Rightarrow> bool"
    and I :: "('p, 'r) app \<Rightarrow> bool"
    and asks :: "('p, 'r, 'j) app_environment \<Rightarrow> request \<Rightarrow> bool"
  assumes start: "ok V \<Longrightarrow> web_triple I True (start_capture (ae_env V) (ae_pcap V))"
    and stop: "web_triple I X stop_capture"
    and query: "ok V \<Longrightarrow> asks V request \<Longrightarrow> find_resource request = Some CaptureQuery \<Longrightarrow> asked V request = Some sql \<Longrightarrow>
      web_triple I X (on_app_db (db_query (ae_reader V) (ae_json V) n sql))"
    and count: "ok V \<Longrightarrow> web_triple I X (on_app_db (count_packets (ae_reader V)))"
    and types: "ok V \<Longrightarrow> web_triple I X (on_app_db (count_packets_per_type (ae_reader V) (ae_json V)))"
    and destroy: "ok V \<Longrightarrow> web_triple I X (on_app_db (\<lambda>d. destroy_capture_data (ae_env V) (ae_tables V (db_history d)) d))"
    and schema: "ok V \<Longrightarrow> I s \<Longrightarrow> get_schema (ae_reader V) (ae_json V) (ph_db (app_ph s)) = Some (res, d) \<Longrightarrow>
      I (s\<lparr>app_ph := (app_ph s)\<lparr>ph_db := d\<rparr>\<rparr>)"
    and json: "ok V \<Longrightarrow> json_throws (ae_json V)"
begin

lemma handlers:
  assumes V: "ok V"
  shows "web_answers I X (web_status V)" "web_answers I True (web_start V)" "web_answers I X (web_stop V)"
    "web_answers I True (web_toggle V)" "web_answers I True (web_destroy V)" "web_answers I X (web_count V)"
    "web_answers I X (web_count_per_type V)"
    "asks V request \<Longrightarrow> find_resource request = Some CaptureQuery \<Longrightarrow> web_answers I X (web_query V request)"
proof -
  note rules = web_rules web_if web_bind web_dump [OF json [OF V]] start [OF V] stop count [OF V] types [OF V] destroy [OF V]
    response_start_write
  show "web_answers I X (web_status V)" unfolding web_status_def by (intro rules)
  show "web_answers I True (web_start V)" unfolding web_start_def by (intro rules)
  show "web_answers I X (web_stop V)" unfolding web_stop_def by (intro rules)
  have "web_triple I True (if b then stop_capture else start_capture (ae_env V) (ae_pcap V))" for b
    using stop [of True] start [OF V] by (cases b) simp_all
  then show "web_answers I True (web_toggle V)" unfolding web_toggle_def by (intro rules)
  show "web_answers I True (web_destroy V)" unfolding web_destroy_def by (intro rules)
  show "web_answers I X (web_count V)" unfolding web_count_def Let_def by (intro rules)
  show "web_answers I X (web_count_per_type V)" unfolding web_count_per_type_def by (intro rules)
  show "web_answers I X (web_query V request)" if "asks V request" "find_resource request = Some CaptureQuery"
    unfolding web_query_def Let_def
    by (intro rules query [OF V that]) (simp_all add: asked_def Let_def)
qed

text \<open>Every function of a resource returns.\<close>

lemma resource_function_returns:
  assumes V: "ok V" and s: "I s" and r: "find_resource request = Some r" and asks: "asks V request"
  shows "\<exists>res s'. resource_function V r request s = Some (res, s') \<and>
    (case res of Inl e \<Rightarrow> web_throw I (may_exit r) e s' | Inr body \<Rightarrow> response_start body \<and> I s')"
proof (cases "r = Schema")
  case True
  obtain res d where schema: "get_schema (ae_reader V) (ae_json V) (ph_db (app_ph s)) = Some (res, d)"
      and res: "\<forall>e. res = Inl e \<longrightarrow> is_std_exception e"
    using get_schema_returns [of "ae_reader V" "ae_json V"] by blast
  have "I (s\<lparr>app_ph := (app_ph s)\<lparr>ph_db := d\<rparr>\<rparr>)" using web_contract.schema [OF web_contract_axioms V s schema] .
  with True schema res json [OF V] show ?thesis
    by (cases res)
      (auto simp: resource_function_def web_schema_def get_schema_json_def json_throws_def map_sum_def may_exit_def
        response_start_write split: sum.split)
next
  case False
  have run: "\<exists>res s'. m s = (res, s') \<and> (case res of Inl e \<Rightarrow> web_throw I X e s' | Inr body \<Rightarrow> response_start body \<and> I s')"
    if "web_answers I X m" for X and m :: "(('p, 'r) app, string) act"
    using that s unfolding triple_def by (fastforce split: prod.splits)
  note handler = handlers [OF V, THEN run]
  from False s static_start [of V request] handler(1) [of False] handler(2) handler(3) [of False] handler(4,5) handler(6) [of False]
    handler(7) [of False] handler(8) [of request False] r asks
  show ?thesis
    by (cases r) (simp_all add: resource_function_def may_exit_def cong: sum.case_cong)
qed

end

context web_contract
begin

text \<open>
  What a request is answered with: an exit, from a function that makes one; nothing, when there is no
  resource; the text of the function; or no text, when the function threw an exception.
\<close>

lemma answer_request_returns:
  assumes "ok V" and "I s" and "asks V request"
  shows "\<exists>res s'. answer_request V request s = Some (res, s') \<and>
    (case res of
       Inl e \<Rightarrow> (\<exists>c. e = ProcessExit c) \<and> (\<exists>r. find_resource request = Some r \<and> may_exit r)
     | Inr None \<Rightarrow> find_resource request = None \<and> s' = s
     | Inr (Some body) \<Rightarrow> I s' \<and> (\<exists>r. find_resource request = Some r \<and> (response_start body \<or>
         body = [] \<and> (\<exists>e. is_std_exception e \<and> resource_function V r request s = Some (Inl e, s')))))"
proof (cases "find_resource request")
  case None
  then show ?thesis by (simp add: answer_request_def)
next
  case (Some r)
  obtain res s' where res: "resource_function V r request s = Some (res, s')"
      "case res of Inl e \<Rightarrow> web_throw I (may_exit r) e s' | Inr body \<Rightarrow> response_start body \<and> I s'"
    using resource_function_returns [OF assms(1,2) Some assms(3)] by blast
  with Some show ?thesis by (cases res) (auto simp: answer_request_def)
qed

lemma serve_returns:
  assumes "ok V" and "I s" and "\<And>request content. request_parse input = Some (request, content) \<Longrightarrow> asks V request"
  shows "\<exists>res s'. serve V input s = Some (res, s') \<and>
    (case res of
       Inl e \<Rightarrow> (\<exists>c. e = ProcessExit c) \<and>
         (\<exists>request content r. request_parse input = Some (request, content) \<and> find_resource request = Some r \<and> may_exit r)
     | Inr None \<Rightarrow> (\<forall>request content. request_parse input = Some (request, content) \<longrightarrow> find_resource request = None) \<and> s' = s
     | Inr (Some body) \<Rightarrow> I s' \<and>
         (\<exists>request content r. request_parse input = Some (request, content) \<and> find_resource request = Some r \<and> (response_start body \<or>
           body = [] \<and> (\<exists>e. is_std_exception e \<and> resource_function V r request s = Some (Inl e, s')))))"
proof (cases "request_parse input")
  case None
  then show ?thesis by (simp add: serve_def)
next
  case (Some rc)
  obtain request content where rc: "rc = (request, content)" by fastforce
  then have "asks V request" "serve V input s = answer_request V request s" using Some assms(3) by (simp_all add: serve_def)
  moreover obtain res s' where res: "answer_request V request s = Some (res, s')"
      "case res of
         Inl e \<Rightarrow> (\<exists>c. e = ProcessExit c) \<and> (\<exists>r. find_resource request = Some r \<and> may_exit r)
       | Inr None \<Rightarrow> find_resource request = None \<and> s' = s
       | Inr (Some body) \<Rightarrow> I s' \<and> (\<exists>r. find_resource request = Some r \<and> (response_start body \<or>
           body = [] \<and> (\<exists>e. is_std_exception e \<and> resource_function V r request s = Some (Inl e, s'))))"
    using answer_request_returns [OF assms(1,2) calculation(1)] by blast
  ultimately show ?thesis
    using Some rc by (intro exI [of _ res] exI [of _ s']) (auto split: sum.splits option.splits)
qed

end

section \<open>Whatever clients ask and the engine answers\<close>

text \<open>
  The flags the web interface reports, with the device and the import they report on, and the packets
  in the queue: a predicate on these that starting and stopping a capture keep satisfies the contract.
\<close>

definition app_flags :: "('p, 'r) app \<Rightarrow> bool \<times> nat option \<times> bool \<times> bool \<times> ('p list \<times> nat) option" where
  "app_flags s = (app_capturing s, app_dev s, app_dev_running s, app_importing s, app_import s)"

definition flags_ok :: "('p, 'r) app \<Rightarrow> bool" where
  "flags_ok s \<longleftrightarrow> (app_capturing s \<longleftrightarrow> app_dev s \<noteq> None) \<and> (app_dev_running s \<longrightarrow> app_dev s \<noteq> None) \<and>
     (app_importing s \<longleftrightarrow> app_import s \<noteq> None)"

definition queue_ok :: "packet_handler \<Rightarrow> bool" where
  "queue_ok h \<longleftrightarrow> (\<forall>p \<in> set (ph_packet_queue h). info_data p \<noteq> [] \<and> ph_conn_mgr h (info_flow_key p) \<noteq> None)"

definition keeps_queue :: "('s \<Rightarrow> packet_handler) \<Rightarrow> ('s, 'a) act \<Rightarrow> bool" where
  "keeps_queue ph m \<longleftrightarrow> (\<forall>s. queue_ok (ph s) \<longrightarrow> queue_ok (ph (snd (m s))))"

lemma queue_ok_db: "queue_ok (h\<lparr>ph_db := d\<rparr>) \<longleftrightarrow> queue_ok h"
  by (simp add: queue_ok_def)

lemma keeps_queue_seq: "(\<And>m. m \<in> set ms \<Longrightarrow> keeps_queue ph m) \<Longrightarrow> keeps_queue ph (act_seq ms)"
proof (induction ms)
  case (Cons m ms)
  then have "keeps_queue ph m" "keeps_queue ph (act_seq ms)" by simp_all
  then show ?case
    unfolding keeps_queue_def by (fastforce simp: act_bind_def split: prod.splits sum.splits)
qed (simp add: keeps_queue_def act_return_def)

lemma keeps_queue_callback: "keeps_queue (\<lambda>h. h) (run_callback E cb)"
proof -
  have put: "keeps_queue (\<lambda>h. h) (ph_put_connection E k ev)" for k ev
    by (auto simp: keeps_queue_def ph_put_connection_def act_zoom_def queue_ok_db split: prod.split)
  have start: "keeps_queue (\<lambda>h. h) (connection_start E k)" for k
    unfolding connection_start_def
    by (rule keeps_queue_seq) (auto simp: put, auto simp: keeps_queue_def act_modify_def queue_ok_def)
  have ready: "queue_ok h \<Longrightarrow> queue_ok (msg_ready k data side h)" for k data side h
    by (auto simp: msg_ready_def Let_def queue_ok_def packet_of_def)
  show ?thesis
    by (cases cb) (simp_all add: start put connection_end_def, simp add: keeps_queue_def act_modify_def ready)
qed

lemma keeps_queue_app:
  fixes L :: "('p, 'r) pcap_library"
  shows "keeps_queue app_ph (on_app_db n :: (('p, 'r) app, 'y) act)" "keeps_queue app_ph (run_callbacks E cbs :: (('p, 'r) app, unit) act)"
    "keeps_queue app_ph (close_all_connections E L)" "keeps_queue app_ph (on_packet E L p)"
proof -
  show "keeps_queue app_ph (on_app_db n :: (('p, 'r) app, 'y) act)"
    by (auto simp: keeps_queue_def on_app_db_def act_zoom_def queue_ok_db split: prod.split)
  have "keeps_queue app_ph (act_zoom app_ph app_ph_update (run_callback E cb) :: (('p, 'r) app, unit) act)" for cb
    using keeps_queue_callback [of E cb] by (auto simp: keeps_queue_def act_zoom_def split: prod.split)
  then show callbacks: "keeps_queue app_ph (run_callbacks E cbs :: (('p, 'r) app, unit) act)" for cbs
    unfolding run_callbacks_def by (intro keeps_queue_seq) auto
  show "keeps_queue app_ph (close_all_connections E L)" "keeps_queue app_ph (on_packet E L p)"
    using callbacks by (auto simp: keeps_queue_def close_all_connections_def on_packet_def split: prod.split)
qed

lemma process_packet_queue: "queue_ok s \<Longrightarrow> process_packet E C s = Some (out, s') \<Longrightarrow> queue_ok s'"
  by (auto simp: process_packet_def queue_ok_def split: if_splits list.splits option.splits)

lemma keeps_flags [keeps]:
  fixes L :: "('p, 'r) pcap_library"
  shows "keeps app_flags (act_zoom app_ph app_ph_update m :: (('p, 'r) app, 'x) act)"
    "keeps app_flags (on_app_db n :: (('p, 'r) app, 'y) act)" "keeps app_flags (run_callbacks E cbs :: (('p, 'r) app, unit) act)"
    "keeps app_flags (close_all_connections E L)" "keeps app_flags (on_packet E L p)"
proof -
  have zoom: "keeps app_flags (act_zoom app_ph app_ph_update m :: (('p, 'r) app, 'z) act)" for m :: "(packet_handler, 'z) act"
    by (auto simp: keeps_def act_zoom_def app_flags_def split: prod.split)
  show "keeps app_flags (act_zoom app_ph app_ph_update m :: (('p, 'r) app, 'x) act)"
    by (auto simp: keeps_def act_zoom_def app_flags_def split: prod.split)
  show "keeps app_flags (on_app_db n :: (('p, 'r) app, 'y) act)"
    by (auto simp: keeps_def on_app_db_def act_zoom_def app_flags_def split: prod.split)
  show callbacks: "keeps app_flags (run_callbacks E cbs :: (('p, 'r) app, unit) act)" for cbs
    unfolding run_callbacks_def by (auto intro!: keeps_seq zoom)
  have r: "app_flags (s\<lparr>app_reassembly := r\<rparr>) = app_flags s" for s :: "('p, 'r) app" and r by (simp add: app_flags_def)
  show "keeps app_flags (close_all_connections E L)" "keeps app_flags (on_packet E L p)"
    using callbacks [unfolded keeps_def]
    by (simp_all add: keeps_def close_all_connections_def on_packet_def app_flags_def split: prod.split)
qed

locale flag_predicate =
  fixes I :: "('p, 'r) app \<Rightarrow> bool"
  assumes same: "I s \<Longrightarrow> app_flags s' = app_flags s \<Longrightarrow> (queue_ok (app_ph s) \<Longrightarrow> queue_ok (app_ph s')) \<Longrightarrow> I s'"
    and started: "I s \<Longrightarrow> I (s\<lparr>app_capturing := True, app_dev := Some n\<rparr>)"
    and running: "I s \<Longrightarrow> app_dev s = Some n \<Longrightarrow> I (s\<lparr>app_dev_running := True\<rparr>)"
    and stopped: "I s \<Longrightarrow> I (s\<lparr>app_capturing := False, app_dev_running := False, app_dev := None\<rparr>)"
    and idle: "I s \<Longrightarrow> app_dev s = None \<Longrightarrow> I (s\<lparr>app_capturing := False\<rparr>)"
begin

lemma framed:
  assumes "keeps app_flags m" and "keeps_queue app_ph m" and "throws_std m"
  shows "web_triple I X m"
proof (rule tripleI)
  fix s assume s: "I s"
  have "I (snd (m s))"
    using same [OF s] assms(1,2) by (simp add: keeps_def keeps_queue_def)
  with assms(3) show "case m s of (Inl e, s') \<Rightarrow> web_throw I X e s' | (Inr x, s') \<Rightarrow> I s'"
    by (auto simp: triple_def split: prod.splits sum.splits)
qed

lemma on_db: "throws_std m \<Longrightarrow> web_triple I X (on_app_db m)"
  by (rule framed [OF keeps_flags(2) keeps_queue_app(1)]) (auto intro: std_throw simp: on_app_db_def)

lemma start_capture: "web_triple I True (start_capture E L)"
proof (rule tripleI)
  fix s assume s: "I s"
  let ?dev = "choose_device L (capture_device_ip (config_capture (app_config s)))"
  show "case start_capture E L s of (Inl e, s') \<Rightarrow> web_throw I True e s' | (Inr x, s') \<Rightarrow> I s'"
  proof (cases ?dev)
    case None
    then show ?thesis by (simp add: start_capture_def Let_def)
  next
    case (Some n)
    let ?s = "s\<lparr>app_capturing := True, app_dev := Some n\<rparr>"
    have "I ?s" "I (?s\<lparr>app_dev_running := True\<rparr>)" using started [OF s] running [of ?s n] by simp_all
    moreover have "web_triple I True (close_all_connections E L)" by (intro framed keeps keeps_queue_app std_throw)
    ultimately show ?thesis
      using Some by (auto simp: start_capture_def Let_def act_bind_def act_throw_def triple_def split: prod.splits sum.splits)
  qed
qed

lemma stop_capture: "web_triple I X stop_capture"
  using stopped idle by (auto simp: triple_def stop_capture_def Let_def)

lemma contract: "web_contract (\<lambda>V. json_throws (ae_json V)) I (\<lambda>_ _. True)"
proof unfold_locales
  show "I (s\<lparr>app_ph := (app_ph s)\<lparr>ph_db := d\<rparr>\<rparr>)" if "I s" for s d
    by (rule same [OF that]) (simp_all add: app_flags_def queue_ok_db)
  show "web_triple I X (on_app_db (\<lambda>d. destroy_capture_data (ae_env V) (ae_tables V (db_history d)) d))" for X V
    using std_throw_methods(4) by (intro on_db) (auto simp: triple_def)
  show "web_triple I True (start_capture (ae_env V) (ae_pcap V))" for V by (rule start_capture)
  show "web_triple I X stop_capture" for X by (rule stop_capture)
qed (rule on_db std_throw | assumption)+

end

interpretation any: flag_predicate "\<lambda>_. True"
  by unfold_locales simp_all

interpretation reported: flag_predicate "\<lambda>s. flags_ok s \<and> queue_ok (app_ph s)"
  by unfold_locales (auto simp: flags_ok_def app_flags_def)

interpretation every_state: web_contract "\<lambda>V. json_throws (ae_json V)" "\<lambda>_. True" "\<lambda>_ _. True"
  by (rule any.contract)

interpretation flags: web_contract "\<lambda>V. json_throws (ae_json V)" "\<lambda>s. flags_ok s \<and> queue_ok (app_ph s)" "\<lambda>_ _. True"
  by (rule reported.contract)

end
