(* ===== verification/AppRuns.thy ===== *)
theory AppRuns
  imports WebContract
begin

text \<open>
  Runs of the application: packets of the device, the import of a file, rounds of the processing
  thread, requests of the web server and the signal that ends it, in any order. Every step keeps the
  flags the web interface reports and the packets of the queue in order, whatever the engine answers
  and whatever text of SQL a client asks; the invariant of the database and the handler is kept when
  the engine takes the rows of the program and the texts of the clients only read.
\<close>

section \<open>Steps\<close>

text \<open>\<open>sig_handler\<close>, without the end of the input and output service.\<close>

definition sig_handler :: "(('p, 'r) app, unit) act" where
  "sig_handler = act_seq [act_modify (app_ph_update stop_packet_processing_thread), stop_capture]"

datatype 'p app_event =
    LivePacket 'p
  | ImportBegin string
  | ImportPass
  | ImportEnd
  | Process
  | Request string
  | Signal

inductive app_step :: "('p, 'r, 'j) app_environment \<Rightarrow> ('p, 'r) app \<Rightarrow> 'p app_event \<Rightarrow> ('p, 'r) app \<Rightarrow> bool"
  for V :: "('p, 'r, 'j) app_environment" where
  live: "live_packet (ae_env V) (ae_pcap V) p s = (Inr (), s') \<Longrightarrow> app_step V s (LivePacket p) s'"
| import_begin: "app_import s = None \<Longrightarrow> import_begin (ae_pcap V) path s = (Inr (), s') \<Longrightarrow>
    app_step V s (ImportBegin path) s'"
| import_pass: "import_pass (ae_env V) (ae_pcap V) s = (Inr (), s') \<Longrightarrow> app_step V s ImportPass s'"
| import_end: "import_end (ae_env V) (ae_pcap V) s = (Inr (), s') \<Longrightarrow> app_step V s ImportEnd s'"
| process: "app_process (ae_env V) s = Some (out, s') \<Longrightarrow> out \<noteq> UndefinedBehaviour \<Longrightarrow> app_step V s Process s'"
| request: "serve V input s = Some (Inr answer, s') \<Longrightarrow> app_step V s (Request input) s'"
| signal: "sig_handler s = (Inr (), s') \<Longrightarrow> app_step V s Signal s'"

inductive app_run :: "('p, 'r, 'j) app_environment \<Rightarrow> ('p, 'r) app \<Rightarrow> 'p app_event list \<Rightarrow> ('p, 'r) app \<Rightarrow> bool"
  for V :: "('p, 'r, 'j) app_environment" where
  app_nil: "app_run V s [] s"
| app_snoc: "app_run V s evs s' \<Longrightarrow> app_step V s' ev s'' \<Longrightarrow> app_run V s (evs @ [ev]) s''"

inductive_cases app_stepE: "app_step V s ev s'"

text \<open>The application when its members are made, with an empty reassembly \<open>r\<close>.\<close>

definition app_start :: "config \<Rightarrow> db \<Rightarrow> 'r \<Rightarrow> ('p, 'r) app" where
  "app_start conf d r = \<lparr>app_config = conf, app_ph = ph_start d, app_capturing = False, app_importing = False,
     app_dev = None, app_dev_running = False, app_reassembly = r, app_import = None, app_consumed = 0\<rparr>"

section \<open>The invariant\<close>

definition app_inv :: "('p, 'r) app \<Rightarrow> bool" where
  "app_inv s \<longleftrightarrow> ph_inv (app_ph s) \<and> (app_capturing s \<longleftrightarrow> app_dev s \<noteq> None) \<and>
     (app_dev_running s \<longrightarrow> app_dev s \<noteq> None) \<and> (app_importing s \<longleftrightarrow> app_import s \<noteq> None)"

lemma app_inv_counts:
  "app_inv s \<Longrightarrow> k < 32 \<Longrightarrow> db_count_per_type (ph_db (app_ph s)) ! k = of_nat (packets_of_type (db_history (ph_db (app_ph s))) k)"
  by (simp add: app_inv_def ph_inv_def db_inv_def db_mid_def)

text \<open>
  What is assumed of the environment: an engine and a buffer as the handler needs them, a packet table
  among the tables the engine lists, and queries of the program's own that only read. Texts of clients
  are not restricted by it.
\<close>

definition tables_ok :: "(sql_history \<Rightarrow> table list) \<Rightarrow> bool" where
  "tables_ok T \<longleftrightarrow> (\<forall>h. TablePacket \<in> set (T h))"

definition count_query :: string where
  "count_query = ''select count(*) from packet''"

definition web_env_ok :: "('p, 'r, 'j) app_environment \<Rightarrow> bool" where
  "web_env_ok V \<longleftrightarrow> engine_ok (ae_env V) \<and> buffer_ok (ae_env V) \<and> tables_ok (ae_tables V) \<and>
     json_throws (ae_json V) \<and> reads (ae_reader V) count_query \<and> reads (ae_reader V) tables_query"

abbreviation web_ok :: "bool \<Rightarrow> (('p, 'r) app, 'a) act \<Rightarrow> bool" where
  "web_ok X m \<equiv> web_triple app_inv X m"

section \<open>Packets and the device\<close>

lemma run_callback_ok:
  assumes "engine_ok E" and "ph_inv h"
  shows "\<exists>h'. run_callback E cb h = (Inr (), h') \<and> ph_inv h'"
  using assms by (cases cb) (auto simp: act_modify_def connection_start_ok connection_end_ok msg_ready_inv)

lemma run_callbacks_ok:
  assumes "engine_ok E" and "ph_inv (app_ph s)"
  shows "\<exists>h. run_callbacks E cbs s = (Inr (), s\<lparr>app_ph := h\<rparr>) \<and> ph_inv h"
  using assms(2)
proof (induction cbs arbitrary: s)
  case Nil
  then show ?case by (intro exI [of _ "app_ph s"]) (simp add: run_callbacks_def act_return_def)
next
  case (Cons cb cbs)
  obtain h where h: "run_callback E cb (app_ph s) = (Inr (), h)" "ph_inv h"
    using run_callback_ok [OF assms(1) Cons.prems] by blast
  with Cons.IH [of "s\<lparr>app_ph := h\<rparr>"] show ?case
    by (auto simp: run_callbacks_def act_bind_def act_zoom_def)
qed

lemma on_packet_ok:
  assumes "engine_ok E" and "ph_inv (app_ph s)"
  shows "\<exists>h r. on_packet E L p s = (Inr (), s\<lparr>app_reassembly := r, app_ph := h\<rparr>) \<and> ph_inv h"
proof (cases "pcap_is_tcp L p")
  case True
  obtain cbs r where "pcap_reassemble L (app_reassembly s) p = (cbs, r)" by fastforce
  with True run_callbacks_ok [OF assms(1), of "s\<lparr>app_reassembly := r\<rparr>" cbs] assms(2) show ?thesis
    by (auto simp: on_packet_def)
next
  case False
  then show ?thesis
    using assms(2) by (intro exI [of _ "app_ph s"] exI [of _ "app_reassembly s"]) (simp add: on_packet_def)
qed

lemma close_all_ok:
  assumes "engine_ok E" and "ph_inv (app_ph s)"
  shows "\<exists>h r. close_all_connections E L s = (Inr (), s\<lparr>app_reassembly := r, app_ph := h\<rparr>) \<and> ph_inv h"
proof -
  obtain cbs r where "pcap_close_all L (app_reassembly s) = (cbs, r)" by fastforce
  with run_callbacks_ok [OF assms(1), of "s\<lparr>app_reassembly := r\<rparr>" cbs] assms(2) show ?thesis
    by (auto simp: close_all_connections_def)
qed

lemma app_inv_handler: "app_inv s \<Longrightarrow> ph_inv h \<Longrightarrow> app_inv (s\<lparr>app_reassembly := r, app_ph := h\<rparr>)"
  by (simp add: app_inv_def)

lemma start_capture_ok:
  fixes L :: "('p, 'r) pcap_library"
  assumes "engine_ok E"
  shows "web_ok True (start_capture E L)"
proof (rule tripleI)
  fix s :: "('p, 'r) app" assume s: "app_inv s"
  with assms show "case start_capture E L s of (Inl e, s') \<Rightarrow> web_throw app_inv True e s' | (Inr x, s') \<Rightarrow> app_inv s'"
    using close_all_ok [of E "s\<lparr>app_capturing := True, app_dev := choose_device L (capture_device_ip (config_capture (app_config s)))\<rparr>" L]
    by (auto simp: start_capture_def Let_def act_bind_def act_throw_def app_inv_def split: option.split)
qed

lemma stop_capture_ok: "web_ok X stop_capture"
  by (rule tripleI) (auto simp: stop_capture_def Let_def app_inv_def)

section \<open>The database behind the handlers\<close>

lemma on_app_db_ok:
  assumes "triple db_inv m (\<lambda>_. db_inv) (\<lambda>e d. is_std_exception e \<and> db_inv d)"
  shows "web_ok X (on_app_db m)"
proof (rule tripleI)
  fix s :: "('p, 'r) app" assume s: "app_inv s"
  obtain r d where m: "m (ph_db (app_ph s)) = (r, d)" by fastforce
  have "db_inv (ph_db (app_ph s))" using s by (simp add: app_inv_def ph_inv_def)
  with m assms have "db_inv d \<and> (\<forall>e. r = Inl e \<longrightarrow> is_std_exception e)"
    by (cases r) (auto dest: tripleD tripleD_throw)
  with m s show "case on_app_db m s of (Inl e, s') \<Rightarrow> web_throw app_inv X e s' | (Inr x, s') \<Rightarrow> app_inv s'"
    by (cases r) (simp_all add: on_app_db_def act_zoom_def app_inv_def ph_inv_def)
qed

text \<open>A statement that only reads leaves the database as it is.\<close>

definition quiet :: "db \<Rightarrow> 'j query_state \<Rightarrow> bool" where
  "quiet d q \<longleftrightarrow> sel_effect (q_stmt q) = [] \<and> q_db q = d"

lemma select_new_quiet:
  "reads R query \<Longrightarrow> select_new R query d = (Inr st, d') \<Longrightarrow> d' = d \<and> sel_effect st = []"
  by (auto simp: select_new_def reads_def split: sum.splits)

text \<open>An action on a quiet statement, and what it leaves of the database.\<close>

definition stays_quiet :: "('j query_state, 'a) act \<Rightarrow> bool" where
  "stays_quiet m \<longleftrightarrow> (\<forall>d. triple (quiet d) m (\<lambda>_. quiet d) (\<lambda>_. quiet d))"

lemma stays_quiet_rules:
  "stays_quiet select_execute_step" "stays_quiet (select_get_column i)" "stays_quiet (select_get_column_named name)"
  "stays_quiet (act_return x)" "stays_quiet (act_get f)"
  "(\<And>q. q_stmt (h q) = q_stmt q \<and> q_db (h q) = q_db q) \<Longrightarrow> stays_quiet (act_modify h)"
  "stays_quiet m \<Longrightarrow> (\<And>x. stays_quiet (g x)) \<Longrightarrow> stays_quiet (act_bind m g)"
  "(\<And>n. n \<in> set ns \<Longrightarrow> stays_quiet n) \<Longrightarrow> stays_quiet (act_seq ns)"
  "(b \<Longrightarrow> stays_quiet w) \<Longrightarrow> stays_quiet (act_when b w)"
proof -
  show "stays_quiet (act_bind m g)" if "stays_quiet m" "\<And>x. stays_quiet (g x)"
    using that unfolding stays_quiet_def by (blast intro: triple_bind)
  show "stays_quiet (act_seq ns)" if "\<And>n. n \<in> set ns \<Longrightarrow> stays_quiet n"
    using that unfolding stays_quiet_def by (blast intro: triple_seq)
qed (auto simp: stays_quiet_def triple_def quiet_def select_execute_step_def select_try_execute_step_def Let_def act_bind_def act_get_def
    act_throw_def act_return_def act_modify_def act_when_def select_get_column_def select_get_column_named_def
    select_check_row_def select_check_index_def split: list.splits prod.splits option.split)

lemma stays_quiet_rows:
  "stays_quiet (query_rows J first n)" "stays_quiet (schema_pass R J)"
proof -
  have push: "stays_quiet (push_columns J f is vals)" for f "is" vals
    by (induction "is" arbitrary: vals) (auto intro!: stays_quiet_rules)
  have row: "stays_quiet (query_row J first)" for first
    unfolding query_row_def by (intro stays_quiet_rules) (auto intro!: stays_quiet_rules push simp del: act_seq.simps)
  show "stays_quiet (query_rows J first n)"
  proof (induction n arbitrary: first)
    case (Suc n)
    have "stays_quiet (if more then act_bind (query_row J first) (\<lambda>_. query_rows J False n) else act_return ())" for more
      using stays_quiet_rules(7) [OF row, of "\<lambda>_. query_rows J False n" first] Suc stays_quiet_rules(4) by (cases more) simp_all
    then show ?case unfolding query_rows.simps by (intro stays_quiet_rules)
  qed (simp only: query_rows.simps stays_quiet_rules)
  show "stays_quiet (schema_pass R J)"
    unfolding schema_pass_def Let_def
  proof (intro stays_quiet_rules)
    fix more :: bool
    let ?pass = "act_bind (select_get_column_named ''name'') (\<lambda>col.
      act_bind (act_when (column_get_string col \<noteq> ''sqlite_sequence'') (act_modify (\<lambda>q. q\<lparr>q_res :=
        json_push_back J (q_res q) (schema_table R J (db_history (q_db q)) (column_get_string col))\<rparr>)))
      (\<lambda>_. act_return True))"
    have "stays_quiet ?pass" by (intro stays_quiet_rules) simp
    then show "stays_quiet (if \<not> more then act_return False else ?pass)"
      using stays_quiet_rules(4) by (cases more) simp_all
  qed
qed

lemma quiet_end:
  assumes "stays_quiet m" and "quiet d q" and "m q = (r, q')"
  shows "q_db q' = d"
proof -
  have "triple (quiet d) m (\<lambda>_. quiet d) (\<lambda>_. quiet d)" using assms(1) by (simp add: stays_quiet_def)
  with assms(2,3) have "quiet d q'" by (cases r) (auto dest: tripleD tripleD_throw)
  then show ?thesis by (simp add: quiet_def)
qed

lemma db_query_quiet: "reads R query \<Longrightarrow> snd (db_query R J n query d) = d"
proof (cases "rd_prepare R (db_history d) query")
  case (Inr p)
  assume "reads R query"
  with Inr obtain st where new: "select_new R query d = (Inr st, d)" "sel_effect st = []"
    by (simp add: select_new_def reads_def)
  let ?q = "\<lparr>q_db = d, q_stmt = st, q_res = json_null J, q_rows = json_array J\<rparr>"
  obtain r q where run: "query_rows J True (nat n) ?q = (r, q)" by fastforce
  have "quiet d ?q" using new(2) by (simp add: quiet_def)
  from quiet_end [OF stays_quiet_rows(1) this run] have "q_db q = d" .
  with new run show ?thesis by (cases r) (simp_all add: db_query_def)
qed (simp add: db_query_def select_new_def)

lemma count_packets_quiet: "reads R count_query \<Longrightarrow> snd (count_packets R d) = d"
proof (cases "rd_prepare R (db_history d) count_query")
  case (Inr p)
  assume "reads R count_query"
  with Inr obtain st where new: "select_new R count_query d = (Inr st, d)" "sel_effect st = []"
    by (simp add: select_new_def reads_def)
  let ?q = "\<lparr>q_db = d, q_stmt = st, q_res = (), q_rows = ()\<rparr>"
  let ?m = "act_bind select_execute_step (\<lambda>_. select_get_column 0) :: (unit query_state, sql_value) act"
  obtain r q where run: "?m ?q = (r, q)" by fastforce
  have "stays_quiet ?m" by (intro stays_quiet_rules)
  moreover have "quiet d ?q" using new(2) by (simp add: quiet_def)
  ultimately have "q_db q = d" using run by (rule quiet_end)
  with new(1) run show ?thesis
    by (cases r) (simp_all add: count_packets_def count_query_def db_exec_and_get_def
        act_bind_def [of "act_bind _ _"] act_bind_def [of "select_new _ _"] act_return_def)
qed (simp add: count_packets_def count_query_def db_exec_and_get_def act_bind_def select_new_def)

lemma get_schema_quiet:
  assumes "reads R tables_query" and "get_schema R J d = Some (res, d')"
  shows "d' = d"
proof (cases "rd_prepare R (db_history d) tables_query")
  case (Inl ret)
  with assms(2) show ?thesis by (simp add: get_schema_def select_new_def)
next
  case (Inr p)
  with assms(1) obtain st where new: "select_new R tables_query d = (Inr st, d)" "sel_effect st = []"
    by (simp add: select_new_def reads_def)
  let ?q = "\<lparr>q_db = d, q_stmt = st, q_res = json_array J, q_rows = json_array J\<rparr>"
  obtain r q where y: "act_loop (schema_pass R J) ?q = Some (r, q)" "d' = q_db q"
    using assms(2) new(1) by (auto simp: get_schema_def)
  have "quiet d ?q" using new(2) by (simp add: quiet_def)
  from loop_triple [OF spec [OF stays_quiet_rows(2) [unfolded stays_quiet_def]] this y(1)] have "quiet d q" by (cases r) simp_all
  with y(2) show ?thesis by (simp add: quiet_def)
qed

section \<open>Handlers\<close>

lemma web_on_db_quiet:
  assumes "throws_std m" and "\<And>d. snd (m d) = d"
  shows "web_ok X (on_app_db m)"
proof (rule on_app_db_ok, rule tripleI)
  fix d assume "db_inv d"
  moreover obtain r where "m d = (r, d)" using assms(2) [of d] by (cases "m d") simp
  ultimately show "case m d of (Inl e, s') \<Rightarrow> is_std_exception e \<and> db_inv s' | (Inr x, s') \<Rightarrow> db_inv s'"
    using tripleD_throw [OF assms(1) TrueI] by (cases r) auto
qed

lemma destroy_ok:
  assumes "engine_ok E" and "tables_ok T"
  shows "web_ok X (on_app_db (\<lambda>d. destroy_capture_data E (T (db_history d)) d))"
proof (rule on_app_db_ok, rule tripleI)
  fix d assume "db_inv d"
  moreover have "triple db_inv (destroy_capture_data E (T (db_history d))) (\<lambda>_. db_inv) no_throw"
    using triple_destroy_capture_data [OF assms(1)] assms(2) by (simp add: tables_ok_def)
  ultimately show "case destroy_capture_data E (T (db_history d)) d of (Inl e, s') \<Rightarrow> is_std_exception e \<and> db_inv s'
      | (Inr x, s') \<Rightarrow> db_inv s'"
    using triple_returns by fastforce
qed

interpretation reading: web_contract web_env_ok app_inv request_reads
proof unfold_locales
  fix V :: "('a, 'b, 'c) app_environment" and request sql n X
  assume "request_reads V request" "find_resource request = Some CaptureQuery" "asked V request = Some sql"
  then have "reads (ae_reader V) sql" by (simp add: request_reads_def)
  then show "web_ok X (on_app_db (db_query (ae_reader V) (ae_json V) n sql) :: (('a, 'b) app, 'c) act)"
    by (intro web_on_db_quiet std_throw db_query_quiet)
next
  fix V :: "('a, 'b, 'c) app_environment" and X assume V: "web_env_ok V"
  then have parts: "engine_ok (ae_env V)" "tables_ok (ae_tables V)" "json_throws (ae_json V)"
      "reads (ae_reader V) count_query" "reads (ae_reader V) tables_query"
    by (simp_all add: web_env_ok_def)
  show "web_ok True (start_capture (ae_env V) (ae_pcap V))" by (rule start_capture_ok [OF parts(1)])
  show "web_ok X (on_app_db (count_packets (ae_reader V)) :: (('a, 'b) app, int) act)"
    by (intro web_on_db_quiet std_throw count_packets_quiet [OF parts(4)])
  show "web_ok X (on_app_db (count_packets_per_type (ae_reader V) (ae_json V)) :: (('a, 'b) app, string) act)"
    by (intro web_on_db_quiet std_throw parts(3)) (simp add: count_packets_per_type_def split: sum.split)
  show "web_ok X (on_app_db (\<lambda>d. destroy_capture_data (ae_env V) (ae_tables V (db_history d)) d) :: (('a, 'b) app, unit) act)"
    by (rule destroy_ok [OF parts(1,2)])
  show "json_throws (ae_json V)" by (rule parts(3))
  show "app_inv (s\<lparr>app_ph := (app_ph s)\<lparr>ph_db := d\<rparr>\<rparr>)"
    if "app_inv s" "get_schema (ae_reader V) (ae_json V) (ph_db (app_ph s)) = Some (res, d)" for s :: "('a, 'b) app" and res d
    using get_schema_quiet [OF parts(5) that(2)] that(1) by simp
next
  show "web_ok X (stop_capture :: (('a, 'b) app, unit) act)" for X by (rule stop_capture_ok)
qed

section \<open>Steps keep the invariant\<close>

lemma import_begin_inv: "app_inv s \<Longrightarrow> app_import s = None \<Longrightarrow> import_begin L path s = (Inr (), s') \<Longrightarrow> app_inv s'"
  by (auto simp: import_begin_def Let_def app_inv_def split: option.splits if_splits)

lemma import_pass_inv:
  assumes "engine_ok E" and "app_inv s" and "import_pass E L s = (Inr (), s')"
  shows "app_inv s'"
proof -
  have "ph_inv (app_ph s)" using assms(2) by (simp add: app_inv_def)
  then show ?thesis
  proof (cases "\<exists>p ps n. app_import s = Some (p # ps, n)")
    case True
    then obtain p ps n where p: "app_import s = Some (p # ps, n)" by blast
    from on_packet_ok [OF assms(1) \<open>ph_inv (app_ph s)\<close>, of L p] assms(2,3) p show ?thesis
      by (auto simp: import_pass_def act_bind_def app_inv_def)
  next
    case False
    with assms(2,3) show ?thesis by (auto simp: import_pass_def split: option.splits list.splits prod.splits)
  qed
qed

lemma import_end_inv:
  assumes "engine_ok E" and "app_inv s" and "import_end E L s = (Inr (), s')"
  shows "app_inv s'"
proof -
  have "ph_inv (app_ph s)" using assms(2) by (simp add: app_inv_def)
  from close_all_ok [OF assms(1) this, of L] assms(2,3) show ?thesis
    by (auto simp: import_end_def act_bind_def act_modify_def act_return_def app_inv_def split: option.splits list.splits prod.splits)
qed

lemma app_process_inv:
  assumes "engine_ok E" and "buffer_ok E" and "app_inv s" and "app_process E s = Some (out, s')"
  shows "out \<noteq> UndefinedBehaviour \<and> app_inv s'"
proof -
  let ?s = "if ph_stopped (app_ph s) \<or> ph_packet_queue (app_ph s) = [] then s else check_maximum s"
  have ph: "app_ph ?s = app_ph s" and inv: "app_inv ?s"
    using assms(3) by (auto simp: check_maximum_def Let_def app_inv_def)
  obtain h where h: "process_packet E (config_capture (app_config ?s)) (app_ph ?s) = Some (out, h)" "s' = ?s\<lparr>app_ph := h\<rparr>"
    using assms(4) by (auto simp: app_process_def Let_def split: if_splits)
  have "ph_inv (app_ph ?s)" using inv by (simp add: app_inv_def)
  from process_packet_ok [OF assms(1,2) this h(1)] inv h(2) show ?thesis by (simp add: app_inv_def)
qed

lemma sig_handler_inv: "app_inv s \<Longrightarrow> sig_handler s = (Inr (), s') \<Longrightarrow> app_inv s'"
  by (auto simp: sig_handler_def act_bind_def act_modify_def act_return_def stop_capture_def Let_def app_inv_def
      ph_inv_def stop_packet_processing_thread_def split: if_splits)

text \<open>The flags and the queue, whatever the engine answers and whatever texts clients ask.\<close>

definition reported_ok :: "('p, 'r) app \<Rightarrow> bool" where
  "reported_ok s \<longleftrightarrow> flags_ok s \<and> queue_ok (app_ph s)"

lemma reported_frame:
  assumes "reported_ok s" and "keeps app_flags m" and "keeps_queue app_ph m" and "m s = (r, s')"
  shows "reported_ok s'"
proof -
  have "app_flags s' = app_flags s" "queue_ok (app_ph s')"
    using assms keepsD [OF assms(2,4)] by (auto simp: reported_ok_def keeps_queue_def)
  with assms(1) show ?thesis by (simp add: reported_ok_def flags_ok_def app_flags_def)
qed

lemma reported_begin: "reported_ok s \<Longrightarrow> app_import s = None \<Longrightarrow> import_begin L path s = (Inr (), s') \<Longrightarrow> reported_ok s'"
  by (auto simp: import_begin_def Let_def reported_ok_def flags_ok_def split: option.splits if_splits)

lemma reported_pass:
  assumes "reported_ok s" and "import_pass E L s = (Inr (), s')"
  shows "reported_ok s'"
proof (cases "\<exists>p ps n. app_import s = Some (p # ps, n)")
  case True
  then obtain p ps n where p: "app_import s = Some (p # ps, n)" by blast
  obtain r s1 where on: "on_packet E L p s = (r, s1)" by fastforce
  have "reported_ok s1" by (rule reported_frame [OF assms(1) keeps_flags(5) keeps_queue_app(4) on])
  moreover have "app_import s1 = app_import s" using keepsD [OF keeps_flags(5) on] by (simp add: app_flags_def)
  ultimately show ?thesis
    using assms(2) p on by (auto simp: import_pass_def act_bind_def reported_ok_def flags_ok_def split: sum.splits)
next
  case False
  with assms show ?thesis by (auto simp: import_pass_def split: option.splits list.splits prod.splits)
qed

lemma reported_end:
  assumes "reported_ok s" and "import_end E L s = (Inr (), s')"
  shows "reported_ok s'"
proof (cases "\<exists>n. app_import s = Some ([], n)")
  case True
  obtain r s1 where on: "close_all_connections E L s = (r, s1)" by fastforce
  have "reported_ok s1" by (rule reported_frame [OF assms(1) keeps_flags(4) keeps_queue_app(3) on])
  with assms(2) True on show ?thesis
    by (auto simp: import_end_def act_bind_def act_modify_def act_return_def reported_ok_def flags_ok_def split: sum.splits)
next
  case False
  with assms show ?thesis by (auto simp: import_end_def split: option.splits list.splits prod.splits)
qed

lemma reported_process:
  assumes "reported_ok s" and "app_process E s = Some (out, s')"
  shows "reported_ok s'"
proof -
  let ?s = "if ph_stopped (app_ph s) \<or> ph_packet_queue (app_ph s) = [] then s else check_maximum s"
  have s: "reported_ok ?s" using assms(1) by (auto simp: check_maximum_def Let_def reported_ok_def flags_ok_def)
  obtain h where h: "process_packet E (config_capture (app_config ?s)) (app_ph ?s) = Some (out, h)" "s' = ?s\<lparr>app_ph := h\<rparr>"
    using assms(2) by (auto simp: app_process_def Let_def split: if_splits)
  have "queue_ok (app_ph ?s)" using s by (simp add: reported_ok_def)
  from process_packet_queue [OF this h(1)] s h(2) show ?thesis by (simp add: reported_ok_def flags_ok_def)
qed

lemma reported_signal: "reported_ok s \<Longrightarrow> sig_handler s = (Inr (), s') \<Longrightarrow> reported_ok s'"
  by (auto simp: sig_handler_def act_bind_def act_modify_def act_return_def stop_capture_def Let_def reported_ok_def
      flags_ok_def queue_ok_def stop_packet_processing_thread_def split: if_splits)

lemma app_step_reported:
  fixes V :: "('p, 'r, 'j) app_environment"
  assumes "json_throws (ae_json V)" and "reported_ok s" and "app_step V s ev s'"
  shows "reported_ok s'"
  using assms(3)
proof cases
  case (live p)
  then show ?thesis
    using assms(2) reported_frame [OF assms(2) keeps_flags(5) keeps_queue_app(4), of "ae_env V" "ae_pcap V" p]
    by (auto simp: live_packet_def split: if_splits)
next
  case (request input answer)
  with flags.serve_returns [of V s input] assms(1,2) show ?thesis
    by (cases answer) (auto simp: reported_ok_def)
qed (use assms(2) in \<open>blast intro: reported_begin reported_pass reported_end reported_signal reported_process\<close>)+

lemma app_run_reported: "app_run V s evs s' \<Longrightarrow> json_throws (ae_json V) \<Longrightarrow> reported_ok s \<Longrightarrow> reported_ok s'"
  by (induction rule: app_run.induct) (auto intro: app_step_reported)

lemma app_start_reported: "reported_ok (app_start conf d r)"
  by (simp add: reported_ok_def flags_ok_def queue_ok_def app_start_def ph_start_def)

text \<open>A text of a request, if it asks for SQL, asks a text that only reads.\<close>

definition input_reads :: "('p, 'r, 'j) app_environment \<Rightarrow> string \<Rightarrow> bool" where
  "input_reads V input \<longleftrightarrow> (\<forall>request content. request_parse input = Some (request, content) \<longrightarrow> request_reads V request)"

lemma app_step_inv:
  fixes V :: "('p, 'r, 'j) app_environment"
  assumes "web_env_ok V" and "app_inv s" and "app_step V s ev s'" and "\<And>input. ev = Request input \<Longrightarrow> input_reads V input"
  shows "app_inv s'"
proof -
  have E: "engine_ok (ae_env V)" "buffer_ok (ae_env V)" using assms(1) by (simp_all add: web_env_ok_def)
  from assms(3) show ?thesis
  proof cases
    case (live p)
    have "ph_inv (app_ph s)" using assms(2) by (simp add: app_inv_def)
    from on_packet_ok [OF E(1) this, of "ae_pcap V" p] live assms(2) show ?thesis
      by (auto simp: live_packet_def app_inv_handler split: if_splits)
  next
    case (request input answer)
    then have "\<And>request content. request_parse input = Some (request, content) \<Longrightarrow> request_reads V request"
      using assms(4) by (simp add: input_reads_def)
    from reading.serve_returns [OF assms(1,2) this, of input] request assms(2) show ?thesis
      by (cases answer) auto
  qed (use E assms(2) in \<open>blast intro: import_begin_inv import_pass_inv import_end_inv sig_handler_inv
    dest: app_process_inv\<close>)+
qed

lemma app_run_inv:
  "app_run V s evs s' \<Longrightarrow> web_env_ok V \<Longrightarrow> app_inv s \<Longrightarrow> \<forall>input. Request input \<in> set evs \<longrightarrow> input_reads V input \<Longrightarrow> app_inv s'"
  by (induction rule: app_run.induct) (auto intro: app_step_inv)

lemma app_start_inv: "db_inv d \<Longrightarrow> app_inv (app_start conf d r)"
  by (simp add: app_inv_def app_start_def ph_inv_start)

end
