(* ===== verification/DbReads.thy ===== *)
theory DbReads
  imports DbQuery DbSafety
begin

text \<open>
  What the reads of the database say of its tables: the count of packets and the counts per type
  agree, the schema has every table once, and the example reader the witnesses use.
\<close>

section \<open>Counts\<close>

text \<open>The engine answers the count query by the packet table, in one row.\<close>

definition count_ok :: "sqlite_reader \<Rightarrow> bool" where
  "count_ok R \<longleftrightarrow> (\<forall>h. rd_prepare R h ''select count(*) from packet'' =
     Inr \<lparr>pr_columns = [''count(*)''], pr_rows = [[SqlInt (int (length (rows h TablePacket)))]],
       pr_end = SQLITE_DONE, pr_effect = []\<rparr>)"

lemma sum_types:
  assumes "\<forall>r \<in> set rs. \<exists>k < 32. r ! 3 = SqlInt (int k)"
  shows "(\<Sum>k < 32. length (filter (\<lambda>r. r ! 3 = SqlInt (int k)) rs)) = length rs"
  using assms
proof (induction rs)
  case (Cons r rs)
  then obtain k where k: "k < 32" "r ! 3 = SqlInt (int k)" by auto
  have "(\<Sum>j < 32. length (filter (\<lambda>r. r ! 3 = SqlInt (int j)) (r # rs))) =
      (\<Sum>j < 32. length (filter (\<lambda>r. r ! 3 = SqlInt (int j)) rs) + (if j = k then 1 else 0))"
    using k(2) by (intro sum.cong) auto
  also have "\<dots> = length (r # rs)"
    using Cons k(1) by (simp add: sum.distrib)
  finally show ?case .
qed simp

lemma sum_list_nth: "length cs = n \<Longrightarrow> sum_list cs = (\<Sum>k < n. cs ! k)"
  by (simp add: sum_list_sum_nth lessThan_atLeast0)

lemma count_packets_result:
  "count_ok R \<Longrightarrow> count_packets R d = (Inr (int (length (rows (db_history d) TablePacket))), d)"
  by (simp add: count_packets_def db_exec_and_get_def act_bind_def select_new_def count_ok_def
      select_execute_step_def select_try_execute_step_def Let_def sqlite_codes select_get_column_def
      select_check_row_def select_check_index_def act_get_def act_return_def)
definition count_object :: "('j, 'm) json_library_scheme \<Rightarrow> u64 \<Rightarrow> int \<Rightarrow> 'j" where
  "count_object J count i = json_assign J (json_assign J (json_object J) ''count'' (json_integer J (uint count)))
     ''type'' (json_integer J i)"

lemma per_type_loop_objects:
  "per_type_loop J i counts arr =
     foldl (json_push_back J) arr (map (\<lambda>k. count_object J (counts ! k) (i + int k)) [0..<length counts])"
proof (induction counts arbitrary: i arr)
  case (Cons c counts)
  have "[0..<length (c # counts)] = 0 # map Suc [0..<length counts]"
    by (simp add: upt_conv_Cons map_Suc_upt del: upt_Suc)
  with Cons.IH show ?case
    by (simp add: count_object_def comp_def add.commute add.left_commute del: upt_Suc)
qed simp

text \<open>
  The two counts the web interface offers agree. In every state that satisfies the invariant of the
  database, the number of packets the engine counts in the packet table is, as a 64-bit word, the
  sum of the counters per message type; and the answer of \<open>count_packets_per_type\<close> is the text of an
  array with one object per type from 0 to 31, each with the number of packet rows of its type.
\<close>

theorem counts_agree:
  assumes "db_inv d" and "count_ok R"
    and "json_dump J 5 (json_array_of J (map (\<lambda>k.
      count_object J (of_nat (packets_of_type (db_history d) k)) (int k)) [0..<32])) = Inr text"
  shows "count_packets R d = (Inr (int (length (rows (db_history d) TablePacket))), d) \<and>
    (of_nat (length (rows (db_history d) TablePacket)) :: u64) = sum_list (db_count_per_type d) \<and>
    count_packets_per_type R J d = (Inr text, d)"
proof -
  have types: "types_known (db_history d)" and counts: "length (db_count_per_type d) = 32"
      "\<And>k. k < 32 \<Longrightarrow> db_count_per_type d ! k = of_nat (packets_of_type (db_history d) k)"
    using assms(1) by (simp_all add: db_inv_def db_mid_def)
  have "sum_list (db_count_per_type d) = (\<Sum>k < 32. of_nat (packets_of_type (db_history d) k))"
    using counts by (simp add: sum_list_nth [OF counts(1)])
  also have "\<dots> = (of_nat (length (rows (db_history d) TablePacket)) :: u64)"
    using sum_types types by (simp add: packets_of_type_def types_known_def flip: of_nat_sum)
  finally have "sum_list (db_count_per_type d) = (of_nat (length (rows (db_history d) TablePacket)) :: u64)" .
  moreover have "map (\<lambda>k. count_object J (db_count_per_type d ! k) (0 + int k)) [0..<32] =
      map (\<lambda>k. count_object J (of_nat (packets_of_type (db_history d) k)) (int k)) [0..<32]"
    using counts(2) by (intro map_cong) simp_all
  then have "count_packets_per_type R J d = (Inr text, d)"
    using assms(3) counts(1)
    by (simp only: count_packets_per_type_def per_type_loop_objects json_array_of_def sum.case)
  ultimately show ?thesis using count_packets_result [OF assms(2)] by simp
qed

section \<open>The schema\<close>

text \<open>The engine lists the tables in rows of one column.\<close>

lemma schema_loop:
  assumes "\<not> sel_done (q_stmt q)" and "sel_columns (q_stmt q) = [''name'']"
    and "sel_rest (q_stmt q) = map (\<lambda>t. [SqlText t]) names" and "sel_end (q_stmt q) = SQLITE_DONE"
    and "sel_effect (q_stmt q) = []"
  shows "\<exists>st. act_loop (schema_pass R J) q = Some (Inr (), q\<lparr>q_stmt := st,
    q_res := foldl (json_push_back J) (q_res q)
      (map (schema_table R J (db_history (q_db q))) (filter (\<lambda>t. t \<noteq> ''sqlite_sequence'') names))\<rparr>)"
  using assms
proof (induction names arbitrary: q)
  case Nil
  then have "schema_pass R J q = (Inr False, q\<lparr>q_stmt := (q_stmt q)\<lparr>sel_effect := [], sel_has_row := False, sel_done := True\<rparr>\<rparr>)"
    by (simp add: schema_pass_def act_bind_def select_step_end sqlite_codes act_return_def)
  then show ?case
    by (subst act_loop.simps) (simp add: exI)
next
  case (Cons t names)
  let ?st = "(q_stmt q)\<lparr>sel_row := [SqlText t], sel_rest := map (\<lambda>t. [SqlText t]) names, sel_effect := [], sel_has_row := True\<rparr>"
  let ?res = "if t \<noteq> ''sqlite_sequence'' then json_push_back J (q_res q) (schema_table R J (db_history (q_db q)) t) else q_res q"
  let ?q = "q\<lparr>q_stmt := ?st, q_res := ?res\<rparr>"
  have "schema_pass R J q = (Inr True, ?q)"
    using Cons.prems
    by (simp add: schema_pass_def act_bind_def select_step_row act_return_def select_get_column_named_def
        select_check_row_def act_get_def column_index_def Let_def act_when_def act_modify_def)
  then have "act_loop (schema_pass R J) q = act_loop (schema_pass R J) ?q"
    by (subst act_loop.simps) simp
  moreover have "\<exists>st. act_loop (schema_pass R J) ?q = Some (Inr (), ?q\<lparr>q_stmt := st,
      q_res := foldl (json_push_back J) ?res
        (map (schema_table R J (db_history (q_db q))) (filter (\<lambda>t. t \<noteq> ''sqlite_sequence'') names))\<rparr>)"
    using Cons.IH [of ?q] Cons.prems by simp
  ultimately show ?case by (cases "t = ''sqlite_sequence''") simp_all
qed

text \<open>
  The schema has one entry for every table the engine lists, in its order and without the engine's
  own sequence table; the loop over the tables ends, and the database is as it was.
\<close>

theorem schema_lists_tables:
  assumes "rd_prepare R (db_history d) tables_query = Inr \<lparr>pr_columns = [''name''],
    pr_rows = map (\<lambda>t. [SqlText t]) names, pr_end = SQLITE_DONE, pr_effect = []\<rparr>"
  shows "get_schema R J d = Some (Inr (json_array_of J (map (schema_table R J (db_history d))
    (filter (\<lambda>t. t \<noteq> ''sqlite_sequence'') names))), d)"
proof -
  let ?q = "\<lparr>q_db = d, q_stmt = \<lparr>sel_columns = [''name''], sel_rest = map (\<lambda>t. [SqlText t]) names, sel_end = SQLITE_DONE,
      sel_effect = [], sel_row = [], sel_has_row = False, sel_done = False\<rparr>, q_res = json_array J, q_rows = json_array J\<rparr>"
  have "\<exists>st. act_loop (schema_pass R J) ?q = Some (Inr (), ?q\<lparr>q_stmt := st,
      q_res := json_array_of J (map (schema_table R J (db_history d)) (filter (\<lambda>t. t \<noteq> ''sqlite_sequence'') names))\<rparr>)"
    using schema_loop [of ?q names R J] by (simp add: json_array_of_def)
  then show ?thesis
    using assms by (auto simp: get_schema_def select_new_def)
qed

end
