(* ===== verification/AppLaws.thy ===== *)
theory AppLaws
  imports AppRuns DbReads
begin

text \<open>
  What holds of the application and its web interface, from the text of a request to the text of
  the answer, and what of it depends on the texts of SQL that clients ask; and an application
  environment that satisfies what is assumed of one.
\<close>

section \<open>An application environment\<close>

text \<open>
  A reader that answers the two queries of the database itself, deletes the packets when it is asked
  to, and rejects any other text.
\<close>

definition delete_text :: string where
  "delete_text = ''delete from packet''"

definition sample_reader :: sqlite_reader where
  "sample_reader = \<lparr>
     rd_prepare = (\<lambda>h query.
       if query = ''select count(*) from packet'' then
         Inr \<lparr>pr_columns = [''count(*)''], pr_rows = [[SqlInt (int (length (rows h TablePacket)))]],
           pr_end = SQLITE_DONE, pr_effect = []\<rparr>
       else if query = tables_query then
         Inr \<lparr>pr_columns = [''name''], pr_rows = [[SqlText ''packet''], [SqlText ''sqlite_sequence'']],
           pr_end = SQLITE_DONE, pr_effect = []\<rparr>
       else if query = delete_text then
         Inr \<lparr>pr_columns = [], pr_rows = [], pr_end = SQLITE_DONE, pr_effect = [SqlDelete TablePacket]\<rparr>
       else Inl 1),
     rd_errmsg = (\<lambda>ret. ''SQL logic error''), rd_text_int64 = (\<lambda>s. 0), rd_table_info = (\<lambda>h query. (0, []))\<rparr>"

definition sample_pcap :: "(bytes, unit) pcap_library" where
  "sample_pcap = \<lparr>
     pcap_devices = [(''lo'', ''127.0.0.1''), (''eth0'', ''10.0.0.1'')],
     pcap_device_by_ip = (\<lambda>ip. if ip = ''10.0.0.1'' then Some 1 else None),
     pcap_open = (\<lambda>dev. True), pcap_set_filter = (\<lambda>dev filter. True),
     pcap_file = (\<lambda>path. None), pcap_file_filter = (\<lambda>path filter. None),
     pcap_is_tcp = (\<lambda>p. True),
     pcap_reassemble = (\<lambda>r p. ([TcpMessageReady sample_connection p 0], r)),
     pcap_close_all = (\<lambda>r. ([], r))\<rparr>"

text \<open>The files \<open>index.html\<close> below the root, and \<open>secret\<close> beside it.\<close>

definition sample_fs :: fs_library where
  "sample_fs = \<lparr>
     fs_root = [''/'', ''public''],
     fs_components = (\<lambda>t. if t = ''/../secret'' then [''..'', ''secret''] else if t = ''/'' then [] else [t]),
     fs_append = (\<lambda>p t. p @ (if t = ''/../secret'' then [''..'', ''secret''] else if t = ''/'' then [] else [t])),
     fs_exists = (\<lambda>p. p \<in> {[''/'', ''public''], [''/'', ''public'', ''..'', ''secret'']}),
     fs_is_directory = (\<lambda>p. p = [''/'', ''public'']),
     fs_read = (\<lambda>p. if p = [''/'', ''public'', ''..'', ''secret''] then Some ''key'' else None),
     fs_extension = (\<lambda>p. []), fs_string = concat\<rparr>"

definition sample_app_environment :: "(bytes, unit, sample_json) app_environment" where
  "sample_app_environment = \<lparr>ae_env = sample_environment, ae_pcap = sample_pcap,
     ae_json = sample_json_library None, ae_reader = sample_reader, ae_tables = (\<lambda>h. [TablePacket]),
     ae_fs = sample_fs, ae_iterate = (\<lambda>m. m), ae_pick = hd\<rparr>"

lemma sample_reader_ok:
  "rd_prepare sample_reader h query = Inr p \<Longrightarrow> prepared_ok p" "count_ok sample_reader"
  "reads sample_reader count_query" "reads sample_reader tables_query" "\<not> reads sample_reader delete_text"
proof -
  show "rd_prepare sample_reader h query = Inr p \<Longrightarrow> prepared_ok p"
    by (auto simp: sample_reader_def prepared_ok_def sqlite_codes split: if_splits)
  show "count_ok sample_reader" by (simp add: count_ok_def sample_reader_def)
  show "reads sample_reader count_query" "reads sample_reader tables_query"
    by (auto simp: reads_def sample_reader_def count_query_def tables_query_def split: if_splits)
  show "\<not> reads sample_reader delete_text"
    by (simp add: reads_def sample_reader_def delete_text_def tables_query_def)
qed

lemma sample_web_env_ok: "web_env_ok sample_app_environment" "json_throws (ae_json sample_app_environment)"
  using sample_reader_ok(2-4) sample_ok
  by (simp_all add: web_env_ok_def sample_app_environment_def tables_ok_def json_throws_def sample_json_library_def)

section \<open>Requests by their text\<close>

text \<open>What a request a client writes is answered with.\<close>

lemma serve_text:
  assumes "plain_target path" and "\<forall>q. query = Some q \<longrightarrow> plain_target q" and "LF \<notin> set version"
    and "\<forall>f \<in> set flds. plain_field f"
    and "find_resource \<lparr>req_method = ''GET'', req_path = path, req_query_string = (case query of None \<Rightarrow> [] | Some q \<Rightarrow> q),
      req_http_version = version, req_header = flds\<rparr> = Some r"
    and "resource_function V r \<lparr>req_method = ''GET'', req_path = path,
      req_query_string = (case query of None \<Rightarrow> [] | Some q \<Rightarrow> q), req_http_version = version, req_header = flds\<rparr> s =
      Some (Inr answer, s')"
  shows "serve V (request_text ''GET'' path query version flds content) s = Some (Inr (Some answer), s')"
proof -
  have "plain_target ''GET''" by (simp add: plain_target_def)
  from request_parse_text [OF this assms(1-4)] assms(5,6) show ?thesis
    by (simp add: serve_def answer_request_def)
qed

lemma find_resource_path:
  "req_method req = ''GET'' \<Longrightarrow> req_path req = ''/api/v1/capture/query'' \<Longrightarrow> find_resource req = Some CaptureQuery"
  "req_method req = ''GET'' \<Longrightarrow> req_path req = ''/api/v1/capture/start'' \<Longrightarrow> find_resource req = Some CaptureStart"
  by (simp_all add: find_resource_def resources_def regex_match_def)
section \<open>Runs of the application\<close>

text \<open>C6: 
  In every state the application can reach, whatever the order of packets, imported packets, rounds
  of the processing thread, requests and the signal, whatever the engine answers and whatever text of
  SQL a client asks: it reports to capture just when it holds a device, a device runs only while it
  reports to capture, it reports an import just while there is one, and every packet in the queue has
  data and a connection. When the engine takes the rows of the program, each counter per type is also
  the number of packet rows of its type, and no round of the processing thread is undefined, as long
  as no client has asked a text of SQL that changes the database.
\<close>

theorem app_invariant:
  assumes "json_throws (ae_json V)" and "app_run V (app_start conf d r) evs s"
  shows "(app_capturing s \<longleftrightarrow> app_dev s \<noteq> None) \<and> (app_dev_running s \<longrightarrow> app_capturing s) \<and>
    (app_importing s \<longleftrightarrow> app_import s \<noteq> None) \<and>
    (\<forall>p \<in> set (ph_packet_queue (app_ph s)). info_data p \<noteq> [] \<and> ph_conn_mgr (app_ph s) (info_flow_key p) \<noteq> None) \<and>
    (web_env_ok V \<and> db_inv d \<and> (\<forall>input. Request input \<in> set evs \<longrightarrow> input_reads V input) \<longrightarrow>
      (\<forall>k < 32. db_count_per_type (ph_db (app_ph s)) ! k = of_nat (packets_of_type (db_history (ph_db (app_ph s))) k)) \<and>
      (\<forall>out s'. app_process (ae_env V) s = Some (out, s') \<longrightarrow> out \<noteq> UndefinedBehaviour))"
proof -
  have reported: "reported_ok s" by (rule app_run_reported [OF assms(2,1) app_start_reported])
  have "(\<forall>k < 32. db_count_per_type (ph_db (app_ph s)) ! k = of_nat (packets_of_type (db_history (ph_db (app_ph s))) k)) \<and>
      (\<forall>out s'. app_process (ae_env V) s = Some (out, s') \<longrightarrow> out \<noteq> UndefinedBehaviour)"
    if V: "web_env_ok V" "db_inv d" "\<forall>input. Request input \<in> set evs \<longrightarrow> input_reads V input"
  proof -
    have inv: "app_inv s" by (rule app_run_inv [OF assms(2) V(1) app_start_inv [OF V(2)] V(3)])
    have E: "engine_ok (ae_env V)" "buffer_ok (ae_env V)" using V(1) by (simp_all add: web_env_ok_def)
    from inv app_process_inv [OF E inv] show ?thesis by (auto simp: app_inv_counts)
  qed
  with reported show ?thesis by (auto simp: reported_ok_def flags_ok_def queue_ok_def)
qed



text \<open>A run: the capture is started over the web, a packet comes in, and is processed.\<close>

definition started :: "(bytes, unit) app \<Rightarrow> (bytes, unit) app" where
  "started s = s\<lparr>app_capturing := True, app_dev := Some 1, app_dev_running := True\<rparr>"

definition start_request :: string where
  "start_request = request_text ''GET'' ''/api/v1/capture/start'' None ''1.1'' [] []"

lemma serve_start:
  assumes "capture_filter (config_capture (app_config s)) = []" "capture_device_ip (config_capture (app_config s)) = []"
  shows "serve sample_app_environment start_request s = Some (Inr (Some (write_content ''{}'')), started s)"
  unfolding start_request_def
  by (rule serve_text [where r = CaptureStart])
    (use assms in \<open>simp_all add: plain_target_def find_resource_path resource_function_def web_start_def act_bind_def
      start_capture_def choose_device_def sample_app_environment_def sample_pcap_def Let_def act_return_def started_def\<close>)

lemma sample_app_run:
  "\<exists>s. app_run sample_app_environment (app_start config_default sample_db ()) [Request start_request, LivePacket [1, 2, 3]] s \<and>
     app_capturing s \<and> ph_packet_queue (app_ph s) \<noteq> []"
proof -
  let ?V = sample_app_environment and ?s = "app_start config_default sample_db () :: (bytes, unit) app"
  have "app_step ?V ?s (Request start_request) (started ?s)"
    by (rule app_step.request, rule serve_start) (simp_all add: app_start_def config_default_def config_capture_default_def)
  moreover have "app_step ?V (started ?s) (LivePacket [1, 2, 3])
      ((started ?s)\<lparr>app_reassembly := (), app_ph := msg_ready sample_connection [1, 2, 3] 0 (app_ph ?s)\<rparr>)"
    by (rule app_step.live)
      (simp add: live_packet_def started_def on_packet_def sample_app_environment_def sample_pcap_def run_callbacks_def
        act_bind_def act_zoom_def act_modify_def act_return_def app_start_def)
  ultimately have "app_run ?V ?s [Request start_request, LivePacket [1, 2, 3]]
      ((started ?s)\<lparr>app_reassembly := (), app_ph := msg_ready sample_connection [1, 2, 3] 0 (app_ph ?s)\<rparr>)"
    using app_run.app_snoc [OF app_run.app_snoc [OF app_run.app_nil]] by fastforce
  then show ?thesis
    by (intro exI conjI, assumption) (simp_all add: started_def app_start_def msg_ready_def Let_def hasMissingData_def)
qed

lemma start_request_reads: "input_reads V start_request"
proof -
  have "request_parse start_request = Some (\<lparr>req_method = ''GET'', req_path = ''/api/v1/capture/start'', req_query_string = [],
      req_http_version = ''1.1'', req_header = []\<rparr>, [])"
    unfolding start_request_def by (subst request_parse_text) (simp_all add: plain_target_def)
  then show ?thesis by (simp add: input_reads_def request_reads_def find_resource_path)
qed

theorem app_invariant_witness:
  "\<exists>s :: (bytes, unit) app. app_capturing s \<and> ph_packet_queue (app_ph s) \<noteq> [] \<and> app_dev s \<noteq> None \<and>
     (\<forall>k < 32. db_count_per_type (ph_db (app_ph s)) ! k = of_nat (packets_of_type (db_history (ph_db (app_ph s))) k))"
proof -
  obtain s where s: "app_run sample_app_environment (app_start config_default sample_db ()) [Request start_request, LivePacket [1, 2, 3]] s"
      "app_capturing s" "ph_packet_queue (app_ph s) \<noteq> []"
    using sample_app_run by blast
  have reads: "\<forall>input. Request input \<in> set [Request start_request, LivePacket [1, 2, 3]] \<longrightarrow> input_reads sample_app_environment input"
    using start_request_reads by simp
  note inv = app_invariant [OF sample_web_env_ok(2) s(1)]
  have "\<forall>k < 32. db_count_per_type (ph_db (app_ph s)) ! k = of_nat (packets_of_type (db_history (ph_db (app_ph s))) k)"
    using inv sample_web_env_ok(1) sample_db_inv reads by blast
  moreover have "app_dev s \<noteq> None" using inv s(2) by blast
  ultimately show ?thesis using s(2,3) by blast
qed


section \<open>Texts that write\<close>

text \<open>
  The condition of the counters cannot be dropped: a client that asks a text that deletes the packets is
  obeyed, and the counters stay.
\<close>

lemma deleting_query:
  assumes "rd_prepare R (db_history d) sql = Inr p" and "prepared_ok p" and "pr_effect p = [SqlDelete TablePacket]" and "0 < max_rows"
  shows "\<exists>j d'. db_query R J max_rows sql d = (Inr j, d') \<and> rows (db_history d') TablePacket = [] \<and>
    db_count_per_type d' = db_count_per_type d"
  using assms by (subst db_query_result) (auto simp: Let_def with_effect_def)

end
