(* ===== verification/WebLaws.thy ===== *)
theory WebLaws
  imports AppLaws "HOL-Library.Multiset"
begin

text \<open>
  The laws of the web interface: queries from the text of the request to the rows of the answer,
  static files, and the capture when the database has reached its maximum size.
\<close>

section \<open>Texts of HTTP\<close>

text \<open>
  A request that is written with a method and a target without spaces, question marks and line
  feeds, an encoded query or none, and header fields without colons in their names, is read back:
  method, path, query, version and fields are what they were, and the content is left in the stream.
\<close>

theorem request_reads_back:
  assumes "plain_target method" and "plain_target path" and "\<forall>q. query = Some q \<longrightarrow> plain_target q"
    and "LF \<notin> set version" and "\<forall>f \<in> set flds. plain_field f"
  shows "request_parse (request_text method path query version flds content) =
    Some (\<lparr>req_method = method, req_path = path, req_query_string = (case query of None \<Rightarrow> [] | Some q \<Rightarrow> q),
      req_http_version = version, req_header = flds\<rparr>, content)"
  using assms by (rule request_parse_text)

theorem request_reads_back_witness:
  "request_parse (request_text ''GET'' ''/index.html'' (Some ''a=1'') ''1.1'' [(''Host'', ''localhost'')] ''x'') =
     Some (\<lparr>req_method = ''GET'', req_path = ''/index.html'', req_query_string = ''a=1'',
       req_http_version = ''1.1'', req_header = [(''Host'', ''localhost'')]\<rparr>, ''x'')"
  using request_reads_back [of "''GET''" "''/index.html''" "Some ''a=1''" "''1.1''" "[(''Host'', ''localhost'')]" "''x''"]
  by (simp add: plain_target_def plain_field_def)

text \<open>
  The one pass of \<open>QueryString::parse\<close> over the positions of its text computes this: the text is cut
  at every \<open>&\<close>; a piece is a name, as it stands, and a decoded value around its last \<open>=\<close>, and a
  piece without a name gives no field. What \<open>create\<close> makes of fields whose names are not empty and
  have no \<open>&\<close> and \<open>=\<close>, whatever the values are, is read back as these fields.
\<close>

theorem query_string_reads_back:
  "query_parse query_string = concat (map piece_field (pieces [] query_string)) \<and>
   ((\<forall>(name, val) \<in> set flds. plain_name name) \<longrightarrow> query_parse (query_create flds) = flds)"
  using query_parse_pieces query_parse_create [of flds] by simp

theorem query_string_reads_back_witness:
  "query_parse (query_create [(''query'', ''select 1=1 & 2''), (''b'', [])]) = [(''query'', ''select 1=1 & 2''), (''b'', [])]"
  using query_string_reads_back [of "[]" "[(''query'', ''select 1=1 & 2''), (''b'', [])]"]
  by (simp add: plain_name_def)

section \<open>Queries\<close>

lemma plain_query: "plain_target (query_create [(''query'', sql)])"
proof -
  have "set (percent_encode sql) \<inter> {CHR '' '', CHR ''?'', LF} = {}"
    using percent_encode_chars [of sql] by (auto simp: unreserved_def code_def)
  then show ?thesis by (auto simp: plain_target_def query_create_def)
qed

lemma case_insensitive_refl: "case_insensitive_equal s s"
  by (simp add: case_insensitive_equal_def list_all2_same)

lemma query_param: "param_values ''query'' (query_parse (query_create [(''query'', sql)])) = [sql]"
  using query_parse_create [of "[(''query'', sql)]"] by (simp add: plain_name_def param_values_def case_insensitive_refl)

lemma write_content_reads_back:
  "response_parse (write_content content) = Some (\<lparr>resp_version = ''1.1'', resp_status_code = ''200 OK'',
     resp_header = [(''Content-Length'', dec_string (length content))]\<rparr>, content)"
proof -
  have "status_line_ok success_ok" "status_code_text success_ok = ''200 OK''"
    by (simp_all add: status_line_ok_def success_ok_def status_code_text_def status_code_strings_def)
  then show ?thesis
    using response_parse_text [of success_ok "[]" content] by (simp add: write_content_def)
qed
text \<open>C13: 
  Any text of SQL, encoded by a client into the query of a request, is the text the database is
  asked, character for character, and the client reads back from the answer the text of the value
  the database made: of the rows the engine gives, at most as many as configured. Only the database
  changes, and only by what the text does. It is assumed that \<open>find\<close> gives one of the values of a key.
\<close>

theorem query_request:
  assumes "\<forall>vals. vals \<noteq> [] \<longrightarrow> ae_pick V vals \<in> set vals"
    and "db_query (ae_reader V) (ae_json V) (web_max_query_result (config_web (app_config s))) sql (ph_db (app_ph s)) = (Inr res, d)"
    and "json_dump (ae_json V) 4 res = Inr body"
    and "LF \<notin> set version" and "\<forall>f \<in> set flds. plain_field f"
  shows "\<exists>answer. serve V (request_text ''GET'' ''/api/v1/capture/query'' (Some (query_create [(''query'', sql)])) version flds content) s =
      Some (Inr (Some answer), s\<lparr>app_ph := (app_ph s)\<lparr>ph_db := d\<rparr>\<rparr>) \<and>
    response_parse answer = Some (\<lparr>resp_version = ''1.1'', resp_status_code = ''200 OK'',
      resp_header = [(''Content-Length'', dec_string (length body))]\<rparr>, body)"
proof (intro exI conjI)
  have pick: "ae_pick V [sql] = sql" using assms(1) by (metis empty_set insert_not_empty list.simps(15) set_empty2 singletonD)
  show "serve V (request_text ''GET'' ''/api/v1/capture/query'' (Some (query_create [(''query'', sql)])) version flds content) s =
      Some (Inr (Some (write_content body)), s\<lparr>app_ph := (app_ph s)\<lparr>ph_db := d\<rparr>\<rparr>)"
    by (rule serve_text [where r = CaptureQuery])
      (use assms(2-5) plain_query pick in \<open>simp_all add: plain_target_def find_resource_path resource_function_def web_query_def
        query_param Let_def act_bind_def act_get_def on_app_db_def act_zoom_def act_sum_def act_return_def\<close>)
  show "response_parse (write_content body) = Some (\<lparr>resp_version = ''1.1'', resp_status_code = ''200 OK'',
      resp_header = [(''Content-Length'', dec_string (length body))]\<rparr>, body)"
    by (rule write_content_reads_back)
qed

lemma sample_query:
  "db_query sample_reader (sample_json_library None) 5000 ''select count(*) from packet'' d =
    (Inr (JsonObject [(''rows'', JsonArray [JsonArray [JsonString (int_text (int (length (rows (db_history d) TablePacket))))]]),
       (''columns'', JsonArray [JsonString ''count(*)''])]), d)"
  by (subst db_query_result)
    (auto simp: sample_reader_def prepared_ok_def sqlite_codes Let_def answer_head_def names_json_def row_json_def json_array_of_def
      sample_json_library_def)

theorem query_request_witness:
  "\<exists>answer. serve sample_app_environment (request_text ''GET'' ''/api/v1/capture/query''
      (Some ''query=select%20count%28%2A%29%20from%20packet'') ''1.1'' [] []) (app_start config_default sample_db ()) =
      Some (Inr (Some answer), app_start config_default sample_db ()) \<and>
    (\<exists>message. response_parse answer = Some (message, ''{}''))"
proof -
  let ?s = "app_start config_default sample_db () :: (bytes, unit) app"
  let ?sql = "''select count(*) from packet''"
  have sql: "query_create [(''query'', ?sql)] = ''query=select%20count%28%2A%29%20from%20packet''"
    by code_simp
  obtain res where "db_query (ae_reader sample_app_environment) (ae_json sample_app_environment)
      (web_max_query_result (config_web (app_config ?s))) ?sql (ph_db (app_ph ?s)) = (Inr res, ph_db (app_ph ?s))"
    using sample_query [of "ph_db (app_ph ?s)"]
    by (simp add: sample_app_environment_def app_start_def config_default_def config_web_default_def)
  from query_request [OF _ this, of "''{}''" "''1.1''" "[]" "[]"] show ?thesis
    unfolding sql by (fastforce simp: sample_app_environment_def sample_json_library_def)
qed
section \<open>Static files\<close>

lemma read_and_send_lengths: "b \<in> set (read_and_send buf ifs) \<Longrightarrow> length b \<le> length buf + BLOCK"
proof (induction buf ifs rule: read_and_send.induct)
  case (1 buf ifs)
  show ?case
  proof (cases "take BLOCK ifs \<noteq> [] \<and> length (take BLOCK ifs) = BLOCK")
    case True
    with "1.prems" have "b = buf @ take BLOCK ifs \<or> b \<in> set (read_and_send [] (drop BLOCK ifs))"
      by (subst (asm) read_and_send.simps) (simp add: Let_def)
    with "1.IH" [OF refl] True show ?thesis by fastforce
  next
    case False
    with "1.prems" show ?thesis by (subst (asm) read_and_send.simps) (auto simp: Let_def split: if_splits)
  qed
qed

lemma read_and_send_blocks:
  assumes "b \<in> set (tl (read_and_send buf ifs))"
  shows "length b \<le> BLOCK"
proof -
  from assms have "b \<in> set (read_and_send [] (drop BLOCK ifs))"
    by (subst (asm) read_and_send.simps) (simp add: Let_def split: if_splits)
  then show ?thesis using read_and_send_lengths [of b "[]"] by simp
qed

lemma write_response_content:
  "list_ex is_content_length header \<Longrightarrow> write_response c [] header @ content = write_response c content header"
  by (simp add: write_response_def write_header_def)

lemma content_type_plain: "f \<in> set (content_type extension) \<Longrightarrow> plain_field f"
  by (auto simp: content_type_def plain_field_def split: if_splits)

lemma content_length_name: "is_content_length (''Content-Length'', val)"
proof -
  have "case_insensitive_equal ''Content-Length'' ''content-length''" by code_simp
  then show ?thesis by simp
qed

lemma success_line: "status_line_ok success_ok" "status_code_text success_ok = ''200 OK''"
  by (simp_all add: status_line_ok_def success_ok_def status_code_text_def status_code_strings_def)

text \<open>C21: 
  The check that a path is within the root never rejects one: with a path library that appends the
  components of the request's path to those of the root, every file the path names, through the
  names of parent directories too, is sent. The parts that are sent are blocks of at most 128
  KiB, and a client reads back from them the status \<open>200 OK\<close>, the type by the extension, the length,
  and the whole content of the file.
\<close>

theorem static_file_sent:
  assumes "\<forall>p t. fs_append (ae_fs V) p t = p @ fs_components (ae_fs V) t"
    and "\<forall>flds. mset (ae_iterate V flds) = mset flds"
    and "fs_append (ae_fs V) (fs_root (ae_fs V)) (req_path request) = path"
    and "fs_exists (ae_fs V) path" and "\<not> fs_is_directory (ae_fs V) path" and "fs_read (ae_fs V) path = Some content"
  shows "response_parse (concat (web_static V request)) = Some (\<lparr>resp_version = ''1.1'', resp_status_code = ''200 OK'',
      resp_header = ae_iterate V (content_type (fs_extension (ae_fs V) path) @ [(''Content-Length'', dec_string (length content))])\<rparr>,
      content) \<and>
    (\<forall>b \<in> set (tl (web_static V request)). length b \<le> 131072)"
proof -
  let ?header = "ae_iterate V (content_type (fs_extension (ae_fs V) path) @ [(''Content-Length'', dec_string (length content))])"
  have set: "set ?header = set (content_type (fs_extension (ae_fs V) path) @ [(''Content-Length'', dec_string (length content))])"
    using assms(2) mset_eq_setD by blast
  have sized: "list_ex is_content_length ?header"
    unfolding list_ex_iff set using content_length_name by auto
  have plain: "\<forall>f \<in> set ?header. plain_field f"
    unfolding set using content_type_plain content_length_field by auto
  have inside: "path = fs_root (ae_fs V) @ fs_components (ae_fs V) (req_path request)"
    using assms(1,3) by simp
  have sent: "web_static V request = read_and_send (write_response success_ok [] ?header) content"
    using assms(3-6) by (simp add: web_static_def Let_def) (simp add: inside)
  have "concat (web_static V request) = write_response success_ok content ?header"
    unfolding sent read_and_send_all by (rule write_response_content [OF sized])
  with response_parse_text [OF success_line(1) plain, of content] sized success_line(2)
  have "response_parse (concat (web_static V request)) =
      Some (\<lparr>resp_version = ''1.1'', resp_status_code = ''200 OK'', resp_header = ?header\<rparr>, content)" by simp
  moreover have "\<forall>b \<in> set (tl (web_static V request)). length b \<le> 131072"
    unfolding sent using read_and_send_blocks by (auto simp: BLOCK_def)
  ultimately show ?thesis by blast
qed

text \<open>A path with a parent directory: the file beside the root is sent.\<close>

theorem static_file_sent_witness:
  "response_parse (concat (web_static sample_app_environment
      \<lparr>req_method = ''GET'', req_path = ''/../secret'', req_query_string = [], req_http_version = ''1.1'', req_header = []\<rparr>)) =
    Some (\<lparr>resp_version = ''1.1'', resp_status_code = ''200 OK'', resp_header = [(''Content-Length'', ''3'')]\<rparr>, ''key'')"
proof -
  let ?request = "\<lparr>req_method = ''GET'', req_path = ''/../secret'', req_query_string = [], req_http_version = ''1.1'', req_header = []\<rparr>"
  have "dec_string (length ''key'') = ''3''" by code_simp
  with static_file_sent [where V = sample_app_environment and request = ?request and path = "[''/'', ''public'', ''..'', ''secret'']" and content = "''key''"]
  show ?thesis by (simp add: sample_app_environment_def sample_fs_def content_type_def)
qed
section \<open>Reads of the database\<close>

theorem query_answers_witness:
  "db_query sample_reader (sample_json_library None) 1 tables_query (db_start []) =
     (Inr (JsonObject [(''rows'', JsonArray [JsonArray [JsonString ''packet'']]), (''columns'', JsonArray [JsonString ''name''])]),
      db_start [])"
proof -
  have "\<forall>p. rd_prepare sample_reader (db_history (db_start [])) tables_query = Inr p \<longrightarrow> prepared_ok p"
    using sample_reader_ok(1) by blast
  from query_answers [OF this, of "sample_json_library None" 1] show ?thesis
    by (simp add: sample_reader_def tables_query_def sqlite_codes Let_def answer_head_def names_json_def row_json_def
        json_array_of_def sample_json_library_def c_string_def)
qed

theorem counts_agree_witness:
  "count_packets sample_reader sample_db = (Inr (int (length (rows (db_history sample_db) TablePacket))), sample_db) \<and>
   count_packets_per_type sample_reader (sample_json_library None) sample_db = (Inr ''{}'', sample_db)"
  using counts_agree [OF sample_db_inv sample_reader_ok(2), of "sample_json_library None" "''{}''"]
  by (simp add: sample_json_library_def)

theorem schema_lists_tables_witness:
  "get_schema sample_reader (sample_json_library None) (db_start []) =
     Some (Inr (JsonArray [JsonObject [(''columns'', JsonArray []), (''table'', JsonString ''packet'')]]), db_start [])"
  using schema_lists_tables [of sample_reader "db_start []" "[''packet'', ''sqlite_sequence'']" "sample_json_library None"]
  by (simp add: sample_reader_def tables_query_def json_array_of_def schema_table_def sample_json_library_def)

section \<open>Destruction of the captured data\<close>

lemma flush_result:
  "engine_ok E \<Longrightarrow> \<not> db_tx_commited d \<Longrightarrow>
     flush_internal E d = (Inr (), d\<lparr>db_history := db_history d @ [SqlCommit, SqlBegin]\<rparr>)"
  by (cases d) (simp add: flush_internal_def act_bind_def act_return_def transaction_commit_def transaction_new_def
      Let_def engine_ok_def)

lemma db_exec_result:
  "engine_ok E \<Longrightarrow> ev = SqlRun \<or> (\<exists>t. ev = SqlDelete t) \<Longrightarrow>
     db_exec E ev d = (Inr (), d\<lparr>db_history := db_history d @ [ev]\<rparr>)"
  by (auto simp: db_exec_def engine_ok_def)

lemma destroy_tables_result:
  "engine_ok E \<Longrightarrow> \<not> db_tx_commited d \<Longrightarrow>
     act_seq (map (\<lambda>t. act_seq [db_exec E (SqlDelete t), flush_internal E]) ts) d =
       (Inr (), d\<lparr>db_history := db_history d @ concat (map (\<lambda>t. [SqlDelete t, SqlCommit, SqlBegin]) ts)\<rparr>)"
  by (induction ts arbitrary: d) (simp_all add: act_return_def act_bind_def db_exec_result flush_result)

lemma destroy_result:
  "engine_ok E \<Longrightarrow> \<not> db_tx_commited d \<Longrightarrow>
     destroy_capture_data E ts d = (Inr (), d\<lparr>db_history := (db_history d @
       concat (map (\<lambda>t. [SqlDelete t, SqlCommit, SqlBegin]) ts) @ [SqlRun]) @ [SqlCommit, SqlBegin],
       db_count_per_type := replicate 32 0\<rparr>)"
  using destroy_tables_result [of E d ts]
  by (simp add: destroy_capture_data_def act_bind_def [of "act_seq _"] act_bind_def [of "db_exec E SqlRun"]
      act_bind_def [of "flush_internal E" "\<lambda>_. act_bind _ _"] act_bind_def [of "act_modify _"]
      db_exec_result flush_result act_modify_def act_return_def)

lemma rows_deleted:
  "rows (h @ concat (map (\<lambda>t. [SqlDelete t, SqlCommit, SqlBegin]) ts)) = (\<lambda>t. if t \<in> set ts then [] else rows h t)"
proof (induction ts arbitrary: h)
  case (Cons t ts)
  have "rows (h @ [SqlDelete t, SqlCommit, SqlBegin]) = (rows h)(t := [])"
    using rows_snoc(5) [of "(h @ [SqlDelete t]) @ [SqlCommit]"] rows_snoc(4) [of "h @ [SqlDelete t] @ [SqlCommit]"]
    by (metis append.assoc append_Cons append_Nil rows_snoc(2,4,5))
  with Cons.IH [of "h @ [SqlDelete t, SqlCommit, SqlBegin]"] show ?case by (auto simp: fun_eq_iff)
qed simp

lemma rows_deleted_run:
  "rows (h @ concat (map (\<lambda>t. [SqlDelete t, SqlCommit, SqlBegin]) ts) @ [SqlRun]) t =
     (if t \<in> set ts then [] else rows h t) @ (if t = TableRuns then [[]] else [])"
  using rows_snoc(3) [of "h @ concat (map (\<lambda>t. [SqlDelete t, SqlCommit, SqlBegin]) ts)"]
  by (simp add: rows_deleted)

lemma rows_committed: "rows (h @ [SqlCommit, SqlBegin]) = rows h"
  using rows_snoc(4) [of "h @ [SqlCommit]"] rows_snoc(5) [of h] by simp

text \<open>C30: 
  Destroying the captured data over the web empties every table the engine lists, sets the counters
  per type to zero and notes a new run, in transactions that are committed. A capture is stopped
  while this happens and started again. Ids go on from where they were, and the connections and the
  packets in the queue stay as they are, so that a connection in a stream still has the ids of rows
  that are gone.
\<close>

theorem destroy_clears:
  assumes "engine_ok (ae_env V)" and "db_inv (ph_db (app_ph s))"
    and "app_capturing s \<Longrightarrow> choose_device (ae_pcap V) (capture_device_ip (config_capture (app_config s))) = Some dev \<and>
      pcap_open (ae_pcap V) dev \<and> capture_filter (config_capture (app_config s)) = [] \<and> app_dev s \<noteq> None"
  shows "\<exists>d. web_destroy V s = (Inr (write_content ''{}''),
      (if app_capturing s then s\<lparr>app_ph := (app_ph s)\<lparr>ph_db := d\<rparr>, app_dev := Some dev, app_dev_running := True\<rparr>
       else s\<lparr>app_ph := (app_ph s)\<lparr>ph_db := d\<rparr>\<rparr>)) \<and>
    (\<forall>t. rows (db_history d) t =
      (if t \<in> set (ae_tables V (db_history (ph_db (app_ph s)))) then [] else rows (db_history (ph_db (app_ph s))) t) @
      (if t = TableRuns then [[]] else [])) \<and>
    db_count_per_type d = replicate 32 0 \<and> db_next_id d = db_next_id (ph_db (app_ph s)) \<and>
    db_max_reached d = db_max_reached (ph_db (app_ph s))"
proof -
  let ?d = "ph_db (app_ph s)" and ?ts = "ae_tables V (db_history (ph_db (app_ph s)))"
  let ?d' = "?d\<lparr>db_history := (db_history ?d @ concat (map (\<lambda>t. [SqlDelete t, SqlCommit, SqlBegin]) ?ts) @ [SqlRun]) @ [SqlCommit, SqlBegin],
       db_count_per_type := replicate 32 0\<rparr>"
  have "\<not> db_tx_commited ?d" using assms(2) by (simp add: db_inv_def db_mid_def)
  from destroy_result [OF assms(1) this, of ?ts]
  have on_db: "on_app_db (\<lambda>d. destroy_capture_data (ae_env V) (ae_tables V (db_history d)) d) s' =
      (Inr (), s'\<lparr>app_ph := (app_ph s)\<lparr>ph_db := ?d'\<rparr>\<rparr>)" if "app_ph s' = app_ph s" for s'
    using that by (simp add: on_app_db_def act_zoom_def)
  have rows: "\<forall>t. rows (db_history ?d') t = (if t \<in> set ?ts then [] else rows (db_history ?d) t) @ (if t = TableRuns then [[]] else [])"
    by (simp add: rows_committed rows_deleted_run del: append_assoc)
  have "web_destroy V s = (Inr (write_content ''{}''),
      (if app_capturing s then s\<lparr>app_ph := (app_ph s)\<lparr>ph_db := ?d'\<rparr>, app_dev := Some dev, app_dev_running := True\<rparr>
       else s\<lparr>app_ph := (app_ph s)\<lparr>ph_db := ?d'\<rparr>\<rparr>))"
  proof (cases "app_capturing s")
    case True
    with assms(3) have stopped: "stop_capture s = (Inr (), s\<lparr>app_capturing := False, app_dev_running := False, app_dev := None\<rparr>)"
      and start: "start_capture (ae_env V) (ae_pcap V) (s\<lparr>app_capturing := False, app_dev_running := False, app_dev := None,
          app_ph := (app_ph s)\<lparr>ph_db := ?d'\<rparr>\<rparr>) =
        (Inr (), s\<lparr>app_ph := (app_ph s)\<lparr>ph_db := ?d'\<rparr>, app_dev := Some dev, app_dev_running := True\<rparr>)"
      by (cases s, simp add: stop_capture_def, cases s, simp add: start_capture_def Let_def)
    from True show ?thesis
      by (simp add: web_destroy_def act_bind_def act_get_def act_when_def act_return_def stopped start on_db del: append_assoc)
  next
    case False
    then show ?thesis
      by (simp add: web_destroy_def act_bind_def act_get_def act_when_def act_return_def on_db)
  qed
  with rows show ?thesis by (intro exI [of _ ?d']) simp
qed

text \<open>With a capture that runs, on the second device.\<close>

theorem destroy_clears_witness:
  "\<exists>d. web_destroy sample_app_environment (started (app_start config_default sample_db ())) =
     (Inr (write_content ''{}''), started (app_start config_default d ())) \<and>
     rows (db_history d) TablePacket = [] \<and> db_count_per_type d = replicate 32 0"
proof -
  let ?s = "started (app_start config_default sample_db ()) :: (bytes, unit) app"
  have ok: "engine_ok (ae_env sample_app_environment)" "db_inv (ph_db (app_ph ?s))" "app_capturing ?s"
    using sample_ok(1) sample_db_inv by (simp_all add: sample_app_environment_def started_def app_start_def ph_start_def)
  have "choose_device (ae_pcap sample_app_environment) (capture_device_ip (config_capture (app_config ?s))) = Some 1 \<and>
      pcap_open (ae_pcap sample_app_environment) 1 \<and> capture_filter (config_capture (app_config ?s)) = [] \<and> app_dev ?s \<noteq> None"
    by (simp add: started_def app_start_def config_default_def config_capture_default_def sample_app_environment_def
        sample_pcap_def choose_device_def)
  with destroy_clears [of sample_app_environment ?s 1] ok obtain d where
    "web_destroy sample_app_environment ?s =
      (Inr (write_content ''{}''), ?s\<lparr>app_ph := (app_ph ?s)\<lparr>ph_db := d\<rparr>, app_dev := Some 1, app_dev_running := True\<rparr>)"
    "rows (db_history d) TablePacket = []" "db_count_per_type d = replicate 32 0"
    by (auto simp: sample_app_environment_def)
  then show ?thesis by (intro exI [of _ d]) (simp add: started_def app_start_def ph_start_def)
qed

section \<open>The maximum size of the database\<close>

text \<open>C40: 
  When the database has reached its maximum size, the processing thread stops a live capture at the
  next multiple of 10000 packets: after that no packet of the device changes anything. The web
  interface does not learn of it: the status has the same values as before, capturing included, and
  a request to toggle the capture closes the device, so that it takes two to capture again.
\<close>

theorem maximum_stops_capture:
  assumes "app_capturing s" and "app_dev s \<noteq> None" and "\<not> app_importing s"
    and "db_max_reached (ph_db (app_ph s))" and "(app_consumed s + 1) mod 10000 = 0"
  shows "live_packet E L p (check_maximum s) = (Inr (), check_maximum s) \<and>
    status_json J (check_maximum s) = status_json J s \<and>
    web_toggle V (check_maximum s) = (Inr (write_content ''{}''),
      (check_maximum s)\<lparr>app_capturing := False, app_dev := None\<rparr>)"
  using assms
  by (cases s) (simp add: check_maximum_def Let_def live_packet_def status_json_def packet_queue_size_def web_toggle_def
      act_bind_def act_get_def stop_capture_def act_return_def)

theorem maximum_stops_capture_witness:
  "\<exists>s :: (bytes, unit) app. app_dev_running s \<and> app_capturing (check_maximum s) \<and>
     live_packet sample_environment sample_pcap [1] (check_maximum s) = (Inr (), check_maximum s)"
proof -
  let ?s = "(started (app_start config_default (sample_db\<lparr>db_max_reached := True\<rparr>) ()))\<lparr>app_consumed := 9999\<rparr>"
  have s: "app_capturing ?s" "app_dev ?s \<noteq> None" "\<not> app_importing ?s" "db_max_reached (ph_db (app_ph ?s))"
    "(app_consumed ?s + 1) mod 10000 = 0"
    by (simp_all add: started_def app_start_def ph_start_def)
  have "app_dev_running ?s \<and> app_capturing (check_maximum ?s)"
    by (simp add: started_def check_maximum_def Let_def)
  moreover have "live_packet sample_environment sample_pcap [1] (check_maximum ?s) = (Inr (), check_maximum ?s)"
    using maximum_stops_capture [OF s] by blast
  ultimately show ?thesis by blast
qed

section \<open>A request without a query\<close>

text \<open>The answer to a query request without a query is not a text of json: its second character is an escape.\<close>

lemma missing_query_answer:
  assumes "param_values ''query'' (query_parse (req_query_string request)) = []"
  shows "web_query V request s = (Inr (write_content missing_query), s) \<and> missing_query ! 1 = CHR 0x1B"
  using assms by (simp add: web_query_def act_return_def missing_query_def)

end
