(* ===== verification/AppMain.thy ===== *)
theory AppMain
  imports AppLaws
begin

text \<open>
  The start of the application (\<open>app.cpp\<close>) and the import of a file as a whole. The parser of the
  command line (Boost.Program_options) and the opening of the database file are parameters; output
  is not modelled. The end of the process is a value: an exit with a status, an exception nothing
  catches, a return from \<open>main\<close>, or the wait for a signal.
\<close>

section \<open>Import of a file\<close>

primrec import_passes :: "environment \<Rightarrow> ('p, 'r) pcap_library \<Rightarrow> nat \<Rightarrow> (('p, 'r) app, unit) act" where
  "import_passes E L 0 = act_return ()"
| "import_passes E L (Suc n) = act_bind (import_pass E L) (\<lambda>_. import_passes E L n)"

text \<open>The loop ends at the end of the packets, which a pass makes one fewer.\<close>

definition analyze_pcap_file :: "environment \<Rightarrow> ('p, 'r) pcap_library \<Rightarrow> string \<Rightarrow> (('p, 'r) app, unit) act" where
  "analyze_pcap_file E L path =
     act_bind (import_begin L path) (\<lambda>_.
     act_bind (act_get (\<lambda>s. case app_import s of None \<Rightarrow> 0 | Some (packets, n) \<Rightarrow> length packets)) (\<lambda>n.
     act_seq [import_passes E L n, import_end E L]))"

lemma import_pass_result:
  assumes "engine_ok E" and "ph_inv (app_ph s)" and "app_import s = Some (p # ps, n)"
  shows "\<exists>h r ps'. import_pass E L s = (Inr (), s\<lparr>app_reassembly := r, app_ph := h, app_import := Some (ps', n + 1)\<rparr>) \<and>
    ph_inv h \<and> (ps' = [] \<or> ps' = ps)"
proof -
  obtain h r where h: "on_packet E L p s = (Inr (), s\<lparr>app_reassembly := r, app_ph := h\<rparr>)" "ph_inv h"
    using on_packet_ok [OF assms(1,2)] by blast
  let ?ps = "if (n + 1) mod 10000 = 0 \<and> db_max_reached (ph_db h) then [] else ps"
  from h assms(3) show ?thesis
    by (intro exI [of _ h] exI [of _ r] exI [of _ ?ps]) (simp add: import_pass_def act_bind_def)
qed

lemma import_passes_result:
  assumes "engine_ok E"
  shows "ph_inv (app_ph s) \<Longrightarrow> app_import s = Some (ps, n) \<Longrightarrow> length ps \<le> k \<Longrightarrow>
    \<exists>h r m. import_passes E L k s = (Inr (), s\<lparr>app_reassembly := r, app_ph := h, app_import := Some ([], m)\<rparr>) \<and> ph_inv h"
proof (induction k arbitrary: s ps n)
  case 0
  then show ?case
    by (intro exI [of _ "app_ph s"] exI [of _ "app_reassembly s"] exI [of _ n]) (cases s, simp add: act_return_def)
next
  case (Suc k)
  show ?case
  proof (cases ps)
    case Nil
    with Suc.prems have "import_pass E L s = (Inr (), s)" by (simp add: import_pass_def)
    with Suc.IH [of s "[]" n] Suc.prems Nil show ?thesis by (simp add: act_bind_def)
  next
    case (Cons p ps1)
    obtain h r ps' where pass: "import_pass E L s = (Inr (), s\<lparr>app_reassembly := r, app_ph := h, app_import := Some (ps', n + 1)\<rparr>)"
        "ph_inv h" "ps' = [] \<or> ps' = ps1"
      using import_pass_result [OF assms Suc.prems(1)] Suc.prems(2) Cons by blast
    from Suc.IH [of "s\<lparr>app_reassembly := r, app_ph := h, app_import := Some (ps', n + 1)\<rparr>" ps' "n + 1"] pass Suc.prems(3) Cons
    show ?thesis by (auto simp: act_bind_def)
  qed
qed

text \<open>
  The import of a file ends, whatever its packets are. It exits the process only when the filter of
  the configuration is not accepted; otherwise it returns, the application does not report an import
  any more, the capture, the device and the configuration are what they were, and the invariant of
  the handler and the database holds.
\<close>

theorem import_ends:
  assumes "engine_ok E" and "ph_inv (app_ph s)" and "app_import s = None"
  shows "(\<exists>h r. analyze_pcap_file E L path s =
      (Inr (), s\<lparr>app_reassembly := r, app_ph := h, app_importing := False\<rparr>) \<and> ph_inv h) \<or>
    capture_filter (config_capture (app_config s)) \<noteq> [] \<and>
      pcap_file_filter L path (capture_filter (config_capture (app_config s))) = None \<and>
      fst (analyze_pcap_file E L path s) = Inl (ProcessExit 0)"
proof (cases "import_begin L path s")
  case (Pair res s1)
  show ?thesis
  proof (cases res)
    case (Inl e)
    with Pair show ?thesis
      by (auto simp: analyze_pcap_file_def act_bind_def import_begin_def Let_def split: option.splits if_splits)
  next
    case (Inr u)
    show ?thesis
    proof (cases "app_import s1")
      case None
      with Pair Inr assms(3) have s1: "s1 = s\<lparr>app_importing := False\<rparr>"
        by (auto simp: import_begin_def Let_def split: option.splits if_splits)
      with Pair Inr None assms(2,3) show ?thesis
        by (intro disjI1 exI [of _ "app_ph s"] exI [of _ "app_reassembly s"])
          (cases s, simp add: analyze_pcap_file_def act_bind_def act_get_def act_return_def import_end_def)
    next
      case (Some pn)
      with Pair Inr assms(3) obtain ps where s1: "s1 = s\<lparr>app_importing := True, app_import := Some (ps, 0)\<rparr>"
        by (auto simp: import_begin_def Let_def split: option.splits if_splits)
      have "ph_inv (app_ph s1)" "app_import s1 = Some (ps, 0)" using assms(2) s1 by simp_all
      from import_passes_result [OF assms(1) this, of "length ps" L] obtain h r m where passes:
        "import_passes E L (length ps) s1 = (Inr (), s1\<lparr>app_reassembly := r, app_ph := h, app_import := Some ([], m)\<rparr>)" "ph_inv h"
        by blast
      obtain h' r' where close: "close_all_connections E L (s1\<lparr>app_reassembly := r, app_ph := h, app_import := Some ([], m)\<rparr>) =
          (Inr (), (s1\<lparr>app_reassembly := r, app_ph := h, app_import := Some ([], m)\<rparr>)\<lparr>app_reassembly := r', app_ph := h'\<rparr>)" "ph_inv h'"
        using close_all_ok [OF assms(1), of "s1\<lparr>app_reassembly := r, app_ph := h, app_import := Some ([], m)\<rparr>" L] passes(2) by auto
      have "analyze_pcap_file E L path s = (Inr (), s\<lparr>app_reassembly := r', app_ph := h', app_importing := False\<rparr>)"
        using Pair Inr passes(1) close(1) assms(3)
        by (cases s) (simp add: analyze_pcap_file_def act_bind_def act_get_def act_return_def import_end_def act_modify_def s1)
      with close(2) show ?thesis by blast
    qed
  qed
qed
section \<open>The start\<close>







section \<open>How the process ends\<close>














theorem import_ends_witness:
  "\<exists>h r. analyze_pcap_file sample_environment (sample_pcap\<lparr>pcap_file := \<lambda>path. Some [[1], [2]]\<rparr>) ''a.pcap''
      (app_start config_default sample_db ()) =
    (Inr (), (app_start config_default sample_db ())\<lparr>app_reassembly := r, app_ph := h, app_importing := False\<rparr>)"
proof -
  let ?s = "app_start config_default sample_db () :: (bytes, unit) app"
  have "ph_inv (app_ph ?s)" "app_import ?s = None" "capture_filter (config_capture (app_config ?s)) = []"
    using ph_inv_start [OF sample_db_inv] by (simp_all add: app_start_def config_default_def config_capture_default_def)
  with import_ends [OF sample_ok(1), where s = ?s and path = "''a.pcap''" and
      L = "sample_pcap\<lparr>pcap_file := \<lambda>path. Some [[1], [2]]\<rparr>"]
  show ?thesis by blast
qed

end
