(* ===== verification/SessionLaws.thy ===== *)
theory SessionLaws
  imports WebSession WebLaws AppMain
begin

text \<open>
  The laws of a connection: what a client sends is answered request by request, however it is cut
  into pieces, except for what comes in one piece with the end of a request; serving a connection
  returns; and the sizes of chunks that end the process.
\<close>

section \<open>The end of a header\<close>

abbreviation blank :: string where "blank \<equiv> [CR, LF, CR, LF]"

lemma find_skip_line:
  "LF \<notin> set l \<Longrightarrow> take 2 rest \<noteq> [CR, LF] \<Longrightarrow>
     find_text blank (l @ CR # LF # rest) = map_option (\<lambda>k. length l + 2 + k) (find_text blank rest)"
proof (induction l)
  case Nil
  then show ?case by (simp add: option.map_comp comp_def numeral_eq_Suc)
next
  case (Cons c l)
  have "take 4 (c # l @ CR # LF # rest) \<noteq> blank"
    using Cons.prems(1) by (cases l) auto
  with Cons show ?case by (auto simp: option.map_comp comp_def numeral_eq_Suc)
qed

lemma find_last_line: "LF \<notin> set l \<Longrightarrow> find_text blank (l @ blank @ x) = Some (length l)"
proof (induction l)
  case (Cons c l)
  have "take 4 (c # l @ blank @ x) \<noteq> blank"
    using Cons.prems by (cases l) auto
  with Cons show ?case by (simp add: numeral_eq_Suc)
qed simp

lemma find_lines:
  "\<forall>l \<in> set ls. LF \<notin> set l \<and> l \<noteq> [] \<Longrightarrow> ls \<noteq> [] \<Longrightarrow>
     find_text blank (concat (map (\<lambda>l. l @ [CR, LF]) ls) @ [CR, LF] @ x) =
       Some (length (concat (map (\<lambda>l. l @ [CR, LF]) ls)) - 2)"
proof (induction ls)
  case (Cons l ls)
  show ?case
  proof (cases ls)
    case Nil
    with Cons.prems find_last_line [of l x] show ?thesis by simp
  next
    case (Cons l2 ls2)
    let ?rest = "concat (map (\<lambda>l. l @ [CR, LF]) ls) @ [CR, LF] @ x"
    have "l2 \<noteq> []" "LF \<notin> set l2" using Cons.prems Cons by auto
    then have "take 2 ?rest \<noteq> [CR, LF]"
      using Cons by (cases l2; cases "tl l2") auto
    from find_skip_line [OF _ this, of l] Cons.IH Cons.prems Cons show ?thesis by simp
  qed
qed simp

text \<open>A request of no content ends at its first blank line.\<close>

lemma request_lines:
  "request_write req x = concat (map (\<lambda>l. l @ [CR, LF])
     ((req_method req @ '' '' @ req_path req @ (if req_query_string req = [] then [] else CHR ''?'' # req_query_string req) @
        '' HTTP/'' @ req_http_version req) # map (\<lambda>(name, val). name @ '': '' @ val) (req_header req))) @ [CR, LF] @ x"
  by (simp add: request_write_def request_text_def header_text_def comp_def case_prod_unfold)

lemma request_find:
  assumes "request_wf req"
  shows "find_text blank (request_write req x) = Some (length (request_write req []) - 4)"
proof -
  let ?ls = "(req_method req @ '' '' @ req_path req @ (if req_query_string req = [] then [] else CHR ''?'' # req_query_string req) @
      '' HTTP/'' @ req_http_version req) # map (\<lambda>(name, val). name @ '': '' @ val) (req_header req)"
  have "\<forall>l \<in> set ?ls. LF \<notin> set l \<and> l \<noteq> []"
    using assms by (auto simp: request_wf_def plain_target_def plain_field_def split: if_splits)
  from find_lines [OF this, of x] show ?thesis
    unfolding request_lines by simp
qed

lemma request_write_append: "request_write req [] @ x = request_write req x"
  by (simp add: request_write_def request_text_def)

lemma request_write_long: "4 \<le> length (request_write req [])"
  by (simp add: request_write_def request_text_def)


section \<open>Pieces\<close>

lemma find_text_append: "find_text d s = Some i \<Longrightarrow> i + length d \<le> length s \<and> find_text d (s @ x) = Some i"
proof (induction d s arbitrary: i rule: find_text.induct)
  case (2 d c s)
  show ?case
  proof (cases "take (length d) (c # s) = d")
    case True
    then have "length d \<le> length (c # s)" by (metis length_take min.absorb_iff2 min.commute)
    with True "2.prems" show ?thesis by (simp add: take_append [of "length d" "c # s", simplified])
  next
    case False
    with "2.prems" obtain k where k: "find_text d s = Some k" "i = Suc k" by auto
    have "take (length d) (c # s @ x) \<noteq> d"
    proof (cases "length d \<le> length (c # s)")
      case True
      then show ?thesis using False by (metis append_Cons take_append take_all_iff append_Nil2 diff_is_0_eq take_eq_Nil)
    next
      case False
      then show ?thesis using "2.IH" [OF \<open>take (length d) (c # s) \<noteq> d\<close> k(1)] by simp
    qed
    with "2.IH" [OF False k(1)] k(2) show ?thesis by simp
  qed
qed simp

text \<open>A text that has the delimiter at its end only is read to its end, whatever its pieces are.\<close>

lemma read_until_pieces:
  assumes "find_text d (buf @ concat ps @ seg) = Some i" and "length (buf @ concat ps) < i + length d"
  shows "read_until d buf (ps @ (seg @ x) # rest) = Some (i + length d, buf @ concat ps @ seg @ x, rest)"
  using assms
proof (induction ps arbitrary: buf)
  case Nil
  have "find_text d buf = None"
  proof (cases "find_text d buf")
    case (Some k)
    then show ?thesis using find_text_append [OF Some, of seg] Nil by simp
  qed simp
  moreover have "find_text d (buf @ seg @ x) = Some i" "rest = [] \<or> rest \<noteq> []"
    using find_text_append [of d "buf @ seg" i x] Nil by simp_all
  ultimately show ?case by (cases rest) simp_all
next
  case (Cons p ps)
  have "find_text d buf = None"
  proof (cases "find_text d buf")
    case (Some k)
    then show ?thesis using find_text_append [OF Some, of "concat (p # ps) @ seg"] Cons.prems by simp
  qed simp
  with Cons.IH [of "buf @ p"] Cons.prems show ?case by simp
qed
section \<open>Requests in order\<close>

text \<open>What the requests of a connection are answered with, one after the other.\<close>

fun answer_all :: "('p, 'r, 'j) app_environment \<Rightarrow> request list \<Rightarrow> ('p, 'r) app \<Rightarrow>
    (string list \<times> session_end \<times> ('p, 'r) app) option" where
  "answer_all V [] s = Some ([], Closed, s)"
| "answer_all V (req # reqs) s =
     (case answer_request V req s of
        None \<Rightarrow> None
      | Some (Inl e, s') \<Rightarrow> Some ([], ServerExits e, s')
      | Some (Inr None, s') \<Rightarrow> Some ([], Closed, s')
      | Some (Inr (Some body), s') \<Rightarrow> map_option (\<lambda>(sent, rest). (body # sent, rest)) (answer_all V reqs s'))"

text \<open>A request that announces no content and leaves the connection open.\<close>

definition bare :: "(multimap \<Rightarrow> multimap) \<Rightarrow> request \<Rightarrow> bool" where
  "bare iterate req \<longleftrightarrow> request_wf req \<and> param_values ''Content-Length'' (req_header req) = [] \<and>
     param_values ''Transfer-Encoding'' (req_header req) = [] \<and> reads_again iterate req"

lemma read_bare:
  assumes "bare iterate req" and "concat ps @ seg = request_write req []" and "seg \<noteq> []"
  shows "read_request pick (ps @ (seg @ x) # rest) = Inr (req, x, rest)"
proof -
  have wf: "request_wf req" using assms(1) by (simp add: bare_def)
  have len: "length (request_write req []) - 4 + length blank = length (request_write req [])"
    using request_write_long [of req] by simp
  have shorter: "length ([] @ concat ps) < length (request_write req []) - 4 + length blank"
    unfolding len using arg_cong [OF assms(2), of length] assms(3) by (cases seg) simp_all
  have found: "find_text blank ([] @ concat ps @ seg) = Some (length (request_write req []) - 4)"
    using request_find [OF wf, of "[]"] assms(2) by simp
  have "read_until blank [] (ps @ (seg @ x) # rest) = Some (length (request_write req []), request_write req x, rest)"
    using read_until_pieces [OF found shorter, of x rest] assms(2) request_write_append [of req x]
    unfolding len by (metis append.assoc append_Nil)
  moreover have "request_parse (request_write req x) = Some (req, x)"
    by (rule request_message.reads_back [OF wf])
  ultimately show ?thesis
    using assms(1) by (simp add: read_request_def read_content_def bare_def)
qed

text \<open>C17: 
  The requests of a connection are answered in their order, wherever the socket cuts them into
  pieces: the pieces of a request are joined until its header is complete. What comes in one piece
  behind the end of a request, though, a further request of the client too, is lost, as the next
  session starts with an empty buffer.
\<close>

theorem requests_in_order:
  assumes "\<forall>(ps, seg, req, lost) \<in> set items. concat ps @ seg = request_write req [] \<and> seg \<noteq> [] \<and> bare (ae_iterate V) req"
  shows "serve_connection V (concat (map (\<lambda>(ps, seg, req, lost). ps @ [seg @ lost]) items)) s =
    answer_all V (map (\<lambda>(ps, seg, req, lost). req) items) s"
  using assms
proof (induction items arbitrary: s)
  case Nil
  show ?case by (subst serve_connection.simps) (simp add: read_request_def)
next
  case (Cons item items)
  obtain ps seg req lost where item: "item = (ps, seg, req, lost)" by (cases item)
  then have ok: "bare (ae_iterate V) req" "concat ps @ seg = request_write req []" "seg \<noteq> []"
    using Cons.prems by auto
  let ?rest = "concat (map (\<lambda>(ps, seg, req, lost). ps @ [seg @ lost]) items)"
  have "read_request (ae_pick V) (ps @ (seg @ lost) # ?rest) = Inr (req, lost, ?rest)"
    by (rule read_bare [OF ok])
  then have step: "read_request (ae_pick V) (concat (map (\<lambda>(ps, seg, req, lost). ps @ [seg @ lost]) (item # items))) = Inr (req, lost, ?rest)"
    by (simp add: item)
  have again: "reads_again (ae_iterate V) req" using ok(1) by (simp add: bare_def)
  have IH: "serve_connection V ?rest s' = answer_all V (map (\<lambda>(ps, seg, req, lost). req) items) s'" for s'
    using Cons by simp
  show ?case
    by (subst serve_connection.simps) (simp only: step, auto simp: item again IH split: option.split prod.split sum.split)
qed

text \<open>A start of the capture in two pieces, the second with a stop behind it: the stop is lost.\<close>

definition start_req :: request where
  "start_req = \<lparr>req_method = ''GET'', req_path = ''/api/v1/capture/start'', req_query_string = [],
     req_http_version = ''1.1'', req_header = []\<rparr>"

theorem requests_in_order_witness:
  "serve_connection sample_app_environment
     [''GET /api/v1/cap'', ''ture/start HTTP/1.1'' @ blank @ ''GET /api/v1/capture/stop HTTP/1.1'' @ blank]
     (app_start config_default sample_db ()) =
   Some ([write_content ''{}''], Closed, started (app_start config_default sample_db ()))"
proof -
  let ?lost = "''GET /api/v1/capture/stop HTTP/1.1'' @ blank"
  let ?item = "([''GET /api/v1/cap''], ''ture/start HTTP/1.1'' @ blank, start_req, ?lost)"
  have "bare (ae_iterate sample_app_environment) start_req"
    by (simp add: bare_def start_req_def request_wf_def plain_target_def param_values_def reads_again_def sample_app_environment_def code_def)
  then have "\<forall>(ps, seg, req, lost) \<in> set [?item].
      concat ps @ seg = request_write req [] \<and> seg \<noteq> [] \<and> bare (ae_iterate sample_app_environment) req"
    by (simp add: start_req_def request_write_def request_text_def header_text_def)
  from requests_in_order [OF this, of "app_start config_default sample_db ()"]
  have "serve_connection sample_app_environment [''GET /api/v1/cap'', (''ture/start HTTP/1.1'' @ blank) @ ?lost] (app_start config_default sample_db ()) =
      answer_all sample_app_environment [start_req] (app_start config_default sample_db ())" by simp
  moreover have "answer_request sample_app_environment start_req (app_start config_default sample_db ()) =
      Some (Inr (Some (write_content ''{}'')), started (app_start config_default sample_db ()))"
    by (simp add: answer_request_def start_req_def find_resource_path resource_function_def web_start_def act_bind_def
      start_capture_def choose_device_def sample_app_environment_def sample_pcap_def Let_def act_return_def started_def
      app_start_def config_default_def config_capture_default_def)
  ultimately show ?thesis by simp
qed
section \<open>Serving a connection returns\<close>

text \<open>The requests the pieces of a connection hold, as long as they can be read.\<close>

function requests_of :: "(string list \<Rightarrow> string) \<Rightarrow> string list \<Rightarrow> request list" where
  "requests_of pick segs =
     (case read_request pick segs of
        Inl e \<Rightarrow> []
      | Inr (request, content, segs') \<Rightarrow> request # requests_of pick segs')"
  by pat_completeness auto
termination
  by (relation "measure (\<lambda>(pick, segs). length (concat segs))") (auto dest: read_request_shorter)

declare requests_of.simps [simp del]

lemma ends_by_never: "ends_by x \<noteq> ServerExits f"
  by (cases x) simp_all

lemma read_request_never: "read_request pick segs \<noteq> Inl (ServerExits f)"
  using ends_by_never by (auto simp: read_request_def split: option.splits sum.splits)

context web_contract
begin

lemma connection_keeps:
  assumes "ok V" and "I s" and "\<forall>request \<in> set (requests_of (ae_pick V) segs). asks V request"
  shows "\<exists>sent en s'. serve_connection V segs s = Some (sent, en, s') \<and>
    (case en of ServerExits e \<Rightarrow> \<exists>status. e = ProcessExit status | _ \<Rightarrow> I s')"
  using assms(2,3)
proof (induction "length (concat segs)" arbitrary: segs s rule: less_induct)
  case less
  show ?case
  proof (cases "read_request (ae_pick V) segs")
    case (Inl e)
    then show ?thesis
      using read_request_never [of "ae_pick V" segs] less.prems(1) by (subst serve_connection.simps) (cases e, auto)
  next
    case (Inr rcs)
    obtain request content segs' where rcs: "rcs = (request, content, segs')" by (cases rcs)
    have asks: "asks V request" "\<forall>request \<in> set (requests_of (ae_pick V) segs'). asks V request"
      using less.prems(2) Inr rcs by (subst (asm) requests_of.simps, simp)+
    from answer_request_returns [OF assms(1) less.prems(1) asks(1)] less.prems(1) obtain res s' where
      res: "answer_request V request s = Some (res, s')" "case res of Inl e \<Rightarrow> \<exists>status. e = ProcessExit status | Inr answer \<Rightarrow> I s'"
      by (fastforce split: sum.splits option.splits)
    show ?thesis
    proof (cases "\<exists>body. res = Inr (Some body) \<and> reads_again (ae_iterate V) request")
      case True
      then obtain body where body: "res = Inr (Some body)" "reads_again (ae_iterate V) request" by blast
      have "length (concat segs') < length (concat segs)" using read_request_shorter Inr rcs by blast
      from less.hyps [OF this, of s'] asks(2) res body obtain sent en s'' where
        "serve_connection V segs' s' = Some (sent, en, s'')"
        "case en of ServerExits e \<Rightarrow> \<exists>status. e = ProcessExit status | _ \<Rightarrow> I s''" by auto
      then show ?thesis using Inr rcs res body by (subst serve_connection.simps) simp
    next
      case False
      with Inr rcs res show ?thesis
        by (subst serve_connection.simps) (auto split: sum.splits option.splits)
    qed
  qed
qed

end

text \<open>C18: 
  Serving a connection returns in every state, whatever the client sends, however it is cut into
  pieces, whatever the engine answers and whatever text of SQL is asked. It ends closed, or with an
  exit that the code makes, or, for the sizes of chunks below, with the end of the process or undefined.
  Unless the process exits, the application still reports to capture just when it holds a device, when
  it came from its start. The counters per type are then the numbers of packet rows of their types, if
  the engine takes the rows of the program and no text of SQL that was asked before or in a request of
  the connection changes the database.
\<close>

theorem connection_returns:
  assumes "json_throws (ae_json V)"
  shows "\<exists>sent en s'. serve_connection V segs s = Some (sent, en, s') \<and>
    (case en of
       ServerExits e \<Rightarrow> \<exists>status. e = ProcessExit status
     | _ \<Rightarrow> app_run V (app_start conf d r) evs s \<longrightarrow>
         (app_capturing s' \<longleftrightarrow> app_dev s' \<noteq> None) \<and>
         (web_env_ok V \<and> db_inv d \<and> (\<forall>input. Request input \<in> set evs \<longrightarrow> input_reads V input) \<and>
            (\<forall>request \<in> set (requests_of (ae_pick V) segs). request_reads V request) \<longrightarrow>
          (\<forall>k < 32. db_count_per_type (ph_db (app_ph s')) ! k = of_nat (packets_of_type (db_history (ph_db (app_ph s'))) k))))"
proof -
  obtain sent en s' where serve: "serve_connection V segs s = Some (sent, en, s')"
      and exits: "case en of ServerExits e \<Rightarrow> \<exists>status. e = ProcessExit status | _ \<Rightarrow> True"
    using every_state.connection_keeps [OF assms TrueI, of segs s] by blast
  have "(app_capturing s' \<longleftrightarrow> app_dev s' \<noteq> None) \<and>
      (web_env_ok V \<and> db_inv d \<and> (\<forall>input. Request input \<in> set evs \<longrightarrow> input_reads V input) \<and>
         (\<forall>request \<in> set (requests_of (ae_pick V) segs). request_reads V request) \<longrightarrow>
       (\<forall>k < 32. db_count_per_type (ph_db (app_ph s')) ! k = of_nat (packets_of_type (db_history (ph_db (app_ph s'))) k)))"
    if run: "app_run V (app_start conf d r) evs s" and no_exit: "\<forall>e. en \<noteq> ServerExits e"
  proof (intro conjI impI)
    have "reported_ok s" by (rule app_run_reported [OF run assms app_start_reported])
    with flags.connection_keeps [OF assms, of s segs] serve no_exit show "app_capturing s' \<longleftrightarrow> app_dev s' \<noteq> None"
      by (cases en) (auto simp: reported_ok_def flags_ok_def)
  next
    assume *: "web_env_ok V \<and> db_inv d \<and> (\<forall>input. Request input \<in> set evs \<longrightarrow> input_reads V input) \<and>
      (\<forall>request \<in> set (requests_of (ae_pick V) segs). request_reads V request)"
    then have V: "web_env_ok V" and asks: "\<forall>request \<in> set (requests_of (ae_pick V) segs). request_reads V request" by blast+
    have "app_inv s" by (rule app_run_inv [OF run V app_start_inv]) (use * in blast)+
    with reading.connection_keeps [OF V this asks] serve no_exit have "app_inv s'" by (cases en) auto
    then show "\<forall>k < 32. db_count_per_type (ph_db (app_ph s')) ! k = of_nat (packets_of_type (db_history (ph_db (app_ph s'))) k)"
      by (simp add: app_inv_counts)
  qed
  with serve exits show ?thesis by (cases en) auto
qed

text \<open>A request for the start page, and what is no request.\<close>

lemma sample_requests:
  "\<forall>request \<in> set (requests_of (ae_pick sample_app_environment) [''GET / HTTP/1.1'' @ blank, ''x'']).
     request_reads sample_app_environment request"
proof -
  let ?req = "\<lparr>req_method = ''GET'', req_path = ''/'', req_query_string = [], req_http_version = ''1.1'', req_header = []\<rparr>"
  have "bare (\<lambda>m. m) ?req"
    by (simp add: bare_def request_wf_def plain_target_def param_values_def reads_again_def code_def)
  from read_bare [OF this, of "[]" "''GET / HTTP/1.1'' @ blank" hd "[]" "[''x'']"]
  have "read_request hd [''GET / HTTP/1.1'' @ blank, ''x''] = Inr (?req, [], [''x''])"
    by (simp add: request_write_def request_text_def header_text_def)
  moreover have "read_request hd [''x''] = Inl Closed" by (simp add: read_request_def)
  moreover have "find_resource ?req = Some Default"
    by (simp add: find_resource_def resources_def regex_match_def)
  ultimately show ?thesis
    by (subst requests_of.simps, subst requests_of.simps) (simp add: sample_app_environment_def request_reads_def)
qed

theorem connection_returns_witness:
  "\<exists>s. app_capturing s \<and> (\<exists>sent en s'. serve_connection sample_app_environment [''GET / HTTP/1.1'' @ blank, ''x''] s = Some (sent, en, s') \<and>
     (case en of ServerExits e \<Rightarrow> \<exists>status. e = ProcessExit status | _ \<Rightarrow> (app_capturing s' \<longleftrightarrow> app_dev s' \<noteq> None) \<and>
        (\<forall>k < 32. db_count_per_type (ph_db (app_ph s')) ! k = of_nat (packets_of_type (db_history (ph_db (app_ph s'))) k))))"
proof -
  let ?V = sample_app_environment and ?segs = "[''GET / HTTP/1.1'' @ blank, ''x'']"
    and ?evs = "[Request start_request, LivePacket [1, 2, 3]] :: bytes app_event list"
  obtain s where s: "app_run ?V (app_start config_default sample_db ()) ?evs s" "app_capturing s"
    using sample_app_run by blast
  from connection_returns [OF sample_web_env_ok(2), of ?segs s config_default sample_db "()" ?evs] obtain sent en s'
    where serve: "serve_connection ?V ?segs s = Some (sent, en, s')"
      and ends: "case en of ServerExits e \<Rightarrow> \<exists>status. e = ProcessExit status
        | _ \<Rightarrow> app_run ?V (app_start config_default sample_db ()) ?evs s \<longrightarrow> (app_capturing s' \<longleftrightarrow> app_dev s' \<noteq> None) \<and>
            (web_env_ok ?V \<and> db_inv sample_db \<and> (\<forall>input. Request input \<in> set ?evs \<longrightarrow> input_reads ?V input) \<and>
              (\<forall>request \<in> set (requests_of (ae_pick ?V) ?segs). request_reads ?V request) \<longrightarrow>
            (\<forall>k < 32. db_count_per_type (ph_db (app_ph s')) ! k = of_nat (packets_of_type (db_history (ph_db (app_ph s'))) k)))"
    by (elim exE conjE)
  have "\<forall>input. Request input \<in> set ?evs \<longrightarrow> input_reads ?V input" using start_request_reads by simp
  with ends s(1) sample_web_env_ok(1) sample_db_inv sample_requests
  have "case en of ServerExits e \<Rightarrow> \<exists>status. e = ProcessExit status | _ \<Rightarrow> (app_capturing s' \<longleftrightarrow> app_dev s' \<noteq> None) \<and>
      (\<forall>k < 32. db_count_per_type (ph_db (app_ph s')) ! k = of_nat (packets_of_type (db_history (ph_db (app_ph s'))) k))"
    by (cases en) simp_all
  with serve s(2) show ?thesis by blast
qed

section \<open>Sizes of chunks\<close>

lemma read_whole:
  assumes "request_wf req"
  shows "read_request pick [request_write req x] =
    (case read_content pick req (length x) x [] of Inl e \<Rightarrow> Inl (ends_by e) | Inr (content, segs) \<Rightarrow> Inr (req, content, segs))"
proof -
  have len: "length (request_write req []) - 4 + length blank = length (request_write req [])"
    using request_write_long [of req] by simp
  have "read_until blank [] ([] @ (request_write req [] @ x) # []) = Some (length (request_write req []), request_write req [] @ x, [])"
    using read_until_pieces [of blank "[]" "[]" "request_write req []" "length (request_write req []) - 4" x "[]"]
      request_find [OF assms, of "[]"] request_write_long [of req] unfolding len
    by (cases "request_write req [] = []") simp_all
  then have "read_until blank [] [request_write req x] = Some (length (request_write req []), request_write req x, [])"
    by (simp add: request_write_append)
  moreover have "length (request_write req x) - length (request_write req []) = length x"
    using arg_cong [OF request_write_append [of req x], of length] by simp
  ultimately show ?thesis
    using request_message.reads_back [OF assms, of x] by (simp add: read_request_def)
qed

lemma largest_chunk:
  "read_chunked_transfer_encoded (''FFFFFFFFFFFFFFFF'' @ [CR, LF] @ c # x) [] [] = Inl BadAlloc"
proof -
  have "hex_value CHR ''F'' = Some 15" "\<not> isspace CHR ''F''" by code_simp+
  then have "stoul 16 ''FFFFFFFFFFFFFFFF'' = Some 18446744073709551615"
    by (simp add: stoul_def Let_def)
  then have "read_chunk_size (''FFFFFFFFFFFFFFFF'' @ [CR, LF] @ c # x) [] = Inr (18446744073709551615, c # x, [])"
    by (simp add: read_chunk_size_def Let_def)
  then show ?thesis by (subst read_chunked_transfer_encoded.simps) simp
qed

lemma empty_size_line: "read_chunked_transfer_encoded [LF, CR, LF] [] [] = Inl BadPopBack"
  by (subst read_chunked_transfer_encoded.simps) (simp add: read_chunk_size_def Let_def)

text \<open>C29: 
  A request that announces chunks ends the process by the size of its first chunk alone. To the
  largest number of 64 bits the two bytes that end a chunk are added with wrap around, nothing more
  is waited for, and the buffer that is allocated for the chunk is larger than any can be, an
  exception that nothing catches. A size line that is empty but for a line feed has its last
  character removed, which is undefined.
\<close>

theorem chunk_size_ends_process:
  assumes "request_wf req" and "param_values ''Content-Length'' (req_header req) = []"
    and "param_values ''Transfer-Encoding'' (req_header req) = [''chunked'']"
    and "\<forall>vals. vals \<noteq> [] \<longrightarrow> ae_pick V vals \<in> set vals"
  shows "serve_connection V [request_write req (''FFFFFFFFFFFFFFFF'' @ [CR, LF] @ c # x)] s = Some ([], ServerTerminates, s) \<and>
    serve_connection V [request_write req [LF, CR, LF]] s = Some ([], ServerUndefined, s)"
proof -
  have "ae_pick V [''chunked''] \<in> set [''chunked'']" using assms(4) by blast
  then have content: "read_content (ae_pick V) req n body [] = read_chunked_transfer_encoded body [] []" for n body
    using assms(2,3) by (simp add: read_content_def)
  have "read_request (ae_pick V) [request_write req (''FFFFFFFFFFFFFFFF'' @ [CR, LF] @ c # x)] = Inl ServerTerminates"
    unfolding read_whole [OF assms(1)] content largest_chunk by simp
  moreover have "read_request (ae_pick V) [request_write req [LF, CR, LF]] = Inl ServerUndefined"
    unfolding read_whole [OF assms(1)] content empty_size_line by simp
  ultimately show ?thesis
    by (subst (1 2) serve_connection.simps) simp
qed

theorem chunk_size_ends_process_witness:
  "serve_connection sample_app_environment
     [''GET / HTTP/1.1'' @ [CR, LF] @ ''Transfer-Encoding: chunked'' @ blank @ ''FFFFFFFFFFFFFFFF'' @ [CR, LF] @ ''x'']
     (app_start config_default sample_db ()) =
   Some ([], ServerTerminates, app_start config_default sample_db ())"
proof -
  let ?req = "\<lparr>req_method = ''GET'', req_path = ''/'', req_query_string = [], req_http_version = ''1.1'',
    req_header = [(''Transfer-Encoding'', ''chunked'')]\<rparr>"
  have "request_wf ?req" by (simp add: request_wf_def plain_target_def plain_field_def)
  moreover have "param_values ''Content-Length'' (req_header ?req) = []"
      "param_values ''Transfer-Encoding'' (req_header ?req) = [''chunked'']"
    by (simp_all add: param_values_def case_insensitive_equal_def)
  moreover have "\<forall>vals. vals \<noteq> [] \<longrightarrow> ae_pick sample_app_environment vals \<in> set vals"
    by (simp add: sample_app_environment_def)
  ultimately have "serve_connection sample_app_environment [request_write ?req (''FFFFFFFFFFFFFFFF'' @ [CR, LF] @ CHR ''x'' # [])]
      (app_start config_default sample_db ()) = Some ([], ServerTerminates, app_start config_default sample_db ())"
    by (rule conjunct1 [OF chunk_size_ends_process])
  then show ?thesis by (simp add: request_write_def request_text_def header_text_def)
qed

end
