(* ===== verification/ScopeRunner.thy ===== *)
theory ScopeRunner
  imports Prelude
begin

text \<open>
  The lock under which the web server runs its handlers (\<open>ScopeRunner\<close> of \<open>webserver/utility.hpp\<close>): a
  counter of the handlers that run, set to -1 when no more are to. Threads are numbered; a step is one
  atomic access to the counter, or a return. \<open>compare_exchange_weak\<close> may fail although the values are
  equal. The counter is an integer: it is at most the number of threads.
\<close>

section \<open>The runner and its threads\<close>

text \<open>
  Where a thread is: in \<open>continue_lock\<close> with the value it expects, holding the lock, back without it,
  in the loop of \<open>stop\<close>, and back from \<open>stop\<close>.
\<close>

datatype scope_pc =
    Idle
  | Continuing int
  | Holding
  | Refused
  | Stopping
  | StopDone

record scope_runner =
  scope_count :: int
  scope_pc :: "nat \<Rightarrow> scope_pc"

definition scope_start :: scope_runner where
  "scope_start = \<lparr>scope_count = 0, scope_pc = (\<lambda>_. Idle)\<rparr>"

definition scope_goto :: "nat \<Rightarrow> scope_pc \<Rightarrow> scope_runner \<Rightarrow> scope_runner" where
  "scope_goto i pc s = s\<lparr>scope_pc := (scope_pc s)(i := pc)\<rparr>"

text \<open>
  The loop of \<open>continue_lock\<close> after its condition is seen to hold: the value expected is replaced by
  that of the counter when the exchange fails. \<open>weak\<close> says whether it fails without need.
\<close>

definition continue_exchange :: "bool \<Rightarrow> nat \<Rightarrow> int \<Rightarrow> scope_runner \<Rightarrow> scope_runner" where
  "continue_exchange weak i expected s =
     (if scope_count s = expected \<and> \<not> weak then scope_goto i Holding (s\<lparr>scope_count := expected + 1\<rparr>)
      else scope_goto i (Continuing (scope_count s)) s)"

text \<open>The loop of \<open>stop\<close>, which expects zero each time.\<close>

definition stop_exchange :: "bool \<Rightarrow> nat \<Rightarrow> scope_runner \<Rightarrow> scope_runner" where
  "stop_exchange weak i s =
     (if scope_count s = 0 \<and> \<not> weak then scope_goto i StopDone (s\<lparr>scope_count := -1\<rparr>)
      else if scope_count s < 0 then scope_goto i StopDone s
      else s)"

text \<open>\<open>~SharedLock\<close>.\<close>

definition release :: "nat \<Rightarrow> scope_runner \<Rightarrow> scope_runner" where
  "release i s = scope_goto i Idle (s\<lparr>scope_count := scope_count s - 1\<rparr>)"

inductive scope_step :: "scope_runner \<Rightarrow> nat \<Rightarrow> scope_runner \<Rightarrow> bool" where
  load: "scope_pc s i = Idle \<Longrightarrow> scope_step s i (scope_goto i (Continuing (scope_count s)) s)"
| exchange: "scope_pc s i = Continuing e \<Longrightarrow> 0 \<le> e \<Longrightarrow> scope_step s i (continue_exchange weak i e s)"
| refuse: "scope_pc s i = Continuing e \<Longrightarrow> e < 0 \<Longrightarrow> scope_step s i (scope_goto i Refused s)"
| return_none: "scope_pc s i = Refused \<Longrightarrow> scope_step s i (scope_goto i Idle s)"
| unlock: "scope_pc s i = Holding \<Longrightarrow> scope_step s i (release i s)"
| stop_call: "scope_pc s i = Idle \<Longrightarrow> scope_step s i (scope_goto i Stopping s)"
| stop_loop: "scope_pc s i = Stopping \<Longrightarrow> scope_step s i (stop_exchange weak i s)"

inductive scope_run :: "scope_runner \<Rightarrow> nat list \<Rightarrow> scope_runner \<Rightarrow> bool" where
  run_nil: "scope_run s [] s"
| run_snoc: "scope_run s is s' \<Longrightarrow> scope_step s' i s'' \<Longrightarrow> scope_run s (is @ [i]) s''"

inductive_cases scope_stepE: "scope_step s i s'"

section \<open>The invariant\<close>

definition holders :: "scope_runner \<Rightarrow> nat set" where
  "holders s = {i. scope_pc s i = Holding}"

definition scope_inv :: "scope_runner \<Rightarrow> bool" where
  "scope_inv s \<longleftrightarrow> finite (holders s) \<and>
     (scope_count s = int (card (holders s)) \<and> (\<forall>i. scope_pc s i \<noteq> StopDone) \<or>
      scope_count s = -1 \<and> holders s = {})"

lemma scope_goto_simps [simp]:
  "scope_count (scope_goto i pc s) = scope_count s" "scope_pc (scope_goto i pc s) = (scope_pc s)(i := pc)"
  by (simp_all add: scope_goto_def)

lemma holders_goto:
  "holders (scope_goto i pc s) = (if pc = Holding then insert i (holders s) else holders s - {i})"
  by (auto simp: holders_def)

lemma holders_count [simp]: "holders (s\<lparr>scope_count := n\<rparr>) = holders s"
  by (simp add: holders_def)

lemma holders_kept: "scope_pc s i \<noteq> Holding \<Longrightarrow> pc \<noteq> Holding \<Longrightarrow> holders (scope_goto i pc s) = holders s"
  by (auto simp: holders_def)

lemma scope_inv_goto:
  "scope_inv s \<Longrightarrow> scope_pc s i \<noteq> Holding \<Longrightarrow> pc \<noteq> Holding \<Longrightarrow> pc \<noteq> StopDone \<or> scope_count s = -1 \<Longrightarrow> scope_inv (scope_goto i pc s)"
  by (auto simp: scope_inv_def holders_kept)

lemma scope_step_inv: "scope_step s i s' \<Longrightarrow> scope_inv s \<Longrightarrow> scope_inv s'"
proof (induction rule: scope_step.induct)
  case (exchange s i e weak)
  show ?case
  proof (cases "scope_count s = e \<and> \<not> weak")
    case True
    moreover have "i \<notin> holders s" using exchange.hyps(1) by (simp add: holders_def)
    ultimately show ?thesis
      using exchange.hyps(2) exchange.prems
      by (auto simp: scope_inv_def continue_exchange_def holders_goto)
  next
    case False
    with exchange show ?thesis by (auto simp: continue_exchange_def intro: scope_inv_goto)
  qed
next
  case (unlock s i)
  then have i: "i \<in> holders s" "finite (holders s)" by (auto simp: holders_def scope_inv_def)
  then have "0 < card (holders s)" by (auto simp: card_gt_0_iff)
  with unlock i show ?case
    by (auto simp: scope_inv_def release_def holders_goto of_nat_diff)
next
  case (stop_loop s i weak)
  show ?case
  proof (cases "scope_count s = 0 \<and> \<not> weak")
    case True
    then have "holders s = {}" using stop_loop.prems by (auto simp: scope_inv_def)
    with True stop_loop show ?thesis
      by (simp add: scope_inv_def stop_exchange_def holders_kept)
  next
    case False
    with stop_loop show ?thesis
      by (auto simp: stop_exchange_def scope_inv_def holders_kept)
  qed
qed (simp_all add: scope_inv_goto)

lemma scope_run_inv: "scope_run s is s' \<Longrightarrow> scope_inv s \<Longrightarrow> scope_inv s'"
  by (induction rule: scope_run.induct) (auto intro: scope_step_inv)

lemma scope_start_inv: "scope_inv scope_start"
  by (simp add: scope_inv_def scope_start_def holders_def)

text \<open>Once the counter is negative it stays so, and no thread gets the lock.\<close>

lemma scope_stopped_step:
  "scope_step s i s' \<Longrightarrow> scope_count s = -1 \<and> holders s = {} \<Longrightarrow> scope_count s' = -1 \<and> holders s' = {}"
proof (induction rule: scope_step.induct)
  case (unlock s i)
  then show ?case by (auto simp: holders_def)
qed (auto simp: continue_exchange_def stop_exchange_def holders_kept)

lemma scope_stopped_run:
  "scope_run s is s' \<Longrightarrow> scope_count s = -1 \<and> holders s = {} \<Longrightarrow> scope_count s' = -1 \<and> holders s' = {}"
  by (induction rule: scope_run.induct) (auto dest: scope_stopped_step)

text \<open>C25: 
  The lock of the handlers, for any number of threads and any order of their accesses to the counter,
  with exchanges that fail without need. Until a call of \<open>stop\<close> has returned, the counter is the number
  of threads that hold the lock; a call of \<open>stop\<close> cannot return while one does, and does return by an
  exchange that fails only when it must once none does; after it, no thread holds the lock ever again.
\<close>

theorem stopped_runner_runs_nothing:
  assumes "scope_run scope_start is s"
  shows "((\<forall>i. scope_pc s i \<noteq> StopDone) \<or> (\<forall>i. scope_pc s i \<noteq> Holding)) \<and>
    (scope_count s \<noteq> -1 \<longrightarrow> scope_count s = int (card {i. scope_pc s i = Holding})) \<and>
    (\<forall>i. scope_pc s i = Stopping \<and> (\<forall>j. scope_pc s j \<noteq> Holding) \<longrightarrow> scope_pc (stop_exchange False i s) i = StopDone) \<and>
    (\<forall>i is' s'. scope_pc s i = StopDone \<and> scope_run s is' s' \<longrightarrow> (\<forall>j. scope_pc s' j \<noteq> Holding))"
proof -
  have inv: "scope_inv s" by (rule scope_run_inv [OF assms scope_start_inv])
  have empty: "holders t = {} \<longleftrightarrow> (\<forall>j. scope_pc t j \<noteq> Holding)" for t by (auto simp: holders_def)
  have stopped: "scope_count s = -1 \<and> holders s = {}" if "scope_pc s i = StopDone" for i
    using inv that by (auto simp: scope_inv_def)
  have "(\<forall>i. scope_pc s i \<noteq> StopDone) \<or> (\<forall>i. scope_pc s i \<noteq> Holding)"
    using stopped empty by blast
  moreover have "scope_count s \<noteq> -1 \<longrightarrow> scope_count s = int (card {i. scope_pc s i = Holding})"
    using inv by (auto simp: scope_inv_def holders_def)
  moreover have "scope_pc (stop_exchange False i s) i = StopDone" if "\<forall>j. scope_pc s j \<noteq> Holding" for i
  proof -
    from that have "holders s = {}" using empty by blast
    with inv have "scope_count s = 0 \<or> scope_count s < 0" by (auto simp: scope_inv_def)
    then show ?thesis by (auto simp: stop_exchange_def)
  qed
  moreover have "\<forall>j. scope_pc s' j \<noteq> Holding" if "scope_pc s i = StopDone" "scope_run s is' s'" for i is' s'
    using scope_stopped_run [OF that(2) stopped [OF that(1)]] empty by blast
  ultimately show ?thesis by blast
qed

text \<open>A handler takes the lock while another thread calls \<open>stop\<close>, which has to wait for it.\<close>

theorem stopped_runner_runs_nothing_witness:
  "\<exists>s. scope_run scope_start [0, 0, 1] s \<and> scope_pc s 0 = Holding \<and> scope_pc s 1 = Stopping \<and> scope_count s = 1 \<and>
     (\<forall>i. scope_pc s i \<noteq> StopDone)"
proof -
  let ?s1 = "scope_goto 0 (Continuing 0) scope_start"
  let ?s2 = "continue_exchange False 0 0 ?s1"
  let ?s3 = "scope_goto 1 Stopping ?s2"
  have "scope_step scope_start 0 ?s1" using scope_step.load [of scope_start 0] by (simp add: scope_start_def)
  moreover have "scope_step ?s1 0 ?s2" by (rule scope_step.exchange) simp_all
  moreover have "scope_step ?s2 1 ?s3"
    by (rule scope_step.stop_call) (simp add: continue_exchange_def scope_start_def)
  ultimately have run: "scope_run scope_start [0, 0, 1] ?s3"
    using run_snoc [OF run_snoc [OF run_snoc [OF run_nil]]] by fastforce
  have pcs: "scope_pc ?s3 0 = Holding" "scope_pc ?s3 1 = Stopping" "scope_count ?s3 = 1"
    by (simp_all add: continue_exchange_def scope_start_def)
  with stopped_runner_runs_nothing [OF run] have "\<forall>i. scope_pc ?s3 i \<noteq> StopDone" by blast
  with run pcs show ?thesis by blast
qed

end
