(* ===== verification/SendQueue.thy ===== *)
theory SendQueue
  imports WebLaws
begin

text \<open>
  The queue of a response that is sent in blocks (\<open>send_queue\<close> of \<open>webserver/server_http.hpp\<close>). The strand
  runs what is posted to it one after another, in the order of the posts; a write that ends runs its
  handler between two of them. A block has a callback, which may send more: \<open>calls c ec\<close> is what
  the callback \<open>c\<close> sends when it is called with the error \<open>ec\<close>.
\<close>

section \<open>The response and its strand\<close>

type_synonym 'c send_block = "string \<times> 'c option"

text \<open>What \<open>send\<close> and \<open>send_from_queue\<close> post.\<close>

datatype 'c strand_task =
    EmplaceBack "'c send_block"
  | AsyncWrite

text \<open>
  The queue, what is posted, and whether a write of the first block of the queue is under way.
  \<open>sq_stopped\<close>: the handler of a write did not get the lock. \<open>sq_undefined\<close>: the first block of an empty
  queue was asked for. The others record what happened: the blocks sent, the bytes on the
  connection, the callbacks with their errors, and whether a write ended with an error.
\<close>

record 'c send_state =
  sq_queue :: "'c send_block list"
  sq_posted :: "'c strand_task list"
  sq_writing :: bool
  sq_stopped :: bool
  sq_undefined :: bool
  sq_sent :: "'c send_block list"
  sq_wire :: string
  sq_called :: "('c \<times> bool) list"
  sq_failed :: bool

definition send_start :: "'c send_state" where
  "send_start = \<lparr>sq_queue = [], sq_posted = [], sq_writing = False, sq_stopped = False, sq_undefined = False,
     sq_sent = [], sq_wire = [], sq_called = [], sq_failed = False\<rparr>"

definition send :: "'c send_block \<Rightarrow> 'c send_state \<Rightarrow> 'c send_state" where
  "send b s = s\<lparr>sq_posted := sq_posted s @ [EmplaceBack b], sq_sent := sq_sent s @ [b]\<rparr>"

definition send_from_queue :: "'c send_state \<Rightarrow> 'c send_state" where
  "send_from_queue s = s\<lparr>sq_posted := sq_posted s @ [AsyncWrite]\<rparr>"

text \<open>The task at the front of what is posted.\<close>

definition emplace_back :: "'c send_block \<Rightarrow> 'c send_state \<Rightarrow> 'c send_state" where
  "emplace_back b s =
     (let s = s\<lparr>sq_queue := sq_queue s @ [b]\<rparr>
      in if length (sq_queue s) = 1 then send_from_queue s else s)"

definition async_write :: "'c send_state \<Rightarrow> 'c send_state" where
  "async_write s = (if sq_queue s = [] then s\<lparr>sq_undefined := True\<rparr> else s\<lparr>sq_writing := True\<rparr>)"

fun run_task :: "'c strand_task \<Rightarrow> 'c send_state \<Rightarrow> 'c send_state" where
  "run_task (EmplaceBack b) s = emplace_back b s"
| "run_task AsyncWrite s = async_write s"

text \<open>A callback, if there is one, sends its blocks while the block is still in the queue.\<close>

definition call_back :: "('c \<Rightarrow> bool \<Rightarrow> 'c send_block list) \<Rightarrow> bool \<Rightarrow> 'c send_block \<Rightarrow> 'c send_state \<Rightarrow> 'c send_state" where
  "call_back calls ec b s =
     (case snd b of
        None \<Rightarrow> s
      | Some c \<Rightarrow> fold send (calls c ec) (s\<lparr>sq_called := sq_called s @ [(c, ec)]\<rparr>))"

text \<open>
  The handler of a write that ended: \<open>lock\<close> is what \<open>continue_lock\<close> gave it, \<open>ec\<close> whether there was an
  error, after \<open>n\<close> bytes.
\<close>

definition write_ended ::
    "('c \<Rightarrow> bool \<Rightarrow> 'c send_block list) \<Rightarrow> bool \<Rightarrow> bool \<Rightarrow> nat \<Rightarrow> 'c send_state \<Rightarrow> 'c send_state" where
  "write_ended calls lock ec n s =
     (let s = s\<lparr>sq_writing := False, sq_failed := sq_failed s \<or> ec,
               sq_wire := sq_wire s @ (if ec then take n (fst (hd (sq_queue s))) else fst (hd (sq_queue s)))\<rparr>
      in if \<not> lock then s\<lparr>sq_stopped := True\<rparr>
         else if \<not> ec then
           (let s = call_back calls ec (hd (sq_queue s)) s;
                s = s\<lparr>sq_queue := tl (sq_queue s)\<rparr>
            in if 0 < length (sq_queue s) then send_from_queue s else s)
         else
           (let s = fold (call_back calls ec) (sq_queue s) s
            in s\<lparr>sq_queue := []\<rparr>))"

text \<open>What the strand does: it runs a task, or a write ends. Handlers send whenever they want.\<close>

inductive strand_step ::
    "('c \<Rightarrow> bool \<Rightarrow> 'c send_block list) \<Rightarrow> 'c send_state \<Rightarrow> 'c send_state \<Rightarrow> bool" for calls where
  task: "sq_posted s = t # ts \<Longrightarrow> strand_step calls s (run_task t (s\<lparr>sq_posted := ts\<rparr>))"
| ended: "sq_writing s \<Longrightarrow> strand_step calls s (write_ended calls lock ec n s)"

inductive send_step ::
    "('c \<Rightarrow> bool \<Rightarrow> 'c send_block list) \<Rightarrow> 'c send_state \<Rightarrow> 'c send_state \<Rightarrow> bool" for calls where
  strand: "strand_step calls s s' \<Longrightarrow> send_step calls s s'"
| sends: "send_step calls s (send b s)"

section \<open>The invariant\<close>

lemma run_task_flags: "sq_failed (run_task t s) = sq_failed s" "sq_stopped (run_task t s) = sq_stopped s"
  by (cases t; simp add: emplace_back_def async_write_def send_from_queue_def Let_def)+

text \<open>The blocks that are posted and not yet in the queue.\<close>

fun task_blocks :: "'c strand_task list \<Rightarrow> 'c send_block list" where
  "task_blocks [] = []"
| "task_blocks (EmplaceBack b # ts) = b # task_blocks ts"
| "task_blocks (AsyncWrite # ts) = task_blocks ts"

lemma task_blocks_append [simp]: "task_blocks (ts @ us) = task_blocks ts @ task_blocks us"
  by (induction ts rule: task_blocks.induct) simp_all

fun task_writes :: "'c strand_task list \<Rightarrow> nat" where
  "task_writes [] = 0"
| "task_writes (EmplaceBack b # ts) = task_writes ts"
| "task_writes (AsyncWrite # ts) = Suc (task_writes ts)"

lemma task_writes_append [simp]: "task_writes (ts @ us) = task_writes ts + task_writes us"
  by (induction ts rule: task_writes.induct) simp_all

definition callbacks :: "'c send_block list \<Rightarrow> 'c list" where
  "callbacks bs = List.map_filter snd bs"

lemma callbacks_simps [simp]:
  "callbacks [] = []"
  "callbacks (b # bs) = (case snd b of None \<Rightarrow> callbacks bs | Some c \<Rightarrow> c # callbacks bs)"
  "callbacks (bs @ cs) = callbacks bs @ callbacks cs"
  by (simp_all add: callbacks_def map_filter_def split: option.split)

text \<open>
  \<open>ds\<close> are the blocks that were taken off the queue. Exactly one write is posted or under way while there
  is something to write, unless the lock was refused.
\<close>

definition send_inv :: "'c send_block list \<Rightarrow> 'c send_state \<Rightarrow> bool" where
  "send_inv ds s \<longleftrightarrow>
     \<not> sq_undefined s \<and>
     sq_sent s = ds @ sq_queue s @ task_blocks (sq_posted s) \<and>
     task_writes (sq_posted s) + (if sq_writing s then 1 else 0) = (if sq_queue s = [] \<or> sq_stopped s then 0 else 1) \<and>
     (sq_stopped s \<longrightarrow> sq_queue s \<noteq> []) \<and>
     map fst (sq_called s) = callbacks ds \<and>
     (\<not> sq_failed s \<longrightarrow>
        sq_wire s = concat (map fst (if sq_stopped s then ds @ [hd (sq_queue s)] else ds)) \<and> (\<forall>c\<in>set (sq_called s). \<not> snd c))"

lemma send_start_inv: "send_inv [] send_start"
  by (simp add: send_inv_def send_start_def)

lemma send_inv_send: "send_inv ds s \<Longrightarrow> send_inv ds (send b s)"
  by (simp add: send_inv_def send_def)

lemma send_inv_task:
  assumes "send_inv ds s" "sq_posted s = t # ts"
  shows "send_inv ds (run_task t (s\<lparr>sq_posted := ts\<rparr>))"
proof (cases t)
  case (EmplaceBack b)
  then show ?thesis
    using assms by (auto simp: send_inv_def emplace_back_def send_from_queue_def Let_def)
next
  case AsyncWrite
  then show ?thesis
    using assms by (auto simp: send_inv_def async_write_def split: if_splits)
qed

text \<open>What a callback leaves alone.\<close>

lemma fold_send:
  "fold send bs s = s\<lparr>sq_posted := sq_posted s @ map EmplaceBack bs, sq_sent := sq_sent s @ bs\<rparr>"
  by (induction bs arbitrary: s) (simp_all add: send_def)

lemma task_of_blocks [simp]:
  "task_blocks (map EmplaceBack bs) = bs" "task_writes (map EmplaceBack bs) = 0"
  by (induction bs) simp_all

definition call_blocks :: "('c \<Rightarrow> bool \<Rightarrow> 'c send_block list) \<Rightarrow> bool \<Rightarrow> 'c send_block list \<Rightarrow> 'c send_block list" where
  "call_blocks calls ec bs = concat (map (\<lambda>c. calls c ec) (callbacks bs))"

lemma call_back_fold:
  "fold (call_back calls ec) bs s =
     s\<lparr>sq_posted := sq_posted s @ map EmplaceBack (call_blocks calls ec bs),
       sq_sent := sq_sent s @ call_blocks calls ec bs,
       sq_called := sq_called s @ map (\<lambda>c. (c, ec)) (callbacks bs)\<rparr>"
  by (induction bs arbitrary: s)
    (simp_all add: call_back_def fold_send call_blocks_def split: option.split)

lemma call_back_one:
  "call_back calls ec b s =
     s\<lparr>sq_posted := sq_posted s @ map EmplaceBack (call_blocks calls ec [b]),
       sq_sent := sq_sent s @ call_blocks calls ec [b],
       sq_called := sq_called s @ map (\<lambda>c. (c, ec)) (callbacks [b])\<rparr>"
  using call_back_fold [of calls ec "[b]" s] by simp

lemma send_inv_ended:
  assumes inv: "send_inv ds s" and writing: "sq_writing s"
  shows "\<exists>ds'. send_inv ds' (write_ended calls lock ec n s)"
proof -
  from inv writing obtain b bs where q: "sq_queue s = b # bs" "\<not> sq_stopped s" "task_writes (sq_posted s) = 0"
    by (cases "sq_queue s") (auto simp: send_inv_def split: if_splits)
  consider "\<not> lock" | "lock" "\<not> ec" | "lock" "ec" by blast
  then show ?thesis
  proof cases
    case 1
    then have "send_inv ds (write_ended calls lock ec n s)"
      using inv q writing by (auto simp: send_inv_def write_ended_def)
    then show ?thesis by blast
  next
    case 2
    then have "send_inv (ds @ [b]) (write_ended calls lock ec n s)"
      using inv q writing
      by (auto simp: send_inv_def write_ended_def call_back_one send_from_queue_def Let_def split: option.splits)
    then show ?thesis by blast
  next
    case 3
    then have "send_inv (ds @ sq_queue s) (write_ended calls lock ec n s)"
      using inv q writing
      by (auto simp: send_inv_def write_ended_def call_back_fold comp_def split: option.splits)
    then show ?thesis by blast
  qed
qed

lemma strand_step_inv: "strand_step calls s s' \<Longrightarrow> send_inv ds s \<Longrightarrow> \<exists>ds'. send_inv ds' s'"
  by (induction rule: strand_step.induct) (auto intro: send_inv_task send_inv_ended)

lemma send_step_inv: "send_step calls s s' \<Longrightarrow> send_inv ds s \<Longrightarrow> \<exists>ds'. send_inv ds' s'"
  by (induction rule: send_step.induct) (auto dest: strand_step_inv intro: send_inv_send)

lemma send_steps_inv: "(send_step calls)\<^sup>*\<^sup>* send_start s \<Longrightarrow> \<exists>ds. send_inv ds s"
  by (induction rule: rtranclp_induct) (use send_start_inv in \<open>blast dest: send_step_inv\<close>)+

section \<open>A file in blocks\<close>

text \<open>
  What a pass of \<open>read_and_send\<close> sends and leaves: with a full block the response's buffer goes out, and the
  callback makes the next pass with the rest of the file, unless there was an error; otherwise the
  buffer keeps what was read, and goes out when the response is destroyed.
\<close>

definition pass_sends :: "string \<Rightarrow> string \<Rightarrow> string send_block list" where
  "pass_sends buf ifs =
     (let block = take BLOCK ifs
      in if length block = BLOCK then [(buf @ block, Some (drop BLOCK ifs))] else [])"

definition next_pass :: "string \<Rightarrow> bool \<Rightarrow> string send_block list" where
  "next_pass ifs ec = (if ec then [] else pass_sends [] ifs)"

lemma pass_cases:
  obtains (last) "pass_sends buf ifs = []" "read_and_send buf ifs = [buf @ take BLOCK ifs]"
  | (block) t rest where "pass_sends buf ifs = [(t, Some rest)]" "read_and_send buf ifs = t # read_and_send [] rest"
proof (cases "length (take BLOCK ifs) = BLOCK")
  case True
  then have "take BLOCK ifs \<noteq> []" by (auto simp: BLOCK_def)
  with True show ?thesis
    by (intro block [of "buf @ take BLOCK ifs" "drop BLOCK ifs"])
      (simp_all add: pass_sends_def Let_def read_and_send.simps [of buf ifs])
next
  case False
  then show ?thesis
    by (intro last) (auto simp: pass_sends_def Let_def read_and_send.simps [of buf ifs])
qed

text \<open>
  The state after \<open>k\<close> steps without an error, with the blocks \<open>ds\<close> on the connection. Each block takes
  three: it is put in the queue, its write starts, and ends.
\<close>

definition file_at :: "string list \<Rightarrow> nat \<Rightarrow> string send_state \<Rightarrow> bool" where
  "file_at texts k s \<longleftrightarrow>
     (\<exists>ds buf ifs. ds @ read_and_send buf ifs = texts \<and> sq_wire s = concat ds \<and> \<not> sq_undefined s \<and>
       (case pass_sends buf ifs of
          [] \<Rightarrow> k = 3 * length ds \<and> sq_posted s = [] \<and> sq_queue s = [] \<and> \<not> sq_writing s
        | b # _ \<Rightarrow>
            k = 3 * length ds \<and> sq_posted s = [EmplaceBack b] \<and> sq_queue s = [] \<and> \<not> sq_writing s \<or>
            k = 3 * length ds + 1 \<and> sq_posted s = [AsyncWrite] \<and> sq_queue s = [b] \<and> \<not> sq_writing s \<or>
            k = 3 * length ds + 2 \<and> sq_posted s = [] \<and> sq_queue s = [b] \<and> sq_writing s))"

lemma file_start:
  "file_at (read_and_send buf ifs) 0 (fold send (pass_sends buf ifs) send_start)"
  unfolding file_at_def
  by (rule exI [of _ "[]"], rule exI [of _ buf], rule exI [of _ ifs], cases buf ifs rule: pass_cases)
    (simp_all add: send_start_def send_def)

lemma file_step:
  assumes "strand_step next_pass s s'" "file_at texts k s" "\<not> sq_failed s'" "\<not> sq_stopped s'"
  shows "file_at texts (Suc k) s'"
proof -
  from assms(2) obtain ds buf ifs where at: "ds @ read_and_send buf ifs = texts" "sq_wire s = concat ds" "\<not> sq_undefined s"
    and ph: "case pass_sends buf ifs of
          [] \<Rightarrow> k = 3 * length ds \<and> sq_posted s = [] \<and> sq_queue s = [] \<and> \<not> sq_writing s
        | b # _ \<Rightarrow>
            k = 3 * length ds \<and> sq_posted s = [EmplaceBack b] \<and> sq_queue s = [] \<and> \<not> sq_writing s \<or>
            k = 3 * length ds + 1 \<and> sq_posted s = [AsyncWrite] \<and> sq_queue s = [b] \<and> \<not> sq_writing s \<or>
            k = 3 * length ds + 2 \<and> sq_posted s = [] \<and> sq_queue s = [b] \<and> sq_writing s"
    unfolding file_at_def by blast
  show ?thesis
  proof (cases buf ifs rule: pass_cases)
    case last
    with ph assms(1) show ?thesis by (auto elim: strand_step.cases)
  next
    case (block t rest)
    show ?thesis using assms(1)
    proof cases
      case (task u us)
      with ph block(1) at show ?thesis
        unfolding file_at_def
        by (intro exI [of _ ds] exI [of _ buf] exI [of _ ifs])
          (auto simp: emplace_back_def async_write_def send_from_queue_def)
    next
      case (ended lock ec n)
      with assms(3,4) have "\<not> ec" "lock"
        by (auto simp: write_ended_def Let_def call_back_fold split: if_splits)
      with ended ph block at show ?thesis
        unfolding file_at_def
        by (intro exI [of _ "ds @ [t]"] exI [of _ "[]"] exI [of _ rest], cases "[] :: string" rest rule: pass_cases)
          (auto simp: write_ended_def Let_def call_back_def next_pass_def send_def)
    qed
  qed
qed

lemma write_ended_flags:
  "sq_failed (write_ended calls True False n s) = sq_failed s" "sq_stopped (write_ended calls True False n s) = sq_stopped s"
  by (simp_all add: write_ended_def call_back_one send_from_queue_def Let_def)

lemma strand_step_flags:
  "strand_step calls s s' \<Longrightarrow> (sq_failed s \<longrightarrow> sq_failed s') \<and> (sq_stopped s \<longrightarrow> sq_stopped s')"
  by (induction rule: strand_step.induct)
    (simp_all add: run_task_flags write_ended_def call_back_fold call_back_one send_from_queue_def Let_def)

lemma file_steps:
  "(strand_step next_pass ^^ k) s0 s \<Longrightarrow> file_at texts 0 s0 \<Longrightarrow> \<not> sq_failed s \<Longrightarrow> \<not> sq_stopped s \<Longrightarrow> file_at texts k s"
proof (induction k arbitrary: s)
  case (Suc k)
  then obtain t where run: "(strand_step next_pass ^^ k) s0 t" and step: "strand_step next_pass t s" by auto
  from strand_step_flags [OF step] Suc.prems(3,4) have "\<not> sq_failed t" "\<not> sq_stopped t" by auto
  with Suc.IH [OF run Suc.prems(2)] file_step [OF step] Suc.prems show ?case by blast
qed simp

text \<open>The state after the last step: all but the last block of the file are on the connection.\<close>

lemma file_end:
  assumes "file_at texts k s"
  shows "k \<le> 3 * (length texts - 1) \<and> (k = 3 * (length texts - 1) \<longrightarrow> sq_wire s @ last texts = concat texts) \<and>
    (k < 3 * (length texts - 1) \<longrightarrow> (\<exists>s'. strand_step next_pass s s' \<and> sq_failed s' = sq_failed s \<and> sq_stopped s' = sq_stopped s))"
proof -
  from assms obtain ds buf ifs where at: "ds @ read_and_send buf ifs = texts" "sq_wire s = concat ds"
    and ph: "case pass_sends buf ifs of
          [] \<Rightarrow> k = 3 * length ds \<and> sq_posted s = [] \<and> sq_queue s = [] \<and> \<not> sq_writing s
        | b # _ \<Rightarrow>
            k = 3 * length ds \<and> sq_posted s = [EmplaceBack b] \<and> sq_queue s = [] \<and> \<not> sq_writing s \<or>
            k = 3 * length ds + 1 \<and> sq_posted s = [AsyncWrite] \<and> sq_queue s = [b] \<and> \<not> sq_writing s \<or>
            k = 3 * length ds + 2 \<and> sq_posted s = [] \<and> sq_queue s = [b] \<and> sq_writing s"
    unfolding file_at_def by blast
  show ?thesis
  proof (cases buf ifs rule: pass_cases)
    case last
    from last(2) at(1) have texts: "texts = ds @ [buf @ take BLOCK ifs]" by simp
    from last(1) ph have "k = 3 * length ds" by simp
    then show ?thesis unfolding texts using at(2) by simp
  next
    case (block t rest)
    have "read_and_send [] rest \<noteq> []" by (cases "[] :: string" rest rule: pass_cases) simp_all
    then have "length ds + 2 \<le> length texts"
      using at(1) block(2) by (cases "read_and_send [] rest") auto
    then have "k < 3 * (length texts - 1)" using ph block(1) by auto
    moreover have "\<exists>s'. strand_step next_pass s s' \<and> sq_failed s' = sq_failed s \<and> sq_stopped s' = sq_stopped s"
    proof -
      consider u where "sq_posted s = [u]" | "sq_writing s" using ph block(1) by auto
      then show ?thesis
      proof cases
        case 1
        then show ?thesis
          by (intro exI [of _ "run_task u (s\<lparr>sq_posted := []\<rparr>)"]) (simp add: strand_step.task run_task_flags)
      next
        case 2
        then show ?thesis
          by (intro exI [of _ "write_ended next_pass True False 0 s"]) (simp add: strand_step.ended write_ended_flags)
      qed
    qed
    ultimately show ?thesis by simp
  qed
qed

section \<open>What is sent\<close>

lemma runs_task:
  "(send_step calls)\<^sup>*\<^sup>* s0 s \<Longrightarrow> sq_posted s = t # ts \<Longrightarrow>
     (send_step calls)\<^sup>*\<^sup>* s0 (run_task t (s\<lparr>sq_posted := ts\<rparr>))"
  by (blast intro: rtranclp.rtrancl_into_rtrancl send_step.strand strand_step.task)

lemma runs_ended:
  "(send_step calls)\<^sup>*\<^sup>* s0 s \<Longrightarrow> sq_writing s \<Longrightarrow> (send_step calls)\<^sup>*\<^sup>* s0 (write_ended calls lock ec n s)"
  by (blast intro: rtranclp.rtrancl_into_rtrancl send_step.strand strand_step.ended)

text \<open>C26: 
  The blocks of a response. Whoever sends, whatever the callbacks send when they are called, and
  however writes end: the first block of an empty queue is never asked for, and no two writes are
  posted or under way at once; the callbacks called so far are those of the first blocks sent, each
  called once and in the order of the sends; when the strand has nothing left to do and got its lock
  each time, that is all of them, and without an error every callback is told so and the connection
  has the bytes of all blocks in order.
\<close>

theorem blocks_are_sent_in_order:
  assumes "(send_step calls)\<^sup>*\<^sup>* send_start s"
  shows "\<not> sq_undefined s \<and>
     task_writes (sq_posted s) + (if sq_writing s then 1 else 0) \<le> 1 \<and>
     (\<exists>later. callbacks (sq_sent s) = map fst (sq_called s) @ later) \<and>
     (sq_posted s = [] \<and> \<not> sq_writing s \<and> \<not> sq_stopped s \<longrightarrow>
        map fst (sq_called s) = callbacks (sq_sent s) \<and>
        (\<not> sq_failed s \<longrightarrow> (\<forall>c\<in>set (sq_called s). \<not> snd c) \<and> sq_wire s = concat (map fst (sq_sent s))))"
proof -
  from assms obtain ds where "send_inv ds s" using send_steps_inv by blast
  then show ?thesis by (auto simp: send_inv_def split: if_splits)
qed

text \<open>A block whose callback sends another.\<close>

theorem blocks_are_sent_in_order_witness:
  "\<exists>s. (send_step (\<lambda>c ec. if c = (1::nat) then [(''cd'', Some 2)] else []))\<^sup>*\<^sup>* send_start s \<and>
     sq_posted s = [] \<and> sq_sent s = [(''ab'', Some 1), (''cd'', Some 2)] \<and> sq_called s = [(1, False), (2, False)] \<and> sq_wire s = ''abcd''"
proof -
  let ?calls = "\<lambda>c ec. if c = (1::nat) then [(''cd'', Some (2::nat))] else []"
  let ?R = "(send_step ?calls)\<^sup>*\<^sup>* send_start"
  note eval = send_start_def send_def emplace_back_def async_write_def send_from_queue_def write_ended_def call_back_def
  let ?s1 = "send (''ab'', Some 1) send_start"
  let ?s2 = "run_task (EmplaceBack (''ab'', Some 1)) (?s1\<lparr>sq_posted := []\<rparr>)"
  let ?s3 = "write_ended ?calls True False 0 (run_task AsyncWrite (?s2\<lparr>sq_posted := []\<rparr>))"
  let ?s4 = "run_task (EmplaceBack (''cd'', Some 2)) (?s3\<lparr>sq_posted := []\<rparr>)"
  let ?s5 = "write_ended ?calls True False 0 (run_task AsyncWrite (?s4\<lparr>sq_posted := []\<rparr>))"
  have "?R ?s1" by (rule r_into_rtranclp) (rule send_step.sends)
  then have "?R ?s2" by (rule runs_task) (simp add: eval)
  then have "?R (run_task AsyncWrite (?s2\<lparr>sq_posted := []\<rparr>))" by (rule runs_task) (simp add: eval)
  then have "?R ?s3" by (rule runs_ended) (simp add: eval)
  then have "?R ?s4" by (rule runs_task) (simp add: eval)
  then have "?R (run_task AsyncWrite (?s4\<lparr>sq_posted := []\<rparr>))" by (rule runs_task) (simp add: eval)
  then have run: "?R ?s5" by (rule runs_ended) (simp add: eval)
  have "sq_posted ?s5 = []" "\<not> sq_writing ?s5" "\<not> sq_stopped ?s5" "\<not> sq_failed ?s5"
    "sq_sent ?s5 = [(''ab'', Some 1), (''cd'', Some 2)]" "sq_called ?s5 = [(1, False), (2, False)]"
    by (simp_all add: eval)
  with blocks_are_sent_in_order [OF run] run show ?thesis by auto
qed

text \<open>C27: 
  A file in blocks. Each full block takes three steps of the strand. As long as no write had an error
  and the lock was got, there is a next step until all of them are done; then the connection has the
  whole response but the last part, which is what goes out with the destruction of the response.
\<close>

theorem file_is_sent_in_blocks:
  assumes "(strand_step next_pass ^^ k) (fold send (pass_sends head content) send_start) s"
    and "\<not> sq_failed s" "\<not> sq_stopped s"
  shows "k \<le> 3 * (length (read_and_send head content) - 1) \<and>
     (k = 3 * (length (read_and_send head content) - 1) \<longrightarrow> sq_wire s @ last (read_and_send head content) = head @ content) \<and>
     (k < 3 * (length (read_and_send head content) - 1) \<longrightarrow>
        (\<exists>s'. strand_step next_pass s s' \<and> \<not> sq_failed s' \<and> \<not> sq_stopped s'))"
  using file_end [OF file_steps [OF assms(1) file_start assms(2,3)]] assms(2,3) by (auto simp: read_and_send_all)

text \<open>A file of one byte more than a block.\<close>

theorem file_is_sent_in_blocks_witness:
  "\<exists>s. (strand_step next_pass ^^ 3) (fold send (pass_sends ''H'' (replicate BLOCK (CHR ''x'') @ ''y'')) send_start) s \<and>
     sq_wire s @ ''y'' = ''H'' @ replicate BLOCK (CHR ''x'') @ ''y''"
proof -
  let ?f = "replicate BLOCK (CHR ''x'') @ ''y''" and ?b = "(CHR ''H'' # replicate BLOCK (CHR ''x''), Some ''y'')"
  have short: "take BLOCK ''y'' = ''y''" by (simp add: BLOCK_def)
  have sends: "pass_sends ''H'' ?f = [?b]" "pass_sends [] ''y'' = []"
    by (simp_all add: pass_sends_def short) (simp add: BLOCK_def)
  have texts: "read_and_send ''H'' ?f = [fst ?b, ''y'']"
  proof -
    have last: "read_and_send [] ''y'' = [''y'']"
      by (subst read_and_send.simps) (simp add: short BLOCK_def)
    have "0 < BLOCK" by (simp add: BLOCK_def)
    then show ?thesis by (subst read_and_send.simps) (simp add: last)
  qed
  note eval = send_start_def send_def emplace_back_def async_write_def send_from_queue_def write_ended_def call_back_def
    next_pass_def sends
  let ?s0 = "fold send (pass_sends ''H'' ?f) send_start"
  let ?s1 = "run_task (EmplaceBack ?b) (?s0\<lparr>sq_posted := []\<rparr>)"
  let ?s2 = "run_task AsyncWrite (?s1\<lparr>sq_posted := []\<rparr>)"
  let ?s3 = "write_ended next_pass True False 0 ?s2"
  have "strand_step next_pass ?s0 ?s1" by (rule strand_step.task) (simp add: eval)
  moreover have "strand_step next_pass ?s1 ?s2" by (rule strand_step.task) (simp add: eval)
  moreover have "strand_step next_pass ?s2 ?s3" by (rule strand_step.ended) (simp add: eval)
  ultimately have run: "(strand_step next_pass ^^ 3) ?s0 ?s3"
    unfolding numeral_3_eq_3 by (meson relpowp_0_I relpowp_Suc_I)
  have "\<not> sq_failed ?s3" "\<not> sq_stopped ?s3" by (simp_all add: eval)
  from file_is_sent_in_blocks [OF run this] have "sq_wire ?s3 @ ''y'' = ''H'' @ ?f" by (simp add: texts)
  with run show ?thesis by blast
qed

end
