(* ===== verification/Spec2Isabelle.thy ===== *)
theory Spec2Isabelle
  imports NanoProtocol KStreamLaws Blake2spSSE Blake2xb Blake2xs NanoObjectLaws DbLaws DbStored SessionLaws ScopeRunner SendQueue
begin

text \<open>
  nanocap captures the network traffic of Nano nodes, from a live device or a pcap file, and stores
  the messages, blocks and bootstrap streams it finds in an SQLite database. A packet goes this
  way: PcapPlusPlus reassembles the TCP streams and calls back (\<open>packet_handler.cpp\<close>); the callback
  queues a copy of the data; the processing thread takes a packet off the queue, reads it as a
  message with the parser generated from a Kaitai description (\<open>nano.cpp\<close> on \<open>kaitaistream.cpp\<close>), or
  as a piece of the response stream its connection is in, and hands the result to the database
  object (\<open>db.cpp\<close>), which hashes blocks with BLAKE2b (\<open>blake2/\<close>), makes account addresses
  (\<open>nanoutil.cpp\<close>) and inserts rows through prepared statements (\<open>SQLiteCpp/\<close>). A web server
  (\<open>webserver.cpp\<close> on \<open>webserver/\<close>) starts and stops the capture, answers queries on the database and
  serves the files of the console; \<open>app.cpp\<close> starts the parts from a configuration (\<open>config.hpp\<close>).

  Theories and the code they model, in the order they build on each other:

  \<^item> \<open>Prelude\<close>: bytes, little and big endian words, lists.
  \<^item> \<open>KStream\<close>, \<open>KStreamLaws\<close>: \<open>kaitai::kstream\<close>, a position in a byte string; a reader returns a
    value and the stream behind it, or an exception of the library. Integers, bits, byte arrays,
    terminated strings, and the processing routines. The locales \<open>wire_codec\<close>, \<open>fixed_codec\<close> and
    \<open>counted_records\<close> are the contracts of a wire format, a format of fixed width, and the
    generated counting loops; every record of the protocol interprets one.
  \<^item> \<open>NanoHeader\<close>, \<open>NanoBlocks\<close>, \<open>NanoRecords\<close>, \<open>NanoMessages\<close>: the classes of \<open>nano.h\<close> as records and
    their \<open>_read\<close> methods as readers; an enumeration has a constructor for values it does not list.
  \<^item> \<open>NanoWire\<close>, \<open>NanoProtocol\<close>: the wire format of whole messages; the reader accepts exactly the
    encodings of well formed messages and returns what was encoded; what its loops do.
  \<^item> \<open>NanoObjects\<close>, \<open>NanoObjectLaws\<close>: the constructors and destructors of the same classes as what they
    do to memory: which cells an object owns, that its destructor gives back these and no others, and
    what a message that is rejected leaves behind. The locale \<open>object_loop\<close> is the contract of a loop
    that fills a vector with objects, interpreted for the four of them.
  \<^item> \<open>Blake2Impl\<close>, \<open>Blake2b\<close>, \<open>Blake2s\<close>: the reference library and a definition of BLAKE2 after RFC
    7693; the library refines it. The locale \<open>block_hash\<close> is the contract of buffered hashing, from
    which hashing in pieces follows for both.
  \<^item> \<open>Blake2bSSE\<close>, \<open>Blake2sSSE\<close>: the SSE2 libraries, equal to the reference in one call and in
    pieces. \<open>Lanes\<close>,
    \<open>Blake2bp\<close>, \<open>Blake2sp\<close>: the parallel tree modes, equal to the tree of hashes; \<open>Blake2bpSSE\<close>,
    \<open>Blake2spSSE\<close>: the same over the SSE2 libraries, equal to the reference. \<open>Blake2xb\<close>,
    \<open>Blake2xs\<close>: output of any length, equal to the output function of the specification; the locales
    \<open>hash_library_b\<close> and \<open>hash_library_s\<close> are the contract of the hash library they are linked with,
    interpreted for the reference and the SSE2 library.
  \<^item> \<open>NanoUtil\<close>: hex, decimal balances, account addresses and block hashes, with what reads them back.
  \<^item> \<open>Action\<close>: stateful code that throws, its triples, and loops that may not end.
  \<^item> \<open>Sqlite\<close>: \<open>SQLite::Statement\<close> and \<open>SQLite::Transaction\<close>. \<open>Capture\<close>: the configuration, a queued
    packet (\<open>nano_packet\<close>), a connection (\<open>tcp_flow_data\<close>), and the environment.
  \<^item> \<open>Db\<close>: \<open>nanocap::db\<close>; \<open>DbSafety\<close>: its invariant, kept by every method without a throw.
  \<^item> \<open>PacketHandler\<close>: \<open>handle_tcp\<close> with its four stream loops, the message handlers, the callbacks
    and the queue, and the runs of the handler as a step relation.
  \<^item> \<open>HandlerLoops\<close>, \<open>HandlerSafety\<close>, \<open>HandlerRuns\<close>, \<open>HandlerStreams\<close>, \<open>DbLaws\<close>: the loops end; the
    invariant of the handler over all runs, and nothing undefined; the queue is worked off; a
    frontier response is stored whatever packets it comes in; a stream that keeps the thread for
    good; what a rejected row and an earlier vote do to later rows. \<open>DbStored\<close>: from the bytes of a
    packet that carries a block to the rows it adds, column by column.
  \<^item> \<open>Config\<close>: the configuration and the json library it is loaded and saved with. \<open>DbQuery\<close>,
    \<open>DbReads\<close>: the rows and columns of a query, the read side of the database, and what it says of the
    tables. \<open>Capturing\<close>: the device, the import of a file and the stop at the maximum size.
  \<^item> \<open>WebText\<close>, \<open>WebStatus\<close>: percent encoding, query strings, header fields, requests, status codes and
    responses; the locale \<open>http_message\<close> is the contract of a format that is read back, interpreted for
    requests and responses. \<open>WebServer\<close>: the handlers as actions on the application. \<open>WebSession\<close>: a
    connection, with the content of its requests. \<open>ScopeRunner\<close>: the lock under which handlers run.
    \<open>SendQueue\<close>: the blocks of a response and their callbacks, as the strand and the writes interleave.
  \<^item> \<open>WebContract\<close>: what a request keeps. The locale \<open>web_contract\<close> has a predicate on states and what
    it takes for the handlers, a request and a connection to keep it. It is interpreted for every
    state and for the reported flags (by way of the locale \<open>flag_predicate\<close>), with no assumption on the
    engine or the SQL of clients, and in \<open>AppRuns\<close> for the invariant of the application.
  \<^item> \<open>AppRuns\<close>: the threads of the application as a step relation, and what every step keeps.
    \<open>AppMain\<close>: the start, the import as a whole, and how the process ends.
  \<^item> \<open>AppLaws\<close>, \<open>WebLaws\<close>, \<open>SessionLaws\<close>: the flags that are reported agree with the device; what
    a request is answered with; a query reaches the database as the client wrote it; which files are sent; what
    destroying the data leaves; requests are answered in order, and what of them is lost.

  Correspondence. A C or C++ function is a definition of its name; a loop is a recursive definition
  with the loop's state as arguments; words have the width of the C type. In the parser and the
  BLAKE2 models an exception or an error code is the left of a sum or none. In the database and the
  handler an action maps the state to a result or the exception thrown and to the state as it was
  left then. Behaviour the language leaves open is the failure \<open>Undefined\<close> (a cast to a wrong class,
  an index past \<open>count_per_type\<close>, a balance conversion past the end of a string), which nothing
  catches and which is shown never to occur.

  Parameters. The SQLite engine is a function from the calls that succeeded so far and the next
  call to its result code (\<open>sqlite_engine\<close>); \<open>environment\<close> adds what it answers at start, the text of a
  time and of an IPv6 address, and \<open>boost::circular_buffer\<close>. The hypotheses are \<open>engine_ok\<close> (the
  engine takes every row the schema allows, and every begin, commit and deletion), \<open>buffer_ok\<close> (what
  the buffer documents of \<open>push_back\<close> and \<open>erase\<close>), \<open>erasing\<close> (an erasure shortens the buffer) and
  \<open>start_ok\<close> (the engine answers the two start queries by the tables, whose keys are in the budget
  of earlier runs); \<open>sample_environment\<close> satisfies them. The application adds an \<open>app_environment\<close>:
  PcapPlusPlus (\<open>pcap_library\<close>), the json library (\<open>json_library\<close>), what the engine answers to a text of
  SQL (\<open>sqlite_reader\<close>), the tables it lists, the file system (\<open>fs_library\<close>), the order of a multimap
  and which of several equal keys its \<open>find\<close> gives. Of these \<open>json_throws\<close> assumes that the
  json library throws nothing but exceptions, and \<open>web_env_ok\<close> besides that the packet table is listed
  and that the program's own two SELECT statements change nothing; \<open>sample_app_environment\<close> satisfies
  them. A client's text of SQL may do anything: that requests and connections return, what they are
  answered with, and the reported flags depend on neither the engine nor these texts. The agreement of
  counters and tables does: it is stated for runs whose clients ask texts that only read
  (\<open>input_reads\<close>), and \<open>deleting_query\<close> shows that it fails without. What the wrapper's model says of a prepared
  statement (binding a stepped statement is misuse, a reset keeps the bindings) is documented by
  SQLite.

  Bounds. Nothing has fuel: the parser's loops end by the bytes left, the hash loops by the bytes
  left in blocks, and the stream loops of the handler are \<open>partial_function\<close>s, for which ending is a
  theorem (\<open>handle_tcp_returns\<close>) or is refuted (\<open>pending_stream_does_not_end\<close>). \<open>next_id\<close> is an
  integer; a run has a budget of a billion ids, far below 64 bits.

  Runs. A step of \<open>ph_step\<close> is a callback or one packet processed. Callbacks and methods of the
  database hold its mutex, the queue has its own; a round works on a connection's state without a
  lock, which a restart of the connection can interrupt in the middle (noted as a finding): runs
  here interleave whole rounds. A run ends at a throw that leaves a callback.

  The runs of the application interleave packets, passes of an import, rounds of the processing
  thread, whole requests and the signal.

  Not modelled: PcapPlusPlus, the json library, Boost and the SQLite engine beyond what is said of
  them above; sockets, timeouts and the threads of the web server; output to the console; the HTTP
  client and HTTPS, which nanocap does not use; the schema as SQL text; zlib, iconv and the float readers of
  the stream library; of the vendored BLAKE2, which nanocap links for one function, the message loads
  of other instruction sets and the test vector programs. Checks by \<open>assert\<close> (one row per
  insert, the capacity of the buffer) are left out; the first holds of an insert that succeeds.
\<close>

end
